(* ===== verification/Prelude.thy ===== *)
theory Prelude
  imports Main "HOL-Library.Sublist"
begin

text \<open>
  What every component shares. Tables of the database are lists of records addressed by a
  key (\<open>find_row\<close>, \<open>update_rows\<close>); transactions return \<open>error + ('a \<times> state)\<close>, where
  \<open>Inl\<close> is a rolled-back transaction and \<open>after\<close> reads the state that is left; a component
  with state is a machine (\<open>reach\<close>), and the locales \<open>invariant_machine\<close> and
  \<open>stable_fact\<close> prove once what holds in every reachable state and what, once true, stays
  true. Each machine of the development interprets them on its own step function.
\<close>

named_theorems table_simps \<open>set and key equations of table updates\<close>
named_theorems step_defs \<open>definitions of the operations a step may run\<close>

section \<open>Texts\<close>

text \<open>A Python string is the list of its code points; \<open>u\<close> writes an ASCII literal.\<close>

type_synonym pystr = "nat list"

definition u :: "string \<Rightarrow> pystr" where
  "u s = map of_char s"

lemma length_u [simp]: "length (u s) = length s"
  by (simp add: u_def)

lemma u_eq_iff [simp]: "u s = u t \<longleftrightarrow> s = t"
  by (auto simp: u_def inj_map_eq_map [OF inj_of_char])

section \<open>Tables\<close>

definition find_row :: "('r \<Rightarrow> 'k) \<Rightarrow> 'k \<Rightarrow> 'r list \<Rightarrow> 'r option" where
  "find_row key k rows = find (\<lambda>r. key r = k) rows"

definition update_rows :: "('r \<Rightarrow> bool) \<Rightarrow> ('r \<Rightarrow> 'r) \<Rightarrow> 'r list \<Rightarrow> 'r list" where
  "update_rows p f rows = map (\<lambda>r. if p r then f r else r) rows"

lemma find_row_Nil [simp]: "find_row key k [] = None"
  by (simp add: find_row_def)

lemma find_row_Cons [simp]:
  "find_row key k (r # rows) = (if key r = k then Some r else find_row key k rows)"
  by (simp add: find_row_def)

lemma find_row_SomeD: "find_row key k rows = Some r \<Longrightarrow> r \<in> set rows \<and> key r = k"
  by (auto simp: find_row_def find_Some_iff in_set_conv_nth)

lemma find_row_None_iff: "find_row key k rows = None \<longleftrightarrow> k \<notin> key ` set rows"
  by (auto simp: find_row_def find_None_iff)

lemma find_row_exists: "r \<in> set rows \<Longrightarrow> \<exists>r'. find_row key (key r) rows = Some r'"
  by (induction rows) auto

lemma find_row_unique:
  "distinct (map key rows) \<Longrightarrow> r \<in> set rows \<Longrightarrow> key r = k \<Longrightarrow> find_row key k rows = Some r"
  by (induction rows) auto

lemma distinct_keyD:
  "distinct (map key rows) \<Longrightarrow> r \<in> set rows \<Longrightarrow> r' \<in> set rows \<Longrightarrow> key r = key r' \<Longrightarrow> r = r'"
  by (meson distinct_map inj_onD)

lemma update_rows_Nil [simp]: "update_rows p f [] = []"
  by (simp add: update_rows_def)

lemma update_rows_Cons [simp]:
  "update_rows p f (r # rows) = (if p r then f r else r) # update_rows p f rows"
  by (simp add: update_rows_def)

lemma set_update_rows:
  "set (update_rows p f rows) = (\<lambda>r. if p r then f r else r) ` set rows"
  by (simp add: update_rows_def)

lemma ball_update_rows [table_simps]:
  "(\<forall>r\<in>set (update_rows p f rows). Q r) \<longleftrightarrow> (\<forall>r\<in>set rows. Q (if p r then f r else r))"
  by (auto simp: update_rows_def)

lemma bex_update_rows [table_simps]:
  "(\<exists>r\<in>set (update_rows p f rows). Q r) \<longleftrightarrow> (\<exists>r\<in>set rows. Q (if p r then f r else r))"
  by (auto simp: update_rows_def)

lemma update_rows_cong:
  "(\<And>r. r \<in> set rows \<Longrightarrow> p r = q r) \<Longrightarrow> update_rows p f rows = update_rows q f rows"
  by (simp add: update_rows_def)

lemma in_update_rowsE:
  assumes "r \<in> set (update_rows p f rows)"
  obtains r0 where "r0 \<in> set rows" "r = (if p r0 then f r0 else r0)"
  using assms by (auto simp: set_update_rows)

lemma update_rows_keys:
  assumes "\<And>r. key (f r) = key r"
  shows "map key (update_rows p f rows) = map key rows"
  using assms by (induction rows) auto

lemma find_row_update_rows:
  assumes "\<And>r. key (f r) = key r"
  shows "find_row key k (update_rows p f rows)
    = map_option (\<lambda>r. if p r then f r else r) (find_row key k rows)"
  using assms by (induction rows) auto

lemma length_update_rows [simp]: "length (update_rows p f rows) = length rows"
  by (simp add: update_rows_def)

section \<open>Transactions\<close>

text \<open>
  The state a transaction leaves: its own on a commit, the one it started from on a
  refusal (every refusing path of the program rolls back or never writes).
\<close>

definition after :: "('e + 'a \<times> 's) \<Rightarrow> 's \<Rightarrow> 's" where
  "after r s = (case r of Inl _ \<Rightarrow> s | Inr (_, s') \<Rightarrow> s')"

lemma after_Inl [simp]: "after (Inl e) s = s"
  by (simp add: after_def)

lemma after_Inr [simp]: "after (Inr (a, t)) s = t"
  by (simp add: after_def)

lemma after_keep:
  assumes "P s" and "\<And>a t. r = Inr (a, t) \<Longrightarrow> P t"
  shows "P (after r s)"
proof (cases r)
  case (Inl e)
  with assms(1) show ?thesis by simp
next
  case (Inr b)
  then show ?thesis using assms(2) by (cases b) simp
qed

section \<open>Machines, invariants, stable facts\<close>

inductive reach :: "('s \<Rightarrow> bool) \<Rightarrow> ('s \<Rightarrow> 's \<Rightarrow> bool) \<Rightarrow> 's \<Rightarrow> bool" for init step where
  reach_init: "init s \<Longrightarrow> reach init step s"
| reach_step: "reach init step s \<Longrightarrow> step s t \<Longrightarrow> reach init step t"

locale invariant_machine =
  fixes init :: "'s \<Rightarrow> bool"
    and step :: "'s \<Rightarrow> 's \<Rightarrow> bool"
    and inv :: "'s \<Rightarrow> bool"
  assumes inv_init: "init s \<Longrightarrow> inv s"
    and inv_step: "inv s \<Longrightarrow> step s t \<Longrightarrow> inv t"
begin

lemma reach_inv: "reach init step s \<Longrightarrow> inv s"
  by (induction rule: reach.induct) (auto intro: inv_init inv_step)

lemma steps_inv: "step\<^sup>*\<^sup>* s t \<Longrightarrow> inv s \<Longrightarrow> inv t"
  by (induction rule: rtranclp_induct) (auto intro: inv_step)

lemma reach_steps: "step\<^sup>*\<^sup>* s t \<Longrightarrow> reach init step s \<Longrightarrow> reach init step t"
  by (induction rule: rtranclp_induct) (auto intro: reach_step)

end

text \<open>
  A fact that no step can undo: \<open>fact x\<close> for every \<open>x\<close> of an index type (an attempt, a
  job, a ticket). What a client needs from it is that it survives any run.
\<close>

locale stable_fact = invariant_machine +
  fixes fact :: "'x \<Rightarrow> 's \<Rightarrow> bool"
  assumes fact_step: "inv s \<Longrightarrow> step s t \<Longrightarrow> fact x s \<Longrightarrow> fact x t"
begin

lemma fact_steps:
  assumes "step\<^sup>*\<^sup>* s t" "inv s" "fact x s"
  shows "fact x t"
proof -
  from assms have "inv t \<and> fact x t"
    by (induction rule: rtranclp_induct) (auto intro: inv_step fact_step)
  then show ?thesis ..
qed

lemma fact_forever:
  "reach init step s \<Longrightarrow> fact x s \<Longrightarrow> step\<^sup>*\<^sup>* s t \<Longrightarrow> fact x t"
  by (blast intro: fact_steps reach_inv)

end

end
