(* ===== verification/Ingest_State.thy ===== *)
theory Ingest_State
  imports Prelude
begin

text \<open>
  The tables of \<open>pipeline/index/schema.sql\<close> that one tenant's connection sees and that the
  ingest operations of \<open>pipeline/index/db.py\<close> read and write, the vocabulary frozen in
  \<open>pipeline/index/attempt_contract.py\<close>, and the statements several operations share: row
  lookups, the activation trigger and the registration trigger.
\<close>

section \<open>Vocabulary\<close>

type_synonym uuid = nat

text \<open>Instants and intervals, in milliseconds of the database clock.\<close>

type_synonym time = int

datatype candidate_state = STAGED | PUBLISHED

datatype attempt_outcome = DONE | ERROR | PARTIAL | SUPERSEDED

definition WORKER_WRITABLE_OUTCOMES :: "attempt_outcome list" where
  "WORKER_WRITABLE_OUTCOMES = [ERROR, PARTIAL]"

fun outcome_text :: "attempt_outcome \<Rightarrow> pystr" where
  "outcome_text DONE = u ''done''"
| "outcome_text ERROR = u ''error''"
| "outcome_text PARTIAL = u ''partial''"
| "outcome_text SUPERSEDED = u ''superseded''"

datatype job_status = Queued | Running | Succeeded | Partial | Failed | Cancelled

text \<open>
  Every refusal the operations raise. \<open>IntegrityError\<close> is a violated constraint of the
  schema (NOT NULL, CHECK, a foreign key), \<open>RaisedException\<close> what a trigger raises.
\<close>

datatype ingest_error =
    CandidateConflict
  | CandidateNotPublished
  | AttemptAlreadyRunning
  | AttemptFenced
  | AttemptLeaseLost
  | AttemptRecordInconsistent
  | AttemptOutcomeNotWritable
  | DocumentLifecycleConflict
  | DocumentVersionConflict
  | IngestJobConflict
  | IngestJobOwnershipLost
  | ValueError string
  | IntegrityError
  | RaisedException

section \<open>Rows\<close>

record document =
  d_id :: uuid
  d_filename :: pystr
  d_file_type :: pystr
  d_uploaded_at :: time
  d_status :: pystr
  d_status_note :: "pystr option"
  d_content_sha256 :: "pystr option"
  d_candidate_id :: "uuid option"
  d_candidate_state :: "candidate_state option"
  d_active_generation :: nat
  d_last_generation :: nat
  d_active_content_sha :: "pystr option"
  d_active_version_id :: "uuid option"
  d_revision :: nat
  d_last_version_number :: nat
  d_attempt_id :: "uuid option"
  d_attempt_owner :: "pystr option"
  d_attempt_expires_at :: "time option"
  d_archived_at :: "time option"
  d_purged_at :: "time option"

record attempt_row =
  a_id :: uuid
  a_document :: uuid
  a_candidate :: uuid
  a_sha :: pystr
  a_observed_active :: nat
  a_owner :: "pystr option"
  a_status :: "attempt_outcome option"
  a_note :: "pystr option"
  a_ended_at :: "time option"

record version_row =
  v_id :: uuid
  v_document :: uuid
  v_number :: nat
  v_sha :: pystr
  v_created_at :: time

record build_row =
  b_document :: uuid
  b_version :: uuid
  b_generation :: nat
  b_sha :: pystr
  b_attempt :: uuid
  b_chunk_count :: nat

datatype event_type = Registered | Activated

record version_event =
  e_document :: uuid
  e_type :: event_type
  e_from :: "uuid option"
  e_to :: uuid
  e_expected :: nat
  e_resulting :: nat

record chunk =
  c_id :: uuid
  c_document :: uuid
  c_version :: "uuid option"
  c_generation :: nat
  c_content_key :: "uuid option"
  c_fingerprint :: "pystr option"
  c_text :: pystr
  c_payload :: "pystr list"
  c_dense :: pystr
  c_sparse :: pystr

record job =
  j_id :: uuid
  j_document :: uuid
  j_candidate :: uuid
  j_version :: uuid
  j_sha :: pystr
  j_key :: pystr
  j_status :: job_status
  j_attempt_count :: nat
  j_worker :: "pystr option"
  j_lease_expires_at :: "time option"
  j_created_at :: time
  j_started_at :: "time option"
  j_finished_at :: "time option"
  j_outcome_note :: "pystr option"

text \<open>
  The database: the tables in insertion order, its clock and the supply of identities.
  A \<open>uuid4()\<close> never returns an identity twice, so it is the next number of a counter.
\<close>

record db =
  docs :: "document list"
  attempts :: "attempt_row list"
  versions :: "version_row list"
  builds :: "build_row list"
  events :: "version_event list"
  chunks :: "chunk list"
  jobs :: "job list"
  clock :: time
  uuid_next :: uuid

text \<open>The immutable identity of one run, as \<open>begin_attempt\<close> mints it.\<close>

record ingest_attempt =
  attempt_id :: uuid
  document_id :: uuid
  candidate_id :: uuid
  candidate_sha :: pystr
  observed_active :: nat

definition empty_db :: db where
  "empty_db = \<lparr>docs = [], attempts = [], versions = [], builds = [], events = [], chunks = [],
     jobs = [], clock = 0, uuid_next = 0\<rparr>"

section \<open>Shared statements\<close>

definition uuid4 :: "db \<Rightarrow> uuid \<times> db" where
  "uuid4 s = (uuid_next s, s\<lparr>uuid_next := Suc (uuid_next s)\<rparr>)"

definition get_doc :: "db \<Rightarrow> uuid \<Rightarrow> document option" where
  "get_doc s i = find_row d_id i (docs s)"

definition update_doc :: "uuid \<Rightarrow> (document \<Rightarrow> document) \<Rightarrow> db \<Rightarrow> db" where
  "update_doc i f s = s\<lparr>docs := update_rows (\<lambda>d. d_id d = i) f (docs s)\<rparr>"

definition get_attempt :: "db \<Rightarrow> uuid \<Rightarrow> attempt_row option" where
  "get_attempt s i = find_row a_id i (attempts s)"

definition get_job :: "db \<Rightarrow> uuid \<Rightarrow> job option" where
  "get_job s i = find_row j_id i (jobs s)"

text \<open>\<open>attempt_id = NULL, attempt_owner = NULL, attempt_expires_at = NULL\<close>\<close>

definition clear_lease :: "document \<Rightarrow> document" where
  "clear_lease d = d\<lparr>d_attempt_id := None, d_attempt_owner := None, d_attempt_expires_at := None\<rparr>"

text \<open>\<open>attempt_expires_at IS NOT NULL AND attempt_expires_at > now()\<close>\<close>

definition live :: "db \<Rightarrow> time option \<Rightarrow> bool" where
  "live s expires = (case expires of None \<Rightarrow> False | Some t \<Rightarrow> clock s < t)"

definition close_attempts :: "(attempt_row \<Rightarrow> bool) \<Rightarrow> attempt_outcome \<Rightarrow> db \<Rightarrow> db" where
  "close_attempts p out s = s\<lparr>attempts :=
     update_rows (\<lambda>r. a_status r = None \<and> p r)
       (\<lambda>r. r\<lparr>a_status := Some out, a_ended_at := Some (clock s)\<rparr>) (attempts s)\<rparr>"

definition active_status :: "job_status \<Rightarrow> bool" where
  "active_status st = (st = Queued \<or> st = Running)"

text \<open>
  The jobs of a document that are queued or running, in the order the queries read them
  (\<open>ORDER BY created_at, id\<close>).
\<close>

definition active_jobs :: "db \<Rightarrow> uuid \<Rightarrow> job list" where
  "active_jobs s doc = sort_key j_created_at (sort_key j_id
     (filter (\<lambda>j. j_document j = doc \<and> active_status (j_status j)) (jobs s)))"

definition chunks_of :: "db \<Rightarrow> uuid \<Rightarrow> uuid option \<Rightarrow> nat \<Rightarrow> chunk list" where
  "chunks_of s doc version gen =
     filter (\<lambda>c. c_document c = doc \<and> c_version c = version \<and> c_generation c = gen) (chunks s)"

definition has_version :: "db \<Rightarrow> uuid \<Rightarrow> uuid \<Rightarrow> bool" where
  "has_version s doc version = (\<exists>v\<in>set (versions s). v_id v = version \<and> v_document v = doc)"

definition hex64 :: "pystr \<Rightarrow> bool" where
  "hex64 x = (length x = 64 \<and> list_all (\<lambda>c. c \<in> set (u ''0123456789abcdef'')) x)"

section \<open>Triggers\<close>

text \<open>
  \<open>record_document_version_registration\<close>: a version row inserted for a document appends
  its \<open>registered\<close> event at the document's revision.
\<close>

definition register_version :: "version_row \<Rightarrow> nat \<Rightarrow> db \<Rightarrow> db" where
  "register_version v revision s = s\<lparr>versions := versions s @ [v],
     events := events s @ [\<lparr>e_document = v_document v, e_type = Registered, e_from = None,
       e_to = v_id v, e_expected = revision, e_resulting = revision\<rparr>]\<rparr>"

definition same_build :: "build_row \<Rightarrow> build_row \<Rightarrow> bool" where
  "same_build b b' = (b_document b = b_document b' \<and> b_version b = b_version b'
     \<and> b_generation b = b_generation b')"

text \<open>\<open>INSERT INTO document_version_builds ... ON CONFLICT DO NOTHING\<close>\<close>

definition insert_build :: "build_row \<Rightarrow> db \<Rightarrow> db" where
  "insert_build b s = (if \<exists>b'\<in>set (builds s). same_build b b' then s
     else s\<lparr>builds := builds s @ [b]\<rparr>)"

text \<open>
  \<open>record_document_version_activation\<close>, fired after an UPDATE of the active pointer from
  \<open>old\<close> to \<open>new\<close>: an activation needs staged chunks and the version's own digest; the run
  that holds the lease leaves the build receipt, and an activation without a lease must
  find one. Only a purge may clear the pointer.
\<close>

definition activation_trigger :: "document \<Rightarrow> document \<Rightarrow> db \<Rightarrow> ingest_error + unit \<times> db" where
  "activation_trigger old new s =
    (if d_active_version_id new = d_active_version_id old
        \<and> d_active_generation new = d_active_generation old then Inr ((), s)
     else case d_active_version_id new of
       None \<Rightarrow> (if d_purged_at new \<noteq> None \<and> d_purged_at old = None then Inr ((), s)
                else Inl RaisedException)
     | Some version \<Rightarrow>
        (case find (\<lambda>v. v_document v = d_id new \<and> v_id v = version) (versions s) of
          None \<Rightarrow> Inl RaisedException
        | Some v \<Rightarrow>
           (let ready = length (chunks_of s (d_id new) (Some version) (d_active_generation new))
            in if ready < 1 \<or> d_active_content_sha new \<noteq> Some (v_sha v) then Inl RaisedException
            else if d_attempt_id old \<noteq> None \<and> d_active_generation new = 0 then Inl IntegrityError
            else
              (let s1 = (case d_attempt_id old of None \<Rightarrow> s
                 | Some att \<Rightarrow> insert_build \<lparr>b_document = d_id new, b_version = version,
                     b_generation = d_active_generation new, b_sha = v_sha v,
                     b_attempt = att, b_chunk_count = ready\<rparr> s)
               in if \<not> (\<exists>b\<in>set (builds s1). b_document b = d_id new \<and> b_version b = version
                     \<and> b_generation b = d_active_generation new \<and> b_sha b = v_sha v
                     \<and> (d_attempt_id old = None \<or> d_attempt_id old = Some (b_attempt b))
                     \<and> b_chunk_count b = ready)
                  then Inl RaisedException
                  else Inr ((), s1\<lparr>events := events s1 @ [\<lparr>e_document = d_id new, e_type = Activated,
                     e_from = d_active_version_id old, e_to = version,
                     e_expected = d_revision old, e_resulting = d_revision new\<rparr>]\<rparr>)))))"

end
