(* ===== verification/Ingest_Invariant.thy ===== *)
theory Ingest_Invariant
  imports Ingest_State
begin

text \<open>
  What every transaction of the ingest database keeps, stated over the tables each clause
  reads, so that an operation that does not write a table keeps its clauses by
  simplification: identities are unique and below the supply; a lease names the one running
  attempt, bound to the recorded candidate; a candidate with known bytes has its immutable
  version; an active version has its receipt and served chunks; a document has at most one
  active job. The second half holds the table-update lemmas that the operations share.
\<close>

section \<open>Clauses\<close>

definition ids_ok :: "uuid \<Rightarrow> document list \<Rightarrow> attempt_row list \<Rightarrow> version_row list \<Rightarrow> job list \<Rightarrow> bool" where
  "ids_ok n ds as vs js \<longleftrightarrow>
     distinct (map d_id ds) \<and> distinct (map a_id as) \<and> distinct (map v_id vs) \<and> distinct (map j_id js)
     \<and> (\<forall>d\<in>set ds. d_id d < n \<and> (\<forall>c. d_candidate_id d = Some c \<longrightarrow> c < n))
     \<and> (\<forall>r\<in>set as. a_id r < n) \<and> (\<forall>v\<in>set vs. v_id v < n) \<and> (\<forall>j\<in>set js. j_id j < n)"

text \<open>A lease is held by a running attempt of this document and of its recorded candidate.\<close>

definition lease_ok :: "document list \<Rightarrow> attempt_row list \<Rightarrow> bool" where
  "lease_ok ds as \<longleftrightarrow> (\<forall>d\<in>set ds. \<forall>a. d_attempt_id d = Some a \<longrightarrow>
     (\<exists>r\<in>set as. a_id r = a \<and> a_status r = None \<and> a_document r = d_id d
        \<and> d_candidate_id d = Some (a_candidate r)))"

text \<open>A running attempt holds the lease of its document.\<close>

definition running_ok :: "document list \<Rightarrow> attempt_row list \<Rightarrow> bool" where
  "running_ok ds as \<longleftrightarrow> (\<forall>r\<in>set as. a_status r = None \<longrightarrow>
     (\<exists>d\<in>set ds. d_id d = a_document r \<and> d_attempt_id d = Some (a_id r)))"

definition versions_ok :: "document list \<Rightarrow> version_row list \<Rightarrow> bool" where
  "versions_ok ds vs \<longleftrightarrow>
     (\<forall>d\<in>set ds. \<forall>c h. d_candidate_id d = Some c \<longrightarrow> d_content_sha256 d = Some h \<longrightarrow>
        (\<exists>v\<in>set vs. v_id v = c \<and> v_document v = d_id d \<and> v_sha v = h))
     \<and> (\<forall>v\<in>set vs. \<exists>d\<in>set ds. d_id d = v_document v \<and> 0 < v_number v
          \<and> v_number v \<le> d_last_version_number d)
     \<and> (\<forall>v\<in>set vs. \<forall>v'\<in>set vs. v_document v = v_document v' \<longrightarrow> v_number v = v_number v' \<longrightarrow> v = v')"

text \<open>What is served is proven: a version of the document, its receipt and its chunks.\<close>

definition active_ok :: "document list \<Rightarrow> version_row list \<Rightarrow> build_row list \<Rightarrow> chunk list \<Rightarrow> bool" where
  "active_ok ds vs bs cs \<longleftrightarrow> (\<forall>d\<in>set ds. \<forall>version. d_active_version_id d = Some version \<longrightarrow>
     (\<exists>v\<in>set vs. v_id v = version \<and> v_document v = d_id d \<and> d_active_content_sha d = Some (v_sha v))
     \<and> (\<exists>b\<in>set bs. b_document b = d_id d \<and> b_version b = version \<and> b_generation b = d_active_generation d)
     \<and> (\<exists>c\<in>set cs. c_document c = d_id d \<and> c_version c = Some version
          \<and> c_generation c = d_active_generation d))"

definition terminal_status :: "job_status \<Rightarrow> bool" where
  "terminal_status st = (st \<in> {Succeeded, Partial, Failed, Cancelled})"

definition jobs_ok :: "job list \<Rightarrow> bool" where
  "jobs_ok js \<longleftrightarrow>
     (\<forall>j\<in>set js. \<forall>j'\<in>set js. j_document j = j_document j' \<longrightarrow> active_status (j_status j) \<longrightarrow>
        active_status (j_status j') \<longrightarrow> j_id j = j_id j')
     \<and> (\<forall>j\<in>set js. \<forall>j'\<in>set js. j_document j = j_document j' \<longrightarrow> j_key j = j_key j' \<longrightarrow> j_id j = j_id j')
     \<and> (\<forall>j\<in>set js. (j_status j = Running) = (j_worker j \<noteq> None \<and> j_lease_expires_at j \<noteq> None)
          \<and> terminal_status (j_status j) = (j_finished_at j \<noteq> None))"

definition db_inv :: "db \<Rightarrow> bool" where
  "db_inv s \<longleftrightarrow> ids_ok (uuid_next s) (docs s) (attempts s) (versions s) (jobs s)
     \<and> lease_ok (docs s) (attempts s) \<and> running_ok (docs s) (attempts s)
     \<and> versions_ok (docs s) (versions s)
     \<and> active_ok (docs s) (versions s) (builds s) (chunks s) \<and> jobs_ok (jobs s)"

lemma db_inv_empty [simp]: "db_inv empty_db"
  by (simp add: db_inv_def empty_db_def ids_ok_def lease_ok_def running_ok_def versions_ok_def
      active_ok_def jobs_ok_def)

lemma db_invD:
  assumes "db_inv s"
  shows "ids_ok (uuid_next s) (docs s) (attempts s) (versions s) (jobs s)"
    "lease_ok (docs s) (attempts s)" "running_ok (docs s) (attempts s)"
    "versions_ok (docs s) (versions s)" "active_ok (docs s) (versions s) (builds s) (chunks s)"
    "jobs_ok (jobs s)"
  using assms by (auto simp: db_inv_def)

section \<open>Monotonicity and document updates\<close>

lemma ids_ok_mono: "ids_ok n ds as vs js \<Longrightarrow> n \<le> m \<Longrightarrow> ids_ok m ds as vs js"
  by (fastforce simp: ids_ok_def)

text \<open>
  An update of documents that keeps the identity, the candidate and the lease keeps the
  attempt clauses; one that keeps the candidate and its bytes keeps the versions; one that
  keeps the active pointer keeps what is served.
\<close>

lemma map_d_id_update:
  "(\<And>d. d_id (f d) = d_id d) \<Longrightarrow> map d_id (update_rows p f ds) = map d_id ds"
  by (induction ds) auto

lemma ids_ok_update_docs:
  assumes "ids_ok n ds as vs js" "\<And>d. d_id (f d) = d_id d"
    and "\<And>d c. d \<in> set ds \<Longrightarrow> p d \<Longrightarrow> d_candidate_id (f d) = Some c \<Longrightarrow> c < n"
  shows "ids_ok n (update_rows p f ds) as vs js"
  using assms by (auto simp: ids_ok_def map_d_id_update set_update_rows split: if_splits)

lemma lease_ok_update_docs:
  assumes "lease_ok ds as" "\<And>d. d_id (f d) = d_id d"
    and "\<And>d. d \<in> set ds \<Longrightarrow> p d \<Longrightarrow> d_attempt_id (f d) = None \<or>
           (d_attempt_id (f d) = d_attempt_id d \<and> d_candidate_id (f d) = d_candidate_id d)"
  shows "lease_ok (update_rows p f ds) as"
  unfolding lease_ok_def
proof (intro ballI allI impI)
  fix d a
  assume "d \<in> set (update_rows p f ds)" and held: "d_attempt_id d = Some a"
  then obtain d0 where d0: "d0 \<in> set ds" "d = (if p d0 then f d0 else d0)"
    by (auto simp: set_update_rows)
  with held assms(3) have "d_attempt_id d0 = Some a" "d_candidate_id d = d_candidate_id d0"
    by (force split: if_splits)+
  with d0 assms(1,2) show "\<exists>r\<in>set as. a_id r = a \<and> a_status r = None \<and> a_document r = d_id d
      \<and> d_candidate_id d = Some (a_candidate r)"
    by (auto simp: lease_ok_def split: if_splits)
qed

lemma running_ok_update_docs:
  assumes "running_ok ds as" "\<And>d. d_id (f d) = d_id d" "\<And>d. d_attempt_id (f d) = d_attempt_id d"
  shows "running_ok (update_rows p f ds) as"
proof -
  have "d_id (if p d then f d else d) = d_id d" "d_attempt_id (if p d then f d else d) = d_attempt_id d" for d
    using assms(2,3) by auto
  with assms(1) show ?thesis by (simp add: running_ok_def table_simps)
qed

lemma versions_ok_update_docs:
  assumes "versions_ok ds vs" "\<And>d. d_id (f d) = d_id d"
    and "\<And>d. d_candidate_id (f d) = d_candidate_id d" "\<And>d. d_content_sha256 (f d) = d_content_sha256 d"
    and "\<And>d. d_last_version_number (f d) = d_last_version_number d"
  shows "versions_ok (update_rows p f ds) vs"
proof -
  have "d_id (if p d then f d else d) = d_id d" "d_candidate_id (if p d then f d else d) = d_candidate_id d"
    "d_content_sha256 (if p d then f d else d) = d_content_sha256 d"
    "d_last_version_number (if p d then f d else d) = d_last_version_number d" for d
    using assms(2-) by auto
  with assms(1) show ?thesis by (simp add: versions_ok_def table_simps)
qed

lemma active_ok_update_docs:
  assumes "active_ok ds vs bs cs" "\<And>d. d_id (f d) = d_id d"
    and "\<And>d. d_active_version_id (f d) = d_active_version_id d"
    and "\<And>d. d_active_generation (f d) = d_active_generation d"
    and "\<And>d. d_active_content_sha (f d) = d_active_content_sha d"
  shows "active_ok (update_rows p f ds) vs bs cs"
proof -
  have "d_id (if p d then f d else d) = d_id d"
    "d_active_version_id (if p d then f d else d) = d_active_version_id d"
    "d_active_generation (if p d then f d else d) = d_active_generation d"
    "d_active_content_sha (if p d then f d else d) = d_active_content_sha d" for d
    using assms(2-) by auto
  with assms(1) show ?thesis by (simp add: active_ok_def table_simps)
qed

lemma active_ok_mono:
  assumes "active_ok ds vs bs cs" "set vs \<subseteq> set vs'" "set bs \<subseteq> set bs'" "set cs \<subseteq> set cs'"
  shows "active_ok ds vs' bs' cs'"
  using assms by (simp add: active_ok_def) (meson subsetD)

text \<open>The frame of an operation that writes none of the columns the invariant reads.\<close>

definition keeps_identity :: "(document \<Rightarrow> document) \<Rightarrow> bool" where
  "keeps_identity f \<longleftrightarrow> (\<forall>d. d_id (f d) = d_id d \<and> d_attempt_id (f d) = d_attempt_id d
     \<and> d_candidate_id (f d) = d_candidate_id d \<and> d_content_sha256 (f d) = d_content_sha256 d
     \<and> d_last_version_number (f d) = d_last_version_number d
     \<and> d_active_version_id (f d) = d_active_version_id d
     \<and> d_active_generation (f d) = d_active_generation d
     \<and> d_active_content_sha (f d) = d_active_content_sha d)"

lemma db_inv_update_docs:
  assumes "db_inv s" "keeps_identity f"
  shows "db_inv (s\<lparr>docs := update_rows p f (docs s)\<rparr>)"
proof -
  note I = db_invD [OF assms(1)] and K = assms(2) [unfolded keeps_identity_def]
  have bound: "c < uuid_next s" if "d \<in> set (docs s)" "d_candidate_id d = Some c" for d c
    using I(1) that by (auto simp: ids_ok_def)
  have "ids_ok (uuid_next s) (update_rows p f (docs s)) (attempts s) (versions s) (jobs s)"
    using bound K by (intro ids_ok_update_docs [OF I(1)]) auto
  with I K show ?thesis
    by (simp add: db_inv_def lease_ok_update_docs running_ok_update_docs
        versions_ok_update_docs active_ok_update_docs)
qed

lemma db_inv_clock [simp]: "db_inv (s\<lparr>clock := t\<rparr>) = db_inv s"
  by (simp add: db_inv_def)

section \<open>Closing attempts\<close>

lemma map_a_id_update:
  "(\<And>r. a_id (f r) = a_id r) \<Longrightarrow> map a_id (update_rows p f as) = map a_id as"
  by (induction as) auto

lemma ids_ok_update_attempts:
  assumes "ids_ok n ds as vs js" "\<And>r. a_id (f r) = a_id r"
  shows "ids_ok n ds (update_rows p f as) vs js"
  using assms by (auto simp: ids_ok_def map_a_id_update set_update_rows)

lemma running_ok_close:
  assumes "running_ok ds as"
    and "\<And>r. a_id (f r) = a_id r" "\<And>r. a_document (f r) = a_document r" "\<And>r. a_status (f r) \<noteq> None"
  shows "running_ok ds (update_rows p f as)"
  unfolding running_ok_def
proof (intro ballI impI)
  fix r
  assume "r \<in> set (update_rows p f as)" and "a_status r = None"
  then have "r \<in> set as"
    by (elim in_update_rowsE) (metis assms(4))
  with \<open>a_status r = None\<close> assms(1) show "\<exists>d\<in>set ds. d_id d = a_document r \<and> d_attempt_id d = Some (a_id r)"
    by (auto simp: running_ok_def)
qed

lemma lease_ok_close:
  assumes "lease_ok ds as"
    and "\<And>r d. r \<in> set as \<Longrightarrow> d \<in> set ds \<Longrightarrow> p r \<Longrightarrow> d_attempt_id d = Some (a_id r) \<Longrightarrow> False"
  shows "lease_ok ds (update_rows p f as)"
  unfolding lease_ok_def
proof (intro ballI allI impI)
  fix d a
  assume d: "d \<in> set ds" "d_attempt_id d = Some a"
  with assms(1) obtain r where r: "r \<in> set as" "a_id r = a" "a_status r = None" "a_document r = d_id d"
      "d_candidate_id d = Some (a_candidate r)"
    by (fastforce simp: lease_ok_def)
  with d assms(2) have "\<not> p r" by auto
  with r have "r \<in> set (update_rows p f as)" by (force simp: set_update_rows)
  with r show "\<exists>r\<in>set (update_rows p f as). a_id r = a \<and> a_status r = None \<and> a_document r = d_id d
      \<and> d_candidate_id d = Some (a_candidate r)" by auto
qed

section \<open>Reading the invariant\<close>

lemma doc_unique:
  "ids_ok n ds as vs js \<Longrightarrow> d \<in> set ds \<Longrightarrow> d' \<in> set ds \<Longrightarrow> d_id d = d_id d' \<Longrightarrow> d = d'"
  by (auto simp: ids_ok_def intro: distinct_keyD)

lemma attempt_unique:
  "ids_ok n ds as vs js \<Longrightarrow> r \<in> set as \<Longrightarrow> r' \<in> set as \<Longrightarrow> a_id r = a_id r' \<Longrightarrow> r = r'"
  by (auto simp: ids_ok_def intro: distinct_keyD)

lemma version_unique:
  "ids_ok n ds as vs js \<Longrightarrow> v \<in> set vs \<Longrightarrow> v' \<in> set vs \<Longrightarrow> v_id v = v_id v' \<Longrightarrow> v = v'"
  by (auto simp: ids_ok_def intro: distinct_keyD)

lemma update_one:
  assumes "ids_ok n ds as vs js" "d \<in> set ds"
  shows "set (update_rows (\<lambda>e. d_id e = d_id d) f ds) = insert (f d) (set ds - {d})"
proof -
  have "(\<lambda>e. if d_id e = d_id d then f e else e) ` set ds = (\<lambda>e. if e = d then f e else e) ` set ds"
    using doc_unique [OF assms(1)] assms(2) by (intro image_cong) auto
  also have "\<dots> = insert (f d) (set ds - {d})"
    using assms(2) by auto
  finally show ?thesis by (simp only: set_update_rows)
qed

lemma get_doc_SomeD: "get_doc s i = Some d \<Longrightarrow> d \<in> set (docs s) \<and> d_id d = i"
  by (auto simp: get_doc_def dest: find_row_SomeD)

lemma get_doc_eq:
  assumes "ids_ok n (docs s) as vs js" "d \<in> set (docs s)" "d_id d = i"
  shows "get_doc s i = Some d"
  using assms by (auto simp: get_doc_def ids_ok_def intro: find_row_unique)

lemma get_attempt_SomeD: "get_attempt s i = Some r \<Longrightarrow> r \<in> set (attempts s) \<and> a_id r = i"
  by (auto simp: get_attempt_def dest: find_row_SomeD)

lemma get_attempt_eq:
  assumes "ids_ok n ds (attempts s) vs js" "r \<in> set (attempts s)" "a_id r = i"
  shows "get_attempt s i = Some r"
  using assms by (auto simp: get_attempt_def ids_ok_def intro: find_row_unique)

text \<open>The two clauses on attempts together: a document has at most one running attempt.\<close>

lemma one_running_attempt:
  assumes "db_inv s" "r \<in> set (attempts s)" "r' \<in> set (attempts s)"
    and "a_status r = None" "a_status r' = None" "a_document r = a_document r'"
  shows "r = r'"
proof -
  note inv = db_invD [OF assms(1)]
  obtain d where d: "d \<in> set (docs s)" "d_id d = a_document r" "d_attempt_id d = Some (a_id r)"
    using inv(3) assms(2,4) by (auto simp: running_ok_def)
  obtain d' where d': "d' \<in> set (docs s)" "d_id d' = a_document r'" "d_attempt_id d' = Some (a_id r')"
    using inv(3) assms(3,5) by (auto simp: running_ok_def)
  from d d' assms(6) doc_unique [OF inv(1)] have "d = d'" by auto
  with d d' attempt_unique [OF inv(1)] assms(2,3) show ?thesis by auto
qed

section \<open>The activation trigger\<close>

text \<open>
  An activation that moved the pointer proved the version's digest, found at least one of its
  chunks and left, or found, the build receipt; it writes builds and events only.
\<close>

lemma activation_trigger_cases:
  assumes "activation_trigger old new s = Inr ((), s')"
  obtains
    (unmoved) "s' = s" "d_active_version_id new = d_active_version_id old"
      "d_active_generation new = d_active_generation old"
  | (purged) "s' = s" "d_active_version_id new = None" "d_purged_at new \<noteq> None" "d_purged_at old = None"
  | (moved) version v b bs where "d_active_version_id new = Some version"
      "v \<in> set (versions s)" "v_document v = d_id new" "v_id v = version"
      "d_active_content_sha new = Some (v_sha v)"
      "chunks_of s (d_id new) (Some version) (d_active_generation new) \<noteq> []"
      "b \<in> set (builds s')" "b_document b = d_id new" "b_version b = version"
      "b_generation b = d_active_generation new"
      "b_chunk_count b = length (chunks_of s (d_id new) (Some version) (d_active_generation new))"
      "s' = s\<lparr>builds := builds s @ bs, events := events s @ [\<lparr>e_document = d_id new, e_type = Activated,
         e_from = d_active_version_id old, e_to = version,
         e_expected = d_revision old, e_resulting = d_revision new\<rparr>]\<rparr>"
proof (cases "d_active_version_id new = d_active_version_id old
    \<and> d_active_generation new = d_active_generation old")
  case True
  with assms unmoved show ?thesis by (simp add: activation_trigger_def)
next
  case False
  show ?thesis
  proof (cases "d_active_version_id new")
  case None
  with assms False show ?thesis by (intro purged) (auto simp: activation_trigger_def split: if_splits)
  next
  case ver: (Some version)
  from assms False ver obtain v where v: "find (\<lambda>v. v_document v = d_id new \<and> v_id v = version)
      (versions s) = Some v"
    by (auto simp: activation_trigger_def split: option.splits)
  then have v': "v \<in> set (versions s)" "v_document v = d_id new" "v_id v = version"
    by (auto simp: find_Some_iff in_set_conv_nth)
  let ?ready = "length (chunks_of s (d_id new) (Some version) (d_active_generation new))"
  define s1 where "s1 = (case d_attempt_id old of None \<Rightarrow> s
      | Some att \<Rightarrow> insert_build \<lparr>b_document = d_id new, b_version = version,
          b_generation = d_active_generation new, b_sha = v_sha v,
          b_attempt = att, b_chunk_count = ?ready\<rparr> s)"
  have ready: "\<not> ?ready < 1" "d_active_content_sha new = Some (v_sha v)"
    using assms False ver v by (auto simp: activation_trigger_def Let_def split: if_splits)
  obtain bs where bs: "s1 = s\<lparr>builds := builds s @ bs\<rparr>"
  proof (cases "d_attempt_id old")
    case None
    then have "s1 = s\<lparr>builds := builds s @ []\<rparr>" by (simp add: s1_def)
    with that show ?thesis by blast
  next
    case (Some att)
    let ?b = "\<lparr>b_document = d_id new, b_version = version, b_generation = d_active_generation new,
        b_sha = v_sha v, b_attempt = att, b_chunk_count = ?ready\<rparr>"
    have "s1 = s\<lparr>builds := builds s @ (if \<exists>b'\<in>set (builds s). same_build ?b b' then [] else [?b])\<rparr>"
      using Some by (simp add: s1_def insert_build_def)
    with that show ?thesis by blast
  qed
  let ?receipt = "\<lambda>b. b_document b = d_id new \<and> b_version b = version
      \<and> b_generation b = d_active_generation new \<and> b_sha b = v_sha v
      \<and> (d_attempt_id old = None \<or> d_attempt_id old = Some (b_attempt b))
      \<and> b_chunk_count b = ?ready"
  have res: "(if \<not> (\<exists>b\<in>set (builds s1). ?receipt b) then Inl RaisedException
      else Inr ((), s1\<lparr>events := events s1 @ [\<lparr>e_document = d_id new, e_type = Activated,
         e_from = d_active_version_id old, e_to = version,
         e_expected = d_revision old, e_resulting = d_revision new\<rparr>]\<rparr>)) = Inr ((), s')"
    using assms False ver v ready by (simp add: activation_trigger_def s1_def Let_def split: if_splits)
  then have "\<exists>b\<in>set (builds s1). ?receipt b" by (rule contrapos_pp) simp
  then obtain b where b: "b \<in> set (builds s1)" "?receipt b" by blast
  with res have s': "s' = s1\<lparr>events := events s1 @ [\<lparr>e_document = d_id new, e_type = Activated,
         e_from = d_active_version_id old, e_to = version,
         e_expected = d_revision old, e_resulting = d_revision new\<rparr>]\<rparr>" by (simp split: if_splits)
  have "chunks_of s (d_id new) (Some version) (d_active_generation new) \<noteq> []"
    using ready(1) by auto
  with ver v' ready(2) b s' bs show ?thesis
    by (intro moved [of version v b bs]) simp_all
  qed
qed

lemma activation_trigger_frame:
  assumes "activation_trigger old new s = Inr ((), s')"
  shows "docs s' = docs s" "attempts s' = attempts s" "versions s' = versions s" "chunks s' = chunks s"
    "jobs s' = jobs s" "clock s' = clock s" "uuid_next s' = uuid_next s" "set (builds s) \<subseteq> set (builds s')"
  using assms by (auto elim!: activation_trigger_cases)

text \<open>An UPDATE that moves one document's pointer through the trigger keeps what is served proven.\<close>

lemma active_ok_activation:
  assumes inv: "db_inv s" and d: "d \<in> set (docs s)" and f: "\<And>e. d_id (f e) = d_id e"
    and trig: "activation_trigger d (f d) (update_doc (d_id d) f s) = Inr ((), s')"
    and sha: "d_active_version_id (f d) = Some version"
      "\<exists>v\<in>set (versions s). v_id v = version \<and> d_active_content_sha (f d) = Some (v_sha v)"
  shows "active_ok (docs s') (versions s') (builds s') (chunks s')"
proof -
  note I = db_invD [OF inv]
  let ?ds = "update_rows (\<lambda>e. d_id e = d_id d) f (docs s)"
  have set_ds: "set ?ds = insert (f d) (set (docs s) - {d})" by (rule update_one [OF I(1) d])
  have rest: "active_ok (docs s) (versions s) (builds s') (chunks s)"
    using activation_trigger_frame [OF trig] by (intro active_ok_mono [OF I(5)]) (simp_all add: update_doc_def)
  have one: "(\<exists>v\<in>set (versions s). v_id v = version \<and> v_document v = d_id d
        \<and> d_active_content_sha (f d) = Some (v_sha v))
     \<and> (\<exists>b\<in>set (builds s'). b_document b = d_id d \<and> b_version b = version
        \<and> b_generation b = d_active_generation (f d))
     \<and> (\<exists>c\<in>set (chunks s). c_document c = d_id d \<and> c_version c = Some version
          \<and> c_generation c = d_active_generation (f d))"
    using trig
  proof (cases rule: activation_trigger_cases)
    case unmoved
    then have "d_active_version_id d = Some version" "d_active_generation (f d) = d_active_generation d"
      using sha(1) by simp_all
    moreover from rest d this(1) obtain v where "v \<in> set (versions s)" "v_id v = version" "v_document v = d_id d"
      unfolding active_ok_def by blast
    moreover from this sha(2) have "d_active_content_sha (f d) = Some (v_sha v)"
      using version_unique [OF I(1)] by metis
    ultimately show ?thesis using rest d unfolding active_ok_def by metis
  next
    case purged
    with sha(1) show ?thesis by simp
  next
    case (moved version' v b bs)
    from moved(6) obtain c where "c \<in> set (chunks_of (update_doc (d_id d) f s) (d_id (f d)) (Some version')
        (d_active_generation (f d)))"
      using hd_in_set by blast
    then have "c \<in> set (chunks s) \<and> c_document c = d_id d \<and> c_version c = Some version'
        \<and> c_generation c = d_active_generation (f d)"
      by (auto simp: chunks_of_def update_doc_def f)
    moreover have "version' = version" using moved(1) sha(1) by simp
    moreover have "v \<in> set (versions s)" using moved(2) by (simp add: update_doc_def)
    ultimately show ?thesis using moved(3,4,5,7,8,9,10) f by metis
  qed
  have "active_ok ?ds (versions s) (builds s') (chunks s)"
    unfolding active_ok_def set_ds
  proof (intro ballI allI impI)
    fix e w
    assume e: "e \<in> insert (f d) (set (docs s) - {d})" "d_active_version_id e = Some w"
    show "(\<exists>v\<in>set (versions s). v_id v = w \<and> v_document v = d_id e \<and> d_active_content_sha e = Some (v_sha v))
     \<and> (\<exists>b\<in>set (builds s'). b_document b = d_id e \<and> b_version b = w \<and> b_generation b = d_active_generation e)
     \<and> (\<exists>c\<in>set (chunks s). c_document c = d_id e \<and> c_version c = Some w
          \<and> c_generation c = d_active_generation e)"
    proof (cases "e = f d")
      case True
      with one e(2) sha(1) f show ?thesis by simp
    next
      case False
      with e rest show ?thesis unfolding active_ok_def by blast
    qed
  qed
  then show ?thesis
    using activation_trigger_frame [OF trig] by (simp add: update_doc_def)
qed

text \<open>A row a build receipt covers; what is served is covered.\<close>

definition covered :: "build_row list \<Rightarrow> chunk \<Rightarrow> bool" where
  "covered bs c \<longleftrightarrow> (\<exists>b\<in>set bs. b_document b = c_document c \<and> Some (b_version b) = c_version c
     \<and> b_generation b = c_generation c)"

lemma active_ok_keep:
  assumes "active_ok ds vs bs cs" "\<And>c. c \<in> set cs \<Longrightarrow> covered bs c \<Longrightarrow> c \<in> set cs'"
  shows "active_ok ds vs bs cs'"
  unfolding active_ok_def
proof (intro ballI allI impI)
  fix d w
  assume d: "d \<in> set ds" "d_active_version_id d = Some w"
  with assms(1) obtain b c where bc: "b \<in> set bs" "b_document b = d_id d" "b_version b = w"
      "b_generation b = d_active_generation d" "c \<in> set cs" "c_document c = d_id d" "c_version c = Some w"
      "c_generation c = d_active_generation d"
    unfolding active_ok_def by blast
  then have "covered bs c" by (auto simp: covered_def)
  with bc assms(2) have "c \<in> set cs'" by blast
  with bc d assms(1) show "(\<exists>v\<in>set vs. v_id v = w \<and> v_document v = d_id d \<and> d_active_content_sha d = Some (v_sha v))
     \<and> (\<exists>b\<in>set bs. b_document b = d_id d \<and> b_version b = w \<and> b_generation b = d_active_generation d)
     \<and> (\<exists>c\<in>set cs'. c_document c = d_id d \<and> c_version c = Some w \<and> c_generation c = d_active_generation d)"
    unfolding active_ok_def by blast
qed

end
