(* ===== verification/Candidate_Gate.thy ===== *)
theory Candidate_Gate
  imports Ingest_Invariant
begin

text \<open>
  The gate a candidate enters by (\<open>stage_candidate\<close>), the step that publishes it
  (\<open>finalize_candidate_publication\<close>), the name lookup and the legacy gate
  (\<open>upsert_document\<close>) of \<open>pipeline/index/db.py\<close>. PostgreSQL's \<open>lower\<close> is the parameter
  \<open>lower\<close> of every definition that compares names.
\<close>

section \<open>Operations\<close>

text \<open>\<open>WHERE lower(filename) = lower(name) ORDER BY uploaded_at LIMIT 1\<close>\<close>

definition named_document :: "(pystr \<Rightarrow> pystr) \<Rightarrow> pystr \<Rightarrow> db \<Rightarrow> document option" where
  "named_document lower name s =
     (case sort_key d_uploaded_at (filter (\<lambda>d. lower (d_filename d) = lower name) (docs s)) of
        [] \<Rightarrow> None | d # _ \<Rightarrow> Some d)"

definition has_chunks :: "db \<Rightarrow> uuid \<Rightarrow> bool" where
  "has_chunks s doc = (\<exists>c\<in>set (chunks s). c_document c = doc)"

definition coalesce :: "'a option \<Rightarrow> 'a option \<Rightarrow> 'a option" where
  "coalesce a b = (case a of None \<Rightarrow> b | Some x \<Rightarrow> Some x)"

text \<open>A row as the INSERT leaves it: the given columns, the rest at the schema's defaults.\<close>

definition new_document :: "uuid \<Rightarrow> pystr \<Rightarrow> pystr \<Rightarrow> time \<Rightarrow> document" where
  "new_document i name ftype now = \<lparr>d_id = i, d_filename = name, d_file_type = ftype,
     d_uploaded_at = now, d_status = u ''pending'', d_status_note = None,
     d_content_sha256 = None, d_candidate_id = None, d_candidate_state = None,
     d_active_generation = 0, d_last_generation = 0, d_active_content_sha = None,
     d_active_version_id = None, d_revision = 0, d_last_version_number = 0,
     d_attempt_id = None, d_attempt_owner = None, d_attempt_expires_at = None,
     d_archived_at = None, d_purged_at = None\<rparr>"

text \<open>The offer is the recorded candidate.\<close>

definition offer_unchanged :: "pystr option \<Rightarrow> document \<Rightarrow> bool" where
  "offer_unchanged sha d = (d_content_sha256 d = sha \<and> d_candidate_id d \<noteq> None)"

text \<open>The SET list of the upsert: the candidate, its state and the fence in one statement.\<close>

definition stage_columns :: "pystr option \<Rightarrow> uuid \<Rightarrow> document \<Rightarrow> document" where
  "stage_columns sha cid d =
     (let keep = (sha = None \<or> offer_unchanged sha d)
      in d\<lparr>d_content_sha256 := coalesce sha (d_content_sha256 d),
           d_candidate_id := (if keep then d_candidate_id d else Some cid),
           d_candidate_state := (if keep then d_candidate_state d else Some STAGED),
           d_attempt_id := (if keep then d_attempt_id d else None),
           d_attempt_owner := (if keep then d_attempt_owner d else None),
           d_attempt_expires_at := (if keep then d_attempt_expires_at d else None)\<rparr>)"

text \<open>The WHERE of the upsert: the arms of the gate.\<close>

definition gate_open :: "bool \<Rightarrow> bool \<Rightarrow> pystr option \<Rightarrow> document \<Rightarrow> bool" where
  "gate_open allow fresh sha d = (allow \<or> sha = None \<or> (sha \<noteq> None \<and> d_content_sha256 d = sha)
     \<or> (d_active_content_sha d = None \<and> fresh))"

definition stage_document ::
  "(pystr \<Rightarrow> pystr) \<Rightarrow> pystr \<Rightarrow> pystr \<Rightarrow> pystr option \<Rightarrow> bool \<Rightarrow> db \<Rightarrow> ingest_error + document \<times> db" where
  "stage_document lower filename ftype sha allow s =
    (let existing = named_document lower filename s;
         canonical = (case existing of None \<Rightarrow> filename | Some d \<Rightarrow> d_filename d);
         fresh = (case existing of None \<Rightarrow> True | Some d \<Rightarrow> \<not> has_chunks s (d_id d));
         (new_id, s1) = uuid4 s;
         (cid, s2) = uuid4 s1
     in case find (\<lambda>d. d_filename d = canonical) (docs s2) of
          None \<Rightarrow>
            (let d = (new_document new_id canonical ftype (clock s2))
                 \<lparr>d_content_sha256 := sha, d_candidate_id := Some cid, d_candidate_state := Some STAGED\<rparr>
             in Inr (d, s2\<lparr>docs := docs s2 @ [d]\<rparr>))
        | Some d \<Rightarrow>
            (if gate_open allow fresh sha d
             then Inr (stage_columns sha cid d, update_doc (d_id d) (stage_columns sha cid) s2)
             else Inl CandidateConflict))"

text \<open>
  The version allocation: only for a candidate with bytes that is not catalogued yet. The
  catalogue's CHECK wants a lower-case hexadecimal digest.
\<close>

definition allocate_version :: "document \<Rightarrow> pystr option \<Rightarrow> db \<Rightarrow> ingest_error + unit \<times> db" where
  "allocate_version d sha s =
    (case (sha, d_candidate_id d) of
       (Some h, Some c) \<Rightarrow>
         (if has_version s (d_id d) c then Inr ((), s)
          else if \<not> hex64 h then Inl IntegrityError
          else
            (let number = Suc (d_last_version_number d);
                 s1 = update_doc (d_id d) (\<lambda>e. e\<lparr>d_last_version_number := number\<rparr>) s
             in if \<exists>v\<in>set (versions s). v_id v = c then Inr ((), s1)
             else Inr ((), register_version \<lparr>v_id = c, v_document = d_id d, v_number = number,
                  v_sha = h, v_created_at = clock s\<rparr> (d_revision d) s1)))
     | _ \<Rightarrow> Inr ((), s))"

text \<open>Every running attempt of the document bound to another candidate is closed.\<close>

definition fence_attempts :: "uuid \<Rightarrow> uuid option \<Rightarrow> db \<Rightarrow> db" where
  "fence_attempts doc candidate s =
     close_attempts (\<lambda>r. a_document r = doc \<and> Some (a_candidate r) \<noteq> candidate) SUPERSEDED s"

definition stage_candidate ::
  "(pystr \<Rightarrow> pystr) \<Rightarrow> pystr \<Rightarrow> pystr \<Rightarrow> pystr option \<Rightarrow> bool \<Rightarrow> db
     \<Rightarrow> ingest_error + (uuid \<times> uuid option \<times> pystr) \<times> db" where
  "stage_candidate lower filename ftype sha allow s =
    (case stage_document lower filename ftype sha allow s of
       Inl e \<Rightarrow> Inl e
     | Inr (d, s1) \<Rightarrow>
        (case allocate_version d sha s1 of
           Inl e \<Rightarrow> Inl e
         | Inr (_, s2) \<Rightarrow>
             Inr ((d_id d, d_candidate_id d, d_filename d),
                  fence_attempts (d_id d) (d_candidate_id d) s2)))"

definition finalize_candidate_publication :: "uuid \<Rightarrow> uuid \<Rightarrow> db \<Rightarrow> ingest_error + bool \<times> db" where
  "finalize_candidate_publication doc cid s =
     (let hit = (\<lambda>d. d_id d = doc \<and> d_candidate_id d = Some cid)
      in Inr (list_ex hit (docs s),
              s\<lparr>docs := update_rows hit (\<lambda>d. d\<lparr>d_candidate_state := Some PUBLISHED\<rparr>) (docs s)\<rparr>))"

text \<open>The seven columns \<open>lookup_document\<close> selects.\<close>

definition lookup_document ::
  "(pystr \<Rightarrow> pystr) \<Rightarrow> pystr \<Rightarrow> db
     \<Rightarrow> (uuid \<times> pystr \<times> pystr \<times> pystr option \<times> uuid option \<times> nat \<times> pystr option) option" where
  "lookup_document lower filename s = map_option
     (\<lambda>d. (d_id d, d_filename d, d_status d, d_content_sha256 d, d_candidate_id d,
           d_active_generation d, d_active_content_sha d)) (named_document lower filename s)"

text \<open>
  The legacy gate. Its WHERE has the arm \<open>active_content_sha = sha\<close> that
  \<open>stage_candidate\<close> dropped, its SET writes the status and knows neither the candidate's
  state nor the lease.
\<close>

definition legacy_gate_open :: "bool \<Rightarrow> bool \<Rightarrow> pystr option \<Rightarrow> document \<Rightarrow> bool" where
  "legacy_gate_open allow fresh sha d = (allow \<or> sha = None
     \<or> (sha \<noteq> None \<and> d_active_content_sha d = sha) \<or> (sha \<noteq> None \<and> d_content_sha256 d = sha)
     \<or> (d_active_content_sha d = None \<and> fresh))"

definition legacy_columns :: "pystr \<Rightarrow> pystr option \<Rightarrow> uuid \<Rightarrow> document \<Rightarrow> document" where
  "legacy_columns status sha cid d = d\<lparr>d_status := status,
     d_content_sha256 := coalesce sha (d_content_sha256 d),
     d_candidate_id := (if sha = None then d_candidate_id d
        else if offer_unchanged sha d then d_candidate_id d else Some cid)\<rparr>"

definition upsert_document ::
  "(pystr \<Rightarrow> pystr) \<Rightarrow> pystr \<Rightarrow> pystr \<Rightarrow> pystr \<Rightarrow> pystr option \<Rightarrow> bool \<Rightarrow> db
     \<Rightarrow> ingest_error + (uuid \<times> uuid option \<times> pystr) \<times> db" where
  "upsert_document lower filename ftype status sha allow s =
    (let existing = named_document lower filename s;
         canonical = (case existing of None \<Rightarrow> filename | Some d \<Rightarrow> d_filename d);
         fresh = (case existing of None \<Rightarrow> True | Some d \<Rightarrow> \<not> has_chunks s (d_id d));
         (new_id, s1) = uuid4 s;
         (cid, s2) = uuid4 s1
     in case find (\<lambda>d. d_filename d = canonical) (docs s2) of
          None \<Rightarrow>
            (let d = (new_document new_id canonical ftype (clock s2))
                 \<lparr>d_status := status, d_content_sha256 := sha, d_candidate_id := Some cid\<rparr>
             in Inr ((d_id d, d_candidate_id d, d_filename d), s2\<lparr>docs := docs s2 @ [d]\<rparr>))
        | Some d \<Rightarrow>
            (if legacy_gate_open allow fresh sha d
             then (let d' = legacy_columns status sha cid d
                   in Inr ((d_id d', d_candidate_id d', d_filename d'),
                           update_doc (d_id d) (legacy_columns status sha cid) s2))
             else Inl (ValueError ''ayni dosya adi farkli icerikle zaten HIZMETTE'')))"

section \<open>What an accepted offer does to the document\<close>

lemma find_filename_SomeD:
  "find (\<lambda>d. d_filename d = name) ds = Some d \<Longrightarrow> d \<in> set ds \<and> d_filename d = name"
  by (auto simp: find_Some_iff in_set_conv_nth)

text \<open>
  The three ways the gate lets an offer in: a new row, the recorded candidate kept with its
  lease, or a new candidate in the STAGED state over an emptied lease.
\<close>

lemma stage_document_cases:
  assumes "stage_document lower filename ftype sha allow s = Inr (d, s1)"
  obtains
    (fresh_row) "d = (new_document (uuid_next s) (d_filename d) ftype (clock s))
        \<lparr>d_content_sha256 := sha, d_candidate_id := Some (Suc (uuid_next s)), d_candidate_state := Some STAGED\<rparr>"
      "s1 = s\<lparr>uuid_next := Suc (Suc (uuid_next s)), docs := docs s @ [d]\<rparr>"
  | (kept) d0 where "d0 \<in> set (docs s)" "sha = None \<or> offer_unchanged sha d0" "d = d0"
      "s1 = s\<lparr>uuid_next := Suc (Suc (uuid_next s)),
         docs := update_rows (\<lambda>e. d_id e = d_id d0) (stage_columns sha (Suc (uuid_next s))) (docs s)\<rparr>"
  | (changed) d0 h where "d0 \<in> set (docs s)" "sha = Some h" "\<not> offer_unchanged sha d0"
      "d = clear_lease (d0\<lparr>d_content_sha256 := sha, d_candidate_id := Some (Suc (uuid_next s)),
             d_candidate_state := Some STAGED\<rparr>)"
      "s1 = s\<lparr>uuid_next := Suc (Suc (uuid_next s)),
         docs := update_rows (\<lambda>e. d_id e = d_id d0) (stage_columns sha (Suc (uuid_next s))) (docs s)\<rparr>"
proof -
  let ?canonical = "case named_document lower filename s of None \<Rightarrow> filename | Some d \<Rightarrow> d_filename d"
  show ?thesis
  proof (cases "find (\<lambda>d. d_filename d = ?canonical) (docs s)")
    case None
    with assms show ?thesis
      by (intro fresh_row) (auto simp: stage_document_def uuid4_def Let_def new_document_def)
  next
    case (Some d0)
    with assms have d: "d = stage_columns sha (Suc (uuid_next s)) d0"
        "s1 = s\<lparr>uuid_next := Suc (Suc (uuid_next s)),
         docs := update_rows (\<lambda>e. d_id e = d_id d0) (stage_columns sha (Suc (uuid_next s))) (docs s)\<rparr>"
      by (auto simp: stage_document_def uuid4_def Let_def update_doc_def split: if_splits)
    from Some have d0: "d0 \<in> set (docs s)" by (auto dest: find_filename_SomeD)
    show ?thesis
    proof (cases "sha = None \<or> offer_unchanged sha d0")
      case True
      then have "stage_columns sha (Suc (uuid_next s)) d0 = d0"
        by (auto simp: stage_columns_def coalesce_def offer_unchanged_def split: option.splits)
      with True d d0 show ?thesis by (intro kept) auto
    next
      case False
      then obtain h where "sha = Some h" by auto
      with False d d0 show ?thesis
        by (intro changed) (auto simp: stage_columns_def coalesce_def clear_lease_def)
    qed
  qed
qed

lemma stage_columns_keep:
  "sha = None \<or> offer_unchanged sha d \<Longrightarrow> stage_columns sha cid d = d"
  by (auto simp: stage_columns_def coalesce_def offer_unchanged_def split: option.splits)

lemma stage_columns_simps [simp]:
  "d_id (stage_columns sha cid d) = d_id d"
  "d_filename (stage_columns sha cid d) = d_filename d"
  "d_status (stage_columns sha cid d) = d_status d"
  "d_active_version_id (stage_columns sha cid d) = d_active_version_id d"
  "d_active_generation (stage_columns sha cid d) = d_active_generation d"
  "d_active_content_sha (stage_columns sha cid d) = d_active_content_sha d"
  "d_last_version_number (stage_columns sha cid d) = d_last_version_number d"
  "d_last_generation (stage_columns sha cid d) = d_last_generation d"
  "d_archived_at (stage_columns sha cid d) = d_archived_at d"
  by (simp_all add: stage_columns_def Let_def)

section \<open>Staging keeps the invariant\<close>

text \<open>
  Between the upsert and the fence the attempts of the staged document may run without its
  lease, and its candidate may lack a version: \<open>half_staged\<close> is the invariant with exactly
  these two gaps.
\<close>

definition half_staged :: "document \<Rightarrow> pystr option \<Rightarrow> db \<Rightarrow> bool" where
  "half_staged d sha s \<longleftrightarrow> d \<in> set (docs s)
     \<and> ids_ok (uuid_next s) (docs s) (attempts s) (versions s) (jobs s)
     \<and> lease_ok (docs s) (attempts s)
     \<and> (\<forall>r\<in>set (attempts s). a_status r = None \<longrightarrow>
          (\<exists>e\<in>set (docs s). d_id e = a_document r \<and> (d_attempt_id e = Some (a_id r)
             \<or> (d_id e = d_id d \<and> Some (a_candidate r) \<noteq> d_candidate_id d))))
     \<and> (\<forall>e\<in>set (docs s). \<forall>c h. d_candidate_id e = Some c \<longrightarrow> d_content_sha256 e = Some h \<longrightarrow>
          (\<exists>v\<in>set (versions s). v_id v = c \<and> v_document v = d_id e \<and> v_sha v = h)
          \<or> (d_id e = d_id d \<and> sha = Some h \<and> (\<forall>v\<in>set (versions s). v_id v \<noteq> c)))
     \<and> (\<forall>v\<in>set (versions s). \<exists>e\<in>set (docs s). d_id e = v_document v \<and> 0 < v_number v
          \<and> v_number v \<le> d_last_version_number e)
     \<and> (\<forall>v\<in>set (versions s). \<forall>v'\<in>set (versions s). v_document v = v_document v' \<longrightarrow>
          v_number v = v_number v' \<longrightarrow> v = v')
     \<and> active_ok (docs s) (versions s) (builds s) (chunks s) \<and> jobs_ok (jobs s)"

lemma update_rows_id: "(\<And>r. p r \<Longrightarrow> r \<in> set rows \<Longrightarrow> f r = r) \<Longrightarrow> update_rows p f rows = rows"
  by (auto simp: update_rows_def intro: map_idI)

lemma running_candidate:
  assumes "db_inv s" "r \<in> set (attempts s)" "a_status r = None"
  obtains d where "d \<in> set (docs s)" "d_id d = a_document r" "d_attempt_id d = Some (a_id r)"
    "d_candidate_id d = Some (a_candidate r)"
proof -
  note inv = db_invD [OF assms(1)]
  obtain d where d: "d \<in> set (docs s)" "d_id d = a_document r" "d_attempt_id d = Some (a_id r)"
    using inv(3) assms(2,3) by (auto simp: running_ok_def)
  with inv(2) obtain r' where "r' \<in> set (attempts s)" "a_id r' = a_id r" "d_candidate_id d = Some (a_candidate r')"
    by (auto simp: lease_ok_def)
  with attempt_unique [OF inv(1)] assms(2) have "d_candidate_id d = Some (a_candidate r)" by metis
  with d that show ?thesis by blast
qed

lemma half_staged_same_docs:
  assumes "db_inv s" "d \<in> set (docs s)" "s1 = s\<lparr>uuid_next := n, docs := docs s\<rparr>" "uuid_next s \<le> n"
  shows "half_staged d sha s1"
  using db_invD [OF assms(1)] assms(2-4)
  by (auto simp: half_staged_def versions_ok_def running_ok_def intro: ids_ok_mono)

lemma half_staged_new_row:
  assumes inv: "db_inv s" and n: "n = uuid_next s"
    and d: "d = (new_document n (d_filename d) ftype (clock s))
        \<lparr>d_content_sha256 := sha, d_candidate_id := Some (Suc n), d_candidate_state := Some STAGED\<rparr>"
    and s1: "s1 = s\<lparr>uuid_next := Suc (Suc n), docs := docs s @ [d]\<rparr>"
  shows "half_staged d sha s1"
proof -
  note I = db_invD [OF inv]
  have f: "d_id d = n" "d_attempt_id d = None" "d_candidate_id d = Some (Suc n)"
      "d_content_sha256 d = sha" "d_active_version_id d = None"
    using arg_cong [OF d, of d_id] arg_cong [OF d, of d_attempt_id] arg_cong [OF d, of d_candidate_id]
      arg_cong [OF d, of d_content_sha256] arg_cong [OF d, of d_active_version_id]
    by (simp_all add: new_document_def)
  have "ids_ok (Suc (Suc n)) (docs s @ [d]) (attempts s) (versions s) (jobs s)"
    using I(1) f n by (fastforce simp: ids_ok_def)
  moreover have "lease_ok (docs s @ [d]) (attempts s)"
    using I(2) f by (simp add: lease_ok_def)
  moreover have "active_ok (docs s @ [d]) (versions s) (builds s) (chunks s)"
    using I(5) f by (simp add: active_ok_def)
  moreover have "\<forall>v\<in>set (versions s). v_id v \<noteq> Suc n"
    using I(1) n by (fastforce simp: ids_ok_def)
  ultimately show ?thesis
    using I(3,4,6) f s1 unfolding half_staged_def running_ok_def versions_ok_def by auto
qed

lemma stage_columns_changed:
  assumes "\<not> offer_unchanged sha d" "sha = Some h"
  shows "d_attempt_id (stage_columns sha cid d) = None"
    "d_candidate_id (stage_columns sha cid d) = Some cid"
    "d_content_sha256 (stage_columns sha cid d) = Some h"
    "d_candidate_state (stage_columns sha cid d) = Some STAGED"
  using assms by (auto simp: stage_columns_def coalesce_def)

lemma half_staged_changed:
  assumes inv: "db_inv s" and n: "n = uuid_next s"
    and d0: "d0 \<in> set (docs s)" and sha: "sha = Some h" "\<not> offer_unchanged sha d0"
    and d: "d = stage_columns sha (Suc n) d0"
    and s1: "s1 = s\<lparr>uuid_next := Suc (Suc n),
         docs := update_rows (\<lambda>e. d_id e = d_id d0) (stage_columns sha (Suc n)) (docs s)\<rparr>"
  shows "half_staged d sha s1"
proof -
  note I = db_invD [OF inv]
  note f = stage_columns_changed [OF sha(2,1), where cid = "Suc n"]
  let ?ds = "update_rows (\<lambda>e. d_id e = d_id d0) (stage_columns sha (Suc n)) (docs s)"
  have set_ds: "set ?ds = insert d (set (docs s) - {d0})"
    using update_one [OF I(1) d0] d by simp
  have one: "e \<in> set (docs s) \<Longrightarrow> d_id e = d_id d0 \<Longrightarrow> e = d0" for e
    using doc_unique [OF I(1)] d0 by auto
  have ids: "ids_ok (Suc (Suc n)) ?ds (attempts s) (versions s) (jobs s)"
  proof (rule ids_ok_update_docs)
    show "ids_ok (Suc (Suc n)) (docs s) (attempts s) (versions s) (jobs s)"
      using I(1) n by (auto intro: ids_ok_mono)
    show "d_candidate_id (stage_columns sha (Suc n) e) = Some c \<Longrightarrow> c < Suc (Suc n)"
      if "e \<in> set (docs s)" "d_id e = d_id d0" for e c
      using one [OF that] f by simp
  qed simp
  have lease: "lease_ok ?ds (attempts s)"
  proof (rule lease_ok_update_docs [OF I(2)])
    fix e
    assume "e \<in> set (docs s)" "d_id e = d_id d0"
    then show "d_attempt_id (stage_columns sha (Suc n) e) = None \<or>
        (d_attempt_id (stage_columns sha (Suc n) e) = d_attempt_id e
          \<and> d_candidate_id (stage_columns sha (Suc n) e) = d_candidate_id e)"
      using one f(1) by metis
  qed simp
  have active: "active_ok ?ds (versions s) (builds s) (chunks s)"
    using I(5) by (intro active_ok_update_docs) auto
  have fresh: "\<forall>v\<in>set (versions s). v_id v \<noteq> Suc n"
    using I(1) n by (fastforce simp: ids_ok_def)
  have old: "a_candidate r \<noteq> Suc n" if r: "r \<in> set (attempts s)" "a_status r = None" for r
  proof -
    obtain e where "e \<in> set (docs s)" "d_candidate_id e = Some (a_candidate r)"
      using running_candidate [OF inv r] by metis
    with I(1) n show ?thesis by (fastforce simp: ids_ok_def)
  qed
  have running: "\<exists>e\<in>set ?ds. d_id e = a_document r \<and> (d_attempt_id e = Some (a_id r)
      \<or> (d_id e = d_id d \<and> Some (a_candidate r) \<noteq> d_candidate_id d))"
    if r: "r \<in> set (attempts s)" "a_status r = None" for r
  proof -
    obtain e where e: "e \<in> set (docs s)" "d_id e = a_document r" "d_attempt_id e = Some (a_id r)"
      using running_candidate [OF inv r] by metis
    show ?thesis
    proof (cases "e = d0")
      case True
      have "d \<in> set ?ds" by (simp add: set_ds)
      with True e old [OF r] f d show ?thesis by (intro bexI [of _ d]) auto
    next
      case False
      with e have "e \<in> set ?ds" by (simp add: set_ds)
      with e show ?thesis by blast
    qed
  qed
  have numbers: "\<exists>e\<in>set ?ds. d_id e = v_document v \<and> 0 < v_number v \<and> v_number v \<le> d_last_version_number e"
    if v: "v \<in> set (versions s)" for v
  proof -
    obtain e where e: "e \<in> set (docs s)" "d_id e = v_document v" "0 < v_number v"
        "v_number v \<le> d_last_version_number e"
      using I(4) v by (auto simp: versions_ok_def)
    then have "(if e = d0 then d else e) \<in> set ?ds" "d_id (if e = d0 then d else e) = d_id e"
        "d_last_version_number (if e = d0 then d else e) = d_last_version_number e"
      using d by (auto simp: set_ds)
    with e show ?thesis by metis
  qed
  have catalogued: "(\<exists>v\<in>set (versions s). v_id v = c \<and> v_document v = d_id e \<and> v_sha v = k)
      \<or> (d_id e = d_id d \<and> sha = Some k \<and> (\<forall>v\<in>set (versions s). v_id v \<noteq> c))"
    if e: "e \<in> set ?ds" "d_candidate_id e = Some c" "d_content_sha256 e = Some k" for e c k
  proof (cases "e = d")
    case True
    with e f fresh d sha(1) show ?thesis by simp
  next
    case False
    with e(1) have "e \<in> set (docs s)" by (simp add: set_ds)
    with e I(4) show ?thesis by (simp add: versions_ok_def)
  qed
  show ?thesis
    using ids lease active running numbers catalogued I(4,6) s1 set_ds
    by (simp add: half_staged_def versions_ok_def)
qed

lemma stage_document_half_staged:
  assumes "db_inv s" "stage_document lower filename ftype sha allow s = Inr (d, s1)"
  shows "half_staged d sha s1"
  using assms(2)
proof (cases rule: stage_document_cases)
  case fresh_row
  with half_staged_new_row [OF assms(1)] show ?thesis by blast
next
  case (kept d0)
  have "update_rows (\<lambda>e. d_id e = d_id d0) (stage_columns sha (Suc (uuid_next s))) (docs s) = docs s"
  proof (rule update_rows_id)
    fix e
    assume "d_id e = d_id d0" "e \<in> set (docs s)"
    then have "e = d0" using kept(1) doc_unique [OF db_invD(1) [OF assms(1)]] by blast
    then show "stage_columns sha (Suc (uuid_next s)) e = e" using kept(2) stage_columns_keep by simp
  qed
  with kept assms(1) show ?thesis by (intro half_staged_same_docs [of s]) auto
next
  case (changed d0 h)
  then have "d = stage_columns sha (Suc (uuid_next s)) d0"
    by (auto simp: stage_columns_def clear_lease_def coalesce_def)
  with changed half_staged_changed [OF assms(1)] show ?thesis by blast
qed

lemma allocate_version_cases:
  assumes "allocate_version d sha s = Inr ((), s')"
  obtains (untouched) "s' = s" "\<forall>h c. sha = Some h \<longrightarrow> d_candidate_id d = Some c \<longrightarrow> has_version s (d_id d) c"
  | (counted) c where "d_candidate_id d = Some c" "\<exists>v\<in>set (versions s). v_id v = c"
      "s' = update_doc (d_id d) (\<lambda>e. e\<lparr>d_last_version_number := Suc (d_last_version_number d)\<rparr>) s"
  | (registered) h c where "sha = Some h" "d_candidate_id d = Some c" "hex64 h" "\<forall>v\<in>set (versions s). v_id v \<noteq> c"
      "s' = register_version \<lparr>v_id = c, v_document = d_id d, v_number = Suc (d_last_version_number d),
         v_sha = h, v_created_at = clock s\<rparr> (d_revision d)
         (update_doc (d_id d) (\<lambda>e. e\<lparr>d_last_version_number := Suc (d_last_version_number d)\<rparr>) s)"
proof (cases "\<exists>h c. sha = Some h \<and> d_candidate_id d = Some c \<and> \<not> has_version s (d_id d) c")
  case False
  show ?thesis
  proof -
    have "s' = s"
      using False assms by (auto simp: allocate_version_def split: option.splits if_splits)
    with False show ?thesis using untouched by blast
  qed
next
  case True
  then obtain h c where hc: "sha = Some h" "d_candidate_id d = Some c" "\<not> has_version s (d_id d) c"
    by blast
  with assms have hex: "hex64 h" by (auto simp: allocate_version_def split: if_splits)
  show ?thesis
  proof (cases "\<exists>v\<in>set (versions s). v_id v = c")
    case True
    with hc hex assms show ?thesis
      by (intro counted [of c]) (simp_all add: allocate_version_def Let_def)
  next
    case False
    with hc hex assms show ?thesis
      by (intro registered [of h c]) (simp_all add: allocate_version_def Let_def)
  qed
qed

lemma allocate_version_frame:
  assumes "allocate_version d sha s = Inr ((), s')"
  shows "attempts s' = attempts s" "builds s' = builds s" "chunks s' = chunks s" "jobs s' = jobs s"
    "uuid_next s' = uuid_next s" "clock s' = clock s"
    "docs s' = docs s \<or> docs s' = update_rows (\<lambda>e. d_id e = d_id d)
        (\<lambda>e. e\<lparr>d_last_version_number := Suc (d_last_version_number d)\<rparr>) (docs s)"
  using assms
  by (auto elim!: allocate_version_cases simp: update_doc_def register_version_def)

lemma half_staged_counted:
  assumes "half_staged d sha s"
    and ds: "ds = update_rows (\<lambda>e. d_id e = d_id d)
        (\<lambda>e. e\<lparr>d_last_version_number := Suc (d_last_version_number d)\<rparr>) (docs s)"
  shows "half_staged (d\<lparr>d_last_version_number := Suc (d_last_version_number d)\<rparr>) sha (s\<lparr>docs := ds\<rparr>)"
proof -
  let ?f = "\<lambda>e. e\<lparr>d_last_version_number := Suc (d_last_version_number d)\<rparr>"
  let ?g = "\<lambda>e. if d_id e = d_id d then ?f e else e"
  have h: "d \<in> set (docs s)" "ids_ok (uuid_next s) (docs s) (attempts s) (versions s) (jobs s)"
    using assms(1) by (auto simp: half_staged_def)
  have same: "d_id (?g e) = d_id e" "d_attempt_id (?g e) = d_attempt_id e"
      "d_candidate_id (?g e) = d_candidate_id e" "d_content_sha256 (?g e) = d_content_sha256 e" for e
    by simp_all
  have grows: "e \<in> set (docs s) \<Longrightarrow> d_last_version_number e \<le> d_last_version_number (?g e)" for e
    using doc_unique [OF h(2)] h(1) by fastforce
  have "ids_ok (uuid_next s) ds (attempts s) (versions s) (jobs s)"
    unfolding ds using h by (intro ids_ok_update_docs) (auto simp: ids_ok_def)
  moreover have "lease_ok ds (attempts s)"
    unfolding ds using assms(1) by (intro lease_ok_update_docs) (auto simp: half_staged_def)
  moreover have "active_ok ds (versions s) (builds s) (chunks s)"
    unfolding ds using assms(1) by (intro active_ok_update_docs) (auto simp: half_staged_def)
  moreover have "?f d \<in> set ds"
    unfolding ds using h(1) by (force simp: update_rows_def)
  moreover have "\<exists>e\<in>set ds. d_id e = v_document v \<and> 0 < v_number v \<and> v_number v \<le> d_last_version_number e"
    if v: "v \<in> set (versions s)" for v
  proof -
    obtain e where e: "e \<in> set (docs s)" "d_id e = v_document v" "0 < v_number v"
        "v_number v \<le> d_last_version_number e"
      using assms(1) v by (auto simp: half_staged_def)
    from e(1) have "?g e \<in> set ds" unfolding ds set_update_rows by (rule imageI)
    moreover have "v_number v \<le> d_last_version_number (?g e)" using e grows by (meson le_trans)
    ultimately show ?thesis using e(2,3) same(1) by (intro bexI [of _ "?g e"]) auto
  qed
  ultimately show ?thesis
    using assms(1) unfolding half_staged_def ds by (simp add: table_simps same del: if_image_distrib)
qed

lemma half_stagedD:
  assumes "half_staged d sha s"
  shows "d \<in> set (docs s)" "ids_ok (uuid_next s) (docs s) (attempts s) (versions s) (jobs s)"
    "lease_ok (docs s) (attempts s)"
    "\<And>r. r \<in> set (attempts s) \<Longrightarrow> a_status r = None \<Longrightarrow>
       \<exists>e\<in>set (docs s). d_id e = a_document r \<and> (d_attempt_id e = Some (a_id r)
          \<or> (d_id e = d_id d \<and> Some (a_candidate r) \<noteq> d_candidate_id d))"
    "\<And>e c h. e \<in> set (docs s) \<Longrightarrow> d_candidate_id e = Some c \<Longrightarrow> d_content_sha256 e = Some h \<Longrightarrow>
       (\<exists>v\<in>set (versions s). v_id v = c \<and> v_document v = d_id e \<and> v_sha v = h)
       \<or> (d_id e = d_id d \<and> sha = Some h \<and> (\<forall>v\<in>set (versions s). v_id v \<noteq> c))"
    "\<forall>v\<in>set (versions s). \<exists>e\<in>set (docs s). d_id e = v_document v \<and> 0 < v_number v
          \<and> v_number v \<le> d_last_version_number e"
    "\<forall>v\<in>set (versions s). \<forall>v'\<in>set (versions s). v_document v = v_document v' \<longrightarrow>
          v_number v = v_number v' \<longrightarrow> v = v'"
    "active_ok (docs s) (versions s) (builds s) (chunks s)" "jobs_ok (jobs s)"
  using assms unfolding half_staged_def by simp_all

text \<open>After the allocation the version clause is whole again.\<close>

lemma half_staged_versions:
  assumes h: "half_staged d sha s"
    and cat: "\<forall>h c. sha = Some h \<longrightarrow> d_candidate_id d = Some c \<longrightarrow> (\<exists>v\<in>set (versions s). v_id v = c)"
  shows "versions_ok (docs s) (versions s)"
proof -
  note H = half_stagedD [OF h]
  have "\<exists>v\<in>set (versions s). v_id v = c \<and> v_document v = d_id e \<and> v_sha v = k"
    if e: "e \<in> set (docs s)" "d_candidate_id e = Some c" "d_content_sha256 e = Some k" for e c k
    using H(5) [OF e] doc_unique [OF H(2) e(1) H(1)] cat e(2) by auto
  with H(6,7) show ?thesis by (simp add: versions_ok_def)
qed

lemma half_staged_register:
  assumes hs: "half_staged d sha s" and hc: "sha = Some h" "d_candidate_id d = Some c"
    and fresh: "\<forall>v\<in>set (versions s). v_id v \<noteq> c"
    and top: "\<forall>v\<in>set (versions s). v_document v = d_id d \<longrightarrow> v_number v < d_last_version_number d"
    and pos: "0 < d_last_version_number d"
    and v: "v_id v = c" "v_document v = d_id d" "v_number v = d_last_version_number d" "v_sha v = h"
  shows "half_staged d sha (register_version v n s)"
proof -
  note H = half_stagedD [OF hs]
  have c: "c < uuid_next s" using H(1,2) hc(2) by (auto simp: ids_ok_def)
  have ids: "ids_ok (uuid_next s) (docs s) (attempts s) (versions s @ [v]) (jobs s)"
    using H(2) fresh v(1) c by (auto simp: ids_ok_def)
  have active: "active_ok (docs s) (versions s @ [v]) (builds s) (chunks s)"
    by (rule active_ok_mono [OF H(8)]) auto
  have cat: "\<exists>w\<in>set (versions s @ [v]). v_id w = b \<and> v_document w = d_id e \<and> v_sha w = k"
    if e: "e \<in> set (docs s)" "d_candidate_id e = Some b" "d_content_sha256 e = Some k" for e b k
    using H(5) [OF e] doc_unique [OF H(2) e(1) H(1)] e(2) hc v by auto
  have unique: "\<forall>w\<in>set (versions s @ [v]). \<forall>w'\<in>set (versions s @ [v]). v_document w = v_document w' \<longrightarrow>
      v_number w = v_number w' \<longrightarrow> w = w'"
  proof (intro ballI impI)
    fix w w'
    assume "w \<in> set (versions s @ [v])" "w' \<in> set (versions s @ [v])"
      and same: "v_document w = v_document w'" "v_number w = v_number w'"
    then consider "w = v" "w' = v" | "w = v" "w' \<in> set (versions s)"
      | "w \<in> set (versions s)" "w' = v" | "w \<in> set (versions s)" "w' \<in> set (versions s)" by auto
    then show "w = w'"
    proof cases
      case 4
      with H(7) same show ?thesis by blast
    qed (use same top v(2,3) in fastforce)+
  qed
  have numbers: "\<forall>w\<in>set (versions s @ [v]). \<exists>e\<in>set (docs s). d_id e = v_document w \<and> 0 < v_number w
      \<and> v_number w \<le> d_last_version_number e"
    using H(1,6) pos v(2,3) by auto
  show ?thesis
    unfolding half_staged_def register_version_def
    using H(1,3,9) H(4) ids active cat unique numbers by simp
qed

lemma allocate_version_half_staged:
  assumes "half_staged d sha s" "allocate_version d sha s = Inr ((), s')"
  obtains d' where "half_staged d' sha s'" "versions_ok (docs s') (versions s')"
    "d_id d' = d_id d" "d_candidate_id d' = d_candidate_id d"
  using assms(2)
proof (cases rule: allocate_version_cases)
  case untouched
  then have "versions_ok (docs s') (versions s')"
    using assms(1) by (intro half_staged_versions [of d sha]) (auto simp: has_version_def)
  with untouched assms(1) that show ?thesis by blast
next
  case (counted c)
  with half_staged_counted [OF assms(1) refl]
  have h: "half_staged (d\<lparr>d_last_version_number := Suc (d_last_version_number d)\<rparr>) sha s'"
    by (simp add: update_doc_def)
  moreover have "versions_ok (docs s') (versions s')"
    using counted by (intro half_staged_versions [OF h]) (auto simp: update_doc_def)
  ultimately show ?thesis using that by fastforce
next
  case (registered h c)
  let ?d = "d\<lparr>d_last_version_number := Suc (d_last_version_number d)\<rparr>"
  let ?s1 = "update_doc (d_id d) (\<lambda>e. e\<lparr>d_last_version_number := Suc (d_last_version_number d)\<rparr>) s"
  have h1: "half_staged ?d sha ?s1"
    using half_staged_counted [OF assms(1) refl] by (simp add: update_doc_def)
  have bound: "v_number v < Suc (d_last_version_number d)"
    if v: "v \<in> set (versions s)" "v_document v = d_id d" for v
  proof -
    obtain e where "e \<in> set (docs s)" "d_id e = v_document v" "v_number v \<le> d_last_version_number e"
      using half_stagedD(6) [OF assms(1)] v(1) by auto
    moreover from this v(2) have "e = d"
      using doc_unique [OF half_stagedD(2) [OF assms(1)]] half_stagedD(1) [OF assms(1)] by simp
    ultimately show ?thesis by simp
  qed
  have h2: "half_staged ?d sha s'"
    unfolding registered(5)
    by (rule half_staged_register [OF h1 registered(1)])
      (use registered bound in \<open>auto simp: update_doc_def\<close>)
  moreover have "versions_ok (docs s') (versions s')"
    by (rule half_staged_versions [OF h2]) (use registered in \<open>auto simp: register_version_def\<close>)
  ultimately show ?thesis using that by fastforce
qed

lemma fence_attempts_inv:
  assumes h: "half_staged d sha s" and v: "versions_ok (docs s) (versions s)"
  shows "db_inv (fence_attempts (d_id d) (d_candidate_id d) s)"
proof -
  let ?p = "\<lambda>r. a_status r = None \<and> a_document r = d_id d \<and> Some (a_candidate r) \<noteq> d_candidate_id d"
  let ?f = "\<lambda>r. r\<lparr>a_status := Some SUPERSEDED, a_ended_at := Some (clock s)\<rparr>"
  note H = half_stagedD [OF h]
  note d = H(1) and ids = H(2) and lease = H(3)
  have "lease_ok (docs s) (update_rows ?p ?f (attempts s))"
  proof (rule lease_ok_close [OF lease])
    fix r e
    assume r: "r \<in> set (attempts s)" "e \<in> set (docs s)" "?p r" "d_attempt_id e = Some (a_id r)"
    then obtain r' where "r' \<in> set (attempts s)" "a_id r' = a_id r" "a_document r' = d_id e"
        "d_candidate_id e = Some (a_candidate r')"
      using lease by (auto simp: lease_ok_def)
    with attempt_unique [OF ids] r have "d_id e = d_id d" "d_candidate_id e = Some (a_candidate r)" by metis+
    with doc_unique [OF ids r(2) d] r(3) show False by simp
  qed
  moreover have "running_ok (docs s) (update_rows ?p ?f (attempts s))"
    unfolding running_ok_def
  proof (intro ballI impI)
    fix r
    assume "r \<in> set (update_rows ?p ?f (attempts s))" "a_status r = None"
    then have "r \<in> set (attempts s)" "\<not> ?p r"
      by (auto simp: set_update_rows)
    then obtain e where "e \<in> set (docs s)" "d_id e = a_document r" "d_attempt_id e = Some (a_id r)
        \<or> (d_id e = d_id d \<and> Some (a_candidate r) \<noteq> d_candidate_id d)"
      using H(4) \<open>a_status r = None\<close> by blast
    with \<open>\<not> ?p r\<close> \<open>a_status r = None\<close>
    show "\<exists>e\<in>set (docs s). d_id e = a_document r \<and> d_attempt_id e = Some (a_id r)"
      by auto
  qed
  moreover have "ids_ok (uuid_next s) (docs s) (update_rows ?p ?f (attempts s)) (versions s) (jobs s)"
    using ids by (intro ids_ok_update_attempts) auto
  ultimately show ?thesis
    using H(8,9) v by (simp add: db_inv_def fence_attempts_def close_attempts_def)
qed

lemma stage_candidate_inv:
  assumes "db_inv s" "stage_candidate lower filename ftype sha allow s = Inr (r, s')"
  shows "db_inv s'"
proof -
  obtain d s1 where 1: "stage_document lower filename ftype sha allow s = Inr (d, s1)"
    using assms(2) by (auto simp: stage_candidate_def split: sum.splits)
  with assms(2) obtain s2 where 2: "allocate_version d sha s1 = Inr ((), s2)"
      "s' = fence_attempts (d_id d) (d_candidate_id d) s2"
    by (auto simp: stage_candidate_def split: sum.splits)
  obtain d' where "half_staged d' sha s2" "versions_ok (docs s2) (versions s2)"
      "d_id d' = d_id d" "d_candidate_id d' = d_candidate_id d"
    by (rule allocate_version_half_staged [OF stage_document_half_staged [OF assms(1) 1] 2(1)])
  with fence_attempts_inv 2(2) show ?thesis by metis
qed

lemma finalize_inv:
  assumes "db_inv s" "finalize_candidate_publication doc cid s = Inr (r, s')"
  shows "db_inv s'"
proof -
  have s': "s' = s\<lparr>docs := update_rows (\<lambda>d. d_id d = doc \<and> d_candidate_id d = Some cid)
      (\<lambda>d. d\<lparr>d_candidate_state := Some PUBLISHED\<rparr>) (docs s)\<rparr>"
    using assms(2) by (simp add: finalize_candidate_publication_def Let_def)
  show ?thesis
    unfolding s' by (rule db_inv_update_docs [OF assms(1)]) (simp add: keeps_identity_def)
qed

end
