(* ===== verification/Attempt_Lease.thy ===== *)
theory Attempt_Lease
  imports Ingest_Invariant
begin

text \<open>
  The lease on a document: \<open>begin_attempt\<close>, the authority check every write of a run makes
  (\<open>_authority\<close>), \<open>heartbeat_attempt\<close>, \<open>record_attempt_outcome\<close> and
  \<open>allocate_generation\<close> of \<open>pipeline/index/db.py\<close>. \<open>ttl\<close> is \<open>ATTEMPT_LEASE_SECONDS\<close> in
  milliseconds, \<open>default_owner\<close> what \<open>_default_owner()\<close> returns on this host.
\<close>

section \<open>Operations\<close>

text \<open>The queue's say in a new attempt: idle for a direct caller, this worker's live job otherwise.\<close>

definition job_refusal ::
  "db \<Rightarrow> uuid \<Rightarrow> (uuid \<times> pystr) option \<Rightarrow> ingest_error option" where
  "job_refusal s doc bound =
    (case (bound, active_jobs s doc) of
       (None, []) \<Rightarrow> None
     | (None, _ # _) \<Rightarrow> Some IngestJobConflict
     | (Some _, []) \<Rightarrow> Some IngestJobOwnershipLost
     | (Some (job, worker), j # _) \<Rightarrow>
         (if j_id j \<noteq> job \<or> j_status j \<noteq> Running \<or> j_worker j \<noteq> Some worker
             \<or> \<not> live s (j_lease_expires_at j)
          then Some IngestJobOwnershipLost else None))"

definition begin_attempt ::
  "time \<Rightarrow> pystr \<Rightarrow> uuid \<Rightarrow> pystr option \<Rightarrow> uuid option \<Rightarrow> pystr option \<Rightarrow> db
     \<Rightarrow> ingest_error + ingest_attempt \<times> db" where
  "begin_attempt ttl default_owner doc owner job worker s =
    (if (job = None) \<noteq> (worker = None) then Inl (ValueError ''ingest job kimligi ve worker birlikte'')
     else case get_doc s doc of
       None \<Rightarrow> Inl (ValueError ''belge kaydi yok'')
     | Some d \<Rightarrow>
        (if d_archived_at d \<noteq> None then Inl DocumentLifecycleConflict
         else if d_candidate_state d \<noteq> Some PUBLISHED then Inl CandidateNotPublished
         else case d_candidate_id d of
           None \<Rightarrow> Inl CandidateNotPublished
         | Some candidate \<Rightarrow>
            (case job_refusal s doc (case (job, worker) of (Some j, Some w) \<Rightarrow> Some (j, w) | _ \<Rightarrow> None) of
               Some e \<Rightarrow> Inl e
             | None \<Rightarrow>
                (if d_attempt_id d \<noteq> None \<and> live s (d_attempt_expires_at d) then Inl AttemptAlreadyRunning
                 else
                   (let s1 = (case d_attempt_id d of None \<Rightarrow> s
                          | Some held \<Rightarrow> close_attempts (\<lambda>r. a_id r = held) SUPERSEDED s);
                        (attempt, s2) = uuid4 s1;
                        holder = (case owner of None \<Rightarrow> default_owner
                          | Some w \<Rightarrow> if w = [] then default_owner else w);
                        s3 = update_doc doc (\<lambda>e. e\<lparr>d_attempt_id := Some attempt,
                               d_attempt_owner := Some holder,
                               d_attempt_expires_at := Some (clock s2 + ttl)\<rparr>) s2
                    in case d_content_sha256 d of
                         None \<Rightarrow> Inl IntegrityError
                       | Some sha \<Rightarrow>
                          (if \<not> has_version s3 doc candidate then Inl IntegrityError
                           else Inr (\<lparr>attempt_id = attempt, document_id = doc, candidate_id = candidate,
                                   candidate_sha = sha, observed_active = d_active_generation d\<rparr>,
                                 s3\<lparr>attempts := attempts s3 @ [\<lparr>a_id = attempt, a_document = doc,
                                   a_candidate = candidate, a_sha = sha,
                                   a_observed_active = d_active_generation d, a_owner = Some holder,
                                   a_status = None, a_note = None, a_ended_at = None\<rparr>]\<rparr>)))))))"

definition authority :: "db \<Rightarrow> ingest_attempt \<Rightarrow> ingest_error option" where
  "authority s att =
    (case get_doc s (document_id att) of
       None \<Rightarrow> Some AttemptLeaseLost
     | Some d \<Rightarrow>
        (if d_candidate_id d \<noteq> Some (candidate_id att) then Some AttemptFenced
         else if d_attempt_id d \<noteq> Some (attempt_id att) then Some AttemptLeaseLost
         else None))"

definition greatest_time :: "time \<Rightarrow> time option \<Rightarrow> time" where
  "greatest_time t expires = (case expires of None \<Rightarrow> t | Some e \<Rightarrow> max t (e + 1))"

definition heartbeat_attempt :: "time \<Rightarrow> ingest_attempt \<Rightarrow> db \<Rightarrow> ingest_error + bool \<times> db" where
  "heartbeat_attempt ttl att s =
    (case authority s att of
       Some e \<Rightarrow> Inl e
     | None \<Rightarrow> Inr (True, update_doc (document_id att) (\<lambda>d. d\<lparr>d_attempt_expires_at :=
           Some (greatest_time (clock s + ttl) (d_attempt_expires_at d))\<rparr>) s))"

text \<open>\<open>status not in WORKER_WRITABLE_OUTCOMES\<close>, decided before any statement runs.\<close>

definition worker_outcome :: "pystr \<Rightarrow> attempt_outcome option" where
  "worker_outcome status = find (\<lambda>out. outcome_text out = status) WORKER_WRITABLE_OUTCOMES"

definition record_attempt_outcome ::
  "ingest_attempt \<Rightarrow> pystr \<Rightarrow> pystr option \<Rightarrow> db \<Rightarrow> ingest_error + bool \<times> db" where
  "record_attempt_outcome att status note s =
    (case worker_outcome status of
       None \<Rightarrow> Inl AttemptOutcomeNotWritable
     | Some out \<Rightarrow>
        (case authority s att of
           Some e \<Rightarrow> Inl e
         | None \<Rightarrow>
            (let s1 = s\<lparr>attempts := update_rows (\<lambda>r. a_id r = attempt_id att)
                  (\<lambda>r. r\<lparr>a_status := Some out, a_note := note, a_ended_at := Some (clock s)\<rparr>) (attempts s)\<rparr>
             in Inr (True, s1\<lparr>docs := update_rows
                  (\<lambda>d. d_id d = document_id att \<and> d_attempt_id d = Some (attempt_id att))
                  clear_lease (docs s1)\<rparr>))))"

definition allocate_generation :: "uuid \<Rightarrow> ingest_attempt \<Rightarrow> db \<Rightarrow> ingest_error + nat \<times> db" where
  "allocate_generation doc att s =
    (case authority s att of
       Some e \<Rightarrow> Inl e
     | None \<Rightarrow>
        (case get_doc s doc of
           None \<Rightarrow> Inl (ValueError ''belge kaydi yok; nesil tahsis edilemedi'')
         | Some d \<Rightarrow> Inr (Suc (d_last_generation d),
              update_doc doc (\<lambda>e. e\<lparr>d_last_generation := Suc (d_last_generation e)\<rparr>) s)))"

section \<open>Authority\<close>

lemma authority_NoneD:
  assumes "authority s att = None"
  obtains d where "get_doc s (document_id att) = Some d" "d \<in> set (docs s)" "d_id d = document_id att"
    "d_candidate_id d = Some (candidate_id att)" "d_attempt_id d = Some (attempt_id att)"
  using assms by (auto simp: authority_def split: option.splits if_splits dest: get_doc_SomeD)

text \<open>Who may write is exactly the running attempt that holds the lease for the current candidate.\<close>

lemma authority_running:
  assumes "db_inv s" "authority s att = None"
  obtains r where "r \<in> set (attempts s)" "a_id r = attempt_id att" "a_status r = None"
    "a_document r = document_id att" "a_candidate r = candidate_id att"
proof -
  obtain d where d: "d \<in> set (docs s)" "d_id d = document_id att"
    "d_candidate_id d = Some (candidate_id att)" "d_attempt_id d = Some (attempt_id att)"
    using assms(2) by (rule authority_NoneD)
  with db_invD(2) [OF assms(1)] have "\<exists>r\<in>set (attempts s). a_id r = attempt_id att
      \<and> a_status r = None \<and> a_document r = d_id d \<and> d_candidate_id d = Some (a_candidate r)"
    unfolding lease_ok_def by blast
  with d that show ?thesis by auto
qed

lemma closed_no_authority:
  assumes "db_inv s" "r \<in> set (attempts s)" "a_id r = attempt_id att" "a_status r \<noteq> None"
  shows "authority s att \<in> {Some AttemptFenced, Some AttemptLeaseLost}"
proof -
  have "authority s att \<noteq> None"
  proof
    assume "authority s att = None"
    with assms(1) obtain r' where "r' \<in> set (attempts s)" "a_id r' = attempt_id att" "a_status r' = None"
      by (rule authority_running)
    with assms attempt_unique [OF db_invD(1) [OF assms(1)]] show False by metis
  qed
  then show ?thesis
    by (auto simp: authority_def split: option.splits if_splits)
qed

section \<open>The operations keep the invariant\<close>

lemma begin_attempt_cases:
  assumes "begin_attempt ttl default_owner doc owner job worker s = Inr (att, s')"
  obtains d candidate sha s1 holder where
    "get_doc s doc = Some d" "d_archived_at d = None" "d_candidate_state d = Some PUBLISHED"
    "d_candidate_id d = Some candidate" "d_content_sha256 d = Some sha" "has_version s doc candidate"
    "d_attempt_id d = None \<or> \<not> live s (d_attempt_expires_at d)"
    "job_refusal s doc (case (job, worker) of (Some j, Some w) \<Rightarrow> Some (j, w) | _ \<Rightarrow> None) = None"
    "s1 = close_attempts (\<lambda>r. d_attempt_id d = Some (a_id r)) SUPERSEDED s"
    "att = \<lparr>attempt_id = uuid_next s, document_id = doc, candidate_id = candidate,
        candidate_sha = sha, observed_active = d_active_generation d\<rparr>"
    "s' = (update_doc doc (\<lambda>e. e\<lparr>d_attempt_id := Some (uuid_next s), d_attempt_owner := Some holder,
        d_attempt_expires_at := Some (clock s + ttl)\<rparr>) s1)
        \<lparr>uuid_next := Suc (uuid_next s),
         attempts := attempts s1 @ [\<lparr>a_id = uuid_next s, a_document = doc,
           a_candidate = candidate, a_sha = sha, a_observed_active = d_active_generation d,
           a_owner = Some holder, a_status = None, a_note = None, a_ended_at = None\<rparr>]\<rparr>"
proof -
  let ?bound = "case (job, worker) of (Some j, Some w) \<Rightarrow> Some (j, w) | _ \<Rightarrow> None"
  have close: "(case held of None \<Rightarrow> s | Some h \<Rightarrow> close_attempts (\<lambda>r. a_id r = h) SUPERSEDED s)
      = close_attempts (\<lambda>r. held = Some (a_id r)) SUPERSEDED s" for held
    by (cases held) (auto simp: close_attempts_def update_rows_def)
  have hv: "has_version (update_doc doc f (t\<lparr>uuid_next := n\<rparr>)) doc c = has_version t doc c" for f t n c
    by (simp add: has_version_def update_doc_def)
  have hc: "has_version (close_attempts p out s) doc c = has_version s doc c" for p out c
    by (simp add: has_version_def close_attempts_def)
  from assms obtain d where d: "get_doc s doc = Some d" "(job = None) = (worker = None)"
    by (auto simp: begin_attempt_def split: if_splits option.splits)
  from assms d obtain candidate where c: "d_archived_at d = None" "d_candidate_state d = Some PUBLISHED"
      "d_candidate_id d = Some candidate"
    by (simp add: begin_attempt_def split: if_splits option.splits)
  from assms d c have j: "job_refusal s doc ?bound = None"
    by (simp add: begin_attempt_def split: if_splits option.splits)
  from assms d c j have l: "d_attempt_id d = None \<or> \<not> live s (d_attempt_expires_at d)"
    by (auto simp: begin_attempt_def split: if_splits)
  from assms d c j l obtain sha where "d_content_sha256 d = Some sha"
    by (auto simp: begin_attempt_def close Let_def uuid4_def split: if_splits option.splits)
  note q = this
  from assms d c j l q show ?thesis
    by (intro that [of d candidate sha _ "case owner of None \<Rightarrow> default_owner
        | Some w \<Rightarrow> if w = [] then default_owner else w", OF _ _ _ _ _ _ _ _ refl])
      (auto simp: begin_attempt_def close uuid4_def Let_def has_version_def close_attempts_def
        update_doc_def split: if_splits)
qed

lemma heartbeat_inv:
  assumes "db_inv s" "heartbeat_attempt ttl att s = Inr (r, s')"
  shows "db_inv s'"
proof -
  from assms(2) obtain f where "s' = s\<lparr>docs := update_rows (\<lambda>d. d_id d = document_id att) f (docs s)\<rparr>"
      "keeps_identity f"
    by (auto simp: heartbeat_attempt_def update_doc_def keeps_identity_def split: option.splits)
  with assms(1) show ?thesis by (simp add: db_inv_update_docs)
qed

lemma allocate_generation_inv:
  assumes "db_inv s" "allocate_generation doc att s = Inr (r, s')"
  shows "db_inv s'"
proof -
  from assms(2) obtain f where "s' = s\<lparr>docs := update_rows (\<lambda>d. d_id d = doc) f (docs s)\<rparr>"
      "keeps_identity f"
    by (auto simp: allocate_generation_def update_doc_def keeps_identity_def split: option.splits)
  with assms(1) show ?thesis by (simp add: db_inv_update_docs)
qed

text \<open>
  Taking over an expired lease: the displaced run is closed, so the new run is the only one,
  and the lease names it.
\<close>

lemma begin_attempt_inv:
  assumes inv: "db_inv s" and begin_ok: "begin_attempt ttl default_owner doc owner job worker s = Inr (att, s')"
  shows "db_inv s'"
  using begin_ok
proof (cases rule: begin_attempt_cases)
  case (1 d candidate sha s1 holder)
  note I = db_invD [OF inv]
  let ?n = "uuid_next s"
  let ?p = "\<lambda>r. a_status r = None \<and> d_attempt_id d = Some (a_id r)"
  let ?c = "\<lambda>r. r\<lparr>a_status := Some SUPERSEDED, a_ended_at := Some (clock s)\<rparr>"
  let ?f = "\<lambda>e. e\<lparr>d_attempt_id := Some ?n, d_attempt_owner := Some holder,
        d_attempt_expires_at := Some (clock s + ttl)\<rparr>"
  let ?as = "update_rows ?p ?c (attempts s)"
  let ?new = "\<lparr>a_id = ?n, a_document = doc, a_candidate = candidate, a_sha = sha,
        a_observed_active = d_active_generation d, a_owner = Some holder, a_status = None, a_note = None,
        a_ended_at = None\<rparr>"
  let ?ds = "update_rows (\<lambda>e. d_id e = d_id d) ?f (docs s)"
  have d: "d \<in> set (docs s)" "d_id d = doc" using get_doc_SomeD [OF 1(1)] by auto
  have s': "s' = s\<lparr>uuid_next := Suc ?n, docs := ?ds, attempts := ?as @ [?new]\<rparr>"
    using 1 d by (simp add: update_doc_def close_attempts_def)
  have set_ds: "set ?ds = insert (?f d) (set (docs s) - {d})" by (rule update_one [OF I(1) d(1)])
  have ids: "ids_ok (Suc ?n) ?ds (?as @ [?new]) (versions s) (jobs s)"
  proof -
    have "ids_ok ?n (docs s) ?as (versions s) (jobs s)"
      using I(1) by (rule ids_ok_update_attempts) simp
    then have "ids_ok (Suc ?n) (docs s) (?as @ [?new]) (versions s) (jobs s)"
      by (fastforce simp: ids_ok_def)
    moreover have "c < Suc ?n" if "e \<in> set (docs s)" "d_candidate_id e = Some c" for e c
      using I(1) that by (fastforce simp: ids_ok_def)
    ultimately show ?thesis by (intro ids_ok_update_docs) auto
  qed
  have lease: "lease_ok ?ds (?as @ [?new])"
    unfolding lease_ok_def set_ds
  proof (intro ballI allI impI)
    fix e a
    assume e: "e \<in> insert (?f d) (set (docs s) - {d})" "d_attempt_id e = Some a"
    show "\<exists>r\<in>set (?as @ [?new]). a_id r = a \<and> a_status r = None \<and> a_document r = d_id e
        \<and> d_candidate_id e = Some (a_candidate r)"
    proof (cases "e = ?f d")
      case True
      with e(2) d 1(4) show ?thesis by auto
    next
      case False
      with e have e': "e \<in> set (docs s)" "e \<noteq> d" by auto
      with I(2) e(2) obtain r where r: "r \<in> set (attempts s)" "a_id r = a" "a_status r = None"
          "a_document r = d_id e" "d_candidate_id e = Some (a_candidate r)"
        unfolding lease_ok_def by blast
      have "d_attempt_id d \<noteq> Some a"
      proof
        assume "d_attempt_id d = Some a"
        with I(2) d(1) obtain r' where "r' \<in> set (attempts s)" "a_id r' = a" "a_document r' = d_id d"
          unfolding lease_ok_def by blast
        with attempt_unique [OF I(1)] r have "d_id e = d_id d" by metis
        with doc_unique [OF I(1) e'(1) d(1)] e'(2) show False by simp
      qed
      with r have "r \<in> set ?as" by (force simp: set_update_rows)
      with r show ?thesis by auto
    qed
  qed
  have running: "running_ok ?ds (?as @ [?new])"
    unfolding running_ok_def
  proof (intro ballI impI)
    fix r
    assume r: "r \<in> set (?as @ [?new])" "a_status r = None"
    show "\<exists>e\<in>set ?ds. d_id e = a_document r \<and> d_attempt_id e = Some (a_id r)"
    proof (cases "r = ?new")
      case True
      with d show ?thesis unfolding set_ds by simp
    next
      case False
      with r have "r \<in> set ?as" by simp
      with r(2) have "r \<in> set (attempts s)" "d_attempt_id d \<noteq> Some (a_id r)"
        by (auto simp: set_update_rows split: if_splits)
      with I(3) r(2) show ?thesis unfolding running_ok_def set_ds by blast
    qed
  qed
  have versions: "versions_ok ?ds (versions s)"
    using I(4) by (rule versions_ok_update_docs) simp_all
  have active: "active_ok ?ds (versions s) (builds s) (chunks s)"
    using I(5) by (rule active_ok_update_docs) simp_all
  from ids lease running versions active I(6) show ?thesis
    unfolding s' db_inv_def by simp
qed

text \<open>
  Closing the run that holds the lease and emptying the lease, together: what a worker's
  verdict and a promotion do. The extra columns a promotion writes are \<open>g\<close>.
\<close>

lemma close_holder:
  assumes inv: "db_inv s" and d: "d \<in> set (docs s)" "d_attempt_id d = Some a"
    and f: "\<And>r. a_id (f r) = a_id r" "\<And>r. a_document (f r) = a_document r" "\<And>r. a_status (f r) \<noteq> None"
    and g: "\<And>e. d_id (g e) = d_id e" "\<And>e. d_attempt_id (g e) = None"
  shows "lease_ok (update_rows (\<lambda>e. d_id e = d_id d) g (docs s)) (update_rows (\<lambda>r. a_id r = a) f (attempts s))"
    "running_ok (update_rows (\<lambda>e. d_id e = d_id d) g (docs s)) (update_rows (\<lambda>r. a_id r = a) f (attempts s))"
proof -
  note I = db_invD [OF inv]
  let ?ds = "update_rows (\<lambda>e. d_id e = d_id d) g (docs s)"
  let ?as = "update_rows (\<lambda>r. a_id r = a) f (attempts s)"
  have set_ds: "set ?ds = insert (g d) (set (docs s) - {d})" by (rule update_one [OF I(1) d(1)])
  obtain r0 where r0: "r0 \<in> set (attempts s)" "a_id r0 = a" "a_document r0 = d_id d"
    using I(2) d unfolding lease_ok_def by blast
  show "lease_ok ?ds ?as"
  proof (rule lease_ok_close)
    show "lease_ok ?ds (attempts s)"
      using I(2) by (rule lease_ok_update_docs) (auto simp: g)
  next
    fix r e
    assume r: "r \<in> set (attempts s)" "e \<in> set ?ds" "a_id r = a" "d_attempt_id e = Some (a_id r)"
    have "e \<noteq> g d" using g(2) [of d] r(4) by auto
    with r(2) have e: "e \<in> set (docs s)" "e \<noteq> d" by (simp_all add: set_ds)
    with I(2) r obtain r' where "r' \<in> set (attempts s)" "a_id r' = a" "a_document r' = d_id e"
      unfolding lease_ok_def by blast
    with attempt_unique [OF I(1)] r0 have "d_id e = d_id d" by metis
    with doc_unique [OF I(1) e(1) d(1)] e(2) show False by simp
  qed
  show "running_ok ?ds ?as"
    unfolding running_ok_def
  proof (intro ballI impI)
    fix r
    assume r: "r \<in> set ?as" "a_status r = None"
    then have r': "r \<in> set (attempts s)" "a_id r \<noteq> a" using f(3) by (elim in_update_rowsE; metis)+
    with I(3) r(2) d(2) show "\<exists>e\<in>set ?ds. d_id e = a_document r \<and> d_attempt_id e = Some (a_id r)"
      unfolding running_ok_def set_ds by fastforce
  qed
qed

lemma record_attempt_outcome_cases:
  assumes "record_attempt_outcome att status note s = Inr (r, s')"
  obtains out where "worker_outcome status = Some out" "authority s att = None" "r = True"
    "s' = s\<lparr>attempts := update_rows (\<lambda>r. a_id r = attempt_id att)
              (\<lambda>r. r\<lparr>a_status := Some out, a_note := note, a_ended_at := Some (clock s)\<rparr>) (attempts s),
            docs := update_rows (\<lambda>d. d_id d = document_id att \<and> d_attempt_id d = Some (attempt_id att))
              clear_lease (docs s)\<rparr>"
  using assms by (auto simp: record_attempt_outcome_def Let_def split: option.splits)

lemma record_attempt_outcome_inv:
  assumes inv: "db_inv s" and rec_ok: "record_attempt_outcome att status note s = Inr (r, s')"
  shows "db_inv s'"
  using rec_ok
proof (cases rule: record_attempt_outcome_cases)
  case (1 out)
  note I = db_invD [OF inv]
  let ?f = "\<lambda>r. r\<lparr>a_status := Some out, a_note := note, a_ended_at := Some (clock s)\<rparr>"
  let ?as = "update_rows (\<lambda>r. a_id r = attempt_id att) ?f (attempts s)"
  obtain d where d: "d \<in> set (docs s)" "d_id d = document_id att" "d_attempt_id d = Some (attempt_id att)"
    using 1(2) by (rule authority_NoneD)
  let ?ds = "update_rows (\<lambda>e. d_id e = d_id d) clear_lease (docs s)"
  have ds: "update_rows (\<lambda>e. d_id e = document_id att \<and> d_attempt_id e = Some (attempt_id att))
      clear_lease (docs s) = ?ds"
    by (rule update_rows_cong) (use doc_unique [OF I(1) _ d(1)] d in metis)
  have "lease_ok ?ds ?as" "running_ok ?ds ?as"
    by (rule close_holder [OF inv d(1,3)]; simp add: clear_lease_def)+
  moreover have "ids_ok (uuid_next s) ?ds ?as (versions s) (jobs s)"
    by (rule ids_ok_update_docs [OF ids_ok_update_attempts [OF I(1)]])
      (use I(1) in \<open>auto simp: clear_lease_def ids_ok_def\<close>)
  moreover have "versions_ok ?ds (versions s)"
    using I(4) by (rule versions_ok_update_docs) (simp_all add: clear_lease_def)
  moreover have "active_ok ?ds (versions s) (builds s) (chunks s)"
    using I(5) by (rule active_ok_update_docs) (simp_all add: clear_lease_def)
  ultimately show ?thesis
    using I(6) 1(4) ds unfolding db_inv_def by simp
qed

end
