(* ===== verification/Generations.thy ===== *)
theory Generations
  imports Attempt_Lease
begin

text \<open>
  Chunks and generations (\<open>upsert_chunks\<close>, \<open>copy_chunks_into_generation\<close>,
  \<open>existing_content_keys\<close>, \<open>promote_generation\<close> of \<open>pipeline/index/db.py\<close>). A run stages rows
  under a generation of its own; promotion compares the staged set with the manifest, swaps
  the served pointer under a three-part comparison, closes the run and sweeps.
\<close>

section \<open>Operations\<close>

text \<open>One row of \<open>INSERT INTO chunks ... ON CONFLICT (id) DO NOTHING\<close> and its row count.\<close>

definition insert_chunk :: "chunk \<Rightarrow> db \<Rightarrow> ingest_error + nat \<times> db" where
  "insert_chunk c s =
    (if \<exists>c'\<in>set (chunks s). c_id c' = c_id c then Inr (0, s)
     else if (case c_version c of None \<Rightarrow> get_doc s (c_document c) = None
              | Some v \<Rightarrow> \<not> has_version s (c_document c) v) then Inl IntegrityError
     else Inr (1, s\<lparr>chunks := chunks s @ [c]\<rparr>))"

fun insert_chunk_rows :: "chunk list \<Rightarrow> db \<Rightarrow> ingest_error + nat \<times> db" where
  "insert_chunk_rows [] s = Inr (0, s)"
| "insert_chunk_rows (c # cs) s =
    (case insert_chunk c s of
       Inl e \<Rightarrow> Inl e
     | Inr (n, s1) \<Rightarrow>
        (case insert_chunk_rows cs s1 of Inl e \<Rightarrow> Inl e | Inr (m, s2) \<Rightarrow> Inr (n + m, s2)))"

definition upsert_chunks :: "chunk list \<Rightarrow> ingest_attempt \<Rightarrow> db \<Rightarrow> ingest_error + unit \<times> db" where
  "upsert_chunks rows att s =
    (case authority s att of
       Some e \<Rightarrow> Inl e
     | None \<Rightarrow>
        (case insert_chunk_rows (map (\<lambda>r. r\<lparr>c_version := Some (candidate_id att)\<rparr>) rows) s of
           Inl e \<Rightarrow> Inl e | Inr (_, s') \<Rightarrow> Inr ((), s')))"

definition existing_chunk_ids :: "db \<Rightarrow> uuid \<Rightarrow> uuid list" where
  "existing_chunk_ids s doc = remdups (map c_id (filter (\<lambda>c. c_document c = doc) (chunks s)))"

text \<open>
  \<open>SELECT ... FROM chunks WHERE ... ORDER BY generation DESC LIMIT 1\<close>: the predecessor whose
  vectors a copied row inherits. Of two rows of one generation the earlier row wins.
\<close>

definition predecessor :: "db \<Rightarrow> uuid \<Rightarrow> chunk \<Rightarrow> chunk option" where
  "predecessor s version r =
     (case sort_key (\<lambda>c. - int (c_generation c)) (filter (\<lambda>c. c_document c = c_document r
         \<and> (c_version c = Some version \<or> c_version c = None)
         \<and> c_content_key r \<noteq> None \<and> c_content_key c = c_content_key r
         \<and> c_fingerprint r \<noteq> None \<and> c_fingerprint c = c_fingerprint r) (chunks s)) of
        [] \<Rightarrow> None | c # _ \<Rightarrow> Some c)"

text \<open>The rows of a copy carry the payload; whatever vectors they hold are replaced.\<close>

fun copy_rows :: "uuid \<Rightarrow> chunk list \<Rightarrow> db \<Rightarrow> ingest_error + nat \<times> db" where
  "copy_rows version [] s = Inr (0, s)"
| "copy_rows version (r # rs) s =
    (case predecessor s version r of
       None \<Rightarrow> copy_rows version rs s
     | Some c \<Rightarrow>
        (case insert_chunk (r\<lparr>c_version := Some version, c_dense := c_dense c, c_sparse := c_sparse c\<rparr>) s of
           Inl e \<Rightarrow> Inl e
         | Inr (n, s1) \<Rightarrow>
            (case copy_rows version rs s1 of Inl e \<Rightarrow> Inl e | Inr (m, s2) \<Rightarrow> Inr (n + m, s2))))"

definition copy_chunks_into_generation ::
  "chunk list \<Rightarrow> ingest_attempt \<Rightarrow> db \<Rightarrow> ingest_error + nat \<times> db" where
  "copy_chunks_into_generation rows att s =
    (case authority s att of
       Some e \<Rightarrow> Inl e
     | None \<Rightarrow> copy_rows (candidate_id att) rows s)"

text \<open>No caller in the program: an older ingest deleted the rows of a document before it wrote new ones.\<close>

definition clear_chunks_for_document :: "uuid \<Rightarrow> db \<Rightarrow> db" where
  "clear_chunks_for_document doc s = s\<lparr>chunks := filter (\<lambda>c. c_document c \<noteq> doc) (chunks s)\<rparr>"

definition existing_content_keys :: "db \<Rightarrow> uuid \<Rightarrow> pystr option \<Rightarrow> uuid list" where
  "existing_content_keys s doc fingerprint = remdups (List.map_filter
     (\<lambda>c. if c_document c = doc \<and> fingerprint \<noteq> None \<and> c_fingerprint c = fingerprint
          then c_content_key c else None) (chunks s))"

text \<open>\<open>_explain_failed_promotion\<close>\<close>

definition explain_failed_promotion :: "db \<Rightarrow> uuid \<Rightarrow> uuid \<Rightarrow> uuid \<Rightarrow> ingest_error" where
  "explain_failed_promotion s doc candidate attempt =
    (case get_doc s doc of
       None \<Rightarrow> ValueError ''es zamanli bir islem kazandi''
     | Some d \<Rightarrow>
        (if d_candidate_id d \<noteq> Some candidate then AttemptFenced
         else if d_attempt_id d \<noteq> Some attempt then AttemptLeaseLost
         else ValueError ''es zamanli bir islem kazandi''))"

text \<open>The SET list of the swap: the served triple, the revision, the status and the lease.\<close>

definition promoted :: "uuid \<Rightarrow> nat \<Rightarrow> pystr \<Rightarrow> document \<Rightarrow> document" where
  "promoted candidate gen sha d = clear_lease (d\<lparr>d_active_version_id := Some candidate,
     d_active_generation := gen, d_active_content_sha := Some sha, d_revision := Suc (d_revision d),
     d_status := u ''done'', d_status_note := None\<rparr>)"

text \<open>The closing DELETE: rows that are neither the winner nor covered by a build receipt.\<close>

definition swept :: "uuid \<Rightarrow> nat \<Rightarrow> uuid \<Rightarrow> db \<Rightarrow> chunk \<Rightarrow> bool" where
  "swept doc gen candidate s c \<longleftrightarrow> c_document c = doc
     \<and> (c_generation c \<noteq> gen \<or> c_version c \<noteq> Some candidate)
     \<and> \<not> (\<exists>b\<in>set (builds s). b_document b = c_document c \<and> Some (b_version b) = c_version c
           \<and> b_generation b = c_generation c)"

definition promote_generation ::
  "uuid \<Rightarrow> nat \<Rightarrow> nat \<Rightarrow> uuid list \<Rightarrow> pystr \<Rightarrow> uuid option \<Rightarrow> uuid option \<Rightarrow> db
     \<Rightarrow> ingest_error + nat \<times> db" where
  "promote_generation doc gen expected manifest sha cand att s =
    (if manifest = [] then Inl (ValueError ''bos manifest terfi edemez'')
     else if sha = [] then Inl (ValueError ''terfi servis edilecek baytlarin ozetini ister'')
     else case (cand, att) of
       (None, _) \<Rightarrow> Inl (ValueError ''terfi bagli oldugu aday kimligini ister'')
     | (Some _, None) \<Rightarrow> Inl (ValueError ''terfi bagli oldugu deneme kimligini ister'')
     | (Some candidate, Some attempt) \<Rightarrow>
        (if set (map c_id (chunks_of s doc (Some candidate) gen)) \<noteq> set manifest
         then Inl (ValueError ''manifest uyusmuyor'')
         else case find (\<lambda>r. a_id r = attempt \<and> a_document r = doc \<and> a_candidate r = candidate)
                (attempts s) of
           None \<Rightarrow> Inl AttemptRecordInconsistent
         | Some r \<Rightarrow>
            (if a_status r = Some SUPERSEDED then Inl AttemptLeaseLost
             else if a_status r \<noteq> None then Inl AttemptRecordInconsistent
             else case find (\<lambda>d. d_id d = doc \<and> d_active_generation d = expected
                      \<and> d_candidate_id d = Some candidate \<and> d_attempt_id d = Some attempt) (docs s) of
               None \<Rightarrow> Inl (explain_failed_promotion s doc candidate attempt)
             | Some d \<Rightarrow>
                (case activation_trigger d (promoted candidate gen sha d)
                        (update_doc doc (promoted candidate gen sha) s) of
                   Inl e \<Rightarrow> Inl e
                 | Inr (_, s1) \<Rightarrow>
                    (let hit = (\<lambda>r. a_id r = attempt \<and> a_document r = doc \<and> a_candidate r = candidate
                           \<and> a_status r = None);
                         s2 = s1\<lparr>attempts := update_rows hit
                           (\<lambda>r. r\<lparr>a_status := Some DONE, a_ended_at := Some (clock s1)\<rparr>) (attempts s1)\<rparr>
                     in if \<not> list_ex hit (attempts s1) then Inl AttemptRecordInconsistent
                     else Inr (length (filter (swept doc gen candidate s2) (chunks s2)),
                       s2\<lparr>chunks := filter (\<lambda>c. \<not> swept doc gen candidate s2 c) (chunks s2)\<rparr>))))))"

section \<open>Staging rows\<close>

lemma insert_chunk_cases:
  assumes "insert_chunk c s = Inr (n, s')"
  obtains (there) "n = 0" "s' = s" "\<exists>c'\<in>set (chunks s). c_id c' = c_id c"
  | (added) "n = 1" "s' = s\<lparr>chunks := chunks s @ [c]\<rparr>" "\<forall>c'\<in>set (chunks s). c_id c' \<noteq> c_id c"
      "\<forall>v. c_version c = Some v \<longrightarrow> has_version s (c_document c) v"
proof (cases "\<exists>c'\<in>set (chunks s). c_id c' = c_id c")
  case True
  with assms there show ?thesis by (simp add: insert_chunk_def)
next
  case False
  have "\<not> (case c_version c of None \<Rightarrow> get_doc s (c_document c) = None
      | Some v \<Rightarrow> \<not> has_version s (c_document c) v)"
    using False assms unfolding insert_chunk_def by (cases "c_version c") (auto split: if_splits)
  with False assms show ?thesis
    by (intro added) (auto simp: insert_chunk_def split: if_splits option.splits)
qed

text \<open>
  What a batch adds: a suffix of the table, rows with pairwise new identities, all of the
  given version, and therefore of the document the version belongs to.
\<close>

lemma insert_chunk_rows_suffix:
  assumes "insert_chunk_rows rows s = Inr (n, s')" "\<forall>r\<in>set rows. c_version r = Some v"
  obtains new where "s' = s\<lparr>chunks := chunks s @ new\<rparr>" "set new \<subseteq> set rows"
    "\<forall>r\<in>set new. has_version s (c_document r) v" "length new = n"
  using assms
proof (induction rows arbitrary: s n thesis)
  case Nil
  show ?case using Nil.prems(1) [of "[]"] Nil.prems(2) by simp
next
  case (Cons c cs)
  from Cons.prems(2) obtain k m s1 where first: "insert_chunk c s = Inr (k, s1)"
      and rest: "insert_chunk_rows cs s1 = Inr (m, s')" and n: "n = k + m"
    by (auto split: sum.splits prod.splits)
  from Cons.prems(3) have cs: "\<forall>r\<in>set cs. c_version r = Some v" "c_version c = Some v" by simp_all
  obtain new where new: "s' = s1\<lparr>chunks := chunks s1 @ new\<rparr>" "set new \<subseteq> set cs"
      "\<forall>r\<in>set new. has_version s1 (c_document r) v" "length new = m"
    using Cons.IH [OF _ rest cs(1)] by metis
  from first show ?case
  proof (cases rule: insert_chunk_cases)
    case there
    with new n show ?thesis by (intro Cons.prems(1) [of new]) auto
  next
    case added
    with new n cs(2) show ?thesis
      by (intro Cons.prems(1) [of "c # new"]) (auto simp: has_version_def)
  qed
qed

lemma copy_rows_suffix:
  assumes "copy_rows v rows s = Inr (n, s')"
  obtains new where "s' = s\<lparr>chunks := chunks s @ new\<rparr>" "c_id ` set new \<subseteq> c_id ` set rows"
    "\<forall>r\<in>set new. c_version r = Some v \<and> has_version s (c_document r) v" "length new = n"
  using assms
proof (induction rows arbitrary: s n thesis)
  case Nil
  show ?case using Nil.prems(1) [of "[]"] Nil.prems(2) by simp
next
  case (Cons r rs)
  show ?case
  proof (cases "predecessor s v r")
    case None
    with Cons.prems(2) have "copy_rows v rs s = Inr (n, s')" by simp
    from Cons.IH [OF _ this] obtain new where "s' = s\<lparr>chunks := chunks s @ new\<rparr>"
        "c_id ` set new \<subseteq> c_id ` set rs"
        "\<forall>r\<in>set new. c_version r = Some v \<and> has_version s (c_document r) v" "length new = n"
      by metis
    then show ?thesis by (intro Cons.prems(1) [of new]) auto
  next
    case (Some p)
    let ?c = "r\<lparr>c_version := Some v, c_dense := c_dense p, c_sparse := c_sparse p\<rparr>"
    from Some Cons.prems(2) obtain k m s1 where first: "insert_chunk ?c s = Inr (k, s1)"
        and rest: "copy_rows v rs s1 = Inr (m, s')" and n: "n = k + m"
      by (auto split: sum.splits prod.splits)
    obtain new where new: "s' = s1\<lparr>chunks := chunks s1 @ new\<rparr>" "c_id ` set new \<subseteq> c_id ` set rs"
        "\<forall>r\<in>set new. c_version r = Some v \<and> has_version s1 (c_document r) v" "length new = m"
      using Cons.IH [OF _ rest] by metis
    from first show ?thesis
    proof (cases rule: insert_chunk_cases)
      case there
      with new n show ?thesis by (intro Cons.prems(1) [of new]) auto
    next
      case added
      with new n show ?thesis
        by (intro Cons.prems(1) [of "?c # new"]) (auto simp: has_version_def)
    qed
  qed
qed

lemma db_inv_more_chunks:
  assumes "db_inv s"
  shows "db_inv (s\<lparr>chunks := chunks s @ new\<rparr>)"
proof -
  note I = db_invD [OF assms]
  have "active_ok (docs s) (versions s) (builds s) (chunks s @ new)"
    by (rule active_ok_mono [OF I(5)]) simp_all
  with I show ?thesis by (simp add: db_inv_def)
qed

lemma upsert_chunks_suffix:
  assumes "upsert_chunks rows att s = Inr (r, s')"
  obtains new where "authority s att = None" "s' = s\<lparr>chunks := chunks s @ new\<rparr>"
    "set new \<subseteq> (\<lambda>r. r\<lparr>c_version := Some (candidate_id att)\<rparr>) ` set rows"
    "\<forall>c\<in>set new. c_version c = Some (candidate_id att) \<and> has_version s (c_document c) (candidate_id att)"
proof -
  let ?rows = "map (\<lambda>r. r\<lparr>c_version := Some (candidate_id att)\<rparr>) rows"
  from assms obtain n where a: "authority s att = None" and i: "insert_chunk_rows ?rows s = Inr (n, s')"
    by (auto simp: upsert_chunks_def split: option.splits sum.splits)
  have v: "\<forall>r\<in>set ?rows. c_version r = Some (candidate_id att)" by auto
  obtain new where "s' = s\<lparr>chunks := chunks s @ new\<rparr>" "set new \<subseteq> set ?rows"
      "\<forall>r\<in>set new. has_version s (c_document r) (candidate_id att)"
    by (rule insert_chunk_rows_suffix [OF i v])
  with a v show ?thesis by (intro that [of new]) auto
qed

lemma upsert_chunks_inv: "db_inv s \<Longrightarrow> upsert_chunks rows att s = Inr (r, s') \<Longrightarrow> db_inv s'"
  by (elim upsert_chunks_suffix) (simp add: db_inv_more_chunks)

lemma copy_chunks_suffix:
  assumes "copy_chunks_into_generation rows att s = Inr (n, s')"
  obtains new where "authority s att = None" "s' = s\<lparr>chunks := chunks s @ new\<rparr>" "length new = n"
    "c_id ` set new \<subseteq> c_id ` set rows"
    "\<forall>c\<in>set new. c_version c = Some (candidate_id att) \<and> has_version s (c_document c) (candidate_id att)"
proof -
  from assms have a: "authority s att = None" and i: "copy_rows (candidate_id att) rows s = Inr (n, s')"
    by (auto simp: copy_chunks_into_generation_def split: option.splits)
  show ?thesis by (rule copy_rows_suffix [OF i]) (use a in \<open>auto intro: that\<close>)
qed

lemma copy_chunks_inv:
  "db_inv s \<Longrightarrow> copy_chunks_into_generation rows att s = Inr (n, s') \<Longrightarrow> db_inv s'"
  by (elim copy_chunks_suffix) (simp add: db_inv_more_chunks)

section \<open>Promotion\<close>

lemma find_SomeD: "find p xs = Some x \<Longrightarrow> x \<in> set xs \<and> p x"
  by (auto simp: find_Some_iff in_set_conv_nth)

lemma promote_cases:
  assumes "promote_generation doc gen expected manifest sha cand att s = Inr (n, s')"
  obtains candidate attempt r d s1 where
    "cand = Some candidate" "att = Some attempt" "manifest \<noteq> []" "sha \<noteq> []"
    "set (map c_id (chunks_of s doc (Some candidate) gen)) = set manifest"
    "r \<in> set (attempts s)" "a_id r = attempt" "a_document r = doc" "a_candidate r = candidate" "a_status r = None"
    "d \<in> set (docs s)" "d_id d = doc" "d_active_generation d = expected"
    "d_candidate_id d = Some candidate" "d_attempt_id d = Some attempt"
    "activation_trigger d (promoted candidate gen sha d) (update_doc doc (promoted candidate gen sha) s)
       = Inr ((), s1)"
    "s' = s1\<lparr>attempts := update_rows (\<lambda>r. a_id r = attempt \<and> a_document r = doc \<and> a_candidate r = candidate
              \<and> a_status r = None) (\<lambda>r. r\<lparr>a_status := Some DONE, a_ended_at := Some (clock s1)\<rparr>) (attempts s1),
            chunks := filter (\<lambda>c. \<not> swept doc gen candidate s1 c) (chunks s1)\<rparr>"
    "n = length (filter (swept doc gen candidate s1) (chunks s1))"
proof -
  have "manifest \<noteq> []" "sha \<noteq> []"
    using assms by (auto simp: promote_generation_def split: if_splits)
  moreover from this assms obtain candidate attempt where ca: "cand = Some candidate" "att = Some attempt"
    by (auto simp: promote_generation_def split: option.splits)
  moreover note m = calculation
  have set_eq: "set (map c_id (chunks_of s doc (Some candidate) gen)) = set manifest"
    using assms m by (auto simp: promote_generation_def split: if_splits)
  from assms m set_eq obtain r where r: "find (\<lambda>r. a_id r = attempt \<and> a_document r = doc \<and> a_candidate r = candidate)
      (attempts s) = Some r" "a_status r = None"
    by (auto simp: promote_generation_def split: option.splits if_splits)
  from assms m set_eq r obtain d where d: "find (\<lambda>d. d_id d = doc \<and> d_active_generation d = expected
      \<and> d_candidate_id d = Some candidate \<and> d_attempt_id d = Some attempt) (docs s) = Some d"
    by (auto simp: promote_generation_def split: option.splits)
  from assms m set_eq r d obtain s1 where s1:
      "activation_trigger d (promoted candidate gen sha d) (update_doc doc (promoted candidate gen sha) s)
       = Inr ((), s1)"
    by (auto simp: promote_generation_def split: sum.splits)
  have sw: "swept doc gen candidate (s1\<lparr>attempts := as\<rparr>) = swept doc gen candidate s1" for as
    by (rule ext) (simp add: swept_def)
  from assms m set_eq r d s1 find_SomeD [OF r(1)] find_SomeD [OF d] show ?thesis
    by (intro that [of candidate attempt r d s1]) (simp_all add: promote_generation_def Let_def sw split: if_splits)
qed

lemma swept_covered: "swept doc gen candidate s c \<Longrightarrow> \<not> covered (builds s) c"
  by (simp add: swept_def covered_def)

lemma promoted_simps [simp]:
  "d_id (promoted candidate gen sha d) = d_id d"
  "d_attempt_id (promoted candidate gen sha d) = None"
  "d_candidate_id (promoted candidate gen sha d) = d_candidate_id d"
  "d_content_sha256 (promoted candidate gen sha d) = d_content_sha256 d"
  "d_last_version_number (promoted candidate gen sha d) = d_last_version_number d"
  "d_active_version_id (promoted candidate gen sha d) = Some candidate"
  "d_active_generation (promoted candidate gen sha d) = gen"
  "d_active_content_sha (promoted candidate gen sha d) = Some sha"
  "d_revision (promoted candidate gen sha d) = Suc (d_revision d)"
  "d_status (promoted candidate gen sha d) = u ''done''"
  "d_archived_at (promoted candidate gen sha d) = d_archived_at d"
  by (simp_all add: promoted_def clear_lease_def)

text \<open>
  A promotion handed the digest the catalogue holds for the candidate keeps the invariant.
\<close>

lemma promote_inv:
  assumes inv: "db_inv s" and ok: "promote_generation doc gen expected manifest sha cand att s = Inr (n, s')"
    and sha: "\<exists>v\<in>set (versions s). Some (v_id v) = cand \<and> v_sha v = sha"
  shows "db_inv s'"
  using ok
proof (cases rule: promote_cases)
  case (1 candidate attempt r d s1)
  note I = db_invD [OF inv]
  let ?g = "promoted candidate gen sha"
  let ?f = "\<lambda>r. r\<lparr>a_status := Some DONE, a_ended_at := Some (clock s1)\<rparr>"
  let ?ds = "update_rows (\<lambda>e. d_id e = d_id d) ?g (docs s)"
  let ?as = "update_rows (\<lambda>r. a_id r = attempt) ?f (attempts s)"
  note fr = activation_trigger_frame [OF 1(16)]
  have as: "update_rows (\<lambda>r. a_id r = attempt \<and> a_document r = doc \<and> a_candidate r = candidate
      \<and> a_status r = None) ?f (attempts s1) = ?as"
  proof -
    have "attempts s1 = attempts s" using fr(2) by (simp add: update_doc_def)
    moreover have "x \<in> set (attempts s) \<Longrightarrow> a_id x = attempt \<Longrightarrow> x = r" for x
      using attempt_unique [OF I(1) _ 1(6)] 1(7) by simp
    ultimately show ?thesis using 1(7-10) by (simp only:) (rule update_rows_cong, blast)
  qed
  have ds: "docs s1 = ?ds" using fr(1) 1(12) by (simp add: update_doc_def)
  have active: "active_ok (docs s1) (versions s1) (builds s1) (chunks s1)"
    by (rule active_ok_activation [OF inv 1(11), of ?g s1 candidate])
      (use 1(1,12,16) sha in \<open>auto\<close>)
  have "lease_ok ?ds ?as" "running_ok ?ds ?as"
    by (rule close_holder [OF inv 1(11,15)]; simp)+
  moreover have "ids_ok (uuid_next s) ?ds ?as (versions s) (jobs s)"
    by (rule ids_ok_update_docs [OF ids_ok_update_attempts [OF I(1)]]) (use I(1) in \<open>auto simp: ids_ok_def\<close>)
  moreover have "versions_ok ?ds (versions s)"
    using I(4) by (rule versions_ok_update_docs) simp_all
  moreover have "active_ok ?ds (versions s1) (builds s1) (filter (\<lambda>c. \<not> swept doc gen candidate s1 c) (chunks s1))"
    by (rule active_ok_keep [OF active [unfolded ds]]) (auto dest: swept_covered)
  ultimately show ?thesis
    using I(6) fr as ds unfolding 1(17) db_inv_def by (simp add: update_doc_def)
qed

end
