(* ===== verification/Lifecycle.thy ===== *)
theory Lifecycle
  imports Generations
begin

text \<open>
  The life of a served document: its version catalogue and the manual switch of the served
  version (\<open>list_document_versions\<close>, \<open>document_version_source_digest\<close>,
  \<open>activate_document_version\<close>), archive and restore (\<open>set_document_archived\<close>), the status stamp
  (\<open>set_document_status\<close>) of \<open>pipeline/index/db.py\<close>. Identifiers arrive parsed; a Python int
  is an \<open>int\<close>.
\<close>

section \<open>Validation\<close>

definition version_counter :: "int \<Rightarrow> int \<Rightarrow> ingest_error option" where
  "version_counter minimum value = (if value < minimum then Some (ValueError ''gecersiz'') else None)"

definition version_hash :: "pystr \<Rightarrow> ingest_error option" where
  "version_hash value = (if \<not> hex64 value
     then Some (ValueError ''surum ozeti 64 kucuk harf hex karakter olmali'') else None)"

section \<open>The catalogue\<close>

definition document_version_source_digest :: "db \<Rightarrow> uuid \<Rightarrow> uuid \<Rightarrow> pystr option" where
  "document_version_source_digest s doc version =
     map_option v_sha (find (\<lambda>v. v_document v = doc \<and> v_id v = version) (versions s))"

text \<open>A receipt whose chunks are all still there: the build can be served as it was.\<close>

definition build_ready :: "db \<Rightarrow> build_row \<Rightarrow> bool" where
  "build_ready s b = (b_chunk_count b
     = length (chunks_of s (b_document b) (Some (b_version b)) (b_generation b)))"

definition index_ready :: "db \<Rightarrow> uuid \<Rightarrow> uuid \<Rightarrow> bool" where
  "index_ready s doc version =
     (\<exists>b\<in>set (builds s). b_document b = doc \<and> b_version b = version \<and> build_ready s b)"

record version_view =
  vv_version_id :: uuid
  vv_version_number :: nat
  vv_created_at :: time
  vv_is_active :: bool
  vv_index_ready :: bool
  vv_document_revision :: nat

definition version_view_of :: "db \<Rightarrow> document \<Rightarrow> version_row \<Rightarrow> version_view" where
  "version_view_of s d v = \<lparr>vv_version_id = v_id v, vv_version_number = v_number v,
     vv_created_at = v_created_at v, vv_is_active = (d_active_version_id d = Some (v_id v)),
     vv_index_ready = index_ready s (v_document v) (v_id v), vv_document_revision = d_revision d\<rparr>"

text \<open>
  Newest first, one row beyond the limit as the sentinel of a further page.
\<close>

definition list_document_versions ::
  "db \<Rightarrow> uuid \<Rightarrow> int \<Rightarrow> int option \<Rightarrow> ingest_error + version_view list" where
  "list_document_versions s doc limit before =
    (if version_counter 1 limit \<noteq> None \<or> 100 < limit
        \<or> (case before of None \<Rightarrow> False | Some n \<Rightarrow> version_counter 1 n \<noteq> None)
     then Inl (ValueError ''gecersiz'')
     else case get_doc s doc of
       None \<Rightarrow> Inr []
     | Some d \<Rightarrow> Inr (map (version_view_of s d) (take (nat limit + 1)
         (sort_key (\<lambda>v. - int (v_number v)) (sort_key (\<lambda>v. - int (v_id v))
           (filter (\<lambda>v. v_document v = doc \<and> (case before of None \<Rightarrow> True | Some n \<Rightarrow> int (v_number v) < n))
             (versions s)))))))"

section \<open>Activation\<close>

definition has_active_job :: "db \<Rightarrow> uuid \<Rightarrow> bool" where
  "has_active_job s doc = (\<exists>j\<in>set (jobs s). j_document j = doc \<and> active_status (j_status j))"

text \<open>\<open>... ORDER BY b.generation DESC LIMIT 1\<close>: the newest build of the version that is ready.\<close>

definition activation_target :: "db \<Rightarrow> uuid \<Rightarrow> uuid \<Rightarrow> (version_row \<times> build_row) option" where
  "activation_target s doc version =
    (case find (\<lambda>v. v_document v = doc \<and> v_id v = version) (versions s) of
       None \<Rightarrow> None
     | Some v \<Rightarrow>
        (case sort_key (\<lambda>b. - int (b_generation b))
            (filter (\<lambda>b. b_document b = doc \<and> b_version b = version \<and> build_ready s b) (builds s)) of
           [] \<Rightarrow> None | b # _ \<Rightarrow> Some (v, b)))"

definition activated :: "uuid \<Rightarrow> nat \<Rightarrow> pystr \<Rightarrow> document \<Rightarrow> document" where
  "activated version gen sha d = d\<lparr>d_active_version_id := Some version, d_active_generation := gen,
     d_active_content_sha := Some sha, d_status := u ''done'', d_status_note := None,
     d_revision := Suc (d_revision d)\<rparr>"

record activation =
  act_generation :: nat
  act_revision :: nat
  act_changed :: bool

definition activate_document_version ::
  "uuid \<Rightarrow> uuid \<Rightarrow> int \<Rightarrow> pystr \<Rightarrow> db \<Rightarrow> ingest_error + activation option \<times> db" where
  "activate_document_version doc version expected sha s =
    (case version_counter 0 expected of Some e \<Rightarrow> Inl e | None \<Rightarrow>
    (case version_hash sha of Some e \<Rightarrow> Inl e | None \<Rightarrow>
    (case get_doc s doc of
       None \<Rightarrow> Inr (None, s)
     | Some d \<Rightarrow>
        (if d_attempt_id d \<noteq> None then Inl DocumentLifecycleConflict
         else if d_archived_at d \<noteq> None then Inl DocumentLifecycleConflict
         else if int (d_revision d) \<noteq> expected then Inl DocumentVersionConflict
         else if has_active_job s doc then Inl DocumentLifecycleConflict
         else case activation_target s doc version of
           None \<Rightarrow> Inr (None, s)
         | Some (v, b) \<Rightarrow>
            (if v_sha v \<noteq> sha then Inl DocumentVersionConflict
             else if d_active_version_id d = Some version \<and> d_active_generation d = b_generation b
             then Inr (Some \<lparr>act_generation = b_generation b, act_revision = d_revision d,
                    act_changed = False\<rparr>, s)
             else case activation_trigger d (activated version (b_generation b) (v_sha v) d)
                      (update_doc doc (activated version (b_generation b) (v_sha v)) s) of
               Inl e \<Rightarrow> Inl e
             | Inr (_, s') \<Rightarrow> Inr (Some \<lparr>act_generation = b_generation b,
                 act_revision = Suc (d_revision d), act_changed = True\<rparr>, s'))))))"

section \<open>Archive and status\<close>

definition set_document_archived ::
  "uuid \<Rightarrow> bool \<Rightarrow> db \<Rightarrow> ingest_error + (bool \<times> time option) option \<times> db" where
  "set_document_archived doc archived s =
    (case get_doc s doc of
       None \<Rightarrow> Inr (None, s)
     | Some d \<Rightarrow>
        (if d_purged_at d \<noteq> None then Inl DocumentLifecycleConflict
         else if (d_archived_at d \<noteq> None) = archived
         then Inr (Some (d_archived_at d \<noteq> None, d_archived_at d), s)
         else if has_active_job s doc then Inl DocumentLifecycleConflict
         else if d_attempt_id d \<noteq> None then Inl DocumentLifecycleConflict
         else
           (let stamp = (if archived then Some (clock s) else None)
            in Inr (Some (stamp \<noteq> None, stamp), update_doc doc (\<lambda>e. e\<lparr>d_archived_at := stamp\<rparr>) s))))"

definition set_document_status ::
  "uuid \<Rightarrow> pystr \<Rightarrow> pystr option \<Rightarrow> nat option \<Rightarrow> uuid option \<Rightarrow> db \<Rightarrow> ingest_error + bool \<times> db" where
  "set_document_status doc status note expected candidate s =
    (let hit = (\<lambda>d. d_id d = doc \<and> (expected = None \<or> expected = Some (d_active_generation d))
           \<and> (candidate = None \<or> d_candidate_id d = candidate))
     in Inr (list_ex hit (docs s),
             s\<lparr>docs := update_rows hit (\<lambda>d. d\<lparr>d_status := status, d_status_note := note\<rparr>) (docs s)\<rparr>))"

section \<open>The operations keep the invariant\<close>

lemma set_document_archived_inv:
  assumes "db_inv s" "set_document_archived doc archived s = Inr (r, s')"
  shows "db_inv s'"
proof -
  have "s' = s \<or> (\<exists>stamp. s' = update_doc doc (\<lambda>e. e\<lparr>d_archived_at := stamp\<rparr>) s)"
    using assms(2) by (auto simp: set_document_archived_def Let_def split: option.splits if_splits)
  with assms(1) show ?thesis
    by (auto simp: update_doc_def keeps_identity_def intro!: db_inv_update_docs)
qed

lemma set_document_status_inv:
  assumes "db_inv s" "set_document_status doc status note expected candidate s = Inr (r, s')"
  shows "db_inv s'"
  using assms by (auto simp: set_document_status_def Let_def keeps_identity_def intro!: db_inv_update_docs)

lemma activation_target_SomeD:
  assumes "activation_target s doc version = Some (v, b)"
  shows "v \<in> set (versions s)" "v_document v = doc" "v_id v = version"
    "b \<in> set (builds s)" "b_document b = doc" "b_version b = version" "build_ready s b"
    "\<And>b'. b' \<in> set (builds s) \<Longrightarrow> b_document b' = doc \<Longrightarrow> b_version b' = version \<Longrightarrow> build_ready s b'
       \<Longrightarrow> b_generation b' \<le> b_generation b"
proof -
  let ?bs = "filter (\<lambda>b. b_document b = doc \<and> b_version b = version \<and> build_ready s b) (builds s)"
  from assms obtain rest where v: "find (\<lambda>v. v_document v = doc \<and> v_id v = version) (versions s) = Some v"
      and sorted_bs: "sort_key (\<lambda>b. - int (b_generation b)) ?bs = b # rest"
    by (auto simp: activation_target_def split: option.splits list.splits)
  from find_SomeD [OF v] show "v \<in> set (versions s)" "v_document v = doc" "v_id v = version" by auto
  have set_bs: "set (b # rest) = set ?bs" using arg_cong [OF sorted_bs, of set] by simp
  then have "b \<in> set ?bs" by auto
  then show "b \<in> set (builds s)" "b_document b = doc" "b_version b = version" "build_ready s b" by auto
  fix b'
  assume "b' \<in> set (builds s)" "b_document b' = doc" "b_version b' = version" "build_ready s b'"
  then have "b' \<in> set (b # rest)" unfolding set_bs by simp
  moreover have "sorted (map (\<lambda>b. - int (b_generation b)) (b # rest))"
    using sorted_sort_key [of "\<lambda>b. - int (b_generation b)" ?bs] sorted_bs by simp
  ultimately show "b_generation b' \<le> b_generation b" by auto
qed

lemma activate_cases:
  assumes "activate_document_version doc version expected sha s = Inr (r, s')"
  obtains (nothing_done) "s' = s" "case r of None \<Rightarrow> True | Some a \<Rightarrow> \<not> act_changed a"
  | (changed) d v b where "get_doc s doc = Some d" "d_attempt_id d = None" "d_archived_at d = None"
      "int (d_revision d) = expected" "\<not> has_active_job s doc"
      "activation_target s doc version = Some (v, b)" "v_sha v = sha"
      "activation_trigger d (activated version (b_generation b) sha d)
         (update_doc doc (activated version (b_generation b) sha) s) = Inr ((), s')"
      "r = Some \<lparr>act_generation = b_generation b, act_revision = Suc (d_revision d), act_changed = True\<rparr>"
      "\<not> (d_active_version_id d = Some version \<and> d_active_generation d = b_generation b)"
proof (cases "\<exists>a. r = Some a \<and> act_changed a")
  case False
  with assms have "s' = s"
    unfolding activate_document_version_def
    by (auto split: option.splits if_splits sum.splits prod.splits)
  with False show ?thesis by (intro nothing_done) (auto split: option.splits)
next
  case True
  from assms have h: "version_counter 0 expected = None" "version_hash sha = None"
    by (auto simp: activate_document_version_def split: option.splits)
  from assms True h obtain d where d: "get_doc s doc = Some d"
    by (auto simp: activate_document_version_def split: option.splits)
  from assms h d have g: "d_attempt_id d = None" "d_archived_at d = None" "int (d_revision d) = expected"
      "\<not> has_active_job s doc"
    by (auto simp: activate_document_version_def split: if_splits)
  from assms True h d g obtain v b where t: "activation_target s doc version = Some (v, b)"
    by (auto simp: activate_document_version_def split: option.splits)
  from assms h d g t have v: "v_sha v = sha"
    by (auto simp: activate_document_version_def split: if_splits)
  from assms True h d g t v have m: "\<not> (d_active_version_id d = Some version \<and> d_active_generation d = b_generation b)"
    by (auto simp: activate_document_version_def split: if_splits)
  from assms True h d g t v m show ?thesis
    by (intro changed [of d v b]) (simp_all add: activate_document_version_def split: sum.splits prod.splits)
qed

lemma activated_simps [simp]:
  "d_id (activated version gen sha d) = d_id d"
  "d_attempt_id (activated version gen sha d) = d_attempt_id d"
  "d_candidate_id (activated version gen sha d) = d_candidate_id d"
  "d_content_sha256 (activated version gen sha d) = d_content_sha256 d"
  "d_last_version_number (activated version gen sha d) = d_last_version_number d"
  "d_active_version_id (activated version gen sha d) = Some version"
  "d_active_generation (activated version gen sha d) = gen"
  "d_active_content_sha (activated version gen sha d) = Some sha"
  "d_revision (activated version gen sha d) = Suc (d_revision d)"
  by (simp_all add: activated_def)

lemma activate_inv:
  assumes inv: "db_inv s" and ok: "activate_document_version doc version expected sha s = Inr (r, s')"
  shows "db_inv s'"
  using ok
proof (cases rule: activate_cases)
  case nothing_done
  with inv show ?thesis by simp
next
  case (changed d v b)
  note I = db_invD [OF inv]
  note t = activation_target_SomeD [OF changed(6)]
  note fr = activation_trigger_frame [OF changed(8)]
  let ?g = "activated version (b_generation b) sha"
  let ?ds = "update_rows (\<lambda>e. d_id e = doc) ?g (docs s)"
  have d: "d \<in> set (docs s)" "d_id d = doc" using get_doc_SomeD [OF changed(1)] by auto
  have active: "active_ok (docs s') (versions s') (builds s') (chunks s')"
    by (rule active_ok_activation [OF inv d(1), of ?g s' version]) (use changed(7,8) t d in \<open>auto\<close>)
  have "lease_ok ?ds (attempts s)" using I(2) by (rule lease_ok_update_docs) simp_all
  moreover have "running_ok ?ds (attempts s)" using I(3) by (rule running_ok_update_docs) simp_all
  moreover have "ids_ok (uuid_next s) ?ds (attempts s) (versions s) (jobs s)"
    by (rule ids_ok_update_docs [OF I(1)]) (use I(1) in \<open>auto simp: ids_ok_def\<close>)
  moreover have "versions_ok ?ds (versions s)" using I(4) by (rule versions_ok_update_docs) simp_all
  ultimately show ?thesis
    using active I(6) fr unfolding db_inv_def by (simp add: update_doc_def)
qed

end
