(* ===== verification/Py_Text.thy ===== *)
theory Py_Text
  imports Prelude
begin

text \<open>
  What the components use of Python's \<open>str\<close>: \<open>isspace\<close> and \<open>strip\<close> on code points, control
  characters, and the encodability of a text in UTF-8.
\<close>

definition is_space :: "nat \<Rightarrow> bool" where
  "is_space c = (9 \<le> c \<and> c \<le> 13 \<or> 28 \<le> c \<and> c \<le> 32 \<or> c = 133 \<or> c = 160 \<or> c = 5760
     \<or> 8192 \<le> c \<and> c \<le> 8202 \<or> c = 8232 \<or> c = 8233 \<or> c = 8239 \<or> c = 8287 \<or> c = 12288)"

definition lstrip :: "pystr \<Rightarrow> pystr" where
  "lstrip x = dropWhile is_space x"

definition rstrip :: "pystr \<Rightarrow> pystr" where
  "rstrip x = rev (dropWhile is_space (rev x))"

definition strip :: "pystr \<Rightarrow> pystr" where
  "strip x = rstrip (lstrip x)"

text \<open>\<open>ord(char) < 32 or ord(char) == 127\<close>\<close>

definition is_control :: "nat \<Rightarrow> bool" where
  "is_control c = (c < 32 \<or> c = 127)"

definition is_surrogate :: "nat \<Rightarrow> bool" where
  "is_surrogate c = (55296 \<le> c \<and> c \<le> 57343)"

definition is_digit :: "nat \<Rightarrow> bool" where
  "is_digit c = (48 \<le> c \<and> c \<le> 57)"

lemma rstrip_append_eq: "\<exists>ys. x = rstrip x @ ys \<and> list_all is_space ys"
proof -
  have "rev x = takeWhile is_space (rev x) @ dropWhile is_space (rev x)" by simp
  then have "x = rstrip x @ rev (takeWhile is_space (rev x))"
    by (metis rev_append rev_rev_ident rstrip_def)
  moreover have "list_all is_space (rev (takeWhile is_space (rev x)))"
    by (auto simp: list_all_iff dest: set_takeWhileD)
  ultimately show ?thesis by blast
qed

lemma lstrip_head: "lstrip x = c # cs \<Longrightarrow> \<not> is_space c"
  by (metis dropWhile_eq_Cons_conv lstrip_def)

lemma rstrip_last: "rstrip x \<noteq> [] \<Longrightarrow> \<not> is_space (last (rstrip x))"
  by (simp add: rstrip_def last_rev hd_dropWhile)

text \<open>Stripping is idempotent: what it returns starts and ends with a non-space.\<close>

lemma strip_ends:
  assumes "strip x \<noteq> []"
  shows "\<not> is_space (hd (strip x))" "\<not> is_space (last (strip x))"
proof -
  obtain ys where ys: "lstrip x = strip x @ ys"
    unfolding strip_def using rstrip_append_eq by blast
  with assms obtain c cs where "strip x = c # cs" by (cases "strip x") auto
  with ys show "\<not> is_space (hd (strip x))" using lstrip_head [of x c "cs @ ys"] by simp
  show "\<not> is_space (last (strip x))"
    using assms unfolding strip_def by (rule rstrip_last)
qed

lemma strip_unchanged:
  assumes "x \<noteq> []" "\<not> is_space (hd x)" "\<not> is_space (last x)"
  shows "strip x = x"
proof -
  have "lstrip x = x" using assms(1,2) by (cases x) (simp_all add: lstrip_def)
  moreover have "rstrip x = x"
    using assms(1,3) by (cases x rule: rev_cases) (simp_all add: rstrip_def)
  ultimately show ?thesis by (simp add: strip_def)
qed

lemma strip_idem [simp]: "strip (strip x) = strip x"
proof (cases "strip x = []")
  case True
  have "strip [] = []" by (simp add: strip_def lstrip_def rstrip_def)
  with True show ?thesis by simp
next
  case False
  then show ?thesis by (intro strip_unchanged) (simp_all add: strip_ends)
qed

end
