(* ===== verification/Job_Queue.thy ===== *)
theory Job_Queue
  imports Lifecycle Py_Text
begin

text \<open>
  The durable ingest queue of \<open>pipeline/index/db.py\<close>: \<open>enqueue_ingest_job\<close>,
  \<open>claim_ingest_job\<close>, \<open>heartbeat_ingest_job\<close>, \<open>finish_ingest_job\<close>, \<open>retry_ingest_job\<close>,
  \<open>cancel_ingest_job\<close> and the readers. \<open>sha256\<close> is the digest of the UTF-8 bytes of a text, in
  hexadecimal. One transaction runs at a time, so \<open>SKIP LOCKED\<close> skips nothing.
\<close>

section \<open>Validation\<close>

definition job_key_digest :: "(pystr \<Rightarrow> pystr) \<Rightarrow> pystr \<Rightarrow> ingest_error + pystr" where
  "job_key_digest sha256 value =
    (if value = [] \<or> value \<noteq> strip value \<or> 200 < length value \<or> list_ex is_control value
     then Inl (ValueError ''idempotency key gecersiz'')
     else if list_ex is_surrogate value then Inl (ValueError ''surrogates not allowed'')
     else Inr (sha256 value))"

definition job_note :: "pystr option \<Rightarrow> ingest_error + pystr option" where
  "job_note value =
    (case value of
       None \<Rightarrow> Inr None
     | Some n \<Rightarrow> (if n = [] \<or> 100 < length n \<or> list_ex is_control n
                 then Inl (ValueError ''job outcome note gecersiz'') else Inr (Some n)))"

text \<open>The display spelling and its case-insensitive identity (\<open>_canonical_label\<close>).\<close>

definition canonical_label :: "(pystr \<Rightarrow> pystr) \<Rightarrow> pystr \<Rightarrow> ingest_error + pystr \<times> pystr" where
  "canonical_label casefold value =
    (let display = strip value
     in if display = [] then Inl (ValueError ''bos olmayan bir metin olmali'')
     else if list_ex is_control display then Inl (ValueError ''kontrol karakteri iceremez'')
     else Inr (display, casefold display))"

definition job_lease_ok :: "int \<Rightarrow> bool" where
  "job_lease_ok secs = (30 \<le> secs \<and> secs \<le> 7200)"

definition max_attempts_ok :: "int \<Rightarrow> bool" where
  "max_attempts_ok n = (1 \<le> n \<and> n \<le> 20)"

section \<open>Operations\<close>

record job_view =
  jv_job_id :: uuid
  jv_document_id :: uuid
  jv_candidate_id :: uuid
  jv_version_id :: uuid
  jv_status :: job_status
  jv_attempt_count :: nat
  jv_created_at :: time
  jv_started_at :: "time option"
  jv_finished_at :: "time option"
  jv_outcome_note :: "pystr option"

definition public_job :: "job \<Rightarrow> job_view" where
  "public_job j = \<lparr>jv_job_id = j_id j, jv_document_id = j_document j, jv_candidate_id = j_candidate j,
     jv_version_id = j_version j, jv_status = j_status j, jv_attempt_count = j_attempt_count j,
     jv_created_at = j_created_at j, jv_started_at = j_started_at j,
     jv_finished_at = j_finished_at j, jv_outcome_note = j_outcome_note j\<rparr>"

definition enqueue_ingest_job ::
  "(pystr \<Rightarrow> pystr) \<Rightarrow> uuid \<Rightarrow> pystr \<Rightarrow> db \<Rightarrow> ingest_error + job_view option \<times> db" where
  "enqueue_ingest_job sha256 doc key s =
    (case job_key_digest sha256 key of
       Inl e \<Rightarrow> Inl e
     | Inr digest \<Rightarrow>
        (case get_doc s doc of
           None \<Rightarrow> Inr (None, s)
         | Some d \<Rightarrow>
            (case find (\<lambda>j. j_document j = doc \<and> j_key j = digest) (jobs s) of
               Some j \<Rightarrow> Inr (Some (public_job j), s)
             | None \<Rightarrow>
                (if d_archived_at d \<noteq> None then Inl DocumentLifecycleConflict
                 else case (d_candidate_state d, d_candidate_id d, d_content_sha256 d) of
                   (Some PUBLISHED, Some candidate, Some sha) \<Rightarrow>
                    (if sha = [] then Inl CandidateNotPublished
                     else if d_attempt_id d \<noteq> None then Inl IngestJobConflict
                     else if has_active_job s doc then Inl IngestJobConflict
                     else if length sha \<noteq> 64 \<or> length digest \<noteq> 64 \<or> \<not> has_version s doc candidate
                     then Inl IntegrityError
                     else
                       (let (i, s1) = uuid4 s;
                            j = \<lparr>j_id = i, j_document = doc, j_candidate = candidate,
                              j_version = candidate, j_sha = sha, j_key = digest, j_status = Queued,
                              j_attempt_count = 0, j_worker = None, j_lease_expires_at = None,
                              j_created_at = clock s, j_started_at = None, j_finished_at = None,
                              j_outcome_note = None\<rparr>
                        in Inr (Some (public_job j), s1\<lparr>jobs := jobs s1 @ [j]\<rparr>)))
                 | _ \<Rightarrow> Inl CandidateNotPublished))))"

definition get_ingest_job :: "db \<Rightarrow> uuid \<Rightarrow> job_view option" where
  "get_ingest_job s i = map_option public_job (get_job s i)"

definition active_ingest_job :: "db \<Rightarrow> uuid \<Rightarrow> job_view option" where
  "active_ingest_job s doc = (case active_jobs s doc of [] \<Rightarrow> None | j # _ \<Rightarrow> Some (public_job j))"

text \<open>\<open>status = 'running' AND lease_expires_at <= now()\<close>\<close>

definition lapsed :: "db \<Rightarrow> job \<Rightarrow> bool" where
  "lapsed s j = (j_status j = Running
     \<and> (case j_lease_expires_at j of None \<Rightarrow> False | Some t \<Rightarrow> t \<le> clock s))"

definition close_exhausted :: "int \<Rightarrow> db \<Rightarrow> db" where
  "close_exhausted max_attempts s = s\<lparr>jobs := update_rows
     (\<lambda>j. lapsed s j \<and> max_attempts \<le> int (j_attempt_count j))
     (\<lambda>j. j\<lparr>j_status := Failed, j_finished_at := Some (clock s), j_worker := None,
            j_lease_expires_at := None, j_outcome_note := Some (u ''attempts_exhausted'')\<rparr>) (jobs s)\<rparr>"

definition next_job :: "int \<Rightarrow> db \<Rightarrow> job option" where
  "next_job max_attempts s =
     (case sort_key j_created_at (sort_key j_id (filter (\<lambda>j. (j_status j = Queued \<or> lapsed s j)
             \<and> int (j_attempt_count j) < max_attempts) (jobs s))) of
        [] \<Rightarrow> None | j # _ \<Rightarrow> Some j)"

definition take_job :: "pystr \<Rightarrow> time \<Rightarrow> time \<Rightarrow> job \<Rightarrow> job" where
  "take_job worker now lease j = j\<lparr>j_status := Running, j_worker := Some worker,
     j_attempt_count := Suc (j_attempt_count j),
     j_started_at := Some (case j_started_at j of None \<Rightarrow> now | Some t \<Rightarrow> t),
     j_finished_at := None, j_outcome_note := None, j_lease_expires_at := Some (now + lease)\<rparr>"

record claimed_job =
  cj_job :: job_view
  cj_filename :: "pystr option"
  cj_archived_at :: "time option"
  cj_bound_candidate_id :: uuid
  cj_bound_candidate_sha :: pystr
  cj_current_candidate_id :: "uuid option"
  cj_current_candidate_sha :: "pystr option"

definition claim_ingest_job ::
  "(pystr \<Rightarrow> pystr) \<Rightarrow> pystr \<Rightarrow> int \<Rightarrow> int \<Rightarrow> db \<Rightarrow> ingest_error + claimed_job option \<times> db" where
  "claim_ingest_job casefold worker_id lease_seconds max_attempts s =
    (case canonical_label casefold worker_id of
       Inl e \<Rightarrow> Inl e
     | Inr (worker, _) \<Rightarrow>
        (if \<not> job_lease_ok lease_seconds then Inl (ValueError ''job lease 30..7200 saniye olmali'')
         else if \<not> max_attempts_ok max_attempts then Inl (ValueError ''max_attempts 1..20 olmali'')
         else
           (let s1 = close_exhausted max_attempts s
            in case next_job max_attempts s1 of
                 None \<Rightarrow> Inr (None, s1)
               | Some j0 \<Rightarrow>
                  (let take = take_job worker (clock s1) (1000 * lease_seconds);
                       j = take j0;
                       s2 = s1\<lparr>jobs := update_rows (\<lambda>r. j_id r = j_id j0) take (jobs s1)\<rparr>;
                       d = get_doc s2 (j_document j)
                   in Inr (Some \<lparr>cj_job = public_job j,
                        cj_filename = map_option d_filename d,
                        cj_archived_at = Option.bind d d_archived_at,
                        cj_bound_candidate_id = j_candidate j, cj_bound_candidate_sha = j_sha j,
                        cj_current_candidate_id = Option.bind d d_candidate_id,
                        cj_current_candidate_sha = Option.bind d d_content_sha256\<rparr>, s2)))))"

text \<open>\<open>WHERE id = ... AND status = 'running' AND worker_id = ... AND lease_expires_at > now()\<close>\<close>

definition owned :: "db \<Rightarrow> uuid \<Rightarrow> pystr \<Rightarrow> job \<Rightarrow> bool" where
  "owned s i worker j = (j_id j = i \<and> j_status j = Running \<and> j_worker j = Some worker
     \<and> live s (j_lease_expires_at j))"

definition heartbeat_ingest_job :: "uuid \<Rightarrow> pystr \<Rightarrow> int \<Rightarrow> db \<Rightarrow> ingest_error + bool \<times> db" where
  "heartbeat_ingest_job i worker lease_seconds s =
    (if \<not> job_lease_ok lease_seconds then Inl (ValueError ''job lease 30..7200 saniye olmali'')
     else Inr (list_ex (owned s i worker) (jobs s), s\<lparr>jobs := update_rows (owned s i worker)
       (\<lambda>j. j\<lparr>j_lease_expires_at := Some (clock s + 1000 * lease_seconds)\<rparr>) (jobs s)\<rparr>))"

fun finish_status :: "pystr \<Rightarrow> job_status option" where
  "finish_status st = (if st = u ''succeeded'' then Some Succeeded else if st = u ''partial'' then Some Partial
     else if st = u ''failed'' then Some Failed else None)"

definition finish_ingest_job ::
  "uuid \<Rightarrow> pystr \<Rightarrow> pystr \<Rightarrow> pystr option \<Rightarrow> db \<Rightarrow> ingest_error + bool \<times> db" where
  "finish_ingest_job i worker status note s =
    (case finish_status status of
       None \<Rightarrow> Inl (ValueError ''job terminal status gecersiz'')
     | Some st \<Rightarrow>
        (case job_note note of
           Inl e \<Rightarrow> Inl e
         | Inr n \<Rightarrow> Inr (list_ex (owned s i worker) (jobs s), s\<lparr>jobs := update_rows (owned s i worker)
             (\<lambda>j. j\<lparr>j_status := st, j_finished_at := Some (clock s), j_worker := None,
                j_lease_expires_at := None, j_outcome_note := n\<rparr>) (jobs s)\<rparr>)))"

definition requeue :: "int \<Rightarrow> time \<Rightarrow> pystr option \<Rightarrow> job \<Rightarrow> job" where
  "requeue max_attempts now note j =
    (let again = (int (j_attempt_count j) < max_attempts)
     in j\<lparr>j_status := (if again then Queued else Failed),
          j_finished_at := (if again then None else Some now),
          j_worker := None, j_lease_expires_at := None, j_outcome_note := note\<rparr>)"

definition retry_ingest_job ::
  "uuid \<Rightarrow> pystr \<Rightarrow> pystr \<Rightarrow> int \<Rightarrow> db \<Rightarrow> ingest_error + job_status \<times> db" where
  "retry_ingest_job i worker note max_attempts s =
    (case job_note (Some note) of
       Inl e \<Rightarrow> Inl e
     | Inr n \<Rightarrow>
        (if \<not> max_attempts_ok max_attempts then Inl (ValueError ''max_attempts 1..20 olmali'')
         else case find (owned s i worker) (jobs s) of
           None \<Rightarrow> Inl IngestJobOwnershipLost
         | Some j \<Rightarrow> Inr (j_status (requeue max_attempts (clock s) n j),
             s\<lparr>jobs := update_rows (owned s i worker) (requeue max_attempts (clock s) n) (jobs s)\<rparr>)))"

definition cancelled :: "time \<Rightarrow> job \<Rightarrow> job" where
  "cancelled now j = j\<lparr>j_status := Cancelled, j_finished_at := Some now,
     j_outcome_note := Some (u ''cancelled_by_user'')\<rparr>"

definition cancel_ingest_job :: "uuid \<Rightarrow> db \<Rightarrow> ingest_error + job_view option \<times> db" where
  "cancel_ingest_job i s =
    (case get_job s i of
       None \<Rightarrow> Inr (None, s)
     | Some j \<Rightarrow>
        (if j_status j = Running then Inl IngestJobConflict
         else if j_status j = Queued
         then Inr (Some (public_job (cancelled (clock s) j)),
                s\<lparr>jobs := update_rows (\<lambda>r. j_id r = i) (cancelled (clock s)) (jobs s)\<rparr>)
         else Inr (Some (public_job j), s)))"

section \<open>Updates of jobs\<close>

text \<open>
  What every update of the queue does to a row: the identity, the document and the key stay,
  a row that is not active is not touched, and the row constraints hold afterwards.
\<close>

definition row_ok :: "job \<Rightarrow> bool" where
  "row_ok j \<longleftrightarrow> (j_status j = Running) = (j_worker j \<noteq> None \<and> j_lease_expires_at j \<noteq> None)
     \<and> terminal_status (j_status j) = (j_finished_at j \<noteq> None)"

lemma jobs_ok_iff: "jobs_ok js \<longleftrightarrow>
    (\<forall>j\<in>set js. \<forall>j'\<in>set js. j_document j = j_document j' \<longrightarrow> active_status (j_status j) \<longrightarrow>
        active_status (j_status j') \<longrightarrow> j_id j = j_id j')
     \<and> (\<forall>j\<in>set js. \<forall>j'\<in>set js. j_document j = j_document j' \<longrightarrow> j_key j = j_key j' \<longrightarrow> j_id j = j_id j')
     \<and> (\<forall>j\<in>set js. row_ok j)"
  by (simp add: jobs_ok_def row_ok_def)

lemma db_inv_update_jobs:
  assumes inv: "db_inv s"
    and keep: "\<And>j. j_id (f j) = j_id j" "\<And>j. j_document (f j) = j_document j" "\<And>j. j_key (f j) = j_key j"
    and act: "\<And>j. p j \<Longrightarrow> row_ok j \<Longrightarrow> active_status (j_status j)"
    and ok: "\<And>j. p j \<Longrightarrow> row_ok j \<Longrightarrow> row_ok (f j)"
  shows "db_inv (s\<lparr>jobs := update_rows p f (jobs s)\<rparr>)"
proof -
  note I = db_invD [OF inv]
  let ?g = "\<lambda>j. if p j then f j else j"
  have same: "j_id (?g j) = j_id j" "j_document (?g j) = j_document j" "j_key (?g j) = j_key j" for j
    by (simp_all add: keep)
  have rows: "\<forall>j\<in>set (jobs s). row_ok j" using I(6) by (simp add: jobs_ok_iff)
  have "jobs_ok (update_rows p f (jobs s))"
    unfolding jobs_ok_iff ball_update_rows
  proof (intro conjI ballI impI)
    fix j
    assume j: "j \<in> set (jobs s)"
    with rows show "row_ok (?g j)" using ok by auto
    fix j'
    assume j': "j' \<in> set (jobs s)" and d: "j_document (?g j) = j_document (?g j')"
    { assume "active_status (j_status (?g j))" "active_status (j_status (?g j'))"
      then have "active_status (j_status j)" "active_status (j_status j')"
        using act rows j j' by (auto split: if_splits)
      with I(6) j j' d show "j_id (?g j) = j_id (?g j')" unfolding jobs_ok_iff same by blast }
    { assume "j_key (?g j) = j_key (?g j')"
      with I(6) j j' d show "j_id (?g j) = j_id (?g j')" unfolding jobs_ok_iff same by blast }
  qed
  moreover have "map j_id (update_rows p f (jobs s)) = map j_id (jobs s)"
    using keep(1) by (rule update_rows_keys)
  then have "ids_ok (uuid_next s) (docs s) (attempts s) (versions s) (update_rows p f (jobs s))"
    using I(1) same unfolding ids_ok_def ball_update_rows by simp
  ultimately show ?thesis using I by (simp add: db_inv_def)
qed

lemma row_ok_running: "row_ok j \<Longrightarrow> j_status j = Running \<Longrightarrow> active_status (j_status j)"
  by (simp add: active_status_def)

lemmas job_row_defs = row_ok_def active_status_def terminal_status_def

lemma close_exhausted_inv: "db_inv s \<Longrightarrow> db_inv (close_exhausted max_attempts s)"
  unfolding close_exhausted_def
  by (rule db_inv_update_jobs) (auto simp: job_row_defs lapsed_def)

lemma next_job_SomeD:
  assumes "next_job max_attempts s = Some j"
  shows "j \<in> set (jobs s)" "j_status j = Queued \<or> lapsed s j" "int (j_attempt_count j) < max_attempts"
proof -
  let ?js = "filter (\<lambda>j. (j_status j = Queued \<or> lapsed s j) \<and> int (j_attempt_count j) < max_attempts) (jobs s)"
  from assms obtain rest where "sort_key j_created_at (sort_key j_id ?js) = j # rest"
    by (auto simp: next_job_def split: list.splits)
  from arg_cong [OF this, of set] have "j \<in> set ?js" by auto
  then show "j \<in> set (jobs s)" "j_status j = Queued \<or> lapsed s j" "int (j_attempt_count j) < max_attempts"
    by auto
qed

lemma get_job_eq: "db_inv s \<Longrightarrow> j \<in> set (jobs s) \<Longrightarrow> get_job s (j_id j) = Some j"
  unfolding get_job_def by (rule find_row_unique) (auto simp: db_inv_def ids_ok_def)

lemma get_job_SomeD: "get_job s i = Some j \<Longrightarrow> j \<in> set (jobs s) \<and> j_id j = i"
  unfolding get_job_def by (rule find_row_SomeD)

lemma job_unique: "db_inv s \<Longrightarrow> j \<in> set (jobs s) \<Longrightarrow> j' \<in> set (jobs s) \<Longrightarrow> j_id j = j_id j' \<Longrightarrow> j = j'"
  by (auto simp: db_inv_def ids_ok_def intro: distinct_keyD)

lemma claim_cases:
  assumes "claim_ingest_job casefold worker_id lease_seconds max_attempts s = Inr (r, s')"
  obtains (empty) "r = None" "s' = close_exhausted max_attempts s" "next_job max_attempts s' = None"
  | (taken) j0 where "next_job max_attempts (close_exhausted max_attempts s) = Some j0"
      "r \<noteq> None" "cj_job (the r) = public_job (take_job (strip worker_id) (clock s) (1000 * lease_seconds) j0)"
      "s' = (close_exhausted max_attempts s)\<lparr>jobs := update_rows (\<lambda>r. j_id r = j_id j0)
         (take_job (strip worker_id) (clock s) (1000 * lease_seconds)) (jobs (close_exhausted max_attempts s))\<rparr>"
proof -
  from assms obtain w where w: "canonical_label casefold worker_id = Inr (strip worker_id, w)"
    by (auto simp: claim_ingest_job_def canonical_label_def Let_def split: if_splits)
  have clk: "clock (close_exhausted max_attempts s) = clock s" by (simp add: close_exhausted_def)
  show ?thesis
  proof (cases "next_job max_attempts (close_exhausted max_attempts s)")
    case None
    with assms w empty show ?thesis
      by (auto simp: claim_ingest_job_def Let_def split: if_splits)
  next
    case (Some j0)
    with assms w clk show ?thesis
      by (intro taken [OF Some]) (auto simp: claim_ingest_job_def Let_def split: if_splits)
  qed
qed

lemma take_job_simps [simp]:
  "j_id (take_job w now lease j) = j_id j" "j_document (take_job w now lease j) = j_document j"
  "j_key (take_job w now lease j) = j_key j" "j_status (take_job w now lease j) = Running"
  "j_attempt_count (take_job w now lease j) = Suc (j_attempt_count j)"
  "j_candidate (take_job w now lease j) = j_candidate j" "j_sha (take_job w now lease j) = j_sha j"
  "row_ok (take_job w now lease j)"
  by (simp_all add: take_job_def job_row_defs)

lemma claim_inv:
  assumes "db_inv s" "claim_ingest_job casefold worker_id lease_seconds max_attempts s = Inr (r, s')"
  shows "db_inv s'"
  using assms(2)
proof (cases rule: claim_cases)
  case empty
  with close_exhausted_inv assms(1) show ?thesis by simp
next
  case (taken j0)
  let ?s1 = "close_exhausted max_attempts s"
  note inv1 = close_exhausted_inv [OF assms(1), of max_attempts]
  note j0 = next_job_SomeD [OF taken(1)]
  have p: "update_rows (\<lambda>r. j_id r = j_id j0) g (jobs ?s1) = update_rows (\<lambda>r. r = j0) g (jobs ?s1)" for g
    by (rule update_rows_cong) (use job_unique [OF inv1 _ j0(1)] in blast)
  have "active_status (j_status j0)" using j0(2) by (auto simp: active_status_def lapsed_def)
  then show ?thesis
    unfolding taken(4) p by (intro db_inv_update_jobs [OF inv1]) auto
qed

lemma heartbeat_job_inv:
  assumes "db_inv s" "heartbeat_ingest_job i worker lease_seconds s = Inr (r, s')"
  shows "db_inv s'"
proof -
  from assms(2) have s': "s' = s\<lparr>jobs := update_rows (owned s i worker)
       (\<lambda>j. j\<lparr>j_lease_expires_at := Some (clock s + 1000 * lease_seconds)\<rparr>) (jobs s)\<rparr>"
    by (simp add: heartbeat_ingest_job_def split: if_splits)
  show ?thesis unfolding s'
    by (rule db_inv_update_jobs [OF assms(1)]) (auto simp: job_row_defs owned_def)
qed

lemma finish_status_terminal: "finish_status status = Some st \<Longrightarrow> terminal_status st \<and> st \<noteq> Cancelled"
  by (auto simp: terminal_status_def split: if_splits)

lemma finish_cases:
  assumes "finish_ingest_job i worker status note s = Inr (r, s')"
  obtains st n where "finish_status status = Some st" "r = list_ex (owned s i worker) (jobs s)"
    "s' = s\<lparr>jobs := update_rows (owned s i worker)
             (\<lambda>j. j\<lparr>j_status := st, j_finished_at := Some (clock s), j_worker := None,
                j_lease_expires_at := None, j_outcome_note := n\<rparr>) (jobs s)\<rparr>"
  using assms by (auto simp: finish_ingest_job_def simp del: finish_status.simps split: option.splits sum.splits)

lemma finish_inv:
  assumes "db_inv s" "finish_ingest_job i worker status note s = Inr (r, s')"
  shows "db_inv s'"
  using assms(2)
proof (cases rule: finish_cases)
  case (1 st n)
  from finish_status_terminal [OF 1(1)] have st: "terminal_status st" "st \<noteq> Running"
    by (auto simp: terminal_status_def)
  show ?thesis unfolding 1(3)
    by (rule db_inv_update_jobs [OF assms(1)]) (use st in \<open>auto simp: job_row_defs owned_def\<close>)
qed

lemma retry_cases:
  assumes "retry_ingest_job i worker note max_attempts s = Inr (r, s')"
  obtains j n where "find (owned s i worker) (jobs s) = Some j" "r = j_status (requeue max_attempts (clock s) n j)"
    "s' = s\<lparr>jobs := update_rows (owned s i worker) (requeue max_attempts (clock s) n) (jobs s)\<rparr>"
  using assms by (auto simp: retry_ingest_job_def split: option.splits sum.splits if_splits)

lemma requeue_simps [simp]:
  "j_id (requeue m now n j) = j_id j" "j_document (requeue m now n j) = j_document j"
  "j_key (requeue m now n j) = j_key j" "row_ok (requeue m now n j)"
  by (simp_all add: requeue_def Let_def job_row_defs)

lemma retry_inv:
  assumes "db_inv s" "retry_ingest_job i worker note max_attempts s = Inr (r, s')"
  shows "db_inv s'"
  using assms(2)
proof (cases rule: retry_cases)
  case (1 j n)
  show ?thesis unfolding 1(3)
    by (rule db_inv_update_jobs [OF assms(1)]) (auto simp: owned_def active_status_def)
qed

lemma cancel_cases:
  assumes "cancel_ingest_job i s = Inr (r, s')"
  obtains (kept) "s' = s"
  | (closed) j where "get_job s i = Some j" "j_status j = Queued"
     "s' = s\<lparr>jobs := update_rows (\<lambda>r. j_id r = i) (cancelled (clock s)) (jobs s)\<rparr>"
  using assms by (auto simp: cancel_ingest_job_def split: option.splits if_splits)

lemma cancel_inv:
  assumes "db_inv s" "cancel_ingest_job i s = Inr (r, s')"
  shows "db_inv s'"
  using assms(2)
proof (cases rule: cancel_cases)
  case kept
  with assms(1) show ?thesis by simp
next
  case (closed j)
  then have j: "j \<in> set (jobs s)" "j_id j = i" using get_job_SomeD by auto
  have p: "update_rows (\<lambda>r. j_id r = i) g (jobs s) = update_rows (\<lambda>r. r = j) g (jobs s)" for g
    by (rule update_rows_cong) (use job_unique [OF assms(1) _ j(1)] j(2) in metis)
  show ?thesis unfolding closed(3) p
    by (rule db_inv_update_jobs [OF assms(1)]) (use closed(2) in \<open>auto simp: cancelled_def job_row_defs\<close>)
qed

lemma enqueue_cases:
  assumes "enqueue_ingest_job sha256 doc key s = Inr (r, s')"
  obtains (kept) "s' = s" "r = None \<or> (\<exists>j\<in>set (jobs s). j_document j = doc \<and> j_key j = sha256 key
      \<and> r = Some (public_job j))"
  | (added) d candidate sha j where "get_doc s doc = Some d" "d_candidate_state d = Some PUBLISHED"
      "d_candidate_id d = Some candidate" "d_content_sha256 d = Some sha" "d_archived_at d = None"
      "d_attempt_id d = None" "\<not> has_active_job s doc" "\<forall>j\<in>set (jobs s). j_document j = doc \<longrightarrow> j_key j \<noteq> sha256 key"
      "j = \<lparr>j_id = uuid_next s, j_document = doc, j_candidate = candidate,
                              j_version = candidate, j_sha = sha, j_key = sha256 key, j_status = Queued,
                              j_attempt_count = 0, j_worker = None, j_lease_expires_at = None,
                              j_created_at = clock s, j_started_at = None, j_finished_at = None,
                              j_outcome_note = None\<rparr>"
      "r = Some (public_job j)" "s' = s\<lparr>uuid_next := Suc (uuid_next s), jobs := jobs s @ [j]\<rparr>"
proof -
  from assms have k: "job_key_digest sha256 key = Inr (sha256 key)"
    by (auto simp: enqueue_ingest_job_def job_key_digest_def split: if_splits)
  show ?thesis
  proof (cases "get_doc s doc")
    case None
    with assms k kept show ?thesis by (simp add: enqueue_ingest_job_def)
  next
    case d: (Some d)
    show ?thesis
    proof (cases "find (\<lambda>j. j_document j = doc \<and> j_key j = sha256 key) (jobs s)")
      case (Some j)
      with assms k d find_SomeD [OF Some] show ?thesis
        by (intro kept) (auto simp: enqueue_ingest_job_def)
    next
      case None
      from assms k d None have ar: "d_archived_at d = None"
        by (auto simp: enqueue_ingest_job_def split: if_splits)
      from assms k d None ar obtain candidate sha where c: "d_candidate_state d = Some PUBLISHED"
          "d_candidate_id d = Some candidate" "d_content_sha256 d = Some sha"
        by (auto simp: enqueue_ingest_job_def split: option.splits candidate_state.splits)
      from assms k d None ar c show ?thesis
        by (intro added [OF d c]) (auto simp: enqueue_ingest_job_def uuid4_def find_None_iff Let_def split: if_splits)
    qed
  qed
qed

lemma enqueue_inv:
  assumes inv: "db_inv s" and ok: "enqueue_ingest_job sha256 doc key s = Inr (r, s')"
  shows "db_inv s'"
  using ok
proof (cases rule: enqueue_cases)
  case kept
  with inv show ?thesis by simp
next
  case (added d candidate sha j)
  note I = db_invD [OF inv]
  have j: "j_id j = uuid_next s" "j_document j = doc" "j_key j = sha256 key" "row_ok j"
    by (simp_all add: added(9) job_row_defs)
  have "ids_ok (Suc (uuid_next s)) (docs s) (attempts s) (versions s) (jobs s @ [j])"
    using I(1) j(1) by (fastforce simp: ids_ok_def)
  moreover have "jobs_ok (jobs s @ [j])"
  proof -
    have old: "j_document x = doc \<Longrightarrow> \<not> active_status (j_status x) \<and> j_key x \<noteq> sha256 key"
      if "x \<in> set (jobs s)" for x
      using added(7,8) that by (auto simp: has_active_job_def)
    show ?thesis
      unfolding jobs_ok_iff
    proof (intro conjI ballI impI)
      fix x y
      assume xy: "x \<in> set (jobs s @ [j])" "y \<in> set (jobs s @ [j])" "j_document x = j_document y"
      then consider "x = j" "y = j" | "x = j" "y \<in> set (jobs s)" | "x \<in> set (jobs s)" "y = j"
        | "x \<in> set (jobs s)" "y \<in> set (jobs s)" by auto
      note split = this
      { assume "active_status (j_status x)" "active_status (j_status y)"
        with split xy(3) old j(2) I(6) show "j_id x = j_id y" unfolding jobs_ok_iff by (metis (no_types)) }
      { assume "j_key x = j_key y"
        with split xy(3) old j(2,3) I(6) show "j_id x = j_id y" unfolding jobs_ok_iff by (metis (no_types)) }
    next
      fix x
      assume "x \<in> set (jobs s @ [j])"
      with I(6) j(4) show "row_ok x" unfolding jobs_ok_iff by auto
    qed
  qed
  ultimately show ?thesis using I added(11) by (simp add: db_inv_def)
qed

end
