(* ===== verification/History.thy ===== *)
theory History
  imports Candidate_Gate Job_Queue
begin

text \<open>
  What no transaction of the ingest database ever undoes, as a preorder on states: versions,
  events and build receipts are appended; a closed attempt and a terminal job are never
  written again; identities and bindings stay; a document's revision, generation counter and
  version counter only move forward; the rows a receipt covers are never deleted.
\<close>

section \<open>The preorder\<close>

definition doc_grows :: "document \<Rightarrow> document \<Rightarrow> bool" where
  "doc_grows d d' \<longleftrightarrow> d_id d' = d_id d \<and> d_filename d' = d_filename d \<and> d_revision d \<le> d_revision d'
     \<and> d_last_generation d \<le> d_last_generation d'
     \<and> d_last_version_number d \<le> d_last_version_number d'"

definition attempt_binding :: "attempt_row \<Rightarrow> uuid \<times> uuid \<times> uuid \<times> pystr" where
  "attempt_binding r = (a_id r, a_document r, a_candidate r, a_sha r)"

definition job_binding :: "job \<Rightarrow> uuid \<times> uuid \<times> uuid \<times> pystr \<times> pystr" where
  "job_binding j = (j_id j, j_document j, j_candidate j, j_sha j, j_key j)"

definition docs_grow :: "document list \<Rightarrow> document list \<Rightarrow> bool" where
  "docs_grow ds ds' \<longleftrightarrow> (\<forall>d\<in>set ds. \<exists>d'\<in>set ds'. doc_grows d d')"

definition attempts_grow :: "attempt_row list \<Rightarrow> attempt_row list \<Rightarrow> bool" where
  "attempts_grow as as' \<longleftrightarrow> (\<forall>r\<in>set as. (\<exists>r'\<in>set as'. attempt_binding r' = attempt_binding r)
     \<and> (a_status r \<noteq> None \<longrightarrow> r \<in> set as'))"

definition jobs_grow :: "job list \<Rightarrow> job list \<Rightarrow> bool" where
  "jobs_grow js js' \<longleftrightarrow> (\<forall>j\<in>set js. (\<exists>j'\<in>set js'. job_binding j' = job_binding j)
     \<and> (terminal_status (j_status j) \<longrightarrow> j \<in> set js'))"

definition history :: "db \<Rightarrow> db \<Rightarrow> bool" where
  "history s s' \<longleftrightarrow> prefix (versions s) (versions s') \<and> prefix (events s) (events s')
     \<and> prefix (builds s) (builds s') \<and> docs_grow (docs s) (docs s')
     \<and> attempts_grow (attempts s) (attempts s') \<and> jobs_grow (jobs s) (jobs s')
     \<and> (\<forall>c\<in>set (chunks s). covered (builds s) c \<longrightarrow> c \<in> set (chunks s'))
     \<and> clock s \<le> clock s'"

lemma doc_grows_refl [simp]: "doc_grows d d"
  by (simp add: doc_grows_def)

lemma grow_refl [simp]: "docs_grow ds ds" "attempts_grow as as" "jobs_grow js js"
  by (auto simp: docs_grow_def attempts_grow_def jobs_grow_def intro: doc_grows_refl)

lemma history_refl [simp]: "history s s"
  by (simp add: history_def)

lemma doc_grows_trans: "doc_grows a b \<Longrightarrow> doc_grows b c \<Longrightarrow> doc_grows a c"
  by (simp add: doc_grows_def)

lemma docs_grow_trans: "docs_grow a b \<Longrightarrow> docs_grow b c \<Longrightarrow> docs_grow a c"
  unfolding docs_grow_def by (meson doc_grows_trans)

lemma attempts_grow_trans: "attempts_grow a b \<Longrightarrow> attempts_grow b c \<Longrightarrow> attempts_grow a c"
  unfolding attempts_grow_def by metis

lemma jobs_grow_trans: "jobs_grow a b \<Longrightarrow> jobs_grow b c \<Longrightarrow> jobs_grow a c"
  unfolding jobs_grow_def by metis

lemma covered_mono: "covered bs c \<Longrightarrow> set bs \<subseteq> set bs' \<Longrightarrow> covered bs' c"
  by (auto simp: covered_def)

lemma history_trans [trans]:
  assumes "history a b" "history b c"
  shows "history a c"
proof -
  have "x \<in> set (chunks c)" if "x \<in> set (chunks a)" "covered (builds a) x" for x
  proof -
    from assms(1) have "set (builds a) \<subseteq> set (builds b)"
      by (auto simp: history_def dest: set_mono_prefix)
    with that have "covered (builds b) x" by (auto intro: covered_mono)
    with that assms show ?thesis by (auto simp: history_def)
  qed
  with assms show ?thesis
    unfolding history_def
    by (auto intro: prefix_order.trans docs_grow_trans attempts_grow_trans jobs_grow_trans)
qed

section \<open>Table updates\<close>

lemma docs_grow_update:
  assumes "\<And>d. d \<in> set ds \<Longrightarrow> p d \<Longrightarrow> doc_grows d (f d)"
  shows "docs_grow ds (update_rows p f ds)"
  unfolding docs_grow_def
proof
  fix d
  assume "d \<in> set ds"
  then have "doc_grows d (if p d then f d else d)" "(if p d then f d else d) \<in> set (update_rows p f ds)"
    using assms by (auto simp: set_update_rows)
  then show "\<exists>d'\<in>set (update_rows p f ds). doc_grows d d'" by blast
qed

lemma attempts_grow_update:
  assumes "\<And>r. r \<in> set as \<Longrightarrow> p r \<Longrightarrow> a_status r = None"
    and "\<And>r. attempt_binding (f r) = attempt_binding r"
  shows "attempts_grow as (update_rows p f as)"
proof -
  have "\<exists>r'\<in>set (update_rows p f as). attempt_binding r' = attempt_binding r" if "r \<in> set as" for r
    using that assms(2) by (auto simp: set_update_rows)
  moreover have "r \<in> set (update_rows p f as)" if "r \<in> set as" "a_status r \<noteq> None" for r
    using that assms(1) by (force simp: set_update_rows)
  ultimately show ?thesis by (simp add: attempts_grow_def)
qed

lemma attempts_grow_append: "attempts_grow as bs \<Longrightarrow> attempts_grow as (bs @ cs)"
  by (auto simp: attempts_grow_def)

lemma jobs_grow_update:
  assumes "\<And>j. j \<in> set js \<Longrightarrow> p j \<Longrightarrow> \<not> terminal_status (j_status j)"
    and "\<And>j. job_binding (f j) = job_binding j"
  shows "jobs_grow js (update_rows p f js)"
proof -
  have "\<exists>j'\<in>set (update_rows p f js). job_binding j' = job_binding j" if "j \<in> set js" for j
    using that assms(2) by (auto simp: set_update_rows)
  moreover have "j \<in> set (update_rows p f js)" if "j \<in> set js" "terminal_status (j_status j)" for j
    using that assms(1) by (force simp: set_update_rows)
  ultimately show ?thesis by (simp add: jobs_grow_def)
qed

lemma history_update_docs:
  assumes "\<And>d. d \<in> set (docs s) \<Longrightarrow> p d \<Longrightarrow> doc_grows d (f d)"
  shows "history s (s\<lparr>docs := update_rows p f (docs s)\<rparr>)"
  using assms by (simp add: history_def docs_grow_update)

lemma history_update_jobs:
  assumes "\<And>j. j \<in> set (jobs s) \<Longrightarrow> p j \<Longrightarrow> \<not> terminal_status (j_status j)"
    and "\<And>j. job_binding (f j) = job_binding j"
  shows "history s (s\<lparr>jobs := update_rows p f (jobs s)\<rparr>)"
  using assms by (simp add: history_def jobs_grow_update)

section \<open>The candidate gate and the lease\<close>

lemma doc_grows_stage [simp]: "doc_grows d (stage_columns sha cid d)"
  by (simp add: doc_grows_def stage_columns_def Let_def)

lemma stage_document_history:
  assumes "stage_document lower filename ftype sha allow s = Inr (d, s1)"
  shows "history s s1"
  using assms
proof (cases rule: stage_document_cases)
  case fresh_row
  then show ?thesis unfolding fresh_row(2) by (auto simp: history_def docs_grow_def intro: doc_grows_refl)
next
  case (kept d0)
  then show ?thesis by (simp add: history_def docs_grow_update)
next
  case (changed d0 h)
  then show ?thesis by (simp add: history_def docs_grow_update)
qed

lemma counted_history:
  assumes "half_staged d sha s"
  shows "history s (update_doc (d_id d) (\<lambda>e. e\<lparr>d_last_version_number := Suc (d_last_version_number d)\<rparr>) s)"
  unfolding update_doc_def
proof (rule history_update_docs)
  fix e
  assume "e \<in> set (docs s)" "d_id e = d_id d"
  then have "e = d" using doc_unique [OF half_stagedD(2) [OF assms]] half_stagedD(1) [OF assms] by blast
  then show "doc_grows e (e\<lparr>d_last_version_number := Suc (d_last_version_number d)\<rparr>)"
    by (simp add: doc_grows_def)
qed

lemma allocate_version_history:
  assumes "half_staged d sha s" "allocate_version d sha s = Inr ((), s')"
  shows "history s s'"
  using assms(2)
proof (cases rule: allocate_version_cases)
  case untouched
  then show ?thesis by simp
next
  case (counted c)
  with counted_history [OF assms(1)] show ?thesis by simp
next
  case (registered h c)
  have "history t (register_version v n t)" for v n t
    by (simp add: history_def register_version_def)
  with counted_history [OF assms(1)] registered(5) show ?thesis
    by (metis history_trans)
qed

lemma close_attempts_history: "history s (close_attempts p out s)"
  by (auto simp: history_def close_attempts_def attempt_binding_def intro!: attempts_grow_update)

lemma stage_candidate_history:
  assumes inv: "db_inv s" and ok: "stage_candidate lower filename ftype sha allow s = Inr (r, s')"
  shows "history s s'"
proof -
  obtain d s1 where 1: "stage_document lower filename ftype sha allow s = Inr (d, s1)"
    using ok by (auto simp: stage_candidate_def split: sum.splits)
  with ok obtain s2 where 2: "allocate_version d sha s1 = Inr ((), s2)"
      "s' = fence_attempts (d_id d) (d_candidate_id d) s2"
    by (auto simp: stage_candidate_def split: sum.splits)
  have "history s s1" using 1 by (rule stage_document_history)
  also have "history s1 s2"
    by (rule allocate_version_history [OF stage_document_half_staged [OF inv 1] 2(1)])
  also have "history s2 s'" by (simp add: 2(2) fence_attempts_def close_attempts_history)
  finally show ?thesis .
qed

lemma finalize_history:
  "finalize_candidate_publication doc cid s = Inr (r, s') \<Longrightarrow> history s s'"
  by (auto simp: finalize_candidate_publication_def Let_def doc_grows_def intro!: history_update_docs)

lemma begin_attempt_history:
  assumes "begin_attempt ttl default_owner doc owner job worker s = Inr (att, s')"
  shows "history s s'"
  using assms
proof (cases rule: begin_attempt_cases)
  case (1 d candidate sha s1 holder)
  have "attempts_grow (attempts s) (attempts s1)"
    using close_attempts_history [of s "\<lambda>r. d_attempt_id d = Some (a_id r)" SUPERSEDED] 1(9)
    by (simp add: history_def)
  with 1(9) show ?thesis
    unfolding 1(11) by (simp add: history_def update_doc_def close_attempts_def attempts_grow_append
        docs_grow_update doc_grows_def)
qed

lemma heartbeat_history: "heartbeat_attempt ttl att s = Inr (r, s') \<Longrightarrow> history s s'"
  by (auto simp: heartbeat_attempt_def update_doc_def doc_grows_def split: option.splits
      intro!: history_update_docs)

lemma allocate_generation_history: "allocate_generation doc att s = Inr (r, s') \<Longrightarrow> history s s'"
  by (auto simp: allocate_generation_def update_doc_def doc_grows_def split: option.splits
      intro!: history_update_docs)

text \<open>Only a running attempt's row is written by a worker's verdict.\<close>

lemma record_attempt_outcome_history:
  assumes inv: "db_inv s" and ok: "record_attempt_outcome att status note s = Inr (r, s')"
  shows "history s s'"
  using ok
proof (cases rule: record_attempt_outcome_cases)
  case (1 out)
  let ?f = "\<lambda>r. r\<lparr>a_status := Some out, a_note := note, a_ended_at := Some (clock s)\<rparr>"
  obtain r0 where "r0 \<in> set (attempts s)" "a_id r0 = attempt_id att" "a_status r0 = None"
    using authority_running [OF inv 1(2)] by blast
  then have "a_status r = None" if "r \<in> set (attempts s)" "a_id r = attempt_id att" for r
    using attempt_unique [OF db_invD(1) [OF inv]] that by metis
  then have "attempts_grow (attempts s) (update_rows (\<lambda>r. a_id r = attempt_id att) ?f (attempts s))"
    by (intro attempts_grow_update) (simp_all add: attempt_binding_def)
  then show ?thesis
    unfolding 1(4) by (simp add: history_def docs_grow_update doc_grows_def clear_lease_def)
qed

section \<open>Chunks, promotion and activation\<close>

lemma more_chunks_history: "history s (s\<lparr>chunks := chunks s @ new\<rparr>)"
  by (simp add: history_def)

lemma upsert_chunks_history: "upsert_chunks rows att s = Inr (r, s') \<Longrightarrow> history s s'"
  by (elim upsert_chunks_suffix) (simp add: more_chunks_history)

lemma copy_chunks_history: "copy_chunks_into_generation rows att s = Inr (r, s') \<Longrightarrow> history s s'"
  by (elim copy_chunks_suffix) (simp add: more_chunks_history)

lemma activation_trigger_history:
  "activation_trigger old new s = Inr ((), s') \<Longrightarrow> history s s'"
  by (elim activation_trigger_cases) (simp_all add: history_def)

lemma promote_history:
  assumes "promote_generation doc gen expected manifest sha cand att s = Inr (n, s')"
  shows "history s s'"
  using assms
proof (cases rule: promote_cases)
  case (1 candidate attempt r d s1)
  have "history s (update_doc doc (promoted candidate gen sha) s)"
    unfolding update_doc_def
    by (rule history_update_docs) (simp add: doc_grows_def promoted_def clear_lease_def)
  also have "history \<dots> s1" using 1(16) by (rule activation_trigger_history)
  also have "history s1 s'"
    unfolding 1(17) by (auto simp: history_def attempt_binding_def dest: swept_covered
        intro!: attempts_grow_update)
  finally show ?thesis .
qed

lemma activate_history:
  assumes "activate_document_version doc version expected sha s = Inr (r, s')"
  shows "history s s'"
  using assms
proof (cases rule: activate_cases)
  case nothing_done
  then show ?thesis by simp
next
  case (changed d v b)
  have "history s (update_doc doc (activated version (b_generation b) sha) s)"
    unfolding update_doc_def by (rule history_update_docs) (simp add: doc_grows_def activated_def)
  also have "history \<dots> s'" using changed(8) by (rule activation_trigger_history)
  finally show ?thesis .
qed

lemma set_document_archived_history:
  assumes "set_document_archived doc archived s = Inr (r, s')"
  shows "history s s'"
proof -
  have "s' = s \<or> (\<exists>stamp. s' = update_doc doc (\<lambda>e. e\<lparr>d_archived_at := stamp\<rparr>) s)"
    using assms by (auto simp: set_document_archived_def Let_def split: option.splits if_splits)
  then show ?thesis by (auto simp: update_doc_def doc_grows_def intro!: history_update_docs)
qed

lemma set_document_status_history:
  "set_document_status doc status note expected candidate s = Inr (r, s') \<Longrightarrow> history s s'"
  by (auto simp: set_document_status_def Let_def doc_grows_def intro!: history_update_docs)

section \<open>The queue\<close>

lemma enqueue_history:
  assumes "enqueue_ingest_job sha256 doc key s = Inr (r, s')"
  shows "history s s'"
  using assms
proof (cases rule: enqueue_cases)
  case kept
  then show ?thesis by simp
next
  case (added d candidate sha j)
  then show ?thesis by (simp add: history_def jobs_grow_def) blast
qed

lemma close_exhausted_history: "history s (close_exhausted max_attempts s)"
  unfolding close_exhausted_def
  by (rule history_update_jobs) (auto simp: lapsed_def terminal_status_def job_binding_def)

lemma claim_history:
  assumes inv: "db_inv s"
    and ok: "claim_ingest_job casefold worker_id lease_seconds max_attempts s = Inr (r, s')"
  shows "history s s'"
  using ok
proof (cases rule: claim_cases)
  case empty
  then show ?thesis by (simp add: close_exhausted_history)
next
  case (taken j0)
  let ?s1 = "close_exhausted max_attempts s"
  note inv1 = close_exhausted_inv [OF inv, of max_attempts]
  note j0 = next_job_SomeD [OF taken(1)]
  have "history ?s1 s'"
    unfolding taken(4)
  proof (rule history_update_jobs)
    fix j
    assume "j \<in> set (jobs ?s1)" "j_id j = j_id j0"
    then have "j = j0" using job_unique [OF inv1 _ j0(1)] by blast
    then show "\<not> terminal_status (j_status j)"
      using j0(2) by (auto simp: lapsed_def terminal_status_def)
  qed (simp add: job_binding_def take_job_def)
  then show ?thesis using close_exhausted_history history_trans by blast
qed

lemma owned_update_history:
  assumes "\<And>j. job_binding (f j) = job_binding j"
  shows "history s (s\<lparr>jobs := update_rows (owned s i worker) f (jobs s)\<rparr>)"
  using assms by (intro history_update_jobs) (auto simp: owned_def terminal_status_def)

lemma heartbeat_job_history:
  "heartbeat_ingest_job i worker lease_seconds s = Inr (r, s') \<Longrightarrow> history s s'"
  by (auto simp: heartbeat_ingest_job_def job_binding_def split: if_splits intro!: owned_update_history)

lemma finish_history: "finish_ingest_job i worker status note s = Inr (r, s') \<Longrightarrow> history s s'"
  by (elim finish_cases) (auto simp: job_binding_def intro!: owned_update_history)

lemma retry_history: "retry_ingest_job i worker note max_attempts s = Inr (r, s') \<Longrightarrow> history s s'"
  by (elim retry_cases) (auto simp: job_binding_def requeue_def Let_def intro!: owned_update_history)

lemma cancel_history:
  assumes inv: "db_inv s" and ok: "cancel_ingest_job i s = Inr (r, s')"
  shows "history s s'"
  using ok
proof (cases rule: cancel_cases)
  case kept
  then show ?thesis by simp
next
  case (closed j)
  note j = get_job_SomeD [OF closed(1)]
  show ?thesis
    unfolding closed(3)
  proof (rule history_update_jobs)
    fix k
    assume "k \<in> set (jobs s)" "j_id k = i"
    then have "k = j" using job_unique [OF inv] j by metis
    then show "\<not> terminal_status (j_status k)" using closed(2) by (simp add: terminal_status_def)
  qed (simp add: job_binding_def cancelled_def)
qed

end
