(* ===== verification/Ingest_Machine.thy ===== *)
theory Ingest_Machine
  imports History
begin

text \<open>
  The ingest database under every interleaving of its transactions. A system is the database
  and the attempt handles \<open>begin_attempt\<close> has returned; an event is one call of a component's
  operation, and an event that writes under an attempt uses a handle the system has issued.
  The locales of the prelude are interpreted here: \<open>ingest\<close> for the invariant and \<open>audit\<close>
  for the preorder of \<open>History\<close>.

  The events are the operations of the ingest pipeline and of the people who archive, restore and
  activate. Not among them are the purge of a document (\<open>complete_document_purge\<close>), which
  \<open>Retention_Machine\<close> adds to these events, and \<open>upsert_document\<close> and \<open>clear_chunks_for_document\<close>,
  which nothing in the program calls any more.
\<close>

section \<open>Systems and events\<close>

text \<open>
  What the operations take from outside: PostgreSQL's \<open>lower\<close>, Python's \<open>casefold\<close>, the SHA-256
  digest, \<open>ATTEMPT_LEASE_SECONDS\<close> in milliseconds and the default owner.
\<close>

record ingest_env =
  env_lower :: "pystr \<Rightarrow> pystr"
  env_casefold :: "pystr \<Rightarrow> pystr"
  env_sha256 :: "pystr \<Rightarrow> pystr"
  env_ttl :: time
  env_owner :: pystr

record ingest_system =
  store :: db
  handles :: "ingest_attempt list"

datatype ingest_event =
    Tick nat
  | Stage pystr pystr "pystr option" bool
  | Finalize uuid uuid
  | Begin uuid "pystr option" "uuid option" "pystr option"
  | Heartbeat ingest_attempt
  | Outcome ingest_attempt pystr "pystr option"
  | Allocate ingest_attempt
  | Upsert "chunk list" ingest_attempt
  | Copy "chunk list" ingest_attempt
  | Promote nat "uuid list" ingest_attempt
  | Activate uuid uuid int pystr
  | Archive uuid bool
  | Stamp uuid pystr "pystr option" "nat option" "uuid option"
  | Enqueue uuid pystr
  | Claim pystr int int
  | Beat uuid pystr int
  | Finish uuid pystr pystr "pystr option"
  | Retry uuid pystr pystr int
  | Cancel uuid

text \<open>The handle an event writes under.\<close>

fun event_handle :: "ingest_event \<Rightarrow> ingest_attempt option" where
  "event_handle (Heartbeat att) = Some att"
| "event_handle (Outcome att _ _) = Some att"
| "event_handle (Allocate att) = Some att"
| "event_handle (Upsert _ att) = Some att"
| "event_handle (Copy _ att) = Some att"
| "event_handle (Promote _ _ att) = Some att"
| "event_handle _ = None"

text \<open>
  The database an event leaves. A promotion is called as \<open>ingest_attempt\<close> calls it: with the
  identities and the observed generation of its attempt.
\<close>

fun transact :: "ingest_env \<Rightarrow> ingest_event \<Rightarrow> db \<Rightarrow> db" where
  "transact env (Tick n) s = s\<lparr>clock := clock s + int n\<rparr>"
| "transact env (Stage name ftype sha allow) s = after (stage_candidate (env_lower env) name ftype sha allow s) s"
| "transact env (Finalize doc cid) s = after (finalize_candidate_publication doc cid s) s"
| "transact env (Begin doc owner job worker) s =
     after (begin_attempt (env_ttl env) (env_owner env) doc owner job worker s) s"
| "transact env (Heartbeat att) s = after (heartbeat_attempt (env_ttl env) att s) s"
| "transact env (Outcome att status note) s = after (record_attempt_outcome att status note s) s"
| "transact env (Allocate att) s = after (allocate_generation (document_id att) att s) s"
| "transact env (Upsert rows att) s = after (upsert_chunks rows att s) s"
| "transact env (Copy rows att) s = after (copy_chunks_into_generation rows att s) s"
| "transact env (Promote gen manifest att) s = after (promote_generation (document_id att) gen
     (observed_active att) manifest (candidate_sha att) (Some (candidate_id att)) (Some (attempt_id att)) s) s"
| "transact env (Activate doc version expected sha) s = after (activate_document_version doc version expected sha s) s"
| "transact env (Archive doc archived) s = after (set_document_archived doc archived s) s"
| "transact env (Stamp doc status note expected cid) s = after (set_document_status doc status note expected cid s) s"
| "transact env (Enqueue doc key) s = after (enqueue_ingest_job (env_sha256 env) doc key s) s"
| "transact env (Claim worker secs most) s = after (claim_ingest_job (env_casefold env) worker secs most s) s"
| "transact env (Beat i worker secs) s = after (heartbeat_ingest_job i worker secs s) s"
| "transact env (Finish i worker status note) s = after (finish_ingest_job i worker status note s) s"
| "transact env (Retry i worker note most) s = after (retry_ingest_job i worker note most s) s"
| "transact env (Cancel i) s = after (cancel_ingest_job i s) s"

fun issued :: "ingest_env \<Rightarrow> ingest_event \<Rightarrow> db \<Rightarrow> ingest_attempt list" where
  "issued env (Begin doc owner job worker) s =
     (case begin_attempt (env_ttl env) (env_owner env) doc owner job worker s of
        Inl _ \<Rightarrow> [] | Inr (att, _) \<Rightarrow> [att])"
| "issued env _ s = []"

definition exec_event :: "ingest_env \<Rightarrow> ingest_event \<Rightarrow> ingest_system \<Rightarrow> ingest_system" where
  "exec_event env ev s = \<lparr>store = transact env ev (store s), handles = handles s @ issued env ev (store s)\<rparr>"

definition permitted :: "ingest_event \<Rightarrow> ingest_system \<Rightarrow> bool" where
  "permitted ev s = (case event_handle ev of None \<Rightarrow> True | Some att \<Rightarrow> att \<in> set (handles s))"

definition ingest_step :: "ingest_env \<Rightarrow> ingest_system \<Rightarrow> ingest_system \<Rightarrow> bool" where
  "ingest_step env s t = (\<exists>ev. permitted ev s \<and> t = exec_event env ev s)"

definition ingest_init :: "ingest_system \<Rightarrow> bool" where
  "ingest_init s = (s = \<lparr>store = empty_db, handles = []\<rparr>)"

text \<open>A run of given events, for concrete instances.\<close>

fun run_events :: "ingest_env \<Rightarrow> ingest_event list \<Rightarrow> ingest_system \<Rightarrow> ingest_system option" where
  "run_events env [] s = Some s"
| "run_events env (ev # evs) s = (if permitted ev s then run_events env evs (exec_event env ev s) else None)"

lemma run_events_steps: "run_events env evs s = Some t \<Longrightarrow> (ingest_step env)\<^sup>*\<^sup>* s t"
proof (induction evs arbitrary: s)
  case (Cons ev evs)
  then have "ingest_step env s (exec_event env ev s)" "(ingest_step env)\<^sup>*\<^sup>* (exec_event env ev s) t"
    by (auto simp: ingest_step_def [abs_def] split: if_splits)
  then show ?case by (rule converse_rtranclp_into_rtranclp)
qed simp

section \<open>The invariant and the history of a system\<close>

text \<open>
  A handle is the identity of a recorded attempt, and its digest is the catalogue's digest of
  its candidate.
\<close>

definition handle_ok :: "db \<Rightarrow> ingest_attempt \<Rightarrow> bool" where
  "handle_ok s h \<longleftrightarrow>
     (\<exists>r\<in>set (attempts s). attempt_binding r = (attempt_id h, document_id h, candidate_id h, candidate_sha h))
     \<and> (\<exists>v\<in>set (versions s). v_id v = candidate_id h \<and> v_document v = document_id h \<and> v_sha v = candidate_sha h)"

definition system_inv :: "ingest_system \<Rightarrow> bool" where
  "system_inv s \<longleftrightarrow> db_inv (store s) \<and> (\<forall>h\<in>set (handles s). handle_ok (store s) h)"

lemma handle_ok_history:
  assumes "handle_ok s h" "history s s'"
  shows "handle_ok s' h"
proof -
  have "\<exists>r'\<in>set (attempts s'). attempt_binding r' = attempt_binding r" if "r \<in> set (attempts s)" for r
    using assms(2) that unfolding history_def attempts_grow_def by blast
  moreover have "set (versions s) \<subseteq> set (versions s')"
    using assms(2) by (auto simp: history_def dest: set_mono_prefix)
  ultimately show ?thesis using assms(1) unfolding handle_ok_def by (metis subsetD)
qed

lemmas operation_invs = stage_candidate_inv finalize_inv begin_attempt_inv heartbeat_inv
  record_attempt_outcome_inv allocate_generation_inv upsert_chunks_inv copy_chunks_inv activate_inv
  set_document_archived_inv set_document_status_inv enqueue_inv claim_inv heartbeat_job_inv finish_inv
  retry_inv cancel_inv

lemmas operation_histories = finalize_history begin_attempt_history heartbeat_history
  allocate_generation_history upsert_chunks_history copy_chunks_history promote_history activate_history
  set_document_archived_history set_document_status_history enqueue_history heartbeat_job_history
  finish_history retry_history

lemmas bound_histories = stage_candidate_history record_attempt_outcome_history claim_history cancel_history

lemma promote_handle_inv:
  assumes "db_inv s" "handle_ok s att"
    and "promote_generation (document_id att) gen expected manifest (candidate_sha att)
       (Some (candidate_id att)) (Some (attempt_id att)) s = Inr (n, s')"
  shows "db_inv s'"
  by (rule promote_inv [OF assms(1,3)]) (use assms(2) in \<open>auto simp: handle_ok_def\<close>)

lemma transact_inv:
  assumes "db_inv s" "\<And>att. event_handle ev = Some att \<Longrightarrow> handle_ok s att"
  shows "db_inv (transact env ev s)"
proof (cases ev)
  case (Tick n)
  with assms(1) show ?thesis by simp
next
  case (Promote gen manifest att)
  then have "handle_ok s att" using assms(2) by simp
  with assms(1) Promote show ?thesis
    by (simp only: transact.simps) (rule after_keep [where P = db_inv], assumption, erule (2) promote_handle_inv)
qed (simp only: transact.simps, rule after_keep [where P = db_inv, OF assms(1)], erule operation_invs [OF assms(1)])+

lemma transact_history:
  assumes "db_inv s"
  shows "history s (transact env ev s)"
proof (cases ev)
  case (Tick n)
  then show ?thesis by (simp add: history_def)
qed (simp only: transact.simps, rule after_keep [where P = "history s", OF history_refl],
    erule operation_histories bound_histories [OF assms])+

text \<open>A handle that \<open>begin_attempt\<close> returns is recorded, and its digest is its version's.\<close>

lemma begin_attempt_handle:
  assumes "db_inv s" "begin_attempt ttl default_owner doc owner job worker s = Inr (att, s')"
  shows "handle_ok s' att"
  using assms(2)
proof (cases rule: begin_attempt_cases)
  case (1 d candidate sha s1 holder)
  note d = get_doc_SomeD [OF 1(1)]
  from db_invD(4) [OF assms(1)] d 1(4,5) obtain v where "v \<in> set (versions s)" "v_id v = candidate"
      "v_document v = d_id d" "v_sha v = sha"
    unfolding versions_ok_def by blast
  moreover have "versions s1 = versions s" using 1(9) by (simp add: close_attempts_def)
  ultimately show ?thesis
    unfolding handle_ok_def using d by (auto simp: 1(10,11) update_doc_def attempt_binding_def)
qed

lemma exec_event_inv:
  assumes "system_inv s" "permitted ev s"
  shows "system_inv (exec_event env ev s)"
proof -
  from assms have inv: "db_inv (store s)" and old: "\<forall>h\<in>set (handles s). handle_ok (store s) h"
    by (simp_all add: system_inv_def)
  have "db_inv (transact env ev (store s))"
    using inv old assms(2) by (intro transact_inv) (auto simp: permitted_def)
  moreover have "handle_ok (transact env ev (store s)) h" if "h \<in> set (handles s)" for h
    using handle_ok_history transact_history [OF inv] old that by blast
  moreover have "handle_ok (transact env ev (store s)) h" if "h \<in> set (issued env ev (store s))" for h
    using that begin_attempt_handle [OF inv] by (cases ev) (auto split: sum.splits dest!: sym [of "Inr _"])
  ultimately show ?thesis by (auto simp: system_inv_def exec_event_def)
qed

interpretation ingest: invariant_machine ingest_init "ingest_step env" system_inv for env
proof
  show "ingest_init s \<Longrightarrow> system_inv s" for s
    by (simp add: ingest_init_def system_inv_def)
  show "system_inv s \<Longrightarrow> ingest_step env s t \<Longrightarrow> system_inv t" for s t
    by (auto simp: ingest_step_def exec_event_inv)
qed

interpretation audit: stable_fact ingest_init "ingest_step env" system_inv "\<lambda>t s. history t (store s)" for env
proof
  fix s t x
  assume "system_inv s" "ingest_step env s t" "history x (store s)"
  moreover from this(1,2) have "history (store s) (store t)"
    by (auto simp: ingest_step_def exec_event_def system_inv_def intro: transact_history)
  ultimately show "history x (store t)" by (blast intro: history_trans)
qed

end
