(* ===== verification/Ingest_Samples.thy ===== *)
theory Ingest_Samples
  imports Ingest_Machine
begin

text \<open>
  Concrete runs of the ingest machine on which the properties' hypotheses are shown to hold:
  a document staged, published, begun, indexed and replaced. Digests and names are short
  stand-ins of the right shape.
\<close>

definition sample_env :: ingest_env where
  "sample_env = \<lparr>env_lower = (\<lambda>x. x), env_casefold = (\<lambda>x. x), env_sha256 = (\<lambda>x. replicate 64 48),
     env_ttl = 300000, env_owner = [119]\<rparr>"

definition sample_sha :: pystr where
  "sample_sha = replicate 64 97"

definition other_sha :: pystr where
  "other_sha = replicate 64 98"

definition sample_init :: ingest_system where
  "sample_init = \<lparr>store = empty_db, handles = []\<rparr>"

definition sample_chunk :: chunk where
  "sample_chunk = \<lparr>c_id = 77, c_document = 0, c_version = None, c_generation = 1, c_content_key = Some 5,
     c_fingerprint = Some [1], c_text = [3], c_payload = [], c_dense = [4], c_sparse = [5]\<rparr>"

text \<open>
  The stages of one document: published, begun (\<open>running\<close>), its chunk staged, promoted
  (\<open>served\<close>), its bytes replaced and begun again (\<open>replaced\<close>), fenced by an authorised
  replacement while running (\<open>fenced\<close>), and queued instead of begun (\<open>queued\<close>).
\<close>

definition sample_handle :: ingest_attempt where
  "sample_handle = \<lparr>attempt_id = 2, document_id = 0, candidate_id = 1, candidate_sha =
     sample_sha, observed_active = 0\<rparr>"

definition sample_handle2 :: ingest_attempt where
  "sample_handle2 = \<lparr>attempt_id = 5, document_id = 0, candidate_id = 4, candidate_sha =
     other_sha, observed_active = 1\<rparr>"

definition sample_stored :: chunk where
  "sample_stored = \<lparr>c_id = 77, c_document = 0, c_version = Some 1, c_generation = 1,
     c_content_key = Some 5, c_fingerprint = Some [1], c_text = [3], c_payload = [], c_dense =
     [4], c_sparse = [5]\<rparr>"

definition sample_version :: version_row where
  "sample_version = \<lparr>v_id = 1, v_document = 0, v_number = 1, v_sha = sample_sha,
     v_created_at = 0\<rparr>"

definition other_version :: version_row where
  "other_version = \<lparr>v_id = 4, v_document = 0, v_number = 2, v_sha = other_sha,
     v_created_at = 0\<rparr>"

definition sample_event :: version_event where
  "sample_event = \<lparr>e_document = 0, e_type = Registered, e_from = None, e_to = 1,
     e_expected = 0, e_resulting = 0\<rparr>"

definition sample_attempt :: attempt_row where
  "sample_attempt = \<lparr>a_id = 2, a_document = 0, a_candidate = 1, a_sha = sample_sha,
     a_observed_active = 0, a_owner = Some [119], a_status = None, a_note = None, a_ended_at =
     None\<rparr>"

definition sample_document :: document where
  "sample_document = \<lparr>d_id = 0, d_filename = [97], d_file_type = [98], d_uploaded_at = 0,
     d_status = u ''pending'', d_status_note = None, d_content_sha256 = Some sample_sha,
     d_candidate_id = Some 1, d_candidate_state = Some PUBLISHED, d_active_generation = 0,
     d_last_generation = 0, d_active_content_sha = None, d_active_version_id = None, d_revision
     = 0, d_last_version_number = 1, d_attempt_id = None, d_attempt_owner = None,
     d_attempt_expires_at = None, d_archived_at = None, d_purged_at = None\<rparr>"

definition sample_published :: ingest_system where
  "sample_published = \<lparr>store = \<lparr>docs = [sample_document], attempts = [], versions
     = [sample_version], builds = [], events = [sample_event], chunks = [], jobs = [], clock =
     0, uuid_next = 2\<rparr>, handles = []\<rparr>"

definition sample_running :: ingest_system where
  "sample_running = \<lparr>store = \<lparr>docs = [sample_document\<lparr>d_attempt_id := Some
     2, d_attempt_owner := Some [119], d_attempt_expires_at := Some 300000\<rparr>], attempts =
     [sample_attempt], versions = [sample_version], builds = [], events = [sample_event], chunks
     = [], jobs = [], clock = 0, uuid_next = 3\<rparr>, handles = [sample_handle]\<rparr>"

definition sample_staged :: ingest_system where
  "sample_staged = \<lparr>store = \<lparr>docs = [sample_document\<lparr>d_last_generation :=
     1, d_attempt_id := Some 2, d_attempt_owner := Some [119], d_attempt_expires_at := Some
     300000\<rparr>], attempts = [sample_attempt], versions = [sample_version], builds = [],
     events = [sample_event], chunks = [sample_stored], jobs = [], clock = 0, uuid_next =
     3\<rparr>, handles = [sample_handle]\<rparr>"

definition sample_served :: ingest_system where
  "sample_served = \<lparr>store = \<lparr>docs = [sample_document\<lparr>d_status := u
     ''done'', d_active_generation := 1, d_last_generation := 1, d_active_content_sha := Some
     sample_sha, d_active_version_id := Some 1, d_revision := 1\<rparr>], attempts =
     [sample_attempt\<lparr>a_status := Some DONE, a_ended_at := Some 0\<rparr>], versions =
     [sample_version], builds = [\<lparr>b_document = 0, b_version = 1, b_generation = 1, b_sha
     = sample_sha, b_attempt = 2, b_chunk_count = 1\<rparr>], events = [sample_event,
     \<lparr>e_document = 0, e_type = Activated, e_from = None, e_to = 1, e_expected = 0,
     e_resulting = 1\<rparr>], chunks = [sample_stored], jobs = [], clock = 0, uuid_next =
     3\<rparr>, handles = [sample_handle]\<rparr>"

definition sample_replaced :: ingest_system where
  "sample_replaced = \<lparr>store = \<lparr>docs = [sample_document\<lparr>d_status := u
     ''done'', d_content_sha256 := Some other_sha, d_candidate_id := Some 4, d_active_generation
     := 1, d_last_generation := 1, d_active_content_sha := Some sample_sha, d_active_version_id
     := Some 1, d_revision := 1, d_last_version_number := 2, d_attempt_id := Some 5,
     d_attempt_owner := Some [119], d_attempt_expires_at := Some 300000\<rparr>], attempts =
     [sample_attempt\<lparr>a_status := Some DONE, a_ended_at := Some 0\<rparr>, \<lparr>a_id =
     5, a_document = 0, a_candidate = 4, a_sha = other_sha, a_observed_active = 1, a_owner =
     Some [119], a_status = None, a_note = None, a_ended_at = None\<rparr>], versions =
     [sample_version, other_version], builds = [\<lparr>b_document = 0, b_version = 1,
     b_generation = 1, b_sha = sample_sha, b_attempt = 2, b_chunk_count = 1\<rparr>], events =
     [sample_event, \<lparr>e_document = 0, e_type = Activated, e_from = None, e_to = 1,
     e_expected = 0, e_resulting = 1\<rparr>, \<lparr>e_document = 0, e_type = Registered,
     e_from = None, e_to = 4, e_expected = 1, e_resulting = 1\<rparr>], chunks =
     [sample_stored], jobs = [], clock = 0, uuid_next = 6\<rparr>, handles = [sample_handle,
     sample_handle2]\<rparr>"

text \<open>The replacing run stages its chunk and is promoted: two versions are ready to serve.\<close>

definition second_chunk :: chunk where
  "second_chunk = sample_chunk\<lparr>c_id := 78, c_generation := 2, c_content_key := Some 6\<rparr>"

definition sample_second :: ingest_system where
  "sample_second = (let s = store sample_replaced in sample_replaced\<lparr>store := s\<lparr>
     docs := map (\<lambda>d. d\<lparr>d_active_generation := 2, d_last_generation := 2,
       d_active_content_sha := Some other_sha, d_active_version_id := Some 4, d_revision := 2,
       d_attempt_id := None, d_attempt_owner := None, d_attempt_expires_at := None\<rparr>) (docs s),
     attempts := [hd (attempts s), (hd (tl (attempts s)))\<lparr>a_status := Some DONE, a_ended_at := Some 0\<rparr>],
     builds := builds s @ [\<lparr>b_document = 0, b_version = 4, b_generation = 2, b_sha = other_sha,
       b_attempt = 5, b_chunk_count = 1\<rparr>],
     events := events s @ [\<lparr>e_document = 0, e_type = Activated, e_from = Some 1, e_to = 4,
       e_expected = 1, e_resulting = 2\<rparr>],
     chunks := chunks s @ [second_chunk\<lparr>c_version := Some 4\<rparr>]\<rparr>\<rparr>)"

definition sample_fenced :: ingest_system where
  "sample_fenced = \<lparr>store = \<lparr>docs = [sample_document\<lparr>d_content_sha256 :=
     Some other_sha, d_candidate_id := Some 4, d_candidate_state := Some STAGED,
     d_last_generation := 1, d_last_version_number := 2\<rparr>], attempts =
     [sample_attempt\<lparr>a_status := Some SUPERSEDED, a_ended_at := Some 0\<rparr>], versions
     = [sample_version, other_version], builds = [], events = [sample_event, \<lparr>e_document
     = 0, e_type = Registered, e_from = None, e_to = 4, e_expected = 0, e_resulting =
     0\<rparr>], chunks = [sample_stored], jobs = [], clock = 0, uuid_next = 5\<rparr>, handles
     = [sample_handle]\<rparr>"

definition sample_queued :: ingest_system where
  "sample_queued = \<lparr>store = \<lparr>docs = [sample_document], attempts = [], versions =
     [sample_version], builds = [], events = [sample_event], chunks = [], jobs = [\<lparr>j_id =
     2, j_document = 0, j_candidate = 1, j_version = 1, j_sha = sample_sha, j_key = replicate 64
     48, j_status = Queued, j_attempt_count = 0, j_worker = None, j_lease_expires_at = None,
     j_created_at = 0, j_started_at = None, j_finished_at = None, j_outcome_note =
     None\<rparr>], clock = 0, uuid_next = 3\<rparr>, handles = []\<rparr>"

lemma reach_run:
  assumes "reach ingest_init (ingest_step env) s" "run_events env evs s = Some t"
  shows "reach ingest_init (ingest_step env) t"
  using run_events_steps [OF assms(2)] assms(1) by (rule ingest.reach_steps)

lemma reach_sample_init: "reach ingest_init (ingest_step sample_env) sample_init"
  by (rule reach_init) (simp add: ingest_init_def sample_init_def)

lemmas sample_parts = sample_handle_def sample_handle2_def sample_stored_def sample_version_def
  other_version_def sample_event_def sample_attempt_def sample_document_def sample_sha_def other_sha_def

lemmas sample_systems = sample_published_def sample_running_def sample_staged_def sample_served_def
  sample_replaced_def sample_fenced_def sample_queued_def

lemma sample_run_published:
  "run_events sample_env [Stage [97] [98] (Some sample_sha) False, Finalize 0 1] sample_init = Some sample_published"
  by code_simp

lemma sample_run_running:
  "run_events sample_env [Begin 0 None None None] sample_published = Some sample_running"
  by code_simp

lemma sample_run_staged:
  "run_events sample_env [Allocate sample_handle, Upsert [sample_chunk] sample_handle] sample_running
     = Some sample_staged"
  by code_simp

lemma sample_run_served:
  "run_events sample_env [Promote 1 [77] sample_handle] sample_staged = Some sample_served"
  by code_simp

lemma sample_run_replaced:
  "run_events sample_env [Stage [97] [98] (Some other_sha) True, Finalize 0 4, Begin 0 None None None] sample_served
     = Some sample_replaced"
  by code_simp

lemma sample_run_fenced:
  "run_events sample_env [Stage [97] [98] (Some other_sha) True] sample_staged = Some sample_fenced"
  by code_simp

lemma sample_run_queued:
  "run_events sample_env [Enqueue 0 [107]] sample_published = Some sample_queued"
  by (simp add: sample_published_def sample_queued_def sample_document_def sample_version_def sample_sha_def
      sample_env_def permitted_def exec_event_def enqueue_ingest_job_def job_key_digest_def strip_def lstrip_def
      rstrip_def is_space_def is_control_def is_surrogate_def get_doc_def has_active_job_def has_version_def
      uuid4_def Let_def)

lemma sample_run_second:
  "run_events sample_env [Allocate sample_handle2, Upsert [second_chunk] sample_handle2,
     Promote 2 [78] sample_handle2] sample_replaced = Some sample_second"
  by code_simp

lemmas sample_runs = sample_run_published sample_run_running sample_run_staged sample_run_served
  sample_run_replaced sample_run_fenced sample_run_queued sample_run_second

lemma reach_samples:
  "reach ingest_init (ingest_step sample_env) sample_published"
  "reach ingest_init (ingest_step sample_env) sample_running"
  "reach ingest_init (ingest_step sample_env) sample_staged"
  "reach ingest_init (ingest_step sample_env) sample_served"
  "reach ingest_init (ingest_step sample_env) sample_replaced"
  "reach ingest_init (ingest_step sample_env) sample_fenced"
  "reach ingest_init (ingest_step sample_env) sample_queued"
  "reach ingest_init (ingest_step sample_env) sample_second"
proof -
  show 1: "reach ingest_init (ingest_step sample_env) sample_published"
    by (rule reach_run [OF reach_sample_init sample_runs(1)])
  show 2: "reach ingest_init (ingest_step sample_env) sample_running"
    by (rule reach_run [OF 1 sample_runs(2)])
  show 3: "reach ingest_init (ingest_step sample_env) sample_staged"
    by (rule reach_run [OF 2 sample_runs(3)])
  show 4: "reach ingest_init (ingest_step sample_env) sample_served"
    by (rule reach_run [OF 3 sample_runs(4)])
  show 5: "reach ingest_init (ingest_step sample_env) sample_replaced"
    by (rule reach_run [OF 4 sample_runs(5)])
  show "reach ingest_init (ingest_step sample_env) sample_fenced"
    by (rule reach_run [OF 3 sample_runs(6)])
  show "reach ingest_init (ingest_step sample_env) sample_queued"
    by (rule reach_run [OF 1 sample_runs(7)])
  show "reach ingest_init (ingest_step sample_env) sample_second"
    by (rule reach_run [OF 5 sample_runs(8)])
qed

end
