(* ===== verification/Ingest_Archive.thy ===== *)
theory Ingest_Archive
  imports Ingest_Machine
begin

text \<open>
  Archive and ingest exclude each other: no transaction hands a lease to an archived document or
  puts a job in its queue, and no document with a lease or an active job is archived. The locale of
  machines is interpreted on that invariant.
\<close>

section \<open>Transactions that start no work\<close>

text \<open>An archived document was archived before, and its lease and its active jobs are old ones.\<close>

definition no_lease_added :: "document list \<Rightarrow> document list \<Rightarrow> bool" where
  "no_lease_added ds ds' \<longleftrightarrow> (\<forall>d'\<in>set ds'. d_archived_at d' \<noteq> None \<longrightarrow>
     (\<exists>d\<in>set ds. d_id d = d_id d' \<and> d_archived_at d \<noteq> None \<and> (d_attempt_id d = None \<longrightarrow> d_attempt_id d' = None)))"

definition no_job_added :: "job list \<Rightarrow> job list \<Rightarrow> bool" where
  "no_job_added js js' \<longleftrightarrow> (\<forall>j\<in>set js'. active_status (j_status j) \<longrightarrow>
     (\<exists>i\<in>set js. j_document i = j_document j \<and> active_status (j_status i)))"

definition no_new_work :: "db \<Rightarrow> db \<Rightarrow> bool" where
  "no_new_work s t \<longleftrightarrow> no_lease_added (docs s) (docs t) \<and> no_job_added (jobs s) (jobs t)"

definition archives_idle :: "db \<Rightarrow> bool" where
  "archives_idle s \<longleftrightarrow> (\<forall>d\<in>set (docs s). d_archived_at d \<noteq> None \<longrightarrow> d_attempt_id d = None \<and> \<not> has_active_job s (d_id d))"

lemma no_added_refl [simp]: "no_lease_added ds ds" "no_job_added js js"
  by (auto simp: no_lease_added_def no_job_added_def)

lemma no_new_work_refl [simp]: "no_new_work s s"
  by (simp add: no_new_work_def)

lemma no_new_work_idle: "archives_idle s \<Longrightarrow> no_new_work s t \<Longrightarrow> archives_idle t"
  unfolding archives_idle_def no_new_work_def no_lease_added_def no_job_added_def has_active_job_def by metis

lemma no_new_work_trans: "no_new_work r s \<Longrightarrow> no_new_work s t \<Longrightarrow> no_new_work r t"
  unfolding no_new_work_def no_lease_added_def no_job_added_def by metis

lemma no_lease_update [simp]:
  assumes "\<And>d. d_id (f d) = d_id d" "\<And>d. d_archived_at (f d) = d_archived_at d"
    and "\<And>d. d_attempt_id d = None \<Longrightarrow> d_attempt_id (f d) = None"
  shows "no_lease_added ds (update_rows p f ds)"
  using assms by (auto simp: no_lease_added_def set_update_rows)

lemma no_lease_new: "d_archived_at d = None \<Longrightarrow> no_lease_added ds (ds @ [d])"
  by (auto simp: no_lease_added_def)

lemma no_job_update:
  assumes "\<And>j. j \<in> set js \<Longrightarrow> q j \<Longrightarrow> active_status (j_status (g j)) \<Longrightarrow> j_document (g j) = j_document j \<and> active_status (j_status j)"
  shows "no_job_added js (update_rows q g js)"
  using assms by (auto simp: no_job_added_def set_update_rows split: if_splits)

section \<open>The operations\<close>

lemma stage_columns_archive [simp]:
  "d_archived_at (stage_columns sha cid d) = d_archived_at d"
  "d_attempt_id d = None \<Longrightarrow> d_attempt_id (stage_columns sha cid d) = None"
  by (simp_all add: stage_columns_def Let_def)

lemma stage_no_work:
  assumes "stage_candidate lower filename ftype sha allow s = Inr (r, t)"
  shows "no_new_work s t"
proof -
  from assms obtain d s1 s2 where st: "stage_document lower filename ftype sha allow s = Inr (d, s1)"
      "allocate_version d sha s1 = Inr ((), s2)" "t = fence_attempts (d_id d) (d_candidate_id d) s2"
    by (auto simp: stage_candidate_def split: sum.splits)
  note fr = allocate_version_frame [OF st(2)]
  have "no_new_work s s1"
    using st(1)
  proof (cases rule: stage_document_cases)
    case fresh_row
    from fresh_row(1) have "d_archived_at d = None"
      by (rule arg_cong [where f = d_archived_at, THEN trans]) (simp add: new_document_def)
    with fresh_row(2) show ?thesis by (simp add: no_new_work_def no_lease_new)
  qed (simp_all add: no_new_work_def)
  moreover have "no_new_work s1 s2"
    using fr(4,7) by (auto simp: no_new_work_def)
  moreover have "no_new_work s2 t"
    by (simp add: no_new_work_def st(3) fence_attempts_def close_attempts_def)
  ultimately show ?thesis by (blast intro: no_new_work_trans)
qed

lemma begin_no_work:
  assumes "begin_attempt ttl default_owner doc owner job worker s = Inr (att, t)" "ids_ok n (docs s) as vs js"
  shows "no_new_work s t"
  using assms(1)
proof (cases rule: begin_attempt_cases)
  case (1 d candidate sha s1 holder)
  note d = get_doc_SomeD [OF 1(1)]
  have "d_archived_at e = None" if "e \<in> set (docs s)" "d_id e = doc" for e
    using doc_unique [OF assms(2) that(1), of d] d that(2) 1(2) by auto
  then have "no_lease_added (docs s) (docs t)"
    by (auto simp: no_lease_added_def 1(9,11) update_doc_def close_attempts_def set_update_rows split: if_splits)
  then show ?thesis by (simp add: no_new_work_def 1(9,11) update_doc_def close_attempts_def)
qed

lemma activation_no_work:
  assumes "activation_trigger old new (update_doc i f s) = Inr ((), t)"
    and "\<And>d. d_id (f d) = d_id d" "\<And>d. d_archived_at (f d) = d_archived_at d"
    and "\<And>d. d_attempt_id d = None \<Longrightarrow> d_attempt_id (f d) = None"
  shows "no_new_work s t"
  using activation_trigger_frame [OF assms(1)] assms(2-4) by (simp add: no_new_work_def update_doc_def)

lemma promote_no_work:
  assumes "promote_generation doc gen expected manifest sha cand att s = Inr (n, t)"
  shows "no_new_work s t"
  using assms
proof (cases rule: promote_cases)
  case (1 candidate attempt r d s1)
  have "no_new_work s s1" by (rule activation_no_work [OF 1(16)]) (simp_all add: promoted_def clear_lease_def)
  with 1(17) show ?thesis by (simp add: no_new_work_def)
qed

lemma activate_no_work:
  assumes "activate_document_version doc version expected sha s = Inr (r, t)"
  shows "no_new_work s t"
  using assms
proof (cases rule: activate_cases)
  case (changed d v b)
  show ?thesis by (rule activation_no_work [OF changed(8)]) (simp_all add: activated_def)
qed simp

lemma document_calls_no_work:
  "finalize_candidate_publication doc cid s = Inr (a, t) \<Longrightarrow> no_new_work s t"
  "heartbeat_attempt ttl att s = Inr (b, t) \<Longrightarrow> no_new_work s t"
  "record_attempt_outcome att status note s = Inr (c, t) \<Longrightarrow> no_new_work s t"
  "allocate_generation doc att s = Inr (d, t) \<Longrightarrow> no_new_work s t"
  "set_document_status doc status note expected candidate s = Inr (e, t) \<Longrightarrow> no_new_work s t"
  by (auto simp: finalize_candidate_publication_def heartbeat_attempt_def record_attempt_outcome_def
      allocate_generation_def set_document_status_def Let_def clear_lease_def update_doc_def no_new_work_def
      split: option.splits)

lemma chunk_calls_no_work:
  "upsert_chunks rows att s = Inr (a, t) \<Longrightarrow> no_new_work s t"
  "copy_chunks_into_generation rows att s = Inr (b, t) \<Longrightarrow> no_new_work s t"
  by (erule upsert_chunks_suffix, simp add: no_new_work_def) (erule copy_chunks_suffix, simp add: no_new_work_def)

lemma exhausted_no_work: "no_new_work s (close_exhausted most s)"
  by (auto simp: close_exhausted_def no_new_work_def active_status_def intro!: no_job_update)

lemma claim_no_work:
  assumes inv: "db_inv s" and "claim_ingest_job casefold worker secs most s = Inr (r, t)"
  shows "no_new_work s t"
  using assms(2)
proof (cases rule: claim_cases)
  case empty
  then show ?thesis by (simp add: exhausted_no_work)
next
  case (taken j0)
  let ?s = "close_exhausted most s"
  note inv1 = close_exhausted_inv [OF inv, of most]
  note j0 = next_job_SomeD [OF taken(1)]
  have jobs_t: "jobs t = update_rows (\<lambda>r. j_id r = j_id j0) (take_job (strip worker) (clock s) (1000 * secs)) (jobs ?s)"
    by (simp add: taken(4))
  have "no_job_added (jobs ?s) (jobs t)" unfolding jobs_t
  proof (rule no_job_update)
    fix j
    assume "j \<in> set (jobs ?s)" "j_id j = j_id j0"
    then have "j = j0" using job_unique [OF inv1 _ j0(1)] by blast
    then show "j_document (take_job (strip worker) (clock s) (1000 * secs) j) = j_document j \<and> active_status (j_status j)"
      using j0(2) by (auto simp: lapsed_def active_status_def take_job_def)
  qed
  then have "no_new_work ?s t" by (simp add: no_new_work_def taken(4))
  with exhausted_no_work show ?thesis by (rule no_new_work_trans)
qed

lemma beat_no_work: "heartbeat_ingest_job i worker secs s = Inr (r, t) \<Longrightarrow> no_new_work s t"
  by (auto simp: heartbeat_ingest_job_def no_new_work_def intro!: no_job_update split: if_splits)

lemma finish_no_work:
  assumes "finish_ingest_job i worker status note s = Inr (r, t)"
  shows "no_new_work s t"
  using assms
proof (cases rule: finish_cases)
  case (1 st n)
  from finish_status_terminal [OF 1(1)] have "\<not> active_status st"
    by (auto simp: terminal_status_def active_status_def)
  then show ?thesis by (auto simp: 1(3) no_new_work_def intro!: no_job_update)
qed

lemma retry_no_work:
  assumes "retry_ingest_job i worker note most s = Inr (r, t)"
  shows "no_new_work s t"
  using assms
proof (cases rule: retry_cases)
  case (1 j n)
  show ?thesis by (auto simp: 1(3) no_new_work_def owned_def active_status_def intro!: no_job_update)
qed

lemma cancel_no_work:
  assumes "cancel_ingest_job i s = Inr (r, t)"
  shows "no_new_work s t"
  using assms
proof (cases rule: cancel_cases)
  case (closed j)
  show ?thesis by (auto simp: closed(3) no_new_work_def cancelled_def active_status_def intro!: no_job_update)
qed simp

text \<open>Enqueueing starts work, but not on an archived document; archiving marks a document, but none with work.\<close>

lemma enqueue_idle:
  assumes "archives_idle s" "ids_ok n (docs s) as vs js" "enqueue_ingest_job sha256 doc key s = Inr (r, t)"
  shows "archives_idle t"
  using assms(3)
proof (cases rule: enqueue_cases)
  case kept
  with assms(1) show ?thesis by simp
next
  case (added d candidate sha j)
  note d = get_doc_SomeD [OF added(1)]
  have "d_id e \<noteq> doc" if "e \<in> set (docs s)" "d_archived_at e \<noteq> None" for e
    using doc_unique [OF assms(2) that(1), of d] d that(2) added(5) by auto
  with assms(1) show ?thesis
    by (auto simp: archives_idle_def has_active_job_def added(9,11))
qed

lemma archive_idle:
  assumes "archives_idle s" "ids_ok n (docs s) as vs js" "set_document_archived doc archived s = Inr (r, t)"
  shows "archives_idle t"
proof (cases "t = s")
  case False
  with assms(3) obtain d stamp where c: "get_doc s doc = Some d" "\<not> has_active_job s doc" "d_attempt_id d = None"
      "t = update_doc doc (\<lambda>e. e\<lparr>d_archived_at := stamp\<rparr>) s"
    by (auto simp: set_document_archived_def Let_def split: option.splits if_splits)
  note d = get_doc_SomeD [OF c(1)]
  have "e = d" if "e \<in> set (docs s)" "d_id e = doc" for e
    using doc_unique [OF assms(2) that(1), of d] d that(2) by simp
  with assms(1) c(2,3) show ?thesis
    by (auto simp: archives_idle_def has_active_job_def c(4) update_doc_def set_update_rows split: if_splits)
qed (use assms(1) in simp)

lemmas operations_no_work = stage_no_work promote_no_work activate_no_work document_calls_no_work
  chunk_calls_no_work beat_no_work finish_no_work retry_no_work cancel_no_work

lemma transact_idle:
  assumes "db_inv s" "archives_idle s"
  shows "archives_idle (transact env ev s)"
proof -
  note ids = db_invD(1) [OF assms(1)]
  note keep = after_keep [where P = archives_idle, OF assms(2)]
  show ?thesis
  proof (cases ev)
    case (Tick n)
    with assms(2) show ?thesis by (simp add: archives_idle_def has_active_job_def)
  next
    case (Begin doc owner job worker)
    show ?thesis unfolding Begin transact.simps
      by (rule keep) (rule no_new_work_idle [OF assms(2) begin_no_work [OF _ ids]])
  next
    case (Archive doc archived)
    show ?thesis unfolding Archive transact.simps by (rule keep) (rule archive_idle [OF assms(2) ids])
  next
    case (Claim worker secs most)
    show ?thesis unfolding Claim transact.simps
      by (rule keep) (rule no_new_work_idle [OF assms(2) claim_no_work [OF assms(1)]])
  next
    case (Enqueue doc key)
    show ?thesis unfolding Enqueue transact.simps by (rule keep) (rule enqueue_idle [OF assms(2) ids])
  qed (simp only: transact.simps, rule keep, rule no_new_work_idle [OF assms(2)], erule operations_no_work)+
qed

interpretation archives: invariant_machine ingest_init "ingest_step env" "\<lambda>s. system_inv s \<and> archives_idle (store s)" for env
proof
  show "ingest_init s \<Longrightarrow> system_inv s \<and> archives_idle (store s)" for s
    by (simp add: ingest.inv_init) (simp add: ingest_init_def archives_idle_def empty_db_def)
  show "system_inv s \<and> archives_idle (store s) \<Longrightarrow> ingest_step env s t \<Longrightarrow> system_inv t \<and> archives_idle (store t)" for s t
  proof
    assume inv: "system_inv s \<and> archives_idle (store s)" and step: "ingest_step env s t"
    then show "system_inv t" by (blast intro: ingest.inv_step)
    from step obtain ev where "store t = transact env ev (store s)" by (auto simp: ingest_step_def exec_event_def)
    with inv show "archives_idle (store t)" by (simp add: system_inv_def transact_idle)
  qed
qed

end
