(* ===== verification/Ingest_Properties.thy ===== *)
theory Ingest_Properties
  imports Ingest_Samples Ingest_Archive
begin

text \<open>
  The properties of the ingest database: what holds in every reachable state, what no run can
  undo, who may write, and what each operation does. The hypotheses are discharged on the
  sample runs.
\<close>

section \<open>In every reachable state\<close>

lemma reach_db_inv: "reach ingest_init (ingest_step env) s \<Longrightarrow> db_inv (store s)"
  using ingest.reach_inv system_inv_def by blast

lemma reach_handle_ok: "reach ingest_init (ingest_step env) s \<Longrightarrow> h \<in> set (handles s) \<Longrightarrow> handle_ok (store s) h"
  using ingest.reach_inv system_inv_def by blast

lemma reach_later:
  "reach ingest_init (ingest_step env) s \<Longrightarrow> (ingest_step env)\<^sup>*\<^sup>* s t \<Longrightarrow> reach ingest_init (ingest_step env) t"
  by (rule ingest.reach_steps)

lemma later_history:
  "reach ingest_init (ingest_step env) s \<Longrightarrow> (ingest_step env)\<^sup>*\<^sup>* s t \<Longrightarrow> history (store s) (store t)"
  using audit.fact_forever history_refl by blast

text \<open>C1: under every interleaving of uploads, publications, ingest runs, takeovers, promotions and
  queue operations, a run that has no verdict yet holds the lease of its document, works on the
  candidate the document records, and is the only such run of that document.
\<close>

theorem running_attempt_holds_document:
  assumes "reach ingest_init (ingest_step env) s" "r \<in> set (attempts (store s))" "a_status r = None"
  shows "\<exists>d\<in>set (docs (store s)). d_id d = a_document r \<and> d_attempt_id d = Some (a_id r)
     \<and> d_candidate_id d = Some (a_candidate r)
     \<and> (\<forall>r'\<in>set (attempts (store s)). a_document r' = a_document r \<longrightarrow> a_status r' = None \<longrightarrow> r' = r)"
proof -
  note inv = reach_db_inv [OF assms(1)]
  obtain d where d: "d \<in> set (docs (store s))" "d_id d = a_document r" "d_attempt_id d = Some (a_id r)"
      "d_candidate_id d = Some (a_candidate r)"
    by (rule running_candidate [OF inv assms(2,3)])
  with one_running_attempt [OF inv] assms(2,3) show ?thesis by (intro bexI [of _ d]) auto
qed

theorem running_attempt_holds_document_witness:
  "\<exists>d\<in>set (docs (store sample_running)). d_id d = a_document sample_attempt
     \<and> d_attempt_id d = Some (a_id sample_attempt) \<and> d_candidate_id d = Some (a_candidate sample_attempt)
     \<and> (\<forall>r'\<in>set (attempts (store sample_running)). a_document r' = a_document sample_attempt \<longrightarrow>
          a_status r' = None \<longrightarrow> r' = sample_attempt)"
  by (rule running_attempt_holds_document [OF reach_samples(2)])
    (simp_all add: sample_running_def sample_attempt_def)

text \<open>C2: whatever a document serves is proven in every reachable state: the active version is a
  catalogued version of that document with the recorded digest, a build receipt covers its
  active generation, and at least one chunk of that build is stored.
\<close>

theorem served_version_is_proven:
  assumes "reach ingest_init (ingest_step env) s" "d \<in> set (docs (store s))" "d_active_version_id d = Some version"
  shows "(\<exists>v\<in>set (versions (store s)). v_id v = version \<and> v_document v = d_id d
        \<and> d_active_content_sha d = Some (v_sha v))
     \<and> (\<exists>b\<in>set (builds (store s)). b_document b = d_id d \<and> b_version b = version
          \<and> b_generation b = d_active_generation d)
     \<and> chunks_of (store s) (d_id d) (Some version) (d_active_generation d) \<noteq> []"
proof -
  note A = db_invD(5) [OF reach_db_inv [OF assms(1)], unfolded active_ok_def, rule_format, OF assms(2,3)]
  then obtain c where "c \<in> set (chunks (store s))" "c_document c = d_id d" "c_version c = Some version"
      "c_generation c = d_active_generation d" by blast
  then have "c \<in> set (chunks_of (store s) (d_id d) (Some version) (d_active_generation d))"
    by (simp add: chunks_of_def)
  with A show ?thesis by auto
qed

theorem served_version_is_proven_witness:
  "\<exists>d\<in>set (docs (store sample_served)). d_active_version_id d = Some 1 \<and> chunks_of (store sample_served) (d_id d) (Some 1) (d_active_generation d) \<noteq> []"
proof -
  let ?d = "hd (docs (store sample_served))"
  have "?d \<in> set (docs (store sample_served))" "d_active_version_id ?d = Some 1"
    by (simp_all add: sample_served_def sample_document_def)
  with served_version_is_proven [OF reach_samples(4) this] show ?thesis by (intro bexI [of _ ?d]) simp_all
qed

lemma closed_stays_closed:
  assumes "reach ingest_init (ingest_step env) s" "r \<in> set (attempts (store s))" "a_status r \<noteq> None"
    and "(ingest_step env)\<^sup>*\<^sup>* s t"
  shows "r \<in> set (attempts (store t))"
  using later_history [OF assms(1,4)] assms(2,3) by (auto simp: history_def attempts_grow_def)

lemma closed_no_promotion:
  assumes inv: "db_inv s" and r: "r \<in> set (attempts s)" "a_id r = a" "a_status r \<noteq> None"
  shows "isl (promote_generation doc gen expected manifest sha cand (Some a) s)"
proof (rule ccontr)
  assume "\<not> ?thesis"
  then obtain n s' where "promote_generation doc gen expected manifest sha cand (Some a) s = Inr (n, s')"
    by (cases "promote_generation doc gen expected manifest sha cand (Some a) s") auto
  then obtain r' where "r' \<in> set (attempts s)" "a_id r' = a" "a_status r' = None"
    by (rule promote_cases) auto
  with attempt_unique [OF db_invD(1) [OF inv]] r show False by metis
qed

text \<open>C22: a closed run never writes again. Once the row of an issued handle carries a verdict (its
  own, a takeover's or a fence's), every later heartbeat, verdict, generation, chunk write,
  chunk copy and promotion under that handle is refused, whatever happens in between.
\<close>

theorem closed_run_never_writes:
  assumes "reach ingest_init (ingest_step env) s" "r \<in> set (attempts (store s))"
    and "a_id r = attempt_id h" "a_status r \<noteq> None" "(ingest_step env)\<^sup>*\<^sup>* s t"
  shows "isl (heartbeat_attempt ttl h (store t)) \<and> isl (record_attempt_outcome h status note (store t))
     \<and> isl (allocate_generation doc h (store t)) \<and> isl (upsert_chunks rows h (store t))
     \<and> isl (copy_chunks_into_generation rows h (store t))
     \<and> isl (promote_generation doc gen expected manifest sha cand (Some (attempt_id h)) (store t))"
proof -
  have inv: "db_inv (store t)" using reach_later [OF assms(1,5)] by (rule reach_db_inv)
  have r: "r \<in> set (attempts (store t))" using closed_stays_closed assms(1,2,4,5) by blast
  from closed_no_authority [OF inv r assms(3,4)] obtain e where "authority (store t) h = Some e" by auto
  with closed_no_promotion [OF inv r assms(3,4)] show ?thesis
    by (simp add: heartbeat_attempt_def record_attempt_outcome_def allocate_generation_def
        upsert_chunks_def copy_chunks_into_generation_def split: option.splits)
qed

theorem closed_run_never_writes_witness:
  "isl (upsert_chunks [sample_chunk] sample_handle (store sample_fenced))
     \<and> isl (promote_generation 0 1 0 [77] sample_sha (Some 1) (Some 2) (store sample_fenced))"
proof -
  let ?r = "hd (attempts (store sample_fenced))"
  have "?r \<in> set (attempts (store sample_fenced))" "a_id ?r = attempt_id sample_handle" "a_status ?r \<noteq> None"
    by (simp_all add: sample_fenced_def sample_attempt_def sample_handle_def)
  from closed_run_never_writes [OF reach_samples(6) this rtranclp.rtrancl_refl] show ?thesis
    by (simp add: sample_handle_def)
qed

section \<open>The candidate gate\<close>

text \<open>
  An accepted offer of new bytes, from the gate to the fence: the state in between, and what
  each later statement leaves.
\<close>

lemma stage_candidate_parts:
  assumes "stage_candidate lower filename ftype sha allow s = Inr ((doc, cand, name), t)"
  obtains d s1 s2 where "stage_document lower filename ftype sha allow s = Inr (d, s1)"
    "allocate_version d sha s1 = Inr ((), s2)" "t = fence_attempts (d_id d) (d_candidate_id d) s2"
    "doc = d_id d" "cand = d_candidate_id d" "name = d_filename d"
  using assms by (auto simp: stage_candidate_def split: sum.splits)

lemma fence_attempts_simps [simp]:
  "docs (fence_attempts doc c s) = docs s" "versions (fence_attempts doc c s) = versions s"
  "chunks (fence_attempts doc c s) = chunks s" "builds (fence_attempts doc c s) = builds s"
  by (simp_all add: fence_attempts_def close_attempts_def)

lemma allocate_version_row:
  assumes "allocate_version d sha s = Inr ((), s')" "d \<in> set (docs s)"
  shows "\<exists>n. d\<lparr>d_last_version_number := n\<rparr> \<in> set (docs s')"
  using allocate_version_frame(7) [OF assms(1)]
proof
  assume "docs s' = docs s"
  with assms(2) show ?thesis by (intro exI [of _ "d_last_version_number d"]) simp
next
  let ?f = "\<lambda>e. e\<lparr>d_last_version_number := Suc (d_last_version_number d)\<rparr>"
  assume "docs s' = update_rows (\<lambda>e. d_id e = d_id d) ?f (docs s)"
  with assms(2) have "?f d \<in> set (docs s')" by (force simp: update_rows_def)
  then show ?thesis by blast
qed

text \<open>C23: an accepted offer of bytes that are not the recorded candidate replaces the candidate and
  fences at once: the document records a fresh candidate identity in the STAGED state, its
  lease is empty, no run of the document is left without a verdict, and the catalogue holds
  the new candidate with its digest.
\<close>

theorem changed_offer_fences:
  assumes "reach ingest_init (ingest_step env) s"
    and "stage_candidate lower filename ftype (Some sha) allow (store s) = Inr ((doc, cand, name), t)"
    and "\<forall>d\<in>set (docs (store s)). d_id d = doc \<longrightarrow> \<not> offer_unchanged (Some sha) d"
  shows "\<exists>d. get_doc t doc = Some d \<and> cand = Some (Suc (uuid_next (store s))) \<and> d_candidate_id d = cand
     \<and> d_content_sha256 d = Some sha \<and> d_candidate_state d = Some STAGED \<and> d_attempt_id d = None
     \<and> (\<forall>r\<in>set (attempts t). a_document r = doc \<longrightarrow> a_status r \<noteq> None)
     \<and> (\<exists>v\<in>set (versions t). Some (v_id v) = cand \<and> v_document v = doc \<and> v_sha v = sha)"
proof -
  note inv = reach_db_inv [OF assms(1)]
  have invt: "db_inv t" by (rule stage_candidate_inv [OF inv assms(2)])
  note It = db_invD [OF invt]
  obtain d s1 s2 where p: "stage_document lower filename ftype (Some sha) allow (store s) = Inr (d, s1)"
      "allocate_version d (Some sha) s1 = Inr ((), s2)" "t = fence_attempts (d_id d) (d_candidate_id d) s2"
      "doc = d_id d" "cand = d_candidate_id d" "name = d_filename d"
    by (rule stage_candidate_parts [OF assms(2)])
  have "cand = Some (Suc (uuid_next (store s))) \<and> d_content_sha256 d = Some sha
      \<and> d_candidate_state d = Some STAGED \<and> d_attempt_id d = None"
    using p(1)
  proof (cases rule: stage_document_cases)
    case fresh_row
    show ?thesis
      using arg_cong [OF fresh_row(1), of d_candidate_id] arg_cong [OF fresh_row(1), of d_content_sha256]
        arg_cong [OF fresh_row(1), of d_candidate_state] arg_cong [OF fresh_row(1), of d_attempt_id] p(5)
      by (simp add: new_document_def)
  next
    case (kept d0)
    with assms(3) p(4) show ?thesis by auto
  next
    case (changed d0 h)
    then show ?thesis using p(5) by (simp add: clear_lease_def)
  qed
  then have d: "cand = Some (Suc (uuid_next (store s)))" "d_content_sha256 d = Some sha"
      "d_candidate_state d = Some STAGED" "d_attempt_id d = None" by simp_all
  note h = stage_document_half_staged [OF inv p(1)]
  obtain n where n: "d\<lparr>d_last_version_number := n\<rparr> \<in> set (docs s2)"
    using allocate_version_row [OF p(2) half_stagedD(1) [OF h]] by blast
  define d' where "d' = d\<lparr>d_last_version_number := n\<rparr>"
  have d': "d' \<in> set (docs t)" "d_id d' = doc" "d_candidate_id d' = cand"
      "d_content_sha256 d' = Some sha" "d_candidate_state d' = Some STAGED" "d_attempt_id d' = None"
    using n d p(3,4,5) by (simp_all add: d'_def)
  have g: "get_doc t doc = Some d'" by (rule get_doc_eq [OF It(1) d'(1,2)])
  have none: "a_status r \<noteq> None" if hr: "r \<in> set (attempts t)" "a_document r = doc" for r
  proof
    assume "a_status r = None"
    then obtain e where "e \<in> set (docs t)" "d_id e = a_document r" "d_attempt_id e = Some (a_id r)"
      using running_candidate [OF invt hr(1)] by metis
    with doc_unique [OF It(1) _ d'(1)] d'(2,6) hr(2) show False by auto
  qed
  obtain v where "v \<in> set (versions t)" "Some (v_id v) = cand" "v_document v = doc" "v_sha v = sha"
    using It(4) d' d(1) unfolding versions_ok_def by metis
  with g d' d(1) none show ?thesis by blast
qed

theorem changed_offer_fences_witness:
  "\<exists>t. stage_candidate (\<lambda>x. x) [97] [98] (Some other_sha) True (store sample_staged) = Inr ((0, Some 4, [97]), t)
     \<and> (\<forall>r\<in>set (attempts t). a_document r = 0 \<longrightarrow> a_status r \<noteq> None)"
proof -
  have "stage_candidate (\<lambda>x. x) [97] [98] (Some other_sha) True (store sample_staged)
      = Inr ((0, Some 4, [97]), store sample_fenced)" by code_simp
  moreover have "\<forall>d\<in>set (docs (store sample_staged)). d_id d = 0 \<longrightarrow> \<not> offer_unchanged (Some other_sha) d"
    by code_simp
  ultimately show ?thesis using changed_offer_fences [OF reach_samples(3)] by blast
qed

text \<open>knocking again with the recorded bytes changes nothing: the same document and candidate
  come back, the lease and the run in progress stay, no version number is consumed.
\<close>

theorem repeated_offer_changes_nothing:
  assumes "reach ingest_init (ingest_step env) s"
    and "stage_candidate lower filename ftype (Some sha) allow (store s) = Inr ((doc, cand, name), t)"
    and "get_doc (store s) doc = Some d" "offer_unchanged (Some sha) d"
  shows "cand = d_candidate_id d \<and> name = d_filename d
     \<and> t = (store s)\<lparr>uuid_next := Suc (Suc (uuid_next (store s)))\<rparr>"
proof -
  note inv = reach_db_inv [OF assms(1)]
  note I = db_invD [OF inv]
  note d = get_doc_SomeD [OF assms(3)]
  obtain e s1 s2 where p: "stage_document lower filename ftype (Some sha) allow (store s) = Inr (e, s1)"
      "allocate_version e (Some sha) s1 = Inr ((), s2)" "t = fence_attempts (d_id e) (d_candidate_id e) s2"
      "doc = d_id e" "cand = d_candidate_id e" "name = d_filename e"
    by (rule stage_candidate_parts [OF assms(2)])
  have e: "e = d \<and> s1 = (store s)\<lparr>uuid_next := Suc (Suc (uuid_next (store s)))\<rparr>"
    using p(1)
  proof (cases rule: stage_document_cases)
    case fresh_row
    have "d_id e = uuid_next (store s)" using arg_cong [OF fresh_row(1), of d_id] by (simp add: new_document_def)
    moreover have "d_id d < uuid_next (store s)" using I(1) d unfolding ids_ok_def by blast
    ultimately show ?thesis using d p(4) by simp
  next
    case (kept d0)
    then have "e = d" using doc_unique [OF I(1)] d p(4) by metis
    moreover have "update_rows (\<lambda>x. d_id x = d_id d0) (stage_columns (Some sha) (Suc (uuid_next (store s))))
        (docs (store s)) = docs (store s)"
    proof (rule update_rows_id)
      fix r
      assume "d_id r = d_id d0" "r \<in> set (docs (store s))"
      then have "r = d0" using doc_unique [OF I(1)] kept(1) by blast
      then show "stage_columns (Some sha) (Suc (uuid_next (store s))) r = r"
        using kept(2) stage_columns_keep by simp
    qed
    ultimately show ?thesis using kept(4) by simp
  next
    case (changed d0 h)
    have "d_id e = d_id d0" using changed(4) by (simp add: clear_lease_def)
    then have "d0 = d" using doc_unique [OF I(1) changed(1)] d p(4) by simp
    with changed(3) assms(4) show ?thesis by simp
  qed
  obtain c where c: "d_candidate_id d = Some c" "d_content_sha256 d = Some sha"
    using assms(4) by (auto simp: offer_unchanged_def)
  with I(4) d obtain v where "v \<in> set (versions (store s))" "v_id v = c" "v_document v = d_id d"
    unfolding versions_ok_def by blast
  then have "has_version s1 (d_id d) c" using e by (auto simp: has_version_def)
  with p(2) e c have s2: "s2 = s1" by (simp add: allocate_version_def)
  have "update_rows (\<lambda>r. a_status r = None \<and> a_document r = d_id d \<and> Some (a_candidate r) \<noteq> d_candidate_id d)
      f (attempts (store s)) = attempts (store s)" for f
  proof (rule update_rows_id)
    fix r
    assume r: "a_status r = None \<and> a_document r = d_id d \<and> Some (a_candidate r) \<noteq> d_candidate_id d"
      "r \<in> set (attempts (store s))"
    then obtain x where "x \<in> set (docs (store s))" "d_id x = a_document r" "d_candidate_id x = Some (a_candidate r)"
      using running_candidate [OF inv r(2)] by metis
    with doc_unique [OF I(1)] d r(1) show "f r = r" by metis
  qed
  with s2 e p show ?thesis by (simp add: fence_attempts_def close_attempts_def)
qed

theorem repeated_offer_changes_nothing_witness:
  "stage_candidate (\<lambda>x. x) [97] [98] (Some sample_sha) False (store sample_running)
     = Inr ((0, Some 1, [97]), (store sample_running)\<lparr>uuid_next := 5\<rparr>)"
proof -
  let ?d = "hd (docs (store sample_running))"
  have "get_doc (store sample_running) 0 = Some ?d" "offer_unchanged (Some sample_sha) ?d"
      "d_candidate_id ?d = Some 1" "uuid_next (store sample_running) = 3"
    by (simp_all add: sample_running_def sample_document_def get_doc_def offer_unchanged_def)
  moreover have "isl (stage_candidate (\<lambda>x. x) [97] [98] (Some sample_sha) False (store sample_running)) = False"
    by code_simp
  moreover have "(case stage_candidate (\<lambda>x. x) [97] [98] (Some sample_sha) False (store sample_running) of
      Inl _ \<Rightarrow> None | Inr (r, _) \<Rightarrow> Some r) = Some (0, Some 1, [97])"
    by code_simp
  then obtain t where t: "stage_candidate (\<lambda>x. x) [97] [98] (Some sample_sha) False (store sample_running)
      = Inr ((0, Some 1, [97]), t)"
    by (auto split: sum.splits)
  ultimately show ?thesis
    using repeated_offer_changes_nothing [OF reach_samples(2) t, of ?d] t by simp
qed

text \<open>without replacement authority, bytes that differ from the recorded candidate of a served
  document are refused, and in particular the served bytes themselves, which the legacy gate
  still lets in under a fresh candidate identity.
\<close>

theorem served_arm_is_closed:
  assumes "named_document lower filename s = Some d0"
    and "find (\<lambda>e. d_filename e = d_filename d0) (docs s) = Some d"
    and "d_active_content_sha d = Some sha" "d_content_sha256 d \<noteq> Some sha"
  shows "stage_candidate lower filename ftype (Some sha) False s = Inl CandidateConflict
     \<and> (\<exists>t. upsert_document lower filename ftype status (Some sha) False s
          = Inr ((d_id d, Some (Suc (uuid_next s)), d_filename d), t))"
proof -
  have "find (\<lambda>e. d_filename e = d_filename d0) (docs (s\<lparr>uuid_next := n\<rparr>)) = Some d" for n
    using assms(2) by simp
  with assms show ?thesis
    by (simp add: stage_candidate_def stage_document_def gate_open_def upsert_document_def
        legacy_gate_open_def legacy_columns_def offer_unchanged_def uuid4_def Let_def)
qed

theorem served_arm_is_closed_witness:
  "stage_candidate (\<lambda>x. x) [97] [98] (Some sample_sha) False (store sample_replaced) = Inl CandidateConflict"
proof -
  let ?d = "hd (docs (store sample_replaced))"
  have "named_document (\<lambda>x. x) [97] (store sample_replaced) = Some ?d"
    by (simp add: sample_replaced_def sample_document_def named_document_def)
  moreover have "find (\<lambda>e. d_filename e = d_filename ?d) (docs (store sample_replaced)) = Some ?d"
      "d_active_content_sha ?d = Some sample_sha" "d_content_sha256 ?d \<noteq> Some sample_sha"
    by (simp_all add: sample_replaced_def sample_document_def sample_sha_def other_sha_def)
  ultimately show ?thesis using served_arm_is_closed by blast
qed

section \<open>The lease\<close>

text \<open>the lease excludes. After a direct begin succeeded, every other direct begin of the document
  is refused as already running until the lease's time is over, as long as nothing else
  touches the row.
\<close>

theorem live_lease_excludes:
  assumes "begin_attempt ttl dflt doc owner None None s = Inr (att, t)" "now < clock s + ttl"
  shows "begin_attempt ttl' dflt' doc owner' None None (t\<lparr>clock := now\<rparr>) = Inl AttemptAlreadyRunning"
  using assms(1)
proof (cases rule: begin_attempt_cases)
  case (1 d candidate sha s1 holder)
  let ?f = "\<lambda>e. e\<lparr>d_attempt_id := Some (uuid_next s), d_attempt_owner := Some holder,
        d_attempt_expires_at := Some (clock s + ttl)\<rparr>"
  have "get_doc (t\<lparr>clock := now\<rparr>) doc = map_option ?f (get_doc s doc)"
    using 1(1,9,11) find_row_update_rows [of d_id ?f doc "\<lambda>d. d_id d = doc" "docs s"] get_doc_SomeD [OF 1(1)]
    by (simp add: get_doc_def update_doc_def close_attempts_def)
  then have g: "get_doc (t\<lparr>clock := now\<rparr>) doc = Some (?f d)" using 1(1) by simp
  have "active_jobs s doc = []"
    using 1(8) by (simp add: job_refusal_def split: list.splits)
  then have "active_jobs (t\<lparr>clock := now\<rparr>) doc = []"
    using 1(9,11) by (simp add: active_jobs_def update_doc_def close_attempts_def)
  with g 1(2-4) assms(2) show ?thesis
    by (simp add: begin_attempt_def job_refusal_def live_def)
qed

theorem live_lease_excludes_witness:
  "begin_attempt 300000 [119] 0 None None None ((store sample_running)\<lparr>clock := 299999\<rparr>) = Inl AttemptAlreadyRunning"
proof -
  have "begin_attempt 300000 [119] 0 None None None (store sample_published)
      = Inr (sample_handle, store sample_running)" by code_simp
  from live_lease_excludes [OF this] show ?thesis
    by (simp add: sample_published_def)
qed

text \<open>taking over an expired lease displaces its holder completely. The new run alone has
  authority over the document; every handle issued before for it has none, and a run that was
  still open is closed as superseded in the same transaction.
\<close>

theorem takeover_displaces:
  assumes "reach ingest_init (ingest_step env) s"
    and "begin_attempt ttl dflt doc owner job worker (store s) = Inr (att, t)"
    and "h \<in> set (handles s)" "document_id h = doc"
  shows "authority t att = None \<and> authority t h \<noteq> None
     \<and> (\<exists>r\<in>set (attempts t). a_id r = attempt_id h \<and> a_status r \<noteq> None)"
proof -
  note inv = reach_db_inv [OF assms(1)]
  note invt = begin_attempt_inv [OF inv assms(2)]
  note hok = reach_handle_ok [OF assms(1,3)]
  have att: "authority t att = None \<and> attempt_id att = uuid_next (store s) \<and> document_id att = doc"
    using assms(2)
  proof (cases rule: begin_attempt_cases)
    case (1 d candidate sha s1 holder)
    let ?f = "\<lambda>e. e\<lparr>d_attempt_id := Some (uuid_next (store s)), d_attempt_owner := Some holder,
          d_attempt_expires_at := Some (clock (store s) + ttl)\<rparr>"
    have "get_doc t doc = map_option ?f (get_doc (store s) doc)"
      using 1(1,9,11) find_row_update_rows [of d_id ?f doc "\<lambda>d. d_id d = doc" "docs (store s)"]
        get_doc_SomeD [OF 1(1)]
      by (simp add: get_doc_def update_doc_def close_attempts_def)
    with 1 show ?thesis by (simp add: authority_def)
  qed
  obtain d where d: "d \<in> set (docs t)" "d_id d = doc" "d_attempt_id d = Some (uuid_next (store s))"
    using att authority_NoneD [of t att] by metis
  obtain r where r: "r \<in> set (attempts (store s))" "a_id r = attempt_id h" "a_document r = doc"
    using hok assms(4) by (auto simp: handle_ok_def attempt_binding_def)
  have old: "attempt_id h \<noteq> uuid_next (store s)"
    using db_invD(1) [OF inv] r unfolding ids_ok_def by force
  have "authority t h \<noteq> None"
  proof
    assume "authority t h = None"
    then obtain e where "e \<in> set (docs t)" "d_id e = doc" "d_attempt_id e = Some (attempt_id h)"
      using assms(4) by (metis authority_NoneD)
    with doc_unique [OF db_invD(1) [OF invt] _ d(1)] d old show False by auto
  qed
  moreover obtain r' where r': "r' \<in> set (attempts t)" "a_id r' = attempt_id h" "a_document r' = doc"
    using handle_ok_history [OF hok begin_attempt_history [OF assms(2)]] assms(4)
    by (auto simp: handle_ok_def attempt_binding_def)
  moreover have "a_status r' \<noteq> None"
  proof
    assume "a_status r' = None"
    then obtain e where "e \<in> set (docs t)" "d_id e = doc" "d_attempt_id e = Some (attempt_id h)"
      using running_candidate [OF invt r'(1)] r'(2,3) by metis
    with doc_unique [OF db_invD(1) [OF invt] _ d(1)] d old show False by auto
  qed
  ultimately show ?thesis using att by blast
qed

theorem takeover_displaces_witness:
  "\<exists>att t. begin_attempt 300000 [119] 0 None None None ((store sample_running)\<lparr>clock := 300000\<rparr>) = Inr (att, t)
     \<and> authority t att = None \<and> authority t sample_handle \<noteq> None"
proof -
  let ?s = "exec_event sample_env (Tick 300000) sample_running"
  have s: "reach ingest_init (ingest_step sample_env) ?s"
    by (rule reach_step [OF reach_samples(2)]) (auto simp: ingest_step_def permitted_def intro: exI [of _ "Tick 300000"])
  have e: "store ?s = (store sample_running)\<lparr>clock := 300000\<rparr>" "sample_handle \<in> set (handles ?s)"
    by (simp_all add: exec_event_def sample_running_def)
  have "\<not> isl (begin_attempt 300000 [119] 0 None None None ((store sample_running)\<lparr>clock := 300000\<rparr>))"
    by code_simp
  then obtain att t where "begin_attempt 300000 [119] 0 None None None (store ?s) = Inr (att, t)"
    unfolding e by (metis isl_def obj_sumE surj_pair)
  with takeover_displaces [OF s this e(2)] show ?thesis unfolding e by (auto simp: sample_handle_def)
qed

text \<open>a worker may write only \<open>error\<close> and \<open>partial\<close>, only while it holds the lease, and the
  verdict and the release are one transaction: afterwards the run's row carries the verdict and
  the document holds no lease. Every other status is refused before anything is read.
\<close>

theorem worker_verdict_releases:
  assumes "reach ingest_init (ingest_step env) s"
    and "record_attempt_outcome h status note (store s) = Inr (ok, t)"
  shows "status \<in> {u ''error'', u ''partial''} \<and> authority (store s) h = None
     \<and> (\<exists>r\<in>set (attempts t). a_id r = attempt_id h \<and> map_option outcome_text (a_status r) = Some status
          \<and> a_note r = note)
     \<and> (\<exists>d. get_doc t (document_id h) = Some d \<and> d_attempt_id d = None \<and> d_attempt_expires_at d = None)"
proof -
  note inv = reach_db_inv [OF assms(1)]
  note I = db_invD [OF inv]
  from assms(2) show ?thesis
  proof (cases rule: record_attempt_outcome_cases)
    case (1 out)
    have out: "out \<in> {ERROR, PARTIAL}" "outcome_text out = status"
      using find_SomeD [OF 1(1) [unfolded worker_outcome_def]] by (auto simp: WORKER_WRITABLE_OUTCOMES_def)
    obtain r where r: "r \<in> set (attempts (store s))" "a_id r = attempt_id h"
      by (rule authority_running [OF inv 1(2)]) blast
    let ?f = "\<lambda>r. r\<lparr>a_status := Some out, a_note := note, a_ended_at := Some (clock (store s))\<rparr>"
    have "?f r \<in> set (attempts t)" using r 1(4) by (force simp: update_rows_def)
    then have row: "\<exists>r\<in>set (attempts t). a_id r = attempt_id h
        \<and> map_option outcome_text (a_status r) = Some status \<and> a_note r = note"
      using out(2) r(2) by (intro bexI [of _ "?f r"]) simp_all
    obtain d where d: "get_doc (store s) (document_id h) = Some d" "d_attempt_id d = Some (attempt_id h)"
      by (rule authority_NoneD [OF 1(2)]) blast
    have "get_doc t (document_id h) = Some (clear_lease d)"
      using d find_row_update_rows [of d_id clear_lease] get_doc_SomeD [OF d(1)] 1(4)
      by (simp add: get_doc_def clear_lease_def)
    moreover have "status \<in> {u ''error'', u ''partial''}" using out by auto
    ultimately show ?thesis using row 1(2) by (auto simp: clear_lease_def)
  qed
qed

theorem worker_verdict_releases_witness:
  "\<exists>t. record_attempt_outcome sample_handle (u ''error'') None (store sample_running) = Inr (True, t)
     \<and> (\<exists>d. get_doc t 0 = Some d \<and> d_attempt_id d = None)"
proof -
  have "\<not> isl (record_attempt_outcome sample_handle (u ''error'') None (store sample_running))"
    by code_simp
  then obtain ok t where t: "record_attempt_outcome sample_handle (u ''error'') None (store sample_running) = Inr (ok, t)"
    by (metis isl_def obj_sumE surj_pair)
  moreover from t have "ok = True" by (auto elim: record_attempt_outcome_cases)
  ultimately show ?thesis
    using worker_verdict_releases [OF reach_samples(2) t] by (auto simp: sample_handle_def)
qed

text \<open>a generation number is never handed out twice. Of two allocations for one document, by
  whatever runs and with whatever in between, the later returns the greater number.
\<close>

theorem generations_strictly_increase:
  assumes "reach ingest_init (ingest_step env) s"
    and "allocate_generation doc h (store s) = Inr (g, t)"
    and "(ingest_step env)\<^sup>*\<^sup>* (s\<lparr>store := t\<rparr>) w" "h \<in> set (handles s)" "document_id h = doc"
    and "allocate_generation doc h' (store w) = Inr (g', t')"
  shows "g < g'"
proof -
  have step: "ingest_step env s (s\<lparr>store := t\<rparr>)"
    unfolding ingest_step_def
    by (rule exI [of _ "Allocate h"]) (use assms(2,4,5) in \<open>simp add: permitted_def exec_event_def\<close>)
  note reach' = reach_step [OF assms(1) step]
  obtain d where d: "get_doc (store s) doc = Some d" "g = Suc (d_last_generation d)"
      "t = update_doc doc (\<lambda>e. e\<lparr>d_last_generation := Suc (d_last_generation e)\<rparr>) (store s)"
    using assms(2) by (auto simp: allocate_generation_def split: option.splits)
  let ?f = "\<lambda>e. e\<lparr>d_last_generation := Suc (d_last_generation e)\<rparr>"
  have "?f d \<in> set (docs t)"
    using get_doc_SomeD [OF d(1)] d(3) by (force simp: update_doc_def update_rows_def)
  moreover have "docs_grow (docs t) (docs (store w))"
    using later_history [OF reach' assms(3)] by (simp add: history_def)
  ultimately obtain e where e: "e \<in> set (docs (store w))" "doc_grows (?f d) e"
    unfolding docs_grow_def by blast
  have "get_doc (store w) doc = Some e"
    using get_doc_eq [OF db_invD(1) [OF reach_db_inv [OF reach_later [OF reach' assms(3)]]] e(1)]
      e(2) get_doc_SomeD [OF d(1)] by (simp add: doc_grows_def)
  then have "g' = Suc (d_last_generation e)"
    using assms(6) by (auto simp: allocate_generation_def split: option.splits)
  with e(2) d(2) show ?thesis by (simp add: doc_grows_def)
qed

theorem generations_strictly_increase_witness:
  "\<exists>t t'. allocate_generation 0 sample_handle (store sample_running) = Inr (1, t)
     \<and> allocate_generation 0 sample_handle t = Inr (2, t') \<and> (1::nat) < 2"
proof -
  obtain t where t: "allocate_generation 0 sample_handle (store sample_running) = Inr (1, t)"
    by (simp add: allocate_generation_def sample_handle_def sample_running_def sample_document_def
        authority_def get_doc_def)
  then obtain t' where t': "allocate_generation 0 sample_handle t = Inr (2, t')"
    by (auto simp: allocate_generation_def sample_handle_def sample_running_def sample_document_def
        authority_def get_doc_def update_doc_def)
  have "sample_handle \<in> set (handles sample_running)" "document_id sample_handle = 0"
    by (simp_all add: sample_running_def sample_handle_def)
  with generations_strictly_increase [OF reach_samples(2) t, of "sample_running\<lparr>store := t\<rparr>" sample_handle 2 t'] t'
  have "(1::nat) < 2" by simp
  with t t' show ?thesis by blast
qed

section \<open>Chunks and promotion\<close>

lemma handle_version:
  assumes "db_inv s" "handle_ok s h" "has_version s doc (candidate_id h)"
  shows "doc = document_id h"
  using assms version_unique [OF db_invD(1) [OF assms(1)]] unfolding has_version_def handle_ok_def by metis

text \<open>a run can add chunks only to its own document and under its own candidate. Whatever rows
  it passes, a batch it manages to write appends rows of its document and version and changes
  no stored row, and so does a copy.
\<close>

theorem run_writes_its_own_version:
  assumes "reach ingest_init (ingest_step env) s" "h \<in> set (handles s)"
    and "upsert_chunks rows h (store s) = Inr (r, t) \<or> copy_chunks_into_generation rows h (store s) = Inr (n, t)"
  shows "\<exists>new. t = (store s)\<lparr>chunks := chunks (store s) @ new\<rparr>
     \<and> (\<forall>c\<in>set new. c_document c = document_id h \<and> c_version c = Some (candidate_id h))"
proof -
  note inv = reach_db_inv [OF assms(1)]
  note hv = handle_version [OF inv reach_handle_ok [OF assms(1,2)]]
  from assms(3) obtain new where "t = (store s)\<lparr>chunks := chunks (store s) @ new\<rparr>"
      "\<forall>c\<in>set new. c_version c = Some (candidate_id h) \<and> has_version (store s) (c_document c) (candidate_id h)"
    by (elim disjE) (metis upsert_chunks_suffix, metis copy_chunks_suffix)
  with hv show ?thesis by blast
qed

theorem run_writes_its_own_version_witness:
  "\<exists>t. upsert_chunks [sample_chunk] sample_handle (store sample_running) = Inr ((), t)
     \<and> (\<exists>new. t = (store sample_running)\<lparr>chunks := chunks (store sample_running) @ new\<rparr>
          \<and> (\<forall>c\<in>set new. c_document c = 0 \<and> c_version c = Some 1))"
proof -
  have "\<not> isl (upsert_chunks [sample_chunk] sample_handle (store sample_running))" by code_simp
  then obtain t where t: "upsert_chunks [sample_chunk] sample_handle (store sample_running) = Inr ((), t)"
    by (metis isl_def obj_sumE surj_pair old.unit.exhaust)
  have h: "sample_handle \<in> set (handles sample_running)" by (simp add: sample_running_def)
  from run_writes_its_own_version [OF reach_samples(2) h disjI1 [OF t]] t show ?thesis
    by (simp add: sample_handle_def)
qed

text \<open>C24: what a promotion leaves. It served the generation its run observed; afterwards the
  document serves exactly the manifest's rows under the candidate and its digest, one revision
  later, with status done and no lease; the run is closed as done; the rows of other documents
  are untouched and the returned number is the number of swept rows.
\<close>

theorem promotion_serves_manifest:
  assumes "reach ingest_init (ingest_step env) s"
    and "promote_generation doc gen expected manifest sha (Some candidate) (Some attempt) (store s) = Inr (n, t)"
  shows "\<exists>d d'. get_doc (store s) doc = Some d \<and> d_active_generation d = expected
     \<and> get_doc t doc = Some d' \<and> d' = promoted candidate gen sha d
     \<and> set (map c_id (chunks_of t doc (Some candidate) gen)) = set manifest
     \<and> (\<exists>r\<in>set (attempts t). a_id r = attempt \<and> a_status r = Some DONE)
     \<and> filter (\<lambda>c. c_document c \<noteq> doc) (chunks t) = filter (\<lambda>c. c_document c \<noteq> doc) (chunks (store s))
     \<and> length (chunks t) + n = length (chunks (store s))"
  using assms(2)
proof (cases rule: promote_cases)
  case (1 c' a' r d s1)
  note I = db_invD [OF reach_db_inv [OF assms(1)]]
  note fr = activation_trigger_frame [OF 1(16)]
  have same: "c' = candidate" "a' = attempt" using 1(1,2) by simp_all
  have d: "get_doc (store s) doc = Some d" by (rule get_doc_eq [OF I(1) 1(11,12)])
  have "docs t = update_rows (\<lambda>e. d_id e = doc) (promoted candidate gen sha) (docs (store s))"
    using 1(17) fr(1) same by (simp add: update_doc_def)
  then have d': "get_doc t doc = Some (promoted candidate gen sha d)"
    using d 1(12) by (simp add: get_doc_def find_row_update_rows)
  have cs: "chunks t = filter (\<lambda>c. \<not> swept doc gen candidate s1 c) (chunks (store s))"
    using 1(17) fr(4) same by (simp add: update_doc_def)
  have "chunks_of t doc (Some candidate) gen = chunks_of (store s) doc (Some candidate) gen"
    unfolding chunks_of_def cs filter_filter by (rule filter_cong) (auto simp: swept_def)
  then have man: "set (map c_id (chunks_of t doc (Some candidate) gen)) = set manifest"
    using 1(5) same by simp
  have others: "filter (\<lambda>c. c_document c \<noteq> doc) (chunks t) = filter (\<lambda>c. c_document c \<noteq> doc) (chunks (store s))"
    unfolding cs filter_filter by (rule filter_cong) (auto simp: swept_def)
  have "r\<lparr>a_status := Some DONE, a_ended_at := Some (clock s1)\<rparr> \<in> set (attempts t)"
    using 1(6-10,17) fr(2) by (force simp: update_rows_def update_doc_def)
  then have row: "\<exists>r\<in>set (attempts t). a_id r = attempt \<and> a_status r = Some DONE"
    using 1(7) same by (intro bexI) auto
  have "length (chunks t) + n = length (chunks (store s))"
    using 1(18) fr(4) same cs sum_length_filter_compl [of "swept doc gen candidate s1" "chunks (store s)"]
    by (simp add: update_doc_def)
  with d d' 1(13) man others row show ?thesis by blast
qed

theorem promotion_serves_manifest_witness:
  "\<exists>t. promote_generation 0 1 0 [77] sample_sha (Some 1) (Some 2) (store sample_staged) = Inr (0, t)
     \<and> set (map c_id (chunks_of t 0 (Some 1) 1)) = {77}"
proof -
  have "(case promote_generation 0 1 0 [77] sample_sha (Some 1) (Some 2) (store sample_staged) of
      Inl _ \<Rightarrow> None | Inr (n, _) \<Rightarrow> Some n) = Some 0" by code_simp
  then obtain t where t: "promote_generation 0 1 0 [77] sample_sha (Some 1) (Some 2) (store sample_staged) = Inr (0, t)"
    by (auto split: sum.splits)
  from promotion_serves_manifest [OF reach_samples(3) t] t show ?thesis by auto
qed

text \<open>\<open>promote_generation\<close> documents that a run whose candidate moved is refused as fenced. It
  never is: the row check that precedes the swap finds the fenced run closed, so in every
  reachable state a promotion under an issued handle is refused as a lost lease, or as an
  inconsistent record if the run had its own verdict, and never as fenced.
\<close>

theorem promotion_never_reports_fenced:
  assumes "reach ingest_init (ingest_step env) s" "h \<in> set (handles s)"
  shows "promote_generation (document_id h) gen expected manifest sha (Some (candidate_id h))
      (Some (attempt_id h)) (store s) \<noteq> Inl AttemptFenced"
proof
  note inv = reach_db_inv [OF assms(1)]
  note I = db_invD [OF inv]
  let ?p = "\<lambda>r. a_id r = attempt_id h \<and> a_document r = document_id h \<and> a_candidate r = candidate_id h"
  let ?res = "promote_generation (document_id h) gen expected manifest sha (Some (candidate_id h))
      (Some (attempt_id h)) (store s)"
  assume fenced: "?res = Inl AttemptFenced"
  then have pre: "manifest \<noteq> []" "sha \<noteq> []"
      "set (map c_id (chunks_of (store s) (document_id h) (Some (candidate_id h)) gen)) = set manifest"
    by (auto simp: promote_generation_def split: if_splits)
  from fenced pre obtain r where r: "find ?p (attempts (store s)) = Some r" "a_status r = None"
    by (auto simp: promote_generation_def split: if_splits option.splits)
  from find_SomeD [OF r(1)] have row: "r \<in> set (attempts (store s))" "a_document r = document_id h"
      "a_candidate r = candidate_id h" "a_id r = attempt_id h" by auto
  obtain d where d: "d \<in> set (docs (store s))" "d_id d = document_id h"
      "d_attempt_id d = Some (attempt_id h)" "d_candidate_id d = Some (candidate_id h)"
    using running_candidate [OF inv row(1) r(2)] row by metis
  have g: "get_doc (store s) (document_id h) = Some d" by (rule get_doc_eq [OF I(1) d(1,2)])
  have ex: "explain_failed_promotion (store s) (document_id h) (candidate_id h) (attempt_id h) \<noteq> AttemptFenced"
    using g d by (simp add: explain_failed_promotion_def)
  have trig: "activation_trigger old new x \<noteq> Inl AttemptFenced" for old new x
    by (auto simp: activation_trigger_def Let_def split: if_splits option.splits)
  from fenced pre r ex trig show False
    by (auto simp: promote_generation_def Let_def split: if_splits option.splits sum.splits)
qed

theorem promotion_never_reports_fenced_witness:
  "promote_generation 0 1 0 [77] sample_sha (Some 1) (Some 2) (store sample_fenced) = Inl AttemptLeaseLost
     \<and> promote_generation 0 1 0 [77] sample_sha (Some 1) (Some 2) (store sample_fenced) \<noteq> Inl AttemptFenced"
proof
  show "promote_generation 0 1 0 [77] sample_sha (Some 1) (Some 2) (store sample_fenced) = Inl AttemptLeaseLost"
    by code_simp
  have "sample_handle \<in> set (handles sample_fenced)" by (simp add: sample_fenced_def)
  from promotion_never_reports_fenced [OF reach_samples(6) this, of 1 0 "[77]" sample_sha]
  show "promote_generation 0 1 0 [77] sample_sha (Some 1) (Some 2) (store sample_fenced) \<noteq> Inl AttemptFenced"
    by (simp add: sample_handle_def)
qed

text \<open>A row whose key is stored under other versions only finds no predecessor: it is not copied.\<close>

definition elsewhere :: "uuid \<Rightarrow> uuid \<Rightarrow> uuid \<Rightarrow> db \<Rightarrow> bool" where
  "elsewhere doc key version s \<longleftrightarrow> (\<forall>c\<in>set (chunks s). c_document c = doc \<longrightarrow> c_content_key c = Some key \<longrightarrow>
     c_version c \<noteq> None \<and> c_version c \<noteq> Some version)"

definition alone :: "chunk \<Rightarrow> chunk list \<Rightarrow> bool" where
  "alone x rows \<longleftrightarrow> (\<forall>r\<in>set rows. c_id r = c_id x \<or> (c_document r = c_document x
     \<and> c_content_key r = c_content_key x) \<longrightarrow> r = x)"

lemma no_predecessor:
  assumes "elsewhere (c_document x) key version s" "c_content_key x = Some key"
  shows "predecessor s version x = None"
proof -
  have "filter (\<lambda>c. c_document c = c_document x \<and> (c_version c = Some version \<or> c_version c = None)
         \<and> c_content_key x \<noteq> None \<and> c_content_key c = c_content_key x
         \<and> c_fingerprint x \<noteq> None \<and> c_fingerprint c = c_fingerprint x) (chunks s) = []"
    using assms by (auto simp: elsewhere_def filter_empty_conv)
  then show ?thesis by (simp add: predecessor_def)
qed

lemma copy_rows_skips:
  assumes "copy_rows version rows s = Inr (n, s')" "alone x rows" "c_content_key x = Some key"
    and "elsewhere (c_document x) key version s" "c_id x \<notin> c_id ` set (chunks s)"
  shows "c_id x \<notin> c_id ` set (chunks s')"
  using assms
proof (induction rows arbitrary: s n)
  case (Cons r rs)
  have rs: "alone x rs" using Cons.prems(2) by (simp add: alone_def)
  show ?case
  proof (cases "predecessor s version r")
    case None
    with Cons.prems(1) have "copy_rows version rs s = Inr (n, s')" by simp
    from Cons.IH [OF this rs Cons.prems(3-5)] show ?thesis .
  next
    case (Some p)
    let ?c = "r\<lparr>c_version := Some version, c_dense := c_dense p, c_sparse := c_sparse p\<rparr>"
    from Some Cons.prems(1) obtain k m s1 where first: "insert_chunk ?c s = Inr (k, s1)"
        and rest: "copy_rows version rs s1 = Inr (m, s')"
      by (auto split: sum.splits prod.splits)
    have "r \<noteq> x" using Some no_predecessor [OF Cons.prems(4,3)] by auto
    then have r: "c_id r \<noteq> c_id x" "c_document r = c_document x \<longrightarrow> c_content_key r \<noteq> Some key"
      using Cons.prems(2,3) unfolding alone_def by (auto simp del: fun_upd_apply)
    from first have "elsewhere (c_document x) key version s1 \<and> c_id x \<notin> c_id ` set (chunks s1)"
    proof (cases rule: insert_chunk_cases)
      case there
      with Cons.prems(4,5) show ?thesis by simp
    next
      case added
      with Cons.prems(4,5) r show ?thesis by (auto simp: elsewhere_def)
    qed
    with Cons.IH [OF rest rs Cons.prems(3)] show ?thesis by blast
  qed
qed simp

text \<open>C25: an edited document that keeps one passage cannot be replaced. The lookup of reusable
  content keys ignores versions, so a passage stored under the previous version only is sent
  to the copy; the copy takes rows of this version or of none, finds nothing and stores
  nothing, without an error; and every promotion whose manifest names the passage is refused
  for a mismatch.
\<close>

theorem kept_passage_blocks_replacement:
  assumes "c \<in> set (chunks s)" "c_document c = c_document x" "c_content_key c = Some key"
    and "c_fingerprint c = c_fingerprint x" "c_fingerprint x \<noteq> None" "c_content_key x = Some key"
    and "elsewhere (c_document x) key (candidate_id h) s" "c_id x \<notin> c_id ` set (chunks s)"
    and "x \<in> set rows" "alone x rows"
    and "copy_chunks_into_generation rows h s = Inr (n, t)"
  shows "key \<in> set (existing_content_keys s (c_document x) (c_fingerprint x))
     \<and> c_id x \<notin> c_id ` set (chunks t)
     \<and> (\<forall>gen manifest sha. c_id x \<in> set manifest \<longrightarrow> sha \<noteq> [] \<longrightarrow>
          promote_generation (c_document x) gen (observed_active h) manifest sha (Some (candidate_id h))
            (Some (attempt_id h)) t = Inl (ValueError ''manifest uyusmuyor''))"
proof -
  have "copy_rows (candidate_id h) rows s = Inr (n, t)"
    using assms(11) by (auto simp: copy_chunks_into_generation_def split: option.splits)
  then have gone: "c_id x \<notin> c_id ` set (chunks t)"
    using assms(10,6,7,8) by (rule copy_rows_skips)
  then have "set (map c_id (chunks_of t (c_document x) v gen)) \<noteq> set manifest"
    if "c_id x \<in> set manifest" for v gen manifest
    using that by (auto simp: chunks_of_def)
  moreover have "key \<in> set (existing_content_keys s (c_document x) (c_fingerprint x))"
    using assms(1-5) by (force simp: existing_content_keys_def map_filter_def)
  ultimately show ?thesis using gone by (auto simp: promote_generation_def)
qed

text \<open>The replaced sample document, re-parsed with the same passage under its next generation.\<close>

definition kept_passage :: chunk where
  "kept_passage = sample_chunk\<lparr>c_id := 78, c_generation := 2\<rparr>"

theorem kept_passage_blocks_replacement_witness:
  "\<exists>t. copy_chunks_into_generation [kept_passage] sample_handle2 (store sample_replaced) = Inr (0, t)
     \<and> promote_generation 0 2 1 [78] other_sha (Some 4) (Some 5) t = Inl (ValueError ''manifest uyusmuyor'')"
proof -
  let ?s = "store sample_replaced"
  have t: "copy_chunks_into_generation [kept_passage] sample_handle2 ?s = Inr (0, ?s)"
    by code_simp
  have row: "sample_stored \<in> set (chunks ?s)" "c_document sample_stored = c_document kept_passage"
      "c_content_key sample_stored = Some 5" "c_fingerprint sample_stored = c_fingerprint kept_passage"
      "c_fingerprint kept_passage \<noteq> None" "c_content_key kept_passage = Some 5"
      "elsewhere (c_document kept_passage) 5 (candidate_id sample_handle2) ?s"
      "c_id kept_passage \<notin> c_id ` set (chunks ?s)" "kept_passage \<in> set [kept_passage]"
      "alone kept_passage [kept_passage]"
    by (simp_all add: sample_replaced_def sample_stored_def kept_passage_def sample_chunk_def elsewhere_def
        alone_def sample_handle2_def)
  have "c_id kept_passage = 78" "c_document kept_passage = 0" "other_sha \<noteq> []"
    by (simp_all add: kept_passage_def sample_chunk_def other_sha_def)
  with kept_passage_blocks_replacement [OF row t] t show ?thesis
    by (simp add: sample_handle2_def)
qed

section \<open>Manual activation, archive\<close>

text \<open>a manual activation that reports a change moved the served pointer once, to the newest
  ready build of the version, with the proven digest and one revision later, logged the move,
  and touched no run, version, chunk or job; a second activation on the same expected revision
  is refused as a conflict.
\<close>

theorem activation_switches_once:
  assumes "reach ingest_init (ingest_step env) s"
    and "activate_document_version doc version expected sha (store s) = Inr (Some a, t)" "act_changed a"
    and "hex64 sha'"
  shows "\<exists>d v b. get_doc (store s) doc = Some d \<and> activation_target (store s) doc version = Some (v, b)
     \<and> v_sha v = sha \<and> get_doc t doc = Some (activated version (b_generation b) sha d)
     \<and> attempts t = attempts (store s) \<and> versions t = versions (store s) \<and> chunks t = chunks (store s)
     \<and> jobs t = jobs (store s)
     \<and> events t = events (store s) @ [\<lparr>e_document = doc, e_type = Activated,
         e_from = d_active_version_id d, e_to = version, e_expected = nat expected,
         e_resulting = Suc (nat expected)\<rparr>]
     \<and> activate_document_version doc version' expected sha' t = Inl DocumentVersionConflict"
  using assms(2)
proof (cases rule: activate_cases)
  case nothing_done
  with assms(3) show ?thesis by simp
next
  case (changed d v b)
  note fr = activation_trigger_frame [OF changed(8)]
  note d = get_doc_SomeD [OF changed(1)]
  have "get_doc t doc = Some (activated version (b_generation b) sha d)"
    using changed(1) fr(1) by (simp add: get_doc_def update_doc_def find_row_update_rows d)
  moreover from changed(8) have "events t = events (store s) @ [\<lparr>e_document = doc, e_type = Activated,
         e_from = d_active_version_id d, e_to = version, e_expected = nat expected,
         e_resulting = Suc (nat expected)\<rparr>]"
  proof (cases rule: activation_trigger_cases)
    case unmoved
    with changed(10) show ?thesis by simp
  next
    case purged
    then show ?thesis by simp
  next
    case (moved version' v' b' bs)
    then show ?thesis using d changed(4) by (auto simp: update_doc_def)
  qed
  moreover have "activate_document_version doc version' expected sha' t = Inl DocumentVersionConflict"
    using calculation(1) changed(2-4) assms(4)
    by (simp add: activate_document_version_def version_counter_def version_hash_def activated_def)
  ultimately show ?thesis using changed(1,6,7) fr by (simp add: update_doc_def)
qed

theorem activation_switches_once_witness:
  "\<exists>t. activate_document_version 0 1 2 sample_sha (store sample_second)
       = Inr (Some \<lparr>act_generation = 1, act_revision = 3, act_changed = True\<rparr>, t)
     \<and> chunks t = chunks (store sample_second)
     \<and> activate_document_version 0 4 2 other_sha t = Inl DocumentVersionConflict"
proof -
  have "(case activate_document_version 0 1 2 sample_sha (store sample_second) of
      Inl _ \<Rightarrow> None | Inr (r, _) \<Rightarrow> r) = Some \<lparr>act_generation = 1, act_revision = 3, act_changed = True\<rparr>"
    by code_simp
  then obtain t where t: "activate_document_version 0 1 2 sample_sha (store sample_second)
      = Inr (Some \<lparr>act_generation = 1, act_revision = 3, act_changed = True\<rparr>, t)"
    by (auto split: sum.splits)
  have "hex64 other_sha" by code_simp
  with activation_switches_once [OF reach_samples(8) t, of other_sha 4] t show ?thesis by auto
qed

lemma archived_refuses:
  assumes "get_doc s doc = Some d" "d_archived_at d \<noteq> None"
  shows "isl (begin_attempt ttl dflt doc owner job worker s)"
    and "\<forall>j\<in>set (jobs s). j_document j = doc \<longrightarrow> j_key j \<noteq> sha256 key \<Longrightarrow> isl (enqueue_ingest_job sha256 doc key s)"
    and "activate_document_version doc version expected sha s \<noteq> Inr (Some a, t)"
proof -
  show "isl (begin_attempt ttl dflt doc owner job worker s)"
    using assms by (auto simp: begin_attempt_def)
  show "activate_document_version doc version expected sha s \<noteq> Inr (Some a, t)"
    using assms by (auto simp: activate_document_version_def split: option.splits)
  assume unused: "\<forall>j\<in>set (jobs s). j_document j = doc \<longrightarrow> j_key j \<noteq> sha256 key"
  show "isl (enqueue_ingest_job sha256 doc key s)"
  proof (cases "job_key_digest sha256 key")
    case (Inr digest)
    then have "digest = sha256 key" by (auto simp: job_key_digest_def split: if_splits)
    with unused have "find (\<lambda>j. j_document j = doc \<and> j_key j = digest) (jobs s) = None"
      by (auto simp: find_None_iff)
    with assms Inr show ?thesis by (simp add: enqueue_ingest_job_def)
  qed (simp add: enqueue_ingest_job_def)
qed

text \<open>C26: archive and ingest exclude each other. In every reachable state of the ingest operations an
  archived document has no lease, no attempt without a verdict and no queued or running job, and it
  refuses a new run, a new job under an unused key and an activation; a document that is not archived
  and has a lease or a queued or running job refuses to be archived.
\<close>

theorem archive_excludes_ingest:
  assumes "reach ingest_init (ingest_step env) s" "get_doc (store s) doc = Some d"
  shows "if d_archived_at d = None
     then d_attempt_id d \<noteq> None \<or> has_active_job (store s) doc \<longrightarrow> isl (set_document_archived doc True (store s))
     else d_attempt_id d = None \<and> \<not> has_active_job (store s) doc
       \<and> (\<forall>r\<in>set (attempts (store s)). a_document r = doc \<longrightarrow> a_status r \<noteq> None)
       \<and> isl (begin_attempt ttl dflt doc owner job worker (store s))
       \<and> ((\<forall>j\<in>set (jobs (store s)). j_document j = doc \<longrightarrow> j_key j \<noteq> sha256 key) \<longrightarrow>
            isl (enqueue_ingest_job sha256 doc key (store s)))
       \<and> (\<forall>a t. activate_document_version doc version expected sha (store s) \<noteq> Inr (Some a, t))"
proof (cases "d_archived_at d = None")
  case True
  with assms(2) show ?thesis by (auto simp: set_document_archived_def)
next
  case False
  note d = get_doc_SomeD [OF assms(2)]
  have inv: "db_inv (store s)" "archives_idle (store s)"
    using archives.reach_inv [OF assms(1)] by (simp_all add: system_inv_def)
  then have idle: "d_attempt_id d = None" "\<not> has_active_job (store s) doc"
    using d False by (auto simp: archives_idle_def)
  have "a_status r \<noteq> None" if r: "r \<in> set (attempts (store s))" "a_document r = doc" for r
  proof
    assume "a_status r = None"
    from running_candidate [OF inv(1) r(1) this] obtain e where
      e: "e \<in> set (docs (store s))" "d_id e = doc" "d_attempt_id e = Some (a_id r)" using r(2) by metis
    with doc_unique [OF db_invD(1) [OF inv(1)] e(1), of d] d idle(1) show False by auto
  qed
  with archived_refuses [OF assms(2) False] idle False show ?thesis by simp
qed

text \<open>The running document is not archived; the published one, once archived, starts no run.\<close>

theorem archive_excludes_ingest_witness:
  "isl (set_document_archived 0 True (store sample_running))
     \<and> isl (begin_attempt 300000 [119] 0 None None None (store (exec_event sample_env (Archive 0 True) sample_published)))"
proof -
  let ?t = "exec_event sample_env (Archive 0 True) sample_published"
  have "run_events sample_env [Archive 0 True] sample_published = Some ?t" by (simp add: permitted_def)
  note t = reach_run [OF reach_samples(1) this]
  have "map_option (\<lambda>d. (d_archived_at d = None, d_attempt_id d = None)) (get_doc (store sample_running) 0) = Some (True, False)"
    "map_option (\<lambda>d. d_archived_at d = None) (get_doc (store ?t) 0) = Some False" by code_simp+
  then obtain d e where d: "get_doc (store sample_running) 0 = Some d" "d_archived_at d = None" "d_attempt_id d \<noteq> None"
    and e: "get_doc (store ?t) 0 = Some e" "d_archived_at e \<noteq> None" by auto
  from archive_excludes_ingest [OF reach_samples(2) d(1)] d(2,3)
    archive_excludes_ingest [OF t e(1), of 300000 "[119]" None None None] e(2) show ?thesis by simp
qed

section \<open>The job queue\<close>

text \<open>enqueueing is idempotent for good. Once a key was accepted for a document, every later
  request under the same key, after any run of the system and whatever became of the job,
  returns that job and leaves the database as it is.
\<close>

theorem enqueue_is_idempotent:
  assumes "reach ingest_init (ingest_step env) s"
    and "enqueue_ingest_job (env_sha256 env) doc key (store s) = Inr (Some v, t)"
    and "(ingest_step env)\<^sup>*\<^sup>* (s\<lparr>store := t\<rparr>) w"
  shows "\<exists>v'. enqueue_ingest_job (env_sha256 env) doc key (store w) = Inr (Some v', store w)
     \<and> jv_job_id v' = jv_job_id v \<and> jv_candidate_id v' = jv_candidate_id v"
proof -
  let ?h = "env_sha256 env key"
  have step: "ingest_step env s (s\<lparr>store := t\<rparr>)"
    unfolding ingest_step_def
    by (rule exI [of _ "Enqueue doc key"]) (use assms(2) in \<open>simp add: permitted_def exec_event_def\<close>)
  note reach' = reach_step [OF assms(1) step]
  note invw = reach_db_inv [OF reach_later [OF reach' assms(3)]]
  have k: "job_key_digest (env_sha256 env) key = Inr ?h"
    using assms(2) by (auto simp: enqueue_ingest_job_def job_key_digest_def split: if_splits)
  obtain j where j: "j \<in> set (jobs t)" "j_document j = doc" "j_key j = ?h" "v = public_job j"
    using assms(2)
  proof (cases rule: enqueue_cases)
    case kept
    with that show ?thesis by auto
  next
    case (added d candidate sha j)
    from added(10,11) show ?thesis by (intro that [of j]) (simp_all add: added(9))
  qed
  obtain d where d: "d \<in> set (docs t)" "d_id d = doc"
    using assms(2)
  proof (cases rule: enqueue_cases)
    case kept
    then have "get_doc (store s) doc \<noteq> None"
      using assms(2) k by (auto simp: enqueue_ingest_job_def split: option.splits)
    with kept that show ?thesis by (auto dest: get_doc_SomeD)
  next
    case (added d candidate sha j)
    with that get_doc_SomeD [OF added(1)] show ?thesis by auto
  qed
  from later_history [OF reach' assms(3)] have h: "docs_grow (docs t) (docs (store w))" "jobs_grow (jobs t) (jobs (store w))"
    by (simp_all add: history_def)
  from h(1) d obtain d' where "d' \<in> set (docs (store w))" "d_id d' = doc"
    unfolding docs_grow_def doc_grows_def by metis
  then have g: "get_doc (store w) doc = Some d'"
    using get_doc_eq [OF db_invD(1) [OF invw]] by simp
  from h(2) j(1) obtain j' where j': "j' \<in> set (jobs (store w))" "job_binding j' = job_binding j"
    unfolding jobs_grow_def by blast
  obtain x where x: "find (\<lambda>j. j_document j = doc \<and> j_key j = ?h) (jobs (store w)) = Some x"
    using j' j(2,3) by (cases "find (\<lambda>j. j_document j = doc \<and> j_key j = ?h) (jobs (store w))")
      (auto simp: find_None_iff job_binding_def)
  have "x = j'"
    using find_SomeD [OF x] db_invD(6) [OF invw] j' j(2,3) job_unique [OF invw]
    unfolding jobs_ok_def job_binding_def by (metis prod.inject)
  with x g k j' j(4) show ?thesis
    by (auto simp: enqueue_ingest_job_def public_job_def job_binding_def)
qed

theorem enqueue_is_idempotent_witness:
  "\<exists>v v'. enqueue_ingest_job (env_sha256 sample_env) 0 [107] (store sample_published) = Inr (Some v, store sample_queued)
     \<and> enqueue_ingest_job (env_sha256 sample_env) 0 [107] (store sample_queued) = Inr (Some v', store sample_queued)
     \<and> jv_job_id v' = jv_job_id v"
proof -
  obtain v where v: "enqueue_ingest_job (env_sha256 sample_env) 0 [107] (store sample_published)
      = Inr (Some v, store sample_queued)"
    by (simp add: sample_published_def sample_queued_def sample_document_def sample_version_def sample_sha_def
      sample_env_def enqueue_ingest_job_def job_key_digest_def strip_def lstrip_def
      rstrip_def is_space_def is_control_def is_surrogate_def get_doc_def has_active_job_def has_version_def
      uuid4_def Let_def)
  from enqueue_is_idempotent [OF reach_samples(1) v rtranclp.rtrancl_refl] v show ?thesis by auto
qed

lemma lapsed_clock: "clock t = clock s \<Longrightarrow> lapsed t = lapsed s"
  by (rule ext) (simp add: lapsed_def split: option.splits)

lemma next_job_oldest:
  assumes "next_job most s = Some j" "j' \<in> set (jobs s)" "j_status j' = Queued \<or> lapsed s j'"
    and "int (j_attempt_count j') < most"
  shows "j_created_at j \<le> j_created_at j'"
proof -
  let ?js = "filter (\<lambda>j. (j_status j = Queued \<or> lapsed s j) \<and> int (j_attempt_count j) < most) (jobs s)"
  from assms(1) obtain rest where r: "sort_key j_created_at (sort_key j_id ?js) = j # rest"
    by (auto simp: next_job_def split: list.splits)
  have "set (j # rest) = set ?js" using arg_cong [OF r, of set] by simp
  then have "j' \<in> set (j # rest)" using assms(2-4) by simp
  moreover have "sorted (map j_created_at (j # rest))"
    using sorted_sort_key [of j_created_at "sort_key j_id ?js"] r by simp
  ultimately show ?thesis by auto
qed

text \<open>C27: a claim hands the worker the oldest eligible job within its budget. The claimed job was
  queued, or running with a lapsed lease; it had attempts left; no other such job is older; it
  is running afterwards under the stripped worker name with a live lease and one attempt more,
  never beyond the budget; and no running job with a lapsed lease and no budget is left.
\<close>

theorem claim_takes_oldest_within_budget:
  assumes "reach ingest_init (ingest_step env) s"
    and "claim_ingest_job cf worker secs most (store s) = Inr (Some cj, t)"
  shows "\<exists>j\<in>set (jobs (store s)). (j_status j = Queued \<or> lapsed (store s) j)
     \<and> int (j_attempt_count j) < most
     \<and> (\<forall>j'\<in>set (jobs (store s)). (j_status j' = Queued \<or> lapsed (store s) j') \<longrightarrow>
          int (j_attempt_count j') < most \<longrightarrow> j_created_at j \<le> j_created_at j')
     \<and> get_job t (j_id j) = Some (take_job (strip worker) (clock (store s)) (1000 * secs) j)
     \<and> cj_job cj = public_job (take_job (strip worker) (clock (store s)) (1000 * secs) j)
     \<and> (\<forall>j'\<in>set (jobs t). lapsed t j' \<longrightarrow> int (j_attempt_count j') < most)"
  using assms(2)
proof (cases rule: claim_cases)
  case empty
  then show ?thesis by simp
next
  case (taken j0)
  note inv = reach_db_inv [OF assms(1)]
  let ?s1 = "close_exhausted most (store s)"
  let ?take = "take_job (strip worker) (clock (store s)) (1000 * secs)"
  note inv1 = close_exhausted_inv [OF inv, of most]
  note j0 = next_job_SomeD [OF taken(1)]
  have clk: "clock ?s1 = clock (store s)" by (simp add: close_exhausted_def)
  have lap: "lapsed ?s1 j = lapsed (store s) j" for j using lapsed_clock [OF clk] by simp
  have keep: "j \<in> set (jobs ?s1)" if "j \<in> set (jobs (store s))" "int (j_attempt_count j) < most" for j
    using that by (force simp: close_exhausted_def set_update_rows)
  have before: "j \<in> set (jobs (store s))" if "j \<in> set (jobs ?s1)" "j_status j \<noteq> Failed" for j
    using that by (auto simp: close_exhausted_def set_update_rows)
  have "j_status j0 \<noteq> Failed" using j0(2) by (auto simp: lapsed_def)
  then have in0: "j0 \<in> set (jobs (store s))" using before j0(1) by blast
  have get: "get_job t (j_id j0) = Some (?take j0)"
    using find_row_update_rows [of j_id ?take "j_id j0" "\<lambda>r. j_id r = j_id j0" "jobs ?s1"]
      get_job_eq [OF inv1 j0(1)] taken(4) by (simp add: get_job_def)
  have "0 < secs"
    using assms(2) by (auto simp: claim_ingest_job_def job_lease_ok_def split: sum.splits if_splits)
  then have "\<not> lapsed t (?take j)" for j
    using taken(4) clk by (simp add: lapsed_def take_job_def)
  moreover have "int (j_attempt_count j') < most" if "j' \<in> set (jobs ?s1)" "lapsed ?s1 j'" for j'
    using that by (auto simp: close_exhausted_def set_update_rows lapsed_def split: option.splits)
  moreover have "lapsed t j' = lapsed ?s1 j'" for j'
    using lapsed_clock [of t ?s1] taken(4) by simp
  ultimately have rest: "\<forall>j'\<in>set (jobs t). lapsed t j' \<longrightarrow> int (j_attempt_count j') < most"
    using taken(4) by (auto simp: set_update_rows)
  have old: "j_created_at j0 \<le> j_created_at j'" if "j' \<in> set (jobs (store s))"
      "j_status j' = Queued \<or> lapsed (store s) j'" "int (j_attempt_count j') < most" for j'
    using next_job_oldest [OF taken(1) keep [OF that(1,3)]] that(2,3) lap by blast
  from taken(2,3) have "cj_job cj = public_job (?take j0)" by simp
  with in0 j0 lap get rest old show ?thesis by (intro bexI [of _ j0]) auto
qed

theorem claim_takes_oldest_within_budget_witness:
  "\<exists>cj t. claim_ingest_job (\<lambda>x. x) [119] 300 3 (store sample_queued) = Inr (Some cj, t)
     \<and> jv_status (cj_job cj) = Running"
proof -
  obtain cj t where c: "claim_ingest_job (\<lambda>x. x) [119] 300 3 (store sample_queued) = Inr (Some cj, t)"
    by (simp add: claim_ingest_job_def canonical_label_def strip_def lstrip_def rstrip_def is_space_def
      is_control_def job_lease_ok_def max_attempts_ok_def sample_queued_def close_exhausted_def next_job_def
      lapsed_def Let_def)
  from claim_takes_oldest_within_budget [OF reach_samples(7) c] c show ?thesis
    by (auto simp: public_job_def)
qed

text \<open>a worker that lost its job cannot touch it. After another worker claimed the job, the
  first one's heartbeat and terminal write report failure and change nothing, and its retry is
  refused.
\<close>

theorem displaced_worker_is_powerless:
  assumes "\<And>j. j \<in> set (jobs s) \<Longrightarrow> j_id j = i \<Longrightarrow> j_worker j \<noteq> Some worker \<or> \<not> live s (j_lease_expires_at j)"
    and "job_lease_ok secs" "finish_status status \<noteq> None" "job_note note = Inr n" "job_note (Some note') = Inr n'"
      "max_attempts_ok most"
  shows "heartbeat_ingest_job i worker secs s = Inr (False, s)
     \<and> finish_ingest_job i worker status note s = Inr (False, s)
     \<and> retry_ingest_job i worker note' most s = Inl IngestJobOwnershipLost"
proof -
  have none: "\<not> owned s i worker j" if "j \<in> set (jobs s)" for j
    using assms(1) that by (auto simp: owned_def)
  then have id: "update_rows (owned s i worker) f (jobs s) = jobs s" for f
    by (intro update_rows_id) auto
  have ex: "list_ex (owned s i worker) (jobs s) = False" using none by (auto simp: list_ex_iff)
  have "find (owned s i worker) (jobs s) = None" using none by (auto simp: find_None_iff)
  with id ex assms(2-6) show ?thesis
    by (auto simp: heartbeat_ingest_job_def finish_ingest_job_def retry_ingest_job_def
        simp del: finish_status.simps)
qed

theorem displaced_worker_is_powerless_witness:
  "finish_ingest_job 2 [120] (u ''succeeded'') None (store sample_queued) = Inr (False, store sample_queued)"
proof -
  have "job_note (Some [110]) = Inr (Some [110])"
    by (simp add: job_note_def is_control_def)
  with displaced_worker_is_powerless [of "store sample_queued" 2 "[120]" 30 "u ''succeeded''" None None "[110]" "Some [110]" 3]
  show ?thesis
    by (simp add: sample_queued_def job_lease_ok_def job_note_def max_attempts_ok_def)
qed

end
