(* ===== verification/Collections.thy ===== *)
theory Collections
  imports Job_Queue "HOL-Library.List_Lexorder"
begin

text \<open>
  How people organise the documents of a tenant: the collections and tags of
  \<open>pipeline/index/db.py\<close> (\<open>create_collection\<close> to \<open>active_document_ids\<close>) and the scope of a
  retrieval that they resolve to. The four tables are added to the ingest database; their
  foreign keys cascade a deleted collection or tag to its memberships and never to a
  document. Identifiers arrive parsed; every operation is one transaction.
\<close>

section \<open>Tables\<close>

text \<open>A row of \<open>collections\<close> or of \<open>tags\<close>: the display name and its case-folded identity.\<close>

record label_row =
  l_id :: uuid
  l_name :: pystr
  l_key :: pystr
  l_created_at :: time

record catalogue =
  cat_db :: db
  cat_collections :: "label_row list"
  cat_tags :: "label_row list"
  cat_members :: "(uuid \<times> uuid) list"
  cat_labels :: "(uuid \<times> uuid) list"

definition fresh_uuid :: "'a catalogue_scheme \<Rightarrow> uuid \<times> 'a catalogue_scheme" where
  "fresh_uuid g = (let (i, s) = uuid4 (cat_db g) in (i, g\<lparr>cat_db := s\<rparr>))"

definition cat_doc :: "'a catalogue_scheme \<Rightarrow> uuid \<Rightarrow> document option" where
  "cat_doc g i = get_doc (cat_db g) i"

text \<open>\<open>INSERT ... ON CONFLICT (tenant_id, name_key) DO UPDATE SET name = <table>.name RETURNING\<close>\<close>

definition intern_label :: "uuid \<Rightarrow> time \<Rightarrow> pystr \<times> pystr \<Rightarrow> label_row list \<Rightarrow> label_row \<times> label_row list" where
  "intern_label i now entry rows = (case find_row l_key (snd entry) rows of
     Some r \<Rightarrow> (r, rows)
   | None \<Rightarrow> (let r = \<lparr>l_id = i, l_name = fst entry, l_key = snd entry, l_created_at = now\<rparr>
             in (r, rows @ [r])))"

section \<open>Collections\<close>

definition create_collection ::
  "(pystr \<Rightarrow> pystr) \<Rightarrow> pystr \<Rightarrow> 'a catalogue_scheme \<Rightarrow> ingest_error + label_row \<times> 'a catalogue_scheme" where
  "create_collection casefold name g =
    (case canonical_label casefold name of
       Inl e \<Rightarrow> Inl e
     | Inr entry \<Rightarrow>
        (let (i, g1) = fresh_uuid g;
             (r, rows) = intern_label i (clock (cat_db g1)) entry (cat_collections g1)
         in Inr (r, g1\<lparr>cat_collections := rows\<rparr>)))"

text \<open>
  A listed label and how many active documents carry it, in the order of the keys under the
  collation of the database, given by its sort key.
\<close>

definition active_document :: "'a catalogue_scheme \<Rightarrow> uuid \<Rightarrow> bool" where
  "active_document g i = (case cat_doc g i of None \<Rightarrow> False | Some d \<Rightarrow> d_archived_at d = None)"

definition in_key_order :: "(pystr \<Rightarrow> pystr) \<Rightarrow> label_row list \<Rightarrow> label_row list" where
  "in_key_order collate rows = sort_key (\<lambda>r. collate (l_key r)) (sort_key l_id rows)"

definition list_collections :: "(pystr \<Rightarrow> pystr) \<Rightarrow> 'a catalogue_scheme \<Rightarrow> (label_row \<times> nat) list" where
  "list_collections collate g = map (\<lambda>c. (c, length (filter (\<lambda>(k, d). k = l_id c \<and> active_document g d) (cat_members g))))
     (in_key_order collate (cat_collections g))"

definition delete_collection :: "uuid \<Rightarrow> 'a catalogue_scheme \<Rightarrow> ingest_error + bool \<times> 'a catalogue_scheme" where
  "delete_collection i g = Inr (list_ex (\<lambda>c. l_id c = i) (cat_collections g),
     g\<lparr>cat_collections := filter (\<lambda>c. l_id c \<noteq> i) (cat_collections g),
       cat_members := filter (\<lambda>(k, d). k \<noteq> i) (cat_members g)\<rparr>)"

definition set_collection_document ::
  "uuid \<Rightarrow> uuid \<Rightarrow> bool \<Rightarrow> 'a catalogue_scheme \<Rightarrow> ingest_error + bool option \<times> 'a catalogue_scheme" where
  "set_collection_document i doc present g =
    (if \<not> list_ex (\<lambda>c. l_id c = i) (cat_collections g) \<or> cat_doc g doc = None then Inr (None, g)
     else if present
     then Inr (Some True, if (i, doc) \<in> set (cat_members g) then g
            else g\<lparr>cat_members := cat_members g @ [(i, doc)]\<rparr>)
     else Inr (Some False, g\<lparr>cat_members := filter (\<lambda>m. m \<noteq> (i, doc)) (cat_members g)\<rparr>))"

section \<open>Tags\<close>

definition list_tags :: "(pystr \<Rightarrow> pystr) \<Rightarrow> 'a catalogue_scheme \<Rightarrow> (label_row \<times> nat) list" where
  "list_tags collate g = map (\<lambda>t. (t, length (filter (\<lambda>(d, k). k = l_id t \<and> active_document g d) (cat_labels g))))
     (in_key_order collate (cat_tags g))"

definition delete_tag :: "uuid \<Rightarrow> 'a catalogue_scheme \<Rightarrow> ingest_error + bool \<times> 'a catalogue_scheme" where
  "delete_tag i g = Inr (list_ex (\<lambda>t. l_id t = i) (cat_tags g),
     g\<lparr>cat_tags := filter (\<lambda>t. l_id t \<noteq> i) (cat_tags g),
       cat_labels := filter (\<lambda>(d, k). k \<noteq> i) (cat_labels g)\<rparr>)"

text \<open>
  \<open>canonical.setdefault(name_key, display)\<close> over the given tags: the first spelling of every
  key stays, and the first tag that is no label refuses the call.
\<close>

fun canonical_tags ::
  "(pystr \<Rightarrow> pystr) \<Rightarrow> pystr list \<Rightarrow> (pystr \<times> pystr) list \<Rightarrow> ingest_error + (pystr \<times> pystr) list" where
  "canonical_tags casefold [] canonical = Inr canonical"
| "canonical_tags casefold (tag # rest) canonical =
    (case canonical_label casefold tag of
       Inl e \<Rightarrow> Inl e
     | Inr entry \<Rightarrow> canonical_tags casefold rest
         (if snd entry \<in> set (map snd canonical) then canonical else canonical @ [entry]))"

text \<open>The loop over \<open>sorted(canonical.items())\<close>: every key is interned, its row remembered.\<close>

fun intern_tags ::
  "(pystr \<times> pystr) list \<Rightarrow> 'a catalogue_scheme \<Rightarrow> label_row list \<times> 'a catalogue_scheme" where
  "intern_tags [] g = ([], g)"
| "intern_tags (entry # rest) g =
    (let (i, g1) = fresh_uuid g;
         (r, rows) = intern_label i (clock (cat_db g1)) entry (cat_tags g1);
         (rs, g2) = intern_tags rest (g1\<lparr>cat_tags := rows\<rparr>)
     in (r # rs, g2))"

definition replace_document_tags ::
  "(pystr \<Rightarrow> pystr) \<Rightarrow> uuid \<Rightarrow> pystr list \<Rightarrow> 'a catalogue_scheme
     \<Rightarrow> ingest_error + pystr list option \<times> 'a catalogue_scheme" where
  "replace_document_tags casefold doc given g =
    (case canonical_tags casefold given [] of
       Inl e \<Rightarrow> Inl e
     | Inr canonical \<Rightarrow>
        (if cat_doc g doc = None then Inr (None, g)
         else (let (rows, g1) = intern_tags (sort_key snd canonical) g
               in Inr (Some (map l_name rows), g1\<lparr>cat_labels :=
                    filter (\<lambda>(d, k). d \<noteq> doc) (cat_labels g1) @ map (\<lambda>r. (doc, l_id r)) rows\<rparr>))))"

section \<open>The scope of a retrieval\<close>

text \<open>The key of every given tag, or the refusal of the first that is no label.\<close>

fun tag_keys :: "(pystr \<Rightarrow> pystr) \<Rightarrow> pystr list \<Rightarrow> ingest_error + pystr list" where
  "tag_keys casefold [] = Inr []"
| "tag_keys casefold (tag # rest) =
    (case canonical_label casefold tag of
       Inl e \<Rightarrow> Inl e
     | Inr entry \<Rightarrow> map_sum id (Cons (snd entry)) (tag_keys casefold rest))"

definition document_keys :: "'a catalogue_scheme \<Rightarrow> uuid \<Rightarrow> pystr list" where
  "document_keys g doc = map l_key (filter (\<lambda>t. (doc, l_id t) \<in> set (cat_labels g)) (cat_tags g))"

text \<open>\<open>COUNT(DISTINCT t.name_key) ... = tag_count\<close>\<close>

definition carries_all :: "'a catalogue_scheme \<Rightarrow> pystr list \<Rightarrow> uuid \<Rightarrow> bool" where
  "carries_all g keys doc =
     (length (remdups (filter (\<lambda>k. k \<in> set keys) (document_keys g doc))) = length (remdups keys))"

definition documents_where :: "(document \<Rightarrow> bool) \<Rightarrow> 'a catalogue_scheme \<Rightarrow> uuid list" where
  "documents_where p g = sort (map d_id (filter (\<lambda>d. d_archived_at d = None \<and> p d) (docs (cat_db g))))"

definition resolve_document_scope ::
  "(pystr \<Rightarrow> pystr) \<Rightarrow> uuid list option \<Rightarrow> uuid list option \<Rightarrow> pystr list option \<Rightarrow> 'a catalogue_scheme
     \<Rightarrow> ingest_error + uuid list option" where
  "resolve_document_scope casefold ids collections tags g =
    (if ids = None \<and> collections = None \<and> tags = None then Inr None
     else if ids = Some [] then Inl (ValueError ''document_ids bos olmayan bir liste olmali'')
     else if collections = Some [] then Inl (ValueError ''collection_ids bos olmayan bir liste olmali'')
     else if tags = Some [] then Inl (ValueError ''tags bos olmayan bir liste olmali'')
     else case tag_keys casefold (case tags of None \<Rightarrow> [] | Some ts \<Rightarrow> ts) of
       Inl e \<Rightarrow> Inl e
     | Inr keys \<Rightarrow> Inr (Some (documents_where (\<lambda>d.
         (case ids of None \<Rightarrow> True | Some is \<Rightarrow> d_id d \<in> set is)
         \<and> (case collections of None \<Rightarrow> True
            | Some cs \<Rightarrow> list_ex (\<lambda>(k, e). e = d_id d \<and> k \<in> set cs) (cat_members g))
         \<and> (tags = None \<or> carries_all g keys (d_id d))) g)))"

definition active_document_ids :: "'a catalogue_scheme \<Rightarrow> uuid list" where
  "active_document_ids g = documents_where (\<lambda>d. True) g"

section \<open>The catalogue stays consistent\<close>

definition label_rows_ok :: "uuid \<Rightarrow> label_row list \<Rightarrow> bool" where
  "label_rows_ok n rows \<longleftrightarrow> distinct (map l_id rows) \<and> distinct (map l_key rows) \<and> (\<forall>r\<in>set rows. l_id r < n)"

definition pairs_ok :: "uuid set \<Rightarrow> uuid set \<Rightarrow> (uuid \<times> uuid) list \<Rightarrow> bool" where
  "pairs_ok xs ys ps \<longleftrightarrow> distinct ps \<and> (\<forall>(x, y)\<in>set ps. x \<in> xs \<and> y \<in> ys)"

text \<open>Unique identities and keys; every membership names two rows that exist, once.\<close>

definition catalogue_ok :: "'a catalogue_scheme \<Rightarrow> bool" where
  "catalogue_ok g \<longleftrightarrow> label_rows_ok (uuid_next (cat_db g)) (cat_collections g)
     \<and> label_rows_ok (uuid_next (cat_db g)) (cat_tags g)
     \<and> pairs_ok (l_id ` set (cat_collections g)) (d_id ` set (docs (cat_db g))) (cat_members g)
     \<and> pairs_ok (d_id ` set (docs (cat_db g))) (l_id ` set (cat_tags g)) (cat_labels g)"

lemma pairs_ok_mono: "pairs_ok xs ys ps \<Longrightarrow> xs \<subseteq> xs' \<Longrightarrow> ys \<subseteq> ys' \<Longrightarrow> pairs_ok xs' ys' ps"
  by (fastforce simp: pairs_ok_def)

lemma pairs_ok_filter: "pairs_ok xs ys ps \<Longrightarrow> pairs_ok xs ys (filter p ps)"
  by (auto simp: pairs_ok_def)

lemma label_rows_ok_mono: "label_rows_ok n rows \<Longrightarrow> n \<le> m \<Longrightarrow> label_rows_ok m rows"
  by (auto simp: label_rows_ok_def)

lemma label_rows_ok_filter: "label_rows_ok n rows \<Longrightarrow> label_rows_ok n (filter p rows)"
  by (auto simp: label_rows_ok_def distinct_map_filter)

lemma intern_label_cases:
  assumes "intern_label i at_time entry rows = (r, rows')"
  obtains (found) "rows' = rows" "r \<in> set rows" "l_key r = snd entry"
  | (made) "rows' = rows @ [r]" "r = \<lparr>l_id = i, l_name = fst entry, l_key = snd entry, l_created_at = at_time\<rparr>"
      "snd entry \<notin> l_key ` set rows"
proof (cases "find_row l_key (snd entry) rows")
  case None
  with assms have "r = \<lparr>l_id = i, l_name = fst entry, l_key = snd entry, l_created_at = at_time\<rparr> \<and> rows' = rows @ [r]"
    by (auto simp: intern_label_def Let_def)
  with None show ?thesis by (intro made) (simp_all only: find_row_None_iff not_False_eq_True)
next
  case (Some x)
  with assms find_row_SomeD [OF Some] show ?thesis by (intro found) (simp_all add: intern_label_def)
qed

lemma intern_label_ok:
  assumes "label_rows_ok n rows" "intern_label n at_time entry rows = (r, rows')"
  shows "label_rows_ok (Suc n) rows'" "set rows \<subseteq> set rows'" "r \<in> set rows'" "l_key r = snd entry"
proof -
  show "label_rows_ok (Suc n) rows'" using assms(2)
  proof (cases rule: intern_label_cases)
    case found
    with assms(1) show ?thesis by (auto intro: label_rows_ok_mono)
  next
    case made
    with assms(1) show ?thesis by (auto simp: label_rows_ok_def)
  qed
  have "set rows \<subseteq> set rows' \<and> r \<in> set rows' \<and> l_key r = snd entry"
    using assms(2)
  proof (cases rule: intern_label_cases)
    case made
    from made(2) have "l_key r = snd entry" by simp
    with made(1) show ?thesis by auto
  qed simp
  then show "set rows \<subseteq> set rows'" "r \<in> set rows'" "l_key r = snd entry" by blast+
qed

lemma fresh_uuid_eq: "fresh_uuid g = (uuid_next (cat_db g), g\<lparr>cat_db := (cat_db g)\<lparr>uuid_next := Suc (uuid_next (cat_db g))\<rparr>\<rparr>)"
  by (simp add: fresh_uuid_def uuid4_def)

lemma create_collection_ok:
  assumes "catalogue_ok g" "create_collection casefold name g = Inr (r, g')"
  shows "catalogue_ok g'"
proof -
  obtain entry rows where i: "intern_label (uuid_next (cat_db g)) (clock (cat_db g)) entry (cat_collections g) = (r, rows)"
      and g': "g' = g\<lparr>cat_db := (cat_db g)\<lparr>uuid_next := Suc (uuid_next (cat_db g))\<rparr>, cat_collections := rows\<rparr>"
    using assms(2) by (auto simp: create_collection_def fresh_uuid_eq Let_def split: sum.splits prod.splits)
  from assms(1) have "label_rows_ok (uuid_next (cat_db g)) (cat_collections g)" by (simp add: catalogue_ok_def)
  note new = intern_label_ok [OF this i]
  from assms(1) new show ?thesis
    by (simp add: catalogue_ok_def g') (blast intro: label_rows_ok_mono pairs_ok_mono image_mono le_SucI)
qed

lemma other_labels: "l_id ` {r \<in> rows. l_id r \<noteq> i} = l_id ` rows - {i}"
  by auto

lemma delete_collection_ok:
  assumes "catalogue_ok g" "delete_collection i g = Inr (r, g')"
  shows "catalogue_ok g'"
  using assms by (auto simp: catalogue_ok_def delete_collection_def label_rows_ok_filter pairs_ok_def other_labels)

lemma set_collection_document_ok:
  assumes "catalogue_ok g" "set_collection_document i doc present g = Inr (r, g')"
  shows "catalogue_ok g'"
proof -
  have "doc \<in> d_id ` set (docs (cat_db g))" if "cat_doc g doc = Some d" for d
    using that by (auto simp: cat_doc_def get_doc_def dest!: find_row_SomeD)
  with assms show ?thesis
    by (auto simp: catalogue_ok_def set_collection_document_def list_ex_iff pairs_ok_def split: if_splits)
qed

lemma delete_tag_ok:
  assumes "catalogue_ok g" "delete_tag i g = Inr (r, g')"
  shows "catalogue_ok g'"
  using assms by (auto simp: catalogue_ok_def delete_tag_def label_rows_ok_filter pairs_ok_def other_labels)

lemma intern_tags_ok:
  assumes "catalogue_ok g" "intern_tags entries g = (rows, g')"
  shows "catalogue_ok g' \<and> set rows \<subseteq> set (cat_tags g') \<and> set (cat_tags g) \<subseteq> set (cat_tags g')
     \<and> map l_key rows = map snd entries \<and> cat_labels g' = cat_labels g \<and> cat_members g' = cat_members g
     \<and> cat_collections g' = cat_collections g
     \<and> (\<exists>n\<ge>uuid_next (cat_db g). cat_db g' = (cat_db g)\<lparr>uuid_next := n\<rparr>)"
  using assms
proof (induction entries arbitrary: g rows g')
  case (Cons entry rest)
  from Cons.prems(2) obtain r tags rs where
      i: "intern_label (uuid_next (cat_db g)) (clock (cat_db g)) entry (cat_tags g) = (r, tags)"
      and rest: "intern_tags rest (g\<lparr>cat_db := (cat_db g)\<lparr>uuid_next := Suc (uuid_next (cat_db g))\<rparr>, cat_tags := tags\<rparr>)
        = (rs, g')" and rows: "rows = r # rs"
    by (auto simp: fresh_uuid_eq Let_def split: prod.splits)
  from Cons.prems(1) have "label_rows_ok (uuid_next (cat_db g)) (cat_tags g)" by (simp add: catalogue_ok_def)
  note new = intern_label_ok [OF this i]
  from Cons.prems(1) new have "catalogue_ok (g\<lparr>cat_db := (cat_db g)\<lparr>uuid_next := Suc (uuid_next (cat_db g))\<rparr>, cat_tags := tags\<rparr>)"
    by (simp add: catalogue_ok_def) (blast intro: label_rows_ok_mono pairs_ok_mono image_mono le_SucI)
  note later = Cons.IH [OF this rest]
  then obtain n where "Suc (uuid_next (cat_db g)) \<le> n" "cat_db g' = (cat_db g)\<lparr>uuid_next := n\<rparr>" by auto
  then have "\<exists>n\<ge>uuid_next (cat_db g). cat_db g' = (cat_db g)\<lparr>uuid_next := n\<rparr>"
    by (intro exI [where x = n]) simp
  with later new show ?case unfolding rows by auto
next
  case Nil
  then show ?case by (auto intro!: exI [where x = "uuid_next (cat_db g)"])
qed

lemma replace_document_tags_cases:
  assumes "replace_document_tags casefold doc given g = Inr (r, g')"
  obtains (absent) "cat_doc g doc = None" "r = None" "g' = g"
  | (replaced) canonical rows g1 d where "canonical_tags casefold given [] = Inr canonical"
      "cat_doc g doc = Some d" "intern_tags (sort_key snd canonical) g = (rows, g1)" "r = Some (map l_name rows)"
      "g' = g1\<lparr>cat_labels := filter (\<lambda>(d, k). d \<noteq> doc) (cat_labels g1) @ map (\<lambda>r. (doc, l_id r)) rows\<rparr>"
  using assms by (auto simp: replace_document_tags_def split: sum.splits if_splits prod.splits)

lemma canonical_tags_keys:
  assumes "canonical_tags casefold given canonical = Inr result" "distinct (map snd canonical)"
  shows "distinct (map snd result) \<and> set (map snd result) = set (map snd canonical) \<union> (casefold \<circ> strip) ` set given
     \<and> (\<forall>tag\<in>set given. strip tag \<noteq> [] \<and> \<not> list_ex is_control (strip tag))"
  using assms
proof (induction given arbitrary: canonical)
  case (Cons tag rest)
  from Cons.prems(1) have ok: "canonical_label casefold tag = Inr (strip tag, casefold (strip tag))"
      "strip tag \<noteq> []" "\<not> list_ex is_control (strip tag)"
    by (auto simp: canonical_label_def Let_def split: if_splits)
  let ?next = "if casefold (strip tag) \<in> set (map snd canonical) then canonical
     else canonical @ [(strip tag, casefold (strip tag))]"
  from Cons.prems(1) ok(1) have "canonical_tags casefold rest ?next = Inr result" by (simp split: if_splits)
  moreover have "distinct (map snd ?next)" using Cons.prems(2) by auto
  ultimately have "distinct (map snd result) \<and> set (map snd result) = set (map snd ?next) \<union> (casefold \<circ> strip) ` set rest
     \<and> (\<forall>tag\<in>set rest. strip tag \<noteq> [] \<and> \<not> list_ex is_control (strip tag))"
    by (rule Cons.IH)
  with ok(2,3) show ?case by auto
qed simp

lemma replace_document_tags_ok:
  assumes "catalogue_ok g" "replace_document_tags casefold doc given g = Inr (r, g')"
  shows "catalogue_ok g'"
  using assms(2)
proof (cases rule: replace_document_tags_cases)
  case (replaced canonical rows g1 d)
  have I: "catalogue_ok g1" "set rows \<subseteq> set (cat_tags g1)" "map l_key rows = map snd (sort_key snd canonical)"
      "docs (cat_db g1) = docs (cat_db g)"
    using intern_tags_ok [OF assms(1) replaced(3)] by auto
  have "distinct (map snd canonical)" using canonical_tags_keys [OF replaced(1)] by simp
  then have "distinct (map l_key rows)" by (simp add: I(3) distinct_map)
  then have "distinct rows" by (simp add: distinct_map)
  moreover have "inj_on l_id (set rows)"
    using I(1,2) by (auto simp: catalogue_ok_def label_rows_ok_def distinct_map intro: inj_on_subset)
  ultimately have "distinct (map (\<lambda>r. (doc, l_id r)) rows)"
    by (auto simp: distinct_map inj_on_def)
  moreover have "doc \<in> d_id ` set (docs (cat_db g1))"
    using replaced(2) I(4) by (auto simp: cat_doc_def get_doc_def dest!: find_row_SomeD)
  ultimately show ?thesis
    using I(1,2) by (auto simp: catalogue_ok_def replaced(5) pairs_ok_def)
qed (use assms(1) in simp)

text \<open>The operations touch nothing but the four tables and the supply of identities.\<close>

definition organised :: "'a catalogue_scheme \<Rightarrow> 'a catalogue_scheme \<Rightarrow> bool" where
  "organised g g' \<longleftrightarrow> (\<exists>n cs ts ms ls. uuid_next (cat_db g) \<le> n \<and> g' = g\<lparr>cat_db := (cat_db g)\<lparr>uuid_next := n\<rparr>,
     cat_collections := cs, cat_tags := ts, cat_members := ms, cat_labels := ls\<rparr>)"

lemma organisedI:
  assumes "uuid_next (cat_db g) \<le> n" "g' = g\<lparr>cat_db := (cat_db g)\<lparr>uuid_next := n\<rparr>,
     cat_collections := cs, cat_tags := ts, cat_members := ms, cat_labels := ls\<rparr>"
  shows "organised g g'"
  using assms unfolding organised_def by blast

lemma organised_refl [simp]: "organised g g"
  by (rule organisedI [where n = "uuid_next (cat_db g)" and cs = "cat_collections g" and ts = "cat_tags g"
        and ms = "cat_members g" and ls = "cat_labels g"]) simp_all

lemma create_collection_organised: "create_collection casefold name g = Inr (r, g') \<Longrightarrow> organised g g'"
  by (auto simp: create_collection_def fresh_uuid_eq Let_def split: sum.splits prod.splits
      intro!: organisedI [where n = "Suc (uuid_next (cat_db g))" and ts = "cat_tags g"
        and ms = "cat_members g" and ls = "cat_labels g"])

lemma delete_collection_organised: "delete_collection i g = Inr (r, g') \<Longrightarrow> organised g g'"
  by (auto simp: delete_collection_def intro!: organisedI [where n = "uuid_next (cat_db g)"
        and ts = "cat_tags g" and ls = "cat_labels g"])

lemma delete_tag_organised: "delete_tag i g = Inr (r, g') \<Longrightarrow> organised g g'"
  by (auto simp: delete_tag_def intro!: organisedI [where n = "uuid_next (cat_db g)"
        and cs = "cat_collections g" and ms = "cat_members g"])

lemma set_collection_document_organised: "set_collection_document i doc present g = Inr (r, g') \<Longrightarrow> organised g g'"
  by (auto simp: set_collection_document_def split: if_splits intro!: organisedI [where n = "uuid_next (cat_db g)"
        and cs = "cat_collections g" and ts = "cat_tags g" and ls = "cat_labels g"])

lemma intern_tags_frame:
  assumes "intern_tags entries g = (rows, g')"
  shows "\<exists>n tags. uuid_next (cat_db g) \<le> n \<and> g' = g\<lparr>cat_db := (cat_db g)\<lparr>uuid_next := n\<rparr>, cat_tags := tags\<rparr>"
  using assms
proof (induction entries arbitrary: g rows g')
  case Nil
  then have "uuid_next (cat_db g) \<le> uuid_next (cat_db g)
      \<and> g' = g\<lparr>cat_db := (cat_db g)\<lparr>uuid_next := uuid_next (cat_db g)\<rparr>, cat_tags := cat_tags g\<rparr>" by simp
  then show ?case by blast
next
  case (Cons entry rest)
  then obtain tags rs where "intern_tags rest (g\<lparr>cat_db := (cat_db g)\<lparr>uuid_next := Suc (uuid_next (cat_db g))\<rparr>,
      cat_tags := tags\<rparr>) = (rs, g')"
    by (auto simp: fresh_uuid_eq Let_def split: prod.splits)
  from Cons.IH [OF this] obtain n tags' where "Suc (uuid_next (cat_db g)) \<le> n"
      "g' = g\<lparr>cat_db := (cat_db g)\<lparr>uuid_next := n\<rparr>, cat_tags := tags'\<rparr>" by auto
  then show ?case by (intro exI [where x = n] exI [where x = tags']) simp
qed

lemma replace_document_tags_organised:
  assumes "replace_document_tags casefold doc given g = Inr (r, g')"
  shows "organised g g'"
  using assms
proof (cases rule: replace_document_tags_cases)
  case (replaced canonical rows g1 d)
  from intern_tags_frame [OF replaced(3)] obtain n tags where "uuid_next (cat_db g) \<le> n"
      "g1 = g\<lparr>cat_db := (cat_db g)\<lparr>uuid_next := n\<rparr>, cat_tags := tags\<rparr>" by blast
  with replaced(5) show ?thesis
    by (intro organisedI [where n = n and cs = "cat_collections g" and ts = tags and ms = "cat_members g"]) simp_all
qed simp

lemmas catalogue_operations_ok = create_collection_ok delete_collection_ok set_collection_document_ok
  delete_tag_ok replace_document_tags_ok

lemmas catalogue_operations_organised = create_collection_organised delete_collection_organised
  set_collection_document_organised delete_tag_organised replace_document_tags_organised

section \<open>Tags and scopes\<close>

text \<open>What a document is tagged with, as a set of keys.\<close>

lemma mem_document_keys:
  "k \<in> set (document_keys g doc) \<longleftrightarrow> (\<exists>t\<in>set (cat_tags g). l_key t = k \<and> (doc, l_id t) \<in> set (cat_labels g))"
  by (auto simp: document_keys_def)

lemma carries_all_iff: "carries_all g keys doc \<longleftrightarrow> set keys \<subseteq> set (document_keys g doc)"
proof -
  have "card (set keys \<inter> set (document_keys g doc)) = card (set keys) \<longleftrightarrow> set keys \<subseteq> set (document_keys g doc)"
    by (metis Int_absorb2 List.finite_set card_subset_eq inf.cobounded1 inf.absorb_iff1)
  moreover have "set (filter (\<lambda>k. k \<in> set keys) (document_keys g doc)) = set keys \<inter> set (document_keys g doc)"
    by auto
  ultimately show ?thesis by (simp add: carries_all_def length_remdups_card_conv)
qed

lemma tag_keys_InrD: "tag_keys casefold tags = Inr keys \<Longrightarrow> set keys = (casefold \<circ> strip) ` set tags"
proof (induction tags arbitrary: keys)
  case (Cons tag rest)
  from Cons.prems obtain ks where "tag_keys casefold rest = Inr ks" "keys = casefold (strip tag) # ks"
    by (auto simp: canonical_label_def Let_def split: if_splits sum.splits) (cases "tag_keys casefold rest"; simp)
  with Cons.IH show ?case by simp
qed simp

lemma mem_documents_where:
  "i \<in> set (documents_where p g) \<longleftrightarrow> (\<exists>d\<in>set (docs (cat_db g)). d_id d = i \<and> d_archived_at d = None \<and> p d)"
  by (auto simp: documents_where_def)

end
