(* ===== verification/Retention.thy ===== *)
theory Retention
  imports Collections Ingest_Machine
begin

text \<open>
  Retention of a tenant's documents: the retention policy, legal holds and purge jobs of
  \<open>pipeline/index/db.py\<close> with the tables and the tombstone trigger of
  \<open>pipeline/index/schema.sql\<close>, and one turn of \<open>pipeline/index/purge_worker.py\<close>. A governed
  tenant adds these tables, the architects and the policy epoch of the organisation to the
  catalogue. Identifiers arrive parsed, a Python int is an \<open>int\<close>, the effective actor of the
  connection is the argument \<open>session\<close>; a day of an interval has 24 hours (a session in a
  time zone without clock changes).
\<close>

section \<open>Errors and rows\<close>

datatype retention_error =
    DocumentRetentionRefused
  | RetentionPolicyConflict
  | OrgPolicyConflict
  | PurgeJobOwnershipLost
  | Raised ingest_error

record retention_policy =
  rp_days :: int
  rp_revision :: int
  rp_updated_by :: uuid
  rp_updated_at :: time

datatype hold_state = Hold_Active | Hold_Released

record legal_hold =
  h_id :: uuid
  h_document :: uuid
  h_reason :: pystr
  h_state :: hold_state
  h_revision :: int
  h_created_by :: uuid
  h_released_by :: "uuid option"
  h_created_at :: time
  h_released_at :: "time option"

datatype purge_state = Purge_Pending | Purge_Running | Purge_Completed | Purge_Failed | Purge_Cancelled

record purge_job =
  p_id :: uuid
  p_document :: uuid
  p_scheduled_by :: uuid
  p_state :: purge_state
  p_eligible_at :: time
  p_policy_revision :: int
  p_policy_epoch :: int
  p_document_revision :: int
  p_attempt_count :: int
  p_worker :: "pystr option"
  p_failure :: "pystr option"
  p_request :: pystr
  p_created_at :: time
  p_started_at :: "time option"
  p_completed_at :: "time option"

datatype retention_event_type =
  Policy_Changed | Hold_Created | Hold_Lifted | Purge_Scheduled | Purge_Executed | Purge_Refused

record retention_event =
  re_type :: retention_event_type
  re_document :: "uuid option"
  re_actor :: uuid
  re_hold :: "uuid option"
  re_purge :: "uuid option"
  re_request :: pystr

datatype org_action = Retention_Policy_Change | Legal_Hold_Change | Purge_Schedule | Purge_Execute

record org_audit_event =
  oa_actor :: uuid
  oa_action :: org_action
  oa_request :: pystr

record governed = catalogue +
  g_handles :: "ingest_attempt list"
  g_architects :: "(uuid \<times> bool) list"
  g_epoch :: int
  g_policy :: "retention_policy option"
  g_holds :: "legal_hold list"
  g_purges :: "purge_job list"
  g_events :: "retention_event list"
  g_audit :: "org_audit_event list"

definition now :: "governed \<Rightarrow> time" where
  "now g = clock (cat_db g)"

section \<open>Validation and authority\<close>

definition LEGAL_HOLD_REASONS :: "pystr list" where
  "LEGAL_HOLD_REASONS = [u ''litigation'', u ''regulatory'', u ''security_investigation'']"

definition PURGE_FAILURE_CODES :: "pystr list" where
  "PURGE_FAILURE_CODES = [u ''storage_refused'', u ''storage_unavailable'']"

definition retention_positive :: "int option \<Rightarrow> int \<Rightarrow> bool" where
  "retention_positive maximum value =
     (1 \<le> value \<and> (case maximum of None \<Rightarrow> True | Some m \<Rightarrow> value \<le> m))"

definition retention_counter :: "int \<Rightarrow> bool" where
  "retention_counter value = (0 \<le> value)"

definition retention_request_id :: "pystr \<Rightarrow> bool" where
  "retention_request_id value = (8 \<le> length value \<and> length value \<le> 64)"

text \<open>
  \<open>_lock_retention_architect\<close>: an active architect acting for itself, and the epoch its
  caller expects.
\<close>

definition retention_architect :: "governed \<Rightarrow> uuid \<Rightarrow> uuid \<Rightarrow> bool" where
  "retention_architect g session actor = ((actor, True) \<in> set (g_architects g) \<and> session = actor)"

definition lock_retention_architect ::
  "governed \<Rightarrow> uuid \<Rightarrow> uuid \<Rightarrow> int option \<Rightarrow> retention_error option" where
  "lock_retention_architect g session actor expected =
    (if \<not> retention_architect g session actor then Some DocumentRetentionRefused
     else if expected \<noteq> None \<and> expected \<noteq> Some (g_epoch g) then Some OrgPolicyConflict
     else None)"

section \<open>Shared statements\<close>

text \<open>\<open>COALESCE(policy.archive_retention_days, 365)\<close> and \<open>COALESCE(policy.revision, 1)\<close>\<close>

definition retention_days :: "governed \<Rightarrow> int" where
  "retention_days g = (case g_policy g of None \<Rightarrow> 365 | Some p \<Rightarrow> rp_days p)"

definition policy_revision :: "governed \<Rightarrow> int" where
  "policy_revision g = (case g_policy g of None \<Rightarrow> 1 | Some p \<Rightarrow> rp_revision p)"

definition days_long :: "int \<Rightarrow> time" where
  "days_long n = n * 86400000"

definition held :: "governed \<Rightarrow> uuid \<Rightarrow> bool" where
  "held g doc = list_ex (\<lambda>h. h_document h = doc \<and> h_state h = Hold_Active) (g_holds g)"

definition open_purge :: "purge_job \<Rightarrow> bool" where
  "open_purge p = (p_state p = Purge_Pending \<or> p_state p = Purge_Running)"

definition bump_epoch :: "governed \<Rightarrow> governed" where
  "bump_epoch g = g\<lparr>g_epoch := g_epoch g + 1\<rparr>"

text \<open>The two rows of evidence of a governance change: its retention event and its audit event.\<close>

definition record_retention ::
  "retention_event_type \<Rightarrow> uuid option \<Rightarrow> uuid \<Rightarrow> uuid option \<Rightarrow> uuid option \<Rightarrow> pystr \<Rightarrow> governed \<Rightarrow> governed" where
  "record_retention ty doc actor hold job request g = g\<lparr>g_events := g_events g @
     [\<lparr>re_type = ty, re_document = doc, re_actor = actor, re_hold = hold, re_purge = job,
       re_request = request\<rparr>]\<rparr>"

definition record_audit :: "uuid \<Rightarrow> org_action \<Rightarrow> pystr \<Rightarrow> governed \<Rightarrow> governed" where
  "record_audit actor action request g = g\<lparr>g_audit := g_audit g @
     [\<lparr>oa_actor = actor, oa_action = action, oa_request = request\<rparr>]\<rparr>"

section \<open>The policy\<close>

record policy_view =
  pv_epoch :: int
  pv_days :: int
  pv_revision :: int
  pv_updated_at :: "time option"

definition policy_view_of :: "governed \<Rightarrow> policy_view" where
  "policy_view_of g = \<lparr>pv_epoch = g_epoch g, pv_days = retention_days g, pv_revision = policy_revision g,
     pv_updated_at = map_option rp_updated_at (g_policy g)\<rparr>"

definition get_tenant_retention_policy :: "governed \<Rightarrow> uuid \<Rightarrow> uuid \<Rightarrow> retention_error + policy_view" where
  "get_tenant_retention_policy g session actor =
    (if \<not> retention_architect g session actor then Inl DocumentRetentionRefused
     else Inr (policy_view_of g))"

definition update_tenant_retention_policy ::
  "uuid \<Rightarrow> uuid \<Rightarrow> int \<Rightarrow> int \<Rightarrow> int \<Rightarrow> pystr \<Rightarrow> governed \<Rightarrow> retention_error + policy_view \<times> governed" where
  "update_tenant_retention_policy session actor days revision epoch request g =
    (if \<not> retention_positive (Some 3650) days \<or> \<not> retention_positive None revision
        \<or> \<not> retention_positive None epoch \<or> \<not> retention_request_id request
     then Inl DocumentRetentionRefused
     else case lock_retention_architect g session actor (Some epoch) of
       Some e \<Rightarrow> Inl e
     | None \<Rightarrow>
        (if policy_revision g \<noteq> revision then Inl RetentionPolicyConflict
         else
           (let g1 = g\<lparr>g_policy := Some \<lparr>rp_days = days, rp_revision = revision + 1,
                  rp_updated_by = actor, rp_updated_at = now g\<rparr>\<rparr>;
                g2 = bump_epoch g1
            in Inr (policy_view_of g2, record_audit actor Retention_Policy_Change request
                 (record_retention Policy_Changed None actor None None request g2)))))"

section \<open>Readers\<close>

record retention_document =
  rd_document :: uuid
  rd_status :: pystr
  rd_revision :: nat
  rd_uploaded_at :: time
  rd_archived_at :: "time option"
  rd_purged_at :: "time option"
  rd_active_holds :: nat
  rd_latest_purge :: "(uuid \<times> purge_state) option"

text \<open>\<open>ORDER BY created_at DESC, id DESC\<close>\<close>

definition newest_first :: "('r \<Rightarrow> time) \<Rightarrow> ('r \<Rightarrow> uuid) \<Rightarrow> 'r list \<Rightarrow> 'r list" where
  "newest_first at_time key rows = sort_key (\<lambda>r. - at_time r) (sort_key (\<lambda>r. - int (key r)) rows)"

definition purge_jobs_of :: "governed \<Rightarrow> uuid \<Rightarrow> purge_job list" where
  "purge_jobs_of g doc = newest_first p_created_at p_id (filter (\<lambda>p. p_document p = doc) (g_purges g))"

definition retention_document_of :: "governed \<Rightarrow> document \<Rightarrow> retention_document" where
  "retention_document_of g d = \<lparr>rd_document = d_id d, rd_status = d_status d, rd_revision = d_revision d,
     rd_uploaded_at = d_uploaded_at d, rd_archived_at = d_archived_at d, rd_purged_at = d_purged_at d,
     rd_active_holds = length (filter (\<lambda>h. h_document h = d_id d \<and> h_state h = Hold_Active) (g_holds g)),
     rd_latest_purge = (case purge_jobs_of g (d_id d) of [] \<Rightarrow> None | p # _ \<Rightarrow> Some (p_id p, p_state p))\<rparr>"

text \<open>\<open>(document.uploaded_at, document.id) < (before_uploaded_at, before_id)\<close>\<close>

definition keyset_before :: "time \<times> uuid \<Rightarrow> document \<Rightarrow> bool" where
  "keyset_before cursor d = (d_uploaded_at d < fst cursor
     \<or> d_uploaded_at d = fst cursor \<and> d_id d < snd cursor)"

text \<open>One row beyond the limit is the sentinel of a further page.\<close>

definition list_retention_documents ::
  "governed \<Rightarrow> uuid \<Rightarrow> uuid \<Rightarrow> int \<Rightarrow> (time \<times> uuid) option \<Rightarrow> retention_error + retention_document list" where
  "list_retention_documents g session actor limit before =
    (if \<not> (1 \<le> limit \<and> limit \<le> 100) then Inl DocumentRetentionRefused
     else case lock_retention_architect g session actor None of
       Some e \<Rightarrow> Inl e
     | None \<Rightarrow> Inr (map (retention_document_of g) (take (nat limit + 1)
         (newest_first d_uploaded_at d_id
           (filter (\<lambda>d. case before of None \<Rightarrow> True | Some cursor \<Rightarrow> keyset_before cursor d)
             (docs (cat_db g)))))))"

definition list_document_legal_holds :: "governed \<Rightarrow> uuid \<Rightarrow> uuid \<Rightarrow> uuid \<Rightarrow> retention_error + legal_hold list" where
  "list_document_legal_holds g session actor doc =
    (case lock_retention_architect g session actor None of
       Some e \<Rightarrow> Inl e
     | None \<Rightarrow> Inr (newest_first h_created_at h_id (filter (\<lambda>h. h_document h = doc) (g_holds g))))"

definition list_document_purge_jobs :: "governed \<Rightarrow> uuid \<Rightarrow> uuid \<Rightarrow> uuid \<Rightarrow> retention_error + purge_job list" where
  "list_document_purge_jobs g session actor doc =
    (case lock_retention_architect g session actor None of
       Some e \<Rightarrow> Inl e
     | None \<Rightarrow> Inr (purge_jobs_of g doc))"

section \<open>Legal holds\<close>

definition cancel_pending :: "uuid \<Rightarrow> governed \<Rightarrow> governed" where
  "cancel_pending doc g = g\<lparr>g_purges := update_rows
     (\<lambda>p. p_document p = doc \<and> p_state p = Purge_Pending)
     (\<lambda>p. p\<lparr>p_state := Purge_Cancelled, p_completed_at := Some (now g)\<rparr>) (g_purges g)\<rparr>"

definition create_document_legal_hold ::
  "uuid \<Rightarrow> uuid \<Rightarrow> uuid \<Rightarrow> pystr \<Rightarrow> int \<Rightarrow> int \<Rightarrow> pystr \<Rightarrow> governed
     \<Rightarrow> retention_error + (legal_hold \<times> int) \<times> governed" where
  "create_document_legal_hold session actor doc reason revision epoch request g =
    (if reason \<notin> set LEGAL_HOLD_REASONS \<or> \<not> retention_counter revision
        \<or> \<not> retention_positive None epoch \<or> \<not> retention_request_id request
     then Inl DocumentRetentionRefused
     else case lock_retention_architect g session actor (Some epoch) of
       Some e \<Rightarrow> Inl e
     | None \<Rightarrow>
    (case cat_doc g doc of
       None \<Rightarrow> Inl DocumentRetentionRefused
     | Some d \<Rightarrow>
        (if d_purged_at d \<noteq> None then Inl DocumentRetentionRefused
         else if int (d_revision d) \<noteq> revision then Inl (Raised DocumentVersionConflict)
         else
           (let (i, g1) = fresh_uuid g;
                hold = \<lparr>h_id = i, h_document = doc, h_reason = reason, h_state = Hold_Active,
                  h_revision = 1, h_created_by = actor, h_released_by = None,
                  h_created_at = now g1, h_released_at = None\<rparr>;
                g2 = cancel_pending doc (g1\<lparr>g_holds := g_holds g1 @ [hold]\<rparr>);
                g3 = bump_epoch g2
            in Inr ((hold, g_epoch g3), record_audit actor Legal_Hold_Change request
                 (record_retention Hold_Created (Some doc) actor (Some i) None request g3))))))"

definition release_hold :: "uuid \<Rightarrow> time \<Rightarrow> legal_hold \<Rightarrow> legal_hold" where
  "release_hold actor at_time h = h\<lparr>h_state := Hold_Released, h_revision := h_revision h + 1,
     h_released_by := Some actor, h_released_at := Some at_time\<rparr>"

definition release_document_legal_hold ::
  "uuid \<Rightarrow> uuid \<Rightarrow> uuid \<Rightarrow> uuid \<Rightarrow> int \<Rightarrow> int \<Rightarrow> pystr \<Rightarrow> governed
     \<Rightarrow> retention_error + (legal_hold \<times> int) \<times> governed" where
  "release_document_legal_hold session actor doc hold revision epoch request g =
    (if \<not> retention_positive None revision \<or> \<not> retention_positive None epoch
        \<or> \<not> retention_request_id request
     then Inl DocumentRetentionRefused
     else case lock_retention_architect g session actor (Some epoch) of
       Some e \<Rightarrow> Inl e
     | None \<Rightarrow>
    (case find (\<lambda>h. h_id h = hold \<and> h_document h = doc) (g_holds g) of
       None \<Rightarrow> Inl DocumentRetentionRefused
     | Some h \<Rightarrow>
        (if h_state h \<noteq> Hold_Active then Inl DocumentRetentionRefused
         else if h_revision h \<noteq> revision then Inl (Raised DocumentVersionConflict)
         else
           (let g1 = g\<lparr>g_holds := update_rows (\<lambda>r. h_id r = hold) (release_hold actor (now g)) (g_holds g)\<rparr>;
                g2 = bump_epoch g1
            in Inr ((release_hold actor (now g) h, g_epoch g2), record_audit actor Legal_Hold_Change request
                 (record_retention Hold_Lifted (Some doc) actor (Some hold) None request g2))))))"

section \<open>Scheduling a purge\<close>

text \<open>
  The partial unique index \<open>document_purge_jobs_open_idx\<close> refuses a second open job of a
  document.
\<close>

definition schedule_document_purge ::
  "uuid \<Rightarrow> uuid \<Rightarrow> uuid \<Rightarrow> int \<Rightarrow> int \<Rightarrow> pystr \<Rightarrow> governed \<Rightarrow> retention_error + purge_job \<times> governed" where
  "schedule_document_purge session actor doc revision epoch request g =
    (if \<not> retention_counter revision \<or> \<not> retention_positive None epoch
        \<or> \<not> retention_request_id request
     then Inl DocumentRetentionRefused
     else case lock_retention_architect g session actor (Some epoch) of
       Some e \<Rightarrow> Inl e
     | None \<Rightarrow>
    (case cat_doc g doc of
       None \<Rightarrow> Inl DocumentRetentionRefused
     | Some d \<Rightarrow>
        (if int (d_revision d) \<noteq> revision then Inl (Raised DocumentVersionConflict)
         else if d_purged_at d \<noteq> None then Inl DocumentRetentionRefused
         else case d_archived_at d of
           None \<Rightarrow> Inl DocumentRetentionRefused
         | Some archived \<Rightarrow>
        (if d_attempt_id d \<noteq> None then Inl DocumentRetentionRefused
         else if has_active_job (cat_db g) doc then Inl DocumentRetentionRefused
         else if held g doc then Inl DocumentRetentionRefused
         else if now g < archived + days_long (retention_days g) then Inl DocumentRetentionRefused
         else if list_ex (\<lambda>p. p_document p = doc \<and> open_purge p) (g_purges g)
         then Inl (Raised IntegrityError)
         else
           (let (i, g1) = fresh_uuid g;
                job = \<lparr>p_id = i, p_document = doc, p_scheduled_by = actor, p_state = Purge_Pending,
                  p_eligible_at = archived + days_long (retention_days g),
                  p_policy_revision = policy_revision g, p_policy_epoch = g_epoch g,
                  p_document_revision = int (d_revision d), p_attempt_count = 0, p_worker = None,
                  p_failure = None, p_request = request, p_created_at = now g1,
                  p_started_at = None, p_completed_at = None\<rparr>
            in Inr (job, record_audit actor Purge_Schedule request
                 (record_retention Purge_Scheduled (Some doc) actor None (Some i) request
                   (g1\<lparr>g_purges := g_purges g1 @ [job]\<rparr>))))))))"

section \<open>The tombstone\<close>

text \<open>The row \<open>complete_document_purge\<close> writes; \<open>text\<close> spells an identity as PostgreSQL does.\<close>

definition tombstone :: "(uuid \<Rightarrow> pystr) \<Rightarrow> time \<Rightarrow> document \<Rightarrow> document" where
  "tombstone spell at_time d = d\<lparr>d_filename := u ''purged-'' @ spell (d_id d), d_file_type := u ''purged'',
     d_status := u ''purged'', d_status_note := None, d_content_sha256 := None,
     d_candidate_id := None, d_candidate_state := None, d_active_content_sha := None,
     d_active_version_id := None, d_active_generation := 0, d_attempt_id := None,
     d_attempt_owner := None, d_attempt_expires_at := None, d_purged_at := Some at_time,
     d_revision := Suc (d_revision d)\<rparr>"

text \<open>\<open>rag_guard_document_purge_state\<close>, before every UPDATE of a document from \<open>old\<close> to \<open>new\<close>.\<close>

definition complete_tombstone :: "(uuid \<Rightarrow> pystr) \<Rightarrow> document \<Rightarrow> bool" where
  "complete_tombstone spell d = (d_archived_at d \<noteq> None
     \<and> d_filename d = u ''purged-'' @ spell (d_id d) \<and> d_file_type d = u ''purged''
     \<and> d_status d = u ''purged'' \<and> d_content_sha256 d = None \<and> d_candidate_id d = None
     \<and> d_candidate_state d = None \<and> d_active_content_sha d = None \<and> d_active_version_id d = None
     \<and> d_attempt_id d = None \<and> d_attempt_owner d = None \<and> d_attempt_expires_at d = None)"

definition guard_document_purge_state :: "(uuid \<Rightarrow> pystr) \<Rightarrow> document \<Rightarrow> document \<Rightarrow> ingest_error option" where
  "guard_document_purge_state spell old new =
    (if d_purged_at old \<noteq> None \<and> new \<noteq> old then Some RaisedException
     else if d_purged_at old = None \<and> d_purged_at new \<noteq> None \<and> \<not> complete_tombstone spell new
     then Some RaisedException
     else None)"

section \<open>Executing a purge\<close>

text \<open>
  The selection of \<open>claim_document_purge\<close>: \<open>locked\<close> are the documents whose rows other
  transactions hold at that moment (\<open>SKIP LOCKED\<close>).
\<close>

definition purgeable :: "governed \<Rightarrow> uuid \<Rightarrow> bool" where
  "purgeable g doc = (case cat_doc g doc of
     None \<Rightarrow> False
   | Some d \<Rightarrow> d_archived_at d \<noteq> None \<and> d_purged_at d = None \<and> d_attempt_id d = None)"

definition due_purge :: "uuid list \<Rightarrow> int \<Rightarrow> governed \<Rightarrow> purge_job \<Rightarrow> bool" where
  "due_purge locked max_attempts g p = (p_state p = Purge_Pending \<and> p_eligible_at p \<le> now g
     \<and> p_attempt_count p < max_attempts \<and> purgeable g (p_document p)
     \<and> \<not> has_active_job (cat_db g) (p_document p) \<and> \<not> held g (p_document p)
     \<and> p_document p \<notin> set locked)"

definition next_purge :: "uuid list \<Rightarrow> int \<Rightarrow> governed \<Rightarrow> purge_job option" where
  "next_purge locked max_attempts g =
    (case sort_key p_eligible_at (sort_key p_created_at (sort_key p_id
        (filter (due_purge locked max_attempts g) (g_purges g)))) of
       [] \<Rightarrow> None | p # _ \<Rightarrow> Some p)"

definition take_purge :: "pystr \<Rightarrow> time \<Rightarrow> purge_job \<Rightarrow> purge_job" where
  "take_purge worker at_time p = p\<lparr>p_state := Purge_Running, p_attempt_count := p_attempt_count p + 1,
     p_worker := Some worker, p_started_at := Some at_time, p_completed_at := None, p_failure := None\<rparr>"

record purge_claim =
  pc_job :: uuid
  pc_document :: uuid
  pc_attempt_count :: int
  pc_filename :: pystr
  pc_versions :: "uuid list"

definition claim_document_purge ::
  "(pystr \<Rightarrow> pystr) \<Rightarrow> uuid list \<Rightarrow> pystr \<Rightarrow> int \<Rightarrow> governed
     \<Rightarrow> retention_error + purge_claim option \<times> governed" where
  "claim_document_purge casefold locked worker_id max_attempts g =
    (case canonical_label casefold worker_id of
       Inl e \<Rightarrow> Inl (Raised e)
     | Inr (worker, _) \<Rightarrow>
        (if \<not> retention_positive (Some 20) max_attempts then Inl DocumentRetentionRefused
         else case next_purge locked max_attempts g of
           None \<Rightarrow> Inr (None, g)
         | Some p \<Rightarrow>
            (if 200 < length worker then Inl (Raised IntegrityError)
             else case cat_doc g (p_document p) of
               None \<Rightarrow> Inl (Raised IntegrityError)
             | Some d \<Rightarrow> Inr (Some \<lparr>pc_job = p_id p, pc_document = p_document p,
                   pc_attempt_count = p_attempt_count p + 1, pc_filename = d_filename d,
                   pc_versions = map v_id (sort_key v_number (sort_key v_id
                     (filter (\<lambda>v. v_document v = p_document p) (versions (cat_db g)))))\<rparr>,
                 g\<lparr>g_purges := update_rows (\<lambda>r. p_id r = p_id p) (take_purge worker (now g)) (g_purges g)\<rparr>))))"

text \<open>\<open>WHERE id = ... AND state = 'running' AND worker_id = ...\<close>\<close>

definition owned_purge :: "uuid \<Rightarrow> pystr \<Rightarrow> purge_job \<Rightarrow> bool" where
  "owned_purge i worker p = (p_id p = i \<and> p_state p = Purge_Running \<and> p_worker p = Some worker)"

definition erase_content :: "uuid \<Rightarrow> (document \<Rightarrow> document) \<Rightarrow> governed \<Rightarrow> governed" where
  "erase_content doc f g = g\<lparr>
     cat_db := update_doc doc f
       ((cat_db g)\<lparr>chunks := filter (\<lambda>c. c_document c \<noteq> doc) (chunks (cat_db g))\<rparr>),
     cat_members := filter (\<lambda>(k, d). d \<noteq> doc) (cat_members g),
     cat_labels := filter (\<lambda>(d, k). d \<noteq> doc) (cat_labels g)\<rparr>"

record purge_result =
  pr_removed_chunks :: nat
  pr_revision :: nat
  pr_purged_at :: time

definition complete_document_purge ::
  "(pystr \<Rightarrow> pystr) \<Rightarrow> (uuid \<Rightarrow> pystr) \<Rightarrow> uuid \<Rightarrow> pystr \<Rightarrow> governed
     \<Rightarrow> retention_error + purge_result \<times> governed" where
  "complete_document_purge casefold spell i worker_id g =
    (case canonical_label casefold worker_id of
       Inl e \<Rightarrow> Inl (Raised e)
     | Inr (worker, _) \<Rightarrow>
    (case find (owned_purge i worker) (g_purges g) of
       None \<Rightarrow> Inl PurgeJobOwnershipLost
     | Some p \<Rightarrow>
    (case cat_doc g (p_document p) of
       None \<Rightarrow> Inl DocumentRetentionRefused
     | Some d \<Rightarrow>
        (if \<not> purgeable g (p_document p) then Inl DocumentRetentionRefused
         else if held g (p_document p) \<or> has_active_job (cat_db g) (p_document p)
         then Inl DocumentRetentionRefused
         else
           (let new = tombstone spell (now g) d;
                gone = filter (\<lambda>c. c_document c = p_document p) (chunks (cat_db g));
                g1 = erase_content (p_document p) (tombstone spell (now g)) g
            in case guard_document_purge_state spell d new of
                 Some e \<Rightarrow> Inl (Raised e)
               | None \<Rightarrow>
                  (if list_ex (\<lambda>e. d_id e \<noteq> d_id d \<and> d_filename e = d_filename new) (docs (cat_db g))
                   then Inl (Raised IntegrityError)
                   else case activation_trigger d new (cat_db g1) of
                     Inl e \<Rightarrow> Inl (Raised e)
                   | Inr (_, s) \<Rightarrow>
                      (let g2 = g1\<lparr>cat_db := s, g_purges := update_rows
                             (\<lambda>r. p_id r = i \<and> p_worker r = Some worker)
                             (\<lambda>r. r\<lparr>p_state := Purge_Completed, p_completed_at := Some (now g),
                                    p_failure := None\<rparr>) (g_purges g1)\<rparr>
                       in Inr (\<lparr>pr_removed_chunks = length gone, pr_revision = d_revision new,
                              pr_purged_at = now g\<rparr>,
                            record_audit (p_scheduled_by p) Purge_Execute (p_request p)
                              (record_retention Purge_Executed (Some (p_document p)) (p_scheduled_by p)
                                None (Some i) (p_request p) g2)))))))))"

definition fail_document_purge ::
  "(pystr \<Rightarrow> pystr) \<Rightarrow> uuid \<Rightarrow> pystr \<Rightarrow> pystr \<Rightarrow> governed \<Rightarrow> retention_error + unit \<times> governed" where
  "fail_document_purge casefold i worker_id failure g =
    (case canonical_label casefold worker_id of
       Inl e \<Rightarrow> Inl (Raised e)
     | Inr (worker, _) \<Rightarrow>
        (if failure \<notin> set PURGE_FAILURE_CODES then Inl DocumentRetentionRefused
         else case find (owned_purge i worker) (g_purges g) of
           None \<Rightarrow> Inl PurgeJobOwnershipLost
         | Some p \<Rightarrow> Inr ((), record_retention Purge_Refused (Some (p_document p)) (p_scheduled_by p)
             None (Some i) (p_request p) (g\<lparr>g_purges := update_rows (\<lambda>r. p_id r = i)
               (\<lambda>r. r\<lparr>p_state := Purge_Failed, p_failure := Some failure,
                      p_completed_at := Some (now g)\<rparr>) (g_purges g)\<rparr>))))"

section \<open>One turn of the purge worker\<close>

text \<open>
  How the removal of the source objects ends: it returns, it raises one of the two errors the
  worker records, or it raises anything else (the process may also die there).
\<close>

datatype removal = Removed | Source_Corrupt | Source_Refused | Removal_Raised retention_error

text \<open>
  \<open>run_one\<close>: the claim, the removal and the verdict are one transaction of one connection, so
  every exception leaves the tenant as it was.
\<close>

definition run_one ::
  "(pystr \<Rightarrow> pystr) \<Rightarrow> (uuid \<Rightarrow> pystr) \<Rightarrow> (purge_claim \<Rightarrow> removal) \<Rightarrow> uuid list \<Rightarrow> pystr \<Rightarrow> int \<Rightarrow> governed
     \<Rightarrow> retention_error + bool \<times> governed" where
  "run_one casefold spell remove locked worker max_attempts g =
    (case claim_document_purge casefold locked worker max_attempts g of
       Inl e \<Rightarrow> Inl e
     | Inr (None, _) \<Rightarrow> Inr (False, g)
     | Inr (Some c, g1) \<Rightarrow>
        (case remove c of
           Source_Corrupt \<Rightarrow> map_sum id (\<lambda>(_, g2). (True, g2))
             (fail_document_purge casefold (pc_job c) worker (u ''storage_refused'') g1)
         | Source_Refused \<Rightarrow> map_sum id (\<lambda>(_, g2). (True, g2))
             (fail_document_purge casefold (pc_job c) worker (u ''storage_unavailable'') g1)
         | Removal_Raised e \<Rightarrow> Inl e
         | Removed \<Rightarrow> map_sum id (\<lambda>(_, g2). (True, g2))
             (complete_document_purge casefold spell (pc_job c) worker g1)))"

end
