(* ===== verification/Ingest_Frame.thy ===== *)
theory Ingest_Frame
  imports Ingest_Machine
begin

text \<open>
  What an ingest transaction cannot do, for the parts of the program that keep tables of their
  own beside the ingest database: it never gives an identity twice, never marks a document
  purged, and stores a chunk only for a document whose lease an attempt holds.
\<close>

definition purged_before :: "document list \<Rightarrow> document list \<Rightarrow> bool" where
  "purged_before ds ds' \<longleftrightarrow> (\<forall>d'\<in>set ds'. d_purged_at d' \<noteq> None \<longrightarrow>
     (\<exists>d\<in>set ds. d_id d = d_id d' \<and> d_purged_at d = d_purged_at d'))"

definition confined :: "db \<Rightarrow> db \<Rightarrow> bool" where
  "confined s t \<longleftrightarrow> uuid_next s \<le> uuid_next t \<and> purged_before (docs s) (docs t)
     \<and> (\<forall>c\<in>set (chunks t). c \<in> set (chunks s)
          \<or> (\<exists>d\<in>set (docs s). d_id d = c_document c \<and> d_attempt_id d \<noteq> None))"

lemma purged_before_refl [simp]: "purged_before ds ds"
  by (auto simp: purged_before_def)

lemma purged_before_update [simp]:
  assumes "\<And>d. d_id (f d) = d_id d" "\<And>d. d_purged_at (f d) = d_purged_at d"
  shows "purged_before ds (update_rows p f ds)"
  using assms by (auto simp: purged_before_def set_update_rows)

lemma purged_before_new:
  "d_purged_at d = None \<Longrightarrow> purged_before ds (ds @ [d])"
  by (auto simp: purged_before_def)

lemma purged_before_trans: "purged_before a b \<Longrightarrow> purged_before b c \<Longrightarrow> purged_before a c"
  unfolding purged_before_def by metis

lemma confined_refl [simp]: "confined s s"
  by (auto simp: confined_def)

lemma stage_columns_purged [simp]: "d_purged_at (stage_columns sha cid d) = d_purged_at d"
  by (simp add: stage_columns_def Let_def)

lemma stage_confined:
  assumes "stage_candidate lower filename ftype sha allow s = Inr (r, t)"
  shows "confined s t"
proof -
  from assms obtain d s1 s2 where st: "stage_document lower filename ftype sha allow s = Inr (d, s1)"
      "allocate_version d sha s1 = Inr ((), s2)" "t = fence_attempts (d_id d) (d_candidate_id d) s2"
    by (auto simp: stage_candidate_def split: sum.splits)
  note fr = allocate_version_frame [OF st(2)]
  have t: "docs t = docs s2" "chunks t = chunks s1" "uuid_next t = uuid_next s1"
    using st(3) fr by (simp_all add: fence_attempts_def close_attempts_def)
  have "uuid_next s \<le> uuid_next s1 \<and> chunks s1 = chunks s \<and> purged_before (docs s) (docs s1)"
    using st(1)
  proof (cases rule: stage_document_cases)
    case fresh_row
    from fresh_row(1) have "d_purged_at d = None"
      by (rule arg_cong [where f = d_purged_at, THEN trans]) (simp add: new_document_def)
    with fresh_row(2) show ?thesis by (simp add: purged_before_new)
  qed simp_all
  moreover have "purged_before (docs s1) (docs t)"
    using fr(7) t by auto
  ultimately show ?thesis unfolding confined_def t by (auto intro: purged_before_trans)
qed

lemma chunks_confined:
  assumes "db_inv s" "handle_ok s att" "authority s att = None" "t = s\<lparr>chunks := chunks s @ new\<rparr>"
    and "\<forall>c\<in>set new. c_version c = Some (candidate_id att) \<and> has_version s (c_document c) (candidate_id att)"
  shows "confined s t"
proof -
  obtain d where d: "d \<in> set (docs s)" "d_id d = document_id att" "d_attempt_id d = Some (attempt_id att)"
    using assms(3) by (rule authority_NoneD)
  have "c_document c = document_id att" if "c \<in> set new" for c
    using assms(2,5) that version_unique [OF db_invD(1) [OF assms(1)]]
    unfolding handle_ok_def has_version_def by metis
  with d assms(4) show ?thesis by (auto simp: confined_def)
qed

lemma activation_confined:
  assumes "activation_trigger old new (update_doc i f s) = Inr ((), t)"
    and "\<And>d. d_id (f d) = d_id d" "\<And>d. d_purged_at (f d) = d_purged_at d"
  shows "confined s t"
  using activation_trigger_frame [OF assms(1)] assms(2,3)
  by (simp add: confined_def update_doc_def)

lemma begin_confined: "begin_attempt ttl default_owner doc owner job worker s = Inr (att, t) \<Longrightarrow> confined s t"
  by (elim begin_attempt_cases) (auto simp: confined_def update_doc_def close_attempts_def)

lemma promote_confined:
  assumes "promote_generation doc gen expected manifest sha cand att s = Inr (n, t)"
  shows "confined s t"
  using assms
proof (cases rule: promote_cases)
  case (1 candidate attempt r d s1)
  have "confined s s1" by (rule activation_confined [OF 1(16)]) (simp_all add: promoted_def clear_lease_def)
  with 1(17) show ?thesis by (auto simp: confined_def)
qed

lemma activate_confined:
  assumes "activate_document_version doc version expected sha s = Inr (r, t)"
  shows "confined s t"
  using assms
proof (cases rule: activate_cases)
  case (changed d v b)
  show ?thesis by (rule activation_confined [OF changed(8)]) (simp_all add: activated_def)
qed simp

lemma finalize_confined: "finalize_candidate_publication doc cid s = Inr (r, t) \<Longrightarrow> confined s t"
  by (auto simp: confined_def finalize_candidate_publication_def Let_def)

lemma heartbeat_confined: "heartbeat_attempt ttl att s = Inr (r, t) \<Longrightarrow> confined s t"
  by (auto simp: confined_def heartbeat_attempt_def update_doc_def split: option.splits)

lemma outcome_confined: "record_attempt_outcome att status note s = Inr (r, t) \<Longrightarrow> confined s t"
  by (auto simp: confined_def record_attempt_outcome_def Let_def clear_lease_def split: option.splits)

lemma allocate_confined: "allocate_generation doc att s = Inr (r, t) \<Longrightarrow> confined s t"
  by (auto simp: confined_def allocate_generation_def update_doc_def split: option.splits)

lemma archive_confined: "set_document_archived doc archived s = Inr (r, t) \<Longrightarrow> confined s t"
  by (auto simp: confined_def set_document_archived_def update_doc_def Let_def split: option.splits if_splits)

lemma status_confined: "set_document_status doc status note expected cid s = Inr (r, t) \<Longrightarrow> confined s t"
  by (auto simp: confined_def set_document_status_def Let_def)

lemma enqueue_confined: "enqueue_ingest_job sha256 doc key s = Inr (r, t) \<Longrightarrow> confined s t"
  by (elim enqueue_cases) (auto simp: confined_def)

lemma claim_confined: "claim_ingest_job casefold worker secs most s = Inr (r, t) \<Longrightarrow> confined s t"
  by (elim claim_cases) (auto simp: confined_def close_exhausted_def)

lemma beat_confined: "heartbeat_ingest_job i worker secs s = Inr (r, t) \<Longrightarrow> confined s t"
  by (auto simp: confined_def heartbeat_ingest_job_def split: if_splits)

lemma finish_confined: "finish_ingest_job i worker status note s = Inr (r, t) \<Longrightarrow> confined s t"
  by (elim finish_cases) (auto simp: confined_def)

lemma retry_confined: "retry_ingest_job i worker note most s = Inr (r, t) \<Longrightarrow> confined s t"
  by (elim retry_cases) (auto simp: confined_def)

lemma cancel_confined: "cancel_ingest_job i s = Inr (r, t) \<Longrightarrow> confined s t"
  by (elim cancel_cases) (auto simp: confined_def)

lemmas operations_confined = stage_confined begin_confined promote_confined activate_confined
  finalize_confined heartbeat_confined outcome_confined allocate_confined archive_confined
  status_confined enqueue_confined claim_confined beat_confined finish_confined retry_confined
  cancel_confined

lemma upsert_confined:
  assumes "db_inv s" "handle_ok s att" "upsert_chunks rows att s = Inr (r, t)"
  shows "confined s t"
  using assms(3) by (rule upsert_chunks_suffix) (rule chunks_confined [OF assms(1,2)])

lemma copy_confined:
  assumes "db_inv s" "handle_ok s att" "copy_chunks_into_generation rows att s = Inr (r, t)"
  shows "confined s t"
  using assms(3) by (rule copy_chunks_suffix) (rule chunks_confined [OF assms(1,2)])

lemma transact_confined:
  assumes "db_inv s" "\<And>att. event_handle ev = Some att \<Longrightarrow> handle_ok s att"
  shows "confined s (transact env ev s)"
proof (cases ev)
  case (Tick n)
  then show ?thesis by (simp add: confined_def)
next
  case (Upsert rows att)
  with assms(2) have "handle_ok s att" by simp
  with assms(1) Upsert show ?thesis
    by (simp only: transact.simps) (rule after_keep [where P = "confined s", OF confined_refl], erule (2) upsert_confined)
next
  case (Copy rows att)
  with assms(2) have "handle_ok s att" by simp
  with assms(1) Copy show ?thesis
    by (simp only: transact.simps) (rule after_keep [where P = "confined s", OF confined_refl], erule (2) copy_confined)
qed (simp only: transact.simps, rule after_keep [where P = "confined s", OF confined_refl], erule operations_confined)+
end
