(* ===== verification/Retention_Machine.thy ===== *)
theory Retention_Machine
  imports Retention Ingest_Frame
begin

text \<open>
  A governed tenant under every interleaving of its transactions: the calls of the ingest
  pipeline, of the people who organise the documents, of the architect and of the purge worker,
  each one transaction. Every UPDATE of a document passes the tombstone trigger, so a call of
  the ingest pipeline that would write a purged row is refused. The locale of machines is
  interpreted on the governed tenant, and a second one on the facts that never end: a tombstone
  and the log.
\<close>

section \<open>The machine\<close>

text \<open>
  \<open>Appoint\<close> and \<open>Amend\<close> stand for the organisation's own operations, which decide who is an
  active architect and move the policy epoch.
\<close>

datatype governance_event =
    Ingest ingest_event
  | New_Collection pystr
  | Drop_Collection uuid
  | Attach uuid uuid bool
  | Drop_Tag uuid
  | Tag_Document uuid "pystr list"
  | Set_Policy uuid uuid int int int pystr
  | Hold uuid uuid uuid pystr int int pystr
  | Release uuid uuid uuid uuid int int pystr
  | Schedule uuid uuid uuid int int pystr
  | Purge "uuid list" removal pystr int
  | Appoint uuid bool
  | Amend

definition ingest_part :: "governed \<Rightarrow> ingest_system" where
  "ingest_part g = \<lparr>store = cat_db g, handles = g_handles g\<rparr>"

text \<open>The tombstone trigger let every row of the transaction pass.\<close>

definition passes_guard :: "(uuid \<Rightarrow> pystr) \<Rightarrow> db \<Rightarrow> db \<Rightarrow> bool" where
  "passes_guard spell s t = list_all (\<lambda>d. list_all (\<lambda>e. d_id e = d_id d \<longrightarrow>
     guard_document_purge_state spell d e = None) (docs t)) (docs s)"

definition ingest_call :: "ingest_env \<Rightarrow> (uuid \<Rightarrow> pystr) \<Rightarrow> ingest_event \<Rightarrow> governed \<Rightarrow> governed" where
  "ingest_call env spell ev g =
    (let t = exec_event env ev (ingest_part g)
     in if passes_guard spell (cat_db g) (store t) then g\<lparr>cat_db := store t, g_handles := handles t\<rparr> else g)"

fun govern :: "ingest_env \<Rightarrow> (uuid \<Rightarrow> pystr) \<Rightarrow> governance_event \<Rightarrow> governed \<Rightarrow> governed" where
  "govern env spell (Ingest ev) g = ingest_call env spell ev g"
| "govern env spell (New_Collection name) g = after (create_collection (env_casefold env) name g) g"
| "govern env spell (Drop_Collection i) g = after (delete_collection i g) g"
| "govern env spell (Attach i doc present) g = after (set_collection_document i doc present g) g"
| "govern env spell (Drop_Tag i) g = after (delete_tag i g) g"
| "govern env spell (Tag_Document doc given) g = after (replace_document_tags (env_casefold env) doc given g) g"
| "govern env spell (Set_Policy session actor days revision epoch request) g =
     after (update_tenant_retention_policy session actor days revision epoch request g) g"
| "govern env spell (Hold session actor doc reason revision epoch request) g =
     after (create_document_legal_hold session actor doc reason revision epoch request g) g"
| "govern env spell (Release session actor doc hold revision epoch request) g =
     after (release_document_legal_hold session actor doc hold revision epoch request g) g"
| "govern env spell (Schedule session actor doc revision epoch request) g =
     after (schedule_document_purge session actor doc revision epoch request g) g"
| "govern env spell (Purge locked outcome worker max_attempts) g =
     after (run_one (env_casefold env) spell (\<lambda>c. outcome) locked worker max_attempts g) g"
| "govern env spell (Appoint actor active) g =
     g\<lparr>g_architects := (actor, active) # filter (\<lambda>a. fst a \<noteq> actor) (g_architects g)\<rparr>"
| "govern env spell Amend g = bump_epoch g"

definition allowed :: "governance_event \<Rightarrow> governed \<Rightarrow> bool" where
  "allowed ev g = (case ev of Ingest e \<Rightarrow> permitted e (ingest_part g) | _ \<Rightarrow> True)"

definition governed_step :: "ingest_env \<Rightarrow> (uuid \<Rightarrow> pystr) \<Rightarrow> governed \<Rightarrow> governed \<Rightarrow> bool" where
  "governed_step env spell g h = (\<exists>ev. allowed ev g \<and> h = govern env spell ev g)"

definition empty_tenant :: governed where
  "empty_tenant = \<lparr>cat_db = empty_db, cat_collections = [], cat_tags = [], cat_members = [],
     cat_labels = [], g_handles = [], g_architects = [], g_epoch = 1, g_policy = None, g_holds = [],
     g_purges = [], g_events = [], g_audit = []\<rparr>"

definition governed_init :: "governed \<Rightarrow> bool" where
  "governed_init g = (g = empty_tenant)"

fun run_governance ::
  "ingest_env \<Rightarrow> (uuid \<Rightarrow> pystr) \<Rightarrow> governance_event list \<Rightarrow> governed \<Rightarrow> governed option" where
  "run_governance env spell [] g = Some g"
| "run_governance env spell (ev # evs) g =
    (if allowed ev g then run_governance env spell evs (govern env spell ev g) else None)"

lemma run_governance_steps: "run_governance env spell evs g = Some h \<Longrightarrow> (governed_step env spell)\<^sup>*\<^sup>* g h"
proof (induction evs arbitrary: g)
  case (Cons ev evs)
  then have "governed_step env spell g (govern env spell ev g)" "(governed_step env spell)\<^sup>*\<^sup>* (govern env spell ev g) h"
    by (auto simp: governed_step_def [abs_def] split: if_splits)
  then show ?case by (rule converse_rtranclp_into_rtranclp)
qed simp

section \<open>The invariant\<close>

definition purged_in :: "document list \<Rightarrow> uuid \<Rightarrow> bool" where
  "purged_in ds i \<longleftrightarrow> (\<exists>d\<in>set ds. d_id d = i \<and> d_purged_at d \<noteq> None)"

definition active_hold :: "legal_hold list \<Rightarrow> uuid \<Rightarrow> bool" where
  "active_hold hs i \<longleftrightarrow> (\<exists>h\<in>set hs. h_document h = i \<and> h_state h = Hold_Active)"

lemma held_iff: "held g i \<longleftrightarrow> active_hold (g_holds g) i"
  by (simp add: held_def active_hold_def list_ex_iff)

text \<open>A purged document is a full tombstone without content that a completed job accounts for.\<close>

definition tombs_ok :: "(uuid \<Rightarrow> pystr) \<Rightarrow> document list \<Rightarrow> chunk list \<Rightarrow> purge_job list \<Rightarrow> bool" where
  "tombs_ok spell ds cs ps \<longleftrightarrow> (\<forall>d\<in>set ds. d_purged_at d \<noteq> None \<longrightarrow>
     complete_tombstone spell d \<and> (\<forall>c\<in>set cs. c_document c \<noteq> d_id d)
     \<and> (\<exists>p\<in>set ps. p_document p = d_id d \<and> p_state p = Purge_Completed))"

definition holds_ok :: "uuid \<Rightarrow> document list \<Rightarrow> legal_hold list \<Rightarrow> bool" where
  "holds_ok n ds hs \<longleftrightarrow> distinct (map h_id hs)
     \<and> (\<forall>h\<in>set hs. h_id h < n \<and> h_document h \<in> d_id ` set ds
          \<and> (h_state h = Hold_Active \<longrightarrow> \<not> purged_in ds (h_document h)))"

text \<open>
  No purge is ever seen running, a pending one was never attempted, and a document has at most
  one: its row and its holds allow it.
\<close>

definition purges_ok :: "uuid \<Rightarrow> document list \<Rightarrow> legal_hold list \<Rightarrow> purge_job list \<Rightarrow> bool" where
  "purges_ok n ds hs ps \<longleftrightarrow> distinct (map p_id ps)
     \<and> (\<forall>p\<in>set ps. p_id p < n \<and> p_document p \<in> d_id ` set ds \<and> p_state p \<noteq> Purge_Running
          \<and> (p_state p = Purge_Pending \<longrightarrow> p_attempt_count p = 0 \<and> p_worker p = None
               \<and> \<not> purged_in ds (p_document p) \<and> \<not> active_hold hs (p_document p))
          \<and> (p_state p = Purge_Completed \<longrightarrow> purged_in ds (p_document p)))
     \<and> (\<forall>p\<in>set ps. \<forall>q\<in>set ps. p_state p = Purge_Pending \<longrightarrow> p_state q = Purge_Pending \<longrightarrow>
          p_document p = p_document q \<longrightarrow> p = q)"

definition policy_ok :: "governed \<Rightarrow> bool" where
  "policy_ok g \<longleftrightarrow> 1 \<le> g_epoch g \<and> (case g_policy g of None \<Rightarrow> True
     | Some p \<Rightarrow> 1 \<le> rp_days p \<and> rp_days p \<le> 3650 \<and> 1 \<le> rp_revision p)"

definition governed_inv :: "(uuid \<Rightarrow> pystr) \<Rightarrow> governed \<Rightarrow> bool" where
  "governed_inv spell g \<longleftrightarrow> system_inv (ingest_part g) \<and> catalogue_ok g
     \<and> tombs_ok spell (docs (cat_db g)) (chunks (cat_db g)) (g_purges g)
     \<and> holds_ok (uuid_next (cat_db g)) (docs (cat_db g)) (g_holds g)
     \<and> purges_ok (uuid_next (cat_db g)) (docs (cat_db g)) (g_holds g) (g_purges g)
     \<and> policy_ok g"

lemma governed_inv_init: "governed_inv spell empty_tenant"
  by (simp add: governed_inv_def empty_tenant_def ingest_part_def system_inv_def catalogue_ok_def
      label_rows_ok_def pairs_ok_def tombs_ok_def holds_ok_def purges_ok_def policy_ok_def empty_db_def [symmetric])
    (simp add: empty_db_def)

lemma governed_invD:
  assumes "governed_inv spell g"
  shows "system_inv (ingest_part g)" "db_inv (cat_db g)" "catalogue_ok g"
    "tombs_ok spell (docs (cat_db g)) (chunks (cat_db g)) (g_purges g)"
    "holds_ok (uuid_next (cat_db g)) (docs (cat_db g)) (g_holds g)"
    "purges_ok (uuid_next (cat_db g)) (docs (cat_db g)) (g_holds g) (g_purges g)"
    "policy_ok g"
  using assms by (auto simp: governed_inv_def system_inv_def ingest_part_def)

lemma holds_ok_mono:
  assumes "holds_ok n ds hs" "n \<le> m" "d_id ` set ds \<subseteq> d_id ` set ds'" "\<And>i. purged_in ds' i \<Longrightarrow> purged_in ds i"
  shows "holds_ok m ds' hs"
  using assms by (fastforce simp: holds_ok_def)

lemma purges_ok_mono:
  assumes "purges_ok n ds hs ps" "n \<le> m" "d_id ` set ds \<subseteq> d_id ` set ds'" "purged_in ds' = purged_in ds"
  shows "purges_ok m ds' hs ps"
  using assms unfolding purges_ok_def by (metis less_le_trans subsetD)

lemma db_inv_more_ids: "db_inv s \<Longrightarrow> uuid_next s \<le> n \<Longrightarrow> db_inv (s\<lparr>uuid_next := n\<rparr>)"
  by (auto simp: db_inv_def intro: ids_ok_mono)

lemma system_inv_more_ids:
  "system_inv \<lparr>store = s, handles = hs\<rparr> \<Longrightarrow> uuid_next s \<le> n \<Longrightarrow> system_inv \<lparr>store = s\<lparr>uuid_next := n\<rparr>, handles = hs\<rparr>"
  by (simp add: system_inv_def db_inv_more_ids handle_ok_def)

section \<open>Organising keeps the invariant\<close>

lemma organised_inv:
  assumes "governed_inv spell g" "organised g g'" "catalogue_ok g'"
  shows "governed_inv spell g'"
proof -
  note I = governed_invD [OF assms(1)]
  from assms(2) obtain n cs ts ms ls where n: "uuid_next (cat_db g) \<le> n" and g': "g' = g\<lparr>cat_db := (cat_db g)\<lparr>uuid_next := n\<rparr>,
     cat_collections := cs, cat_tags := ts, cat_members := ms, cat_labels := ls\<rparr>"
    unfolding organised_def by blast
  have "holds_ok n (docs (cat_db g)) (g_holds g)" "purges_ok n (docs (cat_db g)) (g_holds g) (g_purges g)"
    using I(5,6) n by (auto intro: holds_ok_mono purges_ok_mono)
  with I assms(3) n show ?thesis
    by (simp add: governed_inv_def g' ingest_part_def system_inv_more_ids policy_ok_def)
qed

section \<open>Ingest calls keep the invariant\<close>

lemma purged_docs_same:
  assumes "confined s t" "history s t" "passes_guard spell s t"
  shows "{d \<in> set (docs t). d_purged_at d \<noteq> None} = {d \<in> set (docs s). d_purged_at d \<noteq> None}"
proof -
  have same: "e = d" if "d \<in> set (docs s)" "d_purged_at d \<noteq> None" "e \<in> set (docs t)" "d_id e = d_id d" for d e
  proof -
    have "guard_document_purge_state spell d e = None"
      using assms(3) that by (auto simp: passes_guard_def list_all_iff)
    with that(2) show ?thesis by (auto simp: guard_document_purge_state_def split: if_splits)
  qed
  have "e \<in> set (docs s)" if "e \<in> set (docs t)" "d_purged_at e \<noteq> None" for e
    using assms(1) that same unfolding confined_def purged_before_def by metis
  moreover have "d \<in> set (docs t)" if "d \<in> set (docs s)" "d_purged_at d \<noteq> None" for d
    using assms(2) that same unfolding history_def docs_grow_def doc_grows_def by metis
  ultimately show ?thesis by auto
qed

lemma docs_grow_ids: "docs_grow ds ds' \<Longrightarrow> d \<in> set ds \<Longrightarrow> d_id d \<in> d_id ` set ds'"
  unfolding docs_grow_def doc_grows_def by (metis image_eqI)

lemma ingest_call_inv:
  assumes "governed_inv spell g" "permitted ev (ingest_part g)"
  shows "governed_inv spell (ingest_call env spell ev g)"
proof (cases "passes_guard spell (cat_db g) (transact env ev (cat_db g))")
  case False
  with assms(1) show ?thesis by (simp add: ingest_call_def Let_def exec_event_def ingest_part_def)
next
  case guard: True
  let ?s = "cat_db g" and ?t = "transact env ev (cat_db g)"
  note I = governed_invD [OF assms(1)]
  have sys: "system_inv (exec_event env ev (ingest_part g))"
    by (rule exec_event_inv [OF I(1) assms(2)])
  have "\<And>att. event_handle ev = Some att \<Longrightarrow> handle_ok ?s att"
    using I(1) assms(2) by (auto simp: permitted_def system_inv_def ingest_part_def)
  from transact_confined [OF I(2) this] have conf: "confined ?s ?t" .
  have hist: "history ?s ?t" by (rule transact_history [OF I(2)])
  note same = purged_docs_same [OF conf hist guard]
  have ids_up: "uuid_next ?s \<le> uuid_next ?t" using conf by (simp add: confined_def)
  have ids: "d_id ` set (docs ?s) \<subseteq> d_id ` set (docs ?t)"
    using hist by (auto simp: history_def dest: docs_grow_ids)
  have purged: "purged_in (docs ?t) = purged_in (docs ?s)"
    by (rule ext) (use same in \<open>auto simp: purged_in_def set_eq_iff\<close>)
  have "tombs_ok spell (docs ?t) (chunks ?t) (g_purges g)"
    unfolding tombs_ok_def
  proof (intro ballI impI)
    fix d
    assume "d \<in> set (docs ?t)" "d_purged_at d \<noteq> None"
    with same have d: "d \<in> set (docs ?s)" "d_purged_at d \<noteq> None" by auto
    with I(4) have tomb: "complete_tombstone spell d" "\<forall>c\<in>set (chunks ?s). c_document c \<noteq> d_id d"
        "\<exists>p\<in>set (g_purges g). p_document p = d_id d \<and> p_state p = Purge_Completed"
      by (auto simp: tombs_ok_def)
    have "c_document c \<noteq> d_id d" if "c \<in> set (chunks ?t)" for c
    proof
      assume "c_document c = d_id d"
      with conf that tomb(2) obtain e where "e \<in> set (docs ?s)" "d_id e = d_id d" "d_attempt_id e \<noteq> None"
        unfolding confined_def by metis
      from this(1,2) have "e = d" by (rule doc_unique [OF db_invD(1) [OF I(2)] _ d(1)])
      with tomb(1) \<open>d_attempt_id e \<noteq> None\<close> show False by (simp add: complete_tombstone_def)
    qed
    with tomb show "complete_tombstone spell d \<and> (\<forall>c\<in>set (chunks ?t). c_document c \<noteq> d_id d)
        \<and> (\<exists>p\<in>set (g_purges g). p_document p = d_id d \<and> p_state p = Purge_Completed)" by blast
  qed
  moreover have "holds_ok (uuid_next ?t) (docs ?t) (g_holds g)"
    by (rule holds_ok_mono [OF I(5) ids_up ids]) (simp add: purged)
  moreover have "purges_ok (uuid_next ?t) (docs ?t) (g_holds g) (g_purges g)"
    by (rule purges_ok_mono [OF I(6) ids_up ids purged])
  moreover have "catalogue_ok (g\<lparr>cat_db := ?t, g_handles := h\<rparr>)" for h
    using I(3) ids ids_up by (auto simp: catalogue_ok_def intro: label_rows_ok_mono pairs_ok_mono)
  ultimately show ?thesis
    using guard sys I(7)
    by (simp add: ingest_call_def Let_def exec_event_def ingest_part_def governed_inv_def policy_ok_def)
qed

section \<open>Governance keeps the invariant\<close>

lemma lock_NoneD:
  assumes "lock_retention_architect g session actor expected = None"
  shows "retention_architect g session actor" "\<And>e. expected = Some e \<Longrightarrow> e = g_epoch g"
  using assms by (auto simp: lock_retention_architect_def split: if_splits)

lemma update_policy_cases:
  assumes "update_tenant_retention_policy session actor days revision epoch request g = Inr (view, g')"
  obtains g2 where "retention_architect g session actor" "epoch = g_epoch g" "revision = policy_revision g"
    "1 \<le> days" "days \<le> 3650" "1 \<le> revision" "retention_request_id request"
    "g2 = bump_epoch (g\<lparr>g_policy := Some \<lparr>rp_days = days, rp_revision = revision + 1,
       rp_updated_by = actor, rp_updated_at = now g\<rparr>\<rparr>)" "view = policy_view_of g2"
    "g' = record_audit actor Retention_Policy_Change request
       (record_retention Policy_Changed None actor None None request g2)"
proof -
  let ?lock = "lock_retention_architect g session actor (Some epoch)"
  from assms have v: "1 \<le> days" "days \<le> 3650" "1 \<le> revision" "retention_request_id request" and l: "?lock = None"
    by (auto simp: update_tenant_retention_policy_def retention_positive_def split: if_splits option.splits)
  from assms v l have "policy_revision g = revision"
    by (simp add: update_tenant_retention_policy_def split: if_splits)
  with assms v l lock_NoneD [OF l] show ?thesis
    by (intro that [OF _ _ _ _ _ _ _ refl]) (auto simp: update_tenant_retention_policy_def Let_def split: if_splits)
qed

lemma create_hold_cases:
  assumes "create_document_legal_hold session actor doc reason revision epoch request g = Inr (r, g')"
  obtains d hold where "retention_architect g session actor" "epoch = g_epoch g" "cat_doc g doc = Some d"
    "d_purged_at d = None" "revision = int (d_revision d)" "reason \<in> set LEGAL_HOLD_REASONS" "retention_request_id request"
    "hold = \<lparr>h_id = uuid_next (cat_db g), h_document = doc, h_reason = reason, h_state = Hold_Active,
       h_revision = 1, h_created_by = actor, h_released_by = None, h_created_at = now g, h_released_at = None\<rparr>"
    "r = (hold, g_epoch g + 1)"
    "g' = g\<lparr>cat_db := (cat_db g)\<lparr>uuid_next := Suc (uuid_next (cat_db g))\<rparr>,
       g_holds := g_holds g @ [hold],
       g_purges := update_rows (\<lambda>p. p_document p = doc \<and> p_state p = Purge_Pending)
         (\<lambda>p. p\<lparr>p_state := Purge_Cancelled, p_completed_at := Some (now g)\<rparr>) (g_purges g),
       g_epoch := g_epoch g + 1,
       g_events := g_events g @ [\<lparr>re_type = Hold_Created, re_document = Some doc, re_actor = actor,
         re_hold = Some (uuid_next (cat_db g)), re_purge = None, re_request = request\<rparr>],
       g_audit := g_audit g @ [\<lparr>oa_actor = actor, oa_action = Legal_Hold_Change, oa_request = request\<rparr>]\<rparr>"
proof -
  let ?lock = "lock_retention_architect g session actor (Some epoch)"
  from assms have v: "reason \<in> set LEGAL_HOLD_REASONS" "retention_counter revision" "retention_positive None epoch"
      "retention_request_id request" and l: "?lock = None"
    by (auto simp: create_document_legal_hold_def split: if_splits option.splits)
  from assms v l obtain d where d: "cat_doc g doc = Some d"
    by (simp add: create_document_legal_hold_def split: option.splits)
  from assms v l d have p: "d_purged_at d = None" "revision = int (d_revision d)"
    by (auto simp: create_document_legal_hold_def split: if_splits)
  from assms v l d p lock_NoneD [OF l] show ?thesis
    by (intro that [of d, OF _ _ _ _ _ _ _ refl]) (auto simp: create_document_legal_hold_def Let_def fresh_uuid_eq now_def cancel_pending_def
        bump_epoch_def record_audit_def record_retention_def)
qed

lemma release_hold_cases:
  assumes "release_document_legal_hold session actor doc hold revision epoch request g = Inr (r, g')"
  obtains h where "retention_architect g session actor" "epoch = g_epoch g" "h \<in> set (g_holds g)" "h_id h = hold"
    "h_document h = doc" "h_state h = Hold_Active" "h_revision h = revision" "retention_request_id request"
    "r = (release_hold actor (now g) h, g_epoch g + 1)"
    "g' = g\<lparr>g_holds := update_rows (\<lambda>r. h_id r = hold) (release_hold actor (now g)) (g_holds g),
       g_epoch := g_epoch g + 1,
       g_events := g_events g @ [\<lparr>re_type = Hold_Lifted, re_document = Some doc, re_actor = actor,
         re_hold = Some hold, re_purge = None, re_request = request\<rparr>],
       g_audit := g_audit g @ [\<lparr>oa_actor = actor, oa_action = Legal_Hold_Change, oa_request = request\<rparr>]\<rparr>"
proof -
  let ?lock = "lock_retention_architect g session actor (Some epoch)"
  from assms have v: "retention_positive None revision" "retention_positive None epoch"
      "retention_request_id request" and l: "?lock = None"
    by (auto simp: release_document_legal_hold_def split: if_splits option.splits)
  from assms v l obtain h where h: "find (\<lambda>h. h_id h = hold \<and> h_document h = doc) (g_holds g) = Some h"
    by (simp add: release_document_legal_hold_def split: option.splits)
  from assms v l h have p: "h_state h = Hold_Active" "h_revision h = revision"
    by (auto simp: release_document_legal_hold_def split: if_splits)
  from assms v l h p lock_NoneD [OF l] find_SomeD [OF h] show ?thesis
    by (intro that [of h]) (auto simp: release_document_legal_hold_def Let_def
        bump_epoch_def record_audit_def record_retention_def)
qed

lemma schedule_purge_cases:
  assumes "schedule_document_purge session actor doc revision epoch request g = Inr (job, g')"
  obtains d archived where "retention_architect g session actor" "epoch = g_epoch g" "cat_doc g doc = Some d"
    "revision = int (d_revision d)" "d_purged_at d = None" "d_archived_at d = Some archived" "d_attempt_id d = None"
    "\<not> has_active_job (cat_db g) doc" "\<not> held g doc" "archived + days_long (retention_days g) \<le> now g"
    "\<not> list_ex (\<lambda>p. p_document p = doc \<and> open_purge p) (g_purges g)" "retention_request_id request"
    "job = \<lparr>p_id = uuid_next (cat_db g), p_document = doc, p_scheduled_by = actor, p_state = Purge_Pending,
       p_eligible_at = archived + days_long (retention_days g), p_policy_revision = policy_revision g,
       p_policy_epoch = g_epoch g, p_document_revision = revision, p_attempt_count = 0, p_worker = None,
       p_failure = None, p_request = request, p_created_at = now g, p_started_at = None, p_completed_at = None\<rparr>"
    "g' = g\<lparr>cat_db := (cat_db g)\<lparr>uuid_next := Suc (uuid_next (cat_db g))\<rparr>, g_purges := g_purges g @ [job],
       g_events := g_events g @ [\<lparr>re_type = Purge_Scheduled, re_document = Some doc, re_actor = actor,
         re_hold = None, re_purge = Some (uuid_next (cat_db g)), re_request = request\<rparr>],
       g_audit := g_audit g @ [\<lparr>oa_actor = actor, oa_action = Purge_Schedule, oa_request = request\<rparr>]\<rparr>"
proof -
  let ?lock = "lock_retention_architect g session actor (Some epoch)"
  from assms have v: "retention_counter revision" "retention_positive None epoch"
      "retention_request_id request" and l: "?lock = None"
    by (auto simp: schedule_document_purge_def split: if_splits option.splits)
  from assms v l obtain d where d: "cat_doc g doc = Some d"
    by (simp add: schedule_document_purge_def split: option.splits)
  from assms v l d have r: "revision = int (d_revision d)" "d_purged_at d = None"
    by (auto simp: schedule_document_purge_def split: if_splits)
  from assms v l d r obtain archived where a: "d_archived_at d = Some archived"
    by (simp add: schedule_document_purge_def split: option.splits)
  from assms v l d r a have p: "d_attempt_id d = None" "\<not> has_active_job (cat_db g) doc" "\<not> held g doc"
      "\<not> now g < archived + days_long (retention_days g)"
      "\<not> list_ex (\<lambda>p. p_document p = doc \<and> open_purge p) (g_purges g)"
    by (auto simp: schedule_document_purge_def split: if_splits)
  from assms v l d r a p lock_NoneD [OF l] show ?thesis
    by (intro that [of d archived]) (auto simp: schedule_document_purge_def Let_def fresh_uuid_eq now_def
        record_audit_def record_retention_def)
qed

text \<open>Fields that the clauses do not read.\<close>

lemma update_policy_inv:
  assumes "governed_inv spell g" "update_tenant_retention_policy session actor days revision epoch request g = Inr (view, g')"
  shows "governed_inv spell g'"
  using assms(2)
proof (cases rule: update_policy_cases)
  case (1 g2)
  with assms(1) show ?thesis
    by (simp add: governed_inv_def catalogue_ok_def policy_ok_def ingest_part_def bump_epoch_def
        record_audit_def record_retention_def)
qed

lemma cat_doc_SomeD: "cat_doc g i = Some d \<Longrightarrow> d \<in> set (docs (cat_db g)) \<and> d_id d = i"
  by (auto simp: cat_doc_def dest: get_doc_SomeD)

lemma not_purged_in:
  assumes "db_inv s" "d \<in> set (docs s)" "d_purged_at d = None"
  shows "\<not> purged_in (docs s) (d_id d)"
  using doc_unique [OF db_invD(1) [OF assms(1)] _ assms(2)] assms(3) by (auto simp: purged_in_def)

lemma create_hold_inv:
  assumes "governed_inv spell g" "create_document_legal_hold session actor doc reason revision epoch request g = Inr (r, g')"
  shows "governed_inv spell g'"
  using assms(2)
proof (cases rule: create_hold_cases)
  case (1 d hold)
  note I = governed_invD [OF assms(1)]
  let ?n = "uuid_next (cat_db g)" and ?ds = "docs (cat_db g)"
  let ?hs = "g_holds g @ [hold]"
  let ?ps = "update_rows (\<lambda>p. p_document p = doc \<and> p_state p = Purge_Pending)
         (\<lambda>p. p\<lparr>p_state := Purge_Cancelled, p_completed_at := Some (now g)\<rparr>) (g_purges g)"
  have d: "d \<in> set ?ds" "d_id d = doc" using cat_doc_SomeD [OF 1(3)] by auto
  with not_purged_in [OF I(2) d(1) 1(4)] have np: "\<not> purged_in ?ds doc" "doc \<in> d_id ` set ?ds" by auto
  have "holds_ok (Suc ?n) ?ds ?hs"
    using I(5) np by (auto simp: holds_ok_def 1(8))
  moreover have keys: "map p_id ?ps = map p_id (g_purges g)" by (simp add: update_rows_keys)
  have "purges_ok (Suc ?n) ?ds ?hs ?ps"
    using I(6) keys unfolding purges_ok_def ball_update_rows
    by (auto simp: active_hold_def 1(8) less_SucI)
  moreover have "tombs_ok spell ?ds (chunks (cat_db g)) ?ps"
    using I(4) unfolding tombs_ok_def bex_update_rows by fastforce
  moreover have "system_inv (ingest_part g')"
    using I(1) by (simp add: 1(10) ingest_part_def system_inv_more_ids)
  moreover have "catalogue_ok g'"
    using I(3) by (auto simp: 1(10) catalogue_ok_def intro: label_rows_ok_mono)
  ultimately show ?thesis
    using I(7) by (simp add: governed_inv_def 1(10) policy_ok_def)
qed

lemma release_hold_simps [simp]:
  "h_id (release_hold actor t h) = h_id h" "h_document (release_hold actor t h) = h_document h"
  "h_state (release_hold actor t h) = Hold_Released"
  by (simp_all add: release_hold_def)

lemma release_hold_inv:
  assumes "governed_inv spell g" "release_document_legal_hold session actor doc hold revision epoch request g = Inr (r, g')"
  shows "governed_inv spell g'"
  using assms(2)
proof (cases rule: release_hold_cases)
  case (1 h)
  note I = governed_invD [OF assms(1)]
  let ?hs = "update_rows (\<lambda>r. h_id r = hold) (release_hold actor (now g)) (g_holds g)"
  have "map h_id ?hs = map h_id (g_holds g)" by (simp add: update_rows_keys)
  then have "holds_ok (uuid_next (cat_db g)) (docs (cat_db g)) ?hs"
    using I(5) unfolding holds_ok_def ball_update_rows by auto
  moreover have "active_hold (g_holds g) i" if "active_hold ?hs i" for i
    using that by (auto simp: active_hold_def set_update_rows split: if_splits)
  then have "purges_ok (uuid_next (cat_db g)) (docs (cat_db g)) ?hs (g_purges g)"
    using I(6) unfolding purges_ok_def by blast
  ultimately show ?thesis
    using I by (simp add: governed_inv_def 1(10) policy_ok_def ingest_part_def catalogue_ok_def)
qed

lemma schedule_purge_inv:
  assumes "governed_inv spell g" "schedule_document_purge session actor doc revision epoch request g = Inr (job, g')"
  shows "governed_inv spell g'"
  using assms(2)
proof (cases rule: schedule_purge_cases)
  case (1 d archived)
  note I = governed_invD [OF assms(1)]
  let ?n = "uuid_next (cat_db g)" and ?ds = "docs (cat_db g)"
  have d: "d \<in> set ?ds" "d_id d = doc" using cat_doc_SomeD [OF 1(3)] by auto
  with not_purged_in [OF I(2) d(1) 1(5)] have np: "\<not> purged_in ?ds doc" "doc \<in> d_id ` set ?ds" by auto
  have none: "p_state p \<noteq> Purge_Pending" if "p \<in> set (g_purges g)" "p_document p = doc" for p
    using 1(11) that by (auto simp: list_ex_iff open_purge_def)
  have "holds_ok (Suc ?n) ?ds (g_holds g)"
    using I(5) by (rule holds_ok_mono) simp_all
  moreover have "purges_ok (Suc ?n) ?ds (g_holds g) (g_purges g @ [job])"
    using I(6) np none 1(9) unfolding purges_ok_def held_iff by (auto simp: 1(13) less_SucI)
  moreover have "tombs_ok spell ?ds (chunks (cat_db g)) (g_purges g @ [job])"
    using I(4) unfolding tombs_ok_def by auto
  moreover have "system_inv (ingest_part g')"
    using I(1) by (simp add: 1(14) ingest_part_def system_inv_more_ids)
  moreover have "catalogue_ok g'"
    using I(3) by (auto simp: 1(14) catalogue_ok_def intro: label_rows_ok_mono)
  ultimately show ?thesis
    using I(7) by (simp add: governed_inv_def 1(14) policy_ok_def)
qed

section \<open>Executing a purge keeps the invariant\<close>

lemma next_purge_SomeD:
  assumes "next_purge locked max_attempts g = Some p"
  shows "p \<in> set (g_purges g)" "due_purge locked max_attempts g p"
proof -
  let ?due = "filter (due_purge locked max_attempts g) (g_purges g)"
  from assms obtain rest where "sort_key p_eligible_at (sort_key p_created_at (sort_key p_id ?due)) = p # rest"
    by (auto simp: next_purge_def split: list.splits)
  then have "p \<in> set ?due" using arg_cong [of _ "p # rest" set] by (metis list.set_intros(1) set_sort)
  then show "p \<in> set (g_purges g)" "due_purge locked max_attempts g p" by auto
qed

text \<open>The row a turn of the worker leaves of the job it claimed.\<close>

definition settle :: "purge_state \<Rightarrow> pystr option \<Rightarrow> pystr \<Rightarrow> time \<Rightarrow> purge_job \<Rightarrow> purge_job" where
  "settle st failure worker at_time p = (take_purge worker at_time p)\<lparr>p_state := st, p_failure := failure,
     p_completed_at := Some at_time\<rparr>"

lemma settle_simps [simp]:
  "p_id (settle st failure worker t p) = p_id p" "p_document (settle st failure worker t p) = p_document p"
  "p_state (settle st failure worker t p) = st" "p_scheduled_by (settle st failure worker t p) = p_scheduled_by p"
  "p_attempt_count (settle st failure worker t p) = p_attempt_count p + 1"
  by (simp_all add: settle_def take_purge_def)

lemma take_purge_simps [simp]:
  "p_id (take_purge worker t p) = p_id p" "p_document (take_purge worker t p) = p_document p"
  "p_scheduled_by (take_purge worker t p) = p_scheduled_by p" "p_request (take_purge worker t p) = p_request p"
  "p_state (take_purge worker t p) = Purge_Running" "p_worker (take_purge worker t p) = Some worker"
  by (simp_all add: take_purge_def)

definition claimed :: "purge_job \<Rightarrow> pystr \<Rightarrow> governed \<Rightarrow> governed" where
  "claimed p worker g = g\<lparr>g_purges := update_rows (\<lambda>r. p_id r = p_id p) (take_purge worker (now g)) (g_purges g)\<rparr>"

lemma claim_purge_cases:
  assumes "claim_document_purge casefold locked worker_id max_attempts g = Inr (r, g1)"
  obtains (idle) "r = None" "g1 = g" "next_purge locked max_attempts g = None"
  | (claim) p d c where "next_purge locked max_attempts g = Some p" "cat_doc g (p_document p) = Some d"
      "r = Some c" "pc_job c = p_id p" "pc_document c = p_document p" "pc_filename c = d_filename d"
      "pc_attempt_count c = p_attempt_count p + 1" "pc_versions c = map v_id (sort_key v_number (sort_key v_id
         (filter (\<lambda>v. v_document v = p_document p) (versions (cat_db g)))))"
      "g1 = claimed p (strip worker_id) g"
      "canonical_label casefold worker_id = Inr (strip worker_id, casefold (strip worker_id))"
proof -
  from assms have l: "canonical_label casefold worker_id = Inr (strip worker_id, casefold (strip worker_id))"
    by (auto simp: claim_document_purge_def canonical_label_def Let_def split: if_splits)
  show ?thesis
  proof (cases "next_purge locked max_attempts g")
    case None
    with assms l idle show ?thesis by (simp add: claim_document_purge_def split: if_splits)
  next
    case (Some p)
    with assms l obtain d where d: "cat_doc g (p_document p) = Some d"
      by (auto simp: claim_document_purge_def split: if_splits option.splits)
    with assms l Some show ?thesis
      by (intro claim [OF Some d]) (auto simp: claim_document_purge_def claimed_def split: if_splits)
  qed
qed

lemma find_claimed:
  assumes "distinct (map p_id (g_purges g))" "p \<in> set (g_purges g)"
  shows "find (owned_purge (p_id p) worker) (g_purges (claimed p worker g)) = Some (take_purge worker (now g) p)"
proof -
  have "find (owned_purge (p_id p) worker) (update_rows (\<lambda>r. p_id r = p_id p) (take_purge worker (now g)) ps)
      = Some (take_purge worker (now g) p)" if "distinct (map p_id ps)" "p \<in> set ps" for ps
    using that by (induction ps) (auto simp: owned_purge_def image_iff)
  with assms show ?thesis by (simp add: claimed_def)
qed

lemma settle_update:
  "update_rows (\<lambda>r. p_id r = i \<and> p_worker r = Some worker) (\<lambda>r. r\<lparr>p_state := st, p_completed_at := Some t, p_failure := f\<rparr>)
     (update_rows (\<lambda>r. p_id r = i) (take_purge worker t) ps) = update_rows (\<lambda>r. p_id r = i) (settle st f worker t) ps"
  "update_rows (\<lambda>r. p_id r = i) (\<lambda>r. r\<lparr>p_state := st, p_failure := f, p_completed_at := Some t\<rparr>)
     (update_rows (\<lambda>r. p_id r = i) (take_purge worker t) ps) = update_rows (\<lambda>r. p_id r = i) (settle st f worker t) ps"
  by (auto simp: update_rows_def settle_def take_purge_def)

lemma claimed_simps [simp]:
  "cat_db (claimed p worker g) = cat_db g" "cat_doc (claimed p worker g) i = cat_doc g i"
  "now (claimed p worker g) = now g" "purgeable (claimed p worker g) i = purgeable g i"
  "held (claimed p worker g) i = held g i"
  "g_purges (claimed p worker g) = update_rows (\<lambda>r. p_id r = p_id p) (take_purge worker (now g)) (g_purges g)"
  by (simp_all add: claimed_def cat_doc_def now_def purgeable_def held_def)

text \<open>What a turn of the worker leaves when the storage refused, and when the content is gone.\<close>

definition refused :: "pystr \<Rightarrow> pystr \<Rightarrow> purge_job \<Rightarrow> governed \<Rightarrow> governed" where
  "refused code worker p g = g\<lparr>
     g_purges := update_rows (\<lambda>r. p_id r = p_id p) (settle Purge_Failed (Some code) worker (now g)) (g_purges g),
     g_events := g_events g @ [\<lparr>re_type = Purge_Refused, re_document = Some (p_document p),
       re_actor = p_scheduled_by p, re_hold = None, re_purge = Some (p_id p), re_request = p_request p\<rparr>]\<rparr>"

definition executed :: "(uuid \<Rightarrow> pystr) \<Rightarrow> pystr \<Rightarrow> purge_job \<Rightarrow> governed \<Rightarrow> governed" where
  "executed spell worker p g = (erase_content (p_document p) (tombstone spell (now g)) g)\<lparr>
     g_purges := update_rows (\<lambda>r. p_id r = p_id p) (settle Purge_Completed None worker (now g)) (g_purges g),
     g_events := g_events g @ [\<lparr>re_type = Purge_Executed, re_document = Some (p_document p),
       re_actor = p_scheduled_by p, re_hold = None, re_purge = Some (p_id p), re_request = p_request p\<rparr>],
     g_audit := g_audit g @ [\<lparr>oa_actor = p_scheduled_by p, oa_action = Purge_Execute, oa_request = p_request p\<rparr>]\<rparr>"

lemma fail_claimed:
  assumes "distinct (map p_id (g_purges g))" "p \<in> set (g_purges g)" "code \<in> set PURGE_FAILURE_CODES"
    and "canonical_label casefold worker_id = Inr (worker, key)"
  shows "fail_document_purge casefold (p_id p) worker_id code (claimed p worker g) = Inr ((), refused code worker p g)"
  using assms(3,4) find_claimed [OF assms(1,2), of worker]
  by (simp add: fail_document_purge_def refused_def record_retention_def settle_update)
    (simp add: claimed_def)

lemma tombstone_simps [simp]:
  "d_id (tombstone spell t d) = d_id d" "d_purged_at (tombstone spell t d) = Some t"
  "d_archived_at (tombstone spell t d) = d_archived_at d" "d_attempt_id (tombstone spell t d) = None"
  "d_candidate_id (tombstone spell t d) = None" "d_active_version_id (tombstone spell t d) = None"
  "d_last_version_number (tombstone spell t d) = d_last_version_number d"
  "d_filename (tombstone spell t d) = u ''purged-'' @ spell (d_id d)"
  "complete_tombstone spell (tombstone spell t d) \<longleftrightarrow> d_archived_at d \<noteq> None"
  by (simp_all add: tombstone_def complete_tombstone_def)

lemma tombstone_activation:
  assumes "d_purged_at d = None"
  shows "activation_trigger d (tombstone spell t d) s = Inr ((), s)"
  using assms by (simp add: activation_trigger_def)

lemma complete_claimed:
  assumes "distinct (map p_id (g_purges g))" "p \<in> set (g_purges g)"
    and "canonical_label casefold worker_id = Inr (worker, key)"
    and "complete_document_purge casefold spell (p_id p) worker_id (claimed p worker g) = Inr (r, g')"
  obtains d where "cat_doc g (p_document p) = Some d"
    "\<not> (\<exists>e\<in>set (docs (cat_db g)). d_id e \<noteq> d_id d \<and> d_filename e = u ''purged-'' @ spell (d_id d))"
    "r = \<lparr>pr_removed_chunks = length (filter (\<lambda>c. c_document c = p_document p) (chunks (cat_db g))),
       pr_revision = Suc (d_revision d), pr_purged_at = now g\<rparr>"
    "g' = executed spell worker p g"
proof -
  note found = find_claimed [OF assms(1,2), of worker]
  from assms(3,4) found obtain d where d: "cat_doc g (p_document p) = Some d"
    by (auto simp: complete_document_purge_def split: option.splits)
  from assms(3,4) found d have gates: "purgeable g (p_document p)" "\<not> held g (p_document p)"
      "\<not> has_active_job (cat_db g) (p_document p)"
    by (auto simp: complete_document_purge_def split: if_splits)
  with d have row: "d_archived_at d \<noteq> None" "d_purged_at d = None" by (auto simp: purgeable_def)
  from assms(3,4) found d gates row have fresh: "\<not> list_ex (\<lambda>e. d_id e \<noteq> d_id d
      \<and> d_filename e = u ''purged-'' @ spell (d_id d)) (docs (cat_db g))"
    by (auto simp: complete_document_purge_def Let_def guard_document_purge_state_def split: if_splits)
  from assms(3,4) found d gates row fresh have "r = \<lparr>pr_removed_chunks = length (filter (\<lambda>c. c_document c = p_document p)
      (chunks (cat_db g))), pr_revision = Suc (d_revision d), pr_purged_at = now g\<rparr> \<and> g' = executed spell worker p g"
    by (auto simp: complete_document_purge_def Let_def guard_document_purge_state_def tombstone_activation
        record_audit_def record_retention_def erase_content_def executed_def settle_update)
      (auto simp: claimed_def tombstone_def)
  with d fresh show ?thesis by (intro that) (auto simp: list_ex_iff)
qed

lemma run_one_cases:
  assumes "run_one casefold spell remove locked worker_id max_attempts g = Inr (b, g')"
    and "distinct (map p_id (g_purges g))"
  obtains (idle) "\<not> b" "g' = g" "next_purge locked max_attempts g = None"
  | (refusal) p code where b "next_purge locked max_attempts g = Some p" "code \<in> set PURGE_FAILURE_CODES"
      "g' = refused code (strip worker_id) p g"
  | (carried_out) p d where b "next_purge locked max_attempts g = Some p" "cat_doc g (p_document p) = Some d"
      "\<not> (\<exists>e\<in>set (docs (cat_db g)). d_id e \<noteq> d_id d \<and> d_filename e = u ''purged-'' @ spell (d_id d))"
      "g' = executed spell (strip worker_id) p g"
proof -
  from assms(1) obtain r g1 where c: "claim_document_purge casefold locked worker_id max_attempts g = Inr (r, g1)"
    by (auto simp: run_one_def split: sum.splits)
  then show ?thesis
  proof (cases rule: claim_purge_cases)
    case unclaimed: idle
    with assms(1) c show ?thesis by (intro idle) (auto simp: run_one_def)
  next
    case (claim p d cl)
    note p = next_purge_SomeD [OF claim(1)]
    have codes: "u ''storage_refused'' \<in> set PURGE_FAILURE_CODES" "u ''storage_unavailable'' \<in> set PURGE_FAILURE_CODES"
      by (simp_all add: PURGE_FAILURE_CODES_def)
    note fails = fail_claimed [OF assms(2) p(1) codes(1) claim(10)] fail_claimed [OF assms(2) p(1) codes(2) claim(10)]
    show ?thesis
    proof (cases "remove cl")
      case Removed
      with assms(1) c claim obtain res where "complete_document_purge casefold spell (p_id p) worker_id
          (claimed p (strip worker_id) g) = Inr (res, g')" b
        by (auto simp: run_one_def map_sum_def split: sum.splits)
      from complete_claimed [OF assms(2) p(1) claim(10) this(1)] this(2) claim(1) carried_out show ?thesis by metis
    next
      case Source_Corrupt
      with assms(1) c claim fails codes show ?thesis by (intro refusal [OF _ claim(1) codes(1)]) (auto simp: run_one_def)
    next
      case Source_Refused
      with assms(1) c claim fails codes show ?thesis by (intro refusal [OF _ claim(1) codes(2)]) (auto simp: run_one_def)
    next
      case (Removal_Raised e)
      with assms(1) c claim show ?thesis by (simp add: run_one_def)
    qed
  qed
qed

lemma settled_rows:
  assumes "distinct (map p_id ps)" "p \<in> set ps"
  shows "map p_id (update_rows (\<lambda>r. p_id r = p_id p) (settle st f worker t) ps) = map p_id ps"
    "set (update_rows (\<lambda>r. p_id r = p_id p) (settle st f worker t) ps) = insert (settle st f worker t p) (set ps - {p})"
proof -
  show "map p_id (update_rows (\<lambda>r. p_id r = p_id p) (settle st f worker t) ps) = map p_id ps"
    by (simp add: update_rows_keys)
  have "(if p_id r = p_id p then settle st f worker t r else r) = (if r = p then settle st f worker t r else r)"
    if "r \<in> set ps" for r
    using distinct_keyD [OF assms(1) that assms(2)] by auto
  then have "set (update_rows (\<lambda>r. p_id r = p_id p) (settle st f worker t) ps)
      = (\<lambda>r. if r = p then settle st f worker t r else r) ` set ps"
    unfolding set_update_rows by (rule image_cong [OF refl])
  with assms(2) show "set (update_rows (\<lambda>r. p_id r = p_id p) (settle st f worker t) ps) = insert (settle st f worker t p) (set ps - {p})"
    by auto
qed

lemma refused_inv:
  assumes "governed_inv spell g" "next_purge locked max_attempts g = Some p"
  shows "governed_inv spell (refused code worker p g)"
proof -
  note I = governed_invD [OF assms(1)] and p = next_purge_SomeD [OF assms(2)]
  have dist: "distinct (map p_id (g_purges g))" using I(6) by (simp add: purges_ok_def)
  note rows = settled_rows [OF dist p(1), of Purge_Failed "Some code" worker "now g"]
  let ?ps = "update_rows (\<lambda>r. p_id r = p_id p) (settle Purge_Failed (Some code) worker (now g)) (g_purges g)"
  have pending: "p_state p = Purge_Pending" using p(2) by (simp add: due_purge_def)
  have "purges_ok (uuid_next (cat_db g)) (docs (cat_db g)) (g_holds g) ?ps"
    using I(6) p(1) unfolding purges_ok_def rows by auto
  moreover have "tombs_ok spell (docs (cat_db g)) (chunks (cat_db g)) ?ps"
    using I(4) pending unfolding tombs_ok_def rows by fastforce
  ultimately show ?thesis
    using I by (simp add: governed_inv_def refused_def ingest_part_def catalogue_ok_def policy_ok_def)
qed

lemma purge_db_inv:
  assumes inv: "db_inv s" and d: "d \<in> set (docs s)" and free: "d_attempt_id d = None"
  shows "db_inv (update_doc (d_id d) (tombstone spell t) (s\<lparr>chunks := filter (\<lambda>c. c_document c \<noteq> d_id d) (chunks s)\<rparr>))"
proof -
  note I = db_invD [OF inv]
  let ?ds = "update_rows (\<lambda>e. d_id e = d_id d) (tombstone spell t) (docs s)"
  let ?cs = "filter (\<lambda>c. c_document c \<noteq> d_id d) (chunks s)"
  have one: "set ?ds = insert (tombstone spell t d) (set (docs s) - {d})" by (rule update_one [OF I(1) d])
  have "ids_ok (uuid_next s) ?ds (attempts s) (versions s) (jobs s)"
    by (rule ids_ok_update_docs [OF I(1)]) simp_all
  moreover have "lease_ok ?ds (attempts s)"
    by (rule lease_ok_update_docs [OF I(2)]) simp_all
  moreover have "running_ok ?ds (attempts s)"
    unfolding running_ok_def
  proof (intro ballI impI)
    fix r
    assume r: "r \<in> set (attempts s)" "a_status r = None"
    with I(3) obtain e where e: "e \<in> set (docs s)" "d_id e = a_document r" "d_attempt_id e = Some (a_id r)"
      by (auto simp: running_ok_def)
    with free have "e \<noteq> d" by auto
    with e one show "\<exists>d\<in>set ?ds. d_id d = a_document r \<and> d_attempt_id d = Some (a_id r)" by auto
  qed
  moreover have "versions_ok ?ds (versions s)"
    using I(4) d unfolding versions_ok_def one by auto
  moreover have "active_ok ?ds (versions s) (builds s) ?cs"
    unfolding active_ok_def
  proof (intro ballI allI impI)
    fix e version
    assume e: "e \<in> set ?ds" "d_active_version_id e = Some version"
    from e(2) have "e \<noteq> tombstone spell t d" by auto
    with e(1) have old: "e \<in> set (docs s)" "e \<noteq> d" unfolding one by auto
    with doc_unique [OF I(1) old(1) d] have "d_id e \<noteq> d_id d" by auto
    with I(5) old e(2) show "(\<exists>v\<in>set (versions s). v_id v = version \<and> v_document v = d_id e \<and> d_active_content_sha e = Some (v_sha v))
       \<and> (\<exists>b\<in>set (builds s). b_document b = d_id e \<and> b_version b = version \<and> b_generation b = d_active_generation e)
       \<and> (\<exists>c\<in>set ?cs. c_document c = d_id e \<and> c_version c = Some version \<and> c_generation c = d_active_generation e)"
      by (fastforce simp: active_ok_def)
  qed
  ultimately show ?thesis using I(6) by (simp add: db_inv_def update_doc_def)
qed

lemma executed_inv:
  assumes "governed_inv spell g" "next_purge locked max_attempts g = Some p"
  shows "governed_inv spell (executed spell worker p g)"
proof -
  note I = governed_invD [OF assms(1)] and p = next_purge_SomeD [OF assms(2)]
  from p(2) obtain d where "cat_doc g (p_document p) = Some d" and row: "d_archived_at d \<noteq> None" "d_purged_at d = None"
      "d_attempt_id d = None" and gates: "p_state p = Purge_Pending" "\<not> held g (p_document p)"
    by (auto simp: due_purge_def purgeable_def split: option.splits)
  then have d: "d \<in> set (docs (cat_db g))" "d_id d = p_document p" by (auto dest: cat_doc_SomeD)
  let ?ds = "update_rows (\<lambda>e. d_id e = p_document p) (tombstone spell (now g)) (docs (cat_db g))"
  let ?cs = "filter (\<lambda>c. c_document c \<noteq> p_document p) (chunks (cat_db g))"
  let ?ps = "update_rows (\<lambda>r. p_id r = p_id p) (settle Purge_Completed None worker (now g)) (g_purges g)"
  have one: "set ?ds = insert (tombstone spell (now g) d) (set (docs (cat_db g)) - {d})"
    using update_one [OF db_invD(1) [OF I(2)] d(1)] by (simp only: d(2))
  have purged: "purged_in ?ds i \<longleftrightarrow> i = p_document p \<or> purged_in (docs (cat_db g)) i" for i
    unfolding purged_in_def one using d row by auto
  have ids: "d_id ` set ?ds = d_id ` set (docs (cat_db g))"
    using map_d_id_update [of "tombstone spell (now g)"] by (metis list.set_map tombstone_simps(1))
  have dist: "distinct (map p_id (g_purges g))" using I(6) by (simp add: purges_ok_def)
  note rows = settled_rows [OF dist p(1), of Purge_Completed None worker "now g"]
  have "db_inv (cat_db (executed spell worker p g))"
    using purge_db_inv [OF I(2) d(1) row(3), of spell "now g"]
    by (simp add: executed_def erase_content_def d(2))
  then have "system_inv (ingest_part (executed spell worker p g))"
    using I(1) by (simp add: system_inv_def ingest_part_def executed_def erase_content_def handle_ok_def update_doc_def)
  moreover have "catalogue_ok (executed spell worker p g)"
    using I(3) ids by (simp add: catalogue_ok_def executed_def erase_content_def update_doc_def pairs_ok_filter)
  moreover have "tombs_ok spell ?ds ?cs ?ps"
    unfolding tombs_ok_def one rows
  proof (intro ballI impI)
    fix e
    assume e: "e \<in> insert (tombstone spell (now g) d) (set (docs (cat_db g)) - {d})" "d_purged_at e \<noteq> None"
    show "complete_tombstone spell e \<and> (\<forall>c\<in>set ?cs. c_document c \<noteq> d_id e) \<and>
        (\<exists>q\<in>insert (settle Purge_Completed None worker (now g) p) (set (g_purges g) - {p}).
           p_document q = d_id e \<and> p_state q = Purge_Completed)"
    proof (cases "e = tombstone spell (now g) d")
      case True
      with d row show ?thesis by simp
    next
      case False
      with e I(4) have "complete_tombstone spell e" "\<forall>c\<in>set (chunks (cat_db g)). c_document c \<noteq> d_id e"
          "\<exists>q\<in>set (g_purges g). p_document q = d_id e \<and> p_state q = Purge_Completed"
        by (auto simp: tombs_ok_def)
      moreover from this(3) gates(1) have "\<exists>q\<in>set (g_purges g) - {p}. p_document q = d_id e \<and> p_state q = Purge_Completed"
        by (metis insert_Diff insert_iff p(1) purge_state.distinct(3))
      ultimately show ?thesis by auto
    qed
  qed
  moreover have "holds_ok (uuid_next (cat_db g)) ?ds (g_holds g)"
    using I(5) gates(2) unfolding holds_ok_def ids purged held_iff active_hold_def by blast
  moreover have "purges_ok (uuid_next (cat_db g)) ?ds (g_holds g) ?ps"
    using I(6) p(1) gates(1) unfolding purges_ok_def rows ids purged by auto
  ultimately show ?thesis
    using I(7) by (simp add: governed_inv_def executed_def erase_content_def update_doc_def policy_ok_def)
qed

lemma run_one_inv:
  assumes "governed_inv spell g" "run_one casefold spell remove locked worker max_attempts g = Inr (b, g')"
  shows "governed_inv spell g'"
proof -
  have "distinct (map p_id (g_purges g))" using governed_invD(6) [OF assms(1)] by (simp add: purges_ok_def)
  with assms(2) show ?thesis
    by (cases rule: run_one_cases) (use assms(1) refused_inv executed_inv in auto)
qed

text \<open>A turn that finds a due job and removes its sources carries the purge out.\<close>

lemma due_document:
  assumes "due_purge locked max_attempts g p"
  obtains d where "cat_doc g (p_document p) = Some d" "d_archived_at d \<noteq> None" "d_purged_at d = None"
    "d_attempt_id d = None" "purgeable g (p_document p)" "\<not> has_active_job (cat_db g) (p_document p)"
    "\<not> held g (p_document p)" "p_state p = Purge_Pending" "p_eligible_at p \<le> now g"
  using assms by (auto simp: due_purge_def purgeable_def split: option.splits)

lemma run_one_executes:
  assumes "distinct (map p_id (g_purges g))" "next_purge locked max_attempts g = Some p"
    and "canonical_label casefold worker_id = Inr (worker, key)" "length worker \<le> 200"
    and "1 \<le> max_attempts" "max_attempts \<le> 20" "\<And>c. remove c = Removed"
    and "\<not> (\<exists>e\<in>set (docs (cat_db g)). d_id e \<noteq> p_document p \<and> d_filename e = u ''purged-'' @ spell (p_document p))"
  shows "run_one casefold spell remove locked worker_id max_attempts g = Inr (True, executed spell worker p g)"
proof -
  note p = next_purge_SomeD [OF assms(2)]
  from p(2) obtain d where d: "cat_doc g (p_document p) = Some d" and row: "d_archived_at d \<noteq> None" "d_purged_at d = None"
      and gates: "purgeable g (p_document p)" "\<not> has_active_job (cat_db g) (p_document p)" "\<not> held g (p_document p)"
    by (rule due_document)
  have id: "d_id d = p_document p" using cat_doc_SomeD [OF d] ..
  from assms(2,3,4,5,6) d obtain c where claim: "claim_document_purge casefold locked worker_id max_attempts g
      = Inr (Some c, claimed p worker g)" and c: "pc_job c = p_id p"
    by (auto simp: claim_document_purge_def retention_positive_def claimed_def)
  have "\<not> list_ex (\<lambda>e. d_id e \<noteq> d_id d \<and> d_filename e = u ''purged-'' @ spell (d_id d)) (docs (cat_db g))"
    using assms(8) by (auto simp: list_ex_iff id)
  with assms(3) d row gates find_claimed [OF assms(1) p(1), of worker] obtain res g2 where
      finished: "complete_document_purge casefold spell (p_id p) worker_id (claimed p worker g) = Inr (res, g2)"
    by (auto simp: complete_document_purge_def Let_def guard_document_purge_state_def tombstone_activation)
  from complete_claimed [OF assms(1) p(1) assms(3) finished] have "g2 = executed spell worker p g" by metis
  with claim c finished assms(7) show ?thesis by (simp add: run_one_def)
qed

section \<open>Interpretations\<close>

lemma organising_inv:
  assumes "governed_inv spell g"
  shows "create_collection casefold name g = Inr (a, g') \<Longrightarrow> governed_inv spell g'"
    "delete_collection i g = Inr (b, g') \<Longrightarrow> governed_inv spell g'"
    "set_collection_document i doc present g = Inr (c, g') \<Longrightarrow> governed_inv spell g'"
    "delete_tag i g = Inr (b, g') \<Longrightarrow> governed_inv spell g'"
    "replace_document_tags casefold doc given g = Inr (d, g') \<Longrightarrow> governed_inv spell g'"
  by (blast intro: organised_inv [OF assms] catalogue_operations_organised
      catalogue_operations_ok [OF governed_invD(3) [OF assms]])+

lemma govern_inv:
  assumes "governed_inv spell g" "allowed ev g"
  shows "governed_inv spell (govern env spell ev g)"
proof (cases ev)
  case (Ingest e)
  with assms show ?thesis by (simp add: allowed_def ingest_call_inv)
next
  case (Appoint actor active)
  with assms show ?thesis
    by (simp add: governed_inv_def ingest_part_def catalogue_ok_def policy_ok_def)
next
  case Amend
  with assms show ?thesis
    by (simp add: governed_inv_def ingest_part_def catalogue_ok_def policy_ok_def bump_epoch_def)
next
  case (Set_Policy session actor days revision epoch request)
  with assms show ?thesis by (simp add: after_keep [where P = "governed_inv spell", OF _ update_policy_inv])
next
  case (Hold session actor doc reason revision epoch request)
  with assms show ?thesis by (simp add: after_keep [where P = "governed_inv spell", OF _ create_hold_inv])
next
  case (Release session actor doc hold revision epoch request)
  with assms show ?thesis by (simp add: after_keep [where P = "governed_inv spell", OF _ release_hold_inv])
next
  case (Schedule session actor doc revision epoch request)
  with assms show ?thesis by (simp add: after_keep [where P = "governed_inv spell", OF _ schedule_purge_inv])
next
  case (Purge locked outcome worker max_attempts)
  with assms show ?thesis by (simp add: after_keep [where P = "governed_inv spell", OF _ run_one_inv])
qed (simp only: govern.simps, rule after_keep [where P = "governed_inv spell", OF assms(1)],
    erule organising_inv [OF assms(1)])+

interpretation governance: invariant_machine governed_init "governed_step env spell" "governed_inv spell" for env spell
proof
  show "governed_init g \<Longrightarrow> governed_inv spell g" for g
    by (simp add: governed_init_def governed_inv_init)
  show "governed_inv spell g \<Longrightarrow> governed_step env spell g h \<Longrightarrow> governed_inv spell h" for g h
    by (auto simp: governed_step_def govern_inv)
qed

section \<open>What is never undone\<close>

text \<open>
  The log of a governed tenant: events and audit rows are appended, the epoch moves forward, a
  tombstone, a settled purge job and a released hold are never written again.
\<close>

definition ledger :: "governed \<Rightarrow> governed \<Rightarrow> bool" where
  "ledger g h \<longleftrightarrow> prefix (g_events g) (g_events h) \<and> prefix (g_audit g) (g_audit h) \<and> g_epoch g \<le> g_epoch h
     \<and> (\<forall>d\<in>set (docs (cat_db g)). d_purged_at d \<noteq> None \<longrightarrow> d \<in> set (docs (cat_db h)))
     \<and> (\<forall>p\<in>set (g_purges g). p_state p \<noteq> Purge_Pending \<longrightarrow> p \<in> set (g_purges h))
     \<and> (\<forall>k\<in>set (g_holds g). h_state k = Hold_Released \<longrightarrow> k \<in> set (g_holds h))"

lemma ledger_refl [simp]: "ledger g g"
  by (simp add: ledger_def)

lemma ledger_trans: "ledger f g \<Longrightarrow> ledger g h \<Longrightarrow> ledger f h"
  unfolding ledger_def by (auto intro: prefix_order.trans)

lemma kept_by_update: "x \<in> set xs \<Longrightarrow> \<not> p x \<Longrightarrow> x \<in> set (update_rows p f xs)"
  by (force simp: set_update_rows)

lemma organised_ledger: "organised g g' \<Longrightarrow> ledger g g'"
  by (auto simp: organised_def ledger_def)

lemma ingest_call_ledger:
  assumes "governed_inv spell g" "permitted ev (ingest_part g)"
  shows "ledger g (ingest_call env spell ev g)"
proof (cases "passes_guard spell (cat_db g) (transact env ev (cat_db g))")
  case False
  then show ?thesis by (simp add: ingest_call_def Let_def exec_event_def ingest_part_def)
next
  case guard: True
  note I = governed_invD [OF assms(1)]
  have "\<And>att. event_handle ev = Some att \<Longrightarrow> handle_ok (cat_db g) att"
    using I(1) assms(2) by (auto simp: permitted_def system_inv_def ingest_part_def)
  from purged_docs_same [OF transact_confined [OF I(2) this] transact_history [OF I(2)] guard]
  have "d \<in> set (docs (transact env ev (cat_db g)))" if "d \<in> set (docs (cat_db g))" "d_purged_at d \<noteq> None" for d
    using that by blast
  with guard show ?thesis
    by (simp add: ingest_call_def Let_def exec_event_def ingest_part_def ledger_def)
qed

lemma governance_ledger:
  "update_tenant_retention_policy session actor days revision epoch request g = Inr (a, g') \<Longrightarrow> ledger g g'"
  "create_document_legal_hold session actor doc reason revision epoch request g = Inr (b, g') \<Longrightarrow> ledger g g'"
  "release_document_legal_hold session actor doc hold revision epoch request g = Inr (b, g') \<Longrightarrow>
     distinct (map h_id (g_holds g)) \<Longrightarrow> ledger g g'"
  "schedule_document_purge session actor doc revision epoch request g = Inr (c, g') \<Longrightarrow> ledger g g'"
proof -
  assume "update_tenant_retention_policy session actor days revision epoch request g = Inr (a, g')"
  then show "ledger g g'"
    by (cases rule: update_policy_cases) (simp add: ledger_def bump_epoch_def record_audit_def record_retention_def)
next
  assume "create_document_legal_hold session actor doc reason revision epoch request g = Inr (b, g')"
  then show "ledger g g'"
    by (cases rule: create_hold_cases) (auto simp: ledger_def intro: kept_by_update)
next
  assume r: "release_document_legal_hold session actor doc hold revision epoch request g = Inr (b, g')"
    and dist: "distinct (map h_id (g_holds g))"
  from r show "ledger g g'"
  proof (cases rule: release_hold_cases)
    case (1 h)
    have "k \<in> set (update_rows (\<lambda>r. h_id r = hold) (release_hold actor (now g)) (g_holds g))"
      if "k \<in> set (g_holds g)" "h_state k = Hold_Released" for k
    proof (rule kept_by_update [OF that(1)])
      show "h_id k \<noteq> hold" using distinct_keyD [OF dist that(1) 1(3)] 1(4,6) that(2) by auto
    qed
    then show ?thesis by (simp add: ledger_def 1(10))
  qed
next
  assume "schedule_document_purge session actor doc revision epoch request g = Inr (c, g')"
  then show "ledger g g'"
    by (cases rule: schedule_purge_cases) (simp add: ledger_def)
qed

lemma run_one_ledger:
  assumes "governed_inv spell g" "run_one casefold spell remove locked worker max_attempts g = Inr (b, g')"
  shows "ledger g g'"
proof -
  note I = governed_invD [OF assms(1)]
  have dist: "distinct (map p_id (g_purges g))" using I(6) by (simp add: purges_ok_def)
  have rows: "q \<in> set (update_rows (\<lambda>r. p_id r = p_id p) f (g_purges g))"
    if p: "next_purge locked max_attempts g = Some p" and q: "q \<in> set (g_purges g)" "p_state q \<noteq> Purge_Pending" for p q f
  proof (rule kept_by_update [OF q(1)])
    show "p_id q \<noteq> p_id p"
      using distinct_keyD [OF dist q(1) next_purge_SomeD(1) [OF p]] next_purge_SomeD(2) [OF p] q(2)
      by (auto simp: due_purge_def)
  qed
  from assms(2) dist show ?thesis
  proof (cases rule: run_one_cases)
    case (refusal p code)
    with rows [OF refusal(2)] show ?thesis by (simp add: ledger_def refused_def)
  next
    case (carried_out p d)
    have "e \<in> set (update_rows (\<lambda>e. d_id e = p_document p) (tombstone spell (now g)) (docs (cat_db g)))"
      if "e \<in> set (docs (cat_db g))" "d_purged_at e \<noteq> None" for e
    proof (rule kept_by_update [OF that(1)])
      have "d_purged_at d = None" using next_purge_SomeD(2) [OF carried_out(2)] carried_out(3)
        by (simp add: due_purge_def purgeable_def)
      with that cat_doc_SomeD [OF carried_out(3)] doc_unique [OF db_invD(1) [OF I(2)] that(1)]
      show "d_id e \<noteq> p_document p" by metis
    qed
    with rows [OF carried_out(2)] show ?thesis
      by (simp add: ledger_def carried_out(5) executed_def erase_content_def update_doc_def)
  qed simp
qed

lemma govern_ledger:
  assumes "governed_inv spell g" "allowed ev g"
  shows "ledger g (govern env spell ev g)"
proof (cases ev)
  case (Ingest e)
  with assms show ?thesis by (simp add: allowed_def ingest_call_ledger)
next
  case (Release session actor doc hold revision epoch request)
  have "distinct (map h_id (g_holds g))" using governed_invD(5) [OF assms(1)] by (simp add: holds_ok_def)
  with Release show ?thesis by (simp add: after_keep [where P = "ledger g", OF _ governance_ledger(3)])
next
  case (Purge locked outcome worker max_attempts)
  with assms show ?thesis by (simp add: after_keep [where P = "ledger g", OF _ run_one_ledger])
next
  case (Appoint actor active)
  then show ?thesis by (simp add: ledger_def)
next
  case Amend
  then show ?thesis by (simp add: ledger_def bump_epoch_def)
qed (simp only: govern.simps, rule after_keep [where P = "ledger g", OF ledger_refl],
    erule governance_ledger(1,2,4) organised_ledger [OF catalogue_operations_organised(1)]
      organised_ledger [OF catalogue_operations_organised(2)] organised_ledger [OF catalogue_operations_organised(3)]
      organised_ledger [OF catalogue_operations_organised(4)] organised_ledger [OF catalogue_operations_organised(5)])+

interpretation ledgers: stable_fact governed_init "governed_step env spell" "governed_inv spell" ledger for env spell
proof
  fix g h x
  assume "governed_inv spell g" "governed_step env spell g h" "ledger x g"
  moreover from this(1,2) have "ledger g h"
    by (auto simp: governed_step_def intro: govern_ledger)
  ultimately show "ledger x h" by (blast intro: ledger_trans)
qed

end
