(* ===== verification/Retention_Samples.thy ===== *)
theory Retention_Samples
  imports Retention_Machine Ingest_Samples
begin

text \<open>
  Concrete governed tenants on which the hypotheses of the retention properties hold. Before
  any purge the governed machine does what the ingest machine does (\<open>ingest_embeds\<close>), so the
  samples start from those of \<open>Ingest_Samples\<close>: the served document is archived, the waiting
  period passes, a purge is scheduled, held or executed.
\<close>

section \<open>The ingest machine inside the governed one\<close>

definition ungoverned :: "ingest_system \<Rightarrow> governed" where
  "ungoverned s = empty_tenant\<lparr>cat_db := store s, g_handles := handles s\<rparr>"

lemma unpurged_reach:
  "reach ingest_init (ingest_step env) s \<Longrightarrow> d \<in> set (docs (store s)) \<Longrightarrow> d_purged_at d = None"
proof (induction arbitrary: d rule: reach.induct)
  case (reach_init s)
  then show ?case by (simp add: ingest_init_def empty_db_def)
next
  case (reach_step s t)
  note inv = ingest.reach_inv [OF reach_step.hyps(1)]
  from reach_step.hyps(2) obtain ev where ev: "permitted ev s" "t = exec_event env ev s"
    by (auto simp: ingest_step_def)
  have "\<And>att. event_handle ev = Some att \<Longrightarrow> handle_ok (store s) att"
    using inv ev(1) by (auto simp: permitted_def system_inv_def)
  with inv have "confined (store s) (transact env ev (store s))"
    by (intro transact_confined) (auto simp: system_inv_def)
  with reach_step.IH reach_step.prems ev(2) show ?case
    by (auto simp: confined_def purged_before_def exec_event_def)
qed

theorem ingest_embeds:
  "reach ingest_init (ingest_step env) s \<Longrightarrow> reach governed_init (governed_step env spell) (ungoverned s)"
proof (induction rule: reach.induct)
  case (reach_init s)
  then have "governed_init (ungoverned s)"
    by (simp add: ingest_init_def governed_init_def ungoverned_def empty_tenant_def)
  then show ?case by (rule reach.reach_init)
next
  case (reach_step s t)
  from reach_step.hyps(2) obtain ev where ev: "permitted ev s" "t = exec_event env ev s"
    by (auto simp: ingest_step_def)
  have part: "ingest_part (ungoverned s) = s" for s by (simp add: ingest_part_def ungoverned_def)
  have "reach ingest_init (ingest_step env) t"
    using reach_step.hyps by (rule reach.reach_step)
  then have "passes_guard spell (store s) (store t)"
    using unpurged_reach reach_step.hyps(1)
    by (auto simp: passes_guard_def list_all_iff guard_document_purge_state_def)
  then have "ungoverned t = govern env spell (Ingest ev) (ungoverned s)"
    unfolding govern.simps ingest_call_def part Let_def ev(2) [symmetric]
    by (simp add: ungoverned_def)
  moreover have "allowed (Ingest ev) (ungoverned s)" using ev(1) by (simp add: allowed_def part)
  ultimately have "governed_step env spell (ungoverned s) (ungoverned t)"
    unfolding governed_step_def by blast
  with reach_step.IH show ?case by (rule reach.reach_step)
qed

section \<open>Samples\<close>

definition sample_spell :: "uuid \<Rightarrow> pystr" where
  "sample_spell i = [48 + i]"

definition one_day :: time where
  "one_day = 86400000"

definition req :: pystr where
  "req = replicate 8 114"

definition sample_policy :: retention_policy where
  "sample_policy = \<lparr>rp_days = 1, rp_revision = 2, rp_updated_by = 9, rp_updated_at = 0\<rparr>"

definition policy_event :: retention_event where
  "policy_event = \<lparr>re_type = Policy_Changed, re_document = None, re_actor = 9, re_hold = None,
     re_purge = None, re_request = req\<rparr>"

definition audit_of :: "org_action \<Rightarrow> org_audit_event" where
  "audit_of a = \<lparr>oa_actor = 9, oa_action = a, oa_request = req\<rparr>"

text \<open>Archived at 0 under a policy of one day, seen when that day has passed.\<close>

definition sample_archived :: governed where
  "sample_archived = (ungoverned sample_served)\<lparr>
     cat_db := (store sample_served)\<lparr>docs := [(hd (docs (store sample_served)))\<lparr>d_archived_at := Some 0\<rparr>],
       clock := one_day\<rparr>,
     g_architects := [(9, True)], g_epoch := 2, g_policy := Some sample_policy,
     g_events := [policy_event], g_audit := [audit_of Retention_Policy_Change]\<rparr>"

definition sample_job :: purge_job where
  "sample_job = \<lparr>p_id = 3, p_document = 0, p_scheduled_by = 9, p_state = Purge_Pending,
     p_eligible_at = one_day, p_policy_revision = 2, p_policy_epoch = 2, p_document_revision = 1,
     p_attempt_count = 0, p_worker = None, p_failure = None, p_request = req,
     p_created_at = one_day, p_started_at = None, p_completed_at = None\<rparr>"

definition purge_event :: "retention_event_type \<Rightarrow> retention_event" where
  "purge_event ty = \<lparr>re_type = ty, re_document = Some 0, re_actor = 9, re_hold = None,
     re_purge = Some 3, re_request = req\<rparr>"

definition sample_scheduled :: governed where
  "sample_scheduled = sample_archived\<lparr>cat_db := (cat_db sample_archived)\<lparr>uuid_next := 4\<rparr>,
     g_purges := [sample_job], g_events := [policy_event, purge_event Purge_Scheduled],
     g_audit := [audit_of Retention_Policy_Change, audit_of Purge_Schedule]\<rparr>"

definition sample_purged :: governed where
  "sample_purged = executed sample_spell [119] sample_job sample_scheduled"

definition sample_held :: governed where
  "sample_held = after (create_document_legal_hold 9 9 0 (u ''litigation'') 1 2 req sample_scheduled) sample_scheduled"

lemma reach_governance:
  assumes "reach governed_init (governed_step env spell) g" "run_governance env spell evs g = Some h"
  shows "reach governed_init (governed_step env spell) h"
  using run_governance_steps [OF assms(2)] assms(1) by (rule governance.reach_steps)

lemma sample_run_archived:
  "run_governance sample_env sample_spell [Appoint 9 True, Set_Policy 9 9 1 1 1 req, Ingest (Archive 0 True)]
     (ungoverned sample_served) = Some (sample_archived\<lparr>cat_db := (cat_db sample_archived)\<lparr>clock := 0\<rparr>\<rparr>)"
  by code_simp

lemma sample_run_waited:
  "run_governance sample_env sample_spell [Ingest (Tick 86400000)]
     (sample_archived\<lparr>cat_db := (cat_db sample_archived)\<lparr>clock := 0\<rparr>\<rparr>) = Some sample_archived"
  by (simp add: allowed_def permitted_def ingest_call_def Let_def exec_event_def ingest_part_def passes_guard_def
      guard_document_purge_state_def sample_archived_def ungoverned_def sample_served_def one_day_def sample_document_def)

lemma sample_run_scheduled:
  "run_governance sample_env sample_spell [Schedule 9 9 0 1 2 req] sample_archived = Some sample_scheduled"
  by code_simp

lemma sample_label: "canonical_label (\<lambda>x. x) [119] = Inr ([119], [119])"
  by (simp add: canonical_label_def strip_def lstrip_def rstrip_def is_space_def is_control_def Let_def)

lemma sample_next: "next_purge [] 5 sample_scheduled = Some sample_job"
  by code_simp

lemma sample_run_purged:
  "run_one (env_casefold sample_env) sample_spell (\<lambda>c. Removed) [] [119] 5 sample_scheduled = Inr (True, sample_purged)"
  unfolding sample_purged_def
  by (rule run_one_executes [OF _ sample_next]) (simp_all add: sample_label sample_env_def sample_scheduled_def
      sample_archived_def ungoverned_def sample_served_def sample_document_def sample_job_def)

lemma sample_step_purged: "governed_step sample_env sample_spell sample_scheduled sample_purged"
  unfolding governed_step_def
  by (rule exI [where x = "Purge [] Removed [119] 5"]) (simp add: allowed_def sample_run_purged)

lemma reach_governed_samples:
  "reach governed_init (governed_step sample_env sample_spell) sample_archived"
  "reach governed_init (governed_step sample_env sample_spell) sample_scheduled"
  "reach governed_init (governed_step sample_env sample_spell) sample_purged"
  "reach governed_init (governed_step sample_env sample_spell) sample_held"
proof -
  show 1: "reach governed_init (governed_step sample_env sample_spell) sample_archived"
    by (rule reach_governance [OF reach_governance [OF ingest_embeds [OF reach_samples(4)] sample_run_archived]
          sample_run_waited])
  show 2: "reach governed_init (governed_step sample_env sample_spell) sample_scheduled"
    by (rule reach_governance [OF 1 sample_run_scheduled])
  show "reach governed_init (governed_step sample_env sample_spell) sample_held"
    by (rule reach_governance [OF 2, of "[Hold 9 9 0 (u ''litigation'') 1 2 req]"])
      (simp add: sample_held_def allowed_def)
  from 2 sample_step_purged show "reach governed_init (governed_step sample_env sample_spell) sample_purged"
    by (rule reach.reach_step)
qed

end
