(* ===== verification/Retention_Trail.thy ===== *)
theory Retention_Trail
  imports Retention_Machine
begin

text \<open>
  What no transaction of a governed tenant removes from the ingest database, the purge of a document
  included: the versions, their events and the build receipts, the verdict of an attempt, a job that
  ended, and every chunk a receipt covers unless its document was purged. The locale of facts that
  never end is interpreted on it.
\<close>

definition trail :: "db \<Rightarrow> db \<Rightarrow> bool" where
  "trail s t \<longleftrightarrow> prefix (versions s) (versions t) \<and> prefix (events s) (events t) \<and> prefix (builds s) (builds t)
     \<and> attempts_grow (attempts s) (attempts t) \<and> jobs_grow (jobs s) (jobs t)
     \<and> (\<forall>c\<in>set (chunks s). covered (builds s) c \<longrightarrow> c \<in> set (chunks t) \<or> purged_in (docs t) (c_document c))
     \<and> (\<forall>i. purged_in (docs s) i \<longrightarrow> purged_in (docs t) i)"

lemma trail_refl [simp]: "trail s s"
  by (simp add: trail_def)

lemma trail_trans:
  assumes "trail r s" "trail s t"
  shows "trail r t"
proof -
  have "set (builds r) \<subseteq> set (builds s)" using assms(1) by (auto simp: trail_def dest: set_mono_prefix)
  then have "covered (builds s) c" if "covered (builds r) c" for c using that by (rule covered_mono [rotated])
  with assms show ?thesis
    unfolding trail_def by (blast intro: prefix_order.trans attempts_grow_trans jobs_grow_trans)
qed

lemma trail_same:
  "versions t = versions s \<Longrightarrow> events t = events s \<Longrightarrow> builds t = builds s \<Longrightarrow> attempts t = attempts s
     \<Longrightarrow> jobs t = jobs s \<Longrightarrow> chunks t = chunks s \<Longrightarrow> docs t = docs s \<Longrightarrow> trail s t"
  by (simp add: trail_def)

lemma organised_trail: "organised g h \<Longrightarrow> trail (cat_db g) (cat_db h)"
  by (auto simp: organised_def intro: trail_same)

lemma ingest_call_trail:
  assumes "governed_inv spell g" "permitted ev (ingest_part g)"
  shows "trail (cat_db g) (cat_db (ingest_call env spell ev g))"
proof (cases "passes_guard spell (cat_db g) (transact env ev (cat_db g))")
  case False
  then show ?thesis by (simp add: ingest_call_def Let_def exec_event_def ingest_part_def)
next
  case guard: True
  note I = governed_invD [OF assms(1)]
  have "\<And>att. event_handle ev = Some att \<Longrightarrow> handle_ok (cat_db g) att"
    using I(1) assms(2) by (auto simp: permitted_def system_inv_def ingest_part_def)
  note same = purged_docs_same [OF transact_confined [OF I(2) this] transact_history [OF I(2)] guard]
  have "purged_in (docs (transact env ev (cat_db g))) i" if "purged_in (docs (cat_db g)) i" for i
    using that same by (fastforce simp: purged_in_def)
  with transact_history [OF I(2), of env ev] have "trail (cat_db g) (transact env ev (cat_db g))"
    by (auto simp: trail_def history_def)
  with guard show ?thesis by (simp add: ingest_call_def Let_def exec_event_def ingest_part_def)
qed

lemma governance_trail:
  "update_tenant_retention_policy session actor days revision epoch request g = Inr (a, h) \<Longrightarrow> trail (cat_db g) (cat_db h)"
  "create_document_legal_hold session actor doc reason revision epoch request g = Inr (b, h) \<Longrightarrow> trail (cat_db g) (cat_db h)"
  "release_document_legal_hold session actor doc hold revision epoch request g = Inr (b, h) \<Longrightarrow> trail (cat_db g) (cat_db h)"
  "schedule_document_purge session actor doc revision epoch request g = Inr (c, h) \<Longrightarrow> trail (cat_db g) (cat_db h)"
proof -
  assume "update_tenant_retention_policy session actor days revision epoch request g = Inr (a, h)"
  then show "trail (cat_db g) (cat_db h)"
    by (cases rule: update_policy_cases) (simp add: bump_epoch_def record_audit_def record_retention_def)
next
  assume "create_document_legal_hold session actor doc reason revision epoch request g = Inr (b, h)"
  then show "trail (cat_db g) (cat_db h)"
    by (cases rule: create_hold_cases) (auto intro: trail_same)
next
  assume "release_document_legal_hold session actor doc hold revision epoch request g = Inr (b, h)"
  then show "trail (cat_db g) (cat_db h)"
    by (cases rule: release_hold_cases) (simp add: trail_same)
next
  assume "schedule_document_purge session actor doc revision epoch request g = Inr (c, h)"
  then show "trail (cat_db g) (cat_db h)"
    by (cases rule: schedule_purge_cases) (simp add: trail_same)
qed

text \<open>The purge deletes the chunks of one document, and marks that document purged.\<close>

lemma executed_trail:
  assumes "cat_doc g (p_document p) = Some d"
  shows "trail (cat_db g) (cat_db (executed spell worker p g))"
proof -
  let ?ds = "update_rows (\<lambda>e. d_id e = p_document p) (tombstone spell (now g)) (docs (cat_db g))"
  have here: "purged_in ?ds (p_document p)"
    unfolding purged_in_def set_update_rows
    by (rule bexI [of _ "tombstone spell (now g) d"]) (use cat_doc_SomeD [OF assms] in auto)
  have "purged_in ?ds i" if "purged_in (docs (cat_db g)) i" for i
  proof (cases "i = p_document p")
    case False
    with that show ?thesis by (fastforce simp: purged_in_def set_update_rows)
  qed (use here in simp)
  with here show ?thesis by (simp add: trail_def executed_def erase_content_def update_doc_def)
qed

lemma run_one_trail:
  assumes "governed_inv spell g" "run_one casefold spell remove locked worker most g = Inr (b, h)"
  shows "trail (cat_db g) (cat_db h)"
proof -
  have "distinct (map p_id (g_purges g))" using governed_invD(6) [OF assms(1)] by (simp add: purges_ok_def)
  with assms(2) show ?thesis
  proof (cases rule: run_one_cases)
    case (carried_out p d)
    then show ?thesis by (simp add: executed_trail)
  qed (simp_all add: refused_def)
qed

lemma govern_trail:
  assumes "governed_inv spell g" "allowed ev g"
  shows "trail (cat_db g) (cat_db (govern env spell ev g))"
proof -
  note keep = after_keep [where P = "\<lambda>h. trail (cat_db g) (cat_db h)", OF trail_refl]
  show ?thesis
  proof (cases ev)
    case (Ingest e)
    with assms show ?thesis by (simp add: allowed_def ingest_call_trail)
  next
    case (Purge locked outcome worker most)
    show ?thesis unfolding Purge govern.simps by (rule keep) (rule run_one_trail [OF assms(1)])
  next
    case (Appoint actor active)
    then show ?thesis by simp
  next
    case Amend
    then show ?thesis by (simp add: bump_epoch_def)
  qed (simp only: govern.simps, rule keep,
      erule governance_trail organised_trail [OF catalogue_operations_organised(1)]
        organised_trail [OF catalogue_operations_organised(2)] organised_trail [OF catalogue_operations_organised(3)]
        organised_trail [OF catalogue_operations_organised(4)] organised_trail [OF catalogue_operations_organised(5)])+
qed

interpretation trails: stable_fact governed_init "governed_step env spell" "governed_inv spell" "\<lambda>s g. trail s (cat_db g)" for env spell
proof
  fix g h x
  assume "governed_inv spell g" "governed_step env spell g h" "trail x (cat_db g)"
  moreover from this(1,2) have "trail (cat_db g) (cat_db h)"
    by (auto simp: governed_step_def intro: govern_trail)
  ultimately show "trail x (cat_db h)" by (blast intro: trail_trans)
qed

end
