(* ===== verification/Retention_Properties.thy ===== *)
theory Retention_Properties
  imports Retention_Samples Retention_Trail
begin

text \<open>
  What the retention of a tenant guarantees, in every reachable state of the governed machine:
  a legal hold excludes the purge, a purge is final and complete, the policy epoch admits one
  change, the log only grows; and what it does not guarantee: the attempt budget of a purge and
  the waiting period of a document that was archived anew.
\<close>

lemma reach_governed_inv: "reach governed_init (governed_step env spell) g \<Longrightarrow> governed_inv spell g"
  by (rule governance.reach_inv)

section \<open>Holds and purges\<close>

lemma held_document_facts:
  assumes "governed_inv spell g" "held g doc"
  shows "\<not> purged_in (docs (cat_db g)) doc" "p \<in> set (g_purges g) \<Longrightarrow> p_document p = doc \<Longrightarrow> \<not> open_purge p"
    "\<exists>d\<in>set (docs (cat_db g)). d_id d = doc"
proof -
  note I = governed_invD [OF assms(1)]
  from assms(2) obtain k where k: "k \<in> set (g_holds g)" "h_document k = doc" "h_state k = Hold_Active"
    by (auto simp: held_iff active_hold_def)
  with I(5) show "\<not> purged_in (docs (cat_db g)) doc" by (auto simp: holds_ok_def)
  show "\<exists>d\<in>set (docs (cat_db g)). d_id d = doc" using I(5) k by (fastforce simp: holds_ok_def)
  show "\<not> open_purge p" if "p \<in> set (g_purges g)" "p_document p = doc" for p
    using I(6) that assms(2) unfolding purges_ok_def open_purge_def held_iff by blast
qed

lemma held_not_scheduled:
  assumes "held g doc"
  shows "\<exists>e. schedule_document_purge session actor doc revision epoch request g = Inl e"
proof (cases "schedule_document_purge session actor doc revision epoch request g")
  case (Inr x)
  then obtain job g' where "schedule_document_purge session actor doc revision epoch request g = Inr (job, g')"
    by (cases x) simp
  then show ?thesis by (cases rule: schedule_purge_cases) (use assms in simp)
qed simp

lemma executed_elsewhere:
  assumes "i \<noteq> p_document p"
  shows "cat_doc (executed spell worker p g) i = cat_doc g i
     \<and> filter (\<lambda>c. c_document c = i) (chunks (cat_db (executed spell worker p g)))
         = filter (\<lambda>c. c_document c = i) (chunks (cat_db g))"
proof -
  have "find_row d_id i (update_rows (\<lambda>d. d_id d = p_document p) (tombstone spell (now g)) ds) = find_row d_id i ds" for ds
    using assms by (induction ds) auto
  moreover have "(c_document c \<noteq> p_document p \<and> c_document c = i) = (c_document c = i)" for c :: chunk
    using assms by auto
  ultimately show ?thesis
    by (simp add: executed_def erase_content_def cat_doc_def get_doc_def update_doc_def)
qed

text \<open>C10: a legal hold excludes the purge. While a document is under an active hold, in every reachable
  state, it is not purged and has no open purge job, nobody can schedule its purge, and a turn
  of the purge worker leaves its row and its chunks as they are, whatever the storage does.
\<close>

theorem held_document_survives:
  assumes "reach governed_init (governed_step env spell) g" "held g doc"
  shows "\<not> purged_in (docs (cat_db g)) doc
     \<and> (\<forall>p\<in>set (g_purges g). p_document p = doc \<longrightarrow> \<not> open_purge p)
     \<and> (\<exists>e. schedule_document_purge session actor doc revision epoch request g = Inl e)
     \<and> (\<forall>b h. run_one casefold spell remove locked worker most g = Inr (b, h) \<longrightarrow>
          cat_doc h doc = cat_doc g doc
          \<and> filter (\<lambda>c. c_document c = doc) (chunks (cat_db h)) = filter (\<lambda>c. c_document c = doc) (chunks (cat_db g)))"
proof (intro conjI allI impI)
  note inv = reach_governed_inv [OF assms(1)]
  note facts = held_document_facts [OF inv assms(2)]
  show "\<not> purged_in (docs (cat_db g)) doc" by (rule facts)
  show "\<forall>p\<in>set (g_purges g). p_document p = doc \<longrightarrow> \<not> open_purge p" using facts(2) by blast
  show "\<exists>e. schedule_document_purge session actor doc revision epoch request g = Inl e"
    by (rule held_not_scheduled [OF assms(2)])
  fix b h
  assume ok: "run_one casefold spell remove locked worker most g = Inr (b, h)"
  have dist: "distinct (map p_id (g_purges g))" using governed_invD(6) [OF inv] by (simp add: purges_ok_def)
  have "cat_doc h doc = cat_doc g doc
       \<and> filter (\<lambda>c. c_document c = doc) (chunks (cat_db h)) = filter (\<lambda>c. c_document c = doc) (chunks (cat_db g))"
    using ok dist
  proof (cases rule: run_one_cases)
    case (carried_out p d)
    have "doc \<noteq> p_document p"
      using next_purge_SomeD(2) [OF carried_out(2)] assms(2) by (auto simp: due_purge_def)
    then show ?thesis unfolding carried_out(5) by (rule executed_elsewhere)
  qed (auto simp: refused_def cat_doc_def)
  then show "cat_doc h doc = cat_doc g doc"
    and "filter (\<lambda>c. c_document c = doc) (chunks (cat_db h)) = filter (\<lambda>c. c_document c = doc) (chunks (cat_db g))"
    by auto
qed

theorem held_document_survives_witness:
  "held sample_held 0 \<and> (\<exists>e. schedule_document_purge 9 9 0 1 3 req sample_held = Inl e)
     \<and> \<not> purged_in (docs (cat_db sample_held)) 0"
proof -
  have h: "held sample_held 0" by code_simp
  from held_document_survives [OF reach_governed_samples(4) h] h show ?thesis by blast
qed

text \<open>C11: a purge is final. From any reachable state in which a document is purged, along any further
  run of the tenant, its row stays exactly as the purge left it, a complete tombstone; no chunk
  of it is ever stored again, no hold and no further purge is ever open on it, and the completed
  job that accounts for it stays in the table.
\<close>

theorem purge_is_final:
  assumes "reach governed_init (governed_step env spell) g"
    and "d \<in> set (docs (cat_db g))" "d_purged_at d \<noteq> None"
    and "(governed_step env spell)\<^sup>*\<^sup>* g h"
  shows "d \<in> set (docs (cat_db h)) \<and> complete_tombstone spell d
     \<and> (\<forall>c\<in>set (chunks (cat_db h)). c_document c \<noteq> d_id d)
     \<and> \<not> held h (d_id d)
     \<and> (\<forall>p\<in>set (g_purges h). p_document p = d_id d \<longrightarrow> \<not> open_purge p)
     \<and> (\<exists>p\<in>set (g_purges g). p_document p = d_id d \<and> p_state p = Purge_Completed \<and> p \<in> set (g_purges h))"
proof -
  note inv = reach_governed_inv [OF assms(1)]
  have later: "governed_inv spell h"
    using assms(4) inv by (rule governance.steps_inv)
  have "ledger g h"
    by (rule ledgers.fact_forever [OF assms(1) ledger_refl assms(4)])
  then have d: "d \<in> set (docs (cat_db h))" and keep: "\<forall>p\<in>set (g_purges g). p_state p \<noteq> Purge_Pending \<longrightarrow> p \<in> set (g_purges h)"
    using assms(2,3) by (auto simp: ledger_def)
  note I = governed_invD [OF later]
  have purged: "purged_in (docs (cat_db h)) (d_id d)" using d assms(3) by (auto simp: purged_in_def)
  have "\<not> held h (d_id d)" using I(5) purged by (auto simp: held_iff active_hold_def holds_ok_def)
  moreover have "\<not> open_purge p" if "p \<in> set (g_purges h)" "p_document p = d_id d" for p
    using I(6) that purged unfolding purges_ok_def open_purge_def by metis
  moreover obtain p where "p \<in> set (g_purges g)" "p_document p = d_id d" "p_state p = Purge_Completed"
    using governed_invD(4) [OF inv] assms(2,3) unfolding tombs_ok_def by blast
  moreover from this keep have "p \<in> set (g_purges h)" by simp
  ultimately show ?thesis using I(4) d assms(3) unfolding tombs_ok_def by blast
qed

theorem purge_is_final_witness:
  "\<exists>d\<in>set (docs (cat_db sample_purged)). d_purged_at d \<noteq> None \<and> complete_tombstone sample_spell d
     \<and> \<not> held sample_purged (d_id d)"
proof -
  let ?d = "tombstone sample_spell one_day ((hd (docs (store sample_served)))\<lparr>d_archived_at := Some 0\<rparr>)"
  have d: "?d \<in> set (docs (cat_db sample_purged))"
    by (simp add: sample_purged_def executed_def erase_content_def update_doc_def sample_scheduled_def
        sample_archived_def sample_job_def now_def sample_served_def sample_document_def ungoverned_def)
  have purged: "d_purged_at ?d \<noteq> None" by simp
  from purge_is_final [OF reach_governed_samples(3) d purged rtranclp.rtrancl_refl]
  have "complete_tombstone sample_spell ?d \<and> \<not> held sample_purged (d_id ?d)" by blast
  with d purged show ?thesis by (intro bexI [where x = ?d]) blast+
qed

text \<open>C12: what a purge carries out. A turn of the worker with a due job whose sources the storage removed
  commits: the document becomes the tombstone, every chunk, collection membership and tag of it
  is deleted and of no other document, its versions, receipts, attempts and ingest jobs stay, the
  job is completed by this worker, every other job is untouched, and one retention event and one
  audit row name who scheduled it.
\<close>

theorem purge_erases_the_content:
  assumes "reach governed_init (governed_step env spell) g"
    and "next_purge locked most g = Some p" "canonical_label casefold worker_id = Inr (worker, key)"
    and "length worker \<le> 200" "1 \<le> most" "most \<le> 20"
    and "\<forall>e\<in>set (docs (cat_db g)). d_filename e = u ''purged-'' @ spell (p_document p) \<longrightarrow> d_id e = p_document p"
  shows "\<exists>h d. run_one casefold spell (\<lambda>c. Removed) locked worker_id most g = Inr (True, h)
     \<and> d \<in> set (docs (cat_db g)) \<and> d_id d = p_document p
     \<and> set (docs (cat_db h)) = insert (tombstone spell (now g) d) (set (docs (cat_db g)) - {d})
     \<and> chunks (cat_db h) = filter (\<lambda>c. c_document c \<noteq> p_document p) (chunks (cat_db g))
     \<and> cat_members h = filter (\<lambda>(k, i). i \<noteq> p_document p) (cat_members g)
     \<and> cat_labels h = filter (\<lambda>(i, k). i \<noteq> p_document p) (cat_labels g)
     \<and> versions (cat_db h) = versions (cat_db g) \<and> builds (cat_db h) = builds (cat_db g)
     \<and> attempts (cat_db h) = attempts (cat_db g) \<and> jobs (cat_db h) = jobs (cat_db g)
     \<and> set (g_purges h) = insert (settle Purge_Completed None worker (now g) p) (set (g_purges g) - {p})
     \<and> g_events h = g_events g @ [\<lparr>re_type = Purge_Executed, re_document = Some (p_document p),
          re_actor = p_scheduled_by p, re_hold = None, re_purge = Some (p_id p), re_request = p_request p\<rparr>]
     \<and> g_audit h = g_audit g @ [\<lparr>oa_actor = p_scheduled_by p, oa_action = Purge_Execute, oa_request = p_request p\<rparr>]"
proof -
  note I = governed_invD [OF reach_governed_inv [OF assms(1)]] and p = next_purge_SomeD [OF assms(2)]
  have dist: "distinct (map p_id (g_purges g))" using I(6) by (simp add: purges_ok_def)
  from p(2) obtain d where "cat_doc g (p_document p) = Some d" by (rule due_document)
  then have d: "d \<in> set (docs (cat_db g))" "d_id d = p_document p" by (auto dest: cat_doc_SomeD)
  have "run_one casefold spell (\<lambda>c. Removed) locked worker_id most g = Inr (True, executed spell worker p g)"
    by (rule run_one_executes [OF dist assms(2-6)]) (use assms(7) in auto)
  with d settled_rows(2) [OF dist p(1)] update_one [OF db_invD(1) [OF I(2)] d(1)] show ?thesis
    by (intro exI [where x = "executed spell worker p g"] exI [where x = d])
      (simp add: executed_def erase_content_def update_doc_def d(2))
qed

theorem purge_erases_the_content_witness:
  "\<exists>h. run_one (\<lambda>x. x) sample_spell (\<lambda>c. Removed) [] [119] 5 sample_scheduled = Inr (True, h)
     \<and> chunks (cat_db h) = [] \<and> chunks (cat_db sample_scheduled) \<noteq> []"
proof -
  have parts: "docs (cat_db sample_scheduled) = [(hd (docs (store sample_served)))\<lparr>d_archived_at := Some 0\<rparr>]"
      "chunks (cat_db sample_scheduled) = [sample_stored]" "p_document sample_job = 0" "c_document sample_stored = 0"
    by (simp_all add: sample_scheduled_def sample_archived_def sample_served_def sample_job_def sample_stored_def)
  have "\<forall>e\<in>set (docs (cat_db sample_scheduled)). d_filename e = u ''purged-'' @ sample_spell (p_document sample_job)
      \<longrightarrow> d_id e = p_document sample_job"
    by (simp add: parts sample_served_def sample_document_def)
  from purge_erases_the_content [OF reach_governed_samples(2) sample_next sample_label _ _ _ this]
  show ?thesis by (auto simp: parts)
qed

section \<open>The audit trail\<close>

text \<open>C21: the audit trail only grows, the purge included. Along any run of the governed tenant from any
  reachable state, versions, version events and build receipts are appended to; a run's verdict and a
  terminal job keep their row as it is; and every chunk a build receipt covers is kept, unless a
  completed purge job accounts for its document, which is then a tombstone.
\<close>

theorem audit_trail_only_grows:
  assumes "reach governed_init (governed_step env spell) g" "(governed_step env spell)\<^sup>*\<^sup>* g h"
  shows "prefix (versions (cat_db g)) (versions (cat_db h)) \<and> prefix (events (cat_db g)) (events (cat_db h))
     \<and> prefix (builds (cat_db g)) (builds (cat_db h))
     \<and> {r \<in> set (attempts (cat_db g)). a_status r \<noteq> None} \<subseteq> set (attempts (cat_db h))
     \<and> {j \<in> set (jobs (cat_db g)). terminal_status (j_status j)} \<subseteq> set (jobs (cat_db h))
     \<and> (\<forall>c\<in>set (chunks (cat_db g)). covered (builds (cat_db g)) c \<longrightarrow> c \<in> set (chunks (cat_db h))
          \<or> (\<exists>d\<in>set (docs (cat_db h)). d_id d = c_document c \<and> complete_tombstone spell d)
            \<and> (\<exists>p\<in>set (g_purges h). p_document p = c_document c \<and> p_state p = Purge_Completed))"
proof -
  have t: "trail (cat_db g) (cat_db h)"
    by (rule trails.fact_forever [OF assms(1) trail_refl assms(2)])
  have inv: "governed_inv spell h"
    by (rule reach_governed_inv) (rule governance.reach_steps [OF assms(2,1)])
  have "(\<exists>d\<in>set (docs (cat_db h)). d_id d = i \<and> complete_tombstone spell d)
      \<and> (\<exists>p\<in>set (g_purges h). p_document p = i \<and> p_state p = Purge_Completed)"
    if "purged_in (docs (cat_db h)) i" for i
    using governed_invD(4) [OF inv] that unfolding tombs_ok_def purged_in_def by metis
  with t show ?thesis unfolding trail_def attempts_grow_def jobs_grow_def by blast
qed

text \<open>The served document is purged: its receipt stays, its chunk is gone, and the purge job says why.\<close>

theorem audit_trail_only_grows_witness:
  "prefix (builds (cat_db sample_scheduled)) (builds (cat_db sample_purged))
     \<and> (\<exists>c\<in>set (chunks (cat_db sample_scheduled)). covered (builds (cat_db sample_scheduled)) c
          \<and> (\<exists>p\<in>set (g_purges sample_purged). p_document p = c_document c \<and> p_state p = Purge_Completed))"
proof -
  have "list_ex (\<lambda>c. covered (builds (cat_db sample_scheduled)) c \<and> c \<notin> set (chunks (cat_db sample_purged)))
      (chunks (cat_db sample_scheduled))" by code_simp
  then obtain c where c: "c \<in> set (chunks (cat_db sample_scheduled))" "covered (builds (cat_db sample_scheduled)) c"
    "c \<notin> set (chunks (cat_db sample_purged))" by (auto simp: list_ex_iff)
  from audit_trail_only_grows [OF reach_governed_samples(2) r_into_rtranclp [where r = "governed_step sample_env sample_spell", OF sample_step_purged]] c show ?thesis by blast
qed

section \<open>Scheduling\<close>

text \<open>C34: when a purge may be scheduled. The call succeeds exactly for an active architect acting for
  itself who names the current policy epoch and the current revision of a document that is
  archived for at least the retention period of the policy, is not purged, is not being ingested
  or queued, is under no hold and has no open purge job, with a request id of 8 to 64 characters.
\<close>

theorem schedule_gates:
  assumes "reach governed_init (governed_step env spell) g"
  shows "(\<exists>job h. schedule_document_purge session actor doc revision epoch request g = Inr (job, h)) \<longleftrightarrow>
     (actor, True) \<in> set (g_architects g) \<and> session = actor \<and> epoch = g_epoch g
     \<and> 8 \<le> length request \<and> length request \<le> 64
     \<and> (\<exists>d archived. cat_doc g doc = Some d \<and> revision = int (d_revision d) \<and> d_archived_at d = Some archived
          \<and> archived + days_long (retention_days g) \<le> now g \<and> d_purged_at d = None \<and> d_attempt_id d = None
          \<and> \<not> has_active_job (cat_db g) doc \<and> \<not> held g doc
          \<and> (\<forall>p\<in>set (g_purges g). p_document p = doc \<longrightarrow> \<not> open_purge p))"
    (is "?ok \<longleftrightarrow> ?gates")
proof
  assume ?ok
  then obtain job h where "schedule_document_purge session actor doc revision epoch request g = Inr (job, h)" by blast
  then show ?gates
    by (cases rule: schedule_purge_cases)
      (auto simp: retention_architect_def retention_request_id_def list_ex_iff)
next
  assume gates: ?gates
  then obtain d archived where d: "cat_doc g doc = Some d" "revision = int (d_revision d)" "d_archived_at d = Some archived"
      "archived + days_long (retention_days g) \<le> now g" "d_purged_at d = None" "d_attempt_id d = None"
      "\<not> has_active_job (cat_db g) doc" "\<not> held g doc"
      "\<forall>p\<in>set (g_purges g). p_document p = doc \<longrightarrow> \<not> open_purge p" by blast
  have "\<not> list_ex (\<lambda>p. p_document p = doc \<and> open_purge p) (g_purges g)" using d(9) by (auto simp: list_ex_iff)
  moreover have "1 \<le> g_epoch g"
    using governed_invD(7) [OF reach_governed_inv [OF assms]] by (simp add: policy_ok_def)
  moreover have "lock_retention_architect g session actor (Some epoch) = None"
    using gates by (simp add: lock_retention_architect_def retention_architect_def)
  ultimately show ?ok
    using gates d by (simp add: schedule_document_purge_def retention_counter_def retention_positive_def
        retention_request_id_def fresh_uuid_eq Let_def)
qed

theorem schedule_gates_witness:
  "\<exists>job h. schedule_document_purge 9 9 0 1 2 req sample_archived = Inr (job, h)"
proof -
  have "\<exists>d archived. cat_doc sample_archived 0 = Some d \<and> (1::int) = int (d_revision d) \<and> d_archived_at d = Some archived
          \<and> archived + days_long (retention_days sample_archived) \<le> now sample_archived \<and> d_purged_at d = None
          \<and> d_attempt_id d = None \<and> \<not> has_active_job (cat_db sample_archived) 0 \<and> \<not> held sample_archived 0
          \<and> (\<forall>p\<in>set (g_purges sample_archived). p_document p = 0 \<longrightarrow> \<not> open_purge p)"
    by (simp add: sample_archived_def sample_served_def sample_document_def ungoverned_def empty_tenant_def cat_doc_def
        get_doc_def now_def days_long_def one_day_def retention_days_def sample_policy_def has_active_job_def held_def)
  then show ?thesis
    by (intro schedule_gates [OF reach_governed_samples(1), THEN iffD2])
      (simp add: sample_archived_def req_def)
qed

text \<open>C35: the policy epoch admits one change. When a governance change (policy, hold or release) that
  names an epoch has succeeded, then in no later state of the tenant does any governance call
  that names this epoch succeed: what an architect saw before the change is never acted upon.
\<close>

theorem epoch_admits_one_change:
  assumes "reach governed_init (governed_step env spell) g"
    and "(\<exists>v. update_tenant_retention_policy session actor days revision epoch request g = Inr (v, h))
       \<or> (\<exists>v. create_document_legal_hold session actor doc reason revision epoch request g = Inr (v, h))
       \<or> (\<exists>v. release_document_legal_hold session actor doc hold revision epoch request g = Inr (v, h))"
    and "(governed_step env spell)\<^sup>*\<^sup>* h k"
  shows "(\<exists>e. update_tenant_retention_policy session' actor' days' revision' epoch request' k = Inl e)
     \<and> (\<exists>e. create_document_legal_hold session' actor' doc' reason' revision' epoch request' k = Inl e)
     \<and> (\<exists>e. release_document_legal_hold session' actor' doc' hold' revision' epoch request' k = Inl e)
     \<and> (\<exists>e. schedule_document_purge session' actor' doc' revision' epoch request' k = Inl e)"
proof -
  have epoch: "epoch < g_epoch h"
    using assms(2)
    by (auto elim!: update_policy_cases create_hold_cases release_hold_cases
        simp: bump_epoch_def record_audit_def record_retention_def)
  have "h = after (update_tenant_retention_policy session actor days revision epoch request g) g
      \<or> h = after (create_document_legal_hold session actor doc reason revision epoch request g) g
      \<or> h = after (release_document_legal_hold session actor doc hold revision epoch request g) g"
    using assms(2) by auto
  then have "governed_step env spell g h"
    unfolding governed_step_def
    by (elim disjE) (rule exI [where x = "Set_Policy session actor days revision epoch request"], simp add: allowed_def,
      rule exI [where x = "Hold session actor doc reason revision epoch request"], simp add: allowed_def,
      rule exI [where x = "Release session actor doc hold revision epoch request"], simp add: allowed_def)
  with assms(1) have "reach governed_init (governed_step env spell) h" by (rule reach.reach_step)
  from ledgers.fact_forever [OF this ledger_refl assms(3)] epoch have stale: "epoch < g_epoch k"
    by (simp add: ledger_def)
  have "epoch \<noteq> g_epoch k" using stale by simp
  then have lock: "lock_retention_architect k session' actor' (Some epoch) \<noteq> None"
    by (simp add: lock_retention_architect_def)
  then show ?thesis
    by (auto simp: update_tenant_retention_policy_def create_document_legal_hold_def
        release_document_legal_hold_def schedule_document_purge_def)
qed

theorem epoch_admits_one_change_witness:
  "\<exists>e. schedule_document_purge 9 9 0 1 2 req sample_held = Inl e"
proof -
  have "\<exists>v. create_document_legal_hold 9 9 0 (u ''litigation'') 1 2 req sample_scheduled = Inr (v, sample_held)"
  proof -
    have "\<not> isl (create_document_legal_hold 9 9 0 (u ''litigation'') 1 2 req sample_scheduled)" by code_simp
    then show ?thesis unfolding sample_held_def
      by (cases "create_document_legal_hold 9 9 0 (u ''litigation'') 1 2 req sample_scheduled") auto
  qed
  then have "(\<exists>v. update_tenant_retention_policy 9 9 1 1 2 req sample_scheduled = Inr (v, sample_held))
       \<or> (\<exists>v. create_document_legal_hold 9 9 0 (u ''litigation'') 1 2 req sample_scheduled = Inr (v, sample_held))
       \<or> (\<exists>v. release_document_legal_hold 9 9 0 0 1 2 req sample_scheduled = Inr (v, sample_held))" by blast
  from epoch_admits_one_change [OF reach_governed_samples(2) this rtranclp.rtrancl_refl] show ?thesis by blast
qed

section \<open>Paging\<close>

text \<open>The order of the inventory, and what a stable second sort makes of a first one.\<close>

lemma stable_lexicographic:
  assumes "sorted (map f zs)" "\<And>k. sorted_wrt R (filter (\<lambda>y. f y = k) zs)"
  shows "sorted_wrt (\<lambda>a b. f a < f b \<or> f a = f b \<and> R a b) zs"
  using assms
proof (induction zs)
  case (Cons a zs)
  have "f a < f b \<or> f a = f b \<and> R a b" if "b \<in> set zs" for b
  proof (cases "f a = f b")
    case True
    then have "b \<in> set (filter (\<lambda>y. f y = f a) zs)" using that by simp
    with Cons.prems(2) [of "f a"] True show ?thesis by auto
  next
    case False
    with Cons.prems(1) that show ?thesis by fastforce
  qed
  moreover have "sorted_wrt R (filter (\<lambda>y. f y = k) zs)" for k
    using Cons.prems(2) [of k] by (auto split: if_splits)
  ultimately show ?case using Cons by simp
qed simp

lemma newest_first_sorted:
  assumes "distinct (map d_id ds)"
  shows "sorted_wrt (\<lambda>a b. keyset_before (d_uploaded_at a, d_id a) b) (newest_first d_uploaded_at d_id ds)"
proof -
  let ?ys = "sort_key (\<lambda>r. - int (d_id r)) ds"
  have set: "set (map d_id ?ys) = d_id ` set ds" by simp
  have "card (set (map d_id ?ys)) = length (map d_id ?ys)"
    using assms unfolding set by (simp add: distinct_card [OF assms, simplified])
  then have "distinct (map d_id ?ys)" by (rule card_distinct)
  then have "sorted_wrt (\<lambda>a b. d_id a \<noteq> d_id b) ?ys"
    by (simp add: distinct_conv_nth sorted_wrt_iff_nth_less)
  moreover have "sorted_wrt (\<lambda>a b. - int (d_id a) \<le> - int (d_id b)) ?ys"
    using sorted_sort_key [of "\<lambda>r. - int (d_id r)" ds] by (simp add: sorted_map)
  ultimately have ids: "sorted_wrt (\<lambda>a b. d_id b < d_id a) ?ys"
    by (auto simp: sorted_wrt_iff_nth_less le_less)
  let ?zs = "sort_key (\<lambda>r. - d_uploaded_at r) ?ys"
  have "filter (\<lambda>y. - d_uploaded_at y = k) ?zs = filter (\<lambda>y. - d_uploaded_at y = k) ?ys" for k
    by (rule sort_key_stable)
  with ids have "sorted_wrt (\<lambda>a b. d_id b < d_id a) (filter (\<lambda>y. - d_uploaded_at y = k) ?zs)" for k
    by (simp add: sorted_wrt_filter)
  from stable_lexicographic [OF sorted_sort_key this] show ?thesis
    unfolding newest_first_def by (rule sorted_wrt_mono_rel [rotated]) (auto simp: keyset_before_def)
qed

lemma filter_after_nth:
  assumes "sorted_wrt R xs" "\<And>a b. R a b \<Longrightarrow> \<not> R b a" "n < length xs"
  shows "filter (R (xs ! n)) xs = drop (Suc n) xs"
proof -
  have "filter (R (xs ! n)) (take (Suc n) xs) = []"
  proof (rule filter_False, intro ballI)
    fix x
    assume "x \<in> set (take (Suc n) xs)"
    then obtain i where i: "i \<le> n" "x = xs ! i" using assms(3) by (auto simp: in_set_conv_nth less_Suc_eq_le)
    show "\<not> R (xs ! n) x"
    proof (cases "i = n")
      case True
      with i assms(2) show ?thesis by blast
    next
      case False
      with i assms show ?thesis by (simp add: sorted_wrt_iff_nth_less)
    qed
  qed
  moreover have "filter (R (xs ! n)) (drop (Suc n) xs) = drop (Suc n) xs"
    using assms(1,3) by (intro filter_True) (auto simp: in_set_conv_nth sorted_wrt_iff_nth_less)
  ultimately show ?thesis
    by (metis append_Nil append_take_drop_id filter_append)
qed

text \<open>C36: the keyset pages of the inventory are the slices of one list. For an architect the first page
  is the front of the whole inventory, newest first, and the page asked for with the key of any
  of its rows is the slice right after this row: no document is skipped and none is shown twice.
\<close>

theorem inventory_pages_tile:
  fixes g :: governed
  defines "inventory \<equiv> map (retention_document_of g) (newest_first d_uploaded_at d_id (docs (cat_db g)))"
  assumes "reach governed_init (governed_step env spell) g" "retention_architect g session actor"
    and "1 \<le> limit" "limit \<le> 100"
  shows "list_retention_documents g session actor limit None = Inr (take (nat limit + 1) inventory)
     \<and> (\<forall>n<length inventory. list_retention_documents g session actor limit
          (Some (rd_uploaded_at (inventory ! n), rd_document (inventory ! n)))
            = Inr (take (nat limit + 1) (drop (Suc n) inventory)))
     \<and> set (map rd_document inventory) = d_id ` set (docs (cat_db g)) \<and> length inventory = length (docs (cat_db g))"
proof -
  let ?L = "newest_first d_uploaded_at d_id (docs (cat_db g))"
  have "distinct (map d_id (docs (cat_db g)))"
    using db_invD(1) [OF governed_invD(2) [OF reach_governed_inv [OF assms(2)]]] by (simp add: ids_ok_def)
  note sorted_L = newest_first_sorted [OF this]
  have lock: "lock_retention_architect g session actor None = None"
    using assms(3) by (simp add: lock_retention_architect_def)
  have later: "newest_first d_uploaded_at d_id (filter (keyset_before (d_uploaded_at (?L ! n), d_id (?L ! n))) (docs (cat_db g)))
      = drop (Suc n) ?L" if "n < length ?L" for n
  proof -
    have "newest_first d_uploaded_at d_id (filter (keyset_before k) (docs (cat_db g))) = filter (keyset_before k) ?L" for k
      by (simp add: newest_first_def filter_sort)
    moreover have "filter (keyset_before (d_uploaded_at (?L ! n), d_id (?L ! n))) ?L = drop (Suc n) ?L"
      by (rule filter_after_nth [OF sorted_L _ that]) (auto simp: keyset_before_def)
    ultimately show ?thesis by simp
  qed
  have "set ?L = set (docs (cat_db g))" "length ?L = length (docs (cat_db g))"
    by (simp_all add: newest_first_def)
  with later lock assms(4,5) show ?thesis
    by (simp add: list_retention_documents_def inventory_def retention_document_of_def take_map drop_map image_comp)
qed

theorem inventory_pages_tile_witness:
  "list_retention_documents sample_archived 9 9 50 None
     = Inr (map (retention_document_of sample_archived) (newest_first d_uploaded_at d_id (docs (cat_db sample_archived))))"
proof -
  have a: "retention_architect sample_archived 9 9"
    by (simp add: retention_architect_def sample_archived_def)
  have "list_retention_documents sample_archived 9 9 50 None = Inr (take (nat 50 + 1)
      (map (retention_document_of sample_archived) (newest_first d_uploaded_at d_id (docs (cat_db sample_archived)))))"
    using inventory_pages_tile [OF reach_governed_samples(1) a, of 50] by simp
  moreover have "length (docs (cat_db sample_archived)) = 1"
    by (simp add: sample_archived_def)
  ultimately show ?thesis by (simp add: newest_first_def)
qed

section \<open>What is not guaranteed\<close>

lemma due_any_budget:
  assumes "governed_inv spell g" "1 \<le> m" "p \<in> set (g_purges g)"
  shows "due_purge locked m g p \<longleftrightarrow> due_purge locked 1 g p"
proof -
  have "p_state p = Purge_Pending \<Longrightarrow> p_attempt_count p = 0"
    using governed_invD(6) [OF assms(1)] assms(3) by (simp add: purges_ok_def)
  with assms(2) show ?thesis by (auto simp: due_purge_def)
qed

text \<open>the attempt budget of a purge never binds. The claim that counts an attempt is committed only
  together with the verdict, so in every reachable state a pending purge job has made no
  attempt: any budget selects the job that a budget of one selects, and a removal that raises
  or kills its worker leaves the tenant exactly as it was, with the same job in front.
\<close>

theorem purge_budget_never_binds:
  assumes "reach governed_init (governed_step env spell) g" "1 \<le> most"
  shows "(\<forall>p\<in>set (g_purges g). p_state p = Purge_Pending \<longrightarrow> p_attempt_count p = 0)
     \<and> next_purge locked most g = next_purge locked 1 g
     \<and> (\<forall>p worker key e. next_purge locked 1 g = Some p \<longrightarrow> canonical_label casefold worker_id = Inr (worker, key) \<longrightarrow>
          length worker \<le> 200 \<longrightarrow> most \<le> 20 \<longrightarrow>
          run_one casefold spell (\<lambda>c. Removal_Raised e) locked worker_id most g = Inl e)"
proof (intro conjI allI impI)
  note inv = reach_governed_inv [OF assms(1)]
  show "\<forall>p\<in>set (g_purges g). p_state p = Purge_Pending \<longrightarrow> p_attempt_count p = 0"
    using governed_invD(6) [OF inv] by (auto simp: purges_ok_def)
  have "filter (due_purge locked most g) (g_purges g) = filter (due_purge locked 1 g) (g_purges g)"
    by (rule filter_cong [OF refl due_any_budget [OF inv assms(2)]])
  then show same: "next_purge locked most g = next_purge locked 1 g" by (simp add: next_purge_def)
  fix p worker key e
  assume p: "next_purge locked 1 g = Some p" and rest: "canonical_label casefold worker_id = Inr (worker, key)"
    "length worker \<le> 200" "most \<le> 20"
  obtain d where "cat_doc g (p_document p) = Some d"
    using next_purge_SomeD(2) [OF p] by (rule due_document)
  with rest p same assms(2) show "run_one casefold spell (\<lambda>c. Removal_Raised e) locked worker_id most g = Inl e"
    by (simp add: run_one_def claim_document_purge_def retention_positive_def)
qed

theorem purge_budget_never_binds_witness:
  "next_purge [] 5 sample_scheduled = next_purge [] 1 sample_scheduled
     \<and> run_one (\<lambda>x. x) sample_spell (\<lambda>c. Removal_Raised PurgeJobOwnershipLost) [] [119] 5 sample_scheduled
         = Inl PurgeJobOwnershipLost"
proof -
  have five: "(1::int) \<le> 5" by simp
  note never = purge_budget_never_binds [OF reach_governed_samples(2) five]
  from never have one: "next_purge [] 1 sample_scheduled = Some sample_job" using sample_next by metis
  have "run_one (\<lambda>x. x) sample_spell (\<lambda>c. Removal_Raised PurgeJobOwnershipLost) [] [119] 5 sample_scheduled
      = Inl PurgeJobOwnershipLost"
    by (rule never [THEN conjunct2, THEN conjunct2, rule_format, OF one sample_label]) simp_all
  with never show ?thesis by blast
qed

text \<open>The two calls that take a document back and archive it again, as the pipeline runs them.\<close>

definition archived_anew :: "uuid \<Rightarrow> ingest_env \<Rightarrow> (uuid \<Rightarrow> pystr) \<Rightarrow> governed \<Rightarrow> governed" where
  "archived_anew doc env spell g =
     ingest_call env spell (Archive doc True) (ingest_call env spell (Archive doc False) g)"

lemma archive_call:
  assumes "governed_inv spell g" "cat_doc g doc = Some d" "d_purged_at d = None"
    and "(d_archived_at d \<noteq> None) \<noteq> archived" "\<not> has_active_job (cat_db g) doc" "d_attempt_id d = None"
  shows "ingest_call env spell (Archive doc archived) g = g\<lparr>cat_db := update_doc doc
     (\<lambda>e. e\<lparr>d_archived_at := if archived then Some (now g) else None\<rparr>) (cat_db g)\<rparr>"
proof -
  note I = governed_invD [OF assms(1)]
  have d: "d \<in> set (docs (cat_db g))" "d_id d = doc" using cat_doc_SomeD [OF assms(2)] by auto
  let ?f = "\<lambda>e. e\<lparr>d_archived_at := if archived then Some (now g) else None\<rparr>"
  have run: "transact env (Archive doc archived) (cat_db g) = update_doc doc ?f (cat_db g)"
    using assms(2-6) by (simp add: set_document_archived_def cat_doc_def Let_def now_def)
  have one: "set (update_rows (\<lambda>e. d_id e = doc) ?f (docs (cat_db g))) = insert (?f d) (set (docs (cat_db g)) - {d})"
    using update_one [OF db_invD(1) [OF I(2)] d(1)] by (simp only: d(2))
  have guard: "guard_document_purge_state spell x y = None"
    if "x \<in> set (docs (cat_db g))" "y \<in> insert (?f d) (set (docs (cat_db g)) - {d})" "d_id y = d_id x" for x y
  proof (cases "y = ?f d")
    case True
    with that(3) have "d_id x = d_id d" by simp
    then have "x = d" by (rule doc_unique [OF db_invD(1) [OF I(2)] that(1) d(1)])
    then show ?thesis unfolding True by (simp add: guard_document_purge_state_def assms(3))
  next
    case False
    with that(2) have "y \<in> set (docs (cat_db g))" by blast
    then have "y = x" by (rule doc_unique [OF db_invD(1) [OF I(2)] _ that(1,3)])
    then show ?thesis by (cases "d_purged_at x") (simp_all add: guard_document_purge_state_def)
  qed
  have rows: "docs (update_doc doc ?f (cat_db g)) = update_rows (\<lambda>e. d_id e = doc) ?f (docs (cat_db g))"
    by (simp add: update_doc_def)
  have "passes_guard spell (cat_db g) (update_doc doc ?f (cat_db g))"
    unfolding passes_guard_def list_all_iff rows one by (intro ballI impI) (rule guard)
  moreover have "exec_event env (Archive doc archived) (ingest_part g)
      = \<lparr>store = update_doc doc ?f (cat_db g), handles = g_handles g\<rparr>"
    using run by (simp add: exec_event_def ingest_part_def del: transact.simps)
  ultimately show ?thesis by (simp add: ingest_call_def)
qed

text \<open>a purge does not wait for a document that was archived anew. Restoring a document leaves its
  pending purge job in place, so after the two calls that restore and archive it again the job is
  due at once, although the document has only now been archived and scheduling a purge for it
  would be refused until the whole retention period has passed again.
\<close>

theorem purge_ignores_the_new_archive_time:
  assumes "reach governed_init (governed_step env spell) g"
    and "p \<in> set (g_purges g)" "due_purge locked most g p"
  shows "due_purge locked most (archived_anew (p_document p) env spell g) p
     \<and> p \<in> set (g_purges (archived_anew (p_document p) env spell g))
     \<and> (\<exists>d. cat_doc (archived_anew (p_document p) env spell g) (p_document p) = Some d \<and> d_archived_at d = Some (now g)
          \<and> now (archived_anew (p_document p) env spell g) < now g + days_long (retention_days g))
     \<and> (\<forall>session actor revision epoch request. \<exists>e. schedule_document_purge session actor (p_document p) revision
          epoch request (archived_anew (p_document p) env spell g\<lparr>g_purges := []\<rparr>) = Inl e)"
proof -
  let ?doc = "p_document p"
  note inv = reach_governed_inv [OF assms(1)]
  from assms(3) obtain d where d: "cat_doc g ?doc = Some d" "d_archived_at d \<noteq> None" "d_purged_at d = None"
      "d_attempt_id d = None" and quiet: "\<not> has_active_job (cat_db g) ?doc" and free: "\<not> held g ?doc"
    by (rule due_document)
  let ?g1 = "ingest_call env spell (Archive ?doc False) g"
  have g1: "?g1 = g\<lparr>cat_db := update_doc ?doc (\<lambda>e. e\<lparr>d_archived_at := None\<rparr>) (cat_db g)\<rparr>"
    using archive_call [OF inv d(1,3) _ quiet d(4), where archived = False] d(2) by simp
  have row: "cat_doc (h\<lparr>cat_db := update_doc ?doc (\<lambda>e. e\<lparr>d_archived_at := x\<rparr>) (cat_db h)\<rparr>) ?doc
      = map_option (\<lambda>e. e\<lparr>d_archived_at := x\<rparr>) (cat_doc h ?doc)" for h :: governed and x
    using cat_doc_SomeD by (cases "cat_doc h ?doc")
      (auto simp: cat_doc_def get_doc_def update_doc_def find_row_update_rows dest: find_row_SomeD)
  have d1: "cat_doc ?g1 ?doc = Some (d\<lparr>d_archived_at := None\<rparr>)" by (simp only: g1 row d(1) option.map)
  have "governed_inv spell ?g1"
    by (rule ingest_call_inv [OF inv]) (simp add: permitted_def)
  moreover have "\<not> has_active_job (cat_db ?g1) ?doc"
    using quiet by (simp add: g1 has_active_job_def update_doc_def)
  ultimately have g2: "archived_anew ?doc env spell g
      = ?g1\<lparr>cat_db := update_doc ?doc (\<lambda>e. e\<lparr>d_archived_at := Some (now ?g1)\<rparr>) (cat_db ?g1)\<rparr>"
    unfolding archived_anew_def using archive_call [OF _ d1, where archived = True] d(3,4) by simp
  let ?h = "archived_anew ?doc env spell g"
  have clk: "now ?g1 = now g" "now ?h = now g" unfolding g2 by (simp_all add: now_def g1 update_doc_def)
  have d2: "cat_doc ?h ?doc = Some (d\<lparr>d_archived_at := Some (now g)\<rparr>)"
    unfolding g2 row d1 clk by simp
  have keep: "g_purges ?h = g_purges g" "g_holds ?h = g_holds g" "g_policy ?h = g_policy g" "jobs (cat_db ?h) = jobs (cat_db g)"
    unfolding g2 by (simp_all add: g1 update_doc_def)
  have "purgeable ?h ?doc" using d d2 by (simp add: purgeable_def)
  then have due: "due_purge locked most ?h p"
    using assms(3) clk keep by (simp add: due_purge_def has_active_job_def held_def)
  have days: "1 \<le> retention_days g"
    using governed_invD(7) [OF inv] by (auto simp: policy_ok_def retention_days_def split: option.splits)
  then have period: "now ?h < now g + days_long (retention_days g)" by (simp add: clk days_long_def)
  have "\<exists>e. schedule_document_purge session actor ?doc revision epoch request (?h\<lparr>g_purges := []\<rparr>) = Inl e"
    for session actor revision epoch request
  proof (cases "schedule_document_purge session actor ?doc revision epoch request (?h\<lparr>g_purges := []\<rparr>)")
    case (Inr x)
    then obtain job h' where "schedule_document_purge session actor ?doc revision epoch request (?h\<lparr>g_purges := []\<rparr>)
        = Inr (job, h')" by (cases x) simp
    then show ?thesis
      by (cases rule: schedule_purge_cases)
        (use d2 period keep in \<open>auto simp: cat_doc_def now_def retention_days_def\<close>)
  qed simp
  with due d2 period keep assms(2) show ?thesis by simp
qed

theorem purge_ignores_the_new_archive_time_witness:
  "due_purge [] 5 (archived_anew 0 sample_env sample_spell sample_scheduled) sample_job
     \<and> (\<exists>d. cat_doc (archived_anew 0 sample_env sample_spell sample_scheduled) 0 = Some d
          \<and> d_archived_at d = Some (now sample_scheduled))"
proof -
  have doc: "p_document sample_job = 0" by (simp add: sample_job_def)
  from purge_ignores_the_new_archive_time [OF reach_governed_samples(2) next_purge_SomeD [OF sample_next]]
  show ?thesis unfolding doc by blast
qed

end
