(* ===== verification/Collections_Properties.thy ===== *)
theory Collections_Properties
  imports Retention_Samples
begin

text \<open>
  What organising documents guarantees in every reachable state of the governed machine: the
  tags of a document are exactly the ones it was given last, and a retrieval scope is exactly
  the intersection of its dimensions over the active documents.
\<close>

lemma reach_catalogue_ok:
  "reach governed_init (governed_step env spell) g \<Longrightarrow> catalogue_ok g"
  by (rule governed_invD(3) [OF governance.reach_inv])

text \<open>replacing the tags of a document. The document then carries exactly the keys of the given
  tags, one per case-insensitive identity; the keys of every other document, the collections and
  the documents themselves are unchanged, and no tag of the vocabulary is lost or renamed.
\<close>

theorem tags_are_replaced:
  assumes "reach governed_init (governed_step env spell) g"
    and "replace_document_tags casefold doc given g = Inr (Some names, g')"
  shows "set (document_keys g' doc) = (casefold \<circ> strip) ` set given
     \<and> distinct (document_keys g' doc)
     \<and> (\<forall>other. other \<noteq> doc \<longrightarrow> set (document_keys g' other) = set (document_keys g other))
     \<and> set (cat_tags g) \<subseteq> set (cat_tags g') \<and> cat_members g' = cat_members g
     \<and> cat_collections g' = cat_collections g \<and> docs (cat_db g') = docs (cat_db g)"
  using assms(2)
proof (cases rule: replace_document_tags_cases)
  case (replaced canonical rows g1 d)
  note ok = reach_catalogue_ok [OF assms(1)]
  note I = intern_tags_ok [OF ok replaced(3)]
  note keys = canonical_tags_keys [OF replaced(1)]
  have labels: "cat_labels g' = filter (\<lambda>(d, k). d \<noteq> doc) (cat_labels g) @ map (\<lambda>r. (doc, l_id r)) rows"
    and tags: "cat_tags g' = cat_tags g1" using I by (simp_all add: replaced(5))
  have ids: "distinct (map l_id (cat_tags g'))" "distinct (map l_key (cat_tags g'))"
    using I by (simp_all add: catalogue_ok_def label_rows_ok_def tags)
  have same: "t = r" if "t \<in> set (cat_tags g')" "r \<in> set (cat_tags g')" "l_id t = l_id r" for t r
    using distinct_keyD [OF ids(1) that] .
  have "k \<in> set (document_keys g' doc) \<longleftrightarrow> k \<in> l_key ` set rows" for k
  proof
    assume "k \<in> set (document_keys g' doc)"
    then obtain t r where "t \<in> set (cat_tags g')" "l_key t = k" "r \<in> set rows" "l_id t = l_id r"
      by (auto simp: mem_document_keys labels)
    with I same [of t r] tags show "k \<in> l_key ` set rows" by (metis image_eqI subsetD)
  next
    assume "k \<in> l_key ` set rows"
    with I tags show "k \<in> set (document_keys g' doc)" by (auto simp: mem_document_keys labels)
  qed
  moreover have "l_key ` set rows = (casefold \<circ> strip) ` set given"
  proof -
    have "set (map l_key rows) = set (map snd (sort_key snd canonical))" using I by simp
    also have "\<dots> = set (map snd canonical)" by simp
    finally show ?thesis using keys by simp
  qed
  moreover have "k \<in> set (document_keys g' other) \<longleftrightarrow> k \<in> set (document_keys g other)" if other: "other \<noteq> doc" for k other
  proof
    assume "k \<in> set (document_keys g' other)"
    then obtain t where t: "t \<in> set (cat_tags g')" "l_key t = k" "(other, l_id t) \<in> set (cat_labels g)"
      using other by (auto simp: mem_document_keys labels)
    with ok obtain r where r: "r \<in> set (cat_tags g)" "l_id r = l_id t"
      unfolding catalogue_ok_def pairs_ok_def by (metis (no_types, lifting) case_prodD imageE)
    with I same t(1) tags have "r = t" by (metis subsetD)
    with r t show "k \<in> set (document_keys g other)" by (auto simp: mem_document_keys)
  next
    assume "k \<in> set (document_keys g other)"
    with other I tags show "k \<in> set (document_keys g' other)" by (auto simp: mem_document_keys labels)
  qed
  moreover have "distinct (document_keys g' doc)"
    unfolding document_keys_def using ids(2) by (rule distinct_map_filter)
  moreover have "docs (cat_db g') = docs (cat_db g)" using I by (auto simp: replaced(5))
  ultimately show ?thesis using I tags by (auto simp: replaced(5) set_eq_iff)
qed simp

theorem tags_are_replaced_witness:
  "\<exists>names g'. replace_document_tags (\<lambda>x. x) 0 [[119]] sample_archived = Inr (Some names, g')
     \<and> set (document_keys g' 0) = {[119]}"
proof -
  have "\<exists>names g'. replace_document_tags (\<lambda>x. x) 0 [[119]] sample_archived = Inr (Some names, g')"
    by (simp add: replace_document_tags_def sample_label sample_archived_def sample_served_def sample_document_def
        cat_doc_def get_doc_def split: prod.split)
  then obtain names g' where run: "replace_document_tags (\<lambda>x. x) 0 [[119]] sample_archived = Inr (Some names, g')"
    by blast
  from tags_are_replaced [OF reach_governed_samples(1) run] have "set (document_keys g' 0) = {strip [119]}" by simp
  moreover have "strip [119] = [119]" by (simp add: strip_def lstrip_def rstrip_def is_space_def)
  ultimately show ?thesis using run by auto
qed

text \<open>C37: a retrieval scope is the intersection of its dimensions. What the scope resolves to is the
  sorted list, without repetition, of the documents that are not archived, hence not purged, that
  are named when documents are named, belong to one of the named collections when collections are
  named, and carry every named tag when tags are named.
\<close>

theorem scope_is_the_intersection:
  assumes "reach governed_init (governed_step env spell) g"
    and "resolve_document_scope casefold ids collections tags g = Inr (Some found)"
  shows "sorted found \<and> distinct found
     \<and> (\<forall>i. i \<in> set found \<longleftrightarrow> (\<exists>d\<in>set (docs (cat_db g)). d_id d = i \<and> d_archived_at d = None \<and> d_purged_at d = None)
          \<and> (\<forall>is. ids = Some is \<longrightarrow> i \<in> set is)
          \<and> (\<forall>cs. collections = Some cs \<longrightarrow> (\<exists>k\<in>set cs. (k, i) \<in> set (cat_members g)))
          \<and> (\<forall>ts. tags = Some ts \<longrightarrow> (casefold \<circ> strip) ` set ts \<subseteq> set (document_keys g i)))"
proof -
  note I = governed_invD [OF governance.reach_inv [OF assms(1)]]
  let ?given = "case tags of None \<Rightarrow> [] | Some ts \<Rightarrow> ts"
  from assms(2) obtain keys where keys: "tag_keys casefold ?given = Inr keys"
    by (auto simp: resolve_document_scope_def split: if_splits sum.splits)
  let ?p = "\<lambda>d. (case ids of None \<Rightarrow> True | Some is \<Rightarrow> d_id d \<in> set is)
         \<and> (case collections of None \<Rightarrow> True
            | Some cs \<Rightarrow> list_ex (\<lambda>(k, e). e = d_id d \<and> k \<in> set cs) (cat_members g))
         \<and> (tags = None \<or> carries_all g keys (d_id d))"
  from assms(2) keys have found: "found = documents_where ?p g"
    by (auto simp: resolve_document_scope_def split: if_splits)
  have "distinct (map d_id (docs (cat_db g)))"
    using db_invD(1) [OF I(2)] by (simp add: ids_ok_def)
  note dist = this
  have unpurged: "d_purged_at d = None" if "d \<in> set (docs (cat_db g))" "d_archived_at d = None" for d
    using I(4) that by (auto simp: tombs_ok_def complete_tombstone_def)
  have key_set: "set keys = (casefold \<circ> strip) ` set ?given" by (rule tag_keys_InrD [OF keys])
  define within where "within i \<longleftrightarrow> (\<forall>is. ids = Some is \<longrightarrow> i \<in> set is)
      \<and> (\<forall>cs. collections = Some cs \<longrightarrow> (\<exists>k\<in>set cs. (k, i) \<in> set (cat_members g)))
      \<and> (\<forall>ts. tags = Some ts \<longrightarrow> (casefold \<circ> strip) ` set ts \<subseteq> set (document_keys g i))" for i
  have p_iff: "?p d \<longleftrightarrow> within (d_id d)" for d
    using key_set unfolding within_def
    by (cases ids; cases collections; cases tags) (auto simp: list_ex_iff carries_all_iff)
  have "distinct found"
    using dist unfolding found documents_where_def by (simp add: distinct_map_filter)
  moreover have "sorted found" by (simp add: found documents_where_def)
  moreover have mem: "i \<in> set found \<longleftrightarrow> (\<exists>d\<in>set (docs (cat_db g)). d_id d = i \<and> d_archived_at d = None \<and> d_purged_at d = None)
      \<and> within i" for i
    unfolding found mem_documents_where p_iff using unpurged by metis
  ultimately show ?thesis unfolding within_def by (intro conjI allI) (assumption | rule mem [unfolded within_def])+
qed

theorem scope_is_the_intersection_witness:
  "\<exists>found. resolve_document_scope (\<lambda>x. x) (Some [0]) None None (ungoverned sample_served) = Inr (Some found)
     \<and> 0 \<in> set found"
proof -
  let ?g = "ungoverned sample_served"
  have "\<exists>found. resolve_document_scope (\<lambda>x. x) (Some [0]) None None ?g = Inr (Some found)"
    by (simp add: resolve_document_scope_def)
  then obtain found where run: "resolve_document_scope (\<lambda>x. x) (Some [0]) None None ?g = Inr (Some found)" by blast
  have "\<exists>d\<in>set (docs (cat_db ?g)). d_id d = 0 \<and> d_archived_at d = None \<and> d_purged_at d = None"
    by (simp add: ungoverned_def sample_served_def sample_document_def)
  with scope_is_the_intersection [OF ingest_embeds [OF reach_samples(4), where spell = sample_spell] run] run
  show ?thesis by auto
qed

end
