(* ===== verification/Topology.thy ===== *)
theory Topology
  imports Ingest_State
begin

text \<open>
  The chart of an organisation: \<open>pipeline/api/org_policy.py\<close>, which validates a proposed chart
  and orders its positions parents first by a breadth-first walk. The accepted charts are
  characterised without the walk: rooted trees whose grants and seats are well formed.
\<close>

section \<open>Positions and seats\<close>

datatype position_kind = Kind_Root | Kind_Manager | Kind_Member

record position =
  pos_id :: uuid
  pos_parent :: "uuid option"
  pos_title :: pystr
  pos_kind :: position_kind
  pos_monitors :: bool
  pos_protected :: bool

datatype app_role = Reader | Editor | Admin

datatype seat_state = Seat_Active | Seat_Pending | Seat_Suspended

text \<open>A member offered with a chart, named by the subject its identity provider asserts.\<close>

record seat =
  seat_issuer :: pystr
  seat_subject :: pystr
  seat_position :: uuid
  seat_label :: pystr
  seat_role :: app_role
  seat_state :: seat_state

section \<open>The validator\<close>

text \<open>\<open>KeyError\<close> is the exception of \<open>by_id[position_id]\<close>; the others are \<open>TopologyRefused\<close>.\<close>

datatype topology_refusal =
    Duplicate_Positions
  | No_Single_Root
  | Root_Without_Powers
  | Bad_Parent
  | Monitoring_Member
  | Cyclic
  | Disconnected
  | Unknown_Seat
  | Seat_Taken
  | Subject_Twice
  | KeyError

definition children_of :: "position list \<Rightarrow> uuid \<Rightarrow> uuid list" where
  "children_of ps i = map pos_id (filter (\<lambda>r. pos_parent r = Some i) ps)"

fun check_links :: "uuid list \<Rightarrow> position list \<Rightarrow> topology_refusal option" where
  "check_links ids [] = None"
| "check_links ids (r # rs) = (case pos_parent r of
     None \<Rightarrow> check_links ids rs
   | Some p \<Rightarrow>
       (if pos_kind r = Kind_Root \<or> p \<notin> set ids then Some Bad_Parent
        else if pos_kind r = Kind_Member \<and> pos_monitors r then Some Monitoring_Member
        else check_links ids rs))"

function walk ::
  "position list \<Rightarrow> uuid list \<Rightarrow> uuid list \<Rightarrow> position list \<Rightarrow> topology_refusal + uuid list \<times> position list" where
  "walk ps [] seen ordered = Inr (seen, ordered)"
| "walk ps (i # queue) seen ordered =
    (if i \<in> set seen then Inl Cyclic
     else case find_row pos_id i ps of
       None \<Rightarrow> Inl KeyError
     | Some r \<Rightarrow> walk ps (queue @ children_of ps i) (i # seen) (ordered @ [r]))"
  by pat_completeness auto

termination walk
proof (relation "measure (\<lambda>(ps, queue, seen, ordered). length (filter (\<lambda>r. pos_id r \<notin> set seen) ps))")
  fix ps :: "position list" and i queue seen ordered r
  assume "i \<notin> set seen" "find_row pos_id i ps = Some r"
  then have "r \<in> set ps" "pos_id r \<notin> set seen" "pos_id r = i" by (auto dest: find_row_SomeD)
  then have "length (filter (\<lambda>r. pos_id r \<noteq> i \<and> pos_id r \<notin> set seen) ps)
    < length (filter (\<lambda>r. pos_id r \<notin> set seen) ps)"
    by (induction ps) (auto simp: less_Suc_eq_le intro: length_filter_le [THEN le_trans], metis (no_types, lifting) filter_cong le_eq_less_or_eq length_filter_le filter_filter)
  then show "((ps, queue @ children_of ps i, i # seen, ordered @ [r]), ps, i # queue, seen, ordered)
      \<in> measure (\<lambda>(ps, queue, seen, ordered). length (filter (\<lambda>r. pos_id r \<notin> set seen) ps))"
    by simp
qed simp

declare walk.simps [simp del]

fun check_seats ::
  "uuid list \<Rightarrow> uuid list \<Rightarrow> (pystr \<times> pystr) list \<Rightarrow> seat list \<Rightarrow> topology_refusal option" where
  "check_seats ids occupied subjects [] = None"
| "check_seats ids occupied subjects (m # ms) =
    (if seat_position m \<notin> set ids then Some Unknown_Seat
     else if seat_position m \<in> set occupied then Some Seat_Taken
     else if (seat_issuer m, seat_subject m) \<in> set subjects then Some Subject_Twice
     else check_seats ids (seat_position m # occupied) ((seat_issuer m, seat_subject m) # subjects) ms)"

definition ordered_topology ::
  "position list \<Rightarrow> seat list \<Rightarrow> topology_refusal + position list \<times> seat list" where
  "ordered_topology positions members =
    (if \<not> distinct (map pos_id positions) then Inl Duplicate_Positions
     else case filter (\<lambda>r. pos_parent r = None) positions of
       [apex] \<Rightarrow>
         (if pos_kind apex \<noteq> Kind_Root then Inl No_Single_Root
          else if \<not> pos_monitors apex \<or> \<not> pos_protected apex then Inl Root_Without_Powers
          else case check_links (map pos_id positions) positions of
            Some e \<Rightarrow> Inl e
          | None \<Rightarrow>
         (case walk positions [pos_id apex] [] [] of
            Inl e \<Rightarrow> Inl e
          | Inr (seen, ordered) \<Rightarrow>
             (if set seen \<noteq> set (map pos_id positions) then Inl Disconnected
              else case check_seats (map pos_id positions) [] [] members of
                Some e \<Rightarrow> Inl e
              | None \<Rightarrow> Inr (ordered, members))))
     | _ \<Rightarrow> Inl No_Single_Root)"

section \<open>What a chart is\<close>

definition reports_to :: "position list \<Rightarrow> (uuid \<times> uuid) set" where
  "reports_to ps = {(p, i). \<exists>r\<in>set ps. pos_id r = i \<and> pos_parent r = Some p}"

text \<open>One position has no parent, and every position is below it.\<close>

definition rooted_tree :: "position list \<Rightarrow> position \<Rightarrow> bool" where
  "rooted_tree ps apex \<longleftrightarrow> distinct (map pos_id ps) \<and> apex \<in> set ps
     \<and> (\<forall>r\<in>set ps. pos_parent r = None \<longleftrightarrow> r = apex)
     \<and> (\<forall>r\<in>set ps. (pos_id apex, pos_id r) \<in> (reports_to ps)\<^sup>*)"

definition grants_ok :: "position list \<Rightarrow> bool" where
  "grants_ok ps \<longleftrightarrow> (\<forall>r\<in>set ps. (pos_kind r = Kind_Root \<longleftrightarrow> pos_parent r = None)
     \<and> (pos_kind r = Kind_Root \<longrightarrow> pos_monitors r \<and> pos_protected r)
     \<and> (pos_kind r = Kind_Member \<longrightarrow> \<not> pos_monitors r))"

definition seats_ok :: "position list \<Rightarrow> seat list \<Rightarrow> bool" where
  "seats_ok ps ms \<longleftrightarrow> seat_position ` set ms \<subseteq> pos_id ` set ps \<and> distinct (map seat_position ms)
     \<and> distinct (map (\<lambda>m. (seat_issuer m, seat_subject m)) ms)"

text \<open>Every position comes after its parent.\<close>

fun parents_first :: "uuid set \<Rightarrow> position list \<Rightarrow> bool" where
  "parents_first known [] \<longleftrightarrow> True"
| "parents_first known (r # rs) \<longleftrightarrow> (\<forall>p. pos_parent r = Some p \<longrightarrow> p \<in> known)
     \<and> parents_first (insert (pos_id r) known) rs"

lemma parents_first_append:
  "parents_first known (rs @ [r]) \<longleftrightarrow> parents_first known rs
     \<and> (\<forall>p. pos_parent r = Some p \<longrightarrow> p \<in> known \<union> pos_id ` set rs)"
  by (induction rs arbitrary: known) auto

lemma check_links_None_iff:
  "check_links ids rs = None \<longleftrightarrow> (\<forall>r\<in>set rs. \<forall>p. pos_parent r = Some p \<longrightarrow>
     pos_kind r \<noteq> Kind_Root \<and> p \<in> set ids \<and> \<not> (pos_kind r = Kind_Member \<and> pos_monitors r))"
  by (induction rs) (auto split: option.splits)

lemma check_seats_None_iff:
  "check_seats ids occupied subjects ms = None \<longleftrightarrow>
     seat_position ` set ms \<subseteq> set ids \<and> distinct (map seat_position ms)
     \<and> seat_position ` set ms \<inter> set occupied = {}
     \<and> distinct (map (\<lambda>m. (seat_issuer m, seat_subject m)) ms)
     \<and> (\<lambda>m. (seat_issuer m, seat_subject m)) ` set ms \<inter> set subjects = {}"
  by (induction ms arbitrary: occupied subjects) auto

lemma check_seats_refusal:
  "check_seats ids occupied subjects ms = Some e \<Longrightarrow> e \<in> {Unknown_Seat, Seat_Taken, Subject_Twice}"
  by (induction ms arbitrary: occupied subjects) (auto split: if_splits)

lemma check_links_refusal: "check_links ids rs = Some e \<Longrightarrow> e \<in> {Bad_Parent, Monitoring_Member}"
  by (induction rs) (auto split: if_splits option.splits)

lemma reports_toD: "(p, i) \<in> reports_to ps \<Longrightarrow> \<exists>r\<in>set ps. pos_id r = i \<and> pos_parent r = Some p"
  by (simp add: reports_to_def)

lemma reports_to_unique:
  assumes "distinct (map pos_id ps)" "(p, i) \<in> reports_to ps" "(q, i) \<in> reports_to ps"
  shows "p = q"
  using assms distinct_keyD by (fastforce simp: reports_to_def)

lemma set_children_of: "set (children_of ps i) = {x. (i, x) \<in> reports_to ps}"
  by (auto simp: children_of_def reports_to_def)

section \<open>The walk\<close>

text \<open>
  The queue and the seen positions are disjoint, closed below and reachable: what is seen has
  its children in one of the two, and what is in either hangs below a seen position.
\<close>

definition frontier_ok :: "position list \<Rightarrow> uuid \<Rightarrow> uuid list \<Rightarrow> uuid list \<Rightarrow> bool" where
  "frontier_ok ps apex queue seen \<longleftrightarrow> distinct (queue @ seen) \<and> apex \<in> set (queue @ seen)
     \<and> (\<forall>x\<in>set (queue @ seen). x \<in> pos_id ` set ps \<and> (apex, x) \<in> (reports_to ps)\<^sup>*)
     \<and> (\<forall>x\<in>set (queue @ seen). x \<noteq> apex \<longrightarrow> (\<exists>p\<in>set seen. (p, x) \<in> reports_to ps))
     \<and> (\<forall>p\<in>set seen. \<forall>x. (p, x) \<in> reports_to ps \<longrightarrow> x \<in> set (queue @ seen))"

lemma frontier_okD:
  assumes "frontier_ok ps apex queue seen"
  shows "distinct (queue @ seen)" "apex \<in> set (queue @ seen)"
    "x \<in> set (queue @ seen) \<Longrightarrow> x \<in> pos_id ` set ps"
    "x \<in> set (queue @ seen) \<Longrightarrow> (apex, x) \<in> (reports_to ps)\<^sup>*"
    "x \<in> set (queue @ seen) \<Longrightarrow> x \<noteq> apex \<Longrightarrow> \<exists>p\<in>set seen. (p, x) \<in> reports_to ps"
    "p \<in> set seen \<Longrightarrow> (p, x) \<in> reports_to ps \<Longrightarrow> x \<in> set (queue @ seen)"
  using assms unfolding frontier_ok_def by blast+

lemma frontier_step:
  assumes tree: "distinct (map pos_id ps)" "\<And>p. (p, apex) \<notin> reports_to ps"
    and ok: "frontier_ok ps apex (i # queue) seen"
  shows "frontier_ok ps apex (queue @ children_of ps i) (i # seen)"
proof -
  note D = frontier_okD [OF ok]
  have new: "x \<notin> set (i # queue @ seen)" if x: "(i, x) \<in> reports_to ps" for x
  proof
    assume "x \<in> set (i # queue @ seen)"
    moreover have "x \<noteq> apex" using tree(2) x by blast
    ultimately obtain p where "p \<in> set seen" "(p, x) \<in> reports_to ps" using D(5) [of x] by auto
    with reports_to_unique [OF tree(1) x] D(1) show False by auto
  qed
  have kids: "distinct (children_of ps i)"
    using tree(1) by (simp add: children_of_def distinct_map_filter)
  have 1: "distinct ((queue @ children_of ps i) @ i # seen)"
    using D(1) kids new by (auto simp: set_children_of)
  have 2: "x \<in> pos_id ` set ps \<and> (apex, x) \<in> (reports_to ps)\<^sup>*"
    if "x \<in> set ((queue @ children_of ps i) @ i # seen)" for x
  proof (cases "(i, x) \<in> reports_to ps")
    case True
    then show ?thesis using D(4) [of i] reports_toD [OF True] by (auto intro: rtrancl_into_rtrancl)
  next
    case False
    with that D(3,4) [of x] show ?thesis by (auto simp: set_children_of)
  qed
  have 3: "\<exists>p\<in>set (i # seen). (p, x) \<in> reports_to ps"
    if "x \<in> set ((queue @ children_of ps i) @ i # seen)" "x \<noteq> apex" for x
    using that D(5) [of x] by (auto simp: set_children_of)
  have 4: "x \<in> set ((queue @ children_of ps i) @ i # seen)"
    if "p \<in> set (i # seen)" "(p, x) \<in> reports_to ps" for p x
    using that D(6) [of p x] by (auto simp: set_children_of)
  show ?thesis
    unfolding frontier_ok_def
  proof (intro conjI ballI allI impI)
    show "apex \<in> set ((queue @ children_of ps i) @ i # seen)" using D(2) by auto
  qed (use 1 2 3 4 in blast)+
qed

lemma frontier_end:
  assumes "frontier_ok ps apex [] seen"
  shows "set seen = {x. (apex, x) \<in> (reports_to ps)\<^sup>*}"
proof -
  have "x \<in> set seen" if "(apex, x) \<in> (reports_to ps)\<^sup>*" for x
    using that by (induction rule: rtrancl_induct) (use assms in \<open>auto simp: frontier_ok_def\<close>)
  moreover have "(apex, x) \<in> (reports_to ps)\<^sup>*" if "x \<in> set seen" for x
    using that frontier_okD(4) [OF assms, of x] by simp
  ultimately show ?thesis by blast
qed

lemma walk_correct:
  assumes "distinct (map pos_id ps)" "\<And>p. (p, apex) \<notin> reports_to ps" "frontier_ok ps apex queue seen"
    and "rev (map pos_id ordered) = seen" "set ordered \<subseteq> set ps" "parents_first {} ordered"
  shows "\<exists>seen' ordered'. walk ps queue seen ordered = Inr (seen', ordered')
    \<and> set seen' = {x. (apex, x) \<in> (reports_to ps)\<^sup>*} \<and> rev (map pos_id ordered') = seen'
    \<and> set ordered' \<subseteq> set ps \<and> parents_first {} ordered' \<and> distinct seen'"
  using assms
proof (induction ps queue seen ordered rule: walk.induct)
  case (1 ps seen ordered)
  then show ?case using frontier_end [OF 1(3)] by (auto simp: frontier_ok_def walk.simps)
next
  case (2 ps i queue seen ordered)
  from 2(4) have i: "i \<notin> set seen" "i \<in> pos_id ` set ps" by (auto simp: frontier_ok_def)
  then obtain r where r: "find_row pos_id i ps = Some r"
    using find_row_None_iff [of pos_id i ps] by (cases "find_row pos_id i ps") auto
  note row = find_row_SomeD [OF r]
  have "p \<in> set seen" if "pos_parent r = Some p" for p
  proof -
    from that row have p: "(p, i) \<in> reports_to ps" by (auto simp: reports_to_def)
    with 2(3) have "i \<noteq> apex" by blast
    with 2(4) obtain q where "q \<in> set seen" "(q, i) \<in> reports_to ps" by (auto simp: frontier_ok_def)
    with reports_to_unique [OF 2(2) p] show ?thesis by blast
  qed
  moreover have "pos_id ` set ordered = set seen" using 2(5) by (metis set_map set_rev)
  ultimately have "parents_first {} (ordered @ [r])" using 2(7) by (simp add: parents_first_append)
  moreover have "rev (map pos_id (ordered @ [r])) = i # seen" using 2(5) row by simp
  ultimately show ?case
    using 2(1) [OF i(1) r 2(2,3) frontier_step [OF 2(2,3,4)]] 2(6) row i(1) r by (simp add: walk.simps)
qed

lemma walk_from:
  assumes "distinct (map pos_id ps)" "\<And>p. (p, pos_id apex) \<notin> reports_to ps" "apex \<in> set ps"
  obtains seen ordered where "walk ps [pos_id apex] [] [] = Inr (seen, ordered)"
    "set seen = {x. (pos_id apex, x) \<in> (reports_to ps)\<^sup>*}" "rev (map pos_id ordered) = seen"
    "set ordered \<subseteq> set ps" "parents_first {} ordered" "distinct seen"
proof -
  have "frontier_ok ps (pos_id apex) [pos_id apex] []" using assms(3) by (auto simp: frontier_ok_def)
  then have "\<exists>seen' ordered'. walk ps [pos_id apex] [] [] = Inr (seen', ordered')
    \<and> set seen' = {x. (pos_id apex, x) \<in> (reports_to ps)\<^sup>*} \<and> rev (map pos_id ordered') = seen'
    \<and> set ordered' \<subseteq> set ps \<and> parents_first {} ordered' \<and> distinct seen'"
    by (intro walk_correct [OF assms(1,2)]) simp_all
  with that show thesis by blast
qed

section \<open>The validator is exact\<close>

lemma single_filter_iff:
  assumes "distinct xs"
  shows "filter p xs = [x] \<longleftrightarrow> x \<in> set xs \<and> (\<forall>y\<in>set xs. p y \<longleftrightarrow> y = x)"
proof
  assume "filter p xs = [x]"
  then have "{y \<in> set xs. p y} = {x}" by (metis empty_set list.simps(15) set_filter)
  then show "x \<in> set xs \<and> (\<forall>y\<in>set xs. p y \<longleftrightarrow> y = x)" by blast
next
  assume "x \<in> set xs \<and> (\<forall>y\<in>set xs. p y \<longleftrightarrow> y = x)"
  then have "x \<in> set xs" "\<forall>y\<in>set xs. p y = (x = y)" by auto
  then have "filter p xs = filter ((=) x) xs" by (simp cong: filter_cong)
  also have "\<dots> = [x]" using assms \<open>x \<in> set xs\<close> by (induction xs) (auto simp: filter_empty_conv)
  finally show "filter p xs = [x]" .
qed

lemma rooted_walk:
  assumes "rooted_tree ps apex"
  shows "\<exists>ordered. walk ps [pos_id apex] [] [] = Inr (rev (map pos_id ordered), ordered)
    \<and> set (map pos_id ordered) = set (map pos_id ps) \<and> set ordered = set ps
    \<and> distinct (map pos_id ordered) \<and> parents_first {} ordered"
proof -
  have d: "distinct (map pos_id ps)" and apex: "apex \<in> set ps" using assms by (auto simp: rooted_tree_def)
  have no: "(p, pos_id apex) \<notin> reports_to ps" for p
    using assms distinct_keyD [OF d _ apex] by (fastforce simp: rooted_tree_def reports_to_def)
  from walk_from [OF d no apex] obtain seen ordered where w: "walk ps [pos_id apex] [] [] = Inr (seen, ordered)"
      "set seen = {x. (pos_id apex, x) \<in> (reports_to ps)\<^sup>*}" "rev (map pos_id ordered) = seen"
      "set ordered \<subseteq> set ps" "parents_first {} ordered" "distinct seen"
    by blast
  have sub: "x \<in> pos_id ` set ps" if "(pos_id apex, x) \<in> (reports_to ps)\<^sup>*" for x
    using that by (induction rule: rtrancl_induct) (use apex in \<open>auto dest: reports_toD\<close>)
  have ids: "pos_id ` set ordered = pos_id ` set ps"
  proof -
    have "pos_id ` set ordered = set seen" using w(3) by (metis set_map set_rev)
    with w(2) sub assms show ?thesis by (auto simp: rooted_tree_def)
  qed
  have "r \<in> set ordered" if "r \<in> set ps" for r
  proof -
    from that ids obtain q where q: "q \<in> set ordered" "pos_id q = pos_id r" by (metis imageE imageI)
    with w(4) distinct_keyD [OF d _ that] have "q = r" by blast
    with q show ?thesis by simp
  qed
  with w(4) have "set ordered = set ps" by blast
  moreover have "distinct (map pos_id ordered)" using w(3,6) by (metis distinct_rev)
  moreover have "walk ps [pos_id apex] [] [] = Inr (rev (map pos_id ordered), ordered)"
    using w(1) unfolding w(3) .
  ultimately show ?thesis using w(5) ids by (intro exI [of _ ordered]) simp
qed

text \<open>Below a single root every chain of parents ends there, so the links are the tree.\<close>

lemma tree_parent: "rooted_tree ps apex \<Longrightarrow> r \<in> set ps \<Longrightarrow> pos_parent r = Some p \<Longrightarrow> p \<in> pos_id ` set ps"
proof -
  assume t: "rooted_tree ps apex" and r: "r \<in> set ps" "pos_parent r = Some p"
  have "(pos_id apex, pos_id r) \<in> (reports_to ps)\<^sup>*" using t r by (simp add: rooted_tree_def)
  then show ?thesis
  proof (cases rule: rtranclE)
    case base
    with t r distinct_keyD show ?thesis by (metis option.distinct(1) rooted_tree_def)
  next
    case (step q)
    have "(p, pos_id r) \<in> reports_to ps" using r by (auto simp: reports_to_def)
    with step(2) t have "q = p" by (auto simp: rooted_tree_def intro: reports_to_unique)
    from step(1) this t show ?thesis
      by (cases rule: rtranclE) (auto simp: rooted_tree_def dest!: reports_toD)
  qed
qed

lemma ordered_topology_complete:
  assumes "rooted_tree ps apex" "grants_ok ps" "seats_ok ps ms"
  shows "\<exists>ordered. ordered_topology ps ms = Inr (ordered, ms) \<and> set ordered = set ps
    \<and> distinct (map pos_id ordered) \<and> parents_first {} ordered"
proof -
  have d: "distinct (map pos_id ps)" and apex: "apex \<in> set ps" "pos_parent apex = None"
    using assms(1) by (auto simp: rooted_tree_def)
  have "filter (\<lambda>r. pos_parent r = None) ps = [apex]"
    using assms(1) d by (simp add: single_filter_iff distinct_map rooted_tree_def)
  moreover have "pos_kind apex = Kind_Root" "pos_monitors apex" "pos_protected apex"
    using assms(2) apex by (auto simp: grants_ok_def)
  moreover have "check_links (map pos_id ps) ps = None"
    using assms(2) tree_parent [OF assms(1)] by (auto simp: check_links_None_iff grants_ok_def)
  moreover have "check_seats (map pos_id ps) [] [] ms = None"
    using assms(3) by (simp add: check_seats_None_iff seats_ok_def)
  ultimately show ?thesis
    using rooted_walk [OF assms(1)] d by (auto simp: ordered_topology_def)
qed

lemma ordered_topology_walked:
  assumes "distinct (map pos_id ps)" "filter (\<lambda>r. pos_parent r = None) ps = [apex]"
    and "pos_kind apex = Kind_Root" "pos_monitors apex" "pos_protected apex"
    and "check_links (map pos_id ps) ps = None" "walk ps [pos_id apex] [] [] = Inr (seen, ordered)"
  shows "ordered_topology ps ms = (if set seen \<noteq> set (map pos_id ps) then Inl Disconnected
    else case check_seats (map pos_id ps) [] [] ms of Some e \<Rightarrow> Inl e | None \<Rightarrow> Inr (ordered, ms))"
  using assms by (simp add: ordered_topology_def)

lemma ordered_topology_sound:
  assumes "ordered_topology ps ms = Inr (ordered, ms')"
  shows "(\<exists>apex. rooted_tree ps apex) \<and> grants_ok ps \<and> seats_ok ps ms \<and> ms' = ms"
proof -
  have d: "distinct (map pos_id ps)" using assms by (auto simp: ordered_topology_def split: if_splits)
  from assms d obtain apex where f: "filter (\<lambda>r. pos_parent r = None) ps = [apex]"
    by (cases "filter (\<lambda>r. pos_parent r = None) ps" rule: list.exhaust [case_product list.exhaust [of "tl _"]])
      (simp_all add: ordered_topology_def split: list.splits)
  note e = assms [unfolded ordered_topology_def f, simplified d]
  have apex: "pos_kind apex = Kind_Root" "pos_monitors apex" "pos_protected apex"
      and links: "check_links (map pos_id ps) ps = None"
    using e by (simp_all split: if_splits option.splits)
  have t: "apex \<in> set ps" "\<forall>r\<in>set ps. pos_parent r = None \<longleftrightarrow> r = apex"
    using f d by (auto simp: single_filter_iff distinct_map)
  have no: "(p, pos_id apex) \<notin> reports_to ps" for p
    using t distinct_keyD [OF d _ t(1)] by (fastforce simp: reports_to_def)
  obtain seen found where w: "walk ps [pos_id apex] [] [] = Inr (seen, found)"
    "set seen = {x. (pos_id apex, x) \<in> (reports_to ps)\<^sup>*}"
    by (rule walk_from [OF d no t(1)])
  note e = assms [unfolded ordered_topology_walked [OF d f apex links w(1)]]
  then have "set seen = set (map pos_id ps)" by (simp split: if_splits)
  moreover from e have seats: "check_seats (map pos_id ps) [] [] ms = None" and ms: "ms' = ms"
    by (simp_all split: if_splits option.splits)
  ultimately have "set (map pos_id ps) = {x. (pos_id apex, x) \<in> (reports_to ps)\<^sup>*}" using w(2) by simp
  with d t have "rooted_tree ps apex" by (auto simp: rooted_tree_def)
  moreover have "grants_ok ps"
    using links apex t unfolding grants_ok_def check_links_None_iff by (metis not_None_eq position_kind.distinct(3))
  moreover have "seats_ok ps ms" using seats by (simp add: check_seats_None_iff seats_ok_def)
  ultimately show ?thesis using ms by blast
qed

text \<open>Two refusals of the walk are unreachable: a chart with a cycle is refused as disconnected.\<close>

lemma ordered_topology_refusals: "ordered_topology ps ms = Inl e \<Longrightarrow> e \<noteq> Cyclic \<and> e \<noteq> KeyError"
proof -
  assume e: "ordered_topology ps ms = Inl e"
  show ?thesis
  proof (cases "distinct (map pos_id ps) \<and> (\<exists>apex. filter (\<lambda>r. pos_parent r = None) ps = [apex])")
    case False
    with e show ?thesis by (auto simp: ordered_topology_def split: list.splits if_splits)
  next
    case True
    then obtain apex where d: "distinct (map pos_id ps)" and f: "filter (\<lambda>r. pos_parent r = None) ps = [apex]" by blast
    then have t: "apex \<in> set ps" "\<forall>r\<in>set ps. pos_parent r = None \<longleftrightarrow> r = apex"
      by (auto simp: single_filter_iff distinct_map)
    have no: "(p, pos_id apex) \<notin> reports_to ps" for p
      using t distinct_keyD [OF d _ t(1)] by (fastforce simp: reports_to_def)
    from walk_from [OF d no t(1)] obtain z where "walk ps [pos_id apex] [] [] = Inr z" by blast
    with e d f show ?thesis
      by (auto simp: ordered_topology_def dest!: check_links_refusal check_seats_refusal
          split: if_splits option.splits prod.splits)
  qed
qed

end
