(* ===== verification/Organisation.thy ===== *)
theory Organisation
  imports Topology "HOL-Library.List_Lexorder"
begin

text \<open>
  One tenant's organisation: the \<open>org_\<close> tables of \<open>pipeline/index/schema.sql\<close> with their
  triggers, and the operations of \<open>pipeline/index/db.py\<close> that read and change them. Rows of
  other tenants appear only as the bindings their active identities hold (\<open>o_foreign\<close>). The
  closure of the chart is rebuilt by a trigger after every change of a position, so it is a
  function of the positions. Identifiers arrive parsed; a Python int is an \<open>int\<close>.
\<close>

section \<open>Tables\<close>

record identity =
  i_id :: uuid
  i_issuer :: pystr
  i_subject :: pystr
  i_state :: seat_state

record membership =
  m_identity :: uuid
  m_position :: "uuid option"
  m_label :: pystr
  m_role :: app_role
  m_state :: seat_state

record tenant_row =
  tn_name :: pystr
  tn_version :: int
  tn_epoch :: int

text \<open>What an identity holds in another tenant: an active membership, an active architect's grant.\<close>

record foreign_binding =
  f_identity :: uuid
  f_tenant :: uuid
  f_member :: "(uuid option \<times> app_role \<times> pystr) option"
  f_architect :: bool

datatype audit_action =
    Act_Monitor_View | Act_Topology_Read | Act_Topology_Change | Act_Access_Preview
  | Act_Review_Queue_View | Act_Review_Decision | Act_Events_View | Act_Membership_Change
  | Act_Retention_Policy_Change | Act_Legal_Hold_Change | Act_Retention_Inventory_View
  | Act_Purge_Schedule | Act_Purge_Execute

datatype audit_reason = Management_Duty | Security_Review | System_Operation | Policy_Preview

record audit_row =
  au_id :: uuid
  au_actor :: uuid
  au_subject :: "uuid option"
  au_action :: audit_action
  au_reason :: audit_reason
  au_allowed :: bool
  au_request :: pystr
  au_at :: time

record organisation =
  o_id :: uuid
  o_tenant :: "tenant_row option"
  o_identities :: "identity list"
  o_positions :: "position list"
  o_members :: "membership list"
  o_architects :: "(uuid \<times> bool) list"
  o_foreign :: "foreign_binding list"
  o_audit :: "audit_row list"
  o_next :: uuid
  o_clock :: time

text \<open>
  The context of a connection: the effective actor, whether it is a service connection (which
  row security lets see every tenant) and whether its role may read the binding table.
\<close>

record session =
  se_actor :: "uuid option"
  se_service :: bool
  se_bindings :: bool

text \<open>
  \<open>Schema_Refusal\<close> is what a constraint or a trigger raises, \<open>InsufficientPrivilege\<close> what the
  database answers for a table the role may not read.
\<close>

datatype org_error =
    OrgVersionConflict
  | OrgIdentityConflict
  | OrgPolicyConflict
  | OrgMembershipStateRefused
  | OrgAuditQueryRefused
  | ServiceAccountRedemptionRefused
  | DocumentRetentionRefused
  | Several_Tenants
  | Schema_Refusal ingest_error
  | InsufficientPrivilege

section \<open>Shared statements\<close>

definition new_id :: "'a organisation_scheme \<Rightarrow> uuid \<times> 'a organisation_scheme" where
  "new_id g = (o_next g, g\<lparr>o_next := Suc (o_next g)\<rparr>)"

definition active_member :: "'a organisation_scheme \<Rightarrow> uuid \<Rightarrow> bool" where
  "active_member g i = list_ex (\<lambda>m. m_identity m = i \<and> m_state m = Seat_Active) (o_members g)"

definition bound_here :: "'a organisation_scheme \<Rightarrow> uuid \<Rightarrow> bool" where
  "bound_here g i = (active_member g i \<or> (i, True) \<in> set (o_architects g))"

definition bound_elsewhere :: "'a organisation_scheme \<Rightarrow> uuid \<Rightarrow> bool" where
  "bound_elsewhere g i = list_ex (\<lambda>f. f_identity f = i) (o_foreign g)"

text \<open>The queries for rows of other tenants: row security shows them to a service connection only.\<close>

definition sees_elsewhere :: "session \<Rightarrow> 'a organisation_scheme \<Rightarrow> uuid \<Rightarrow> bool" where
  "sees_elsewhere s g i = (se_service s \<and> bound_elsewhere g i)"

text \<open>
  An audit row: its CHECKs, and the trigger \<open>rag_guard_org_audit_identity\<close>, which wants the actor
  bound to this tenant and the subject known to it.
\<close>

definition new_audit_row ::
  "uuid \<Rightarrow> uuid \<Rightarrow> uuid option \<Rightarrow> audit_action \<Rightarrow> audit_reason \<Rightarrow> bool \<Rightarrow> pystr \<Rightarrow> time \<Rightarrow> audit_row" where
  "new_audit_row i actor subject action reason granted request at_time = \<lparr>au_id = i, au_actor = actor,
     au_subject = subject, au_action = action, au_reason = reason, au_allowed = granted,
     au_request = request, au_at = at_time\<rparr>"

definition insert_audit ::
  "uuid \<Rightarrow> uuid option \<Rightarrow> audit_action \<Rightarrow> audit_reason \<Rightarrow> bool \<Rightarrow> pystr \<Rightarrow> 'a organisation_scheme
     \<Rightarrow> org_error + uuid \<times> 'a organisation_scheme" where
  "insert_audit actor subject action reason granted request g =
    (let (i, g1) = new_id g
     in if \<not> bound_here g actor
         \<or> (case subject of None \<Rightarrow> False | Some x \<Rightarrow> \<not> (bound_here g x \<or> x \<in> m_identity ` set (o_members g)
              \<or> x \<in> fst ` set (o_architects g)))
         \<or> \<not> (8 \<le> length request \<and> length request \<le> 64)
        then Inl (Schema_Refusal IntegrityError)
        else Inr (i, g1\<lparr>o_audit := o_audit g1 @
          [new_audit_row i actor subject action reason granted request (o_clock g1)]\<rparr>))"

text \<open>\<open>INSERT INTO org_identities ... ON CONFLICT (issuer, subject) DO NOTHING\<close>, then its SELECT.\<close>

definition intern_identity ::
  "pystr \<Rightarrow> pystr \<Rightarrow> 'a organisation_scheme \<Rightarrow> org_error + identity \<times> 'a organisation_scheme" where
  "intern_identity issuer subject g =
    (let (i, g1) = new_id g
     in if \<not> (1 \<le> length issuer \<and> length issuer \<le> 100 \<and> 1 \<le> length subject \<and> length subject \<le> 200)
        then Inl (Schema_Refusal IntegrityError)
        else case find (\<lambda>x. i_issuer x = issuer \<and> i_subject x = subject) (o_identities g1) of
          Some x \<Rightarrow> Inr (x, g1)
        | None \<Rightarrow> (let x = \<lparr>i_id = i, i_issuer = issuer, i_subject = subject, i_state = Seat_Active\<rparr>
                  in Inr (x, g1\<lparr>o_identities := o_identities g1 @ [x]\<rparr>)))"

section \<open>The closure of the chart\<close>

text \<open>
  \<open>rag_rebuild_org_closure\<close>: the recursive query starts with every position under itself and
  joins the children until nothing is new. A chart has no longer chains than positions.
\<close>

definition next_level :: "position list \<Rightarrow> (uuid \<times> uuid \<times> nat) list \<Rightarrow> (uuid \<times> uuid \<times> nat) list" where
  "next_level ps level = concat (map (\<lambda>(a, d, k). map (\<lambda>c. (a, c, Suc k)) (children_of ps d)) level)"

fun closure_levels :: "nat \<Rightarrow> position list \<Rightarrow> (uuid \<times> uuid \<times> nat) list \<Rightarrow> (uuid \<times> uuid \<times> nat) list" where
  "closure_levels 0 ps level = []"
| "closure_levels (Suc n) ps level =
    (if level = [] then [] else level @ closure_levels n ps (next_level ps level))"

definition org_closure :: "position list \<Rightarrow> (uuid \<times> uuid \<times> nat) list" where
  "org_closure ps = closure_levels (length ps) ps (map (\<lambda>r. (pos_id r, pos_id r, 0)) ps)"

definition get_position :: "'a organisation_scheme \<Rightarrow> uuid \<Rightarrow> position option" where
  "get_position g i = find_row pos_id i (o_positions g)"

definition get_member :: "'a organisation_scheme \<Rightarrow> uuid \<Rightarrow> membership option" where
  "get_member g i = find_row m_identity i (o_members g)"

text \<open>\<open>COALESCE(max(depth of an ancestor of kind root), 0) + 1\<close>\<close>

definition position_level :: "position list \<Rightarrow> uuid \<Rightarrow> nat" where
  "position_level ps i = Suc (fold max (map (\<lambda>(a, d, k). k) (filter
     (\<lambda>(a, d, k). d = i \<and> (case find_row pos_id a ps of None \<Rightarrow> False | Some r \<Rightarrow> pos_kind r = Kind_Root))
     (org_closure ps))) 0)"

section \<open>Readers\<close>

record resolved =
  rs_identity :: uuid
  rs_tenant :: uuid
  rs_position :: "uuid option"
  rs_role :: "app_role option"
  rs_label :: "pystr option"
  rs_architect :: bool

text \<open>
  \<open>resolve_org_identity\<close>, asked by a service connection: \<open>rs_role = None\<close> is the internal role
  \<open>org_architect\<close>.
\<close>

definition active_memberships :: "'a organisation_scheme \<Rightarrow> uuid \<Rightarrow> (uuid \<times> uuid option \<times> app_role \<times> pystr) list" where
  "active_memberships g i =
     map (\<lambda>m. (o_id g, m_position m, m_role m, m_label m))
       (filter (\<lambda>m. m_identity m = i \<and> m_state m = Seat_Active) (o_members g))
     @ concat (map (\<lambda>f. case f_member f of None \<Rightarrow> [] | Some r \<Rightarrow> [(f_tenant f, r)])
       (filter (\<lambda>f. f_identity f = i) (o_foreign g)))"

definition architect_tenants :: "'a organisation_scheme \<Rightarrow> uuid \<Rightarrow> uuid list" where
  "architect_tenants g i = (if (i, True) \<in> set (o_architects g) then [o_id g] else [])
     @ map f_tenant (filter (\<lambda>f. f_identity f = i \<and> f_architect f) (o_foreign g))"

definition resolve_org_identity ::
  "'a organisation_scheme \<Rightarrow> pystr \<Rightarrow> pystr \<Rightarrow> org_error + resolved option" where
  "resolve_org_identity g issuer subject =
    (case find (\<lambda>x. i_issuer x = issuer \<and> i_subject x = subject \<and> i_state x = Seat_Active) (o_identities g) of
       None \<Rightarrow> Inr None
     | Some x \<Rightarrow>
        (let ms = active_memberships g (i_id x); as = architect_tenants g (i_id x)
         in case remdups (map fst ms @ as) of
              [] \<Rightarrow> Inr None
            | [t] \<Rightarrow> (let m = find (\<lambda>r. fst r = t) ms
                in Inr (Some \<lparr>rs_identity = i_id x, rs_tenant = t,
                     rs_position = (case m of None \<Rightarrow> None | Some (_, p, _, _) \<Rightarrow> p),
                     rs_role = map_option (\<lambda>(_, _, role, _). role) m,
                     rs_label = map_option (\<lambda>(_, _, _, label). label) m,
                     rs_architect = (t \<in> set as)\<rparr>))
            | _ \<Rightarrow> Inl Several_Tenants))"

record own_context =
  oc_label :: pystr
  oc_role :: app_role
  oc_position :: position
  oc_level :: nat
  oc_version :: int
  oc_epoch :: int

definition org_context :: "'a organisation_scheme \<Rightarrow> uuid \<Rightarrow> own_context option" where
  "org_context g i =
    (case (find (\<lambda>m. m_identity m = i \<and> m_state m = Seat_Active) (o_members g), o_tenant g) of
       (Some m, Some t) \<Rightarrow>
         (case m_position m of None \<Rightarrow> None | Some p \<Rightarrow>
           map_option (\<lambda>r. \<lparr>oc_label = m_label m, oc_role = m_role m, oc_position = r,
             oc_level = position_level (o_positions g) p, oc_version = tn_version t, oc_epoch = tn_epoch t\<rparr>)
             (get_position g p))
     | _ \<Rightarrow> None)"

text \<open>
  A strict descendant of a monitoring position, unless it is protected. \<open>collate\<close> is the sort
  key of the collation of the database.
\<close>

definition monitored :: "'a organisation_scheme \<Rightarrow> position \<Rightarrow> (membership \<times> nat) list" where
  "monitored g r = concat (map (\<lambda>(a, d, k). if a = pos_id r \<and> 0 < k \<and> (case get_position g d of
        None \<Rightarrow> False | Some t \<Rightarrow> \<not> pos_protected t)
      then map (\<lambda>m. (m, k)) (filter (\<lambda>m. m_position m = Some d \<and> m_state m = Seat_Active) (o_members g))
      else []) (org_closure (o_positions g)))"

definition visible_org_members :: "(pystr \<Rightarrow> pystr) \<Rightarrow> 'a organisation_scheme \<Rightarrow> uuid \<Rightarrow> (membership \<times> nat) list" where
  "visible_org_members collate g viewer =
    (case find (\<lambda>m. m_identity m = viewer \<and> m_state m = Seat_Active) (o_members g) of
       None \<Rightarrow> []
     | Some v \<Rightarrow>
        (case m_position v of None \<Rightarrow> [] | Some p \<Rightarrow>
          (case get_position g p of None \<Rightarrow> [] | Some r \<Rightarrow>
            (if \<not> pos_monitors r then []
             else map (\<lambda>(m, k). (m, case m_position m of None \<Rightarrow> 1 | Some d \<Rightarrow> position_level (o_positions g) d))
               (sort_key snd (sort_key (collate \<circ> m_label \<circ> fst) (sort_key (m_identity \<circ> fst)
                 (monitored g r))))))))"

text \<open>\<open>rag_can_monitor_identity\<close>, for the effective actor \<open>viewer\<close>.\<close>

definition can_monitor :: "'a organisation_scheme \<Rightarrow> uuid \<Rightarrow> uuid \<Rightarrow> bool" where
  "can_monitor g viewer subject = list_ex (\<lambda>v. m_identity v = viewer \<and> m_state v = Seat_Active
     \<and> list_ex (\<lambda>t. m_identity t = subject \<and> m_state t = Seat_Active
     \<and> list_ex (\<lambda>(a, d, k). m_position v = Some a \<and> m_position t = Some d \<and> 0 < k
         \<and> (case get_position g a of None \<Rightarrow> False | Some r \<Rightarrow> pos_monitors r)
         \<and> (case get_position g d of None \<Rightarrow> False | Some r \<Rightarrow> \<not> pos_protected r))
       (org_closure (o_positions g))) (o_members g)) (o_members g)"

definition org_topology ::
  "(pystr \<Rightarrow> pystr) \<Rightarrow> 'a organisation_scheme \<Rightarrow> (tenant_row \<times> position list \<times> (identity \<times> membership) list) option" where
  "org_topology collate g = map_option (\<lambda>t. (t,
     sort_key (collate \<circ> pos_title) (sort_key pos_id (o_positions g)),
     sort_key (collate \<circ> m_label \<circ> snd) (sort_key (collate \<circ> i_subject \<circ> fst)
       (concat (map (\<lambda>m. map (\<lambda>x. (x, m)) (filter (\<lambda>x. i_id x = m_identity m) (o_identities g))) (o_members g))))))
     (o_tenant g)"

section \<open>The audit log\<close>

fun action_text :: "audit_action \<Rightarrow> pystr" where
  "action_text Act_Monitor_View = u ''monitor_view''"
| "action_text Act_Topology_Read = u ''topology_read''"
| "action_text Act_Topology_Change = u ''topology_change''"
| "action_text Act_Access_Preview = u ''access_preview''"
| "action_text Act_Review_Queue_View = u ''review_queue_view''"
| "action_text Act_Review_Decision = u ''review_decision''"
| "action_text Act_Events_View = u ''events_view''"
| "action_text Act_Membership_Change = u ''membership_change''"
| "action_text Act_Retention_Policy_Change = u ''retention_policy_change''"
| "action_text Act_Legal_Hold_Change = u ''legal_hold_change''"
| "action_text Act_Retention_Inventory_View = u ''retention_inventory_view''"
| "action_text Act_Purge_Schedule = u ''purge_schedule''"
| "action_text Act_Purge_Execute = u ''purge_execute''"

fun reason_text :: "audit_reason \<Rightarrow> pystr" where
  "reason_text Management_Duty = u ''management_duty''"
| "reason_text Security_Review = u ''security_review''"
| "reason_text System_Operation = u ''system_operation''"
| "reason_text Policy_Preview = u ''policy_preview''"

definition decision_text :: "bool \<Rightarrow> pystr" where
  "decision_text granted = (if granted then u ''allowed'' else u ''denied'')"

definition allowed_actions :: "pystr list" where
  "allowed_actions = map action_text [Act_Monitor_View, Act_Topology_Read, Act_Topology_Change,
     Act_Access_Preview, Act_Review_Queue_View, Act_Review_Decision, Act_Events_View,
     Act_Membership_Change, Act_Retention_Policy_Change, Act_Legal_Hold_Change,
     Act_Retention_Inventory_View, Act_Purge_Schedule, Act_Purge_Execute]"

definition allowed_reasons :: "pystr list" where
  "allowed_reasons = map reason_text [Management_Duty, Security_Review, System_Operation, Policy_Preview]"

text \<open>A filter that is absent or empty selects everything.\<close>

definition selected :: "pystr list option \<Rightarrow> pystr \<Rightarrow> bool" where
  "selected given x = (case given of None \<Rightarrow> True | Some [] \<Rightarrow> True | Some xs \<Rightarrow> x \<in> set xs)"

definition closed_filter :: "pystr list \<Rightarrow> pystr list option \<Rightarrow> bool" where
  "closed_filter vocabulary given = (case given of None \<Rightarrow> True | Some xs \<Rightarrow> list_all (\<lambda>x. x \<in> set vocabulary) xs)"

text \<open>\<open>before\<close> is the cursor pair; the row beyond the limit tells of a further page.\<close>

definition list_org_audit_events ::
  "'a organisation_scheme \<Rightarrow> int \<Rightarrow> (time option \<times> uuid option) option \<Rightarrow> pystr list option \<Rightarrow> pystr list option
     \<Rightarrow> pystr list option \<Rightarrow> org_error + audit_row list" where
  "list_org_audit_events g limit before actions decisions reasons =
    (let (before_at, before_id) = (case before of None \<Rightarrow> (None, None) | Some c \<Rightarrow> c)
     in if \<not> (1 \<le> limit \<and> limit \<le> 100) \<or> (before_at = None) \<noteq> (before_id = None)
         \<or> \<not> closed_filter allowed_actions actions
         \<or> \<not> closed_filter [decision_text True, decision_text False] decisions
         \<or> \<not> closed_filter allowed_reasons reasons
        then Inl OrgAuditQueryRefused
        else Inr (take (nat limit + 1) (sort_key (\<lambda>r. - au_at r) (sort_key (\<lambda>r. - int (au_id r))
          (filter (\<lambda>r. selected actions (action_text (au_action r))
             \<and> selected decisions (decision_text (au_allowed r)) \<and> selected reasons (reason_text (au_reason r))
             \<and> (case (before_at, before_id) of (Some t, Some i) \<Rightarrow> au_at r < t \<or> au_at r = t \<and> au_id r < i
                | _ \<Rightarrow> True)) (o_audit g))))))"

definition record_org_decision ::
  "uuid \<Rightarrow> uuid option \<Rightarrow> audit_action \<Rightarrow> audit_reason \<Rightarrow> bool \<Rightarrow> pystr \<Rightarrow> 'a organisation_scheme
     \<Rightarrow> org_error + uuid \<times> 'a organisation_scheme" where
  "record_org_decision actor subject action reason granted request g =
     insert_audit actor subject action reason granted request g"

section \<open>Founding a tenant\<close>

text \<open>\<open>bootstrap_org_tenant\<close>; \<open>Active\<close> architects are bound by \<open>rag_claim_identity_tenant\<close>.\<close>

definition set_architect :: "uuid \<Rightarrow> 'a organisation_scheme \<Rightarrow> 'a organisation_scheme" where
  "set_architect i g = g\<lparr>o_architects := (if i \<in> fst ` set (o_architects g)
     then map (\<lambda>a. if fst a = i then (i, True) else a) (o_architects g)
     else o_architects g @ [(i, True)])\<rparr>"

definition bootstrap_org_tenant ::
  "session \<Rightarrow> pystr \<Rightarrow> pystr \<Rightarrow> pystr \<Rightarrow> 'a organisation_scheme \<Rightarrow> org_error + uuid \<times> 'a organisation_scheme" where
  "bootstrap_org_tenant s name issuer subject g =
    (if \<not> (1 \<le> length name \<and> length name \<le> 200) then Inl (Schema_Refusal IntegrityError)
     else
       (let t = (case o_tenant g of None \<Rightarrow> \<lparr>tn_name = name, tn_version = 1, tn_epoch = 1\<rparr> | Some t \<Rightarrow> t);
            g1 = g\<lparr>o_tenant := Some t\<rparr>
        in if tn_name t \<noteq> name then Inl OrgIdentityConflict
           else case intern_identity issuer subject g1 of
             Inl e \<Rightarrow> Inl e
           | Inr (x, g2) \<Rightarrow>
               (if i_state x \<noteq> Seat_Active then Inl OrgIdentityConflict
                else if sees_elsewhere s g2 (i_id x) then Inl OrgIdentityConflict
                else if bound_elsewhere g2 (i_id x) then Inl (Schema_Refusal IntegrityError)
                else Inr (i_id x, set_architect (i_id x) g2))))"

section \<open>Replacing the chart\<close>

text \<open>\<open>rag_guard_org_position\<close>: the ancestors of the new position's parent.\<close>

fun lineage :: "nat \<Rightarrow> position list \<Rightarrow> uuid \<Rightarrow> uuid list" where
  "lineage 0 ps i = []"
| "lineage (Suc n) ps i = (case find_row pos_id i ps of
     None \<Rightarrow> []
   | Some r \<Rightarrow> i # (case pos_parent r of None \<Rightarrow> [] | Some p \<Rightarrow> lineage n ps p))"

text \<open>One INSERT of a position: the guard, the CHECKs, the keys, the single root, the parent.\<close>

definition position_row_ok :: "position \<Rightarrow> bool" where
  "position_row_ok r = (1 \<le> length (pos_title r) \<and> length (pos_title r) \<le> 200
     \<and> (pos_parent r = None) = (pos_kind r = Kind_Root)
     \<and> (pos_kind r = Kind_Root \<longrightarrow> pos_monitors r \<and> pos_protected r)
     \<and> (pos_kind r = Kind_Member \<longrightarrow> \<not> pos_monitors r))"

definition insert_position :: "position \<Rightarrow> position list \<Rightarrow> ingest_error + position list" where
  "insert_position r ps =
    (if pos_parent r = Some (pos_id r)
        \<or> (case pos_parent r of None \<Rightarrow> False | Some p \<Rightarrow> pos_id r \<in> set (lineage (length ps) ps p))
     then Inl RaisedException
     else if \<not> position_row_ok r \<or> pos_id r \<in> pos_id ` set ps
        \<or> (pos_parent r = None \<and> list_ex (\<lambda>q. pos_parent q = None) ps)
        \<or> (case pos_parent r of None \<Rightarrow> False | Some p \<Rightarrow> p \<notin> pos_id ` set ps)
     then Inl IntegrityError
     else Inr (ps @ [r]))"

fun insert_positions :: "position list \<Rightarrow> position list \<Rightarrow> ingest_error + position list" where
  "insert_positions [] ps = Inr ps"
| "insert_positions (r # rs) ps = (case insert_position r ps of
     Inl e \<Rightarrow> Inl e | Inr ps' \<Rightarrow> insert_positions rs ps')"

text \<open>The constraints of a row of \<open>org_memberships\<close> beside its key.\<close>

definition member_row_ok :: "'a organisation_scheme \<Rightarrow> membership list \<Rightarrow> membership \<Rightarrow> bool" where
  "member_row_ok g others m = (1 \<le> length (m_label m) \<and> length (m_label m) \<le> 200
     \<and> (m_state m = Seat_Active \<longrightarrow> m_position m \<noteq> None)
     \<and> (case m_position m of None \<Rightarrow> True | Some p \<Rightarrow> p \<in> pos_id ` set (o_positions g))
     \<and> (m_state m = Seat_Active \<longrightarrow> \<not> list_ex (\<lambda>n. m_state n = Seat_Active \<and> m_position n = m_position m) others)
     \<and> (m_state m = Seat_Active \<longrightarrow> \<not> bound_elsewhere g (m_identity m)))"

definition seat_row :: "uuid \<Rightarrow> seat \<Rightarrow> membership" where
  "seat_row i m = \<lparr>m_identity = i, m_position = Some (seat_position m), m_label = seat_label m,
     m_role = seat_role m, m_state = seat_state m\<rparr>"

definition seat_member :: "session \<Rightarrow> seat \<Rightarrow> 'a organisation_scheme \<Rightarrow> org_error + 'a organisation_scheme" where
  "seat_member s m g =
    (case intern_identity (seat_issuer m) (seat_subject m) g of
       Inl e \<Rightarrow> Inl e
     | Inr (x, g1) \<Rightarrow>
        (if i_state x \<noteq> Seat_Active then Inl OrgIdentityConflict
         else if seat_state m = Seat_Active \<and> sees_elsewhere s g1 (i_id x) then Inl OrgIdentityConflict
         else if i_id x \<in> m_identity ` set (o_members g1)
             \<or> \<not> member_row_ok g1 (o_members g1) (seat_row (i_id x) m)
         then Inl (Schema_Refusal IntegrityError)
         else Inr (g1\<lparr>o_members := o_members g1 @ [seat_row (i_id x) m]\<rparr>)))"

fun seat_members :: "session \<Rightarrow> seat list \<Rightarrow> 'a organisation_scheme \<Rightarrow> org_error + 'a organisation_scheme" where
  "seat_members s [] g = Inr g"
| "seat_members s (m # ms) g = (case seat_member s m g of Inl e \<Rightarrow> Inl e | Inr g' \<Rightarrow> seat_members s ms g')"

definition bump_tenant :: "pystr option \<Rightarrow> tenant_row \<Rightarrow> tenant_row" where
  "bump_tenant renamed t = t\<lparr>tn_name := (case renamed of None \<Rightarrow> tn_name t | Some n \<Rightarrow> n),
     tn_version := tn_version t + 1, tn_epoch := tn_epoch t + 1\<rparr>"

text \<open>
  \<open>retained\<close> are the identities whose membership rows of other tables reference with
  \<open>ON DELETE RESTRICT\<close>: the owners of the evaluation datasets.
\<close>

definition replace_org_topology ::
  "uuid list \<Rightarrow> session \<Rightarrow> int \<Rightarrow> pystr \<Rightarrow> position list \<Rightarrow> seat list \<Rightarrow> uuid \<Rightarrow> pystr \<Rightarrow> 'a organisation_scheme
     \<Rightarrow> org_error + (int \<times> int) \<times> 'a organisation_scheme" where
  "replace_org_topology retained s expected_version name positions members actor request g =
    (case o_tenant g of
       None \<Rightarrow> Inl OrgIdentityConflict
     | Some t \<Rightarrow>
        (if tn_version t \<noteq> expected_version then Inl OrgVersionConflict
         else if list_ex (\<lambda>m. m_identity m \<in> set retained) (o_members g) then Inl (Schema_Refusal IntegrityError)
         else case insert_positions positions [] of
           Inl e \<Rightarrow> Inl (Schema_Refusal e)
         | Inr ps \<Rightarrow>
        (case seat_members s members (g\<lparr>o_members := [], o_positions := ps\<rparr>) of
           Inl e \<Rightarrow> Inl e
         | Inr g1 \<Rightarrow>
            (if \<not> (1 \<le> length name \<and> length name \<le> 200) then Inl (Schema_Refusal IntegrityError)
             else
               (let t' = bump_tenant (Some name) t;
                    g2 = g1\<lparr>o_tenant := Some t'\<rparr>
                in case insert_audit actor None Act_Topology_Change System_Operation True request g2 of
                     Inl e \<Rightarrow> Inl e
                   | Inr (i, g3) \<Rightarrow> Inr ((tn_version t', tn_epoch t'), g3))))))"

section \<open>Changing one member\<close>

definition coerce_org_transition :: "seat_state \<Rightarrow> seat_state \<Rightarrow> bool" where
  "coerce_org_transition current wanted = (current = wanted \<or> (current, wanted) \<in>
     {(Seat_Pending, Seat_Active), (Seat_Active, Seat_Suspended), (Seat_Suspended, Seat_Active)})"

definition org_architect :: "'a organisation_scheme \<Rightarrow> session \<Rightarrow> uuid \<Rightarrow> bool" where
  "org_architect g s actor = ((actor, True) \<in> set (o_architects g)
     \<and> list_ex (\<lambda>x. i_id x = actor \<and> i_state x = Seat_Active) (o_identities g) \<and> se_actor s = Some actor)"

text \<open>
  The row, once every fence and check before the UPDATE has passed. The binding table answers
  only a role that may read it.
\<close>

definition update_row ::
  "seat_state option \<Rightarrow> app_role option \<Rightarrow> uuid option \<Rightarrow> uuid \<Rightarrow> 'a organisation_scheme
     \<Rightarrow> org_error + membership" where
  "update_row state role position target g =
    (case get_member g target of
       None \<Rightarrow> Inl OrgIdentityConflict
     | Some m \<Rightarrow>
        (let m' = m\<lparr>m_state := (case state of None \<Rightarrow> m_state m | Some x \<Rightarrow> x),
               m_role := (case role of None \<Rightarrow> m_role m | Some x \<Rightarrow> x),
               m_position := (case position of None \<Rightarrow> m_position m | Some x \<Rightarrow> Some x)\<rparr>
         in if \<not> coerce_org_transition (m_state m) (m_state m') then Inl OrgMembershipStateRefused
            else if (case m_position m' of None \<Rightarrow> False | Some p \<Rightarrow> get_position g p = None)
            then Inl OrgIdentityConflict
            else if m_state m' = Seat_Active \<and> m_position m' = None then Inl OrgMembershipStateRefused
            else if m' = m then Inl OrgMembershipStateRefused
            else if \<not> member_row_ok g (filter (\<lambda>n. m_identity n \<noteq> target) (o_members g)) m'
            then Inl OrgIdentityConflict
            else Inr m'))"

definition update_org_member ::
  "session \<Rightarrow> uuid \<Rightarrow> uuid \<Rightarrow> int \<Rightarrow> int \<Rightarrow> seat_state option \<Rightarrow> app_role option \<Rightarrow> uuid option \<Rightarrow> pystr
     \<Rightarrow> 'a organisation_scheme \<Rightarrow> org_error + (membership \<times> int \<times> int) \<times> 'a organisation_scheme" where
  "update_org_member s actor target version epoch state role position request g =
    (if state = None \<and> role = None \<and> position = None then Inl OrgMembershipStateRefused
     else if version < 1 \<or> epoch < 1 then Inl OrgPolicyConflict
     else if position = Some 0 then Inl OrgMembershipStateRefused
     else if \<not> (8 \<le> length request \<and> length request \<le> 64) then Inl OrgIdentityConflict
     else case o_tenant g of
       None \<Rightarrow> Inl OrgIdentityConflict
     | Some t \<Rightarrow>
        (if tn_version t \<noteq> version then Inl OrgVersionConflict
         else if tn_epoch t \<noteq> epoch then Inl OrgPolicyConflict
         else if \<not> org_architect g s actor then Inl OrgIdentityConflict
         else if \<not> list_ex (\<lambda>x. i_id x = target \<and> i_state x = Seat_Active) (o_identities g)
         then Inl OrgIdentityConflict
         else if \<not> se_bindings s then Inl InsufficientPrivilege
         else if bound_elsewhere g target then Inl OrgIdentityConflict
         else case update_row state role position target g of
           Inl e \<Rightarrow> Inl e
         | Inr m \<Rightarrow>
            (let t' = bump_tenant None t;
                 g1 = g\<lparr>o_members := update_rows (\<lambda>n. m_identity n = target) (\<lambda>n. m) (o_members g),
                        o_tenant := Some t'\<rparr>
             in case insert_audit actor (Some target) Act_Membership_Change System_Operation True request g1 of
                  Inl e \<Rightarrow> Inl e
                | Inr (i, g2) \<Rightarrow> Inr ((m, tn_version t', tn_epoch t'), g2))))"

section \<open>Redeeming a service account\<close>

definition lock_service_account_redeemer ::
  "'a organisation_scheme \<Rightarrow> session \<Rightarrow> uuid \<Rightarrow> int \<Rightarrow> org_error + uuid \<times> int" where
  "lock_service_account_redeemer g s actor epoch =
    (if epoch < 1 then Inl DocumentRetentionRefused
     else case o_tenant g of
       None \<Rightarrow> Inl ServiceAccountRedemptionRefused
     | Some t \<Rightarrow>
        (if \<not> ((actor, True) \<in> set (o_architects g)
             \<and> list_ex (\<lambda>m. m_identity m = actor \<and> m_state m = Seat_Active \<and> m_role m = Admin) (o_members g)
             \<and> se_actor s = Some actor) then Inl ServiceAccountRedemptionRefused
         else if tn_epoch t \<noteq> epoch then Inl OrgPolicyConflict
         else Inr (o_id g, epoch)))"

end
