(* ===== verification/Organisation_Machine.thy ===== *)
theory Organisation_Machine
  imports Organisation
begin

text \<open>
  The organisation under every interleaving of its operations. The chart is always empty or a
  rooted tree stored parents first, whatever positions a caller hands to the database; the
  closure is its ancestor relation; every active position has one member and an identity is
  active in one tenant only.
\<close>

section \<open>The closure is the ancestor relation\<close>

definition chart_ok :: "position list \<Rightarrow> bool" where
  "chart_ok ps \<longleftrightarrow> distinct (map pos_id ps) \<and> parents_first {} ps \<and> (\<forall>r\<in>set ps. position_row_ok r)
     \<and> (\<forall>r\<in>set ps. \<forall>q\<in>set ps. pos_parent r = None \<longrightarrow> pos_parent q = None \<longrightarrow> r = q)"

definition rank :: "position list \<Rightarrow> uuid \<Rightarrow> nat" where
  "rank ps i = length (takeWhile (\<lambda>r. pos_id r \<noteq> i) ps)"

lemma parents_first_rank:
  "parents_first known ps \<Longrightarrow> distinct (map pos_id ps) \<Longrightarrow> (p, i) \<in> reports_to ps \<Longrightarrow> p \<notin> known
     \<Longrightarrow> rank ps p < rank ps i"
proof (induction ps arbitrary: known)
  case (Cons r rs)
  from Cons.prems(3) obtain q where q: "q \<in> set (r # rs)" "pos_id q = i" "pos_parent q = Some p"
    by (auto simp: reports_to_def)
  show ?case
  proof (cases "q = r")
    case True
    with q Cons.prems(1,4) show ?thesis by simp
  next
    case False
    with q Cons.prems(2) have i: "pos_id r \<noteq> i" "(p, i) \<in> reports_to rs" by (auto simp: reports_to_def)
    show ?thesis
    proof (cases "pos_id r = p")
      case True
      with i show ?thesis by (simp add: rank_def)
    next
      case False
      with Cons.prems i(2) have "rank rs p < rank rs i" by (intro Cons.IH [of "insert (pos_id r) known"]) auto
      with False i(1) show ?thesis by (simp add: rank_def)
    qed
  qed
qed (simp add: reports_to_def)

lemma chart_rank: "chart_ok ps \<Longrightarrow> (p, i) \<in> reports_to ps \<Longrightarrow> rank ps p < rank ps i"
  by (rule parents_first_rank [of "{}"]) (auto simp: chart_ok_def)

lemma chain_rank: "chart_ok ps \<Longrightarrow> (a, d) \<in> reports_to ps ^^ k \<Longrightarrow> rank ps a + k \<le> rank ps d"
proof (induction k arbitrary: d)
  case (Suc k)
  then obtain b where "(a, b) \<in> reports_to ps ^^ k" "(b, d) \<in> reports_to ps" by auto
  with Suc.IH [of b] Suc.prems(1) chart_rank [of ps b d] show ?case by simp
qed simp

lemma chain_below:
  assumes "(a, d) \<in> reports_to ps ^^ k" "a \<in> pos_id ` set ps"
  shows "d \<in> pos_id ` set ps"
  using assms by (cases k) (auto dest!: reports_toD)

lemma rank_bound: "i \<in> pos_id ` set ps \<Longrightarrow> rank ps i < length ps"
  by (induction ps) (auto simp: rank_def)

lemma chain_bound: "chart_ok ps \<Longrightarrow> a \<in> pos_id ` set ps \<Longrightarrow> (a, d) \<in> reports_to ps ^^ k \<Longrightarrow> k < length ps"
  using chain_rank [of ps a d k] rank_bound [OF chain_below] by fastforce

lemma set_next_level:
  "set (next_level ps level) = {(a, c, Suc k) | a c d k. (a, d, k) \<in> set level \<and> (d, c) \<in> reports_to ps}"
  by (auto simp: next_level_def set_children_of)

lemma chain_split: "(a, d) \<in> R ^^ (k + n) \<Longrightarrow> \<exists>b. (a, b) \<in> R ^^ k \<and> (b, d) \<in> R ^^ n"
  by (auto simp: relpow_add)

lemma set_closure_levels:
  assumes "set level = {(a, d, k) | a d. a \<in> ids \<and> (a, d) \<in> reports_to ps ^^ k}"
  shows "set (closure_levels n ps level)
    = {(a, d, j) | a d j. k \<le> j \<and> j < k + n \<and> a \<in> ids \<and> (a, d) \<in> reports_to ps ^^ j}"
  using assms
proof (induction n arbitrary: level k)
  case (Suc n)
  have up: "set (next_level ps level) = {(a, d, Suc k) | a d. a \<in> ids \<and> (a, d) \<in> reports_to ps ^^ Suc k}"
    by (auto simp: set_next_level Suc.prems)
  show ?case
  proof (cases "level = []")
    case True
    then have "\<not> (a \<in> ids \<and> (a, d) \<in> reports_to ps ^^ (k + i))" for a d i
      using Suc.prems chain_split [where R = "reports_to ps" and k = k and n = i and a = a and d = d] by auto
    then have "\<not> (a \<in> ids \<and> (a, d) \<in> reports_to ps ^^ j)" if "k \<le> j" for a d j
      using that by (metis le_Suc_ex)
    with True show ?thesis by auto
  next
    case False
    then have "set (closure_levels (Suc n) ps level)
      = set level \<union> {(a, d, j) | a d j. Suc k \<le> j \<and> j < Suc k + n \<and> a \<in> ids \<and> (a, d) \<in> reports_to ps ^^ j}"
      using Suc.IH [OF up] by simp
    note eq = this [unfolded Suc.prems]
    have "(a, d, j) \<in> set (closure_levels (Suc n) ps level) \<longleftrightarrow>
        (j = k \<or> Suc k \<le> j \<and> j < Suc k + n) \<and> a \<in> ids \<and> (a, d) \<in> reports_to ps ^^ j" for a d j
      unfolding eq by blast
    moreover have "(j = k \<or> Suc k \<le> j \<and> j < Suc k + n) = (k \<le> j \<and> j < k + Suc n)" for j by auto
    ultimately show ?thesis by (simp only: set_eq_iff split_paired_All mem_Collect_eq prod.inject) blast
  qed
qed simp

text \<open>The fuel of \<open>org_closure\<close> is enough: no chain is as long as the chart has positions.\<close>

lemma org_closure_iff:
  assumes "chart_ok ps"
  shows "(a, d, k) \<in> set (org_closure ps) \<longleftrightarrow> a \<in> pos_id ` set ps \<and> (a, d) \<in> reports_to ps ^^ k"
proof -
  have "set (map (\<lambda>r. (pos_id r, pos_id r, 0)) ps)
    = {(a, d, 0 :: nat) | a d. a \<in> pos_id ` set ps \<and> (a, d) \<in> reports_to ps ^^ 0}" by auto
  from set_closure_levels [OF this, of "length ps"] have "(a, d, k) \<in> set (org_closure ps) \<longleftrightarrow>
      k < length ps \<and> a \<in> pos_id ` set ps \<and> (a, d) \<in> reports_to ps ^^ k"
    by (simp add: org_closure_def)
  with chain_bound [OF assms, of a d k] show ?thesis by blast
qed

lemma closure_strict: "chart_ok ps \<Longrightarrow> (a, d, k) \<in> set (org_closure ps) \<Longrightarrow> 0 < k \<Longrightarrow> rank ps a < rank ps d"
  using chain_rank [of ps a d k] by (auto simp: org_closure_iff)

lemma closure_trans:
  assumes "chart_ok ps" "(a, b, k) \<in> set (org_closure ps)" "(b, d, j) \<in> set (org_closure ps)"
  shows "(a, d, k + j) \<in> set (org_closure ps)"
  using assms by (auto simp: org_closure_iff relpow_add)

text \<open>A stored chart is a tree as soon as it is not empty.\<close>

lemma parents_first_root:
  "parents_first {} ps \<Longrightarrow> ps \<noteq> [] \<Longrightarrow> pos_parent (hd ps) = None"
  by (cases ps) auto

lemma parents_first_reaches:
  assumes "parents_first known ps" "\<And>x. x \<in> known \<Longrightarrow> (apex, x) \<in> R\<^sup>*" "reports_to ps \<subseteq> R"
    and "\<And>r. r \<in> set ps \<Longrightarrow> pos_parent r = None \<Longrightarrow> pos_id r = apex" and "r \<in> set ps"
  shows "(apex, pos_id r) \<in> R\<^sup>*"
  using assms
proof (induction ps arbitrary: known)
  case (Cons q qs)
  have q: "(apex, pos_id q) \<in> R\<^sup>*"
  proof (cases "pos_parent q")
    case None
    with Cons.prems(4) show ?thesis by simp
  next
    case (Some p)
    then have "(p, pos_id q) \<in> R" using Cons.prems(3) by (auto simp: reports_to_def)
    moreover have "(apex, p) \<in> R\<^sup>*" using Cons.prems(1,2) Some by simp
    ultimately show ?thesis by (rule rtrancl_into_rtrancl [rotated])
  qed
  show ?case
  proof (cases "r = q")
    case False
    show ?thesis
    proof (rule Cons.IH)
      show "parents_first (insert (pos_id q) known) qs" using Cons.prems(1) by simp
      show "reports_to qs \<subseteq> R" using Cons.prems(3) by (auto simp: reports_to_def)
      show "r \<in> set qs" using Cons.prems(5) False by simp
    qed (use Cons.prems q in auto)
  qed (use q in simp)
qed simp

lemma chart_tree: "chart_ok ps \<Longrightarrow> ps \<noteq> [] \<Longrightarrow> rooted_tree ps (hd ps)"
proof -
  assume ok: "chart_ok ps" and ne: "ps \<noteq> []"
  then have root: "pos_parent (hd ps) = None" by (auto simp: chart_ok_def intro: parents_first_root)
  have uniq: "r = hd ps" if "r \<in> set ps" "pos_parent r = None" for r
    using ok root that ne by (auto simp: chart_ok_def)
  have "(pos_id (hd ps), pos_id r) \<in> (reports_to ps)\<^sup>*" if "r \<in> set ps" for r
    using parents_first_reaches [of "{}" ps "pos_id (hd ps)" "reports_to ps" r] ok uniq that
    by (auto simp: chart_ok_def)
  with ok ne root uniq show ?thesis by (auto simp: rooted_tree_def chart_ok_def)
qed

lemma chart_grants: "chart_ok ps \<Longrightarrow> grants_ok ps"
  by (auto simp: chart_ok_def grants_ok_def position_row_ok_def)

text \<open>The database stores exactly the charts in parents-first order with one root.\<close>

lemma insert_position_iff:
  assumes "distinct (map pos_id ps)"
  shows "insert_position r ps = Inr qs \<longleftrightarrow> qs = ps @ [r] \<and> position_row_ok r \<and> pos_id r \<notin> pos_id ` set ps
    \<and> (pos_parent r = None \<longrightarrow> (\<forall>q\<in>set ps. pos_parent q \<noteq> None))
    \<and> (\<forall>p. pos_parent r = Some p \<longrightarrow> p \<in> pos_id ` set ps)"
proof -
  have "set (lineage n ps i) \<subseteq> pos_id ` set ps" for n i
  proof (induction n arbitrary: i)
    case (Suc n)
    show ?case
    proof (cases "find_row pos_id i ps")
      case (Some r)
      with Suc.IH find_row_SomeD [OF Some] show ?thesis by (auto split: option.splits)
    qed simp
  qed simp
  then have "pos_id r \<notin> set (lineage n ps i)" if "pos_id r \<notin> pos_id ` set ps" for n i using that by blast
  then show ?thesis by (auto simp: insert_position_def list_ex_iff split: option.splits)
qed

lemma insert_positions_chart:
  "insert_positions rs ps = Inr qs \<Longrightarrow> chart_ok ps \<Longrightarrow> chart_ok qs \<and> qs = ps @ rs"
proof (induction rs arbitrary: ps)
  case (Cons r rs)
  from Cons.prems obtain ps' where r: "insert_position r ps = Inr ps'" and rest: "insert_positions rs ps' = Inr qs"
    by (auto split: sum.splits)
  have d: "distinct (map pos_id ps)" using Cons.prems(2) by (simp add: chart_ok_def)
  note step = r [unfolded insert_position_iff [OF d]]
  have "chart_ok (ps @ [r])"
    unfolding chart_ok_def
  proof (intro conjI)
    show "distinct (map pos_id (ps @ [r]))" "parents_first {} (ps @ [r])" "\<forall>q\<in>set (ps @ [r]). position_row_ok q"
      using Cons.prems(2) step by (simp_all add: chart_ok_def parents_first_append)
    show "\<forall>x\<in>set (ps @ [r]). \<forall>y\<in>set (ps @ [r]). pos_parent x = None \<longrightarrow> pos_parent y = None \<longrightarrow> x = y"
    proof (intro ballI impI)
      fix x y
      assume xy: "x \<in> set (ps @ [r])" "y \<in> set (ps @ [r])" "pos_parent x = None" "pos_parent y = None"
      show "x = y"
      proof (cases "pos_parent r = None")
        case True
        with step have "\<forall>q\<in>set ps. pos_parent q \<noteq> None" by blast
        with xy have "x = r" "y = r" by auto
        then show ?thesis by simp
      next
        case False
        with xy have "x \<in> set ps" "y \<in> set ps" by auto
        with Cons.prems(2) xy(3,4) show ?thesis unfolding chart_ok_def by blast
      qed
    qed
  qed
  moreover from step have eq: "ps' = ps @ [r]" by blast
  ultimately have "chart_ok qs \<and> qs = ps' @ rs" by (intro Cons.IH [OF rest]) simp
  with eq show ?case by auto
qed simp

lemma insert_positions_complete:
  "chart_ok (ps @ rs) \<Longrightarrow> insert_positions rs ps = Inr (ps @ rs)"
proof (induction rs arbitrary: ps)
  case (Cons r rs)
  have pf: "parents_first {} (xs @ ys) \<Longrightarrow> parents_first {} xs" for xs ys
    by (induction ys rule: rev_induct) (auto simp: parents_first_append simp flip: append_assoc)
  from Cons.prems have "parents_first {} ((ps @ [r]) @ rs)" by (simp add: chart_ok_def)
  from pf [OF this] have "\<forall>p. pos_parent r = Some p \<longrightarrow> p \<in> pos_id ` set ps" by (simp add: parents_first_append)
  moreover have "\<forall>q\<in>set ps. pos_parent q \<noteq> None" if "pos_parent r = None"
    using Cons.prems that by (auto simp: chart_ok_def)
  ultimately have "insert_position r ps = Inr (ps @ [r])"
    using Cons.prems by (subst insert_position_iff) (auto simp: chart_ok_def)
  with Cons.IH [of "ps @ [r]"] Cons.prems show ?case by simp
qed simp

section \<open>The invariant\<close>

definition identities_ok :: "uuid \<Rightarrow> identity list \<Rightarrow> bool" where
  "identities_ok n xs \<longleftrightarrow> distinct (map i_id xs) \<and> (\<forall>x\<in>set xs. i_id x < n)
     \<and> (\<forall>x\<in>set xs. \<forall>y\<in>set xs. i_issuer x = i_issuer y \<longrightarrow> i_subject x = i_subject y \<longrightarrow> x = y)"

text \<open>Members are known, sit on positions of the chart, alone while active, and in one tenant.\<close>

definition members_ok :: "identity list \<Rightarrow> position list \<Rightarrow> foreign_binding list \<Rightarrow> membership list \<Rightarrow> bool" where
  "members_ok xs ps fs ms \<longleftrightarrow> distinct (map m_identity ms)
     \<and> (\<forall>m\<in>set ms. m_identity m \<in> i_id ` set xs
          \<and> (case m_position m of None \<Rightarrow> True | Some p \<Rightarrow> p \<in> pos_id ` set ps)
          \<and> (m_state m = Seat_Active \<longrightarrow> m_position m \<noteq> None \<and> m_identity m \<notin> f_identity ` set fs))
     \<and> (\<forall>m\<in>set ms. \<forall>n\<in>set ms. m_state m = Seat_Active \<longrightarrow> m_state n = Seat_Active
          \<longrightarrow> m_position m = m_position n \<longrightarrow> m = n)"

definition architects_ok :: "identity list \<Rightarrow> foreign_binding list \<Rightarrow> (uuid \<times> bool) list \<Rightarrow> bool" where
  "architects_ok xs fs as \<longleftrightarrow> distinct (map fst as) \<and> fst ` set as \<subseteq> i_id ` set xs
     \<and> (\<forall>i. (i, True) \<in> set as \<longrightarrow> i \<notin> f_identity ` set fs)"

definition tenant_ok :: "tenant_row option \<Rightarrow> bool" where
  "tenant_ok t \<longleftrightarrow> (case t of None \<Rightarrow> True | Some r \<Rightarrow> 1 \<le> tn_version r \<and> tn_version r \<le> tn_epoch r)"

definition audit_ok :: "uuid \<Rightarrow> audit_row list \<Rightarrow> bool" where
  "audit_ok n rows \<longleftrightarrow> distinct (map au_id rows) \<and> (\<forall>r\<in>set rows. au_id r < n)"

definition org_inv :: "'a organisation_scheme \<Rightarrow> bool" where
  "org_inv g \<longleftrightarrow> identities_ok (o_next g) (o_identities g) \<and> chart_ok (o_positions g)
     \<and> members_ok (o_identities g) (o_positions g) (o_foreign g) (o_members g)
     \<and> architects_ok (o_identities g) (o_foreign g) (o_architects g)
     \<and> tenant_ok (o_tenant g) \<and> audit_ok (o_next g) (o_audit g)"

lemma identities_ok_mono: "identities_ok n xs \<Longrightarrow> n \<le> m \<Longrightarrow> identities_ok m xs"
  by (auto simp: identities_ok_def)

lemma audit_ok_mono: "audit_ok n rows \<Longrightarrow> n \<le> m \<Longrightarrow> audit_ok m rows"
  by (auto simp: audit_ok_def)

lemma identities_ok_snoc:
  assumes "identities_ok n xs" "\<not> (\<exists>y\<in>set xs. i_issuer y = i_issuer x \<and> i_subject y = i_subject x)" "i_id x = n"
  shows "identities_ok (Suc n) (xs @ [x])"
  using assms unfolding identities_ok_def by (auto simp: less_Suc_eq)

lemma members_ok_more_identities: "members_ok xs ps fs ms \<Longrightarrow> members_ok (xs @ ys) ps fs ms"
  by (auto simp: members_ok_def)

lemma architects_ok_more_identities: "architects_ok xs fs as \<Longrightarrow> architects_ok (xs @ ys) fs as"
  by (auto simp: architects_ok_def)

text \<open>\<open>intern_identity\<close> finds the identity or appends it; nothing else changes but the counter.\<close>

lemma intern_identity_cases:
  assumes "intern_identity issuer subject g = Inr (x, h)"
  obtains ys where "h = g\<lparr>o_next := Suc (o_next g), o_identities := o_identities g @ ys\<rparr>"
    "x \<in> set (o_identities g @ ys)" "i_issuer x = issuer" "i_subject x = subject"
    "identities_ok (o_next g) (o_identities g) \<Longrightarrow> identities_ok (Suc (o_next g)) (o_identities g @ ys)"
proof (cases "find (\<lambda>x. i_issuer x = issuer \<and> i_subject x = subject) (o_identities g)")
  case None
  let ?y = "\<lparr>i_id = o_next g, i_issuer = issuer, i_subject = subject, i_state = Seat_Active\<rparr>"
  from None assms have x: "x = ?y" and h: "h = g\<lparr>o_next := Suc (o_next g), o_identities := o_identities g @ [?y]\<rparr>"
    by (auto simp: intern_identity_def new_id_def Let_def split: if_splits)
  from None have no: "\<not> (\<exists>y\<in>set (o_identities g). i_issuer y = issuer \<and> i_subject y = subject)"
    by (auto simp: find_None_iff)
  show thesis
  proof (rule that [of "[?y]"])
    show "identities_ok (Suc (o_next g)) (o_identities g @ [?y])" if "identities_ok (o_next g) (o_identities g)"
      using that no by (intro identities_ok_snoc) auto
  qed (use x h in simp_all)
next
  case (Some y)
  then have y: "y \<in> set (o_identities g)" "i_issuer y = issuer" "i_subject y = subject"
    by (auto simp: find_Some_iff)
  from Some assms have x: "x = y" and h: "h = g\<lparr>o_next := Suc (o_next g)\<rparr>"
    by (auto simp: intern_identity_def new_id_def Let_def split: if_splits)
  show thesis
    by (rule that [of "[]"]) (use x h y in \<open>auto intro: identities_ok_mono\<close>)
qed

lemma insert_audit_Inr:
  assumes "insert_audit actor subject action reason granted request g = Inr (i, h)"
  shows "h = g\<lparr>o_next := Suc (o_next g), o_audit := o_audit g @
      [new_audit_row (o_next g) actor subject action reason granted request (o_clock g)]\<rparr>"
    "i = o_next g" "bound_here g actor"
  using assms by (auto simp: insert_audit_def new_id_def Let_def split: if_splits)

lemma insert_audit_inv:
  assumes "org_inv g" "insert_audit actor subject action reason granted request g = Inr (i, h)"
  shows "org_inv h"
  using assms(1) unfolding insert_audit_Inr(1) [OF assms(2)]
  by (auto simp: org_inv_def audit_ok_def less_Suc_eq new_audit_row_def intro: identities_ok_mono)

lemma member_rows_ok_snoc:
  assumes "members_ok xs ps fs ms" "m_identity m \<in> i_id ` set xs" "m_identity m \<notin> m_identity ` set ms"
    and "case m_position m of None \<Rightarrow> True | Some p \<Rightarrow> p \<in> pos_id ` set ps"
    and "m_state m = Seat_Active \<Longrightarrow> m_position m \<noteq> None \<and> m_identity m \<notin> f_identity ` set fs
      \<and> (\<forall>n\<in>set ms. m_state n = Seat_Active \<longrightarrow> m_position n \<noteq> m_position m)"
  shows "members_ok xs ps fs (ms @ [m])"
  using assms unfolding members_ok_def by auto

lemma bound_elsewhere_iff: "bound_elsewhere g i \<longleftrightarrow> i \<in> f_identity ` set (o_foreign g)"
  by (auto simp: bound_elsewhere_def list_ex_iff)

lemma member_row_okD:
  assumes "member_row_ok g others m"
  shows "case m_position m of None \<Rightarrow> True | Some p \<Rightarrow> p \<in> pos_id ` set (o_positions g)"
    "m_state m = Seat_Active \<Longrightarrow> m_position m \<noteq> None \<and> m_identity m \<notin> f_identity ` set (o_foreign g)
      \<and> (\<forall>n\<in>set others. m_state n = Seat_Active \<longrightarrow> m_position n \<noteq> m_position m)"
  using assms by (auto simp: member_row_ok_def bound_elsewhere_iff list_ex_iff)

lemma seat_member_inv:
  assumes "org_inv g" "seat_member s m g = Inr h"
  shows "org_inv h \<and> o_tenant h = o_tenant g \<and> o_positions h = o_positions g \<and> o_next g \<le> o_next h
    \<and> o_architects h = o_architects g \<and> o_audit h = o_audit g \<and> o_foreign h = o_foreign g \<and> o_clock h = o_clock g"
proof -
  obtain x g1 where x: "intern_identity (seat_issuer m) (seat_subject m) g = Inr (x, g1)"
      and row: "i_id x \<notin> m_identity ` set (o_members g1)" "member_row_ok g1 (o_members g1) (seat_row (i_id x) m)"
      and h: "h = g1\<lparr>o_members := o_members g1 @ [seat_row (i_id x) m]\<rparr>"
    using assms(2) by (auto simp: seat_member_def split: sum.splits if_splits)
  have id: "m_identity (seat_row (i_id x) m) = i_id x" by (simp add: seat_row_def)
  from x show ?thesis
  proof (cases rule: intern_identity_cases)
    case (1 ys)
    have "members_ok (o_identities g1) (o_positions g1) (o_foreign g1) (o_members g1 @ [seat_row (i_id x) m])"
    proof (rule member_rows_ok_snoc)
      show "members_ok (o_identities g1) (o_positions g1) (o_foreign g1) (o_members g1)"
        using assms(1) 1 by (simp add: org_inv_def members_ok_more_identities)
    qed (use 1 row id member_row_okD [OF row(2)] in auto)
    with assms(1) 1 show ?thesis
      by (auto simp: h org_inv_def intro: architects_ok_more_identities audit_ok_mono)
  qed
qed

lemma seat_members_inv:
  "org_inv g \<Longrightarrow> seat_members s ms g = Inr h \<Longrightarrow> org_inv h \<and> o_tenant h = o_tenant g
     \<and> o_positions h = o_positions g \<and> o_next g \<le> o_next h \<and> o_architects h = o_architects g
     \<and> o_audit h = o_audit g \<and> o_foreign h = o_foreign g \<and> o_clock h = o_clock g"
proof (induction ms arbitrary: g)
  case (Cons m ms)
  from Cons.prems(2) obtain g1 where 1: "seat_member s m g = Inr g1" "seat_members s ms g1 = Inr h"
    by (auto split: sum.splits)
  from seat_member_inv [OF Cons.prems(1) 1(1)] Cons.IH [OF _ 1(2)] show ?case by auto
qed simp

lemma chart_ok_Nil [simp]: "chart_ok []"
  by (simp add: chart_ok_def)

lemma replace_org_topology_cases:
  assumes "replace_org_topology retained s version name positions members actor request g = Inr (r, h)"
  obtains t g1 i where "o_tenant g = Some t" "tn_version t = version"
    "\<forall>m\<in>set (o_members g). m_identity m \<notin> set retained"
    "insert_positions positions [] = Inr positions" "chart_ok positions"
    "seat_members s members (g\<lparr>o_members := [], o_positions := positions\<rparr>) = Inr g1"
    "insert_audit actor None Act_Topology_Change System_Operation True request (g1\<lparr>o_tenant := Some (bump_tenant (Some name) t)\<rparr>) = Inr (i, h)"
    "r = (version + 1, tn_epoch t + 1)"
proof -
  from assms obtain t where t: "o_tenant g = Some t" by (auto simp: replace_org_topology_def split: option.splits)
  note e = assms [unfolded replace_org_topology_def t, simplified]
  then have 1: "tn_version t = version" "\<forall>m\<in>set (o_members g). m_identity m \<notin> set retained"
    by (auto simp: list_ex_iff split: if_splits)
  from e obtain ps where ps: "insert_positions positions [] = Inr ps" by (auto split: if_splits sum.splits)
  with insert_positions_chart [OF ps] have 2: "ps = positions" "chart_ok positions" by auto
  from e obtain g1 where 3: "seat_members s members (g\<lparr>o_members := [], o_positions := positions\<rparr>) = Inr g1"
    by (auto simp: ps 2 split: if_splits sum.splits)
  from e obtain i where "insert_audit actor None Act_Topology_Change System_Operation True request
      (g1\<lparr>o_tenant := Some (bump_tenant (Some name) t)\<rparr>) = Inr (i, h)" "r = (version + 1, tn_epoch t + 1)"
    by (auto simp: ps 2 3 1 Let_def bump_tenant_def split: if_splits sum.splits)
  with t 1 ps 2 3 that show thesis by simp
qed

lemma replace_org_topology_inv:
  assumes "org_inv g" "replace_org_topology retained s version name positions members actor request g = Inr (r, h)"
  shows "org_inv h"
  using assms(2)
proof (cases rule: replace_org_topology_cases)
  case (1 t g1 i)
  have "org_inv (g\<lparr>o_members := [], o_positions := positions\<rparr>)"
    using assms(1) 1 by (simp add: org_inv_def members_ok_def)
  from seat_members_inv [OF this 1(6)] have g1: "org_inv g1" by simp
  have "tenant_ok (Some (bump_tenant (Some name) t))"
    using assms(1) 1 by (simp add: org_inv_def tenant_ok_def bump_tenant_def)
  with g1 have "org_inv (g1\<lparr>o_tenant := Some (bump_tenant (Some name) t)\<rparr>)" by (simp add: org_inv_def)
  from insert_audit_inv [OF this 1(7)] show ?thesis .
qed

lemma update_row_cases:
  assumes "update_row state role position target g = Inr m'"
  obtains m where "get_member g target = Some m" "m_identity m' = m_identity m" "m' \<noteq> m"
    "coerce_org_transition (m_state m) (m_state m')"
    "member_row_ok g (filter (\<lambda>n. m_identity n \<noteq> target) (o_members g)) m'"
  using assms by (auto simp: update_row_def Let_def split: option.splits if_splits)

lemma update_org_member_cases:
  assumes "update_org_member s actor target version epoch state role position request g = Inr (r, h)"
  obtains t m i where "o_tenant g = Some t" "tn_version t = version" "tn_epoch t = epoch" "org_architect g s actor"
    "se_bindings s" "\<not> bound_elsewhere g target" "update_row state role position target g = Inr m"
    "insert_audit actor (Some target) Act_Membership_Change System_Operation True request
       (g\<lparr>o_members := update_rows (\<lambda>n. m_identity n = target) (\<lambda>n. m) (o_members g),
          o_tenant := Some (bump_tenant None t)\<rparr>) = Inr (i, h)"
    "r = (m, version + 1, epoch + 1)"
  using assms by (auto simp: update_org_member_def Let_def bump_tenant_def split: if_splits option.splits sum.splits)

lemma members_ok_update:
  assumes "members_ok xs ps fs ms" "find_row m_identity target ms = Some m" "m_identity m' = target"
    and "case m_position m' of None \<Rightarrow> True | Some p \<Rightarrow> p \<in> pos_id ` set ps"
    and "m_state m' = Seat_Active \<Longrightarrow> m_position m' \<noteq> None \<and> m_identity m' \<notin> f_identity ` set fs
      \<and> (\<forall>n\<in>set (filter (\<lambda>n. m_identity n \<noteq> target) ms). m_state n = Seat_Active \<longrightarrow> m_position n \<noteq> m_position m')"
  shows "members_ok xs ps fs (update_rows (\<lambda>n. m_identity n = target) (\<lambda>n. m') ms)"
proof -
  let ?ms = "update_rows (\<lambda>n. m_identity n = target) (\<lambda>n. m') ms"
  have ids: "map m_identity ?ms = map m_identity ms"
    using assms(3) by (induction ms) auto
  have new: "n = m' \<or> n \<in> set ms \<and> m_identity n \<noteq> target" if "n \<in> set ?ms" for n
    using that by (auto simp: set_update_rows split: if_splits)
  have "m_identity m' \<in> i_id ` set xs"
    using assms(1,3) find_row_SomeD [OF assms(2)] unfolding members_ok_def by metis
  then have rows: "m_identity n \<in> i_id ` set xs \<and> (case m_position n of None \<Rightarrow> True | Some p \<Rightarrow> p \<in> pos_id ` set ps)
      \<and> (m_state n = Seat_Active \<longrightarrow> m_position n \<noteq> None \<and> m_identity n \<notin> f_identity ` set fs)" if "n \<in> set ?ms" for n
    using new [OF that] assms(1,4,5) unfolding members_ok_def by blast
  have alone: "n = k" if "n \<in> set ?ms" "k \<in> set ?ms" "m_state n = Seat_Active" "m_state k = Seat_Active"
    "m_position n = m_position k" for n k
    using new [OF that(1)] new [OF that(2)] that(3-5) assms(1,5) unfolding members_ok_def by force
  from assms(1) ids have "distinct (map m_identity ?ms)" by (simp add: members_ok_def)
  with rows alone show ?thesis unfolding members_ok_def by blast
qed

lemma update_org_member_inv:
  assumes "org_inv g" "update_org_member s actor target version epoch state role position request g = Inr (r, h)"
  shows "org_inv h"
  using assms(2)
proof (cases rule: update_org_member_cases)
  case (1 t m' i)
  from 1(7) show ?thesis
  proof (cases rule: update_row_cases)
    case (1 m)
    note D = member_row_okD [OF 1(5)]
    from 1(1) have row: "find_row m_identity target (o_members g) = Some m" by (simp add: get_member_def)
    with 1(2) find_row_SomeD [OF row] have m: "find_row m_identity target (o_members g) = Some m" "m_identity m' = target"
      by simp_all
    have "members_ok (o_identities g) (o_positions g) (o_foreign g)
        (update_rows (\<lambda>n. m_identity n = target) (\<lambda>n. m') (o_members g))"
      by (rule members_ok_update [OF _ m D]) (use assms(1) in \<open>simp_all add: org_inv_def\<close>)
    moreover have "tenant_ok (Some (bump_tenant None t))"
      using assms(1) \<open>o_tenant g = Some t\<close> by (simp add: org_inv_def tenant_ok_def bump_tenant_def)
    ultimately have "org_inv (g\<lparr>o_members := update_rows (\<lambda>n. m_identity n = target) (\<lambda>n. m') (o_members g),
          o_tenant := Some (bump_tenant None t)\<rparr>)"
      using assms(1) by (simp add: org_inv_def)
    from insert_audit_inv [OF this \<open>insert_audit _ _ _ _ _ _ _ = _\<close>] show ?thesis .
  qed
qed

lemma set_architect_ok:
  assumes "architects_ok xs fs (o_architects g)" "i \<in> i_id ` set xs" "i \<notin> f_identity ` set fs"
  shows "architects_ok xs fs (o_architects (set_architect i g))"
proof -
  let ?f = "\<lambda>a :: uuid \<times> bool. if fst a = i then (i, True) else a"
  have same: "map fst (map ?f zs) = map fst zs" for zs by (induction zs) auto
  have sub: "x \<in> set zs \<or> x = (i, True)" if "x \<in> set (map ?f zs)" for x zs using that by auto
  have as: "o_architects (set_architect i g) = (if i \<in> fst ` set (o_architects g)
      then map ?f (o_architects g) else o_architects g @ [(i, True)])" by (simp add: set_architect_def)
  show ?thesis
  proof (cases "i \<in> fst ` set (o_architects g)")
    case True
    show ?thesis
      unfolding as if_P [OF True] architects_ok_def
    proof (intro conjI allI impI)
      show "distinct (map fst (map ?f (o_architects g)))"
        unfolding same using assms(1) by (simp add: architects_ok_def)
      have "fst ` set (map ?f (o_architects g)) = fst ` set (o_architects g)"
        using same [of "o_architects g"] by (metis list.set_map)
      then show "fst ` set (map ?f (o_architects g)) \<subseteq> i_id ` set xs"
        using assms(1) by (simp only: architects_ok_def)
    next
      fix j
      assume "(j, True) \<in> set (map ?f (o_architects g))"
      from sub [OF this] show "j \<notin> f_identity ` set fs"
        using assms(1,3) by (auto simp: architects_ok_def)
    qed
  next
    case False
    with assms show ?thesis unfolding as by (auto simp: architects_ok_def)
  qed
qed

lemma bootstrap_org_tenant_inv:
  assumes "org_inv g" "bootstrap_org_tenant s name issuer subject g = Inr (i, h)"
  shows "org_inv h"
proof -
  obtain t g2 x where t: "t = (case o_tenant g of None \<Rightarrow> \<lparr>tn_name = name, tn_version = 1, tn_epoch = 1\<rparr> | Some t \<Rightarrow> t)"
      and x: "intern_identity issuer subject (g\<lparr>o_tenant := Some t\<rparr>) = Inr (x, g2)"
      and free: "\<not> bound_elsewhere g2 (i_id x)" and h: "h = set_architect (i_id x) g2"
    using assms(2) by (auto simp: bootstrap_org_tenant_def Let_def split: if_splits sum.splits)
  have t': "tenant_ok (Some t)" using assms(1) by (auto simp: t org_inv_def tenant_ok_def split: option.splits)
  from x show ?thesis
  proof (cases rule: intern_identity_cases)
    case (1 ys)
    have as: "architects_ok (o_identities g @ ys) (o_foreign g) (o_architects g)"
      using assms(1) by (simp add: org_inv_def architects_ok_more_identities)
    have "architects_ok (o_identities g @ ys) (o_foreign g) (o_architects (set_architect (i_id x) g2))"
      by (rule set_architect_ok) (use as 1 free in \<open>auto simp: bound_elsewhere_iff\<close>)
    with assms(1) t' 1 show ?thesis
      by (auto simp: h org_inv_def set_architect_def intro: members_ok_more_identities audit_ok_mono)
  qed
qed

section \<open>The machine\<close>

text \<open>
  \<open>Fence\<close> stands for the retention changes that move the policy epoch, \<open>Elsewhere\<close> for what other
  tenants do with identities that are not bound here, \<open>Later\<close> for the passing of time, \<open>Issue\<close> for
  an identifier that another component draws.
\<close>

datatype org_event =
    Found session pystr pystr pystr
  | Replace "uuid list" session int pystr "position list" "seat list" uuid pystr
  | Change session uuid uuid int int "seat_state option" "app_role option" "uuid option" pystr
  | Decide uuid "uuid option" audit_action audit_reason bool pystr
  | Fence
  | Elsewhere "foreign_binding list"
  | Later time
  | Issue

fun org_call :: "org_event \<Rightarrow> organisation \<Rightarrow> organisation" where
  "org_call (Found s name issuer subject) g = after (bootstrap_org_tenant s name issuer subject g) g"
| "org_call (Replace retained s version name positions members actor request) g =
     after (replace_org_topology retained s version name positions members actor request g) g"
| "org_call (Change s actor target version epoch state role position request) g =
     after (update_org_member s actor target version epoch state role position request g) g"
| "org_call (Decide actor subject action reason granted request) g =
     after (record_org_decision actor subject action reason granted request g) g"
| "org_call Fence g = g\<lparr>o_tenant := map_option (\<lambda>t. t\<lparr>tn_epoch := tn_epoch t + 1\<rparr>) (o_tenant g)\<rparr>"
| "org_call (Elsewhere fs) g = g\<lparr>o_foreign := fs\<rparr>"
| "org_call (Later d) g = g\<lparr>o_clock := o_clock g + d\<rparr>"
| "org_call Issue g = snd (new_id g)"

fun org_permitted :: "org_event \<Rightarrow> organisation \<Rightarrow> bool" where
  "org_permitted (Elsewhere fs) g = list_all (\<lambda>f. \<not> bound_here g (f_identity f)) fs"
| "org_permitted (Later d) g = (0 \<le> d)"
| "org_permitted ev g = True"

definition org_step :: "organisation \<Rightarrow> organisation \<Rightarrow> bool" where
  "org_step g h = (\<exists>ev. org_permitted ev g \<and> h = org_call ev g)"

definition empty_organisation :: "uuid \<Rightarrow> organisation" where
  "empty_organisation i = \<lparr>o_id = i, o_tenant = None, o_identities = [], o_positions = [], o_members = [],
     o_architects = [], o_foreign = [], o_audit = [], o_next = Suc i, o_clock = 0\<rparr>"

definition org_init :: "organisation \<Rightarrow> bool" where
  "org_init g = (\<exists>i. g = empty_organisation i)"

fun run_org :: "org_event list \<Rightarrow> organisation \<Rightarrow> organisation option" where
  "run_org [] g = Some g"
| "run_org (ev # evs) g = (if org_permitted ev g then run_org evs (org_call ev g) else None)"

lemma run_org_steps: "run_org evs g = Some h \<Longrightarrow> org_step\<^sup>*\<^sup>* g h"
proof (induction evs arbitrary: g)
  case (Cons ev evs)
  then have "org_step g (org_call ev g)" "org_step\<^sup>*\<^sup>* (org_call ev g) h"
    by (auto simp: org_step_def [abs_def] split: if_splits)
  then show ?case by (rule converse_rtranclp_into_rtranclp)
qed simp

lemma org_call_inv:
  assumes "org_inv g" "org_permitted ev g"
  shows "org_inv (org_call ev g)"
proof (cases ev)
  case (Found s name issuer subject)
  show ?thesis unfolding Found org_call.simps
    by (rule after_keep [where P = org_inv]) (use assms(1) bootstrap_org_tenant_inv in blast)+
next
  case (Replace retained s version name positions members actor request)
  show ?thesis unfolding Replace org_call.simps
    by (rule after_keep [where P = org_inv]) (use assms(1) replace_org_topology_inv in blast)+
next
  case (Change s actor target version epoch state role position request)
  show ?thesis unfolding Change org_call.simps
    by (rule after_keep [where P = org_inv]) (use assms(1) update_org_member_inv in blast)+
next
  case (Decide actor subject action reason granted request)
  show ?thesis unfolding Decide org_call.simps record_org_decision_def
    by (rule after_keep [where P = org_inv]) (use assms(1) insert_audit_inv in blast)+
next
  case Fence
  with assms(1) show ?thesis by (auto simp: org_inv_def tenant_ok_def split: option.splits)
next
  case (Elsewhere fs)
  with assms(2) have free: "\<not> bound_here g i" if "i \<in> f_identity ` set fs" for i
    using that by (auto simp: list_all_iff)
  have "members_ok (o_identities g) (o_positions g) fs (o_members g)"
    using assms(1) free unfolding org_inv_def members_ok_def bound_here_def active_member_def list_ex_iff by blast
  moreover have "architects_ok (o_identities g) fs (o_architects g)"
    using assms(1) free unfolding org_inv_def architects_ok_def bound_here_def by blast
  ultimately show ?thesis using assms(1) Elsewhere by (simp add: org_inv_def)
next
  case (Later d)
  with assms(1) show ?thesis by (simp add: org_inv_def)
next
  case Issue
  with assms(1) show ?thesis
    by (auto simp: org_inv_def new_id_def intro: identities_ok_mono audit_ok_mono)
qed

interpretation organisations: invariant_machine org_init org_step org_inv
proof
  show "org_init g \<Longrightarrow> org_inv g" for g
    by (auto simp: org_init_def empty_organisation_def org_inv_def identities_ok_def members_ok_def
        architects_ok_def tenant_ok_def audit_ok_def)
  show "org_inv g \<Longrightarrow> org_step g h \<Longrightarrow> org_inv h" for g h
    by (auto simp: org_step_def org_call_inv)
qed

section \<open>What the version stands for\<close>

text \<open>
  The log only grows; the version and the epoch never fall, and while the version stands the
  chart and its members are the same.
\<close>

definition org_grows :: "organisation \<Rightarrow> organisation \<Rightarrow> bool" where
  "org_grows g h \<longleftrightarrow> (\<exists>new. o_audit h = o_audit g @ new) \<and> (\<exists>new. o_identities h = o_identities g @ new)
     \<and> (\<forall>t. o_tenant g = Some t \<longrightarrow> (\<exists>t'. o_tenant h = Some t' \<and> tn_version t \<le> tn_version t'
          \<and> tn_epoch t \<le> tn_epoch t'
          \<and> (tn_version t' = tn_version t \<longrightarrow> o_positions h = o_positions g \<and> o_members h = o_members g)))"

lemma org_grows_refl: "org_grows g g"
  by (simp add: org_grows_def)

lemma org_grows_trans:
  assumes "org_grows g h" "org_grows h k"
  shows "org_grows g k"
proof -
  have "\<exists>new. o_audit k = o_audit g @ new" "\<exists>new. o_identities k = o_identities g @ new"
    using assms unfolding org_grows_def by (metis append_assoc)+
  moreover have "\<exists>t''. o_tenant k = Some t'' \<and> tn_version t \<le> tn_version t'' \<and> tn_epoch t \<le> tn_epoch t''
      \<and> (tn_version t'' = tn_version t \<longrightarrow> o_positions k = o_positions g \<and> o_members k = o_members g)"
    if "o_tenant g = Some t" for t
  proof -
    from assms(1) that obtain t' where t': "o_tenant h = Some t'" "tn_version t \<le> tn_version t'" "tn_epoch t \<le> tn_epoch t'"
        "tn_version t' = tn_version t \<Longrightarrow> o_positions h = o_positions g \<and> o_members h = o_members g"
      unfolding org_grows_def by blast
    from assms(2) t'(1) obtain t'' where t'': "o_tenant k = Some t''" "tn_version t' \<le> tn_version t''" "tn_epoch t' \<le> tn_epoch t''"
        "tn_version t'' = tn_version t' \<Longrightarrow> o_positions k = o_positions h \<and> o_members k = o_members h"
      unfolding org_grows_def by blast
    have "o_positions k = o_positions g \<and> o_members k = o_members g" if "tn_version t'' = tn_version t"
      using t' t'' that by simp
    with t' t'' show ?thesis by (intro exI [of _ t'']) auto
  qed
  ultimately show ?thesis unfolding org_grows_def by blast
qed

lemma seat_members_identities:
  "seat_members s ms g = Inr h \<Longrightarrow> \<exists>new. o_identities h = o_identities g @ new"
proof (induction ms arbitrary: g)
  case (Cons m ms)
  then obtain g1 where 1: "seat_member s m g = Inr g1" "seat_members s ms g1 = Inr h" by (auto split: sum.splits)
  from 1(1) obtain x g0 where x: "intern_identity (seat_issuer m) (seat_subject m) g = Inr (x, g0)"
      and g1: "o_identities g1 = o_identities g0"
    by (auto simp: seat_member_def split: sum.splits if_splits)
  from x obtain new where "o_identities g0 = o_identities g @ new"
    by (cases rule: intern_identity_cases) simp
  with g1 Cons.IH [OF 1(2)] show ?case by auto
qed simp

lemma replace_grows:
  assumes "org_inv g" "replace_org_topology retained s version name positions members actor request g = Inr (r, h)"
  shows "org_grows g h \<and> (\<exists>t t'. o_tenant g = Some t \<and> tn_version t = version \<and> o_tenant h = Some t'
    \<and> tn_version t' = version + 1 \<and> tn_epoch t' = tn_epoch t + 1 \<and> r = (tn_version t', tn_epoch t'))"
  using assms(2)
proof (cases rule: replace_org_topology_cases)
  case (1 t g1 i)
  have "org_inv (g\<lparr>o_members := [], o_positions := positions\<rparr>)"
    using assms(1) 1 by (simp add: org_inv_def members_ok_def)
  from seat_members_inv [OF this 1(6)] seat_members_identities [OF 1(6)]
  have "o_audit g1 = o_audit g" "\<exists>new. o_identities g1 = o_identities g @ new" by simp_all
  with 1 insert_audit_Inr(1) [OF 1(7)] show ?thesis
    by (auto simp: org_grows_def bump_tenant_def)
qed

lemma update_grows:
  assumes "update_org_member s actor target version epoch state role position request g = Inr (r, h)"
  shows "org_grows g h \<and> (\<exists>t t'. o_tenant g = Some t \<and> tn_version t = version \<and> o_tenant h = Some t'
    \<and> tn_version t' = version + 1 \<and> tn_epoch t' = tn_epoch t + 1 \<and> snd r = (tn_version t', tn_epoch t'))"
  using assms
proof (cases rule: update_org_member_cases)
  case (1 t m i)
  with insert_audit_Inr(1) [OF 1(8)] show ?thesis by (auto simp: org_grows_def bump_tenant_def)
qed

lemma bootstrap_grows:
  assumes "bootstrap_org_tenant s name issuer subject g = Inr (i, h)"
  shows "org_grows g h"
proof -
  obtain t g2 x where t: "t = (case o_tenant g of None \<Rightarrow> \<lparr>tn_name = name, tn_version = 1, tn_epoch = 1\<rparr> | Some t \<Rightarrow> t)"
      and x: "intern_identity issuer subject (g\<lparr>o_tenant := Some t\<rparr>) = Inr (x, g2)"
      and h: "h = set_architect (i_id x) g2"
    using assms by (auto simp: bootstrap_org_tenant_def Let_def split: if_splits sum.splits)
  from x show ?thesis
    by (cases rule: intern_identity_cases) (auto simp: h t org_grows_def set_architect_def)
qed

lemma audit_grows: "insert_audit actor subject action reason granted request g = Inr (i, h) \<Longrightarrow> org_grows g h"
  by (auto simp: org_grows_def dest!: insert_audit_Inr(1))

lemma org_call_grows:
  assumes "org_inv g" "org_permitted ev g"
  shows "org_grows g (org_call ev g)"
proof (cases ev)
  case (Found s name issuer subject)
  show ?thesis unfolding Found org_call.simps
    by (rule after_keep [where P = "org_grows g"]) (use org_grows_refl bootstrap_grows in blast)+
next
  case (Replace retained s version name positions members actor request)
  show ?thesis unfolding Replace org_call.simps
    by (rule after_keep [where P = "org_grows g"]) (use assms(1) org_grows_refl replace_grows in blast)+
next
  case (Change s actor target version epoch state role position request)
  show ?thesis unfolding Change org_call.simps
    by (rule after_keep [where P = "org_grows g"]) (use org_grows_refl update_grows in blast)+
next
  case (Decide actor subject action reason granted request)
  show ?thesis unfolding Decide org_call.simps record_org_decision_def
    by (rule after_keep [where P = "org_grows g"]) (use org_grows_refl audit_grows in blast)+
qed (auto simp: org_grows_def new_id_def)

interpretation org_ledgers: stable_fact org_init org_step org_inv org_grows
proof
  fix g h x
  assume "org_inv g" "org_step g h" "org_grows x g"
  then show "org_grows x h" by (auto simp: org_step_def intro: org_grows_trans org_call_grows)
qed

lemma steps_grow: "org_step\<^sup>*\<^sup>* g h \<Longrightarrow> org_inv g \<Longrightarrow> org_grows g h"
  by (rule org_ledgers.fact_steps [OF _ _ org_grows_refl])

text \<open>Only a replacement of the chart removes or adds a member.\<close>

lemma update_member_ids:
  assumes "update_org_member s actor target version epoch state role position request g = Inr (r, h)"
  shows "map m_identity (o_members h) = map m_identity (o_members g)"
  using assms
proof (cases rule: update_org_member_cases)
  case (1 t m i)
  from 1(7) obtain m0 where "get_member g target = Some m0" "m_identity m = m_identity m0"
    by (cases rule: update_row_cases)
  with find_row_SomeD [of m_identity target "o_members g" m0] have "m_identity m = target"
    by (simp add: get_member_def)
  then have "map m_identity (update_rows (\<lambda>n. m_identity n = target) (\<lambda>n. m) ms) = map m_identity ms" for ms
    by (induction ms) auto
  with insert_audit_Inr(1) [OF 1(8)] show ?thesis by simp
qed

lemma org_call_members:
  assumes "\<And>retained s version name positions members actor request.
      ev \<noteq> Replace retained s version name positions members actor request"
  shows "map m_identity (o_members (org_call ev g)) = map m_identity (o_members g)"
proof (cases ev)
  case (Found s name issuer subject)
  have "map m_identity (o_members h) = map m_identity (o_members g)"
    if found: "bootstrap_org_tenant s name issuer subject g = Inr (i, h)" for i h
  proof -
    obtain t g2 x where x: "intern_identity issuer subject (g\<lparr>o_tenant := Some t\<rparr>) = Inr (x, g2)"
        and h: "h = set_architect (i_id x) g2"
      using found by (auto simp: bootstrap_org_tenant_def Let_def split: if_splits sum.splits)
    from x show ?thesis by (cases rule: intern_identity_cases) (simp add: h set_architect_def)
  qed
  with Found show ?thesis by (auto simp: after_def split: sum.splits)
next
  case (Change s actor target version epoch state role position request)
  then show ?thesis using update_member_ids by (auto simp: after_def split: sum.splits)
next
  case (Decide actor subject action reason granted request)
  then show ?thesis
    by (auto simp: after_def record_org_decision_def split: sum.splits dest!: insert_audit_Inr(1))
qed (use assms in \<open>auto simp: new_id_def\<close>)

section \<open>Who sees whom\<close>

lemma org_invD:
  assumes "org_inv g"
  shows "chart_ok (o_positions g)" "members_ok (o_identities g) (o_positions g) (o_foreign g) (o_members g)"
    "distinct (map m_identity (o_members g))" "distinct (map pos_id (o_positions g))"
  using assms by (auto simp: org_inv_def members_ok_def chart_ok_def)

text \<open>\<open>sits g v a\<close>: the active member \<open>v\<close> is on position \<open>a\<close>.\<close>

definition sits :: "'a organisation_scheme \<Rightarrow> uuid \<Rightarrow> uuid \<Rightarrow> bool" where
  "sits g v a \<longleftrightarrow> (\<exists>m\<in>set (o_members g). m_identity m = v \<and> m_state m = Seat_Active \<and> m_position m = Some a)"

definition oversees :: "'a organisation_scheme \<Rightarrow> uuid \<Rightarrow> bool" where
  "oversees g a \<longleftrightarrow> (case get_position g a of None \<Rightarrow> False | Some r \<Rightarrow> pos_monitors r)"

definition exposed :: "'a organisation_scheme \<Rightarrow> uuid \<Rightarrow> bool" where
  "exposed g a \<longleftrightarrow> (case get_position g a of None \<Rightarrow> False | Some r \<Rightarrow> \<not> pos_protected r)"

lemma can_monitor_iff:
  "can_monitor g v t \<longleftrightarrow> (\<exists>a d k. sits g v a \<and> sits g t d \<and> (a, d, k) \<in> set (org_closure (o_positions g))
     \<and> 0 < k \<and> oversees g a \<and> exposed g d)"
  by (auto simp: can_monitor_def list_ex_iff sits_def oversees_def exposed_def) blast+

lemma sits_unique: "org_inv g \<Longrightarrow> sits g v a \<Longrightarrow> sits g v b \<Longrightarrow> a = b"
  using distinct_keyD [OF org_invD(3)] unfolding sits_def by (metis option.inject)

lemma sits_alone: "org_inv g \<Longrightarrow> sits g v a \<Longrightarrow> sits g w a \<Longrightarrow> v = w"
  using org_invD(2) unfolding sits_def members_ok_def by metis

lemma can_monitor_rank:
  assumes "org_inv g" "can_monitor g v t" "sits g v a" "sits g t d"
  shows "rank (o_positions g) a < rank (o_positions g) d"
  using assms sits_unique [OF assms(1)] closure_strict [OF org_invD(1) [OF assms(1)]]
  unfolding can_monitor_iff by metis

lemma can_monitor_asym: "org_inv g \<Longrightarrow> can_monitor g v t \<Longrightarrow> \<not> can_monitor g t v"
  using can_monitor_rank unfolding can_monitor_iff by (metis less_asym)

lemma can_monitor_trans:
  assumes "org_inv g" "can_monitor g v t" "can_monitor g t w"
  shows "can_monitor g v w"
proof -
  from assms(2,3) obtain a b b' d k j where *: "sits g v a" "sits g t b" "sits g t b'" "sits g w d"
      "(a, b, k) \<in> set (org_closure (o_positions g))" "(b', d, j) \<in> set (org_closure (o_positions g))"
      "0 < k" "oversees g a" "exposed g d"
    unfolding can_monitor_iff by blast
  with sits_unique [OF assms(1)] have "b' = b" by blast
  with * closure_trans [OF org_invD(1) [OF assms(1)]] have "(a, d, k + j) \<in> set (org_closure (o_positions g))" by blast
  with * show ?thesis unfolding can_monitor_iff by (metis add_gr_0)
qed

lemma apex_hidden:
  assumes "org_inv g" "sits g t d" "get_position g d = Some r" "pos_parent r = None"
  shows "\<not> can_monitor g v t"
proof
  assume "can_monitor g v t"
  with assms(1,2) have "exposed g d" using sits_unique unfolding can_monitor_iff by blast
  moreover have "pos_protected r"
    using org_invD(1) [OF assms(1)] find_row_SomeD [of pos_id d "o_positions g" r] assms(3,4)
    by (auto simp: get_position_def chart_ok_def position_row_ok_def)
  ultimately show False using assms(3) by (simp add: exposed_def)
qed

lemma visible_iff:
  assumes "org_inv g"
  shows "t \<in> m_identity ` fst ` set (visible_org_members collate g v) \<longleftrightarrow> can_monitor g v t"
proof (cases "find (\<lambda>m. m_identity m = v \<and> m_state m = Seat_Active) (o_members g)")
  case None
  then have "\<not> sits g v a" for a by (auto simp: find_None_iff sits_def)
  with None show ?thesis by (simp add: visible_org_members_def can_monitor_iff)
next
  case (Some m)
  then have m: "m \<in> set (o_members g)" "m_identity m = v" "m_state m = Seat_Active"
    by (auto simp: find_Some_iff)
  with org_invD(2) [OF assms] obtain a where a: "m_position m = Some a" "a \<in> pos_id ` set (o_positions g)"
    unfolding members_ok_def by (metis not_Some_eq option.simps(5))
  then obtain r where r: "get_position g a = Some r"
    using find_row_None_iff [of pos_id a "o_positions g"] by (cases "get_position g a") (auto simp: get_position_def)
  then have rid: "pos_id r = a" using find_row_SomeD [of pos_id a "o_positions g" r] by (simp add: get_position_def)
  have sits: "sits g v b \<longleftrightarrow> b = a" for b
    using sits_unique [OF assms] m a unfolding sits_def by blast
  have "t \<in> m_identity ` fst ` set (monitored g r) \<longleftrightarrow>
      (\<exists>d k. sits g t d \<and> (a, d, k) \<in> set (org_closure (o_positions g)) \<and> 0 < k \<and> exposed g d)"
    by (force simp: monitored_def rid sits_def exposed_def split: if_splits)
  moreover have "m_identity ` fst ` (\<lambda>(m, k). (m, h m k)) ` X = m_identity ` fst ` X" for h :: "membership \<Rightarrow> nat \<Rightarrow> nat" and X
    by force
  ultimately show ?thesis
    using Some a r by (auto simp: visible_org_members_def can_monitor_iff sits oversees_def)
qed

end
