(* ===== verification/Organisation_Properties.thy ===== *)
theory Organisation_Properties
  imports Organisation_Machine
begin

text \<open>
  The properties of the organisation and the small tenant their witnesses use: an architect
  founds it, draws a chart of three positions and seats three people.
\<close>

section \<open>A small tenant\<close>

definition service :: session where
  "service = \<lparr>se_actor = None, se_service = True, se_bindings = False\<rparr>"

definition desk :: session where
  "desk = \<lparr>se_actor = Some 1, se_service = False, se_bindings = False\<rparr>"

definition small_chart :: "position list" where
  "small_chart =
     [\<lparr>pos_id = 12, pos_parent = Some 11, pos_title = u ''Desk'', pos_kind = Kind_Member, pos_monitors = False, pos_protected = False\<rparr>,
      \<lparr>pos_id = 10, pos_parent = None, pos_title = u ''Chair'', pos_kind = Kind_Root, pos_monitors = True, pos_protected = True\<rparr>,
      \<lparr>pos_id = 11, pos_parent = Some 10, pos_title = u ''Lead'', pos_kind = Kind_Manager, pos_monitors = True, pos_protected = False\<rparr>]"

definition ordered_chart :: "position list" where
  "ordered_chart = [small_chart ! 1, small_chart ! 2, small_chart ! 0]"

definition small_seats :: "seat list" where
  "small_seats = map (\<lambda>(s, p, role). \<lparr>seat_issuer = u ''oidc'', seat_subject = s, seat_position = p,
     seat_label = s, seat_role = role, seat_state = Seat_Active\<rparr>)
     [(u ''ada'', 10, Admin), (u ''bob'', 11, Editor), (u ''eve'', 12, Reader)]"

definition drawing :: "org_event list" where
  "drawing = [Found service (u ''acme'') (u ''oidc'') (u ''architect''),
     Replace [] desk 1 (u ''acme'') ordered_chart small_seats 1 (u ''request-1'')]"

definition founded :: organisation where
  "founded = org_call (drawing ! 0) (empty_organisation 0)"

definition seated :: organisation where
  "seated = org_call (drawing ! 1) founded"

lemma small_chart_validates: "ordered_topology small_chart small_seats = Inr (ordered_chart, small_seats)"
  by code_simp

lemma drawing_runs: "run_org drawing (empty_organisation 0) = Some seated"
  by (simp add: drawing_def founded_def seated_def)

lemma seated_reached: "reach org_init org_step seated"
proof (rule organisations.reach_steps)
  show "org_step\<^sup>*\<^sup>* (empty_organisation 0) seated" by (rule run_org_steps [OF drawing_runs])
  show "reach org_init org_step (empty_organisation 0)"
    by (rule reach_init) (auto simp: org_init_def)
qed

lemma founded_reached: "reach org_init org_step founded"
proof (rule reach_step)
  show "reach org_init org_step (empty_organisation 0)"
    by (rule reach_init) (auto simp: org_init_def)
  show "org_step (empty_organisation 0) founded"
    unfolding org_step_def founded_def by (rule exI [of _ "drawing ! 0"]) (simp add: drawing_def)
qed

lemma seated_by_replacing:
  "replace_org_topology [] desk 1 (u ''acme'') ordered_chart small_seats 1 (u ''request-1'') founded = Inr ((2, 2), seated)"
  by code_simp

section \<open>Properties\<close>

text \<open>C13: the chart validator is exact. It accepts a proposed chart exactly when the positions form
  one rooted tree with well-formed grants and the seats name distinct positions of it and distinct
  subjects; its breadth-first order is a permutation of the chart with every parent before its
  children, which the tables of the database then store as it is, whatever the order proposed.\<close>

theorem validator_is_exact:
  "((\<exists>ordered. ordered_topology ps ms = Inr (ordered, ms))
      \<longleftrightarrow> (\<exists>apex. rooted_tree ps apex) \<and> grants_ok ps \<and> seats_ok ps ms)
   \<and> (\<forall>ordered ms'. ordered_topology ps ms = Inr (ordered, ms') \<longrightarrow> ms' = ms \<and> set ordered = set ps
        \<and> length ordered = length ps \<and> parents_first {} ordered
        \<and> ((\<forall>r\<in>set ps. 1 \<le> length (pos_title r) \<and> length (pos_title r) \<le> 200)
             \<longrightarrow> insert_positions ordered [] = Inr ordered))"
proof (intro conjI allI impI)
  show "(\<exists>ordered. ordered_topology ps ms = Inr (ordered, ms))
      \<longleftrightarrow> (\<exists>apex. rooted_tree ps apex) \<and> grants_ok ps \<and> seats_ok ps ms"
    using ordered_topology_complete [of ps _ ms] ordered_topology_sound [of ps ms] by blast
next
  fix ordered ms'
  assume o: "ordered_topology ps ms = Inr (ordered, ms')"
  from ordered_topology_sound [OF o] obtain apex where ok: "rooted_tree ps apex" "grants_ok ps" "seats_ok ps ms"
    and same: "ms' = ms" by blast
  from ordered_topology_complete [OF ok] o same
  have ord: "set ordered = set ps" "distinct (map pos_id ordered)" "parents_first {} ordered" by auto
  then show "ms' = ms" "set ordered = set ps" "parents_first {} ordered" using same by simp_all
  show "length ordered = length ps"
    using ord(1,2) ok(1) by (metis distinct_card distinct_map length_map rooted_tree_def set_map)
  assume titles: "\<forall>r\<in>set ps. 1 \<le> length (pos_title r) \<and> length (pos_title r) \<le> 200"
  have "chart_ok ordered"
    unfolding chart_ok_def
  proof (intro conjI ballI impI)
    show "position_row_ok r" if "r \<in> set ordered" for r
      using that titles ok(2) ord(1) by (auto simp: position_row_ok_def grants_ok_def)
    show "r = q" if "r \<in> set ordered" "q \<in> set ordered" "pos_parent r = None" "pos_parent q = None" for r q
      using that ok(1) ord(1) unfolding rooted_tree_def by metis
  qed (use ord in auto)
  then show "insert_positions ordered [] = Inr ordered" using insert_positions_complete [of "[]"] by simp
qed

lemma validator_is_exact_witness:
  "(\<exists>apex. rooted_tree small_chart apex) \<and> insert_positions ordered_chart [] = Inr ordered_chart"
proof
  show "\<exists>apex. rooted_tree small_chart apex"
    using validator_is_exact [of small_chart small_seats] small_chart_validates by blast
  have "\<forall>r\<in>set small_chart. 1 \<le> length (pos_title r) \<and> length (pos_title r) \<le> 200"
    by (simp add: small_chart_def)
  then show "insert_positions ordered_chart [] = Inr ordered_chart"
    using validator_is_exact [of small_chart small_seats] small_chart_validates by blast
qed

text \<open>C14: the organisation stays a tree of people. In every reachable state of the operations, whatever
  positions and seats callers hand to the database, the chart is empty or one rooted tree, the
  closure table is exactly its ancestor relation with the distances, an active position has one
  active member, and nobody who is active here is active in another tenant.\<close>

theorem organisation_stays_a_tree:
  assumes "reach org_init org_step g"
  shows "(o_positions g = [] \<or> (\<exists>apex. rooted_tree (o_positions g) apex) \<and> grants_ok (o_positions g))
    \<and> (\<forall>a d k. (a, d, k) \<in> set (org_closure (o_positions g))
         \<longleftrightarrow> a \<in> pos_id ` set (o_positions g) \<and> (a, d) \<in> reports_to (o_positions g) ^^ k)
    \<and> (\<forall>v w a. sits g v a \<and> sits g w a \<longrightarrow> v = w \<and> a \<in> pos_id ` set (o_positions g))
    \<and> (\<forall>v. bound_here g v \<longrightarrow> \<not> bound_elsewhere g v)"
proof (intro conjI allI impI)
  have I: "org_inv g" using assms by (rule organisations.reach_inv)
  note C = org_invD(1) [OF I]
  show "o_positions g = [] \<or> (\<exists>apex. rooted_tree (o_positions g) apex) \<and> grants_ok (o_positions g)"
    using chart_tree [OF C] chart_grants [OF C] by blast
  show "(a, d, k) \<in> set (org_closure (o_positions g))
      \<longleftrightarrow> a \<in> pos_id ` set (o_positions g) \<and> (a, d) \<in> reports_to (o_positions g) ^^ k" for a d k
    by (rule org_closure_iff [OF C])
  show "v = w" if "sits g v a \<and> sits g w a" for v w a using sits_alone [OF I] that by blast
  show "a \<in> pos_id ` set (o_positions g)" if "sits g v a \<and> sits g w a" for v w a
    using that org_invD(2) [OF I] unfolding sits_def members_ok_def by (metis option.simps(5))
  show "\<not> bound_elsewhere g v" if "bound_here g v" for v
    using that I unfolding org_inv_def members_ok_def architects_ok_def bound_here_def bound_elsewhere_iff
      active_member_def list_ex_iff by blast
qed

lemma organisation_stays_a_tree_witness:
  "reach org_init org_step seated \<and> map pos_id (o_positions seated) = [10, 11, 12]
    \<and> (10, 12) \<in> reports_to (o_positions seated) ^^ 2"
proof (intro conjI)
  show "reach org_init org_step seated" by (rule seated_reached)
  show "map pos_id (o_positions seated) = [10, 11, 12]" by code_simp
  have "(10, 12, 2) \<in> set (org_closure (o_positions seated))" by code_simp
  with organisation_stays_a_tree [OF seated_reached] show "(10, 12) \<in> reports_to (o_positions seated) ^^ 2" by blast
qed

text \<open>C15: monitoring is a strict order. In every reachable state nobody monitors themselves or who
  monitors them, monitoring is transitive, the member at the top of the chart is monitored by
  nobody, and the list of visible members shows a viewer exactly the people it monitors.\<close>

theorem monitoring_is_a_strict_order:
  assumes "reach org_init org_step g"
  shows "\<not> can_monitor g v v
    \<and> (can_monitor g v t \<longrightarrow> \<not> can_monitor g t v)
    \<and> (can_monitor g v t \<and> can_monitor g t w \<longrightarrow> can_monitor g v w)
    \<and> (\<forall>d r. sits g t d \<and> get_position g d = Some r \<and> pos_parent r = None \<longrightarrow> \<not> can_monitor g v t)
    \<and> m_identity ` fst ` set (visible_org_members collate g v) = {t. can_monitor g v t}"
proof -
  have I: "org_inv g" using assms by (rule organisations.reach_inv)
  have "m_identity ` fst ` set (visible_org_members collate g v) = {t. can_monitor g v t}"
    using visible_iff [OF I] by blast
  with can_monitor_asym [OF I] can_monitor_trans [OF I] apex_hidden [OF I] show ?thesis by blast
qed

lemma monitoring_is_a_strict_order_witness:
  "can_monitor seated 2 4 \<and> \<not> can_monitor seated 4 2 \<and> \<not> can_monitor seated 3 2
    \<and> m_identity ` fst ` set (visible_org_members id seated 3) = {4}"
proof (intro conjI)
  note order = monitoring_is_a_strict_order [OF seated_reached]
  show 1: "can_monitor seated 2 4" by code_simp
  with order [where v = 2 and t = 4] show "\<not> can_monitor seated 4 2" by blast
  have "sits seated 2 10" "get_position seated 10 = Some (small_chart ! 1)" "pos_parent (small_chart ! 1) = None"
    by code_simp+
  with order [where v = 3 and t = 2] show "\<not> can_monitor seated 3 2" by blast
  have "map m_identity (map fst (visible_org_members id seated 3)) = [4]" by code_simp
  then show "m_identity ` fst ` set (visible_org_members id seated 3) = {4}"
    by (metis list.set_map list.set(1) list.simps(15))
qed

text \<open>C16: a version of the chart admits one change. Once a replacement has been committed at a
  version, in every later state a replacement at that version is refused as a conflict and no
  change of a member at that version is committed; while the version stands, positions and members
  are the same rows.\<close>

theorem chart_version_admits_one_change:
  assumes "reach org_init org_step g"
    and "replace_org_topology retained s version name positions members actor request g = Inr (r, h)"
    and "org_step\<^sup>*\<^sup>* h k"
  shows "replace_org_topology retained' s' version name' positions' members' actor' request' k = Inl OrgVersionConflict
    \<and> (\<forall>x. update_org_member s' actor' target version epoch state role position request' k \<noteq> Inr x)
    \<and> (\<exists>t t'. o_tenant h = Some t \<and> o_tenant k = Some t' \<and> version < tn_version t'
         \<and> (tn_version t' = tn_version t \<longrightarrow> o_positions k = o_positions h \<and> o_members k = o_members h))"
proof -
  have I: "org_inv g" using assms(1) by (rule organisations.reach_inv)
  from replace_grows [OF I assms(2)] obtain t where t: "o_tenant h = Some t" "tn_version t = version + 1" by blast
  have "org_grows h k" by (rule steps_grow [OF assms(3) replace_org_topology_inv [OF I assms(2)]])
  with t obtain t' where k: "o_tenant k = Some t'" "version < tn_version t'"
      "tn_version t' = tn_version t \<longrightarrow> o_positions k = o_positions h \<and> o_members k = o_members h"
    by (auto simp: org_grows_def)
  moreover from k have "replace_org_topology retained' s' version name' positions' members' actor' request' k = Inl OrgVersionConflict"
    by (simp add: replace_org_topology_def)
  moreover have "update_org_member s' actor' target version epoch state role position request' k \<noteq> Inr x" for x
    using k by (cases x) (auto elim!: update_org_member_cases)
  ultimately show ?thesis using t by auto
qed

lemma chart_version_admits_one_change_witness:
  "replace_org_topology [] desk 1 (u ''acme'') ordered_chart small_seats 1 (u ''request-2'') seated = Inl OrgVersionConflict
    \<and> reach org_init org_step founded"
  using chart_version_admits_one_change [OF founded_reached seated_by_replacing rtranclp.rtrancl_refl] founded_reached
  by blast

text \<open>C38: the runtime role cannot change a member. A change that a role with every privilege commits
  is refused to the runtime role, in the same state and with the same arguments, because the
  operation reads the binding table, which that role must not be able to read to be let in at all.\<close>

theorem member_change_needs_the_binding_table:
  assumes "update_org_member (s\<lparr>se_bindings := True\<rparr>) actor target version epoch state role position request g = Inr x"
  shows "update_org_member (s\<lparr>se_bindings := False\<rparr>) actor target version epoch state role position request g
    = Inl InsufficientPrivilege"
proof -
  have arch: "org_architect g (s\<lparr>se_bindings := b\<rparr>) actor = org_architect g s actor" for b
    by (simp add: org_architect_def)
  from assms obtain t where "o_tenant g = Some t" by (cases x) (auto elim: update_org_member_cases)
  with assms show ?thesis
    by (simp add: update_org_member_def arch split: if_splits)
qed

lemma member_change_needs_the_binding_table_witness:
  "update_org_member (desk\<lparr>se_bindings := False\<rparr>) 1 4 2 2 (Some Seat_Suspended) None None (u ''request-3'') seated
    = Inl InsufficientPrivilege"
proof -
  have "\<not> isl (update_org_member (desk\<lparr>se_bindings := True\<rparr>) 1 4 2 2 (Some Seat_Suspended) None None (u ''request-3'') seated)"
    by code_simp
  then obtain x where "update_org_member (desk\<lparr>se_bindings := True\<rparr>) 1 4 2 2 (Some Seat_Suspended) None None
      (u ''request-3'') seated = Inr x"
    by (metis isl_def sum.exhaust)
  then show ?thesis by (rule member_change_needs_the_binding_table)
qed

end
