(* ===== verification/Json_Text.thy ===== *)
theory Json_Text
  imports Py_Text
begin

text \<open>
  What the evaluation contract uses of Python's \<open>json\<close> and of UTF-8: the strict encoder and
  decoder of texts, the compact printer (\<open>json.dumps\<close> with \<open>ensure_ascii=False\<close> and the
  separators \<open>,\<close> and \<open>:\<close>) and the reader (\<open>json.loads\<close> with a hook that refuses a repeated key
  and one that refuses the constants \<open>NaN\<close> and \<open>Infinity\<close>). What is printed reads back.
  Bytes are numbers below 256. The reader's fuel bounds its nested calls; the length of the text
  is enough for every text.
\<close>

section \<open>UTF-8\<close>

definition is_scalar :: "nat \<Rightarrow> bool" where
  "is_scalar c = (c < 1114112 \<and> \<not> is_surrogate c)"

definition utf8_char :: "nat \<Rightarrow> nat list" where
  "utf8_char c =
    (if c < 128 then [c]
     else if c < 2048 then [192 + c div 64, 128 + c mod 64]
     else if c < 65536 then [224 + c div 4096, 128 + c div 64 mod 64, 128 + c mod 64]
     else [240 + c div 262144, 128 + c div 4096 mod 64, 128 + c div 64 mod 64, 128 + c mod 64])"

text \<open>\<open>str.encode("utf-8", errors="strict")\<close>\<close>

definition utf8_encode :: "pystr \<Rightarrow> nat list option" where
  "utf8_encode x = (if list_all is_scalar x then Some (concat (map utf8_char x)) else None)"

definition tail_byte :: "nat \<Rightarrow> bool" where
  "tail_byte b = (128 \<le> b \<and> b < 192)"

text \<open>\<open>bytes.decode("utf-8", errors="strict")\<close>: the shortest form only, no surrogates.\<close>

fun utf8_decode :: "nat list \<Rightarrow> pystr option" where
  "utf8_decode [] = Some []"
| "utf8_decode (a # bs) =
    (if a < 128 then map_option (Cons a) (utf8_decode bs)
     else case bs of
       [] \<Rightarrow> None
     | b # cs \<Rightarrow>
        (if 194 \<le> a \<and> a < 224
         then (if tail_byte b then map_option (Cons (64 * (a - 192) + (b - 128))) (utf8_decode cs) else None)
         else case cs of
           [] \<Rightarrow> None
         | c # ds \<Rightarrow>
            (if 224 \<le> a \<and> a < 240
             then (let x = 4096 * (a - 224) + 64 * (b - 128) + (c - 128)
                   in if tail_byte b \<and> tail_byte c \<and> 2048 \<le> x \<and> \<not> is_surrogate x
                      then map_option (Cons x) (utf8_decode ds) else None)
             else case ds of
               [] \<Rightarrow> None
             | d # es \<Rightarrow>
                (if 240 \<le> a \<and> a < 245
                 then (let x = 262144 * (a - 240) + 4096 * (b - 128) + 64 * (c - 128) + (d - 128)
                       in if tail_byte b \<and> tail_byte c \<and> tail_byte d \<and> 65536 \<le> x \<and> x < 1114112
                          then map_option (Cons x) (utf8_decode es) else None)
                 else None))))"

declare utf8_decode.simps(2) [simp del]

lemma digits64: "64 * (c div 64) + c mod 64 = (c :: nat)" by simp

lemma digits4096: "64 * (c div 4096) + c div 64 mod 64 = (c :: nat) div 64"
  using digits64 [of "c div 64"] by (simp add: div_mult2_eq [symmetric])

lemma digits262144: "64 * (c div 262144) + c div 4096 mod 64 = (c :: nat) div 4096"
  using digits64 [of "c div 4096"] by (simp add: div_mult2_eq [symmetric])

lemma utf8_decode_char:
  assumes "is_scalar c"
  shows "utf8_decode (utf8_char c @ bs) = map_option (Cons c) (utf8_decode bs)"
proof -
  consider (one) "c < 128" | (two) "128 \<le> c" "c < 2048" | (three) "2048 \<le> c" "c < 65536"
    | (four) "65536 \<le> c" "c < 1114112"
    using assms by (auto simp: is_scalar_def) fastforce
  then show ?thesis
  proof cases
    case one
    then show ?thesis by (simp add: utf8_char_def utf8_decode.simps(2))
  next
    case two
    then have "2 \<le> c div 64" "c div 64 < 32" by (auto simp: less_mult_imp_div_less)
    with two show ?thesis by (simp add: utf8_char_def utf8_decode.simps(2) tail_byte_def)
  next
    case three
    then have b: "c div 4096 < 16" by (simp add: less_mult_imp_div_less)
    have "4096 * (c div 4096) + 64 * (c div 64 mod 64) + c mod 64 = c"
      using digits64 [of c] digits4096 [of c] by linarith
    with three b assms show ?thesis
      by (simp add: utf8_char_def utf8_decode.simps(2) tail_byte_def is_scalar_def Let_def)
  next
    case four
    then have b: "c div 262144 < 5" by (simp add: less_mult_imp_div_less)
    have "262144 * (c div 262144) + 4096 * (c div 4096 mod 64) + 64 * (c div 64 mod 64) + c mod 64 = c"
      using digits64 [of c] digits4096 [of c] digits262144 [of c] by linarith
    with four b show ?thesis
      by (simp add: utf8_char_def utf8_decode.simps(2) tail_byte_def Let_def)
  qed
qed

lemma utf8_roundtrip: "utf8_encode x = Some bs \<Longrightarrow> utf8_decode bs = Some x"
proof -
  have "list_all is_scalar x \<Longrightarrow> utf8_decode (concat (map utf8_char x)) = Some x"
    by (induction x) (auto simp: utf8_decode_char)
  then show "utf8_encode x = Some bs \<Longrightarrow> utf8_decode bs = Some x"
    by (auto simp: utf8_encode_def split: if_splits)
qed

lemma utf8_injective: "utf8_encode x = Some bs \<Longrightarrow> utf8_encode y = Some bs \<Longrightarrow> x = y"
  by (metis option.inject utf8_roundtrip)

section \<open>JSON values and their compact texts\<close>

text \<open>A number with a fraction or an exponent is a float, whose value nothing here depends on.\<close>

datatype json = J_Str pystr | J_Int int | J_Float | J_Bool bool | J_Null
  | J_List "json list" | J_Dict "(pystr \<times> json) list"

definition hex_digit :: "nat \<Rightarrow> nat" where
  "hex_digit n = (if n < 10 then 48 + n else 87 + n)"

definition json_char :: "nat \<Rightarrow> pystr" where
  "json_char c =
    (if c = 34 then [92, 34] else if c = 92 then [92, 92]
     else if c = 10 then [92, 110] else if c = 13 then [92, 114] else if c = 9 then [92, 116]
     else if c = 12 then [92, 102] else if c = 8 then [92, 98]
     else if c < 32 then [92, 117, 48, 48, hex_digit (c div 16), hex_digit (c mod 16)]
     else [c])"

definition json_text :: "pystr \<Rightarrow> pystr" where
  "json_text x = [34] @ concat (map json_char x) @ [34]"

fun nat_text :: "nat \<Rightarrow> pystr" where
  "nat_text n = (if n < 10 then [48 + n] else nat_text (n div 10) @ [48 + n mod 10])"

declare nat_text.simps [simp del]

definition int_text :: "int \<Rightarrow> pystr" where
  "int_text i = (if i < 0 then [45] @ nat_text (nat (- i)) else nat_text (nat i))"

fun commas :: "pystr list \<Rightarrow> pystr" where
  "commas [] = []"
| "commas [x] = x"
| "commas (x # xs) = x @ [44] @ commas xs"

text \<open>\<open>json.dumps\<close> of a value whose keys are already in the order printed; floats are never printed.\<close>

fun print_json :: "json \<Rightarrow> pystr" where
  "print_json (J_Str x) = json_text x"
| "print_json (J_Int i) = int_text i"
| "print_json J_Float = [48, 46, 48]"
| "print_json (J_Bool b) = (if b then u ''true'' else u ''false'')"
| "print_json J_Null = u ''null''"
| "print_json (J_List js) = [91] @ commas (map print_json js) @ [93]"
| "print_json (J_Dict kvs) = [123] @ commas (map (\<lambda>(k, j). json_text k @ [58] @ print_json j) kvs) @ [125]"

section \<open>The reader\<close>

datatype json_error = JSONDecodeError | Repeated_Key | Bad_Constant

definition json_space :: "nat \<Rightarrow> bool" where
  "json_space c = (c = 32 \<or> c = 9 \<or> c = 10 \<or> c = 13)"

definition skip :: "pystr \<Rightarrow> pystr" where
  "skip x = dropWhile json_space x"

fun hex_value :: "nat \<Rightarrow> nat option" where
  "hex_value c = (if 48 \<le> c \<and> c \<le> 57 then Some (c - 48) else if 97 \<le> c \<and> c \<le> 102 then Some (c - 87)
     else if 65 \<le> c \<and> c \<le> 70 then Some (c - 55) else None)"

definition hex4 :: "nat \<Rightarrow> nat \<Rightarrow> nat \<Rightarrow> nat \<Rightarrow> nat option" where
  "hex4 a b c d = (case (hex_value a, hex_value b, hex_value c, hex_value d) of
     (Some w, Some x, Some y, Some z) \<Rightarrow> Some (4096 * w + 256 * x + 16 * y + z) | _ \<Rightarrow> None)"

fun short_escape :: "nat \<Rightarrow> nat option" where
  "short_escape c = (if c = 34 then Some 34 else if c = 92 then Some 92 else if c = 47 then Some 47
     else if c = 98 then Some 8 else if c = 102 then Some 12 else if c = 110 then Some 10
     else if c = 114 then Some 13 else if c = 116 then Some 9 else None)"

text \<open>
  The body of a string after its opening quote. A high and a low surrogate escape that follow each
  other are one character; a control character is refused.
\<close>

fun read_string :: "pystr \<Rightarrow> (pystr \<times> pystr) option" where
  "read_string [] = None"
| "read_string (c # x) =
    (if c = 34 then Some ([], x)
     else if c < 32 then None
     else if c \<noteq> 92 then map_option (\<lambda>(y, r). (c # y, r)) (read_string x)
     else case x of
       [] \<Rightarrow> None
     | e # x' \<Rightarrow>
        (if e \<noteq> 117
         then (case short_escape e of None \<Rightarrow> None
               | Some v \<Rightarrow> map_option (\<lambda>(y, r). (v # y, r)) (read_string x'))
         else case x' of
           h1 # h2 # h3 # h4 # x4 \<Rightarrow>
             (case hex4 h1 h2 h3 h4 of
                None \<Rightarrow> None
              | Some v \<Rightarrow>
                 (if 55296 \<le> v \<and> v \<le> 56319
                  then (case x4 of
                      s # t # l1 # l2 # l3 # l4 # x10 \<Rightarrow>
                        (if s = 92 \<and> t = 117
                         then (case hex4 l1 l2 l3 l4 of
                             None \<Rightarrow> None
                           | Some w \<Rightarrow>
                              (if 56320 \<le> w \<and> w \<le> 57343
                               then map_option (\<lambda>(y, r). ((65536 + 1024 * (v - 55296) + (w - 56320)) # y, r)) (read_string x10)
                               else map_option (\<lambda>(y, r). (v # y, r)) (read_string x4)))
                         else map_option (\<lambda>(y, r). (v # y, r)) (read_string x4))
                    | _ \<Rightarrow> map_option (\<lambda>(y, r). (v # y, r)) (read_string x4))
                  else map_option (\<lambda>(y, r). (v # y, r)) (read_string x4)))
         | _ \<Rightarrow> None))"

declare read_string.simps(2) [simp del]

definition digits_value :: "pystr \<Rightarrow> nat" where
  "digits_value ds = foldl (\<lambda>n d. 10 * n + (d - 48)) 0 ds"

text \<open>\<open>(-?(?:0|[1-9]\d*))(\.\d+)?([eE][-+]?\d+)?\<close>\<close>

definition read_fraction :: "pystr \<Rightarrow> bool \<times> pystr" where
  "read_fraction x = (case x of
     p # d # r \<Rightarrow> (if p = 46 \<and> is_digit d then (True, dropWhile is_digit r) else (False, x))
   | _ \<Rightarrow> (False, x))"

definition read_exponent :: "pystr \<Rightarrow> bool \<times> pystr" where
  "read_exponent x = (case x of
     e # r \<Rightarrow>
       (if e = 101 \<or> e = 69
        then (let r' = (case r of s # t \<Rightarrow> if s = 43 \<or> s = 45 then t else r | [] \<Rightarrow> r)
              in case r' of d # t \<Rightarrow> if is_digit d then (True, dropWhile is_digit t) else (False, x)
                 | [] \<Rightarrow> (False, x))
        else (False, x))
   | [] \<Rightarrow> (False, x))"

definition read_number :: "pystr \<Rightarrow> (json \<times> pystr) option" where
  "read_number x =
    (let (minus, y) = (case x of c # r \<Rightarrow> if c = 45 then (True, r) else (False, x) | [] \<Rightarrow> (False, x));
         ds = (case y of c # r \<Rightarrow> if c = 48 then [c] else takeWhile is_digit y | [] \<Rightarrow> []);
         (f, r1) = read_fraction (drop (length ds) y); (e, r2) = read_exponent r1
     in if ds = [] then None
        else if f \<or> e then Some (J_Float, r2)
        else Some (J_Int (if minus then - int (digits_value ds) else int (digits_value ds)), r2))"

definition starts :: "string \<Rightarrow> pystr \<Rightarrow> bool" where
  "starts w x = (take (length w) x = u w)"

text \<open>The items of a list or the pairs of an object, from the first one on.\<close>

fun read_value :: "nat \<Rightarrow> pystr \<Rightarrow> json_error + json \<times> pystr"
  and read_items :: "nat \<Rightarrow> pystr \<Rightarrow> json_error + json list \<times> pystr"
  and read_pairs :: "nat \<Rightarrow> pystr \<Rightarrow> json_error + (pystr \<times> json) list \<times> pystr" where
  "read_value 0 x = Inl JSONDecodeError"
| "read_value (Suc n) x = (case x of
     [] \<Rightarrow> Inl JSONDecodeError
   | c # r \<Rightarrow>
      (if c = 34 then (case read_string r of None \<Rightarrow> Inl JSONDecodeError | Some (y, r') \<Rightarrow> Inr (J_Str y, r'))
       else if c = 123 then
         (case skip r of
            [] \<Rightarrow> Inl JSONDecodeError
          | d # r' \<Rightarrow> (if d = 125 then Inr (J_Dict [], r')
              else (case read_pairs n (d # r') of
                  Inl e \<Rightarrow> Inl e
                | Inr (kvs, q) \<Rightarrow> if distinct (map fst kvs) then Inr (J_Dict kvs, q) else Inl Repeated_Key)))
       else if c = 91 then
         (case skip r of
            [] \<Rightarrow> Inl JSONDecodeError
          | d # r' \<Rightarrow> (if d = 93 then Inr (J_List [], r')
              else map_sum id (\<lambda>(js, q). (J_List js, q)) (read_items n (d # r'))))
       else if starts ''null'' x then Inr (J_Null, drop 4 x)
       else if starts ''true'' x then Inr (J_Bool True, drop 4 x)
       else if starts ''false'' x then Inr (J_Bool False, drop 5 x)
       else if starts ''NaN'' x \<or> starts ''Infinity'' x \<or> starts ''-Infinity'' x then Inl Bad_Constant
       else (case read_number x of None \<Rightarrow> Inl JSONDecodeError | Some z \<Rightarrow> Inr z)))"
| "read_items 0 x = Inl JSONDecodeError"
| "read_items (Suc n) x = (case read_value n x of
     Inl e \<Rightarrow> Inl e
   | Inr (j, r) \<Rightarrow> (case skip r of
       [] \<Rightarrow> Inl JSONDecodeError
     | c # r' \<Rightarrow>
        (if c = 93 then Inr ([j], r')
         else if c = 44 then map_sum id (\<lambda>(js, q). (j # js, q)) (read_items n (skip r'))
         else Inl JSONDecodeError)))"
| "read_pairs 0 x = Inl JSONDecodeError"
| "read_pairs (Suc n) x = (case x of
     [] \<Rightarrow> Inl JSONDecodeError
   | c # y \<Rightarrow>
      (if c \<noteq> 34 then Inl JSONDecodeError
       else case read_string y of
         None \<Rightarrow> Inl JSONDecodeError
       | Some (k, r) \<Rightarrow> (case skip r of
           [] \<Rightarrow> Inl JSONDecodeError
         | d # r' \<Rightarrow>
            (if d \<noteq> 58 then Inl JSONDecodeError
             else case read_value n (skip r') of
               Inl e \<Rightarrow> Inl e
             | Inr (j, q) \<Rightarrow> (case skip q of
                 [] \<Rightarrow> Inl JSONDecodeError
               | f # q' \<Rightarrow>
                  (if f = 125 then Inr ([(k, j)], q')
                   else if f = 44
                   then map_sum id (\<lambda>(kvs, z). ((k, j) # kvs, z)) (read_pairs n (skip q'))
                   else Inl JSONDecodeError))))))"

definition json_loads :: "pystr \<Rightarrow> json_error + json" where
  "json_loads x = (case read_value (Suc (2 * length x)) (skip x) of
     Inl e \<Rightarrow> Inl e
   | Inr (j, r) \<Rightarrow> (if skip r = [] then Inr j else Inl JSONDecodeError))"

section \<open>What is printed reads back\<close>

lemma read_plain: "32 \<le> c \<Longrightarrow> c \<noteq> 34 \<Longrightarrow> c \<noteq> 92 \<Longrightarrow>
    read_string (c # x) = map_option (\<lambda>(y, r). (c # y, r)) (read_string x)"
  by (simp add: read_string.simps(2))

lemma hex_value_digit: "n < 16 \<Longrightarrow> hex_value (hex_digit n) = Some n"
  by (simp add: hex_digit_def)

lemma read_json_char: "read_string (json_char c @ x) = map_option (\<lambda>(y, r). (c # y, r)) (read_string x)"
proof (cases "c < 32 \<and> c \<notin> {8, 9, 10, 12, 13}")
  case True
  then have "json_char c = [92, 117, 48, 48, hex_digit (c div 16), hex_digit (c mod 16)]"
    by (auto simp: json_char_def)
  moreover have "hex4 48 48 (hex_digit (c div 16)) (hex_digit (c mod 16)) = Some c"
    using True by (simp add: hex4_def hex_value_digit less_mult_imp_div_less del: hex_value.simps)
      (simp add: hex_value.simps)
  ultimately show ?thesis using True by (simp add: read_string.simps(2))
next
  case False
  then consider "c \<in> {8, 9, 10, 12, 13}" | "c = 34 \<or> c = 92" | "32 \<le> c" "c \<noteq> 34" "c \<noteq> 92" by fastforce
  then show ?thesis
  proof cases
    case 3
    then show ?thesis by (simp add: json_char_def read_plain)
  qed (auto simp: json_char_def read_string.simps(2))
qed

lemma read_json_text: "read_string (concat (map json_char x) @ 34 # r) = Some (x, r)"
  by (induction x) (simp_all add: read_json_char read_string.simps(2) [of 34])

lemma nat_text_digits: "list_all is_digit (nat_text n)"
proof (induction n rule: nat_text.induct)
  case (1 n)
  have "n < 10 \<Longrightarrow> is_digit (48 + n)" "is_digit (48 + n mod 10)" by (simp_all add: is_digit_def)
  with 1 show ?case by (subst nat_text.simps) simp
qed

lemma digits_value_snoc: "digits_value (ds @ [d]) = 10 * digits_value ds + (d - 48)"
  by (simp add: digits_value_def)

lemma digits_value_nat_text: "digits_value (nat_text n) = n"
proof (induction n rule: nat_text.induct)
  case (1 n)
  then show ?case
    by (cases "n < 10") (subst nat_text.simps, simp add: digits_value_def, subst nat_text.simps, simp add: digits_value_snoc)
qed

lemma nat_text_Cons: "\<exists>d ds. nat_text n = d # ds \<and> is_digit d \<and> (d = 48 \<longrightarrow> ds = [])"
proof (induction n rule: nat_text.induct)
  case (1 n)
  show ?case
  proof (cases "n < 10")
    case True
    then show ?thesis by (subst nat_text.simps) (simp add: is_digit_def)
  next
    case False
    with 1 obtain d ds where d: "nat_text (n div 10) = d # ds" "is_digit d" "d = 48 \<longrightarrow> ds = []" by blast
    have "d \<noteq> 48"
    proof
      assume "d = 48"
      with d have "nat_text (n div 10) = [48]" by simp
      then have "n div 10 = 0" using digits_value_nat_text [of "n div 10"] by (simp add: digits_value_def)
      with False show False by simp
    qed
    with d False show ?thesis by (subst nat_text.simps) simp
  qed
qed

text \<open>What follows a value inside a printed text: its end, a comma or a closing bracket.\<close>

definition delimited :: "pystr \<Rightarrow> bool" where
  "delimited r = (case r of [] \<Rightarrow> True | c # x \<Rightarrow> c \<in> {44, 93, 125})"

lemma takeWhile_digits: "list_all is_digit ds \<Longrightarrow> delimited r \<Longrightarrow> takeWhile is_digit (ds @ r) = ds"
  by (induction ds) (auto simp: delimited_def is_digit_def split: list.splits)

lemma delimited_number: "delimited r \<Longrightarrow> read_fraction r = (False, r) \<and> read_exponent r = (False, r)"
  by (auto simp: delimited_def read_fraction_def read_exponent_def Let_def split: list.splits)

lemma read_digits:
  assumes "delimited r"
  shows "(case nat_text n @ r of c # x \<Rightarrow> if c = 48 then [c] else takeWhile is_digit (nat_text n @ r) | [] \<Rightarrow> []) = nat_text n"
proof -
  from nat_text_Cons obtain d ds where d: "nat_text n = d # ds" "is_digit d" "d = 48 \<longrightarrow> ds = []" by blast
  have "takeWhile is_digit (nat_text n @ r) = nat_text n"
    by (rule takeWhile_digits [OF nat_text_digits assms])
  with d show ?thesis by auto
qed

lemma read_int_text:
  assumes "delimited r"
  shows "read_number (int_text i @ r) = Some (J_Int i, r)"
proof -
  from nat_text_Cons [of "nat i"] obtain d ds where d: "nat_text (nat i) = d # ds" "is_digit d" by blast
  have first: "(case nat_text (nat i) @ r of c # q \<Rightarrow> if c = 45 then (True, q) else (False, nat_text (nat i) @ r)
      | [] \<Rightarrow> (False, nat_text (nat i) @ r)) = (False, nat_text (nat i) @ r)"
    using d by (auto simp: is_digit_def)
  have ne: "nat_text m \<noteq> []" for m using nat_text_Cons [of m] by auto
  note R = read_digits [OF assms] delimited_number [OF assms] digits_value_nat_text
  show ?thesis
  proof (cases "i < 0")
    case True
    then have "int_text i @ r = 45 # nat_text (nat (- i)) @ r" by (simp add: int_text_def)
    with True show ?thesis by (simp add: read_number_def R ne Let_def)
  next
    case False
    then have "int_text i @ r = nat_text (nat i) @ r" by (simp add: int_text_def)
    with False show ?thesis by (simp add: read_number_def first R ne Let_def)
  qed
qed

fun printable :: "json \<Rightarrow> bool" where
  "printable J_Float = False"
| "printable (J_List js) = list_all printable js"
| "printable (J_Dict kvs) = (distinct (map fst kvs) \<and> list_all (\<lambda>(k, j). printable j) kvs)"
| "printable j = True"

lemma starts_Nil [simp]: "starts [] x"
  by (simp add: starts_def u_def)

lemma starts_Cons: "starts (a # w) x \<longleftrightarrow> (case x of [] \<Rightarrow> False | c # y \<Rightarrow> c = of_char a \<and> starts w y)"
  by (cases x) (auto simp: starts_def u_def)

lemma skip_Cons [simp]: "skip (c # x) = (if json_space c then skip x else c # x)"
  by (simp add: skip_def)

lemma print_json_head: "\<exists>c x. print_json j = c # x \<and> \<not> json_space c \<and> c \<notin> {44, 93, 125}"
proof (cases j)
  case (J_Int i)
  then show ?thesis using nat_text_Cons [of "nat i"]
    by (auto simp: int_text_def is_digit_def json_space_def)
qed (auto simp: json_text_def json_space_def u_def)

lemma print_json_length: "1 \<le> length (print_json j)"
  using print_json_head [of j] by auto

lemma int_text_start:
  "\<not> starts ''null'' (int_text i @ r)" "\<not> starts ''true'' (int_text i @ r)" "\<not> starts ''false'' (int_text i @ r)"
  "\<not> starts ''NaN'' (int_text i @ r)" "\<not> starts ''Infinity'' (int_text i @ r)" "\<not> starts ''-Infinity'' (int_text i @ r)"
  "\<exists>c x. int_text i = c # x \<and> c \<notin> {34, 123, 91}"
proof -
  obtain d ds where d: "nat_text (nat i) = d # ds" "is_digit d" using nat_text_Cons by blast
  obtain e es where e: "nat_text (nat (- i)) = e # es" "is_digit e" using nat_text_Cons by blast
  show "\<not> starts ''null'' (int_text i @ r)" "\<not> starts ''true'' (int_text i @ r)" "\<not> starts ''false'' (int_text i @ r)"
    "\<not> starts ''NaN'' (int_text i @ r)" "\<not> starts ''Infinity'' (int_text i @ r)" "\<not> starts ''-Infinity'' (int_text i @ r)"
    "\<exists>c x. int_text i = c # x \<and> c \<notin> {34, 123, 91}"
    using d e by (auto simp: int_text_def starts_Cons is_digit_def)
qed

lemma read_items_print:
  assumes "js \<noteq> []" "\<And>j n r. j \<in> set js \<Longrightarrow> delimited r \<Longrightarrow> 2 * length (print_json j) \<le> n
      \<Longrightarrow> read_value n (print_json j @ r) = Inr (j, r)"
    and "Suc (2 * length (commas (map print_json js))) \<le> n"
  shows "read_items n (commas (map print_json js) @ 93 # r) = Inr (js, r)"
  using assms
proof (induction js arbitrary: n)
  case (Cons j js)
  from Cons.prems(3) obtain m where n: "n = Suc m" by (cases n) auto
  show ?case
  proof (cases js)
    case Nil
    have "read_value m (print_json j @ 93 # r) = Inr (j, 93 # r)"
      by (rule Cons.prems(2)) (use Cons.prems(3) n Nil in \<open>simp_all add: delimited_def\<close>)
    with Nil n show ?thesis by (simp add: json_space_def)
  next
    case (Cons k ks)
    have 1: "read_value m (print_json j @ 44 # commas (map print_json js) @ 93 # r)
        = Inr (j, 44 # commas (map print_json js) @ 93 # r)"
      by (rule Cons.prems(2)) (use Cons.prems(3) n Cons in \<open>simp_all add: delimited_def\<close>)
    have 2: "read_items m (commas (map print_json js) @ 93 # r) = Inr (js, r)"
      by (rule Cons.IH) (use Cons.prems(2,3) n Cons print_json_length [of j] in \<open>auto\<close>)
    from print_json_head [of k] obtain c x where "print_json k = c # x" "\<not> json_space c" by blast
    then have 3: "skip (commas (map print_json js) @ 93 # r) = commas (map print_json js) @ 93 # r"
      using Cons by (cases ks) auto
    have "commas (map print_json (j # js)) @ 93 # r = print_json j @ 44 # commas (map print_json js) @ 93 # r"
      using Cons by simp
    with 1 2 3 n show ?thesis by (simp add: json_space_def)
  qed
qed simp

definition pair_text :: "pystr \<times> json \<Rightarrow> pystr" where
  "pair_text = (\<lambda>(k, j). json_text k @ [58] @ print_json j)"

lemma pair_text_head: "\<exists>x. pair_text p = 34 # x"
  by (cases p) (simp add: pair_text_def json_text_def)

lemma read_pairs_print:
  assumes "kvs \<noteq> []" "\<And>k j n r. (k, j) \<in> set kvs \<Longrightarrow> delimited r \<Longrightarrow> 2 * length (print_json j) \<le> n
      \<Longrightarrow> read_value n (print_json j @ r) = Inr (j, r)"
    and "Suc (2 * length (commas (map pair_text kvs))) \<le> n"
  shows "read_pairs n (commas (map pair_text kvs) @ 125 # r) = Inr (kvs, r)"
  using assms
proof (induction kvs arbitrary: n)
  case (Cons p kvs)
  obtain k j where p: "p = (k, j)" by (cases p)
  from Cons.prems(3) obtain m where n: "n = Suc m" by (cases n) auto
  from print_json_head [of j] obtain c x where c: "print_json j = c # x" "\<not> json_space c" by blast
  have first: "read_pairs (Suc m) (pair_text p @ q) = (case skip q of [] \<Rightarrow> Inl JSONDecodeError
      | f # q' \<Rightarrow> if f = 125 then Inr ([(k, j)], q')
          else if f = 44 then map_sum id (\<lambda>(kvs, z). ((k, j) # kvs, z)) (read_pairs m (skip q')) else Inl JSONDecodeError)"
    if q: "read_value m (print_json j @ q) = Inr (j, q)" for q
  proof -
    have "pair_text p @ q = 34 # concat (map json_char k) @ 34 # 58 # print_json j @ q"
      by (simp add: pair_text_def p json_text_def)
    moreover have "skip (print_json j @ q) = print_json j @ q" using c by simp
    ultimately show ?thesis using q by (simp add: read_json_text json_space_def split: list.split)
  qed
  show ?case
  proof (cases kvs)
    case Nil
    have "read_value m (print_json j @ 125 # r) = Inr (j, 125 # r)"
      by (rule Cons.prems(2) [of k]) (use Cons.prems(3) n Nil p in \<open>simp_all add: delimited_def pair_text_def\<close>)
    from first [OF this] Nil n p show ?thesis by (simp add: json_space_def)
  next
    case (Cons k' ks)
    let ?rest = "commas (map pair_text kvs) @ 125 # r"
    have 1: "read_value m (print_json j @ 44 # ?rest) = Inr (j, 44 # ?rest)"
      by (rule Cons.prems(2) [of k]) (use Cons.prems(3) n Cons p in \<open>simp_all add: delimited_def pair_text_def\<close>)
    have 2: "read_pairs m ?rest = Inr (kvs, r)"
      by (rule Cons.IH) (use Cons.prems(2,3) n Cons print_json_length [of j] in \<open>auto simp: p pair_text_def\<close>)
    from pair_text_head [of k'] obtain y where "pair_text k' = 34 # y" by blast
    then have 3: "skip ?rest = ?rest" using Cons by (cases ks) (auto simp: json_space_def)
    have "commas (map pair_text (p # kvs)) @ 125 # r = pair_text p @ 44 # ?rest"
      using Cons by simp
    with first [OF 1] 2 3 n p show ?thesis by (simp add: json_space_def)
  qed
qed simp

lemma read_value_print:
  "printable j \<Longrightarrow> delimited r \<Longrightarrow> 2 * length (print_json j) \<le> n \<Longrightarrow> read_value n (print_json j @ r) = Inr (j, r)"
proof (induction j arbitrary: n r rule: json.induct)
  case (J_Str x)
  then obtain m where "n = Suc m" by (cases n) (auto simp: json_text_def)
  then show ?case by (simp add: json_text_def read_json_text)
next
  case (J_Int i)
  with print_json_length [of "J_Int i"] obtain m where n: "n = Suc m" by (cases n) auto
  obtain c x where c: "int_text i = c # x" "c \<notin> {34, 123, 91}" using int_text_start(7) by blast
  have "read_value (Suc m) (int_text i @ r) = (case read_number (int_text i @ r) of None \<Rightarrow> Inl JSONDecodeError | Some z \<Rightarrow> Inr z)"
    using c int_text_start(1-6) [of i r] by simp
  with n J_Int read_int_text show ?case by simp
next
  case (J_List js)
  then obtain m where n: "n = Suc m" "Suc (2 * length (commas (map print_json js))) \<le> m" by (cases n) auto
  show ?case
  proof (cases js)
    case Nil
    with n show ?thesis by (simp add: json_space_def)
  next
    case (Cons k ks)
    from print_json_head [of k] obtain c x where c: "print_json k = c # x" "\<not> json_space c" "c \<noteq> 93" by blast
    have "read_items m (commas (map print_json js) @ 93 # r) = Inr (js, r)"
    proof (rule read_items_print [OF _ _ n(2)])
      fix j :: json and n r
      assume "j \<in> set js" "delimited r" "2 * length (print_json j) \<le> n"
      with J_List(1,2) show "read_value n (print_json j @ r) = Inr (j, r)" by (auto simp: list_all_iff)
    qed (use Cons in simp)
    moreover from Cons c obtain y where "commas (map print_json js) @ 93 # r = c # y" by (cases ks) auto
    ultimately show ?thesis using n c by (simp add: json_space_def)
  qed
next
  case (J_Dict kvs)
  have shown: "print_json (J_Dict kvs) = 123 # commas (map pair_text kvs) @ [125]" by (simp add: pair_text_def)
  with J_Dict obtain m where n: "n = Suc m" "Suc (2 * length (commas (map pair_text kvs))) \<le> m"
    by (cases n) (auto simp: pair_text_def)
  have d: "distinct (map fst kvs)" using J_Dict(2) by simp
  show ?case
  proof (cases kvs)
    case Nil
    with n show ?thesis by (simp add: json_space_def)
  next
    case (Cons k ks)
    from pair_text_head [of k] obtain x where c: "pair_text k = 34 # x" by blast
    have "read_pairs m (commas (map pair_text kvs) @ 125 # r) = Inr (kvs, r)"
    proof (rule read_pairs_print [OF _ _ n(2)])
      fix k j n r
      assume "(k, j) \<in> set kvs" "delimited r" "2 * length (print_json j) \<le> n"
      with J_Dict(1) [of "(k, j)" j] J_Dict(2) show "read_value n (print_json j @ r) = Inr (j, r)"
        by (auto simp: list_all_iff)
    qed (use Cons in simp)
    moreover from Cons c obtain y where "commas (map pair_text kvs) @ 125 # r = 34 # y" by (cases ks) auto
    ultimately show ?thesis using n d by (simp add: shown json_space_def del: print_json.simps)
  qed
next
  case (J_Bool b)
  then obtain m where "n = Suc m" by (cases n) (auto simp: u_def split: if_splits)
  then show ?case by (cases b) (simp_all add: u_def starts_Cons)
next
  case J_Null
  then obtain m where "n = Suc m" by (cases n) (auto simp: u_def)
  then show ?case by (simp add: u_def starts_Cons)
qed simp

theorem json_roundtrip:
  assumes "printable j"
  shows "json_loads (print_json j) = Inr j"
proof -
  from print_json_head [of j] obtain c x where "print_json j = c # x" "\<not> json_space c" by blast
  then have "skip (print_json j) = print_json j" by simp
  moreover have "read_value (Suc (2 * length (print_json j))) (print_json j @ []) = Inr (j, [])"
    by (rule read_value_print [OF assms]) (simp_all add: delimited_def)
  ultimately show ?thesis by (simp add: json_loads_def skip_def)
qed

lemma print_json_injective: "printable i \<Longrightarrow> printable j \<Longrightarrow> print_json i = print_json j \<Longrightarrow> i = j"
  using json_roundtrip by (metis sum.inject(2))

end
