(* ===== verification/Eval_Contract.thy ===== *)
theory Eval_Contract
  imports Json_Text "HOL-Library.List_Lexorder" "HOL-Library.AList"
begin

text \<open>
  \<open>pipeline/evaluation/datasets.py\<close>: the closed contract of a versioned evaluation dataset. A
  value that arrives from outside is a \<open>pyval\<close>; the functions refuse it with a closed code or
  return an immutable case or version, whose canonical bytes read back to the same version.
  SHA-256 is the argument \<open>sha\<close>, from bytes to the hexadecimal text.
\<close>

section \<open>Values and codes\<close>

text \<open>
  A Python value as far as the contract tells values apart: \<open>V_Case\<close> is an \<open>EvalCase\<close>, \<open>V_Other\<close>
  a value of any other type. A dictionary lists its keys once.
\<close>

record eval_case =
  ec_case_key :: pystr
  ec_q :: pystr
  ec_key :: pystr
  ec_answer :: pystr
  ec_pages :: "int list"
  ec_type :: pystr

datatype pyval = V_Str pystr | V_Int int | V_List "pyval list" | V_Tuple "pyval list"
  | V_Dict "(pystr \<times> pyval) list" | V_Case eval_case | V_Other

record eval_version =
  ev_version :: int
  ev_cases :: "eval_case list"

datatype eval_code =
    eval_text_invalid | eval_case_key_invalid | eval_pages_invalid | eval_order_invalid
  | eval_case_invalid | eval_type_invalid | eval_version_invalid | eval_case_count_invalid
  | eval_case_key_duplicate | eval_json_duplicate_key | eval_json_invalid

definition CASE_TYPES :: "pystr list" where
  "CASE_TYPES = [u ''metin'', u ''sayisal'', u ''tablo'']"

definition CASE_KEYS :: "pystr list" where
  "CASE_KEYS = [u ''case_key'', u ''q'', u ''key'', u ''answer'', u ''pages'', u ''type'']"

definition VERSION_KEYS :: "pystr list" where
  "VERSION_KEYS = [u ''version'', u ''cases'']"

definition MIN_CASES :: int where "MIN_CASES = 1"
definition MAX_CASES :: int where "MAX_CASES = 500"
definition MAX_VERSION :: int where "MAX_VERSION = 2147483647"
definition MAX_JSON_BYTES :: int where "MAX_JSON_BYTES = 16 * 1024 * 1024"

definition Q_BYTES :: int where "Q_BYTES = 4096"
definition KEY_BYTES :: int where "KEY_BYTES = 16384"
definition ANSWER_BYTES :: int where "ANSWER_BYTES = 16384"

section \<open>The validators\<close>

text \<open>\<open>_text\<close>; \<open>limit\<close> is the entry of \<open>TEXT_BYTE_LIMITS\<close> for the field.\<close>

definition eval_text :: "int \<Rightarrow> pyval \<Rightarrow> eval_code + pystr" where
  "eval_text limit value = (case value of
     V_Str x \<Rightarrow>
       (case utf8_encode x of
          None \<Rightarrow> Inl eval_text_invalid
        | Some encoded \<Rightarrow>
           (if encoded = [] \<or> limit < int (length encoded) \<or> x \<noteq> strip x then Inl eval_text_invalid
            else if list_ex (\<lambda>c. c < 32) x then Inl eval_text_invalid
            else Inr x))
   | _ \<Rightarrow> Inl eval_text_invalid)"

text \<open>
  The texts that \<open>uuid.UUID\<close> parses to a version 4 identifier and that are its canonical
  spelling: lower-case hexadecimal digits in groups of 8, 4, 4, 4 and 12, the version digit 4 and
  a variant digit from 8 to b.
\<close>

definition lower_hex :: "nat \<Rightarrow> bool" where
  "lower_hex c = (48 \<le> c \<and> c \<le> 57 \<or> 97 \<le> c \<and> c \<le> 102)"

definition uuid4_text :: "pystr \<Rightarrow> bool" where
  "uuid4_text x = (length x = 36
     \<and> list_all (\<lambda>i. if i \<in> {8, 13, 18, 23} then x ! i = 45 else lower_hex (x ! i)) [0..<36]
     \<and> x ! 14 = 52 \<and> x ! 19 \<in> {56, 57, 97, 98})"

definition eval_case_key :: "pyval \<Rightarrow> eval_code + pystr" where
  "eval_case_key value = (case value of
     V_Str x \<Rightarrow> if uuid4_text x then Inr x else Inl eval_case_key_invalid
   | _ \<Rightarrow> Inl eval_case_key_invalid)"

fun pages_from :: "int \<Rightarrow> pyval list \<Rightarrow> eval_code + int list" where
  "pages_from previous [] = Inr []"
| "pages_from previous (page # rest) = (case page of
     V_Int p \<Rightarrow>
       (if p \<le> 0 \<or> MAX_VERSION < p then Inl eval_pages_invalid
        else if p \<le> previous then Inl eval_order_invalid
        else map_sum id (Cons p) (pages_from p rest))
   | _ \<Rightarrow> Inl eval_pages_invalid)"

definition eval_pages :: "pyval \<Rightarrow> eval_code + int list" where
  "eval_pages value = (case value of
     V_List xs \<Rightarrow> if xs = [] then Inl eval_pages_invalid else pages_from 0 xs
   | _ \<Rightarrow> Inl eval_pages_invalid)"

definition entry :: "pystr \<Rightarrow> (pystr \<times> pyval) list \<Rightarrow> pyval" where
  "entry k kvs = (case map_of kvs k of None \<Rightarrow> V_Other | Some v \<Rightarrow> v)"

definition build_case :: "(pystr \<times> pyval) list \<Rightarrow> pystr \<Rightarrow> eval_code + eval_case" where
  "build_case kvs ty =
    (case eval_case_key (entry (u ''case_key'') kvs) of Inl e \<Rightarrow> Inl e | Inr k \<Rightarrow>
    (case eval_text Q_BYTES (entry (u ''q'') kvs) of Inl e \<Rightarrow> Inl e | Inr q \<Rightarrow>
    (case eval_text KEY_BYTES (entry (u ''key'') kvs) of Inl e \<Rightarrow> Inl e | Inr key \<Rightarrow>
    (case eval_text ANSWER_BYTES (entry (u ''answer'') kvs) of Inl e \<Rightarrow> Inl e | Inr answer \<Rightarrow>
    (case eval_pages (entry (u ''pages'') kvs) of Inl e \<Rightarrow> Inl e | Inr pages \<Rightarrow>
       Inr \<lparr>ec_case_key = k, ec_q = q, ec_key = key, ec_answer = answer, ec_pages = pages, ec_type = ty\<rparr>)))))"

definition validate_case :: "pyval \<Rightarrow> eval_code + eval_case" where
  "validate_case value = (case value of
     V_Dict kvs \<Rightarrow>
       (if set (map fst kvs) \<noteq> set CASE_KEYS then Inl eval_case_invalid
        else (case entry (u ''type'') kvs of
           V_Str ty \<Rightarrow> if ty \<notin> set CASE_TYPES then Inl eval_type_invalid else build_case kvs ty
         | _ \<Rightarrow> Inl eval_type_invalid))
   | _ \<Rightarrow> Inl eval_case_invalid)"

text \<open>\<open>tuple(f(case) for case in cases)\<close>: the first refusal ends it.\<close>

fun all_cases :: "(pyval \<Rightarrow> eval_code + eval_case) \<Rightarrow> pyval list \<Rightarrow> eval_code + eval_case list" where
  "all_cases f [] = Inr []"
| "all_cases f (v # vs) = (case f v of Inl e \<Rightarrow> Inl e | Inr c \<Rightarrow> map_sum id (Cons c) (all_cases f vs))"

text \<open>The check of the keys both entry points end with.\<close>

definition ordered_cases :: "eval_case list \<Rightarrow> eval_code + eval_case list" where
  "ordered_cases cs =
    (let keys = map ec_case_key cs
     in if \<not> distinct keys then Inl eval_case_key_duplicate
        else if keys \<noteq> sort keys then Inl eval_order_invalid
        else Inr cs)"

definition checked_cases :: "(pyval \<Rightarrow> eval_code + eval_case) \<Rightarrow> pyval list \<Rightarrow> eval_code + eval_case list" where
  "checked_cases f offered =
    (if \<not> (MIN_CASES \<le> int (length offered) \<and> int (length offered) \<le> MAX_CASES) then Inl eval_case_count_invalid
     else case all_cases f offered of Inl e \<Rightarrow> Inl e | Inr cs \<Rightarrow> ordered_cases cs)"

definition validate_version :: "pyval \<Rightarrow> eval_code + eval_version" where
  "validate_version value = (case value of
     V_Dict kvs \<Rightarrow>
       (if set (map fst kvs) \<noteq> set VERSION_KEYS then Inl eval_version_invalid
        else (case entry (u ''version'') kvs of
           V_Int version \<Rightarrow>
             (if version \<le> 0 \<or> MAX_VERSION < version then Inl eval_version_invalid
              else (case entry (u ''cases'') kvs of
                 V_List offered \<Rightarrow>
                   map_sum id (\<lambda>cs. \<lparr>ev_version = version, ev_cases = cs\<rparr>) (checked_cases validate_case offered)
               | _ \<Rightarrow> Inl eval_case_count_invalid))
         | _ \<Rightarrow> Inl eval_version_invalid))
   | _ \<Rightarrow> Inl eval_version_invalid)"

text \<open>\<open>_case_object\<close>, as a Python value.\<close>

definition case_object :: "eval_case \<Rightarrow> pyval" where
  "case_object c = V_Dict [(u ''answer'', V_Str (ec_answer c)), (u ''case_key'', V_Str (ec_case_key c)),
     (u ''key'', V_Str (ec_key c)), (u ''pages'', V_List (map V_Int (ec_pages c))),
     (u ''q'', V_Str (ec_q c)), (u ''type'', V_Str (ec_type c))]"

definition as_case :: "pyval \<Rightarrow> eval_code + eval_case" where
  "as_case value = (case value of
     V_Case c \<Rightarrow> validate_case (case_object c)
   | V_Dict kvs \<Rightarrow>
       (case map_of kvs (u ''pages'') of
          Some (V_Tuple ps) \<Rightarrow> validate_case (V_Dict (AList.update (u ''pages'') (V_List ps) kvs))
        | _ \<Rightarrow> validate_case value)
   | _ \<Rightarrow> validate_case value)"

definition case_sequence :: "pyval \<Rightarrow> eval_code + eval_case list" where
  "case_sequence value = (case value of
     V_List vs \<Rightarrow> checked_cases as_case vs
   | V_Tuple vs \<Rightarrow> checked_cases as_case vs
   | _ \<Rightarrow> Inl eval_case_count_invalid)"

text \<open>The dictionaries of \<open>normalize_cases\<close>: the pages of each are a tuple.\<close>

definition normal_dict :: "eval_case \<Rightarrow> pyval" where
  "normal_dict c = V_Dict [(u ''case_key'', V_Str (ec_case_key c)), (u ''q'', V_Str (ec_q c)),
     (u ''key'', V_Str (ec_key c)), (u ''answer'', V_Str (ec_answer c)),
     (u ''pages'', V_Tuple (map V_Int (ec_pages c))), (u ''type'', V_Str (ec_type c))]"

definition normalize_cases :: "pyval \<Rightarrow> eval_code + pyval list" where
  "normalize_cases value = map_sum id (map normal_dict) (case_sequence value)"

section \<open>Canonical bytes\<close>

text \<open>\<open>_canonical\<close> of \<open>_case_object\<close>: the keys stand in sorted order.\<close>

definition case_json :: "eval_case \<Rightarrow> json" where
  "case_json c = J_Dict [(u ''answer'', J_Str (ec_answer c)), (u ''case_key'', J_Str (ec_case_key c)),
     (u ''key'', J_Str (ec_key c)), (u ''pages'', J_List (map J_Int (ec_pages c))),
     (u ''q'', J_Str (ec_q c)), (u ''type'', J_Str (ec_type c))]"

definition version_json :: "eval_version \<Rightarrow> json" where
  "version_json v = J_Dict [(u ''cases'', J_List (map case_json (ev_cases v))), (u ''version'', J_Int (ev_version v))]"

text \<open>
  \<open>.encode("utf-8")\<close> raises \<open>UnicodeEncodeError\<close> on a lone surrogate; \<open>None\<close> is that exception,
  which a checked value never causes.
\<close>

definition canonical_case_bytes :: "eval_case \<Rightarrow> eval_code + nat list option" where
  "canonical_case_bytes c = (case validate_case (case_object c) of
     Inl e \<Rightarrow> Inl e | Inr d \<Rightarrow> Inr (utf8_encode (print_json (case_json d))))"

definition version_object :: "eval_version \<Rightarrow> pyval" where
  "version_object v = V_Dict [(u ''cases'', V_List (map case_object (ev_cases v))), (u ''version'', V_Int (ev_version v))]"

definition canonical_version_bytes :: "eval_version \<Rightarrow> eval_code + nat list option" where
  "canonical_version_bytes v = (case validate_version (version_object v) of
     Inl e \<Rightarrow> Inl e | Inr w \<Rightarrow> Inr (utf8_encode (print_json (version_json w))))"

definition case_digest :: "(nat list \<Rightarrow> pystr) \<Rightarrow> pyval \<Rightarrow> eval_code + pystr option" where
  "case_digest sha value = (case as_case value of
     Inl e \<Rightarrow> Inl e | Inr c \<Rightarrow> map_sum id (map_option sha) (canonical_case_bytes c))"

definition version_sha256 :: "(nat list \<Rightarrow> pystr) \<Rightarrow> eval_version \<Rightarrow> eval_code + pystr option" where
  "version_sha256 sha v = map_sum id (map_option sha) (canonical_version_bytes v)"

text \<open>The body \<open>version_digest\<close> hashes: the cases without a version number.\<close>

definition cases_body :: "eval_case list \<Rightarrow> nat list option" where
  "cases_body cs = utf8_encode (print_json (J_Dict [(u ''cases'', J_List (map case_json cs))]))"

definition version_digest :: "(nat list \<Rightarrow> pystr) \<Rightarrow> pyval \<Rightarrow> eval_code + pystr option" where
  "version_digest sha value = map_sum id (\<lambda>cs. map_option sha (cases_body cs)) (case_sequence value)"

section \<open>The legacy projection\<close>

record legacy_case =
  lc_q :: pystr
  lc_key :: pystr
  lc_answer :: pystr
  lc_pages :: "int list"
  lc_type :: pystr

definition project_legacy_case :: "eval_case \<Rightarrow> eval_code + legacy_case" where
  "project_legacy_case c = map_sum id (\<lambda>d. \<lparr>lc_q = ec_q d, lc_key = ec_key d, lc_answer = ec_answer d,
     lc_pages = ec_pages d, lc_type = ec_type d\<rparr>) (validate_case (case_object c))"

fun project_all :: "eval_case list \<Rightarrow> eval_code + legacy_case list" where
  "project_all [] = Inr []"
| "project_all (c # cs) = (case project_legacy_case c of
     Inl e \<Rightarrow> Inl e | Inr l \<Rightarrow> map_sum id (Cons l) (project_all cs))"

definition project_legacy :: "pyval \<Rightarrow> eval_code + legacy_case list" where
  "project_legacy value = (case case_sequence value of Inl e \<Rightarrow> Inl e | Inr cs \<Rightarrow> project_all cs)"

section \<open>Reading a version\<close>

text \<open>\<open>json.loads\<close> gives dictionaries, lists, texts, ints and other values.\<close>

fun value_of_json :: "json \<Rightarrow> pyval" where
  "value_of_json (J_Str x) = V_Str x"
| "value_of_json (J_Int i) = V_Int i"
| "value_of_json (J_List js) = V_List (map value_of_json js)"
| "value_of_json (J_Dict kvs) = V_Dict (map (\<lambda>(k, j). (k, value_of_json j)) kvs)"
| "value_of_json _ = V_Other"

text \<open>
  Two limits of the interpreter are not modelled: a text nested beyond the recursion limit and an
  integer literal of more than 4300 digits are refused by the code as well, the first as
  \<open>eval_json_invalid\<close>, the second with a plain \<open>ValueError\<close>.
\<close>

definition load_version_json :: "nat list \<Rightarrow> eval_code + eval_version" where
  "load_version_json raw =
    (if raw = [] \<or> MAX_JSON_BYTES < int (length raw) then Inl eval_json_invalid
     else case utf8_decode raw of
       None \<Rightarrow> Inl eval_json_invalid
     | Some x \<Rightarrow>
        (if take 1 x = [65279] then Inl eval_json_invalid
         else case json_loads x of
           Inl Repeated_Key \<Rightarrow> Inl eval_json_duplicate_key
         | Inl _ \<Rightarrow> Inl eval_json_invalid
         | Inr j \<Rightarrow> validate_version (value_of_json j)))"

section \<open>What is accepted\<close>

text \<open>The accepted cases: their own object validates to themselves.\<close>

definition good_text :: "int \<Rightarrow> pystr \<Rightarrow> bool" where
  "good_text limit x \<longleftrightarrow> eval_text limit (V_Str x) = Inr x"

definition good_pages :: "int list \<Rightarrow> bool" where
  "good_pages ps \<longleftrightarrow> ps \<noteq> [] \<and> sorted_wrt (<) ps \<and> (\<forall>p\<in>set ps. 0 < p \<and> p \<le> MAX_VERSION)"

definition good_case :: "eval_case \<Rightarrow> bool" where
  "good_case c \<longleftrightarrow> uuid4_text (ec_case_key c) \<and> good_text Q_BYTES (ec_q c) \<and> good_text KEY_BYTES (ec_key c)
     \<and> good_text ANSWER_BYTES (ec_answer c) \<and> good_pages (ec_pages c) \<and> ec_type c \<in> set CASE_TYPES"

definition good_cases :: "eval_case list \<Rightarrow> bool" where
  "good_cases cs \<longleftrightarrow> cs \<noteq> [] \<and> int (length cs) \<le> MAX_CASES \<and> (\<forall>c\<in>set cs. good_case c)
     \<and> sorted (map ec_case_key cs) \<and> distinct (map ec_case_key cs)"

lemma eval_text_Inr: "eval_text limit v = Inr x \<Longrightarrow> v = V_Str x \<and> good_text limit x"
  by (auto simp: eval_text_def good_text_def split: pyval.splits option.splits if_splits)

lemma good_text_scalar: "good_text limit x \<Longrightarrow> list_all is_scalar x"
  by (auto simp: good_text_def eval_text_def utf8_encode_def split: option.splits if_splits)

lemma pages_from_Inr:
  "pages_from n vs = Inr ps \<Longrightarrow> vs = map V_Int ps \<and> sorted_wrt (<) ps \<and> (\<forall>p\<in>set ps. n < p \<and> 0 < p \<and> p \<le> MAX_VERSION)"
proof (induction n vs arbitrary: ps rule: pages_from.induct)
  case (2 n v vs)
  from 2(2) obtain p qs where v: "v = V_Int p" "0 < p" "p \<le> MAX_VERSION" "n < p"
      and qs: "pages_from p vs = Inr qs" "ps = p # qs"
    by (auto split: pyval.splits if_splits simp: map_sum_def sum.splits) (auto split: sum.splits)
  from 2(1) [OF v(1) _ _ qs(1)] v qs(2) show ?case by fastforce
qed simp

lemma pages_from_map:
  "sorted_wrt (<) ps \<Longrightarrow> (\<forall>p\<in>set ps. n < p \<and> 0 < p \<and> p \<le> MAX_VERSION) \<Longrightarrow> pages_from n (map V_Int ps) = Inr ps"
  by (induction ps arbitrary: n) auto

lemma eval_pages_iff: "eval_pages v = Inr ps \<longleftrightarrow> v = V_List (map V_Int ps) \<and> good_pages ps"
proof
  assume "eval_pages v = Inr ps"
  then obtain vs where "v = V_List vs" "vs \<noteq> []" "pages_from 0 vs = Inr ps"
    by (auto simp: eval_pages_def split: pyval.splits if_splits)
  with pages_from_Inr [of 0 vs ps] show "v = V_List (map V_Int ps) \<and> good_pages ps"
    by (auto simp: good_pages_def)
next
  assume "v = V_List (map V_Int ps) \<and> good_pages ps"
  then show "eval_pages v = Inr ps"
    using pages_from_map [of ps 0] by (auto simp: eval_pages_def good_pages_def)
qed

lemma build_case_Inr: "build_case kvs ty = Inr c \<Longrightarrow> ty \<in> set CASE_TYPES \<Longrightarrow> good_case c"
  by (auto simp: build_case_def good_case_def eval_case_key_def eval_pages_iff dest!: eval_text_Inr
      split: sum.splits pyval.splits if_splits)

lemma validate_case_good: "validate_case v = Inr c \<Longrightarrow> good_case c"
  by (auto simp: validate_case_def split: pyval.splits if_splits intro: build_case_Inr)

lemma build_case_complete:
  assumes "good_case c" "entry (u ''case_key'') kvs = V_Str (ec_case_key c)" "entry (u ''q'') kvs = V_Str (ec_q c)"
    and "entry (u ''key'') kvs = V_Str (ec_key c)" "entry (u ''answer'') kvs = V_Str (ec_answer c)"
    and "entry (u ''pages'') kvs = V_List (map V_Int (ec_pages c))"
  shows "build_case kvs (ec_type c) = Inr c"
proof -
  have "eval_pages (V_List (map V_Int (ec_pages c))) = Inr (ec_pages c)"
    using assms(1) by (simp add: eval_pages_iff good_case_def)
  then show ?thesis
    using assms by (simp add: build_case_def eval_case_key_def good_case_def good_text_def)
qed

lemma validate_case_object:
  assumes "good_case c"
  shows "validate_case (case_object c) = Inr c"
proof -
  let ?kvs = "[(u ''answer'', V_Str (ec_answer c)), (u ''case_key'', V_Str (ec_case_key c)),
     (u ''key'', V_Str (ec_key c)), (u ''pages'', V_List (map V_Int (ec_pages c))),
     (u ''q'', V_Str (ec_q c)), (u ''type'', V_Str (ec_type c))]"
  have "set (map fst ?kvs) = set CASE_KEYS" by (auto simp: CASE_KEYS_def)
  moreover have "entry (u ''type'') ?kvs = V_Str (ec_type c)" by (simp add: entry_def)
  moreover have "build_case ?kvs (ec_type c) = Inr c"
    by (rule build_case_complete [OF assms]) (simp_all add: entry_def)
  moreover have "ec_type c \<in> set CASE_TYPES" using assms by (simp add: good_case_def)
  ultimately show ?thesis by (simp add: validate_case_def case_object_def)
qed

lemma as_case_good: "as_case v = Inr c \<Longrightarrow> good_case c"
  by (auto simp: as_case_def split: pyval.splits option.splits intro: validate_case_good)

lemma as_case_normal:
  assumes "good_case c"
  shows "as_case (normal_dict c) = Inr c"
proof -
  let ?kvs = "[(u ''case_key'', V_Str (ec_case_key c)), (u ''q'', V_Str (ec_q c)),
     (u ''key'', V_Str (ec_key c)), (u ''answer'', V_Str (ec_answer c)),
     (u ''pages'', V_List (map V_Int (ec_pages c))), (u ''type'', V_Str (ec_type c))]"
  have "as_case (normal_dict c) = validate_case (V_Dict ?kvs)"
    by (simp add: as_case_def normal_dict_def)
  moreover have "set (map fst ?kvs) = set CASE_KEYS" by (auto simp: CASE_KEYS_def)
  moreover have "entry (u ''type'') ?kvs = V_Str (ec_type c)" by (simp add: entry_def)
  moreover have "build_case ?kvs (ec_type c) = Inr c"
    by (rule build_case_complete [OF assms]) (simp_all add: entry_def)
  moreover have "ec_type c \<in> set CASE_TYPES" using assms by (simp add: good_case_def)
  ultimately show ?thesis by (simp add: validate_case_def)
qed

lemma all_cases_Inr: "all_cases f vs = Inr cs \<longleftrightarrow> list_all2 (\<lambda>v c. f v = Inr c) vs cs"
proof (induction vs arbitrary: cs)
  case (Cons v vs)
  show ?case
  proof (cases "f v")
    case (Inl e)
    then show ?thesis by (auto simp: list_all2_Cons1)
  next
    case (Inr c)
    with Cons.IH show ?thesis
      by (cases "all_cases f vs") (auto simp: list_all2_Cons1)
  qed
qed auto

lemma ordered_cases_Inr: "ordered_cases cs = Inr ds \<Longrightarrow> ds = cs \<and> distinct (map ec_case_key cs) \<and> sorted (map ec_case_key cs)"
proof -
  assume "ordered_cases cs = Inr ds"
  then have "distinct (map ec_case_key cs)" "map ec_case_key cs = sort (map ec_case_key cs)" "ds = cs"
    by (simp_all add: ordered_cases_def Let_def split: if_splits)
  then show ?thesis by (metis sorted_sort)
qed

lemma checked_cases_Inr:
  assumes "checked_cases f vs = Inr cs" "\<And>v c. f v = Inr c \<Longrightarrow> good_case c"
  shows "good_cases cs" "length cs = length vs"
proof -
  from assms(1) have count: "1 \<le> int (length vs)" "int (length vs) \<le> MAX_CASES"
    by (simp_all add: checked_cases_def MIN_CASES_def split: if_splits)
  with assms(1) obtain ds where all: "all_cases f vs = Inr ds" and ord: "ordered_cases ds = Inr cs"
    by (cases "all_cases f vs") (simp_all add: checked_cases_def MIN_CASES_def)
  note keys = ordered_cases_Inr [OF ord]
  from all keys have l: "list_all2 (\<lambda>v c. f v = Inr c) vs cs" by (simp add: all_cases_Inr)
  have good: "good_case c" if "c \<in> set cs" for c
    using that l assms(2) by (auto simp: list_all2_conv_all_nth in_set_conv_nth)
  from l show len: "length cs = length vs" by (simp add: list_all2_lengthD)
  with count good keys show "good_cases cs" by (auto simp: good_cases_def)
qed

lemma checked_cases_complete:
  assumes "good_cases cs" "\<And>c. good_case c \<Longrightarrow> f (g c) = Inr c"
  shows "checked_cases f (map g cs) = Inr cs"
proof -
  have "all_cases f (map g cs) = Inr cs"
    using assms by (auto simp: all_cases_Inr list_all2_conv_all_nth good_cases_def)
  moreover have "1 \<le> length cs" using assms(1) by (cases cs) (auto simp: good_cases_def)
  moreover have "sort (map ec_case_key cs) = map ec_case_key cs"
    using assms(1) by (intro sorted_sort_id) (simp add: good_cases_def)
  ultimately show ?thesis
    using assms(1) by (simp add: checked_cases_def ordered_cases_def MIN_CASES_def good_cases_def)
qed

lemma case_sequence_good: "case_sequence v = Inr cs \<Longrightarrow> good_cases cs"
  by (auto simp: case_sequence_def split: pyval.splits dest: checked_cases_Inr(1) as_case_good)

lemma case_sequence_normal: "good_cases cs \<Longrightarrow> case_sequence (V_Tuple (map normal_dict cs)) = Inr cs"
  by (simp add: case_sequence_def checked_cases_complete as_case_normal)

text \<open>Normalised cases normalise to themselves.\<close>

lemma normalize_cases_idem: "normalize_cases v = Inr ds \<Longrightarrow> normalize_cases (V_Tuple ds) = Inr ds"
proof -
  assume "normalize_cases v = Inr ds"
  then obtain cs where "case_sequence v = Inr cs" "ds = map normal_dict cs"
    by (cases "case_sequence v") (auto simp: normalize_cases_def)
  then show ?thesis using case_sequence_normal [OF case_sequence_good] by (simp add: normalize_cases_def)
qed

lemma map_sum_Inr: "map_sum id f z = Inr y \<longleftrightarrow> (\<exists>x. z = Inr x \<and> y = f x)"
  by (cases z) auto

lemma validate_version_good:
  "validate_version v = Inr w \<Longrightarrow> good_cases (ev_cases w) \<and> 0 < ev_version w \<and> ev_version w \<le> MAX_VERSION"
proof -
  assume "validate_version v = Inr w"
  then obtain n offered cs where "checked_cases validate_case offered = Inr cs"
      "w = \<lparr>ev_version = n, ev_cases = cs\<rparr>" "0 < n" "n \<le> MAX_VERSION"
    by (auto simp: validate_version_def map_sum_Inr split: pyval.splits if_splits)
  with checked_cases_Inr(1) [of validate_case offered cs] validate_case_good show ?thesis by auto
qed

lemma validate_version_object:
  assumes "good_cases (ev_cases w)" "0 < ev_version w" "ev_version w \<le> MAX_VERSION"
  shows "validate_version (version_object w) = Inr w"
proof -
  let ?kvs = "[(u ''cases'', V_List (map case_object (ev_cases w))), (u ''version'', V_Int (ev_version w))]"
  have "set (map fst ?kvs) = set VERSION_KEYS" by (auto simp: VERSION_KEYS_def)
  moreover have "checked_cases validate_case (map case_object (ev_cases w)) = Inr (ev_cases w)"
    by (rule checked_cases_complete [OF assms(1) validate_case_object])
  ultimately show ?thesis using assms by (simp add: validate_version_def version_object_def entry_def)
qed

section \<open>Canonical bytes read back\<close>

fun strings_scalar :: "json \<Rightarrow> bool" where
  "strings_scalar (J_Str x) = list_all is_scalar x"
| "strings_scalar (J_List js) = list_all strings_scalar js"
| "strings_scalar (J_Dict kvs) = list_all (\<lambda>(k, j). list_all is_scalar k \<and> strings_scalar j) kvs"
| "strings_scalar _ = True"

lemma ascii_scalar: "c < 128 \<Longrightarrow> is_scalar c"
  by (simp add: is_scalar_def is_surrogate_def)

lemma json_text_scalar: "list_all is_scalar x \<Longrightarrow> list_all is_scalar (json_text x)"
proof -
  have "list_all is_scalar (json_char c)" if "is_scalar c" for c
    using that by (auto simp: json_char_def is_scalar_def is_surrogate_def hex_digit_def)
  then show "list_all is_scalar x \<Longrightarrow> list_all is_scalar (json_text x)"
    by (induction x) (auto simp: json_text_def is_scalar_def is_surrogate_def)
qed

lemma commas_scalar: "(\<forall>x\<in>set xs. list_all is_scalar x) \<Longrightarrow> list_all is_scalar (commas xs)"
  by (induction xs rule: commas.induct) (auto simp: is_scalar_def is_surrogate_def)

lemma int_text_scalar: "list_all is_scalar (int_text i)"
proof -
  have "list_all is_scalar (nat_text n)" for n
    using nat_text_digits [of n] by (auto simp: list_all_iff is_digit_def is_scalar_def is_surrogate_def)
  then show ?thesis by (simp add: int_text_def is_scalar_def is_surrogate_def)
qed

lemma print_json_scalar: "strings_scalar j \<Longrightarrow> list_all is_scalar (print_json j)"
proof (induction j rule: json.induct)
  case (J_List js)
  then have "list_all is_scalar (commas (map print_json js))"
    by (intro commas_scalar) (auto simp: list_all_iff)
  then show ?case by (simp add: ascii_scalar)
next
  case (J_Dict kvs)
  have "list_all is_scalar (pair_text p)" if "p \<in> set kvs" for p
  proof -
    obtain k j where p: "p = (k, j)" by (cases p)
    with that J_Dict(2) have "list_all is_scalar k" "strings_scalar j" by (auto simp: list_all_iff)
    with J_Dict(1) [of p j] that p show ?thesis
      by (simp add: pair_text_def json_text_scalar ascii_scalar)
  qed
  then have "list_all is_scalar (commas (map pair_text kvs))" by (intro commas_scalar) auto
  then show ?case by (simp add: pair_text_def ascii_scalar)
qed (auto simp: json_text_scalar int_text_scalar u_def ascii_scalar)

lemma literal_scalar: "list_all is_scalar (u w)"
proof -
  have "is_scalar (of_char c)" for c :: char
  proof -
    have "of_char c < (256 :: nat)" by (rule nat_of_char_less_256)
    then have "of_char c < (55296 :: nat)" by linarith
    then show ?thesis by (simp add: is_scalar_def is_surrogate_def)
  qed
  then show ?thesis by (simp add: u_def list_all_iff)
qed

lemma uuid4_scalar:
  assumes "uuid4_text x"
  shows "list_all is_scalar x"
proof -
  have len: "length x = 36" and all: "list_all (\<lambda>i. if i \<in> {8, 13, 18, 23} then x ! i = 45 else lower_hex (x ! i)) [0..<36]"
    using assms unfolding uuid4_text_def by blast+
  have "is_scalar (x ! i)" if "i < 36" for i
  proof -
    from all that have "if i \<in> {8, 13, 18, 23} then x ! i = 45 else lower_hex (x ! i)"
      unfolding list_all_iff by (metis atLeastLessThan_iff atLeastLessThan_upt le0)
    then have "x ! i < 128" by (auto simp: lower_hex_def split: if_splits)
    then show ?thesis by (rule ascii_scalar)
  qed
  with len show ?thesis by (simp add: list_all_length)
qed

lemma case_json_ok: "good_case c \<Longrightarrow> printable (case_json c) \<and> strings_scalar (case_json c)"
  by (auto simp: case_json_def good_case_def CASE_TYPES_def list_all_iff
      intro: good_text_scalar [unfolded list_all_iff, rule_format] uuid4_scalar [unfolded list_all_iff, rule_format]
        literal_scalar [unfolded list_all_iff, rule_format])

lemma value_of_case_json: "value_of_json (case_json c) = case_object c"
  by (simp add: case_json_def case_object_def)

lemma value_of_version_json: "value_of_json (version_json w) = version_object w"
  by (simp add: version_json_def version_object_def value_of_case_json)

lemma cases_json_ok:
  "good_cases cs \<Longrightarrow> printable (J_List (map case_json cs)) \<and> strings_scalar (J_List (map case_json cs))"
  using case_json_ok by (auto simp: good_cases_def list_all_iff)

lemma version_json_ok: "good_cases (ev_cases w) \<Longrightarrow> printable (version_json w) \<and> strings_scalar (version_json w)"
  using cases_json_ok [of "ev_cases w"] literal_scalar by (auto simp: version_json_def)

lemma encode_json: "strings_scalar j \<Longrightarrow> \<exists>bs. utf8_encode (print_json j) = Some bs"
  using print_json_scalar by (simp add: utf8_encode_def)

lemma canonical_version_bytes_good:
  assumes "good_cases (ev_cases w)" "0 < ev_version w" "ev_version w \<le> MAX_VERSION"
  obtains bs where "canonical_version_bytes w = Inr (Some bs)" "utf8_encode (print_json (version_json w)) = Some bs"
  using encode_json [of "version_json w"] version_json_ok [OF assms(1)] validate_version_object [OF assms]
  by (auto simp: canonical_version_bytes_def)

lemma load_canonical:
  assumes "good_cases (ev_cases w)" "0 < ev_version w" "ev_version w \<le> MAX_VERSION"
    and "utf8_encode (print_json (version_json w)) = Some bs" "int (length bs) \<le> MAX_JSON_BYTES"
  shows "load_version_json bs = Inr w"
proof -
  have head: "\<exists>x. print_json (version_json w) = 123 # x" by (simp add: version_json_def)
  then have "bs \<noteq> []" using assms(4) by (auto simp: utf8_encode_def utf8_char_def split: if_splits)
  moreover have "json_loads (print_json (version_json w)) = Inr (version_json w)"
    using version_json_ok [OF assms(1)] by (intro json_roundtrip) simp
  moreover have "take 1 (print_json (version_json w)) \<noteq> [65279]" using head by auto
  ultimately show ?thesis
    using assms(5) utf8_roundtrip [OF assms(4)] validate_version_object [OF assms(1-3)]
    by (simp add: load_version_json_def value_of_version_json)
qed

lemma case_json_injective: "case_json c = case_json d \<Longrightarrow> c = d"
  by (auto simp: case_json_def inj_map_eq_map inj_def intro: eval_case.equality)

lemma cases_body_injective:
  assumes "good_cases cs" "good_cases ds" "cases_body cs = cases_body ds"
  shows "cs = ds"
proof -
  let ?j = "\<lambda>cs. J_Dict [(u ''cases'', J_List (map case_json cs))]"
  have ok: "printable (?j xs) \<and> strings_scalar (?j xs)" if "good_cases xs" for xs
    using cases_json_ok [OF that] literal_scalar by auto
  from ok [OF assms(1)] encode_json obtain bs where "utf8_encode (print_json (?j cs)) = Some bs" by blast
  with assms(3) have "print_json (?j cs) = print_json (?j ds)"
    by (intro utf8_injective [of _ bs]) (simp_all add: cases_body_def)
  with ok assms(1,2) have "?j cs = ?j ds" by (intro print_json_injective) blast+
  then have "map case_json cs = map case_json ds" by simp
  moreover have "inj case_json" by (rule injI) (rule case_json_injective)
  ultimately show ?thesis by (simp add: inj_map_eq_map)
qed

lemma cases_body_total: "good_cases cs \<Longrightarrow> \<exists>bs. cases_body cs = Some bs"
  using cases_json_ok [of cs] literal_scalar
  by (auto simp: cases_body_def simp del: print_json.simps intro!: encode_json)

end
