(* ===== verification/Eval_Datasets.thy ===== *)
theory Eval_Datasets
  imports Organisation_Machine Eval_Contract
begin

text \<open>
  Governed evaluation datasets: the \<open>eval_\<close> tables of \<open>pipeline/index/schema.sql\<close> with their
  checks, row security and immutability triggers, and the operations of \<open>pipeline/index/db.py\<close>
  on them, over the organisation of the tenant. Identifiers arrive parsed, revisions are ints;
  SHA-256 is the argument \<open>sha\<close>, a digest its hexadecimal text.
\<close>

section \<open>Tables\<close>

datatype dataset_state = Ds_Active | Ds_Retired

record dataset =
  ds_id :: uuid
  ds_owner :: uuid
  ds_slug :: pystr
  ds_label :: pystr
  ds_state :: dataset_state
  ds_current :: "uuid option"
  ds_revision :: int
  ds_created_at :: time
  ds_updated_at :: time

datatype version_state = Draft | Published

record dataset_version =
  dv_id :: uuid
  dv_dataset :: uuid
  dv_number :: int
  dv_state :: version_state
  dv_parent :: "uuid option"
  dv_created_by :: uuid
  dv_published_by :: "uuid option"
  dv_revision :: int
  dv_count :: int
  dv_sha :: "pystr option"
  dv_created_at :: time
  dv_sealed_at :: "time option"

record case_row =
  cr_version :: uuid
  cr_ordinal :: int
  cr_case :: eval_case
  cr_sha :: pystr

datatype dataset_event_type =
  Dataset_Created | Version_Created | Version_Cases_Replaced | Version_Published | Dataset_Retired

record dataset_event =
  de_dataset :: uuid
  de_version :: "uuid option"
  de_actor :: uuid
  de_type :: dataset_event_type
  de_base :: "int option"
  de_result :: int
  de_count :: "int option"
  de_sha :: "pystr option"

record eval_store =
  es_org :: organisation
  es_datasets :: "dataset list"
  es_versions :: "dataset_version list"
  es_cases :: "case_row list"
  es_events :: "dataset_event list"

text \<open>
  \<open>Contract\<close> carries the code of an \<open>EvalDatasetError\<close>; \<open>Schema\<close> and \<open>Row_Security\<close> are what
  the database raises for a violated constraint and a violated policy.
\<close>

datatype dataset_error =
    EvalDatasetAccessRefused
  | EvalDatasetConflict
  | EvalDatasetStateRefused
  | Contract eval_code
  | UnicodeEncodeError
  | Schema
  | Row_Security

section \<open>Authority\<close>

text \<open>\<open>rag_eval_owner_can_read\<close> and \<open>rag_eval_owner_can_write\<close>.\<close>

definition owner_reach :: "session \<Rightarrow> 'a organisation_scheme \<Rightarrow> app_role list \<Rightarrow> uuid \<Rightarrow> bool" where
  "owner_reach s g roles owner = list_ex (\<lambda>m. se_actor s = Some (m_identity m) \<and> m_state m = Seat_Active
     \<and> m_role m \<in> set roles
     \<and> list_ex (\<lambda>x. i_id x = m_identity m \<and> i_state x = Seat_Active) (o_identities g)
     \<and> (m_identity m = owner \<or> can_monitor g (m_identity m) owner)) (o_members g)"

definition owner_can_read :: "session \<Rightarrow> 'a organisation_scheme \<Rightarrow> uuid \<Rightarrow> bool" where
  "owner_can_read s g owner = owner_reach s g [Reader, Editor, Admin] owner"

definition owner_can_write :: "session \<Rightarrow> 'a organisation_scheme \<Rightarrow> uuid \<Rightarrow> bool" where
  "owner_can_write s g owner = owner_reach s g [Editor, Admin] owner"

definition eval_actor :: "uuid \<Rightarrow> dataset_error option" where
  "eval_actor actor = (if actor = 0 then Some EvalDatasetAccessRefused else None)"

definition lock_eval_policy :: "eval_store \<Rightarrow> int option \<Rightarrow> dataset_error + int" where
  "lock_eval_policy g expected = (case o_tenant (es_org g) of
     None \<Rightarrow> Inl EvalDatasetAccessRefused
   | Some t \<Rightarrow> (if expected \<noteq> None \<and> expected \<noteq> Some (tn_epoch t) then Inl EvalDatasetConflict
               else Inr (tn_epoch t)))"

text \<open>\<open>WHERE id = %s AND rag_effective_actor() = %s AND rag_eval_owner_can_write(owner_identity_id)\<close>\<close>

definition writable_dataset :: "session \<Rightarrow> uuid \<Rightarrow> uuid \<Rightarrow> eval_store \<Rightarrow> dataset option" where
  "writable_dataset s actor i g = find (\<lambda>d. ds_id d = i \<and> se_actor s = Some actor
     \<and> owner_can_write s (es_org g) (ds_owner d)) (es_datasets g)"

definition version_of :: "uuid \<Rightarrow> uuid \<Rightarrow> eval_store \<Rightarrow> dataset_version option" where
  "version_of i dataset g = find (\<lambda>v. dv_id v = i \<and> dv_dataset v = dataset) (es_versions g)"

definition versions_in :: "uuid \<Rightarrow> dataset_version list \<Rightarrow> dataset_version list" where
  "versions_in dataset vs = filter (\<lambda>v. dv_dataset v = dataset) vs"

definition rows_of :: "uuid \<Rightarrow> case_row list \<Rightarrow> case_row list" where
  "rows_of version rows = filter (\<lambda>r. cr_version r = version) rows"

definition has_draft :: "uuid \<Rightarrow> eval_store \<Rightarrow> bool" where
  "has_draft dataset g = list_ex (\<lambda>v. dv_state v = Draft) (versions_in dataset (es_versions g))"

definition issue_id :: "eval_store \<Rightarrow> uuid \<times> eval_store" where
  "issue_id g = (o_next (es_org g), g\<lparr>es_org := snd (new_id (es_org g))\<rparr>)"

definition es_now :: "eval_store \<Rightarrow> time" where
  "es_now g = o_clock (es_org g)"

definition log_event ::
  "uuid \<Rightarrow> uuid option \<Rightarrow> uuid \<Rightarrow> dataset_event_type \<Rightarrow> int option \<Rightarrow> int \<Rightarrow> int option \<Rightarrow> pystr option
     \<Rightarrow> eval_store \<Rightarrow> eval_store" where
  "log_event dataset version actor ty base result count digest g = g\<lparr>es_events := es_events g @
     [\<lparr>de_dataset = dataset, de_version = version, de_actor = actor, de_type = ty, de_base = base,
       de_result = result, de_count = count, de_sha = digest\<rparr>]\<rparr>"

definition bump_dataset :: "(dataset \<Rightarrow> dataset) \<Rightarrow> uuid \<Rightarrow> eval_store \<Rightarrow> eval_store" where
  "bump_dataset f i g = g\<lparr>es_datasets := update_rows (\<lambda>d. ds_id d = i)
     (\<lambda>d. (f d)\<lparr>ds_revision := ds_revision d + 1, ds_updated_at := es_now g\<rparr>) (es_datasets g)\<rparr>"

section \<open>Creating a dataset\<close>

text \<open>\<open>slug ~ '^[a-z0-9]+(?:-[a-z0-9]+)*$'\<close>\<close>

fun slug_from :: "bool \<Rightarrow> pystr \<Rightarrow> bool" where
  "slug_from inside [] = inside"
| "slug_from inside (c # cs) =
    (if c = 45 then inside \<and> slug_from False cs
     else (97 \<le> c \<and> c \<le> 122 \<or> 48 \<le> c \<and> c \<le> 57) \<and> slug_from True cs)"

definition new_dataset :: "uuid \<Rightarrow> uuid \<Rightarrow> pystr \<Rightarrow> pystr \<Rightarrow> time \<Rightarrow> dataset" where
  "new_dataset i owner slug label at_time = \<lparr>ds_id = i, ds_owner = owner, ds_slug = slug, ds_label = label,
     ds_state = Ds_Active, ds_current = None, ds_revision = 1, ds_created_at = at_time, ds_updated_at = at_time\<rparr>"

definition new_version :: "uuid \<Rightarrow> uuid \<Rightarrow> int \<Rightarrow> uuid option \<Rightarrow> uuid \<Rightarrow> time \<Rightarrow> dataset_version" where
  "new_version i dataset number parent actor at_time = \<lparr>dv_id = i, dv_dataset = dataset, dv_number = number,
     dv_state = Draft, dv_parent = parent, dv_created_by = actor, dv_published_by = None, dv_revision = 1,
     dv_count = 0, dv_sha = None, dv_created_at = at_time, dv_sealed_at = None\<rparr>"

definition create_eval_dataset ::
  "session \<Rightarrow> uuid \<Rightarrow> pystr \<Rightarrow> pystr \<Rightarrow> eval_store \<Rightarrow> dataset_error + (dataset \<times> dataset_version) \<times> eval_store" where
  "create_eval_dataset s actor slug label g =
    (case eval_actor actor of Some e \<Rightarrow> Inl e | None \<Rightarrow>
    (if \<not> (1 \<le> length slug \<and> length slug \<le> 80 \<and> 1 \<le> length label \<and> length label \<le> 160)
     then Inl EvalDatasetAccessRefused
     else case lock_eval_policy g None of
       Inl e \<Rightarrow> Inl e
     | Inr epoch \<Rightarrow>
        (let (i, g1) = issue_id g; (v, g2) = issue_id g1;
             d = new_dataset i actor slug label (es_now g);
             w = new_version v i 1 None actor (es_now g);
             g3 = g2\<lparr>es_datasets := es_datasets g2 @ [d], es_versions := es_versions g2 @ [w]\<rparr>
         in if \<not> (se_service s \<or> se_actor s = Some actor \<and> owner_can_write s (es_org g) actor)
            then Inl Row_Security
            else if \<not> slug_from False slug then Inl Schema
            else if slug \<in> ds_slug ` set (es_datasets g) then Inl EvalDatasetConflict
            else if actor \<notin> m_identity ` set (o_members (es_org g)) then Inl Schema
            else Inr ((d, w), log_event i (Some v) actor Version_Created None 1 (Some 0) None
                 (log_event i None actor Dataset_Created None 1 None None g3)))))"

section \<open>Drafts\<close>

definition create_eval_draft ::
  "session \<Rightarrow> uuid \<Rightarrow> uuid \<Rightarrow> int \<Rightarrow> eval_store \<Rightarrow> dataset_error + (dataset_version \<times> int) \<times> eval_store" where
  "create_eval_draft s actor dataset expected g =
    (case eval_actor actor of Some e \<Rightarrow> Inl e | None \<Rightarrow>
    (if expected < 1 then Inl EvalDatasetConflict
     else case lock_eval_policy g None of
       Inl e \<Rightarrow> Inl e
     | Inr epoch \<Rightarrow>
    (case writable_dataset s actor dataset g of
       None \<Rightarrow> Inl EvalDatasetAccessRefused
     | Some d \<Rightarrow>
        (if ds_state d \<noteq> Ds_Active then Inl EvalDatasetStateRefused
         else if ds_revision d \<noteq> expected then Inl EvalDatasetConflict
         else if has_draft dataset g then Inl EvalDatasetStateRefused
         else
           (let (v, g1) = issue_id g;
                number = fold max (map dv_number (versions_in dataset (es_versions g))) 0 + 1;
                w = new_version v dataset number (ds_current d) actor (es_now g);
                g2 = bump_dataset id dataset (g1\<lparr>es_versions := es_versions g1 @ [w]\<rparr>)
            in Inr ((w, ds_revision d + 1), log_event dataset (Some v) actor Version_Created
                 (Some expected) (ds_revision d + 1) (Some 0) None g2))))))"

text \<open>The CHECKs of a row of \<open>eval_cases\<close>; \<open>rag_eval_pages_valid\<close> allows at most 100 pages.\<close>

definition text_fits :: "int \<Rightarrow> pystr \<Rightarrow> bool" where
  "text_fits limit x = (case utf8_encode x of None \<Rightarrow> False | Some bs \<Rightarrow> bs \<noteq> [] \<and> int (length bs) \<le> limit)"

definition pages_valid :: "int list \<Rightarrow> bool" where
  "pages_valid ps = (ps \<noteq> [] \<and> length ps \<le> 100 \<and> list_all (\<lambda>p. 0 < p) ps \<and> sorted_wrt (<) ps)"

definition case_row_ok :: "int \<Rightarrow> eval_case \<Rightarrow> bool" where
  "case_row_ok ordinal c = (1 \<le> ordinal \<and> ordinal \<le> 500 \<and> text_fits 4096 (ec_q c) \<and> text_fits 16384 (ec_key c)
     \<and> text_fits 16384 (ec_answer c) \<and> pages_valid (ec_pages c) \<and> ec_type c \<in> set CASE_TYPES)"

text \<open>\<open>enumerate(normalized, 1)\<close> with the digest of each case.\<close>

fun number_rows :: "(nat list \<Rightarrow> pystr) \<Rightarrow> uuid \<Rightarrow> int \<Rightarrow> eval_case list \<Rightarrow> dataset_error + case_row list" where
  "number_rows sha version n [] = Inr []"
| "number_rows sha version n (c # cs) =
    (case case_digest sha (normal_dict c) of
       Inl e \<Rightarrow> Inl (Contract e)
     | Inr None \<Rightarrow> Inl UnicodeEncodeError
     | Inr (Some digest) \<Rightarrow>
        map_sum id (Cons \<lparr>cr_version = version, cr_ordinal = n, cr_case = c, cr_sha = digest\<rparr>)
          (number_rows sha version (n + 1) cs))"

definition replace_eval_cases ::
  "(nat list \<Rightarrow> pystr) \<Rightarrow> session \<Rightarrow> uuid \<Rightarrow> uuid \<Rightarrow> uuid \<Rightarrow> int \<Rightarrow> pyval \<Rightarrow> eval_store
     \<Rightarrow> dataset_error + (dataset_version \<times> pystr) \<times> eval_store" where
  "replace_eval_cases sha s actor dataset version expected cases g =
    (case eval_actor actor of Some e \<Rightarrow> Inl e | None \<Rightarrow>
    (case case_sequence cases of
       Inl e \<Rightarrow> Inl (Contract e)
     | Inr cs \<Rightarrow>
    (if expected < 1 then Inl EvalDatasetConflict
     else case lock_eval_policy g None of
       Inl e \<Rightarrow> Inl e
     | Inr epoch \<Rightarrow>
    (case writable_dataset s actor dataset g of
       None \<Rightarrow> Inl EvalDatasetAccessRefused
     | Some d \<Rightarrow>
    (case version_of version dataset g of
       None \<Rightarrow> Inl EvalDatasetAccessRefused
     | Some v \<Rightarrow>
        (if dv_state v \<noteq> Draft then Inl EvalDatasetStateRefused
         else if dv_revision v \<noteq> expected then Inl EvalDatasetConflict
         else case number_rows sha version 1 cs of
           Inl e \<Rightarrow> Inl e
         | Inr rows \<Rightarrow>
            (if \<not> list_all (\<lambda>r. case_row_ok (cr_ordinal r) (cr_case r)) rows then Inl Schema
             else case version_digest sha (V_Tuple (map normal_dict cs)) of
               Inl e \<Rightarrow> Inl (Contract e)
             | Inr None \<Rightarrow> Inl UnicodeEncodeError
             | Inr (Some digest) \<Rightarrow>
                (let v' = v\<lparr>dv_count := int (length rows), dv_revision := dv_revision v + 1\<rparr>;
                     g1 = g\<lparr>es_cases := filter (\<lambda>r. cr_version r \<noteq> version) (es_cases g) @ rows,
                            es_versions := update_rows (\<lambda>w. dv_id w = version) (\<lambda>w. v') (es_versions g)\<rparr>
                 in Inr ((v', digest), log_event dataset (Some version) actor Version_Cases_Replaced
                      (Some expected) (dv_revision v') (Some (int (length rows))) (Some digest) g1)))))))))"

section \<open>Publishing\<close>

text \<open>The rows of a version as the SELECT returns them: a dictionary each, the pages a list.\<close>

definition row_dict :: "eval_case \<Rightarrow> pyval" where
  "row_dict c = V_Dict [(u ''case_key'', V_Str (ec_case_key c)), (u ''q'', V_Str (ec_q c)),
     (u ''key'', V_Str (ec_key c)), (u ''answer'', V_Str (ec_answer c)),
     (u ''pages'', V_List (map V_Int (ec_pages c))), (u ''type'', V_Str (ec_type c))]"

definition stored_cases :: "uuid \<Rightarrow> eval_store \<Rightarrow> eval_case list" where
  "stored_cases version g = map cr_case (sort_key cr_ordinal (rows_of version (es_cases g)))"

definition digest_shaped :: "pystr \<Rightarrow> bool" where
  "digest_shaped x = (length x = 64 \<and> list_all lower_hex x)"

definition sealed_version :: "uuid \<Rightarrow> time \<Rightarrow> int \<Rightarrow> pystr \<Rightarrow> dataset_version \<Rightarrow> dataset_version" where
  "sealed_version actor at_time count digest v = v\<lparr>dv_state := Published, dv_published_by := Some actor,
     dv_sealed_at := Some at_time, dv_count := count, dv_sha := Some digest, dv_revision := dv_revision v + 1\<rparr>"

definition publish_eval_version ::
  "(nat list \<Rightarrow> pystr) \<Rightarrow> session \<Rightarrow> uuid \<Rightarrow> uuid \<Rightarrow> uuid \<Rightarrow> int \<Rightarrow> int \<Rightarrow> pystr \<Rightarrow> eval_store
     \<Rightarrow> dataset_error + (dataset_version \<times> int \<times> int) \<times> eval_store" where
  "publish_eval_version sha s actor dataset version expected expected_epoch expected_sha g =
    (case eval_actor actor of Some e \<Rightarrow> Inl e | None \<Rightarrow>
    (if expected < 1 \<or> expected_epoch < 1 \<or> \<not> digest_shaped expected_sha then Inl EvalDatasetConflict
     else case lock_eval_policy g (Some expected_epoch) of
       Inl e \<Rightarrow> Inl e
     | Inr epoch \<Rightarrow>
    (case writable_dataset s actor dataset g of
       None \<Rightarrow> Inl EvalDatasetAccessRefused
     | Some d \<Rightarrow>
    (case version_of version dataset g of
       None \<Rightarrow> Inl EvalDatasetAccessRefused
     | Some v \<Rightarrow>
        (if ds_state d \<noteq> Ds_Active \<or> dv_state v \<noteq> Draft then Inl EvalDatasetStateRefused
         else if dv_revision v \<noteq> expected then Inl EvalDatasetConflict
         else case case_sequence (V_Tuple (map row_dict (stored_cases version g))) of
           Inl e \<Rightarrow> Inl (Contract e)
         | Inr cs \<Rightarrow>
        (case version_digest sha (V_Tuple (map normal_dict cs)) of
           Inl e \<Rightarrow> Inl (Contract e)
         | Inr None \<Rightarrow> Inl UnicodeEncodeError
         | Inr (Some digest) \<Rightarrow>
            (if digest \<noteq> expected_sha then Inl EvalDatasetConflict
             else
               (let v' = sealed_version actor (es_now g) (int (length cs)) digest v;
                    g1 = g\<lparr>es_versions := update_rows (\<lambda>w. dv_id w = version) (\<lambda>w. v') (es_versions g)\<rparr>;
                    g2 = bump_dataset (\<lambda>d. d\<lparr>ds_current := Some version\<rparr>) dataset g1
                in Inr ((v', ds_revision d + 1, epoch), log_event dataset (Some version) actor Version_Published
                     (Some (ds_revision d)) (ds_revision d + 1) (Some (int (length cs))) (Some digest) g2)))))))))"

section \<open>Retiring\<close>

definition retire_eval_dataset ::
  "session \<Rightarrow> uuid \<Rightarrow> uuid \<Rightarrow> int \<Rightarrow> int \<Rightarrow> eval_store \<Rightarrow> dataset_error + int \<times> eval_store" where
  "retire_eval_dataset s actor dataset expected expected_epoch g =
    (case eval_actor actor of Some e \<Rightarrow> Inl e | None \<Rightarrow>
    (if expected < 1 \<or> expected_epoch < 1 then Inl EvalDatasetConflict
     else case lock_eval_policy g (Some expected_epoch) of
       Inl e \<Rightarrow> Inl e
     | Inr epoch \<Rightarrow>
    (case writable_dataset s actor dataset g of
       None \<Rightarrow> Inl EvalDatasetAccessRefused
     | Some d \<Rightarrow>
        (if ds_state d \<noteq> Ds_Active then Inl EvalDatasetStateRefused
         else if ds_revision d \<noteq> expected then Inl EvalDatasetConflict
         else if has_draft dataset g then Inl EvalDatasetStateRefused
         else Inr (ds_revision d + 1, log_event dataset None actor Dataset_Retired (Some expected)
             (ds_revision d + 1) None None (bump_dataset (\<lambda>d. d\<lparr>ds_state := Ds_Retired\<rparr>) dataset g))))))"

section \<open>Readers\<close>

definition dataset_visible :: "session \<Rightarrow> eval_store \<Rightarrow> dataset \<Rightarrow> bool" where
  "dataset_visible s g d = (se_service s \<or> owner_can_read s (es_org g) (ds_owner d))"

record dataset_view =
  vw_dataset :: dataset
  vw_owner_label :: pystr
  vw_epoch :: int
  vw_latest :: "dataset_version option"
  vw_published :: "dataset_version option"

definition list_eval_datasets :: "session \<Rightarrow> uuid \<Rightarrow> int \<Rightarrow> eval_store \<Rightarrow> dataset_error + dataset_view list" where
  "list_eval_datasets s actor limit g =
    (case eval_actor actor of Some e \<Rightarrow> Inl e | None \<Rightarrow>
    (if \<not> (1 \<le> limit \<and> limit \<le> 100) then Inl EvalDatasetAccessRefused
     else Inr (take (nat limit) (concat (map (\<lambda>d.
       (case (o_tenant (es_org g), find (\<lambda>m. m_identity m = ds_owner d \<and> m_state m = Seat_Active) (o_members (es_org g))) of
          (Some t, Some m) \<Rightarrow>
            [\<lparr>vw_dataset = d, vw_owner_label = m_label m, vw_epoch = tn_epoch t,
              vw_latest = (case sort_key (\<lambda>v. - dv_number v) (versions_in (ds_id d) (es_versions g)) of
                 [] \<Rightarrow> None | v # _ \<Rightarrow> Some v),
              vw_published = (case ds_current d of None \<Rightarrow> None
                | Some i \<Rightarrow> find (\<lambda>v. dv_id v = i) (es_versions g))\<rparr>]
        | _ \<Rightarrow> []))
       (sort_key (\<lambda>d. - ds_created_at d) (sort_key (\<lambda>d. - int (ds_id d))
         (filter (\<lambda>d. dataset_visible s g d \<and> se_actor s = Some actor) (es_datasets g)))))))))"

definition readable_dataset :: "session \<Rightarrow> uuid \<Rightarrow> uuid \<Rightarrow> eval_store \<Rightarrow> bool" where
  "readable_dataset s actor dataset g = (se_actor s = Some actor
     \<and> list_ex (\<lambda>d. ds_id d = dataset \<and> dataset_visible s g d) (es_datasets g))"

definition list_eval_versions :: "session \<Rightarrow> uuid \<Rightarrow> uuid \<Rightarrow> eval_store \<Rightarrow> dataset_error + dataset_version list" where
  "list_eval_versions s actor dataset g =
    (case eval_actor actor of Some e \<Rightarrow> Inl e | None \<Rightarrow>
     Inr (if readable_dataset s actor dataset g
       then take 100 (sort_key (\<lambda>v. - dv_number v) (versions_in dataset (es_versions g))) else []))"

definition read_eval_cases :: "session \<Rightarrow> uuid \<Rightarrow> uuid \<Rightarrow> uuid \<Rightarrow> eval_store \<Rightarrow> dataset_error + eval_case list" where
  "read_eval_cases s actor dataset version g =
    (case eval_actor actor of Some e \<Rightarrow> Inl e | None \<Rightarrow>
     Inr (if readable_dataset s actor dataset g \<and> version_of version dataset g \<noteq> None
       then stored_cases version g else []))"

end
