(* ===== verification/Eval_Machine.thy ===== *)
theory Eval_Machine
  imports Eval_Datasets
begin

text \<open>
  The evaluation datasets under every interleaving of their operations with those of the
  organisation. The versions of a dataset form one line, the cases of a version are the ones the
  contract accepts, in its order, and a published version carries the digest of exactly its
  cases. What is published and what is retired never changes again.
\<close>

section \<open>The machine\<close>

text \<open>\<open>Organise\<close> runs the organisation; the owners of the datasets hold their memberships.\<close>

datatype eval_event =
    Organise org_event
  | New_Dataset session uuid pystr pystr
  | New_Draft session uuid uuid int
  | New_Cases session uuid uuid uuid int pyval
  | Publish session uuid uuid uuid int int pystr
  | Retire session uuid uuid int int

fun eval_call :: "(nat list \<Rightarrow> pystr) \<Rightarrow> eval_event \<Rightarrow> eval_store \<Rightarrow> eval_store" where
  "eval_call sha (Organise ev) g = g\<lparr>es_org := org_call ev (es_org g)\<rparr>"
| "eval_call sha (New_Dataset s actor slug label) g = after (create_eval_dataset s actor slug label g) g"
| "eval_call sha (New_Draft s actor dataset expected) g = after (create_eval_draft s actor dataset expected g) g"
| "eval_call sha (New_Cases s actor dataset version expected cases) g =
     after (replace_eval_cases sha s actor dataset version expected cases g) g"
| "eval_call sha (Publish s actor dataset version expected epoch digest) g =
     after (publish_eval_version sha s actor dataset version expected epoch digest g) g"
| "eval_call sha (Retire s actor dataset expected epoch) g =
     after (retire_eval_dataset s actor dataset expected epoch g) g"

definition dataset_owners :: "eval_store \<Rightarrow> uuid list" where
  "dataset_owners g = map ds_owner (es_datasets g)"

definition eval_permitted :: "eval_event \<Rightarrow> eval_store \<Rightarrow> bool" where
  "eval_permitted ev g = (case ev of
     Organise e \<Rightarrow> org_permitted e (es_org g)
       \<and> (case e of Replace retained _ _ _ _ _ _ _ \<Rightarrow> retained = dataset_owners g | _ \<Rightarrow> True)
   | _ \<Rightarrow> True)"

definition eval_step :: "(nat list \<Rightarrow> pystr) \<Rightarrow> eval_store \<Rightarrow> eval_store \<Rightarrow> bool" where
  "eval_step sha g h = (\<exists>ev. eval_permitted ev g \<and> h = eval_call sha ev g)"

definition empty_eval :: "uuid \<Rightarrow> eval_store" where
  "empty_eval i = \<lparr>es_org = empty_organisation i, es_datasets = [], es_versions = [], es_cases = [], es_events = []\<rparr>"

definition eval_init :: "eval_store \<Rightarrow> bool" where
  "eval_init g = (\<exists>i. g = empty_eval i)"

fun run_eval :: "(nat list \<Rightarrow> pystr) \<Rightarrow> eval_event list \<Rightarrow> eval_store \<Rightarrow> eval_store option" where
  "run_eval sha [] g = Some g"
| "run_eval sha (ev # evs) g = (if eval_permitted ev g then run_eval sha evs (eval_call sha ev g) else None)"

lemma run_eval_steps: "run_eval sha evs g = Some h \<Longrightarrow> (eval_step sha)\<^sup>*\<^sup>* g h"
proof (induction evs arbitrary: g)
  case (Cons ev evs)
  then have "eval_step sha g (eval_call sha ev g)" "(eval_step sha)\<^sup>*\<^sup>* (eval_call sha ev g) h"
    by (auto simp: eval_step_def [abs_def] split: if_splits)
  then show ?case by (rule converse_rtranclp_into_rtranclp)
qed simp

section \<open>Lines of versions\<close>

fun line :: "uuid option \<Rightarrow> int \<Rightarrow> dataset_version list \<Rightarrow> bool" where
  "line p n [] = True"
| "line p n (v # vs) = (dv_parent v = p \<and> dv_number v = n \<and> (vs \<noteq> [] \<longrightarrow> dv_state v = Published)
     \<and> line (Some (dv_id v)) (n + 1) vs)"

definition last_published :: "dataset_version list \<Rightarrow> uuid option" where
  "last_published vs = (case filter (\<lambda>v. dv_state v = Published) (rev vs) of [] \<Rightarrow> None | v # _ \<Rightarrow> Some (dv_id v))"

lemma last_published_snoc:
  "last_published (vs @ [v]) = (if dv_state v = Published then Some (dv_id v) else last_published vs)"
  by (simp add: last_published_def)

lemma line_snoc:
  "line p n (vs @ [w]) \<longleftrightarrow> line p n vs \<and> (\<forall>v\<in>set vs. dv_state v = Published)
     \<and> dv_number w = n + int (length vs) \<and> dv_parent w = (if vs = [] then p else Some (dv_id (last vs)))"
  by (induction vs arbitrary: p n) auto

lemma line_draft_last: "line p n vs \<Longrightarrow> v \<in> set vs \<Longrightarrow> dv_state v = Draft \<Longrightarrow> v = last vs"
  by (induction vs arbitrary: p n) auto

lemma line_max: "line p n vs \<Longrightarrow> k < n \<Longrightarrow> fold max (map dv_number vs) k = (if vs = [] then k else n + int (length vs) - 1)"
proof (induction vs arbitrary: p n k)
  case (Cons v vs)
  then have "fold max (map dv_number vs) n = (if vs = [] then n else n + 1 + int (length vs) - 1)"
    by (intro Cons.IH [of "Some (dv_id v)" "n + 1"]) auto
  moreover have "max (dv_number v) k = n" using Cons.prems by simp
  ultimately show ?case by auto
qed simp

lemma line_numbers: "line p n vs \<Longrightarrow> map dv_number vs = map (\<lambda>k. n + int k) [0..<length vs]"
proof (induction vs arbitrary: p n)
  case (Cons v vs)
  then have "map dv_number vs = map (\<lambda>k. n + int (Suc k)) [0..<length vs]" by (force simp: algebra_simps)
  with Cons.prems show ?case by (simp add: upt_conv_Cons map_Suc_upt [symmetric] del: upt_Suc map_Suc_upt)
qed simp

lemma line_nth:
  "line p n vs \<Longrightarrow> i < length vs \<Longrightarrow> dv_parent (vs ! i) = (if i = 0 then p else Some (dv_id (vs ! (i - 1))))
     \<and> (dv_state (vs ! i) = Draft \<longrightarrow> Suc i = length vs)"
proof (induction vs arbitrary: p n i)
  case (Cons v vs)
  show ?case
  proof (cases i)
    case 0
    with Cons.prems show ?thesis by (cases vs) auto
  next
    case (Suc j)
    with Cons.prems Cons.IH [of "Some (dv_id v)" "n + 1" j] show ?thesis by (cases j) auto
  qed
qed simp

lemma line_update:
  assumes "\<And>v. v \<in> set vs \<Longrightarrow> q v \<Longrightarrow> dv_id (f v) = dv_id v \<and> dv_parent (f v) = dv_parent v \<and> dv_number (f v) = dv_number v
      \<and> (dv_state v = Published \<longrightarrow> dv_state (f v) = Published)"
    and "line p n vs"
  shows "line p n (update_rows q f vs)"
  using assms by (induction vs arbitrary: p n) (auto simp: update_rows_def)

lemma last_published_update:
  assumes "\<And>v. v \<in> set vs \<Longrightarrow> q v \<Longrightarrow> dv_id (f v) = dv_id v \<and> dv_state (f v) = dv_state v"
  shows "last_published (update_rows q f vs) = last_published vs"
  using assms
proof (induction vs rule: rev_induct)
  case (snoc v vs)
  have "update_rows q f (vs @ [v]) = update_rows q f vs @ [if q v then f v else v]"
    by (simp add: update_rows_def)
  with snoc show ?case by (auto simp: last_published_snoc)
qed simp

lemma line_all_published:
  assumes "line p n vs" "vs \<noteq> []" "\<forall>v\<in>set vs. dv_state v = Published"
  shows "last_published vs = Some (dv_id (last vs))"
  using assms(2,3) by (induction vs rule: rev_induct) (auto simp: last_published_snoc)

lemma versions_in_snoc:
  "versions_in d (vs @ [w]) = (if dv_dataset w = d then versions_in d vs @ [w] else versions_in d vs)"
  by (simp add: versions_in_def)

lemma versions_in_update:
  assumes "\<And>v. v \<in> set vs \<Longrightarrow> q v \<Longrightarrow> dv_dataset (f v) = dv_dataset v"
  shows "versions_in d (update_rows q f vs) = update_rows q f (versions_in d vs)"
  using assms by (induction vs) (auto simp: versions_in_def)

section \<open>The invariant\<close>

definition datasets_ok :: "uuid \<Rightarrow> uuid set \<Rightarrow> dataset list \<Rightarrow> bool" where
  "datasets_ok n members ds \<longleftrightarrow> distinct (map ds_id ds) \<and> distinct (map ds_slug ds)
     \<and> (\<forall>d\<in>set ds. ds_id d < n \<and> ds_owner d \<in> members \<and> 1 \<le> ds_revision d)"

definition versions_ok :: "uuid \<Rightarrow> dataset list \<Rightarrow> dataset_version list \<Rightarrow> bool" where
  "versions_ok n ds vs \<longleftrightarrow> distinct (map dv_id vs)
     \<and> (\<forall>v\<in>set vs. dv_id v < n \<and> dv_dataset v \<in> ds_id ` set ds)
     \<and> (\<forall>d\<in>set ds. versions_in (ds_id d) vs \<noteq> [] \<and> line None 1 (versions_in (ds_id d) vs)
          \<and> ds_current d = last_published (versions_in (ds_id d) vs)
          \<and> (ds_state d = Ds_Retired \<longrightarrow> (\<forall>v\<in>set (versions_in (ds_id d) vs). dv_state v = Published)))"

definition version_seal_ok :: "(nat list \<Rightarrow> pystr) \<Rightarrow> dataset_version \<Rightarrow> case_row list \<Rightarrow> bool" where
  "version_seal_ok sha v rs \<longleftrightarrow> (case dv_state v of
     Draft \<Rightarrow> dv_sha v = None \<and> dv_published_by v = None \<and> dv_sealed_at v = None
   | Published \<Rightarrow> rs \<noteq> [] \<and> dv_sha v \<noteq> None \<and> dv_sha v = map_option sha (cases_body (map cr_case rs))
       \<and> dv_published_by v \<noteq> None \<and> dv_sealed_at v \<noteq> None)"

definition version_rows_ok :: "(nat list \<Rightarrow> pystr) \<Rightarrow> dataset_version \<Rightarrow> case_row list \<Rightarrow> bool" where
  "version_rows_ok sha v rs \<longleftrightarrow> map cr_ordinal rs = map int [1..<Suc (length rs)] \<and> dv_count v = int (length rs)
     \<and> (rs \<noteq> [] \<longrightarrow> good_cases (map cr_case rs)) \<and> version_seal_ok sha v rs"

definition cases_ok :: "(nat list \<Rightarrow> pystr) \<Rightarrow> dataset_version list \<Rightarrow> case_row list \<Rightarrow> bool" where
  "cases_ok sha vs rows \<longleftrightarrow> (\<forall>r\<in>set rows. cr_version r \<in> dv_id ` set vs)
     \<and> (\<forall>v\<in>set vs. version_rows_ok sha v (rows_of (dv_id v) rows))"

definition eval_inv :: "(nat list \<Rightarrow> pystr) \<Rightarrow> eval_store \<Rightarrow> bool" where
  "eval_inv sha g \<longleftrightarrow> org_inv (es_org g)
     \<and> datasets_ok (o_next (es_org g)) (m_identity ` set (o_members (es_org g))) (es_datasets g)
     \<and> versions_ok (o_next (es_org g)) (es_datasets g) (es_versions g)
     \<and> cases_ok sha (es_versions g) (es_cases g)"

lemma eval_inv_init: "eval_init g \<Longrightarrow> eval_inv sha g"
proof -
  assume "eval_init g"
  then obtain i where g: "g = empty_eval i" by (auto simp: eval_init_def)
  have "org_inv (empty_organisation i)" by (rule organisations.inv_init) (auto simp: org_init_def)
  then show ?thesis by (simp add: g empty_eval_def eval_inv_def datasets_ok_def versions_ok_def cases_ok_def)
qed

lemma sorted_ordinals: "map cr_ordinal rs = map int [1..<Suc (length rs)] \<Longrightarrow> sort_key cr_ordinal rs = rs"
proof -
  assume eq: "map cr_ordinal rs = map int [1..<Suc (length rs)]"
  have "sorted (map cr_ordinal rs)" unfolding eq sorted_map by (rule sorted_wrt_mono_rel [OF _ sorted_upt]) auto
  then show ?thesis by (rule sort_key_id_if_sorted)
qed

section \<open>What a call leaves\<close>

lemma log_event_selects [simp]:
  "es_org (log_event i v a ty b r c x g) = es_org g" "es_datasets (log_event i v a ty b r c x g) = es_datasets g"
  "es_versions (log_event i v a ty b r c x g) = es_versions g" "es_cases (log_event i v a ty b r c x g) = es_cases g"
  by (simp_all add: log_event_def)

lemma bump_dataset_selects [simp]:
  "es_org (bump_dataset f i g) = es_org g" "es_versions (bump_dataset f i g) = es_versions g"
  "es_cases (bump_dataset f i g) = es_cases g"
  by (simp_all add: bump_dataset_def)

definition bumped :: "(dataset \<Rightarrow> dataset) \<Rightarrow> time \<Rightarrow> dataset \<Rightarrow> dataset" where
  "bumped f t d = (f d)\<lparr>ds_revision := ds_revision d + 1, ds_updated_at := t\<rparr>"

lemma bump_dataset_rows:
  "es_datasets (bump_dataset f i g) = update_rows (\<lambda>d. ds_id d = i) (bumped f (es_now g)) (es_datasets g)"
  by (simp add: bump_dataset_def bumped_def [abs_def])

lemma writable_datasetD:
  "writable_dataset s actor i g = Some d \<Longrightarrow> d \<in> set (es_datasets g) \<and> ds_id d = i \<and> se_actor s = Some actor
     \<and> owner_can_write s (es_org g) (ds_owner d)"
  by (auto simp: writable_dataset_def find_Some_iff)

lemma version_ofD: "version_of i dataset g = Some v \<Longrightarrow> v \<in> set (es_versions g) \<and> dv_id v = i \<and> dv_dataset v = dataset"
  by (auto simp: version_of_def find_Some_iff)

lemma create_eval_dataset_cases:
  assumes "create_eval_dataset s actor slug label g = Inr (r, h)"
  obtains i where "i = o_next (es_org g)" "es_org h = (es_org g)\<lparr>o_next := Suc (Suc i)\<rparr>"
    "es_datasets h = es_datasets g @ [new_dataset i actor slug label (es_now g)]"
    "es_versions h = es_versions g @ [new_version (Suc i) i 1 None actor (es_now g)]"
    "es_cases h = es_cases g" "slug \<notin> ds_slug ` set (es_datasets g)"
    "actor \<in> m_identity ` set (o_members (es_org g))"
  using assms by (auto simp: create_eval_dataset_def issue_id_def new_id_def Let_def split: option.splits if_splits sum.splits)

lemma create_eval_draft_cases:
  assumes "create_eval_draft s actor dataset expected g = Inr (r, h)"
  obtains d w where "writable_dataset s actor dataset g = Some d" "ds_state d = Ds_Active" "ds_revision d = expected"
    "\<not> has_draft dataset g"
    "w = new_version (o_next (es_org g)) dataset
       (fold max (map dv_number (versions_in dataset (es_versions g))) 0 + 1) (ds_current d) actor (es_now g)"
    "es_org h = (es_org g)\<lparr>o_next := Suc (o_next (es_org g))\<rparr>"
    "es_datasets h = update_rows (\<lambda>d. ds_id d = dataset) (bumped id (es_now g)) (es_datasets g)"
    "es_versions h = es_versions g @ [w]" "es_cases h = es_cases g"
  using assms
  by (auto simp: create_eval_draft_def issue_id_def new_id_def Let_def bump_dataset_rows es_now_def
      split: option.splits if_splits sum.splits)

definition recounted :: "int \<Rightarrow> dataset_version \<Rightarrow> dataset_version" where
  "recounted n v = v\<lparr>dv_count := n, dv_revision := dv_revision v + 1\<rparr>"

lemma replace_eval_cases_cases:
  assumes "replace_eval_cases sha s actor dataset version expected cases g = Inr (r, h)"
  obtains d v cs rows where "case_sequence cases = Inr cs" "writable_dataset s actor dataset g = Some d"
    "version_of version dataset g = Some v" "dv_state v = Draft" "dv_revision v = expected"
    "number_rows sha version 1 cs = Inr rows"
    "es_org h = es_org g" "es_datasets h = es_datasets g"
    "es_versions h = update_rows (\<lambda>w. dv_id w = version) (\<lambda>w. recounted (int (length rows)) v) (es_versions g)"
    "es_cases h = filter (\<lambda>r. cr_version r \<noteq> version) (es_cases g) @ rows"
    "fst r = recounted (int (length rows)) v" "version_digest sha (V_Tuple (map normal_dict cs)) = Inr (Some (snd r))"
  using assms
  by (auto simp: replace_eval_cases_def Let_def recounted_def split: option.splits if_splits sum.splits)

lemma publish_eval_version_cases:
  assumes "publish_eval_version sha s actor dataset version expected epoch digest g = Inr (r, h)"
  obtains d v cs where "writable_dataset s actor dataset g = Some d" "version_of version dataset g = Some v"
    "lock_eval_policy g (Some epoch) = Inr epoch"
    "ds_state d = Ds_Active" "dv_state v = Draft" "dv_revision v = expected"
    "case_sequence (V_Tuple (map row_dict (stored_cases version g))) = Inr cs"
    "version_digest sha (V_Tuple (map normal_dict cs)) = Inr (Some digest)"
    "es_org h = es_org g"
    "es_datasets h = update_rows (\<lambda>d. ds_id d = dataset) (bumped (\<lambda>d. d\<lparr>ds_current := Some version\<rparr>) (es_now g)) (es_datasets g)"
    "es_versions h = update_rows (\<lambda>w. dv_id w = version)
       (\<lambda>w. sealed_version actor (es_now g) (int (length cs)) digest v) (es_versions g)"
    "es_cases h = es_cases g" "fst r = sealed_version actor (es_now g) (int (length cs)) digest v"
  using assms
  by (auto simp: publish_eval_version_def Let_def bump_dataset_rows es_now_def lock_eval_policy_def
      split: option.splits if_splits sum.splits)

lemma retire_eval_dataset_cases:
  assumes "retire_eval_dataset s actor dataset expected epoch g = Inr (r, h)"
  obtains d where "writable_dataset s actor dataset g = Some d" "ds_state d = Ds_Active" "ds_revision d = expected"
    "\<not> has_draft dataset g" "es_org h = es_org g"
    "es_datasets h = update_rows (\<lambda>d. ds_id d = dataset) (bumped (\<lambda>d. d\<lparr>ds_state := Ds_Retired\<rparr>) (es_now g)) (es_datasets g)"
    "es_versions h = es_versions g" "es_cases h = es_cases g"
  using assms
  by (auto simp: retire_eval_dataset_def bump_dataset_rows split: option.splits if_splits sum.splits)

section \<open>Every call keeps the invariant\<close>

lemma eval_invD:
  assumes "eval_inv sha g"
  shows "org_inv (es_org g)"
    "datasets_ok (o_next (es_org g)) (m_identity ` set (o_members (es_org g))) (es_datasets g)"
    "versions_ok (o_next (es_org g)) (es_datasets g) (es_versions g)" "cases_ok sha (es_versions g) (es_cases g)"
  using assms by (auto simp: eval_inv_def)

lemma org_inv_more_ids: "org_inv g \<Longrightarrow> o_next g \<le> n \<Longrightarrow> org_inv (g\<lparr>o_next := n\<rparr>)"
  by (auto simp: org_inv_def intro: identities_ok_mono audit_ok_mono)

lemma datasets_ok_mono: "datasets_ok n ms ds \<Longrightarrow> n \<le> m \<Longrightarrow> ms \<subseteq> ms' \<Longrightarrow> datasets_ok m ms' ds"
  by (auto simp: datasets_ok_def)

lemma versions_ok_mono: "versions_ok n ds vs \<Longrightarrow> n \<le> m \<Longrightarrow> versions_ok m ds vs"
  by (auto simp: versions_ok_def)

lemma bumped_ids:
  assumes "\<And>d. ds_id (f d) = ds_id d"
  shows "ds_id ` set (update_rows p (bumped f t) ds) = ds_id ` set ds"
proof -
  have "map ds_id (update_rows p (bumped f t) ds) = map ds_id ds"
    using assms by (simp add: update_rows_keys bumped_def)
  then show ?thesis by (metis list.set_map)
qed

lemma datasets_ok_bump:
  assumes "datasets_ok n ms ds" "\<And>d. ds_id (f d) = ds_id d \<and> ds_owner (f d) = ds_owner d \<and> ds_slug (f d) = ds_slug d"
  shows "datasets_ok n ms (update_rows p (bumped f t) ds)"
proof -
  have keys: "map ds_id (update_rows p (bumped f t) ds) = map ds_id ds"
      "map ds_slug (update_rows p (bumped f t) ds) = map ds_slug ds"
    using assms(2) by (simp_all add: update_rows_keys bumped_def)
  have "ds_id d < n \<and> ds_owner d \<in> ms \<and> 1 \<le> ds_revision d" if "d \<in> set (update_rows p (bumped f t) ds)" for d
    using that assms unfolding datasets_ok_def by (auto simp: set_update_rows bumped_def)
  then show ?thesis using assms(1) keys unfolding datasets_ok_def by (simp only: simp_thms) blast
qed

lemma version_id_unique:
  "versions_ok n ds vs \<Longrightarrow> v \<in> set vs \<Longrightarrow> w \<in> set vs \<Longrightarrow> dv_id v = dv_id w \<Longrightarrow> v = w"
  using distinct_keyD [of dv_id vs v w] by (simp add: versions_ok_def)

lemma version_in_line:
  assumes "versions_ok n ds vs" "v \<in> set vs"
  obtains d where "d \<in> set ds" "ds_id d = dv_dataset v" "v \<in> set (versions_in (ds_id d) vs)"
    "line None 1 (versions_in (ds_id d) vs)"
proof -
  from assms obtain d where "d \<in> set ds" "ds_id d = dv_dataset v" unfolding versions_ok_def by force
  with assms that show thesis by (auto simp: versions_ok_def versions_in_def)
qed

lemma case_rows_new_version:
  assumes "cases_ok sha vs rows" "dv_state w = Draft" "dv_count w = 0" "dv_sha w = None" "dv_published_by w = None"
    and "dv_sealed_at w = None" "dv_id w \<notin> dv_id ` set vs"
  shows "cases_ok sha (vs @ [w]) rows"
proof -
  have "rows_of (dv_id w) rows = []"
    using assms(1,7) unfolding cases_ok_def rows_of_def filter_empty_conv by metis
  with assms show ?thesis by (auto simp: cases_ok_def version_rows_ok_def version_seal_ok_def)
qed

lemma new_dataset_inv:
  assumes "eval_inv sha g" "create_eval_dataset s actor slug label g = Inr (r, h)"
  shows "eval_inv sha h"
  using assms(2)
proof (cases rule: create_eval_dataset_cases)
  case (1 i)
  note I = eval_invD [OF assms(1)]
  let ?d = "new_dataset i actor slug label (es_now g)" and ?w = "new_version (Suc i) i 1 None actor (es_now g)"
  have old: "ds_id d < i" if "d \<in> set (es_datasets g)" for d using I(2) that 1(1) by (auto simp: datasets_ok_def)
  have oldv: "dv_id v < i" "dv_dataset v \<in> ds_id ` set (es_datasets g)" if "v \<in> set (es_versions g)" for v
    using I(3) that 1(1) by (auto simp: versions_ok_def)
  have "datasets_ok (Suc (Suc i)) (m_identity ` set (o_members (es_org g))) (es_datasets g @ [?d])"
    using I(2) 1 old by (fastforce simp: datasets_ok_def new_dataset_def)
  moreover have "versions_ok (Suc (Suc i)) (es_datasets g @ [?d]) (es_versions g @ [?w])"
  proof -
    have "versions_in i (es_versions g) = []"
      using oldv old by (fastforce simp: versions_in_def filter_empty_conv)
    then have new: "versions_in i (es_versions g @ [?w]) = [?w]" by (simp add: versions_in_snoc new_version_def)
    have same: "versions_in (ds_id d) (es_versions g @ [?w]) = versions_in (ds_id d) (es_versions g)"
      if "d \<in> set (es_datasets g)" for d
      using old [OF that] by (simp add: versions_in_snoc new_version_def)
    have "distinct (map dv_id (es_versions g @ [?w]))"
      using I(3) oldv(1) by (fastforce simp: versions_ok_def new_version_def)
    moreover have "\<forall>v\<in>set (es_versions g @ [?w]). dv_id v < Suc (Suc i) \<and> dv_dataset v \<in> ds_id ` set (es_datasets g @ [?d])"
      using oldv by (fastforce simp: new_version_def new_dataset_def)
    ultimately show ?thesis
      using I(3) same new by (simp add: versions_ok_def) (simp add: new_dataset_def new_version_def last_published_def)
  qed
  moreover have "cases_ok sha (es_versions g @ [?w]) (es_cases g)"
    using I(4) oldv(1) by (intro case_rows_new_version) (fastforce simp: new_version_def)+
  ultimately show ?thesis
    using I(1) 1 by (simp add: eval_inv_def org_inv_more_ids)
qed

lemma all_published: "\<not> has_draft d g \<Longrightarrow> v \<in> set (versions_in d (es_versions g)) \<Longrightarrow> dv_state v = Published"
  using version_state.exhaust by (auto simp: has_draft_def list_ex_iff)

lemma new_draft_inv:
  assumes "eval_inv sha g" "create_eval_draft s actor dataset expected g = Inr (r, h)"
  shows "eval_inv sha h"
  using assms(2)
proof (cases rule: create_eval_draft_cases)
  case (1 d w)
  note I = eval_invD [OF assms(1)]
  let ?n = "o_next (es_org g)" and ?vs = "versions_in dataset (es_versions g)"
  let ?ds = "update_rows (\<lambda>d. ds_id d = dataset) (bumped id (es_now g)) (es_datasets g)"
  note D = writable_datasetD [OF 1(1)]
  have pub: "\<forall>v\<in>set ?vs. dv_state v = Published" using all_published 1(4) by blast
  from I(3) D have l: "?vs \<noteq> []" "line None 1 ?vs" "ds_current d = last_published ?vs"
    by (auto simp: versions_ok_def)
  have w: "dv_id w = ?n" "dv_dataset w = dataset" "dv_state w = Draft" "dv_parent w = Some (dv_id (last ?vs))"
      "dv_number w = 1 + int (length ?vs)" "dv_count w = 0" "dv_sha w = None" "dv_published_by w = None" "dv_sealed_at w = None"
    using 1(5) l line_all_published [OF l(2,1) pub] line_max [OF l(2), of 0] by (simp_all add: new_version_def)
  have fresh: "dv_id v < ?n" if "v \<in> set (es_versions g)" for v using I(3) that by (auto simp: versions_ok_def)
  have ids: "ds_id ` set ?ds = ds_id ` set (es_datasets g)"
    by (simp add: bumped_ids)
  have "datasets_ok (Suc ?n) (m_identity ` set (o_members (es_org g))) ?ds"
    using I(2) by (intro datasets_ok_bump datasets_ok_mono [OF I(2)]) auto
  moreover have "versions_ok (Suc ?n) ?ds (es_versions g @ [w])"
  proof -
    have "line None 1 (?vs @ [w])" using l pub w by (simp add: line_snoc)
    moreover have "last_published (?vs @ [w]) = last_published ?vs" using w by (simp add: last_published_snoc)
    ultimately have lines: "versions_in (ds_id e) (es_versions g @ [w]) \<noteq> [] \<and> line None 1 (versions_in (ds_id e) (es_versions g @ [w]))
        \<and> ds_current e = last_published (versions_in (ds_id e) (es_versions g @ [w]))
        \<and> (ds_state e = Ds_Retired \<longrightarrow> (\<forall>v\<in>set (versions_in (ds_id e) (es_versions g @ [w])). dv_state v = Published))"
      if "e \<in> set ?ds" for e
    proof -
      from that obtain e0 where e0: "e0 \<in> set (es_datasets g)" "e = (if ds_id e0 = dataset then bumped id (es_now g) e0 else e0)"
        by (rule in_update_rowsE)
      then have same: "ds_id e = ds_id e0" "ds_current e = ds_current e0" "ds_state e = ds_state e0" by (auto simp: bumped_def)
      show ?thesis
      proof (cases "ds_id e0 = dataset")
        case True
        with e0(1) D I(2) have "e0 = d" using distinct_keyD [of ds_id "es_datasets g" e0 d] by (simp add: datasets_ok_def)
        with 1(2) l same True w(2) \<open>line None 1 (?vs @ [w])\<close> \<open>last_published (?vs @ [w]) = _\<close> show ?thesis
          by (simp add: versions_in_snoc)
      next
        case False
        with w(2) have "versions_in (ds_id e0) (es_versions g @ [w]) = versions_in (ds_id e0) (es_versions g)"
          by (simp add: versions_in_snoc)
        with I(3) e0(1) same show ?thesis by (simp add: versions_ok_def)
      qed
    qed
    have "dataset \<in> ds_id ` set ?ds" using D ids by auto
    moreover have "distinct (map dv_id (es_versions g @ [w]))" using I(3) fresh w(1) by (fastforce simp: versions_ok_def)
    moreover have "\<forall>v\<in>set (es_versions g). dv_id v < Suc ?n \<and> dv_dataset v \<in> ds_id ` set ?ds"
      using I(3) fresh ids by (fastforce simp: versions_ok_def)
    ultimately show ?thesis using lines w(1,2) by (simp add: versions_ok_def)
  qed
  moreover have "cases_ok sha (es_versions g @ [w]) (es_cases g)"
    using I(4) fresh w by (intro case_rows_new_version) fastforce+
  ultimately show ?thesis
    using I(1) 1 by (simp add: eval_inv_def org_inv_more_ids)
qed

text \<open>A change of one version that keeps its place in the line.\<close>

definition same_place :: "dataset_version \<Rightarrow> dataset_version \<Rightarrow> bool" where
  "same_place v w \<longleftrightarrow> dv_id w = dv_id v \<and> dv_dataset w = dv_dataset v \<and> dv_parent w = dv_parent v
     \<and> dv_number w = dv_number v"

lemma one_version_update:
  assumes "versions_ok n ds vs" "v \<in> set vs" "same_place v v'" "dv_state v = Draft"
  defines "vs' \<equiv> update_rows (\<lambda>w. dv_id w = dv_id v) (\<lambda>w. v') vs"
  shows "map dv_id vs' = map dv_id vs" "\<forall>w\<in>set vs'. dv_id w < n \<and> dv_dataset w \<in> ds_id ` set ds"
    "versions_in d vs' = update_rows (\<lambda>w. dv_id w = dv_id v) (\<lambda>w. v') (versions_in d vs)"
    "d \<in> ds_id ` set ds \<Longrightarrow> line None 1 (versions_in d vs')"
    "d \<noteq> dv_dataset v \<Longrightarrow> versions_in d vs' = versions_in d vs"
    "last_published (versions_in (dv_dataset v) vs')
       = (if dv_state v' = Published then Some (dv_id v) else last_published (versions_in (dv_dataset v) vs))"
proof -
  let ?up = "update_rows (\<lambda>w. dv_id w = dv_id v) (\<lambda>w. v')"
  have only: "w = v" if "w \<in> set vs" "dv_id w = dv_id v" for w
    using version_id_unique [OF assms(1) that(1) assms(2) that(2)] .
  have v': "dv_id v' = dv_id v" "dv_dataset v' = dv_dataset v" "dv_parent v' = dv_parent v" "dv_number v' = dv_number v"
    using assms(3) by (simp_all add: same_place_def)
  show "map dv_id vs' = map dv_id vs"
    unfolding vs'_def using v'(1) by (induction vs) auto
  show "\<forall>w\<in>set vs'. dv_id w < n \<and> dv_dataset w \<in> ds_id ` set ds"
    using assms(1,2) v' by (auto simp: vs'_def set_update_rows versions_ok_def)
  show eq: "versions_in d vs' = ?up (versions_in d vs)" for d
    unfolding vs'_def using only v'(2) by (intro versions_in_update) auto
  show "line None 1 (versions_in d vs')" if "d \<in> ds_id ` set ds"
    unfolding eq
  proof (rule line_update)
    show "line None 1 (versions_in d vs)" using assms(1) that by (auto simp: versions_ok_def)
    fix w
    assume "w \<in> set (versions_in d vs)" "dv_id w = dv_id v"
    with only have "w = v" by (simp add: versions_in_def)
    with assms(4) v' show "dv_id v' = dv_id w \<and> dv_parent v' = dv_parent w \<and> dv_number v' = dv_number w
        \<and> (dv_state w = Published \<longrightarrow> dv_state v' = Published)" by simp
  qed
  show "versions_in d vs' = versions_in d vs" if "d \<noteq> dv_dataset v"
  proof -
    have "dv_id w \<noteq> dv_id v" if "w \<in> set (versions_in d vs)" for w
      using that only \<open>d \<noteq> dv_dataset v\<close> by (auto simp: versions_in_def)
    then have "?up (versions_in d vs) = versions_in d vs" by (simp add: update_rows_def map_idI)
    with eq show ?thesis by simp
  qed
  let ?line = "versions_in (dv_dataset v) vs"
  obtain d0 where "line None 1 ?line" "v \<in> set ?line" by (rule version_in_line [OF assms(1,2)]) auto
  with line_draft_last [of None 1 ?line v] assms(4) have ne: "?line \<noteq> []" and "v = last ?line" by auto
  then have split: "?line = butlast ?line @ [v]" by (metis append_butlast_last_id)
  have "dv_id w \<noteq> dv_id v" if w: "w \<in> set (butlast ?line)" for w
  proof
    assume "dv_id w = dv_id v"
    with only w have "w = v" by (auto simp: versions_in_def dest: in_set_butlastD)
    with w have "v \<in> set (butlast ?line)" by simp
    moreover have "distinct (map dv_id ?line)"
      using assms(1) unfolding versions_ok_def versions_in_def by (simp add: distinct_map_filter)
    with split have "distinct (map dv_id (butlast ?line @ [v]))" by metis
    ultimately show False by auto
  qed
  then have "?up (butlast ?line) = butlast ?line" by (simp add: update_rows_def map_idI)
  then have "?up (butlast ?line @ [v]) = butlast ?line @ [v']" by (simp add: update_rows_def)
  with split have up: "?up ?line = butlast ?line @ [v']" by metis
  have "last_published ?line = last_published (butlast ?line)"
    using last_published_snoc [of "butlast ?line" v] assms(4) split by simp
  with up show "last_published (versions_in (dv_dataset v) vs')
      = (if dv_state v' = Published then Some (dv_id v) else last_published ?line)"
    unfolding eq by (simp add: last_published_snoc v'(1))
qed

lemma draft_owner_active:
  assumes "versions_ok n ds vs" "v \<in> set vs" "dv_state v = Draft" "d \<in> set ds" "ds_id d = dv_dataset v"
  shows "ds_state d = Ds_Active"
proof (rule ccontr)
  assume "ds_state d \<noteq> Ds_Active"
  then have "ds_state d = Ds_Retired" using dataset_state.exhaust by blast
  with assms have "dv_state v = Published" by (auto simp: versions_ok_def versions_in_def)
  with assms(3) show False by simp
qed

section \<open>The rows of a version\<close>

lemma number_rows_Inr:
  "number_rows sha version n cs = Inr rows \<Longrightarrow> map cr_case rows = cs \<and> (\<forall>r\<in>set rows. cr_version r = version)
     \<and> map cr_ordinal rows = map (\<lambda>k. n + int k) [0..<length cs]"
proof (induction cs arbitrary: n rows)
  case (Cons c cs)
  from Cons.prems obtain digest rs where rs: "number_rows sha version (n + 1) cs = Inr rs"
      and rows: "rows = \<lparr>cr_version = version, cr_ordinal = n, cr_case = c, cr_sha = digest\<rparr> # rs"
    by (auto simp: map_sum_Inr split: sum.splits option.splits)
  have "map (\<lambda>k. n + int k) [0..<length (c # cs)] = n # map (\<lambda>k. n + 1 + int k) [0..<length cs]"
    by (simp add: upt_conv_Cons del: upt_Suc) (simp add: map_Suc_upt [symmetric] del: upt_Suc map_Suc_upt)
  with Cons.IH [OF rs] rows show ?case by simp
qed simp

lemma rows_of_others: "rows_of i (filter (\<lambda>r. cr_version r \<noteq> j) rows @ new) = rows_of i rows"
  if "i \<noteq> j" "\<forall>r\<in>set new. cr_version r = j"
proof -
  have "rows_of i new = []" using that by (auto simp: rows_of_def filter_empty_conv)
  moreover have "rows_of i (filter (\<lambda>r. cr_version r \<noteq> j) rows) = rows_of i rows"
    unfolding rows_of_def filter_filter using that(1) by (intro filter_cong) auto
  ultimately show ?thesis by (simp add: rows_of_def)
qed

lemma rows_of_replaced: "rows_of j (filter (\<lambda>r. cr_version r \<noteq> j) rows @ new) = new"
  if "\<forall>r\<in>set new. cr_version r = j"
  using that by (simp add: rows_of_def filter_filter)

lemma as_case_row: "good_case c \<Longrightarrow> as_case (row_dict c) = Inr c"
proof -
  assume good: "good_case c"
  let ?kvs = "[(u ''case_key'', V_Str (ec_case_key c)), (u ''q'', V_Str (ec_q c)),
     (u ''key'', V_Str (ec_key c)), (u ''answer'', V_Str (ec_answer c)),
     (u ''pages'', V_List (map V_Int (ec_pages c))), (u ''type'', V_Str (ec_type c))]"
  have "as_case (row_dict c) = validate_case (V_Dict ?kvs)" by (simp add: as_case_def row_dict_def)
  moreover have "set (map fst ?kvs) = set CASE_KEYS" by (auto simp: CASE_KEYS_def)
  moreover have "entry (u ''type'') ?kvs = V_Str (ec_type c)" by (simp add: entry_def)
  moreover have "build_case ?kvs (ec_type c) = Inr c"
    by (rule build_case_complete [OF good]) (simp_all add: entry_def)
  moreover have "ec_type c \<in> set CASE_TYPES" using good by (simp add: good_case_def)
  ultimately show ?thesis by (simp add: validate_case_def)
qed

lemma case_sequence_rows: "good_cases cs \<Longrightarrow> case_sequence (V_Tuple (map row_dict cs)) = Inr cs"
  by (simp add: case_sequence_def checked_cases_complete as_case_row)

lemma version_digest_good:
  "good_cases cs \<Longrightarrow> version_digest sha (V_Tuple (map normal_dict cs)) = Inr (map_option sha (cases_body cs))"
  by (simp add: version_digest_def case_sequence_normal)

lemma stored_rows:
  assumes "cases_ok sha vs (es_cases g)" "v \<in> set vs"
  shows "stored_cases (dv_id v) g = map cr_case (rows_of (dv_id v) (es_cases g))"
  using assms by (auto simp: stored_cases_def cases_ok_def version_rows_ok_def sorted_ordinals)

lemma stored_sequence:
  assumes "cases_ok sha vs (es_cases g)" "v \<in> set vs"
    and "case_sequence (V_Tuple (map row_dict (stored_cases (dv_id v) g))) = Inr cs"
  shows "cs = map cr_case (rows_of (dv_id v) (es_cases g))" "good_cases cs" "rows_of (dv_id v) (es_cases g) \<noteq> []"
proof -
  let ?rs = "rows_of (dv_id v) (es_cases g)"
  note eq = stored_rows [OF assms(1,2)]
  have "case_sequence (V_Tuple []) = Inl eval_case_count_invalid"
    by (simp add: case_sequence_def checked_cases_def MIN_CASES_def)
  with assms(3) eq show ne: "?rs \<noteq> []" by auto
  with assms(1,2) have "good_cases (map cr_case ?rs)" by (auto simp: cases_ok_def version_rows_ok_def)
  with case_sequence_rows [OF this] assms(3) eq show "cs = map cr_case ?rs" "good_cases cs" by auto
qed

section \<open>The remaining calls\<close>

lemma case_rows_update:
  assumes "cases_ok sha vs rows" "v \<in> set vs" "distinct (map dv_id vs)" "dv_id v' = dv_id v"
    and "\<And>i. i \<noteq> dv_id v \<Longrightarrow> rows_of i rows' = rows_of i rows" "version_rows_ok sha v' (rows_of (dv_id v) rows')"
    and "\<forall>r\<in>set rows'. cr_version r \<in> dv_id ` set vs"
  shows "cases_ok sha (update_rows (\<lambda>w. dv_id w = dv_id v) (\<lambda>w. v') vs) rows'"
proof -
  have ids: "map dv_id (update_rows (\<lambda>w. dv_id w = dv_id v) (\<lambda>w. v') vs) = map dv_id vs"
    using assms(4) by (induction vs) auto
  then have "dv_id ` set (update_rows (\<lambda>w. dv_id w = dv_id v) (\<lambda>w. v') vs) = dv_id ` set vs"
    by (metis list.set_map)
  with assms show ?thesis by (auto simp: cases_ok_def set_update_rows)
qed

lemma recounted_place: "same_place v (recounted n v)"
  by (simp add: same_place_def recounted_def)

lemma sealed_place: "same_place v (sealed_version a t n x v)"
  by (simp add: same_place_def sealed_version_def)

lemma new_cases_inv:
  assumes "eval_inv sha g" "replace_eval_cases sha s actor dataset version expected cases g = Inr (r, h)"
  shows "eval_inv sha h"
  using assms(2)
proof (cases rule: replace_eval_cases_cases)
  case (1 d v cs rows)
  note I = eval_invD [OF assms(1)]
  note v = version_ofD [OF 1(3)]
  note R = number_rows_Inr [OF 1(6)]
  let ?v = "recounted (int (length rows)) v"
  from v have vin: "v \<in> set (es_versions g)" "dv_id v = version" "dv_dataset v = dataset" by simp_all
  note U = one_version_update [where v' = "?v", OF I(3) vin(1) recounted_place 1(4), unfolded vin(2,3)]
  have dist: "distinct (map dv_id (es_versions g))" using I(3) by (simp add: versions_ok_def)
  have good: "good_cases cs" using case_sequence_good [OF 1(1)] .
  have "versions_ok (o_next (es_org g)) (es_datasets g) (es_versions h)"
    unfolding versions_ok_def
  proof (intro conjI ballI)
    show "distinct (map dv_id (es_versions h))" using U(1) dist 1(9) v by simp
    show "dv_id w < o_next (es_org g)" "dv_dataset w \<in> ds_id ` set (es_datasets g)" if "w \<in> set (es_versions h)" for w
      using U(2) that 1(9) v by auto
    fix e
    assume e: "e \<in> set (es_datasets g)"
    have old: "versions_in (ds_id e) (es_versions g) \<noteq> []" "ds_current e = last_published (versions_in (ds_id e) (es_versions g))"
      using I(3) e by (auto simp: versions_ok_def)
    have eq: "versions_in (ds_id e) (es_versions h)
        = update_rows (\<lambda>w. dv_id w = version) (\<lambda>w. ?v) (versions_in (ds_id e) (es_versions g))"
      using U(3) [of "ds_id e"] 1(9) v by simp
    with old(1) show "versions_in (ds_id e) (es_versions h) \<noteq> []" by (auto simp: update_rows_def)
    show "line None 1 (versions_in (ds_id e) (es_versions h))" using U(4) [of "ds_id e"] e 1(9) v by simp
    have "dv_state ?v = Draft" using 1(4) by (simp add: recounted_def)
    then show "ds_current e = last_published (versions_in (ds_id e) (es_versions h))"
      using U(5) [of "ds_id e"] U(6) old(2) 1(9) v by (cases "ds_id e = dataset") auto
    show "ds_state e = Ds_Retired \<longrightarrow> (\<forall>w\<in>set (versions_in (ds_id e) (es_versions h)). dv_state w = Published)"
    proof
      assume retired: "ds_state e = Ds_Retired"
      then have "ds_id e \<noteq> dataset" using draft_owner_active [OF I(3) _ 1(4) e] v by auto
      with U(5) [of "ds_id e"] v 1(9) have "versions_in (ds_id e) (es_versions h) = versions_in (ds_id e) (es_versions g)" by simp
      with retired I(3) e show "\<forall>w\<in>set (versions_in (ds_id e) (es_versions h)). dv_state w = Published"
        by (auto simp: versions_ok_def)
    qed
  qed
  moreover have "cases_ok sha (es_versions h) (es_cases h)"
  proof -
    have ord: "map cr_ordinal rows = map int [1..<Suc (length rows)]"
      using R length_map [of cr_case rows] by (simp add: map_Suc_upt [symmetric] del: upt_Suc map_Suc_upt)
    have "cases_ok sha (update_rows (\<lambda>w. dv_id w = dv_id v) (\<lambda>w. ?v) (es_versions g))
        (filter (\<lambda>r. cr_version r \<noteq> version) (es_cases g) @ rows)"
    proof (rule case_rows_update [OF I(4) _ dist])
      show "rows_of i (filter (\<lambda>r. cr_version r \<noteq> version) (es_cases g) @ rows) = rows_of i (es_cases g)"
        if "i \<noteq> dv_id v" for i using rows_of_others that R v by blast
      show "version_rows_ok sha ?v (rows_of (dv_id v) (filter (\<lambda>r. cr_version r \<noteq> version) (es_cases g) @ rows))"
        using R v good ord 1(4) I(4) by (auto simp: rows_of_replaced version_rows_ok_def version_seal_ok_def recounted_def cases_ok_def)
      show "\<forall>r\<in>set (filter (\<lambda>r. cr_version r \<noteq> version) (es_cases g) @ rows). cr_version r \<in> dv_id ` set (es_versions g)"
        using R v I(4) by (auto simp: cases_ok_def)
    qed (use v in \<open>auto simp: recounted_def\<close>)
    then show ?thesis using 1(9,10) v by simp
  qed
  ultimately show ?thesis using I(1,2) 1(7,8) by (simp add: eval_inv_def)
qed

lemma publish_inv:
  assumes "eval_inv sha g" "publish_eval_version sha s actor dataset version expected epoch digest g = Inr (r, h)"
  shows "eval_inv sha h"
  using assms(2)
proof (cases rule: publish_eval_version_cases)
  case (1 d v cs)
  note I = eval_invD [OF assms(1)]
  note v = version_ofD [OF 1(2)]
  note d = writable_datasetD [OF 1(1)]
  let ?v = "sealed_version actor (es_now g) (int (length cs)) digest v"
  let ?f = "bumped (\<lambda>d. d\<lparr>ds_current := Some version\<rparr>) (es_now g)"
  from v have vin: "v \<in> set (es_versions g)" "dv_id v = version" "dv_dataset v = dataset" by simp_all
  note U = one_version_update [where v' = "?v", OF I(3) vin(1) sealed_place 1(5), unfolded vin(2,3)]
  have dist: "distinct (map dv_id (es_versions g))" using I(3) by (simp add: versions_ok_def)
  have pub: "dv_state ?v = Published" by (simp add: sealed_version_def)
  have ids: "ds_id ` set (es_datasets h) = ds_id ` set (es_datasets g)" using 1(10) by (simp add: bumped_ids)
  have "datasets_ok (o_next (es_org g)) (m_identity ` set (o_members (es_org g))) (es_datasets h)"
    using datasets_ok_bump [OF I(2)] 1(10) by simp
  moreover have "versions_ok (o_next (es_org g)) (es_datasets h) (es_versions h)"
    unfolding versions_ok_def ids
  proof (intro conjI ballI)
    show "distinct (map dv_id (es_versions h))" using U(1) dist 1(11) v by simp
    show "dv_id w < o_next (es_org g)" "dv_dataset w \<in> ds_id ` set (es_datasets g)" if "w \<in> set (es_versions h)" for w
      using U(2) that 1(11) v by auto
    fix e
    assume "e \<in> set (es_datasets h)"
    then obtain e0 where e0: "e0 \<in> set (es_datasets g)" "e = (if ds_id e0 = dataset then ?f e0 else e0)"
      unfolding 1(10) by (rule in_update_rowsE)
    then have same: "ds_id e = ds_id e0" "ds_state e = ds_state e0"
        "ds_current e = (if ds_id e0 = dataset then Some version else ds_current e0)" by (auto simp: bumped_def)
    have old: "versions_in (ds_id e0) (es_versions g) \<noteq> []" "ds_current e0 = last_published (versions_in (ds_id e0) (es_versions g))"
      using I(3) e0(1) by (auto simp: versions_ok_def)
    have eq: "versions_in (ds_id e0) (es_versions h)
        = update_rows (\<lambda>w. dv_id w = version) (\<lambda>w. ?v) (versions_in (ds_id e0) (es_versions g))"
      using U(3) [of "ds_id e0"] 1(11) v by simp
    with old(1) same show "versions_in (ds_id e) (es_versions h) \<noteq> []" by (auto simp: update_rows_def)
    show "line None 1 (versions_in (ds_id e) (es_versions h))" using U(4) [of "ds_id e0"] e0 same 1(11) v by simp
    show "ds_current e = last_published (versions_in (ds_id e) (es_versions h))"
      using U(5) [of "ds_id e0"] U(6) old(2) 1(11) v same pub by (cases "ds_id e0 = dataset") auto
    show "ds_state e = Ds_Retired \<longrightarrow> (\<forall>w\<in>set (versions_in (ds_id e) (es_versions h)). dv_state w = Published)"
    proof
      assume retired: "ds_state e = Ds_Retired"
      then have "ds_id e0 \<noteq> dataset" using draft_owner_active [OF I(3) _ 1(5) e0(1)] v same by auto
      with U(5) [of "ds_id e0"] v 1(11) have "versions_in (ds_id e) (es_versions h) = versions_in (ds_id e) (es_versions g)"
        using same by simp
      with retired I(3) e0 same show "\<forall>w\<in>set (versions_in (ds_id e) (es_versions h)). dv_state w = Published"
        by (auto simp: versions_ok_def)
    qed
  qed
  moreover have "cases_ok sha (es_versions h) (es_cases h)"
  proof -
    note S = stored_sequence [OF I(4), of v cs]
    have cs: "cs = map cr_case (rows_of version (es_cases g))" "good_cases cs" "rows_of version (es_cases g) \<noteq> []"
      using S v 1(7) by auto
    have sha: "map_option sha (cases_body cs) = Some digest"
      using 1(8) version_digest_good [OF cs(2), of sha] by simp
    have "map cr_ordinal (rows_of version (es_cases g)) = map int [1..<Suc (length (rows_of version (es_cases g)))]"
      using I(4) v by (auto simp: cases_ok_def version_rows_ok_def)
    then have "version_rows_ok sha ?v (rows_of (dv_id v) (es_cases g))"
      using cs sha v by (auto simp: version_rows_ok_def version_seal_ok_def sealed_version_def simp del: upt_Suc)
    then have "cases_ok sha (update_rows (\<lambda>w. dv_id w = dv_id v) (\<lambda>w. ?v) (es_versions g)) (es_cases g)"
      by (intro case_rows_update [OF I(4) _ dist]) (use v I(4) in \<open>auto simp: sealed_version_def cases_ok_def\<close>)
    then show ?thesis using 1(11,12) v by simp
  qed
  ultimately show ?thesis using I(1) 1(9) by (simp add: eval_inv_def)
qed

lemma retire_inv:
  assumes "eval_inv sha g" "retire_eval_dataset s actor dataset expected epoch g = Inr (r, h)"
  shows "eval_inv sha h"
  using assms(2)
proof (cases rule: retire_eval_dataset_cases)
  case (1 d)
  note I = eval_invD [OF assms(1)]
  let ?f = "bumped (\<lambda>d. d\<lparr>ds_state := Ds_Retired\<rparr>) (es_now g)"
  have ids: "ds_id ` set (es_datasets h) = ds_id ` set (es_datasets g)" using 1(6) by (simp add: bumped_ids)
  have "datasets_ok (o_next (es_org g)) (m_identity ` set (o_members (es_org g))) (es_datasets h)"
    using datasets_ok_bump [OF I(2)] 1(6) by simp
  moreover have "versions_ok (o_next (es_org g)) (es_datasets h) (es_versions h)"
  proof -
    have "versions_in (ds_id e) (es_versions g) \<noteq> [] \<and> line None 1 (versions_in (ds_id e) (es_versions g))
          \<and> ds_current e = last_published (versions_in (ds_id e) (es_versions g))
          \<and> (ds_state e = Ds_Retired \<longrightarrow> (\<forall>v\<in>set (versions_in (ds_id e) (es_versions g)). dv_state v = Published))"
      if "e \<in> set (es_datasets h)" for e
    proof -
      from that obtain e0 where e0: "e0 \<in> set (es_datasets g)" "e = (if ds_id e0 = dataset then ?f e0 else e0)"
        unfolding 1(6) by (rule in_update_rowsE)
      show ?thesis
      proof (cases "ds_id e0 = dataset")
        case True
        with e0 have "ds_id e = dataset" "ds_current e = ds_current e0" by (simp_all add: bumped_def)
        with True e0(1) I(3) all_published [OF 1(4)] show ?thesis by (auto simp: versions_ok_def)
      next
        case False
        with e0 I(3) show ?thesis by (simp add: versions_ok_def)
      qed
    qed
    with I(3) ids 1(7) show ?thesis by (simp add: versions_ok_def)
  qed
  ultimately show ?thesis using I(1,4) 1(5,7,8) by (simp add: eval_inv_def)
qed

lemma org_call_next: "org_inv g \<Longrightarrow> o_next g \<le> o_next (org_call ev g)"
proof (cases ev)
  case (Found s name issuer subject)
  have "o_next g \<le> o_next h" if found: "bootstrap_org_tenant s name issuer subject g = Inr (i, h)" for i h
  proof -
    obtain t g2 x where x: "intern_identity issuer subject (g\<lparr>o_tenant := Some t\<rparr>) = Inr (x, g2)"
        and h: "h = set_architect (i_id x) g2"
      using found by (auto simp: bootstrap_org_tenant_def Let_def split: if_splits sum.splits)
    from x show ?thesis by (cases rule: intern_identity_cases) (simp add: h set_architect_def)
  qed
  with Found show ?thesis by (auto simp: after_def split: sum.splits)
next
  case (Replace retained s version name positions members actor request)
  assume inv: "org_inv g"
  have "o_next g \<le> o_next h" if "replace_org_topology retained s version name positions members actor request g = Inr (r, h)" for r h
    using that
  proof (cases rule: replace_org_topology_cases)
    case (1 t g1 i)
    have "org_inv (g\<lparr>o_members := [], o_positions := positions\<rparr>)"
      using inv 1 by (simp add: org_inv_def members_ok_def)
    from seat_members_inv [OF this 1(6)] insert_audit_Inr(1) [OF 1(7)] show ?thesis by simp
  qed
  with Replace show ?thesis by (auto simp: after_def split: sum.splits)
next
  case (Change s actor target version epoch state role position request)
  have "o_next g \<le> o_next h" if "update_org_member s actor target version epoch state role position request g = Inr (r, h)" for r h
    using that by (cases rule: update_org_member_cases) (auto dest: insert_audit_Inr(1))
  with Change show ?thesis by (auto simp: after_def split: sum.splits)
next
  case (Decide actor subject action reason granted request)
  then show ?thesis by (auto simp: after_def record_org_decision_def split: sum.splits dest!: insert_audit_Inr(1))
qed (simp_all add: new_id_def)

text \<open>The foreign key of the owners: as soon as there is a dataset, the chart cannot be replaced.\<close>

lemma owned_chart_stays:
  assumes "eval_inv sha g" "es_datasets g \<noteq> []"
    and "replace_org_topology (dataset_owners g) s version name positions members actor request (es_org g) = Inr (r, h)"
  shows False
  using assms(3)
proof (cases rule: replace_org_topology_cases)
  case (1 t g1 i)
  from assms(2) obtain d where "d \<in> set (es_datasets g)" by (cases "es_datasets g") auto
  with eval_invD(2) [OF assms(1)] have "ds_owner d \<in> set (dataset_owners g)"
      "ds_owner d \<in> m_identity ` set (o_members (es_org g))" by (auto simp: datasets_ok_def dataset_owners_def)
  with 1(3) show False by auto
qed

lemma organise_members:
  assumes "eval_inv sha g" "eval_permitted (Organise ev) g" "es_datasets g \<noteq> []"
  shows "m_identity ` set (o_members (org_call ev (es_org g))) = m_identity ` set (o_members (es_org g))"
proof (cases "\<exists>retained s version name positions members actor request.
    ev = Replace retained s version name positions members actor request")
  case True
  then obtain retained s version name positions members actor request
    where ev: "ev = Replace retained s version name positions members actor request" by blast
  with assms(2) have "retained = dataset_owners g" by (simp add: eval_permitted_def)
  with owned_chart_stays [OF assms(1,3)] obtain e
    where "replace_org_topology retained s version name positions members actor request (es_org g) = Inl e"
    by (cases "replace_org_topology retained s version name positions members actor request (es_org g)") fast+
  with ev show ?thesis by simp
next
  case False
  then have "map m_identity (o_members (org_call ev (es_org g))) = map m_identity (o_members (es_org g))"
    by (intro org_call_members) blast
  then show ?thesis by (metis list.set_map)
qed

lemma organise_inv:
  assumes "eval_inv sha g" "eval_permitted (Organise ev) g"
  shows "eval_inv sha (g\<lparr>es_org := org_call ev (es_org g)\<rparr>)"
proof -
  note I = eval_invD [OF assms(1)]
  have ok: "org_permitted ev (es_org g)" using assms(2) by (simp add: eval_permitted_def)
  note n = org_call_next [OF I(1), of ev]
  have "datasets_ok (o_next (org_call ev (es_org g))) (m_identity ` set (o_members (org_call ev (es_org g)))) (es_datasets g)"
  proof (cases "es_datasets g = []")
    case True
    then show ?thesis by (simp add: datasets_ok_def)
  next
    case False
    show ?thesis
      unfolding organise_members [OF assms False] by (rule datasets_ok_mono [OF I(2) n subset_refl])
  qed
  with versions_ok_mono [OF I(3) n] org_call_inv [OF I(1) ok] I(4) show ?thesis by (simp add: eval_inv_def)
qed

lemma eval_call_inv:
  assumes "eval_inv sha g" "eval_permitted ev g"
  shows "eval_inv sha (eval_call sha ev g)"
proof (cases ev)
  case (Organise e)
  with assms organise_inv show ?thesis by simp
next
  case (New_Dataset s actor slug label)
  show ?thesis unfolding New_Dataset eval_call.simps
    by (rule after_keep [where P = "eval_inv sha"]) (use assms(1) new_dataset_inv in blast)+
next
  case (New_Draft s actor dataset expected)
  show ?thesis unfolding New_Draft eval_call.simps
    by (rule after_keep [where P = "eval_inv sha"]) (use assms(1) new_draft_inv in blast)+
next
  case (New_Cases s actor dataset version expected cases)
  show ?thesis unfolding New_Cases eval_call.simps
    by (rule after_keep [where P = "eval_inv sha"]) (use assms(1) new_cases_inv in blast)+
next
  case (Publish s actor dataset version expected epoch digest)
  show ?thesis unfolding Publish eval_call.simps
    by (rule after_keep [where P = "eval_inv sha"]) (use assms(1) publish_inv in blast)+
next
  case (Retire s actor dataset expected epoch)
  show ?thesis unfolding Retire eval_call.simps
    by (rule after_keep [where P = "eval_inv sha"]) (use assms(1) retire_inv in blast)+
qed

interpretation evaluations: invariant_machine eval_init "eval_step sha" "eval_inv sha"
proof
  show "eval_init g \<Longrightarrow> eval_inv sha g" for g by (rule eval_inv_init)
  show "eval_inv sha g \<Longrightarrow> eval_step sha g h \<Longrightarrow> eval_inv sha h" for g h
    by (auto simp: eval_step_def eval_call_inv)
qed

section \<open>What never changes again\<close>

text \<open>A published version with its rows, a retired dataset with its versions, and that a dataset exists.\<close>

datatype eval_fact = Sealed dataset_version "case_row list" | Closed dataset "dataset_version list" | Kept uuid

fun eval_holds :: "eval_fact \<Rightarrow> eval_store \<Rightarrow> bool" where
  "eval_holds (Sealed v rs) g = (v \<in> set (es_versions g) \<and> dv_state v = Published \<and> rows_of (dv_id v) (es_cases g) = rs)"
| "eval_holds (Closed d vs) g = (d \<in> set (es_datasets g) \<and> ds_state d = Ds_Retired
     \<and> versions_in (ds_id d) (es_versions g) = vs)"
| "eval_holds (Kept i) g = (i \<in> ds_id ` set (es_datasets g))"

lemma other_row_stays: "r \<in> set rows \<Longrightarrow> \<not> p r \<Longrightarrow> r \<in> set (update_rows p f rows)"
  by (force simp: set_update_rows)

lemma new_dataset_holds:
  assumes "eval_inv sha g" "create_eval_dataset s actor slug label g = Inr (r, h)" "eval_holds x g"
  shows "eval_holds x h"
  using assms(2)
proof (cases rule: create_eval_dataset_cases)
  case (1 i)
  from eval_invD(2) [OF assms(1)] 1(1) have old: "i \<noteq> ds_id d" if "d \<in> set (es_datasets g)" for d
    using that by (auto simp: datasets_ok_def)
  show ?thesis
  proof (cases x)
    case (Closed d vs)
    with assms(3) old have "i \<noteq> ds_id d" by simp
    with Closed 1 assms(3) show ?thesis by (simp add: versions_in_snoc new_version_def)
  next
    case (Kept j)
    with 1(3) assms(3) show ?thesis by auto
  qed (use 1 assms(3) in simp)
qed

lemma new_draft_holds:
  assumes "eval_inv sha g" "create_eval_draft s actor dataset expected g = Inr (r, h)" "eval_holds x g"
  shows "eval_holds x h"
  using assms(2)
proof (cases rule: create_eval_draft_cases)
  case (1 d w)
  note D = writable_datasetD [OF 1(1)]
  show ?thesis
  proof (cases x)
    case (Sealed v rs)
    with 1 assms(3) show ?thesis by simp
  next
    case (Closed e vs)
    with assms(3) D 1(2) eval_invD(2) [OF assms(1)] have "ds_id e \<noteq> dataset"
      using distinct_keyD [of ds_id "es_datasets g" e d] by (auto simp: datasets_ok_def)
    with Closed 1 assms(3) show ?thesis by (auto simp: versions_in_snoc new_version_def other_row_stays)
  next
    case (Kept i)
    with 1 assms(3) show ?thesis by (simp add: bumped_ids)
  qed
qed

lemma new_cases_holds:
  assumes "eval_inv sha g" "replace_eval_cases sha s actor dataset version expected cases g = Inr (r, h)" "eval_holds x g"
  shows "eval_holds x h"
  using assms(2)
proof (cases rule: replace_eval_cases_cases)
  case (1 d v cs rows)
  note I = eval_invD [OF assms(1)]
  from version_ofD [OF 1(3)] have vin: "v \<in> set (es_versions g)" "dv_id v = version" "dv_dataset v = dataset" by simp_all
  show ?thesis
  proof (cases x)
    case (Sealed w rs)
    with assms(3) have w: "w \<in> set (es_versions g)" "dv_state w = Published" by simp_all
    with vin 1(4) version_id_unique [OF I(3) w(1) vin(1)] have "dv_id w \<noteq> version" by auto
    with Sealed 1 assms(3) number_rows_Inr [OF 1(6)] show ?thesis by (simp add: other_row_stays rows_of_others)
  next
    case (Closed e vs)
    with assms(3) draft_owner_active [OF I(3) vin(1) 1(4)] vin have "ds_id e \<noteq> dataset" by auto
    with one_version_update(5) [where v' = "recounted (int (length rows)) v", OF I(3) vin(1) recounted_place 1(4)] vin
      Closed 1 assms(3) show ?thesis by simp
  next
    case (Kept i)
    with 1 assms(3) show ?thesis by simp
  qed
qed

lemma publish_holds:
  assumes "eval_inv sha g" "publish_eval_version sha s actor dataset version expected epoch digest g = Inr (r, h)" "eval_holds x g"
  shows "eval_holds x h"
  using assms(2)
proof (cases rule: publish_eval_version_cases)
  case (1 d v cs)
  note I = eval_invD [OF assms(1)]
  from version_ofD [OF 1(2)] have vin: "v \<in> set (es_versions g)" "dv_id v = version" "dv_dataset v = dataset" by simp_all
  show ?thesis
  proof (cases x)
    case (Sealed w rs)
    with assms(3) have w: "w \<in> set (es_versions g)" "dv_state w = Published" by simp_all
    with vin 1(5) version_id_unique [OF I(3) w(1) vin(1)] have "dv_id w \<noteq> version" by auto
    with Sealed 1 assms(3) show ?thesis by (simp add: other_row_stays)
  next
    case (Closed e vs)
    with assms(3) draft_owner_active [OF I(3) vin(1) 1(5)] vin have "ds_id e \<noteq> dataset" by auto
    with one_version_update(5) [where v' = "sealed_version actor (es_now g) (int (length cs)) digest v",
        OF I(3) vin(1) sealed_place 1(5)] vin Closed 1 assms(3)
    show ?thesis by (simp add: other_row_stays)
  next
    case (Kept i)
    with 1 assms(3) show ?thesis by (simp add: bumped_ids)
  qed
qed

lemma retire_holds:
  assumes "eval_inv sha g" "retire_eval_dataset s actor dataset expected epoch g = Inr (r, h)" "eval_holds x g"
  shows "eval_holds x h"
  using assms(2)
proof (cases rule: retire_eval_dataset_cases)
  case (1 d)
  note D = writable_datasetD [OF 1(1)]
  show ?thesis
  proof (cases x)
    case (Sealed v rs)
    with 1 assms(3) show ?thesis by simp
  next
    case (Closed e vs)
    with assms(3) D 1(2) eval_invD(2) [OF assms(1)] have "ds_id e \<noteq> dataset"
      using distinct_keyD [of ds_id "es_datasets g" e d] by (auto simp: datasets_ok_def)
    with Closed 1 assms(3) show ?thesis by (simp add: other_row_stays)
  next
    case (Kept i)
    with 1 assms(3) show ?thesis by (simp add: bumped_ids)
  qed
qed

lemma eval_call_holds:
  assumes "eval_inv sha g" "eval_holds x g"
  shows "eval_holds x (eval_call sha ev g)"
proof (cases ev)
  case (Organise e)
  with assms(2) show ?thesis by (cases x) simp_all
next
  case (New_Dataset s actor slug label)
  show ?thesis unfolding New_Dataset eval_call.simps
    by (rule after_keep [where P = "eval_holds x"]) (use assms new_dataset_holds in blast)+
next
  case (New_Draft s actor dataset expected)
  show ?thesis unfolding New_Draft eval_call.simps
    by (rule after_keep [where P = "eval_holds x"]) (use assms new_draft_holds in blast)+
next
  case (New_Cases s actor dataset version expected cases)
  show ?thesis unfolding New_Cases eval_call.simps
    by (rule after_keep [where P = "eval_holds x"]) (use assms new_cases_holds in blast)+
next
  case (Publish s actor dataset version expected epoch digest)
  show ?thesis unfolding Publish eval_call.simps
    by (rule after_keep [where P = "eval_holds x"]) (use assms publish_holds in blast)+
next
  case (Retire s actor dataset expected epoch)
  show ?thesis unfolding Retire eval_call.simps
    by (rule after_keep [where P = "eval_holds x"]) (use assms retire_holds in blast)+
qed

interpretation seals: stable_fact eval_init "eval_step sha" "eval_inv sha" eval_holds
proof
  fix g h x
  assume "eval_inv sha g" "eval_step sha g h" "eval_holds x g"
  then show "eval_holds x h" by (auto simp: eval_step_def eval_call_holds)
qed

end
