(* ===== verification/Eval_Accepted.thy ===== *)
theory Eval_Accepted
  imports Eval_Machine
begin

text \<open>
  When the two operations that carry content succeed: what the contract accepts, the database
  stores unless a case names more than a hundred pages, and a stored draft can be published with
  the digest of its rows.
\<close>

lemma good_text_fits: "good_text limit x \<Longrightarrow> text_fits limit x"
  by (auto simp: good_text_def eval_text_def text_fits_def split: option.splits if_splits)

lemma good_case_row:
  assumes "good_case c" "1 \<le> n" "n \<le> 500"
  shows "case_row_ok n c \<longleftrightarrow> length (ec_pages c) \<le> 100"
  using assms good_text_fits [of Q_BYTES "ec_q c"] good_text_fits [of KEY_BYTES "ec_key c"]
    good_text_fits [of ANSWER_BYTES "ec_answer c"]
  by (auto simp: case_row_ok_def good_case_def good_pages_def pages_valid_def list_all_iff
      Q_BYTES_def KEY_BYTES_def ANSWER_BYTES_def)

lemma case_digest_good: "good_case c \<Longrightarrow> \<exists>x. case_digest sha (normal_dict c) = Inr (Some x)"
  using encode_json [of "case_json c"] case_json_ok [of c]
  by (auto simp: case_digest_def as_case_normal canonical_case_bytes_def validate_case_object)

lemma number_rows_total: "\<forall>c\<in>set cs. good_case c \<Longrightarrow> \<exists>rows. number_rows sha version n cs = Inr rows"
proof (induction cs arbitrary: n)
  case (Cons c cs)
  then obtain rows x where "number_rows sha version (n + 1) cs = Inr rows" "case_digest sha (normal_dict c) = Inr (Some x)"
    using case_digest_good [of c sha] by (metis list.set_intros)
  then show ?case by simp
qed simp

lemma numbered_rows_ok:
  assumes "number_rows sha version 1 cs = Inr rows" "good_cases cs"
  shows "list_all (\<lambda>r. case_row_ok (cr_ordinal r) (cr_case r)) rows \<longleftrightarrow> (\<forall>c\<in>set cs. length (ec_pages c) \<le> 100)"
proof -
  note R = number_rows_Inr [OF assms(1)]
  then have len: "length rows = length cs" by (metis length_map)
  have at: "cr_case (rows ! i) = cs ! i" "cr_ordinal (rows ! i) = 1 + int i" if "i < length cs" for i
  proof -
    from R have "map cr_case rows ! i = cs ! i" "map cr_ordinal rows ! i = map (\<lambda>k. 1 + int k) [0..<length cs] ! i" by simp_all
    with that len show "cr_case (rows ! i) = cs ! i" "cr_ordinal (rows ! i) = 1 + int i" by simp_all
  qed
  have "case_row_ok (cr_ordinal (rows ! i)) (cr_case (rows ! i)) \<longleftrightarrow> length (ec_pages (cs ! i)) \<le> 100"
    if "i < length cs" for i
    using that assms(2) at [OF that] good_case_row [of "cs ! i" "1 + int i"]
    by (auto simp: good_cases_def MAX_CASES_def)
  then show ?thesis using len by (auto simp: list_all_length all_set_conv_all_nth)
qed

lemma version_digest_total:
  assumes "good_cases cs"
  obtains body where "cases_body cs = Some body" "version_digest sha (V_Tuple (map normal_dict cs)) = Inr (Some (sha body))"
  using cases_body_total [OF assms] version_digest_good [OF assms, of sha] by auto

text \<open>What a published version proves about its rows.\<close>

lemma published_rows:
  assumes "cases_ok sha vs (es_cases g)" "v \<in> set vs" "dv_state v = Published"
  shows "good_cases (stored_cases (dv_id v) g)
    \<and> (\<exists>body. cases_body (stored_cases (dv_id v) g) = Some body \<and> dv_sha v = Some (sha body))"
proof -
  let ?cs = "map cr_case (rows_of (dv_id v) (es_cases g))"
  have "version_rows_ok sha v (rows_of (dv_id v) (es_cases g))" using assms(1,2) by (auto simp: cases_ok_def)
  then have good: "good_cases ?cs" and digest: "dv_sha v = map_option sha (cases_body ?cs)"
    using assms(3) by (simp_all add: version_rows_ok_def version_seal_ok_def)
  from cases_body_total [OF good] obtain body where "cases_body ?cs = Some body" by blast
  with good digest stored_rows [OF assms(1,2)] show ?thesis by simp
qed

text \<open>Everything but the cases themselves is in order for a replacement.\<close>

definition may_replace :: "session \<Rightarrow> uuid \<Rightarrow> uuid \<Rightarrow> uuid \<Rightarrow> int \<Rightarrow> eval_store \<Rightarrow> bool" where
  "may_replace s actor dataset version expected g \<longleftrightarrow> actor \<noteq> 0 \<and> 1 \<le> expected \<and> o_tenant (es_org g) \<noteq> None
     \<and> writable_dataset s actor dataset g \<noteq> None
     \<and> (\<exists>v. version_of version dataset g = Some v \<and> dv_state v = Draft \<and> dv_revision v = expected)"

lemma replace_result:
  assumes "may_replace s actor dataset version expected g" "case_sequence cases = Inr cs"
  shows "if \<forall>c\<in>set cs. length (ec_pages c) \<le> 100
    then \<exists>v body h. cases_body cs = Some body
      \<and> replace_eval_cases sha s actor dataset version expected cases g = Inr ((v, sha body), h)
    else replace_eval_cases sha s actor dataset version expected cases g = Inl Schema"
proof -
  have good: "good_cases cs" using case_sequence_good [OF assms(2)] .
  from assms(1) obtain t d v where pre: "actor \<noteq> 0" "1 \<le> expected" "o_tenant (es_org g) = Some t"
      "writable_dataset s actor dataset g = Some d" "version_of version dataset g = Some v" "dv_state v = Draft"
      "dv_revision v = expected"
    unfolding may_replace_def by blast
  from good obtain rows where rows: "number_rows sha version 1 cs = Inr rows"
    using number_rows_total [of cs sha version 1] by (auto simp: good_cases_def)
  from version_digest_total [OF good] obtain body where body: "cases_body cs = Some body"
      "version_digest sha (V_Tuple (map normal_dict cs)) = Inr (Some (sha body))" .
  have "list_all (\<lambda>r. case_row_ok (cr_ordinal r) (cr_case r)) rows \<longleftrightarrow> (\<forall>c\<in>set cs. length (ec_pages c) \<le> 100)"
    by (rule numbered_rows_ok [OF rows good])
  with pre rows body assms(2) show ?thesis
    by (simp add: replace_eval_cases_def eval_actor_def lock_eval_policy_def Let_def)
qed

lemma publish_result:
  assumes "eval_inv sha g" "actor \<noteq> 0" "o_tenant (es_org g) = Some t" "1 \<le> tn_epoch t"
    and "writable_dataset s actor dataset g = Some d" "ds_state d = Ds_Active" "version_of version dataset g = Some v"
    and "dv_state v = Draft" "1 \<le> dv_revision v" "rows_of version (es_cases g) \<noteq> []"
    and "cases_body (map cr_case (rows_of version (es_cases g))) = Some body" "digest_shaped (sha body)"
  shows "\<exists>x. publish_eval_version sha s actor dataset version (dv_revision v) (tn_epoch t) (sha body) g = Inr x"
proof -
  let ?cs = "map cr_case (rows_of version (es_cases g))"
  note C = eval_invD(4) [OF assms(1)]
  from version_ofD [OF assms(7)] have vin: "v \<in> set (es_versions g)" "dv_id v = version" by simp_all
  with C assms(10) have good: "good_cases ?cs" by (auto simp: cases_ok_def version_rows_ok_def)
  have "case_sequence (V_Tuple (map row_dict (stored_cases version g))) = Inr ?cs"
    using stored_rows [OF C vin(1)] vin(2) case_sequence_rows [OF good] by simp
  moreover have "version_digest sha (V_Tuple (map normal_dict ?cs)) = Inr (Some (sha body))"
    using version_digest_good [OF good, of sha] assms(11) by simp
  ultimately show ?thesis
    using assms by (auto simp: publish_eval_version_def eval_actor_def lock_eval_policy_def Let_def)
qed

text \<open>Printable ASCII without outer blanks is an accepted text.\<close>

lemma good_text_ascii:
  assumes "list_all (\<lambda>c. 32 \<le> c \<and> c < 127) x" "x \<noteq> []" "int (length x) \<le> limit" "strip x = x"
  shows "good_text limit x"
proof -
  have "list_all is_scalar x" using assms(1) by (auto simp: list_all_iff is_scalar_def is_surrogate_def)
  moreover have "concat (map utf8_char x) = x" using assms(1) by (induction x) (auto simp: utf8_char_def)
  ultimately have "utf8_encode x = Some x" by (simp add: utf8_encode_def)
  moreover have "\<not> list_ex (\<lambda>c. c < 32) x" using assms(1) by (auto simp: list_all_iff list_ex_iff)
  ultimately show ?thesis using assms(2-4) by (simp add: good_text_def eval_text_def)
qed

end
