(* ===== verification/Eval_Properties.thy ===== *)
theory Eval_Properties
  imports Organisation_Properties Eval_Accepted
begin

text \<open>
  The properties of the evaluation datasets and the small dataset their witnesses use: an editor
  of the seated tenant creates it, stores one case and publishes it. \<open>demo_sha\<close> stands for SHA-256
  where a witness evaluates it.
\<close>

section \<open>A small dataset\<close>

definition demo_sha :: "nat list \<Rightarrow> pystr" where
  "demo_sha bs = replicate 63 97 @ [48 + sum_list bs mod 10]"

definition bob :: session where
  "bob = \<lparr>se_actor = Some 3, se_service = False, se_bindings = False\<rparr>"

definition tally_case :: eval_case where
  "tally_case = \<lparr>ec_case_key = u ''0b54d9e2-1c3f-4a6b-9d7e-5f8a9b0c1d2e'', ec_q = u ''How many?'', ec_key = u ''report.pdf'',
     ec_answer = u ''Forty'', ec_pages = [3, 7], ec_type = u ''sayisal''\<rparr>"

definition tally :: pyval where
  "tally = V_Tuple (map normal_dict [tally_case])"

definition tally_sha :: pystr where
  "tally_sha = (case cases_body [tally_case] of None \<Rightarrow> [] | Some body \<Rightarrow> demo_sha body)"

definition eval_open :: eval_store where
  "eval_open = \<lparr>es_org = seated, es_datasets = [], es_versions = [], es_cases = [], es_events = []\<rparr>"

definition eval_created :: eval_store where
  "eval_created = eval_call demo_sha (New_Dataset bob 3 (u ''tally'') (u ''Tally'')) eval_open"

definition eval_filled :: eval_store where
  "eval_filled = eval_call demo_sha (New_Cases bob 3 6 7 1 tally) eval_created"

definition eval_sealed :: eval_store where
  "eval_sealed = eval_call demo_sha (Publish bob 3 6 7 2 2 tally_sha) eval_filled"

lemma good_tally_case: "good_case tally_case"
  unfolding good_case_def
proof (intro conjI)
  have ascii: "good_text limit x"
    if "list_all (\<lambda>c. 32 \<le> c \<and> c < 127) x \<and> x \<noteq> [] \<and> strip x = x" "int (length x) \<le> 100" "100 \<le> limit" for limit x
    using that by (intro good_text_ascii) auto
  show "good_text Q_BYTES (ec_q tally_case)" "good_text KEY_BYTES (ec_key tally_case)"
    "good_text ANSWER_BYTES (ec_answer tally_case)"
    by (rule ascii; simp add: tally_case_def u_def strip_def lstrip_def rstrip_def is_space_def
        Q_BYTES_def KEY_BYTES_def ANSWER_BYTES_def)+
  show "uuid4_text (ec_case_key tally_case)" by code_simp
  show "good_pages (ec_pages tally_case)" by (simp add: good_pages_def tally_case_def MAX_VERSION_def)
  show "ec_type tally_case \<in> set CASE_TYPES" by (simp add: tally_case_def CASE_TYPES_def)
qed

lemma good_tally: "good_cases [tally_case]"
  by (simp add: good_cases_def good_tally_case MAX_CASES_def)

lemma tally_sequence: "case_sequence tally = Inr [tally_case]"
  unfolding tally_def by (rule case_sequence_normal [OF good_tally])

lemma created_row:
  "create_eval_dataset bob 3 (u ''tally'') (u ''Tally'') eval_open
    = Inr ((new_dataset 6 3 (u ''tally'') (u ''Tally'') 0, new_version 7 6 1 None 3 0), eval_created)"
  by code_simp

lemma created_may_replace: "may_replace bob 3 6 7 1 eval_created"
proof -
  have "writable_dataset bob 3 6 eval_created = Some (new_dataset 6 3 (u ''tally'') (u ''Tally'') 0)"
    "version_of 7 6 eval_created = Some (new_version 7 6 1 None 3 0)"
    "o_tenant (es_org eval_created) = Some \<lparr>tn_name = u ''acme'', tn_version = 2, tn_epoch = 2\<rparr>" by code_simp+
  then show ?thesis by (simp add: may_replace_def new_version_def)
qed

lemma eval_open_reached: "reach eval_init (eval_step sha) eval_open"
proof (rule evaluations.reach_steps)
  have "run_eval sha [Organise (drawing ! 0), Organise (drawing ! 1)] (empty_eval 0) = Some eval_open"
    by (simp add: empty_eval_def eval_permitted_def dataset_owners_def drawing_def eval_open_def seated_def founded_def)
  then show "(eval_step sha)\<^sup>*\<^sup>* (empty_eval 0) eval_open" by (rule run_eval_steps)
  show "reach eval_init (eval_step sha) (empty_eval 0)"
    by (rule reach_init) (auto simp: eval_init_def)
qed

lemma eval_call_reached:
  "reach eval_init (eval_step sha) g \<Longrightarrow> eval_permitted ev g \<Longrightarrow> reach eval_init (eval_step sha) (eval_call sha ev g)"
  by (rule reach_step) (auto simp: eval_step_def)

lemma eval_created_reached: "reach eval_init (eval_step demo_sha) eval_created"
  unfolding eval_created_def by (rule eval_call_reached [OF eval_open_reached]) (simp add: eval_permitted_def)

lemma eval_filled_reached: "reach eval_init (eval_step demo_sha) eval_filled"
  unfolding eval_filled_def by (rule eval_call_reached [OF eval_created_reached]) (simp add: eval_permitted_def)

lemma eval_sealed_reached: "reach eval_init (eval_step demo_sha) eval_sealed"
  unfolding eval_sealed_def by (rule eval_call_reached [OF eval_filled_reached]) (simp add: eval_permitted_def)

lemma filled_row: "\<exists>v. replace_eval_cases demo_sha bob 3 6 7 1 tally eval_created = Inr ((v, tally_sha), eval_filled)"
proof -
  have few: "\<forall>c\<in>set [tally_case]. length (ec_pages c) \<le> 100" by (simp add: tally_case_def)
  have "if \<forall>c\<in>set [tally_case]. length (ec_pages c) \<le> 100
    then \<exists>v body h. cases_body [tally_case] = Some body
      \<and> replace_eval_cases demo_sha bob 3 6 7 1 tally eval_created = Inr ((v, demo_sha body), h)
    else replace_eval_cases demo_sha bob 3 6 7 1 tally eval_created = Inl Schema"
    by (rule replace_result [OF created_may_replace tally_sequence])
  then obtain v body h where h: "cases_body [tally_case] = Some body"
      "replace_eval_cases demo_sha bob 3 6 7 1 tally eval_created = Inr ((v, demo_sha body), h)"
    unfolding if_P [OF few] by blast
  then have "eval_filled = h" by (simp add: eval_filled_def)
  with h show ?thesis by (simp add: tally_sha_def)
qed

lemma filled_state:
  "es_org eval_filled = seated\<lparr>o_next := 8\<rparr>" "es_datasets eval_filled = [new_dataset 6 3 (u ''tally'') (u ''Tally'') 0]"
  "es_versions eval_filled = [recounted 1 (new_version 7 6 1 None 3 0)]"
  "map cr_case (rows_of 7 (es_cases eval_filled)) = [tally_case]"
proof -
  from filled_row obtain v where v: "replace_eval_cases demo_sha bob 3 6 7 1 tally eval_created = Inr ((v, tally_sha), eval_filled)" ..
  have created: "es_org eval_created = seated\<lparr>o_next := 8\<rparr>"
      "es_datasets eval_created = [new_dataset 6 3 (u ''tally'') (u ''Tally'') 0]"
      "es_versions eval_created = [new_version 7 6 1 None 3 0]" "es_cases eval_created = []" by code_simp+
  from v have "es_org eval_filled = es_org eval_created \<and> es_datasets eval_filled = es_datasets eval_created
      \<and> es_versions eval_filled = [recounted 1 (new_version 7 6 1 None 3 0)]
      \<and> map cr_case (rows_of 7 (es_cases eval_filled)) = [tally_case]"
  proof (cases rule: replace_eval_cases_cases)
    case (1 d w cs rows)
    from 1(1) tally_sequence have cs: "cs = [tally_case]" by simp
    note R = number_rows_Inr [OF 1(6), unfolded cs]
    from 1(3) created have "w = new_version 7 6 1 None 3 0" by (simp add: version_of_def new_version_def)
    moreover have "length rows = 1" using R by (metis length_map length_Cons list.size(3) One_nat_def)
    ultimately show ?thesis using 1 R created by (simp add: new_version_def rows_of_def recounted_def)
  qed
  with created show "es_org eval_filled = seated\<lparr>o_next := 8\<rparr>"
      "es_datasets eval_filled = [new_dataset 6 3 (u ''tally'') (u ''Tally'') 0]"
      "es_versions eval_filled = [recounted 1 (new_version 7 6 1 None 3 0)]"
      "map cr_case (rows_of 7 (es_cases eval_filled)) = [tally_case]" by simp_all
qed

lemma sealed_row: "\<exists>x. publish_eval_version demo_sha bob 3 6 7 2 2 tally_sha eval_filled = Inr (x, eval_sealed)"
proof -
  have org: "o_tenant (seated\<lparr>o_next := 8\<rparr>) = Some \<lparr>tn_name = u ''acme'', tn_version = 2, tn_epoch = 2\<rparr>"
    "owner_can_write bob (seated\<lparr>o_next := 8\<rparr>) 3" by code_simp+
  obtain body where body: "cases_body [tally_case] = Some body" using cases_body_total [OF good_tally] by blast
  have ne: "rows_of 7 (es_cases eval_filled) \<noteq> []" using filled_state(4) by auto
  have "sum_list body mod 10 < 10" by simp
  then have "digest_shaped (demo_sha body)"
    by (auto simp: digest_shaped_def demo_sha_def lower_hex_def list_all_iff)
  moreover have "writable_dataset bob 3 6 eval_filled = Some (new_dataset 6 3 (u ''tally'') (u ''Tally'') 0)"
    using org(2) by (simp add: writable_dataset_def filled_state new_dataset_def bob_def)
  moreover have "version_of 7 6 eval_filled = Some (recounted 1 (new_version 7 6 1 None 3 0))"
    by (simp add: version_of_def filled_state recounted_def new_version_def)
  ultimately have "\<exists>x. publish_eval_version demo_sha bob 3 6 7 2 2 (demo_sha body) eval_filled = Inr x"
    using publish_result [where g = eval_filled and sha = demo_sha and s = bob and actor = 3 and dataset = 6 and version = 7
        and d = "new_dataset 6 3 (u ''tally'') (u ''Tally'') 0" and v = "recounted 1 (new_version 7 6 1 None 3 0)"
        and t = "\<lparr>tn_name = u ''acme'', tn_version = 2, tn_epoch = 2\<rparr>" and body = body]
      evaluations.reach_inv [OF eval_filled_reached] org(1) ne body
    by (simp add: filled_state recounted_def new_version_def new_dataset_def)
  with body show ?thesis by (auto simp: eval_sealed_def tally_sha_def)
qed

lemma eval_sealed_version:
  "sealed_version 3 0 1 tally_sha (recounted 1 (new_version 7 6 1 None 3 0)) \<in> set (es_versions eval_sealed)"
  "ds_current (bumped (\<lambda>d. d\<lparr>ds_current := Some 7\<rparr>) 0 (new_dataset 6 3 (u ''tally'') (u ''Tally'') 0)) = Some 7"
  "bumped (\<lambda>d. d\<lparr>ds_current := Some 7\<rparr>) 0 (new_dataset 6 3 (u ''tally'') (u ''Tally'') 0) \<in> set (es_datasets eval_sealed)"
proof -
  have clock: "es_now eval_filled = 0"
  proof -
    have "o_clock seated = 0" by code_simp
    then show ?thesis by (simp add: es_now_def filled_state)
  qed
  from sealed_row obtain x where "publish_eval_version demo_sha bob 3 6 7 2 2 tally_sha eval_filled = Inr (x, eval_sealed)" ..
  then have "sealed_version 3 0 1 tally_sha (recounted 1 (new_version 7 6 1 None 3 0)) \<in> set (es_versions eval_sealed)
      \<and> bumped (\<lambda>d. d\<lparr>ds_current := Some 7\<rparr>) 0 (new_dataset 6 3 (u ''tally'') (u ''Tally'') 0) \<in> set (es_datasets eval_sealed)"
  proof (cases rule: publish_eval_version_cases)
    case (1 d v cs)
    have C: "cases_ok demo_sha (es_versions eval_filled) (es_cases eval_filled)"
      by (rule eval_invD(4) [OF evaluations.reach_inv [OF eval_filled_reached]])
    from 1(2) have v: "v = recounted 1 (new_version 7 6 1 None 3 0)"
      by (simp add: version_of_def filled_state recounted_def new_version_def)
    with stored_sequence(1) [OF C, of v cs] 1(7) filled_state(3,4) have "cs = [tally_case]"
      by (simp add: recounted_def new_version_def)
    with 1(10,11) v show ?thesis
      by (simp add: filled_state clock) (simp add: recounted_def new_version_def new_dataset_def)
  qed
  then show "sealed_version 3 0 1 tally_sha (recounted 1 (new_version 7 6 1 None 3 0)) \<in> set (es_versions eval_sealed)"
    "bumped (\<lambda>d. d\<lparr>ds_current := Some 7\<rparr>) 0 (new_dataset 6 3 (u ''tally'') (u ''Tally'') 0) \<in> set (es_datasets eval_sealed)"
    by blast+
  show "ds_current (bumped (\<lambda>d. d\<lparr>ds_current := Some 7\<rparr>) 0 (new_dataset 6 3 (u ''tally'') (u ''Tally'') 0)) = Some 7"
    by (simp add: bumped_def)
qed

section \<open>Properties\<close>

text \<open>C17: A published version never changes. In every later state of any run the version has the same
  row and the same case rows, its digest is the digest of exactly the cases it holds, and neither
  a replacement of its cases nor a second publication of it is committed.\<close>

theorem sealed_version_never_changes:
  assumes "reach eval_init (eval_step sha) g" "v \<in> set (es_versions g)" "dv_state v = Published"
    and "(eval_step sha)\<^sup>*\<^sup>* g h"
  shows "v \<in> set (es_versions h) \<and> rows_of (dv_id v) (es_cases h) = rows_of (dv_id v) (es_cases g)
    \<and> (\<exists>body. cases_body (stored_cases (dv_id v) h) = Some body \<and> dv_sha v = Some (sha body))
    \<and> replace_eval_cases sha s actor dataset (dv_id v) expected cases h \<noteq> Inr x
    \<and> publish_eval_version sha s actor dataset (dv_id v) expected epoch digest h \<noteq> Inr y"
proof -
  from assms(2,3) have "eval_holds (Sealed v (rows_of (dv_id v) (es_cases g))) g" by simp
  from seals.fact_forever [OF assms(1) this assms(4)]
  have v: "v \<in> set (es_versions h)" and rows: "rows_of (dv_id v) (es_cases h) = rows_of (dv_id v) (es_cases g)" by simp_all
  note I = eval_invD [OF evaluations.steps_inv [OF assms(4) evaluations.reach_inv [OF assms(1)]]]
  have "\<exists>body. cases_body (stored_cases (dv_id v) h) = Some body \<and> dv_sha v = Some (sha body)"
    using published_rows [OF I(4) v assms(3)] by blast
  moreover have same: "w = v" if "version_of (dv_id v) dataset h = Some w" for w
    using version_id_unique [OF I(3) _ v] version_ofD [OF that] by blast
  have "replace_eval_cases sha s actor dataset (dv_id v) expected cases h \<noteq> Inr x"
    by (cases x) (auto elim!: replace_eval_cases_cases dest!: same simp: assms(3))
  moreover have "publish_eval_version sha s actor dataset (dv_id v) expected epoch digest h \<noteq> Inr y"
    by (cases y) (auto elim!: publish_eval_version_cases dest!: same simp: assms(3))
  ultimately show ?thesis using v rows by blast
qed

lemma sealed_version_never_changes_witness:
  "\<forall>x. publish_eval_version demo_sha bob 3 6 7 3 2 tally_sha eval_sealed \<noteq> Inr x"
proof
  have "dv_id (sealed_version 3 0 1 tally_sha (recounted 1 (new_version 7 6 1 None 3 0))) = 7"
    "dv_state (sealed_version 3 0 1 tally_sha (recounted 1 (new_version 7 6 1 None 3 0))) = Published"
    by (simp_all add: sealed_version_def recounted_def new_version_def)
  with sealed_version_never_changes [OF eval_sealed_reached eval_sealed_version(1) _ rtranclp.rtrancl_refl]
  show "publish_eval_version demo_sha bob 3 6 7 3 2 tally_sha eval_sealed \<noteq> Inr x" for x
    by metis
qed

text \<open>C18: The versions of a dataset form one line. In every reachable state a dataset has versions
  numbered from 1 without a gap, each the successor of the one before; only the last can be a
  draft and a retired dataset has none; the current version is the last published one; and a
  version counts its cases, which the contract accepts exactly as they are stored.\<close>

theorem versions_form_one_line:
  assumes "reach eval_init (eval_step sha) g" "d \<in> set (es_datasets g)"
  shows "let vs = versions_in (ds_id d) (es_versions g) in
    vs \<noteq> [] \<and> map dv_number vs = map int [1..<Suc (length vs)]
    \<and> (\<forall>i<length vs. dv_parent (vs ! i) = (if i = 0 then None else Some (dv_id (vs ! (i - 1))))
         \<and> (dv_state (vs ! i) = Draft \<longrightarrow> Suc i = length vs \<and> ds_state d = Ds_Active))
    \<and> ds_current d = last_published vs
    \<and> (\<forall>v\<in>set vs. dv_count v = int (length (stored_cases (dv_id v) g))
         \<and> (stored_cases (dv_id v) g = []
            \<or> case_sequence (V_Tuple (map row_dict (stored_cases (dv_id v) g))) = Inr (stored_cases (dv_id v) g)))"
proof -
  note I = eval_invD [OF evaluations.reach_inv [OF assms(1)]]
  let ?vs = "versions_in (ds_id d) (es_versions g)"
  have old: "?vs \<noteq> []" "line None 1 ?vs" "ds_current d = last_published ?vs"
    using I(3) assms(2) by (auto simp: versions_ok_def)
  have active: "ds_state d = Ds_Active" if "v \<in> set ?vs" "dv_state v = Draft" for v
    using draft_owner_active [OF I(3) _ that(2) assms(2)] that(1) by (simp add: versions_in_def)
  have cases: "dv_count v = int (length (stored_cases (dv_id v) g)) \<and> (stored_cases (dv_id v) g = []
      \<or> case_sequence (V_Tuple (map row_dict (stored_cases (dv_id v) g))) = Inr (stored_cases (dv_id v) g))"
    if "v \<in> set ?vs" for v
  proof -
    from that have v: "v \<in> set (es_versions g)" by (simp add: versions_in_def)
    with I(4) have "version_rows_ok sha v (rows_of (dv_id v) (es_cases g))" by (auto simp: cases_ok_def)
    with stored_rows [OF I(4) v] case_sequence_rows [of "stored_cases (dv_id v) g"] show ?thesis
      by (cases "rows_of (dv_id v) (es_cases g) = []") (simp_all add: version_rows_ok_def)
  qed
  have "map dv_number ?vs = map int [1..<Suc (length ?vs)]" 
    using line_numbers [OF old(2)] by (simp add: map_Suc_upt [symmetric] del: upt_Suc map_Suc_upt)
  moreover have "dv_parent (?vs ! i) = (if i = 0 then None else Some (dv_id (?vs ! (i - 1))))
      \<and> (dv_state (?vs ! i) = Draft \<longrightarrow> Suc i = length ?vs \<and> ds_state d = Ds_Active)" if "i < length ?vs" for i
    using line_nth [OF old(2) that] active [OF nth_mem [OF that]] by auto
  ultimately show ?thesis unfolding Let_def using old cases by blast
qed

lemma versions_form_one_line_witness:
  "last_published (versions_in 6 (es_versions eval_sealed)) = Some 7"
proof -
  let ?d = "bumped (\<lambda>d. d\<lparr>ds_current := Some 7\<rparr>) 0 (new_dataset 6 3 (u ''tally'') (u ''Tally'') 0)"
  have "ds_id ?d = 6" by (simp add: bumped_def new_dataset_def)
  with versions_form_one_line [OF eval_sealed_reached eval_sealed_version(3)] eval_sealed_version(2)
  show ?thesis by (simp add: Let_def)
qed

text \<open>C19: What is published is what was shown. When a replacement of the cases answers a digest and, after
  any other calls, the version is published with that digest, then both the cases that were offered,
  normalised, and the rows that were sealed have canonical texts of exactly that digest; the two texts
  are equal exactly if the sealed rows are the offered cases. So rows that were not shown are sealed
  only under two different canonical texts, both exhibited, with one SHA-256.\<close>

theorem publish_seals_what_was_shown:
  assumes "reach eval_init (eval_step sha) g"
    and "replace_eval_cases sha s actor dataset version expected cases g = Inr ((w, digest), h)"
    and "(eval_step sha)\<^sup>*\<^sup>* h k"
    and "publish_eval_version sha s' actor' dataset' version expected' epoch digest k = Inr (r, l)"
  shows "(\<exists>v\<in>set (es_versions l). dv_id v = version \<and> dv_state v = Published \<and> dv_sha v = Some digest)
    \<and> (\<exists>cs body other. case_sequence cases = Inr cs \<and> cases_body cs = Some body \<and> sha body = digest
        \<and> cases_body (stored_cases version l) = Some other \<and> sha other = digest
        \<and> (body = other \<longleftrightarrow> stored_cases version l = cs))"
proof -
  from assms(2) obtain cs where cs: "case_sequence cases = Inr cs"
      "version_digest sha (V_Tuple (map normal_dict cs)) = Inr (Some digest)"
    by (cases rule: replace_eval_cases_cases) auto
  note good = case_sequence_good [OF cs(1)]
  from version_digest_total [OF good, of sha] cs(2) obtain body where body: "cases_body cs = Some body" "digest = sha body"
    by auto
  have "eval_step sha g h" unfolding eval_step_def
    by (rule exI [of _ "New_Cases s actor dataset version expected cases"]) (simp add: assms(2) eval_permitted_def)
  then have k: "eval_inv sha k"
    using evaluations.reach_inv [OF reach_step [OF assms(1)]] evaluations.steps_inv [OF assms(3)] by blast
  note l = eval_invD [OF publish_inv [OF k assms(4)]]
  from assms(4) have "\<exists>v\<in>set (es_versions l). dv_id v = version \<and> dv_state v = Published \<and> dv_sha v = Some digest"
  proof (cases rule: publish_eval_version_cases)
    case (1 d v ds)
    let ?v = "sealed_version actor' (es_now k) (int (length ds)) digest v"
    from version_ofD [OF 1(2)] have vin: "v \<in> set (es_versions k)" "dv_id v = version" by simp_all
    then have "?v \<in> set (es_versions l)" using 1(11) by (force simp: set_update_rows)
    with vin(2) show ?thesis by (intro bexI [of _ ?v]) (simp_all add: sealed_version_def)
  qed
  then obtain v where v: "v \<in> set (es_versions l)" "dv_id v = version" "dv_state v = Published" "dv_sha v = Some digest" by blast
  with published_rows [OF l(4) v(1,3)] obtain other where other: "good_cases (stored_cases version l)"
      "cases_body (stored_cases version l) = Some other" "digest = sha other" by auto
  have "body = other \<longleftrightarrow> stored_cases version l = cs"
    using cases_body_injective [OF good other(1)] body(1) other(2) by auto
  then have "\<exists>cs body other. case_sequence cases = Inr cs \<and> cases_body cs = Some body \<and> sha body = digest
        \<and> cases_body (stored_cases version l) = Some other \<and> sha other = digest
        \<and> (body = other \<longleftrightarrow> stored_cases version l = cs)"
    using cs(1) body other(2,3) by (intro exI [of _ cs] exI [of _ body] exI [of _ other]) simp
  with v show ?thesis by blast
qed

text \<open>The dataset's one case: what was shown is what is sealed.\<close>

lemma publish_seals_what_was_shown_witness:
  "(\<exists>v\<in>set (es_versions eval_sealed). dv_id v = 7 \<and> dv_state v = Published \<and> dv_sha v = Some tally_sha)
    \<and> stored_cases 7 eval_sealed = [tally_case]
    \<and> (\<exists>body. cases_body [tally_case] = Some body \<and> cases_body (stored_cases 7 eval_sealed) = Some body \<and> demo_sha body = tally_sha)"
proof -
  from filled_row obtain v where v: "replace_eval_cases demo_sha bob 3 6 7 1 tally eval_created = Inr ((v, tally_sha), eval_filled)" ..
  from sealed_row obtain x where x: "publish_eval_version demo_sha bob 3 6 7 2 2 tally_sha eval_filled = Inr (x, eval_sealed)" ..
  from x have "es_cases eval_sealed = es_cases eval_filled" by (cases rule: publish_eval_version_cases) simp
  with filled_state(4) have stored: "stored_cases 7 eval_sealed = [tally_case]"
    by (auto simp: stored_cases_def)
  from publish_seals_what_was_shown [OF eval_created_reached v rtranclp.rtrancl_refl x] tally_sequence stored
  show ?thesis by auto
qed

text \<open>C39: The canonical bytes read back. A version that the contract accepts has canonical bytes, whatever
  scripts and control characters its texts hold; the strict reader takes these bytes, while they
  are within its limit, back to the same version; and two accepted versions with the same canonical
  bytes are the same version.\<close>

theorem canonical_bytes_read_back:
  assumes "validate_version value = Inr w"
  shows "(\<exists>bs. canonical_version_bytes w = Inr (Some bs)
      \<and> (int (length bs) \<le> MAX_JSON_BYTES \<longrightarrow> load_version_json bs = Inr w))
    \<and> (\<forall>value' w'. validate_version value' = Inr w' \<and> canonical_version_bytes w' = canonical_version_bytes w \<longrightarrow> w' = w)"
proof (intro conjI allI impI)
  from validate_version_good [OF assms] have good: "good_cases (ev_cases w)" "0 < ev_version w" "ev_version w \<le> MAX_VERSION"
    by simp_all
  obtain bs where bs: "canonical_version_bytes w = Inr (Some bs)" "utf8_encode (print_json (version_json w)) = Some bs"
    by (rule canonical_version_bytes_good [OF good])
  with load_canonical [OF good bs(2)]
  show "\<exists>bs. canonical_version_bytes w = Inr (Some bs) \<and> (int (length bs) \<le> MAX_JSON_BYTES \<longrightarrow> load_version_json bs = Inr w)"
    by blast
  fix value' w'
  assume w': "validate_version value' = Inr w' \<and> canonical_version_bytes w' = canonical_version_bytes w"
  from validate_version_good [of value' w'] w' have good': "good_cases (ev_cases w')" "0 < ev_version w'" "ev_version w' \<le> MAX_VERSION"
    by simp_all
  obtain bs' where bs': "canonical_version_bytes w' = Inr (Some bs')" "utf8_encode (print_json (version_json w')) = Some bs'"
    by (rule canonical_version_bytes_good [OF good'])
  with w' bs have "print_json (version_json w') = print_json (version_json w)" by (intro utf8_injective [of _ bs]) simp_all
  then have "version_json w' = version_json w"
    using version_json_ok good(1) good'(1) by (intro print_json_injective) blast+
  then have "map case_json (ev_cases w') = map case_json (ev_cases w)" "ev_version w' = ev_version w"
    by (simp_all add: version_json_def)
  moreover have "inj case_json" by (rule injI) (rule case_json_injective)
  ultimately show "w' = w" by (simp add: inj_map_eq_map)
qed

lemma canonical_bytes_read_back_witness:
  "\<exists>bs. canonical_version_bytes \<lparr>ev_version = 1, ev_cases = [tally_case]\<rparr> = Inr (Some bs)
    \<and> (int (length bs) \<le> MAX_JSON_BYTES \<longrightarrow> load_version_json bs = Inr \<lparr>ev_version = 1, ev_cases = [tally_case]\<rparr>)"
proof -
  have "validate_version (version_object \<lparr>ev_version = 1, ev_cases = [tally_case]\<rparr>) = Inr \<lparr>ev_version = 1, ev_cases = [tally_case]\<rparr>"
    by (rule validate_version_object) (simp_all add: good_tally MAX_VERSION_def)
  from canonical_bytes_read_back [OF this] show ?thesis by blast
qed

text \<open>The database wants fewer pages than the contract. When everything else is in order, a
  replacement with cases that the contract accepts is committed, with the digest of the normalised
  cases as its answer, exactly when no case names more than a hundred pages; otherwise the check of
  the table ends it with an error that no caller expects.\<close>

theorem database_wants_fewer_pages:
  assumes "may_replace s actor dataset version expected g" "case_sequence cases = Inr cs"
  shows "((\<exists>v body h. cases_body cs = Some body
        \<and> replace_eval_cases sha s actor dataset version expected cases g = Inr ((v, sha body), h))
      \<longleftrightarrow> (\<forall>c\<in>set cs. length (ec_pages c) \<le> 100))
    \<and> ((\<exists>c\<in>set cs. 100 < length (ec_pages c))
      \<longrightarrow> replace_eval_cases sha s actor dataset version expected cases g = Inl Schema)"
  using replace_result [OF assms, of sha] by (cases "\<forall>c\<in>set cs. length (ec_pages c) \<le> 100") (auto simp: not_le)

lemma database_wants_fewer_pages_witness:
  "case_sequence (V_Tuple (map normal_dict [tally_case\<lparr>ec_pages := map int [1..<102]\<rparr>]))
      = Inr [tally_case\<lparr>ec_pages := map int [1..<102]\<rparr>]
    \<and> replace_eval_cases demo_sha bob 3 6 7 1 (V_Tuple (map normal_dict [tally_case\<lparr>ec_pages := map int [1..<102]\<rparr>])) eval_created
      = Inl Schema"
proof -
  have "good_pages (map int [1..<102])"
    by (auto simp: good_pages_def MAX_VERSION_def sorted_wrt_map simp del: upt_Suc intro: sorted_wrt_mono_rel [OF _ sorted_wrt_upt])
  then have "good_cases [tally_case\<lparr>ec_pages := map int [1..<102]\<rparr>]"
    using good_tally_case by (simp add: good_cases_def good_case_def MAX_CASES_def)
  note seq = case_sequence_normal [OF this]
  have "100 < length (ec_pages (tally_case\<lparr>ec_pages := map int [1..<102]\<rparr>))" by (simp del: upt_Suc)
  with database_wants_fewer_pages [OF created_may_replace seq] seq show ?thesis by auto
qed

text \<open>C20: Authority over datasets follows the chart. In every reachable state whoever may write a dataset is
  its owner or monitors the owner, may also read it, and cannot be read by the owner in turn; and
  a draft, a replacement, a publication or a retirement is committed only for an actor who may write
  the dataset.\<close>

theorem dataset_authority_follows_chart:
  assumes "reach eval_init (eval_step sha) g"
  shows "(owner_can_write s (es_org g) i \<longrightarrow> owner_can_read s (es_org g) i
      \<and> (\<exists>v. se_actor s = Some v \<and> (v = i \<or> can_monitor (es_org g) v i
           \<and> (\<forall>s'. se_actor s' = Some i \<longrightarrow> \<not> owner_can_read s' (es_org g) v))))
    \<and> ((\<exists>x. create_eval_draft s actor dataset expected g = Inr x
          \<or> (\<exists>y. replace_eval_cases sha s actor dataset version expected cases g = Inr y)
          \<or> (\<exists>y. publish_eval_version sha s actor dataset version expected epoch digest g = Inr y)
          \<or> (\<exists>y. retire_eval_dataset s actor dataset expected epoch g = Inr y))
      \<longrightarrow> se_actor s = Some actor
        \<and> (\<exists>d\<in>set (es_datasets g). ds_id d = dataset \<and> owner_can_write s (es_org g) (ds_owner d)))"
proof (intro conjI impI)
  have I: "org_inv (es_org g)" by (rule eval_invD(1) [OF evaluations.reach_inv [OF assms]])
  assume w: "owner_can_write s (es_org g) i"
  then show "owner_can_read s (es_org g) i"
    by (auto simp: owner_can_write_def owner_can_read_def owner_reach_def list_ex_iff)
  from w obtain v where m: "se_actor s = Some v" "v = i \<or> can_monitor (es_org g) v i"
    unfolding owner_can_write_def owner_reach_def list_ex_iff by blast
  have "\<not> owner_can_read s' (es_org g) v"
    if "can_monitor (es_org g) v i" "se_actor s' = Some i" "v \<noteq> i" for s'
    using can_monitor_asym [OF I that(1)] that(2,3) by (auto simp: owner_can_read_def owner_reach_def list_ex_iff)
  with m show "\<exists>v. se_actor s = Some v \<and> (v = i \<or> can_monitor (es_org g) v i
      \<and> (\<forall>s'. se_actor s' = Some i \<longrightarrow> \<not> owner_can_read s' (es_org g) v))"
    by (cases "v = i") auto
next
  assume "\<exists>x. create_eval_draft s actor dataset expected g = Inr x
      \<or> (\<exists>y. replace_eval_cases sha s actor dataset version expected cases g = Inr y)
      \<or> (\<exists>y. publish_eval_version sha s actor dataset version expected epoch digest g = Inr y)
      \<or> (\<exists>y. retire_eval_dataset s actor dataset expected epoch g = Inr y)"
  then have "\<exists>d. writable_dataset s actor dataset g = Some d"
    by (auto elim: create_eval_draft_cases replace_eval_cases_cases publish_eval_version_cases retire_eval_dataset_cases)
  then obtain d where "writable_dataset s actor dataset g = Some d" ..
  from writable_datasetD [OF this] show "se_actor s = Some actor"
    "\<exists>d\<in>set (es_datasets g). ds_id d = dataset \<and> owner_can_write s (es_org g) (ds_owner d)" by auto
qed

lemma dataset_authority_follows_chart_witness:
  "\<exists>d\<in>set (es_datasets eval_filled). ds_id d = 6 \<and> owner_can_write bob (es_org eval_filled) (ds_owner d)"
proof -
  from sealed_row obtain x where "publish_eval_version demo_sha bob 3 6 7 2 2 tally_sha eval_filled = Inr (x, eval_sealed)" ..
  with dataset_authority_follows_chart [OF eval_filled_reached] show ?thesis by blast
qed

text \<open>C40: A dataset freezes the chart. From the moment a tenant has one evaluation dataset, whatever is done
  afterwards, every replacement of its chart is refused: the replacement deletes the memberships
  first, and the membership of the owner is held by the dataset, which nothing ever deletes.\<close>

theorem dataset_freezes_chart:
  assumes "reach eval_init (eval_step sha) g" "es_datasets g \<noteq> []" "(eval_step sha)\<^sup>*\<^sup>* g h"
  shows "\<exists>e. replace_org_topology (dataset_owners h) s version name positions members actor request (es_org h) = Inl e"
proof -
  from assms(2) obtain d where "d \<in> set (es_datasets g)" by (cases "es_datasets g") auto
  then have "eval_holds (Kept (ds_id d)) g" by simp
  from seals.fact_forever [OF assms(1) this assms(3)] have ne: "es_datasets h \<noteq> []" by auto
  have "eval_inv sha h" by (rule evaluations.steps_inv [OF assms(3) evaluations.reach_inv [OF assms(1)]])
  from owned_chart_stays [OF this ne] show ?thesis
    by (cases "replace_org_topology (dataset_owners h) s version name positions members actor request (es_org h)") fast+
qed

lemma dataset_freezes_chart_witness:
  "\<exists>e. replace_org_topology [3] desk 2 (u ''acme'') ordered_chart small_seats 1 (u ''request-2'') (es_org eval_filled) = Inl e"
  using dataset_freezes_chart [OF eval_filled_reached _ rtranclp.rtrancl_refl]
  by (simp add: filled_state dataset_owners_def new_dataset_def)

end
