(* ===== verification/Agent_Contract.thy ===== *)
theory Agent_Contract
  imports Prelude
begin

text \<open>
  The frozen contract of the agent loop (\<open>tools/agent_loop/contract.py\<close>): its closed
  vocabularies, the transition table, which role may return which status, the failure-code
  table, the schema-issue table, the control-plane paths and the limits. The vocabularies
  keep the source's names; a prefix tells apart names two classes share.
\<close>

section \<open>States and transitions\<close>

datatype agent_state = PREFLIGHT | IMPLEMENTING | ACCEPTANCE | AUDITING | REPAIRING | ACCEPTANCE_2
  | FINAL_AUDITING | APPROVED | BLOCKED | FAILED

definition TERMINAL_STATES :: "agent_state list" where
  "TERMINAL_STATES = [APPROVED, BLOCKED, FAILED]"

fun ALLOWED_TRANSITIONS :: "agent_state \<Rightarrow> agent_state list" where
  "ALLOWED_TRANSITIONS PREFLIGHT = [IMPLEMENTING, BLOCKED, FAILED]"
| "ALLOWED_TRANSITIONS IMPLEMENTING = [ACCEPTANCE, BLOCKED, FAILED]"
| "ALLOWED_TRANSITIONS ACCEPTANCE = [AUDITING, REPAIRING, BLOCKED, FAILED]"
| "ALLOWED_TRANSITIONS AUDITING = [APPROVED, REPAIRING, BLOCKED, FAILED]"
| "ALLOWED_TRANSITIONS REPAIRING = [ACCEPTANCE_2, BLOCKED, FAILED]"
| "ALLOWED_TRANSITIONS ACCEPTANCE_2 = [FINAL_AUDITING, BLOCKED, FAILED]"
| "ALLOWED_TRANSITIONS FINAL_AUDITING = [APPROVED, BLOCKED, FAILED]"
| "ALLOWED_TRANSITIONS APPROVED = []"
| "ALLOWED_TRANSITIONS BLOCKED = []"
| "ALLOWED_TRANSITIONS FAILED = []"

datatype role = IMPLEMENTER | EVALUATOR

datatype status = St_IMPLEMENTED | St_APPROVED | St_CHANGES_REQUESTED | St_BLOCKED | St_FAILED

fun ROLE_STATUSES :: "role \<Rightarrow> status list" where
  "ROLE_STATUSES IMPLEMENTER = [St_IMPLEMENTED, St_BLOCKED, St_FAILED]"
| "ROLE_STATUSES EVALUATOR = [St_APPROVED, St_CHANGES_REQUESTED, St_BLOCKED, St_FAILED]"

datatype stop_reason = COMPLETED | PREFLIGHT_FAILED | MODEL_PROCESS_FAILED | DIRTY_WORKTREE
  | STAGED_CHANGES | BASELINE_MISMATCH | PATH_NOT_ALLOWED | EVALUATOR_MODIFIED_WORKSPACE
  | SCHEMA_VIOLATION | REPEATED_MECHANISM_FAILURE | REPAIR_ROUNDS_EXHAUSTED | OUT_OF_SCOPE_FINDING
  | BUDGET_EXHAUSTED | WALL_CLOCK_EXCEEDED | TIMEOUT | USER_APPROVAL_REQUIRED
  | LEAK_SCAN_HARD_FINDING | ACCEPTANCE_FAILED | LOCK_HELD | INTERRUPTED | CONTROL_PLANE_MODIFIED

section \<open>Closed vocabularies of the journal\<close>

datatype event_code = Ev_PREFLIGHT_OK | Ev_PREFLIGHT_FAILED | Ev_STATE_TRANSITION
  | Ev_MODEL_CALL_STARTED | Ev_MODEL_CALL_FINISHED | Ev_OUTPUT_TRUNCATED | Ev_SCHEMA_VIOLATION
  | Ev_ACCEPTANCE_STARTED | Ev_ACCEPTANCE_FINISHED | Ev_BUDGET_CHECK | Ev_LOCK_ACQUIRED
  | Ev_LOCK_RELEASED | Ev_CONTROL_PLANE_MODIFIED | Ev_EVALUATOR_MODIFIED_WORKSPACE
  | Ev_GATE_REQUIRED | Ev_INTERRUPTED | Ev_RUN_FINISHED

datatype failure_code = IMPLEMENTER_PROCESS_FAILED | IMPLEMENTER_MAX_BUDGET_REACHED
  | IMPLEMENTER_MAX_TURNS_REACHED | IMPLEMENTER_STRUCTURED_OUTPUT_RETRIES_EXHAUSTED
  | IMPLEMENTER_PROVIDER_EXECUTION_FAILED | IMPLEMENTER_OUTPUT_LIMIT | IMPLEMENTER_TIMEOUT
  | IMPLEMENTER_SCHEMA_VIOLATION | IMPLEMENTER_PROMPT_NOT_DELIVERED
  | IMPLEMENTER_CONTAINMENT_FAILED | IMPLEMENTER_PROCESS_TREE_SURVIVED
  | CHANGE_DECLARATION_MISMATCH | CHANGE_EVIDENCE_UNAVAILABLE | CHANGE_UNSAFE
  | EVALUATOR_PROCESS_FAILED | EVALUATOR_STARTUP_REFUSED | EVALUATOR_AUTH_FAILED
  | EVALUATOR_REPOSITORY_REFUSED | EVALUATOR_INVALID_ARGV | EVALUATOR_SCHEMA_REFUSED
  | EVALUATOR_PROVIDER_FAILED | EVALUATOR_OUTPUT_LIMIT | EVALUATOR_TIMEOUT
  | EVALUATOR_SCHEMA_VIOLATION | EVALUATOR_TRANSPORT_FAILED | EVALUATOR_CONTAINMENT_FAILED
  | EVALUATOR_PROCESS_TREE_SURVIVED | EVALUATOR_WORKSPACE_NOT_BOUND | EVALUATOR_HOLDER_NOT_RELEASED

text \<open>The table keyed by module leaf and class name.\<close>

definition FAILURE_CODES :: "((string \<times> string) \<times> failure_code) list" where
  "FAILURE_CODES = [
     ((''execution'', ''ProcessFailed''), IMPLEMENTER_PROCESS_FAILED),
     ((''execution'', ''MaxBudgetReached''), IMPLEMENTER_MAX_BUDGET_REACHED),
     ((''execution'', ''MaxTurnsReached''), IMPLEMENTER_MAX_TURNS_REACHED),
     ((''execution'', ''StructuredOutputRetriesExhausted''), IMPLEMENTER_STRUCTURED_OUTPUT_RETRIES_EXHAUSTED),
     ((''execution'', ''ProviderExecutionFailed''), IMPLEMENTER_PROVIDER_EXECUTION_FAILED),
     ((''execution'', ''OutputLimitExceeded''), IMPLEMENTER_OUTPUT_LIMIT),
     ((''execution'', ''Timeout''), IMPLEMENTER_TIMEOUT),
     ((''execution'', ''SchemaViolation''), IMPLEMENTER_SCHEMA_VIOLATION),
     ((''execution'', ''PromptNotDelivered''), IMPLEMENTER_PROMPT_NOT_DELIVERED),
     ((''execution'', ''ContainmentFailed''), IMPLEMENTER_CONTAINMENT_FAILED),
     ((''execution'', ''ProcessTreeSurvived''), IMPLEMENTER_PROCESS_TREE_SURVIVED),
     ((''changes'', ''DeclarationMismatch''), CHANGE_DECLARATION_MISMATCH),
     ((''changes'', ''EvidenceUnavailable''), CHANGE_EVIDENCE_UNAVAILABLE),
     ((''changes'', ''UnsafeChange''), CHANGE_UNSAFE),
     ((''audit'', ''ProcessFailed''), EVALUATOR_PROCESS_FAILED),
     ((''audit'', ''StartupRefused''), EVALUATOR_STARTUP_REFUSED),
     ((''audit'', ''AuthFailed''), EVALUATOR_AUTH_FAILED),
     ((''audit'', ''RepositoryRefused''), EVALUATOR_REPOSITORY_REFUSED),
     ((''audit'', ''InvalidArgv''), EVALUATOR_INVALID_ARGV),
     ((''audit'', ''SchemaRefused''), EVALUATOR_SCHEMA_REFUSED),
     ((''audit'', ''ProviderFailed''), EVALUATOR_PROVIDER_FAILED),
     ((''audit'', ''OutputLimitExceeded''), EVALUATOR_OUTPUT_LIMIT),
     ((''audit'', ''Timeout''), EVALUATOR_TIMEOUT),
     ((''audit'', ''SchemaViolation''), EVALUATOR_SCHEMA_VIOLATION),
     ((''audit'', ''TransportFailed''), EVALUATOR_TRANSPORT_FAILED),
     ((''audit'', ''ContainmentFailed''), EVALUATOR_CONTAINMENT_FAILED),
     ((''audit'', ''ProcessTreeSurvived''), EVALUATOR_PROCESS_TREE_SURVIVED),
     ((''audit'', ''WorkspaceNotBound''), EVALUATOR_WORKSPACE_NOT_BOUND),
     ((''audit'', ''HolderNotReleased''), EVALUATOR_HOLDER_NOT_RELEASED)]"

datatype acceptance_failure_kind = REPAIRABLE_TESTS | NOT_REPAIRABLE

definition MAX_DIAGNOSTICS :: nat where
  "MAX_DIAGNOSTICS = 20"

datatype schema_issue = INVALID_UTF8 | INVALID_JSON | WRONG_ROOT_TYPE | INVALID_ENVELOPE | REQUIRED
  | ADDITIONAL_PROPERTIES | TYPE_ISSUE | ENUM | CONST_ISSUE | PATTERN | MIN_LENGTH | MAX_LENGTH | MINIMUM
  | MAXIMUM | MIN_ITEMS | MAX_ITEMS | CONDITIONAL | UNKNOWN_SCHEMA_VIOLATION

datatype schema_field = F_ROOT | F_ENVELOPE | F_PROTOCOL_VERSION | F_RUN_ID | F_ROLE | F_STATUS
  | F_SUMMARY | F_NEXT_ACTION | F_CHANGED_FILES | F_TESTS | F_FINDINGS | F_STOP_REASON
  | F_MULTIPLE | F_UNKNOWN

definition SCHEMA_ISSUE_FOR_VALIDATOR :: "(string \<times> schema_issue) list" where
  "SCHEMA_ISSUE_FOR_VALIDATOR = [
     (''required'', REQUIRED), (''additionalProperties'', ADDITIONAL_PROPERTIES), (''type'', TYPE_ISSUE),
     (''enum'', ENUM), (''const'', CONST_ISSUE), (''pattern'', PATTERN), (''minLength'', MIN_LENGTH),
     (''maxLength'', MAX_LENGTH), (''minimum'', MINIMUM), (''maximum'', MAXIMUM),
     (''minItems'', MIN_ITEMS), (''maxItems'', MAX_ITEMS), (''allOf'', CONDITIONAL),
     (''anyOf'', CONDITIONAL), (''oneOf'', CONDITIONAL), (''if'', CONDITIONAL), (''then'', CONDITIONAL),
     (''else'', CONDITIONAL), (''not'', CONDITIONAL)]"

datatype audit_kind = CODE_AUDIT | LOCKED_AUDIT

datatype locked_finding_class = WRONG_ROW | UNGROUNDED | ABSTAINED_WHEN_ANSWERABLE
  | ANSWERED_WHEN_UNANSWERABLE | FORMAT_VIOLATION | REGRESSION_VS_BASELINE

datatype summary_code = CRITERIA_MET | CRITERIA_UNMET | REGRESSION_DETECTED | NO_REGRESSION
  | INSUFFICIENT_SIGNAL

section \<open>Limits and gates\<close>

definition max_implementation_rounds_default :: nat where
  "max_implementation_rounds_default = 1"

definition max_repair_rounds_default :: nat where
  "max_repair_rounds_default = 1"

definition max_evaluator_rounds_default :: nat where
  "max_evaluator_rounds_default = 2"

definition model_call_timeout_default :: int where
  "model_call_timeout_default = 1800"

datatype human_gate = GIT_ADD | GIT_COMMIT | GIT_PUSH | BRANCH_DELETE | HISTORY_REWRITE
  | CONTRACT_CHANGE | GOLDEN_SET_CHANGE | LOCKED_HOLDOUT_CHANGE | GPU_OR_POD_RENTAL
  | PAID_SERVICE_START | DEPENDENCY_INSTALL | NETWORK_WRITE | PRODUCTION_DEPLOY | MIGRATION_APPLY
  | DATA_OR_INDEX_CHANGE | SCOPE_WIDENING | DESTRUCTIVE_OPERATION

section \<open>The control plane\<close>

definition CONTROL_PLANE_PATHS :: "string list" where
  "CONTROL_PLANE_PATHS = [''tools/agent_loop/'', ''tests/test_agent_loop_contract.py'',
     ''scripts/p0_gate.sh'', ''eval/tools/leak_scan.py'']"

definition rstrip_slash :: "string \<Rightarrow> string" where
  "rstrip_slash x = rev (dropWhile (\<lambda>c. c = CHR ''/'') (rev x))"

fun split_slash :: "string \<Rightarrow> string list" where
  "split_slash [] = [[]]"
| "split_slash (c # cs) = (if c = CHR ''/'' then [] # split_slash cs
     else (c # hd (split_slash cs)) # tl (split_slash cs))"

fun join_slash :: "string list \<Rightarrow> string" where
  "join_slash [] = []"
| "join_slash [x] = x"
| "join_slash (x # y # xs) = x @ ''/'' @ join_slash (y # xs)"

definition ancestors :: "string \<Rightarrow> string list" where
  "ancestors trimmed = (let parts = split_slash trimmed
     in map (\<lambda>depth. join_slash (take depth parts)) [1..<length parts])"

definition with_ancestors :: "string list \<Rightarrow> string list" where
  "with_ancestors paths = concat (map (\<lambda>p. let trimmed = rstrip_slash p
       in concat (map (\<lambda>a. [a, a @ ''/'']) (trimmed # ancestors trimmed))) paths)
     @ [''.'', ''./'', '''']"

definition CONTROL_PLANE_BLOCKED_PATHS :: "string list" where
  "CONTROL_PLANE_BLOCKED_PATHS = with_ancestors CONTROL_PLANE_PATHS"

lemma split_slash_not_Nil [simp]: "split_slash x \<noteq> []"
  by (induction x) auto

text \<open>Equations that evaluate each suffix once.\<close>

lemma split_slash_code [code]:
  "split_slash [] = [[]]"
  "split_slash (c # cs) = (if c = CHR ''/'' then [] # split_slash cs
     else (case split_slash cs of [] \<Rightarrow> [[c]] | x # xs \<Rightarrow> (c # x) # xs))"
  by (simp_all split: list.split) (metis list.sel(1) list.sel(3) split_slash_not_Nil)?

lemma join_split_slash [simp]: "join_slash (split_slash x) = x"
proof (induction x)
  case (Cons c cs)
  obtain y ys where y: "split_slash cs = y # ys" by (cases "split_slash cs") auto
  with Cons show ?case by (cases ys) auto
qed simp

lemma split_slash_append: "split_slash (x @ CHR ''/'' # y) = split_slash x @ split_slash y"
proof (induction x)
  case (Cons c cs)
  then show ?case by (cases "split_slash cs") auto
qed simp

section \<open>The transition table\<close>

definition transition :: "agent_state \<Rightarrow> agent_state \<Rightarrow> bool" where
  "transition s t = (t \<in> set (ALLOWED_TRANSITIONS s))"

lemma terminal_no_transition: "s \<in> set TERMINAL_STATES \<Longrightarrow> \<not> transition s t"
  by (auto simp: TERMINAL_STATES_def transition_def)

text \<open>The number of moves a state can still make.\<close>

fun moves_left :: "agent_state \<Rightarrow> nat" where
  "moves_left PREFLIGHT = 7"
| "moves_left IMPLEMENTING = 6"
| "moves_left ACCEPTANCE = 5"
| "moves_left AUDITING = 4"
| "moves_left REPAIRING = 3"
| "moves_left ACCEPTANCE_2 = 2"
| "moves_left FINAL_AUDITING = 1"
| "moves_left APPROVED = 0"
| "moves_left BLOCKED = 0"
| "moves_left FAILED = 0"

lemma transition_decreases: "transition s t \<Longrightarrow> moves_left t < moves_left s"
  by (cases s) (auto simp: transition_def)

fun walk :: "agent_state \<Rightarrow> agent_state list \<Rightarrow> bool" where
  "walk s [] = True"
| "walk s (t # ts) = (transition s t \<and> walk t ts)"

lemma walk_append [simp]: "walk s (xs @ ys) = (walk s xs \<and> walk (last (s # xs)) ys)"
  by (induction xs arbitrary: s) auto

lemma walk_length: "walk s ts \<Longrightarrow> length ts \<le> moves_left s"
  by (induction ts arbitrary: s) (auto dest!: transition_decreases, force)

lemma walk_repairing_once: "walk s ts \<Longrightarrow> moves_left s \<le> 3 \<Longrightarrow> REPAIRING \<notin> set ts"
proof (induction ts arbitrary: s)
  case (Cons t ts)
  then have "moves_left t < 3" using transition_decreases by fastforce
  then show ?case using Cons.IH [of t] Cons.prems by auto
qed simp

end
