(* ===== verification/Agent_State.thy ===== *)
theory Agent_State
  imports Agent_Contract Complex_Main
begin

text \<open>
  The persistent state of an agent run (\<open>tools/agent_loop/state.py\<close> and \<open>STATE_SCHEMA\<close> of
  \<open>tools/agent_loop/schemas.py\<close>): the state document with the relations its schema and
  \<open>_assert_state_invariants\<close> put on it, the binding that says whose run it is, the state
  directory as a store of files, and the checked operations over it: reading, writing, the
  directory gate, the one legal step \<open>advance\<close>, and the backup. A float is a finite rational
  or one of the three values that are not finite.
\<close>

section \<open>Documents\<close>

datatype amount = Finite rat | PosInf | NegInf | NaN

fun isfinite :: "amount \<Rightarrow> bool" where
  "isfinite (Finite q) = True"
| "isfinite a = False"

text \<open>Comparison of floats: every comparison with NaN is false.\<close>

fun amount_less :: "amount \<Rightarrow> amount \<Rightarrow> bool" where
  "amount_less (Finite p) (Finite q) = (p < q)"
| "amount_less NaN b = False"
| "amount_less a NaN = False"
| "amount_less NegInf b = (b \<noteq> NegInf)"
| "amount_less a NegInf = False"
| "amount_less PosInf b = False"
| "amount_less (Finite p) PosInf = True"

record round_counts =
  implementation :: int
  repair :: int
  evaluator :: int

record budget_doc =
  max_usd :: amount
  spent_usd :: amount

record state_doc =
  protocol_version :: string
  run_id :: string
  state :: agent_state
  started_at :: string
  updated_at :: string
  heartbeat_at :: "string option"
  baseline_sha :: "string option"
  requested_models :: "(role \<times> string) list option"
  rounds :: round_counts
  budget :: budget_doc
  mechanisms_seen :: "string list list option"
  stop_reason :: "stop_reason option"

record binding_doc =
  b_protocol_version :: string
  b_run_id :: string
  b_repo_id :: string
  b_baseline_sha :: string
  b_manifest_digest :: string
  b_workspace_id :: string

datatype state_error = CorruptState | IncompatibleState | IllegalTransition

datatype 'd stored = Missing | Unreadable | Holds 'd

record state_files =
  state_json :: "state_doc stored"
  binding_json :: "binding_doc stored"
  backup_json :: "state_doc stored"

section \<open>Schemas\<close>

definition PROTOCOL_VERSION :: string where
  "PROTOCOL_VERSION = ''1.0''"

definition lower_alnum :: "char \<Rightarrow> bool" where
  "lower_alnum c = (c \<in> set ''abcdefghijklmnopqrstuvwxyz0123456789'')"

definition lower_hex :: "char \<Rightarrow> bool" where
  "lower_hex c = (c \<in> set ''0123456789abcdef'')"

text \<open>
  A pattern that ends in \<open>$\<close> also matches before one final newline.
\<close>

definition dollar :: "(string \<Rightarrow> bool) \<Rightarrow> string \<Rightarrow> bool" where
  "dollar p x = (p x \<or> (x \<noteq> [] \<and> last x = CHR 0x0A \<and> p (butlast x)))"

definition slug :: "nat \<Rightarrow> nat \<Rightarrow> string \<Rightarrow> string \<Rightarrow> bool" where
  "slug lo hi extra x = (lo \<le> length x \<and> length x \<le> hi \<and> lower_alnum (hd x)
     \<and> list_all (\<lambda>c. lower_alnum c \<or> c \<in> set extra) (tl x))"

definition is_identifier :: "string \<Rightarrow> bool" where
  "is_identifier = dollar (slug 3 64 ''_-'')"

definition is_hex :: "nat \<Rightarrow> string \<Rightarrow> bool" where
  "is_hex n = dollar (\<lambda>x. length x = n \<and> list_all lower_hex x)"

definition counts_schema :: "round_counts \<Rightarrow> bool" where
  "counts_schema c = (0 \<le> implementation c \<and> implementation c \<le> int max_implementation_rounds_default
     \<and> 0 \<le> repair c \<and> repair c \<le> int max_repair_rounds_default
     \<and> 0 \<le> evaluator c \<and> evaluator c \<le> int max_evaluator_rounds_default)"

text \<open>The three conditionals that tie the state to its reason.\<close>

fun reason_schema :: "agent_state \<Rightarrow> stop_reason option \<Rightarrow> bool" where
  "reason_schema APPROVED r = (r = Some COMPLETED)"
| "reason_schema BLOCKED r = (r \<noteq> None)"
| "reason_schema FAILED r = (r \<noteq> None)"
| "reason_schema s r = (r = None)"

definition model_ok :: "string \<Rightarrow> bool" where
  "model_ok m = (length m \<le> 60 \<and> dollar (slug 2 60 ''._-'') m)"

definition models_schema :: "(role \<times> string) list option \<Rightarrow> bool" where
  "models_schema ms = (case ms of None \<Rightarrow> True
     | Some ps \<Rightarrow> ps \<noteq> [] \<and> list_all (\<lambda>(_, m). model_ok m) ps)"

definition STATE_SCHEMA :: "state_doc \<Rightarrow> bool" where
  "STATE_SCHEMA d = (protocol_version d = PROTOCOL_VERSION \<and> is_identifier (run_id d)
     \<and> length (started_at d) \<le> 40 \<and> length (updated_at d) \<le> 40
     \<and> (case heartbeat_at d of None \<Rightarrow> True | Some h \<Rightarrow> length h \<le> 40)
     \<and> (case baseline_sha d of None \<Rightarrow> True | Some b \<Rightarrow> is_hex 40 b)
     \<and> models_schema (requested_models d) \<and> counts_schema (rounds d)
     \<and> \<not> amount_less (max_usd (budget d)) (Finite 0)
     \<and> \<not> amount_less (spent_usd (budget d)) (Finite 0)
     \<and> (case mechanisms_seen d of None \<Rightarrow> True
        | Some gs \<Rightarrow> length gs \<le> 100
            \<and> list_all (\<lambda>g. length g \<le> 50 \<and> list_all is_identifier g) gs)
     \<and> reason_schema (state d) (stop_reason d))"

definition BINDING_SCHEMA :: "binding_doc \<Rightarrow> bool" where
  "BINDING_SCHEMA b = (b_protocol_version b = PROTOCOL_VERSION \<and> is_identifier (b_run_id b)
     \<and> is_hex 32 (b_repo_id b) \<and> is_hex 40 (b_baseline_sha b)
     \<and> is_hex 64 (b_manifest_digest b) \<and> is_hex 32 (b_workspace_id b))"

section \<open>Checked reading and writing\<close>

definition finite_doc :: "state_doc \<Rightarrow> bool" where
  "finite_doc d = (isfinite (max_usd (budget d)) \<and> isfinite (spent_usd (budget d)))"

definition assert_state_invariants :: "state_doc \<Rightarrow> state_error + unit" where
  "assert_state_invariants d =
     (if \<not> finite_doc d then Inl CorruptState
      else if amount_less (max_usd (budget d)) (spent_usd (budget d)) then Inl IncompatibleState
      else Inr ())"

definition validate_state :: "state_doc \<Rightarrow> state_error + state_doc" where
  "validate_state d = (if \<not> STATE_SCHEMA d then Inl CorruptState
     else if \<not> finite_doc d then Inl CorruptState else Inr d)"

definition validate_binding :: "binding_doc \<Rightarrow> state_error + binding_doc" where
  "validate_binding b = (if BINDING_SCHEMA b then Inr b else Inl CorruptState)"

fun read_json_checked :: "('d \<Rightarrow> state_error + 'd) \<Rightarrow> 'd stored \<Rightarrow> state_error + 'd" where
  "read_json_checked v Missing = Inl CorruptState"
| "read_json_checked v Unreadable = Inl CorruptState"
| "read_json_checked v (Holds d) = v d"

definition write_state :: "state_doc \<Rightarrow> state_files \<Rightarrow> state_error + state_files" where
  "write_state d fs = (case assert_state_invariants d of Inl e \<Rightarrow> Inl e
     | Inr _ \<Rightarrow> (case validate_state d of Inl e \<Rightarrow> Inl e
        | Inr d' \<Rightarrow> Inr (fs\<lparr>state_json := Holds d'\<rparr>)))"

definition read_state :: "state_files \<Rightarrow> state_error + state_doc" where
  "read_state fs = (case read_json_checked validate_state (state_json fs) of Inl e \<Rightarrow> Inl e
     | Inr d \<Rightarrow> (case assert_state_invariants d of Inl e \<Rightarrow> Inl e | Inr _ \<Rightarrow> Inr d))"

definition write_binding :: "binding_doc \<Rightarrow> state_files \<Rightarrow> state_error + state_files" where
  "write_binding b fs = (case validate_binding b of Inl e \<Rightarrow> Inl e
     | Inr b' \<Rightarrow> Inr (fs\<lparr>binding_json := Holds b'\<rparr>))"

definition read_binding :: "state_files \<Rightarrow> state_error + binding_doc" where
  "read_binding fs = read_json_checked validate_binding (binding_json fs)"

definition save_state_backup :: "state_doc \<Rightarrow> state_files \<Rightarrow> state_error + state_files" where
  "save_state_backup d fs = (case validate_state d of Inl e \<Rightarrow> Inl e
     | Inr d' \<Rightarrow> Inr (fs\<lparr>backup_json := Holds d'\<rparr>))"

definition restore_state_backup :: "state_files \<Rightarrow> state_error + state_doc \<times> state_files" where
  "restore_state_backup fs = (case read_json_checked validate_state (backup_json fs) of
       Inl e \<Rightarrow> Inl e
     | Inr d \<Rightarrow> (case write_state d fs of Inl e \<Rightarrow> Inl e | Inr fs' \<Rightarrow> Inr (d, fs')))"

section \<open>Whose run it is\<close>

definition assert_binding ::
  "string \<Rightarrow> string \<Rightarrow> string \<Rightarrow> string option \<Rightarrow> state_files \<Rightarrow> state_error + binding_doc" where
  "assert_binding repo_id baseline manifest_digest workspace_id fs = (case read_binding fs of
       Inl e \<Rightarrow> Inl e
     | Inr b \<Rightarrow>
        if b_repo_id b \<noteq> repo_id then Inl IncompatibleState
        else if b_baseline_sha b \<noteq> baseline then Inl IncompatibleState
        else if b_manifest_digest b \<noteq> manifest_digest then Inl IncompatibleState
        else if workspace_id \<noteq> None \<and> Some (b_workspace_id b) \<noteq> workspace_id
          then Inl IncompatibleState
        else Inr b)"

definition assert_state_directory ::
  "string \<Rightarrow> string \<Rightarrow> string \<Rightarrow> bool \<Rightarrow> state_files
     \<Rightarrow> state_error + (state_doc \<times> binding_doc) option" where
  "assert_state_directory repo_id baseline manifest_digest allow_resume fs =
     (let has_state = (state_json fs \<noteq> Missing); has_binding = (binding_json fs \<noteq> Missing)
      in if \<not> has_state \<and> \<not> has_binding then Inr None
      else if has_state \<noteq> has_binding then Inl CorruptState
      else (case assert_binding repo_id baseline manifest_digest None fs of Inl e \<Rightarrow> Inl e
        | Inr b \<Rightarrow> (case read_state fs of Inl e \<Rightarrow> Inl e
        | Inr current \<Rightarrow>
           if run_id current \<noteq> b_run_id b then Inl IncompatibleState
           else if state current \<notin> set TERMINAL_STATES \<and> \<not> allow_resume
             then Inl IncompatibleState
           else Inr (Some (current, b)))))"

section \<open>One legal step\<close>

definition assert_transition :: "agent_state \<Rightarrow> agent_state \<Rightarrow> state_error + agent_state" where
  "assert_transition current target =
     (if current \<in> set TERMINAL_STATES then Inl IllegalTransition
      else if target \<notin> set (ALLOWED_TRANSITIONS current) then Inl IllegalTransition
      else Inr target)"

text \<open>The keywords handed to \<open>advance\<close>; \<open>None\<close> is a keyword not given.\<close>

record changes =
  c_protocol_version :: "string option"
  c_run_id :: "string option"
  c_started_at :: "string option"
  c_updated_at :: "string option"
  c_heartbeat_at :: "string option"
  c_baseline_sha :: "string option"
  c_requested_models :: "(role \<times> string) list option"
  c_rounds :: "round_counts option"
  c_budget :: "budget_doc option"
  c_mechanisms_seen :: "string list list option"
  c_stop_reason :: "stop_reason option"

definition no_changes :: changes where
  "no_changes = \<lparr>c_protocol_version = None, c_run_id = None, c_started_at = None,
     c_updated_at = None, c_heartbeat_at = None, c_baseline_sha = None,
     c_requested_models = None, c_rounds = None, c_budget = None, c_mechanisms_seen = None,
     c_stop_reason = None\<rparr>"

text \<open>\<open>IMMUTABLE_STATE_FIELDS\<close>: a given keyword must repeat the recorded value.\<close>

definition keeps_identity :: "changes \<Rightarrow> state_doc \<Rightarrow> bool" where
  "keeps_identity c d = (
     (c_protocol_version c = None \<or> c_protocol_version c = Some (protocol_version d))
   \<and> (c_run_id c = None \<or> c_run_id c = Some (run_id d))
   \<and> (c_started_at c = None \<or> c_started_at c = Some (started_at d))
   \<and> (c_baseline_sha c = None \<or> c_baseline_sha c = baseline_sha d)
   \<and> (c_requested_models c = None \<or> c_requested_models c = requested_models d))"

fun pick :: "'a option \<Rightarrow> 'a \<Rightarrow> 'a" where
  "pick (Some x) y = x"
| "pick None y = y"

fun pick_opt :: "'a option \<Rightarrow> 'a option \<Rightarrow> 'a option" where
  "pick_opt (Some x) y = Some x"
| "pick_opt None y = y"

definition merged :: "changes \<Rightarrow> agent_state \<Rightarrow> state_doc \<Rightarrow> state_doc" where
  "merged c target d = \<lparr>
     protocol_version = pick (c_protocol_version c) (protocol_version d),
     run_id = pick (c_run_id c) (run_id d),
     state = target,
     started_at = pick (c_started_at c) (started_at d),
     updated_at = pick (c_updated_at c) (updated_at d),
     heartbeat_at = pick_opt (c_heartbeat_at c) (heartbeat_at d),
     baseline_sha = pick_opt (c_baseline_sha c) (baseline_sha d),
     requested_models = pick_opt (c_requested_models c) (requested_models d),
     rounds = pick (c_rounds c) (rounds d),
     budget = pick (c_budget c) (budget d),
     mechanisms_seen = pick_opt (c_mechanisms_seen c) (mechanisms_seen d),
     stop_reason = pick_opt (c_stop_reason c) (stop_reason d)\<rparr>"

definition advance ::
  "agent_state \<Rightarrow> changes \<Rightarrow> state_files \<Rightarrow> state_error + state_doc \<times> state_files" where
  "advance target c fs = (case read_state fs of Inl e \<Rightarrow> Inl e
     | Inr current \<Rightarrow> (case assert_transition (state current) target of Inl e \<Rightarrow> Inl e
     | Inr _ \<Rightarrow>
        if \<not> keeps_identity c current then Inl IncompatibleState
        else (let merged_doc = merged c target current;
                  updated = (if target \<in> set TERMINAL_STATES then merged_doc
                             else merged_doc\<lparr>stop_reason := None\<rparr>)
              in (case write_state updated fs of Inl e \<Rightarrow> Inl e
                  | Inr fs' \<Rightarrow> Inr (updated, fs')))))"

section \<open>What the documents promise\<close>

text \<open>A document the checks let through.\<close>

definition sound_doc :: "state_doc \<Rightarrow> bool" where
  "sound_doc d = (STATE_SCHEMA d \<and> finite_doc d
     \<and> \<not> amount_less (max_usd (budget d)) (spent_usd (budget d)))"

lemma write_state_iff:
  "write_state d fs = Inr fs' \<longleftrightarrow> sound_doc d \<and> fs' = fs\<lparr>state_json := Holds d\<rparr>"
  by (auto simp: write_state_def assert_state_invariants_def validate_state_def sound_doc_def)

lemma read_state_iff:
  "read_state fs = Inr d \<longleftrightarrow> state_json fs = Holds d \<and> sound_doc d"
  by (cases "state_json fs")
    (auto simp: read_state_def assert_state_invariants_def validate_state_def sound_doc_def)

lemma write_state_error: "\<not> sound_doc d \<Longrightarrow> \<exists>e. write_state d fs = Inl e"
  by (cases "write_state d fs") (auto simp: write_state_iff)

lemma save_state_backup_iff:
  "save_state_backup d fs = Inr fs' \<longleftrightarrow>
     STATE_SCHEMA d \<and> finite_doc d \<and> fs' = fs\<lparr>backup_json := Holds d\<rparr>"
  by (auto simp: save_state_backup_def validate_state_def)

lemma read_binding_iff:
  "read_binding fs = Inr b \<longleftrightarrow> binding_json fs = Holds b \<and> BINDING_SCHEMA b"
  by (cases "binding_json fs") (auto simp: read_binding_def validate_binding_def)

lemma write_binding_iff:
  "write_binding b fs = Inr fs' \<longleftrightarrow> BINDING_SCHEMA b \<and> fs' = fs\<lparr>binding_json := Holds b\<rparr>"
  by (auto simp: write_binding_def validate_binding_def)

lemma assert_transition_iff:
  "assert_transition s t = Inr x \<longleftrightarrow> transition s t \<and> x = t"
  by (cases s) (auto simp: assert_transition_def transition_def TERMINAL_STATES_def)

lemma assert_transition_cases:
  "assert_transition s t = (if transition s t then Inr t else Inl IllegalTransition)"
  by (cases s) (auto simp: assert_transition_def transition_def TERMINAL_STATES_def)

lemma advance_InrD:
  assumes "advance target c fs = Inr (d, fs')"
  shows "\<exists>cur. state_json fs = Holds cur \<and> sound_doc cur \<and> transition (state cur) target
      \<and> keeps_identity c cur
      \<and> d = (if target \<in> set TERMINAL_STATES then merged c target cur
             else merged c target cur\<lparr>stop_reason := None\<rparr>)
      \<and> sound_doc d \<and> fs' = fs\<lparr>state_json := Holds d\<rparr>"
proof -
  from assms obtain cur where cur: "read_state fs = Inr cur"
    by (auto simp: advance_def split: sum.splits)
  with assms show ?thesis
    by (auto simp: advance_def assert_transition_cases write_state_iff read_state_iff Let_def
        split: if_splits sum.splits)
qed

lemma pick_opt_same [simp]: "pick_opt x x = x"
  by (cases x) auto

lemma keeps_identity_merged:
  assumes "keeps_identity c d"
  shows "protocol_version (merged c t d) = protocol_version d" "run_id (merged c t d) = run_id d"
    "started_at (merged c t d) = started_at d" "baseline_sha (merged c t d) = baseline_sha d"
    "requested_models (merged c t d) = requested_models d"
  using assms by (auto simp: keeps_identity_def merged_def)

lemma state_merged [simp]: "state (merged c t d) = t"
  by (simp add: merged_def)

text \<open>The budget relation of a finite document, as an inequality of its figures.\<close>

lemma sound_doc_budget:
  assumes "sound_doc d"
  obtains m q where "max_usd (budget d) = Finite m" "spent_usd (budget d) = Finite q"
    "0 \<le> q" "q \<le> m"
  using assms
  by (cases "max_usd (budget d)"; cases "spent_usd (budget d)")
    (auto simp: sound_doc_def finite_doc_def STATE_SCHEMA_def not_less)

lemma sound_doc_reason:
  "sound_doc d \<Longrightarrow> state d \<in> set TERMINAL_STATES \<longleftrightarrow> stop_reason d \<noteq> None"
  by (cases "state d") (auto simp: sound_doc_def STATE_SCHEMA_def TERMINAL_STATES_def)

lemma sound_doc_approved: "sound_doc d \<Longrightarrow> state d = APPROVED \<Longrightarrow> stop_reason d = Some COMPLETED"
  by (auto simp: sound_doc_def STATE_SCHEMA_def)

end
