(* ===== verification/Agent_Task.thy ===== *)
theory Agent_Task
  imports Agent_State
begin

text \<open>
  The task manifest (\<open>TASK_SCHEMA\<close> of \<open>tools/agent_loop/schemas.py\<close>): the grammar of a path,
  the refusal of permissions over the control plane, the ranges of every limit, and the
  closed command registry with the resolution of a command id
  (\<open>tools/agent_loop/cli.py\<close>). A manifest that does not have this shape at all (a missing
  field, a wrong JSON type) is an unreadable one in the theories that read it.
\<close>

datatype command_id = pytest_full | pytest_selected | p0_gate | leak_scan

record task_doc =
  t_protocol_version :: string
  objective :: string
  t_baseline_sha :: string
  allowed_paths :: "string list"
  forbidden_paths :: "string list"
  acceptance_commands :: "(command_id \<times> string list) list"
  acceptance_criteria :: "string list"
  max_implementation_rounds :: int
  max_repair_rounds :: int
  max_wall_clock_minutes :: int
  max_budget_usd :: amount
  max_output_bytes :: int
  model_call_timeout_seconds :: "int option"
  leak_command_id :: command_id
  leak_max_hard_findings :: int
  dirty_tree_allowlist :: "string list"
  implementer_model :: "string option"
  evaluator_model :: "string option"

section \<open>Paths a manifest may name\<close>

definition control_char :: "char \<Rightarrow> bool" where
  "control_char c = (of_char c < (0x20 :: nat))"

definition ascii_letter :: "char \<Rightarrow> bool" where
  "ascii_letter c = (c \<in> set ''abcdefghijklmnopqrstuvwxyzABCDEFGHIJKLMNOPQRSTUVWXYZ'')"

definition drop_final_newline :: "string \<Rightarrow> string" where
  "drop_final_newline x = (if x \<noteq> [] \<and> last x = CHR 0x0A then butlast x else x)"

text \<open>
  \<open>_RELATIVE_PATH\<close>: no root, no drive, no \<open>..\<close> segment (also before a final newline, where
  \<open>$\<close> matches), no control character, no backslash.
\<close>

definition relative_path :: "string \<Rightarrow> bool" where
  "relative_path x = (1 \<le> length x \<and> length x \<le> 400
     \<and> hd x \<noteq> CHR ''/'' \<and> hd x \<noteq> CHR 0x5C
     \<and> \<not> (2 \<le> length x \<and> ascii_letter (hd x) \<and> x ! 1 = CHR '':'')
     \<and> ''..'' \<notin> set (split_slash (drop_final_newline x))
     \<and> dollar (\<lambda>y. y \<noteq> [] \<and> list_all (\<lambda>c. \<not> control_char c \<and> c \<noteq> CHR 0x5C) y) x)"

definition exact_control_paths :: "string list" where
  "exact_control_paths = map rstrip_slash CONTROL_PLANE_PATHS"

definition control_ancestors :: "string list" where
  "control_ancestors = filter (\<lambda>e. e \<noteq> '''' \<and> e \<notin> set exact_control_paths)
     (map rstrip_slash CONTROL_PLANE_BLOCKED_PATHS)"

text \<open>\<open>CONTROL_PLANE_GLOBS\<close> has one member; its only wildcard is one star.\<close>

definition test_family :: "string \<Rightarrow> bool" where
  "test_family x = (prefix ''tests/test_agent_loop'' x \<and> suffix ''.py'' x
     \<and> length ''tests/test_agent_loop'' + length ''.py'' \<le> length x)"

definition CONTROL_PLANE_RE :: "string \<Rightarrow> bool" where
  "CONTROL_PLANE_RE x =
     (list_ex (\<lambda>p. prefix p x \<or> dollar ((=) (rstrip_slash p)) x) CONTROL_PLANE_PATHS
      \<or> list_ex (\<lambda>a. dollar ((=) a) x \<or> dollar ((=) (a @ ''/'')) x) control_ancestors
      \<or> dollar test_family x)"

section \<open>The manifest's schema\<close>

definition text_between :: "nat \<Rightarrow> nat \<Rightarrow> string \<Rightarrow> bool" where
  "text_between lo hi x = (lo \<le> length x \<and> length x \<le> hi)"

definition items_between :: "nat \<Rightarrow> nat \<Rightarrow> ('a \<Rightarrow> bool) \<Rightarrow> 'a list \<Rightarrow> bool" where
  "items_between lo hi p xs = (lo \<le> length xs \<and> length xs \<le> hi \<and> list_all p xs)"

definition int_between :: "int \<Rightarrow> int \<Rightarrow> int \<Rightarrow> bool" where
  "int_between lo hi i = (lo \<le> i \<and> i \<le> hi)"

definition optional :: "('a \<Rightarrow> bool) \<Rightarrow> 'a option \<Rightarrow> bool" where
  "optional p x = (case x of None \<Rightarrow> True | Some y \<Rightarrow> p y)"

definition TASK_SCHEMA :: "task_doc \<Rightarrow> bool" where
  "TASK_SCHEMA t = (t_protocol_version t = PROTOCOL_VERSION
     \<and> text_between 1 2000 (objective t) \<and> is_hex 40 (t_baseline_sha t)
     \<and> items_between 1 100 (\<lambda>p. relative_path p \<and> \<not> CONTROL_PLANE_RE p) (allowed_paths t)
     \<and> items_between 0 100 relative_path (forbidden_paths t)
     \<and> items_between 1 20 (\<lambda>(_, ps). items_between 0 20 relative_path ps) (acceptance_commands t)
     \<and> items_between 1 50 (text_between 0 500) (acceptance_criteria t)
     \<and> int_between 1 1 (max_implementation_rounds t) \<and> int_between 0 1 (max_repair_rounds t)
     \<and> int_between 1 480 (max_wall_clock_minutes t)
     \<and> \<not> amount_less (max_budget_usd t) (Finite 0) \<and> \<not> amount_less (Finite 100) (max_budget_usd t)
     \<and> int_between 1024 4194304 (max_output_bytes t)
     \<and> optional (int_between 30 7200) (model_call_timeout_seconds t)
     \<and> leak_max_hard_findings t = 0
     \<and> items_between 0 50 relative_path (dirty_tree_allowlist t)
     \<and> optional model_ok (implementer_model t) \<and> optional model_ok (evaluator_model t))"

section \<open>The command registry\<close>

fun registry_argv :: "command_id \<Rightarrow> string list" where
  "registry_argv pytest_full = [''python'', ''-m'', ''pytest'', ''-q'']"
| "registry_argv pytest_selected = [''python'', ''-m'', ''pytest'', ''-o'', ''addopts='', ''-q'']"
| "registry_argv p0_gate = [''bash'', ''scripts/p0_gate.sh'']"
| "registry_argv leak_scan = [''python'', ''-m'', ''eval.tools.leak_scan'']"

definition accepts_paths :: "command_id \<Rightarrow> bool" where
  "accepts_paths c = (c = pytest_selected)"

definition unsafe_argument :: "string \<Rightarrow> bool" where
  "unsafe_argument p = (prefix ''-'' p \<or> CHR 0x5C \<in> set p \<or> prefix ''/'' p
     \<or> ''..'' \<in> set (split_slash p))"

text \<open>\<open>None\<close> is \<open>UnsafeInvocation\<close>.\<close>

definition resolve_registry_command :: "command_id \<Rightarrow> string list \<Rightarrow> string list option" where
  "resolve_registry_command c ps =
     (if ps = [] then Some (registry_argv c)
      else if \<not> accepts_paths c then None
      else if list_ex unsafe_argument ps then None
      else Some (registry_argv c @ ps))"

lemma resolve_registry_command_SomeD:
  assumes "resolve_registry_command c ps = Some argv"
  shows "argv = registry_argv c @ ps" "ps \<noteq> [] \<longrightarrow> c = pytest_selected"
    "\<forall>p\<in>set ps. \<not> unsafe_argument p"
  using assms by (auto simp: resolve_registry_command_def accepts_paths_def list_ex_iff
      split: if_splits)

lemma TASK_SCHEMA_paths:
  "TASK_SCHEMA t \<Longrightarrow> p \<in> set (allowed_paths t) \<Longrightarrow> relative_path p \<and> \<not> CONTROL_PLANE_RE p"
  by (auto simp: TASK_SCHEMA_def items_between_def list_all_iff)

end
