(* ===== verification/Change_Scope.thy ===== *)
theory Change_Scope
  imports Agent_Task "HOL-Library.List_Lexorder" "HOL-Library.Char_ord"
begin

text \<open>
  The change set of a model call (\<open>tools/agent_loop/changes.py\<close>): one spelling for paths,
  the authorisation order, the comparison of two trees, and the two verified calls
  (\<open>run_verified_implementation\<close>, \<open>run_verified_repair\<close>) with the declaration each reply is
  held to. A string is its UTF-8 bytes, so the order of paths is that of the code points.
  \<open>cf\<close> is the case rule of the platform (the identity on POSIX, \<open>casefold\<close> on Windows) and
  \<open>sha\<close> the SHA-256 of the standard library.
\<close>

section \<open>Paths\<close>

definition unify_separators :: "string \<Rightarrow> string" where
  "unify_separators x = map (\<lambda>c. if c = CHR 0x5C then CHR ''/'' else c) x"

definition fold_path :: "(string \<Rightarrow> string) \<Rightarrow> string \<Rightarrow> string" where
  "fold_path cf x = cf (join_slash (filter (\<lambda>p. p \<noteq> '''' \<and> p \<noteq> ''.'')
     (split_slash (unify_separators x))))"

text \<open>Whole-segment matching: the entry itself or something under it.\<close>

definition at_or_under :: "string \<Rightarrow> string \<Rightarrow> bool" where
  "at_or_under folded trimmed = (folded = trimmed \<or> prefix (trimmed @ ''/'') folded)"

definition covered :: "(string \<Rightarrow> string) \<Rightarrow> string \<Rightarrow> string list \<Rightarrow> bool" where
  "covered cf path entries = list_ex (\<lambda>e. let trimmed = fold_path cf e
     in trimmed \<noteq> '''' \<and> at_or_under (fold_path cf path) trimmed) entries"

text \<open>\<open>fnmatchcase\<close> for the patterns the contract uses: \<open>*\<close>, \<open>?\<close> and literal characters.\<close>

fun fnmatchcase :: "string \<Rightarrow> string \<Rightarrow> bool" where
  "fnmatchcase [] [] = True"
| "fnmatchcase (c # cs) [] = False"
| "fnmatchcase [] (p # ps) = (p = CHR ''*'' \<and> fnmatchcase [] ps)"
| "fnmatchcase (c # cs) (p # ps) =
     (if p = CHR ''*'' then fnmatchcase (c # cs) ps \<or> fnmatchcase cs (p # ps)
      else (p = CHR ''?'' \<or> p = c) \<and> fnmatchcase cs ps)"

lemma fnmatchcase_code [code]:
  "fnmatchcase [] [] = True"
  "fnmatchcase (c # cs) [] = False"
  "fnmatchcase [] (p # ps) = (if p = CHR ''*'' then fnmatchcase [] ps else False)"
  "fnmatchcase (c # cs) (p # ps) = (if p = CHR ''*''
     then (if fnmatchcase (c # cs) ps then True else fnmatchcase cs (p # ps))
     else if p = CHR ''?'' then fnmatchcase cs ps else if p = c then fnmatchcase cs ps else False)"
  by simp_all

definition CONTROL_PLANE_GLOBS :: "string list" where
  "CONTROL_PLANE_GLOBS = [''tests/test_agent_loop*.py'']"

definition is_control_plane :: "(string \<Rightarrow> string) \<Rightarrow> string \<Rightarrow> bool" where
  "is_control_plane cf path =
     (list_ex (\<lambda>pre. at_or_under (fold_path cf path) (fold_path cf pre)) CONTROL_PLANE_PATHS
      \<or> list_ex (\<lambda>pat. fnmatchcase (fold_path cf path) (fold_path cf pat)) CONTROL_PLANE_GLOBS)"

section \<open>Refusals\<close>

datatype change_error = EvidenceUnavailable | UnsafeChange stop_reason | DeclarationMismatch

fun change_reason :: "change_error \<Rightarrow> stop_reason" where
  "change_reason EvidenceUnavailable = PREFLIGHT_FAILED"
| "change_reason (UnsafeChange r) = r"
| "change_reason DeclarationMismatch = SCHEMA_VIOLATION"

definition authorize ::
  "(string \<Rightarrow> string) \<Rightarrow> string list \<Rightarrow> string list \<Rightarrow> string option \<Rightarrow> string
     \<Rightarrow> change_error + unit" where
  "authorize cf allowed forbidden task_relative path =
     (if is_control_plane cf path then Inl (UnsafeChange CONTROL_PLANE_MODIFIED)
      else if task_relative \<noteq> None \<and> Some (fold_path cf path) = map_option (fold_path cf) task_relative
        then Inl (UnsafeChange PATH_NOT_ALLOWED)
      else if covered cf path forbidden \<or> \<not> covered cf path allowed
        then Inl (UnsafeChange PATH_NOT_ALLOWED)
      else Inr ())"

fun authorize_all ::
  "(string \<Rightarrow> string) \<Rightarrow> string list \<Rightarrow> string list \<Rightarrow> string option \<Rightarrow> string list
     \<Rightarrow> change_error + unit" where
  "authorize_all cf allowed forbidden task_relative [] = Inr ()"
| "authorize_all cf allowed forbidden task_relative (p # ps) =
     (case authorize cf allowed forbidden task_relative p of Inl e \<Rightarrow> Inl e
      | Inr _ \<Rightarrow> authorize_all cf allowed forbidden task_relative ps)"

lemma authorize_all_iff:
  "authorize_all cf al fb tr ps = Inr () \<longleftrightarrow> (\<forall>p\<in>set ps. authorize cf al fb tr p = Inr ())"
  by (induction ps) (auto split: sum.splits)

lemma authorize_ok_iff:
  "authorize cf al fb tr p = Inr () \<longleftrightarrow> \<not> is_control_plane cf p
     \<and> (\<forall>t. tr = Some t \<longrightarrow> fold_path cf p \<noteq> fold_path cf t)
     \<and> \<not> covered cf p fb \<and> covered cf p al"
  by (auto simp: authorize_def)

section \<open>Two trees, projected and compared\<close>

datatype entry_kind = EFile | EDir | ELink

record entry =
  e_path :: string
  e_kind :: entry_kind
  e_mode :: string
  e_size :: int
  e_nlink :: int
  e_attributes :: int
  e_reparse_tag :: int
  e_link_target_mac :: string
  e_sha256 :: string

text \<open>What an entry is compared by: \<open>_FILE_FIELDS\<close> or \<open>_DIR_FIELDS\<close>.\<close>

datatype compare_key = FileFields string int string int int int string
  | DirFields string int int string

record snap =
  s_kind :: entry_kind
  s_mode :: string
  s_sha256 :: string
  s_compare :: compare_key

definition snap_of :: "entry \<Rightarrow> snap" where
  "snap_of e = \<lparr>s_kind = e_kind e, s_mode = e_mode e, s_sha256 = e_sha256 e,
     s_compare = (if e_kind e = EFile
       then FileFields (e_mode e) (e_size e) (e_sha256 e) (e_attributes e) (e_reparse_tag e)
              (e_nlink e) (e_link_target_mac e)
       else DirFields (e_mode e) (e_attributes e) (e_reparse_tag e) (e_link_target_mac e))\<rparr>"

type_synonym tree = "(string \<times> snap) list"

fun project_from :: "tree \<Rightarrow> entry list \<Rightarrow> change_error + tree" where
  "project_from acc [] = Inr (rev acc)"
| "project_from acc (e # es) =
     (if e_kind e = ELink \<or> e_reparse_tag e \<noteq> 0 \<or> e_link_target_mac e \<noteq> ''''
        then Inl (UnsafeChange PATH_NOT_ALLOWED)
      else if e_path e \<in> fst ` set acc then Inl EvidenceUnavailable
      else project_from ((e_path e, snap_of e) # acc) es)"

definition project :: "entry list \<Rightarrow> change_error + tree" where
  "project es = project_from [] es"

text \<open>Equality of the two dictionaries.\<close>

definition same_tree :: "tree \<Rightarrow> tree \<Rightarrow> bool" where
  "same_tree s t = (set s = set t)"

datatype change_kind = ADDED | MODIFIED | DELETED

record change =
  path :: string
  kind :: change_kind
  mode :: string
  sha256 :: string

datatype path_verdict = Unmoved | Changed change | Structural string | Unsupported

definition compare_path :: "tree \<Rightarrow> tree \<Rightarrow> string \<Rightarrow> path_verdict" where
  "compare_path t0 t1 p = (case (map_of t0 p, map_of t1 p) of
       (None, None) \<Rightarrow> Unmoved
     | (None, Some r) \<Rightarrow> if s_kind r = EFile
         then Changed \<lparr>path = p, kind = ADDED, mode = s_mode r, sha256 = s_sha256 r\<rparr>
         else Structural p
     | (Some l, None) \<Rightarrow> if s_kind l = EFile
         then Changed \<lparr>path = p, kind = DELETED, mode = s_mode l, sha256 = ''''\<rparr>
         else Structural p
     | (Some l, Some r) \<Rightarrow>
         if s_compare l = s_compare r then Unmoved
         else if s_kind l \<noteq> s_kind r then Unsupported
         else if s_kind r \<noteq> EFile then Unsupported
         else Changed \<lparr>path = p, kind = MODIFIED, mode = s_mode r, sha256 = s_sha256 r\<rparr>)"

fun collect :: "path_verdict list \<Rightarrow> (change list \<times> string list) option" where
  "collect [] = Some ([], [])"
| "collect (Unmoved # vs) = collect vs"
| "collect (Changed c # vs) = map_option (\<lambda>(cs, ss). (c # cs, ss)) (collect vs)"
| "collect (Structural p # vs) = map_option (\<lambda>(cs, ss). (cs, p # ss)) (collect vs)"
| "collect (Unsupported # vs) = None"

definition structural_ok :: "string list \<Rightarrow> change list \<Rightarrow> bool" where
  "structural_ok ds cs = list_all (\<lambda>d. list_ex (\<lambda>c. prefix (d @ ''/'') (path c)) cs) ds"

definition semantic_changes :: "tree \<Rightarrow> tree \<Rightarrow> change_error + change list" where
  "semantic_changes t0 t1 =
     (case collect (map (compare_path t0 t1)
              (sort (remdups (map fst t0 @ map fst t1)))) of
        None \<Rightarrow> Inl (UnsafeChange PATH_NOT_ALLOWED)
      | Some (cs, ds) \<Rightarrow>
          if structural_ok ds cs then Inr (sort_key path cs)
          else Inl (UnsafeChange PATH_NOT_ALLOWED))"

section \<open>The digest of a change set\<close>

fun kind_text :: "change_kind \<Rightarrow> string" where
  "kind_text ADDED = ''added''"
| "kind_text MODIFIED = ''modified''"
| "kind_text DELETED = ''deleted''"

definition NUL :: char where
  "NUL = CHR 0x00"

definition change_line :: "change \<Rightarrow> string" where
  "change_line c = path c @ NUL # kind_text (kind c) @ NUL # mode c @ NUL # sha256 c @ [CHR 0x0A]"

definition fingerprint_of :: "(string \<Rightarrow> string) \<Rightarrow> change list \<Rightarrow> string" where
  "fingerprint_of sha cs = sha (concat (map change_line cs))"

section \<open>Refusals as the runner sees them\<close>

record failure =
  f_module :: string
  f_class :: string
  f_reason :: "stop_reason option"
  f_event :: "event_code option"
  f_cleanup_complete :: "bool option"
  f_role :: "role option"
  f_exit_code :: "int option"
  f_duration_ms :: "int option"
  f_stdout_bytes :: "int option"
  f_stderr_bytes :: "int option"
  f_schema_issue :: "schema_issue option"
  f_schema_field :: "schema_field option"

definition plain_failure :: "string \<Rightarrow> string \<Rightarrow> stop_reason option \<Rightarrow> failure" where
  "plain_failure m c r = \<lparr>f_module = m, f_class = c, f_reason = r, f_event = None,
     f_cleanup_complete = None, f_role = None, f_exit_code = None, f_duration_ms = None,
     f_stdout_bytes = None, f_stderr_bytes = None, f_schema_issue = None, f_schema_field = None\<rparr>"

fun change_class :: "change_error \<Rightarrow> string" where
  "change_class EvidenceUnavailable = ''EvidenceUnavailable''"
| "change_class (UnsafeChange r) = ''UnsafeChange''"
| "change_class DeclarationMismatch = ''DeclarationMismatch''"

definition change_failure :: "change_error \<Rightarrow> failure" where
  "change_failure e = plain_failure ''changes'' (change_class e) (Some (change_reason e))"

section \<open>The evidence of one moment\<close>

record task_file =
  tf_regular :: bool
  tf_readable :: bool
  tf_digest :: string
  tf_relative :: "string option"
  tf_task :: task_doc

datatype scan_result = ScanRefused stop_reason | ScanFault | Scanned string "entry list" string

text \<open>
  What the disk shows at one moment: the manifest, the state directory, the workspace
  binding of \<open>flat_workspace\<close>, the two flat trees and the operator's checkout.
\<close>

record moment =
  m_task :: "task_file option"
  m_files :: state_files
  m_workspace :: "stop_reason + unit"
  m_reference :: scan_result
  m_implementer :: scan_result
  m_main :: scan_result

text \<open>The identities every seam takes.\<close>

record identity =
  i_repo_id :: string
  i_manifest_digest :: string
  i_run_id :: string
  i_workspace_id :: string
  i_baseline_sha :: string

definition exact_identity :: "identity \<Rightarrow> bool" where
  "exact_identity i = (is_hex 64 (i_manifest_digest i) \<and> is_identifier (i_run_id i)
     \<and> is_hex 32 (i_workspace_id i) \<and> is_hex 40 (i_baseline_sha i))"

definition scan :: "scan_result \<Rightarrow> change_error + string \<times> entry list \<times> string" where
  "scan r = (case r of
       ScanRefused reason \<Rightarrow> if reason = PATH_NOT_ALLOWED then Inl (UnsafeChange PATH_NOT_ALLOWED)
         else Inl EvidenceUnavailable
     | ScanFault \<Rightarrow> Inl EvidenceUnavailable
     | Scanned rid es d \<Rightarrow> Inr (rid, es, d))"

definition bind_task :: "identity \<Rightarrow> moment \<Rightarrow> change_error + task_file" where
  "bind_task i m = (case m_task m of None \<Rightarrow> Inl EvidenceUnavailable
     | Some f \<Rightarrow>
        if \<not> tf_regular f then Inl EvidenceUnavailable
        else if \<not> tf_readable f then Inl EvidenceUnavailable
        else if tf_digest f \<noteq> i_manifest_digest i then Inl EvidenceUnavailable
        else if \<not> TASK_SCHEMA (tf_task f) then Inl EvidenceUnavailable
        else if tf_relative f = None then Inl EvidenceUnavailable
        else if t_baseline_sha (tf_task f) \<noteq> i_baseline_sha i
          then Inl (UnsafeChange BASELINE_MISMATCH)
        else Inr f)"

definition assert_state_binding :: "identity \<Rightarrow> moment \<Rightarrow> change_error + unit" where
  "assert_state_binding i m =
     (case assert_binding (i_repo_id i) (i_baseline_sha i) (i_manifest_digest i)
             (Some (i_workspace_id i)) (m_files m) of
        Inl e \<Rightarrow> Inl EvidenceUnavailable
      | Inr b \<Rightarrow> if b_run_id b \<noteq> i_run_id i then Inl EvidenceUnavailable else Inr ())"

definition bind_workspace :: "moment \<Rightarrow> change_error + unit" where
  "bind_workspace m = (case m_workspace m of Inl r \<Rightarrow> Inl (UnsafeChange r) | Inr x \<Rightarrow> Inr ())"

definition read_pair :: "moment \<Rightarrow> change_error + tree \<times> tree" where
  "read_pair m = (case scan (m_reference m) of Inl e \<Rightarrow> Inl e | Inr (rroot, res, _) \<Rightarrow>
     (case scan (m_implementer m) of Inl e \<Rightarrow> Inl e | Inr (iroot, ies, _) \<Rightarrow>
       if rroot = iroot then Inl (UnsafeChange PATH_NOT_ALLOWED)
       else (case project res of Inl e \<Rightarrow> Inl e | Inr rt \<Rightarrow>
         (case project ies of Inl e \<Rightarrow> Inl e | Inr it \<Rightarrow> Inr (rt, it)))))"

definition main_snapshot :: "moment \<Rightarrow> change_error + string \<times> string" where
  "main_snapshot m = (case scan (m_main m) of Inl e \<Rightarrow> Inl e | Inr (rid, _, d) \<Rightarrow> Inr (rid, d))"

definition manifest_moved :: "task_file \<Rightarrow> moment \<Rightarrow> bool" where
  "manifest_moved f m = (case m_task m of None \<Rightarrow> True
     | Some g \<Rightarrow> \<not> tf_readable g \<or> tf_digest g \<noteq> tf_digest f)"

text \<open>What both verified calls and the re-derivation open with.\<close>

definition open_call :: "identity \<Rightarrow> moment \<Rightarrow> change_error + task_file \<times> tree \<times> tree" where
  "open_call i m = (if \<not> exact_identity i then Inl EvidenceUnavailable
     else (case bind_task i m of Inl e \<Rightarrow> Inl e | Inr f \<Rightarrow>
       (case assert_state_binding i m of Inl e \<Rightarrow> Inl e | Inr _ \<Rightarrow>
         (case bind_workspace m of Inl e \<Rightarrow> Inl e | Inr _ \<Rightarrow>
           (case read_pair m of Inl e \<Rightarrow> Inl e | Inr (rt, it) \<Rightarrow> Inr (f, rt, it))))))"

definition authorized ::
  "(string \<Rightarrow> string) \<Rightarrow> task_file \<Rightarrow> change list \<Rightarrow> change_error + unit" where
  "authorized cf f cs = authorize_all cf (allowed_paths (tf_task f)) (forbidden_paths (tf_task f))
     (tf_relative f) (map path cs)"

text \<open>Everything that must not have moved, then the pair of trees.\<close>

definition unmoved_pair ::
  "identity \<Rightarrow> task_file \<Rightarrow> string \<times> string \<Rightarrow> tree \<Rightarrow> moment \<Rightarrow> change_error + tree \<times> tree" where
  "unmoved_pair i f main_before ref_before m =
     (case bind_workspace m of Inl e \<Rightarrow> Inl e | Inr _ \<Rightarrow>
     (case assert_state_binding i m of Inl e \<Rightarrow> Inl e | Inr _ \<Rightarrow>
      if manifest_moved f m then Inl (UnsafeChange PATH_NOT_ALLOWED)
      else (case main_snapshot m of Inl e \<Rightarrow> Inl e | Inr main_after \<Rightarrow>
        if main_after \<noteq> main_before then Inl (UnsafeChange PATH_NOT_ALLOWED)
        else (case read_pair m of Inl e \<Rightarrow> Inl e | Inr (rt, it) \<Rightarrow>
          if \<not> same_tree rt ref_before then Inl (UnsafeChange PATH_NOT_ALLOWED)
          else Inr (rt, it)))))"

section \<open>The declaration and the evidence\<close>

text \<open>A member of the declared list that is not a text is \<open>None\<close>.\<close>

record call_outcome =
  o_run_id :: "string option"
  o_changed_files :: "string option list"
  o_status :: status
  o_exit_code :: int
  o_duration_ms :: int
  o_stdout_bytes :: int
  o_stderr_bytes :: int
  o_schema_sha256 :: string
  o_event :: event_code

record verified_change_set =
  v_run_id :: string
  v_workspace_id :: string
  v_baseline_sha :: string
  v_status :: status
  changed_files :: "string list"
  added :: nat
  modified :: nat
  deleted :: nat
  fingerprint :: string
  v_exit_code :: int
  v_duration_ms :: int
  v_stdout_bytes :: int
  v_stderr_bytes :: int
  v_schema_sha256 :: string
  v_event :: event_code

definition declaration_ok ::
  "(string \<Rightarrow> string) \<Rightarrow> string \<Rightarrow> call_outcome \<Rightarrow> change list \<Rightarrow> bool" where
  "declaration_ok cf run oc actual =
     (o_run_id oc = Some run \<and> None \<notin> set (o_changed_files oc)
      \<and> (let canonical = map (fold_path cf \<circ> the) (o_changed_files oc)
         in distinct canonical \<and> set canonical = (\<lambda>c. fold_path cf (path c)) ` set actual)
      \<and> (o_status oc = St_IMPLEMENTED \<or> actual = []))"

definition count_kind :: "change_kind \<Rightarrow> change list \<Rightarrow> nat" where
  "count_kind k cs = length (filter (\<lambda>c. kind c = k) cs)"

definition verified_set ::
  "(string \<Rightarrow> string) \<Rightarrow> identity \<Rightarrow> call_outcome \<Rightarrow> change list \<Rightarrow> verified_change_set" where
  "verified_set sha i oc cs = \<lparr>v_run_id = i_run_id i, v_workspace_id = i_workspace_id i,
     v_baseline_sha = i_baseline_sha i, v_status = o_status oc, changed_files = map path cs,
     added = count_kind ADDED cs, modified = count_kind MODIFIED cs,
     deleted = count_kind DELETED cs, fingerprint = fingerprint_of sha cs,
     v_exit_code = o_exit_code oc, v_duration_ms = o_duration_ms oc,
     v_stdout_bytes = o_stdout_bytes oc, v_stderr_bytes = o_stderr_bytes oc,
     v_schema_sha256 = o_schema_sha256 oc, v_event = o_event oc\<rparr>"

text \<open>\<open>_accept\<close>: one set is both declared and returned.\<close>

definition accept_call ::
  "(string \<Rightarrow> string) \<Rightarrow> (string \<Rightarrow> string) \<Rightarrow> identity \<Rightarrow> call_outcome \<Rightarrow> change list
     \<Rightarrow> change_error + verified_change_set" where
  "accept_call cf sha i oc actual = (if declaration_ok cf (i_run_id i) oc actual
     then Inr (verified_set sha i oc actual) else Inl DeclarationMismatch)"

text \<open>\<open>_accept_repair\<close>: the declaration is about the call, the result about the candidate.\<close>

definition accept_repair ::
  "(string \<Rightarrow> string) \<Rightarrow> (string \<Rightarrow> string) \<Rightarrow> identity \<Rightarrow> call_outcome \<Rightarrow> change list \<Rightarrow> change list
     \<Rightarrow> change_error + verified_change_set" where
  "accept_repair cf sha i oc delta whole = (if declaration_ok cf (i_run_id i) oc delta
     then Inr (verified_set sha i oc whole) else Inl DeclarationMismatch)"

section \<open>The verified calls\<close>

text \<open>
  \<open>m0\<close> is the disk before the model call, \<open>m1\<close> after it; \<open>call\<close> is what the adapter did. A
  violation found after the call outranks the failure of the call itself.
\<close>

definition verify_implementation ::
  "(string \<Rightarrow> string) \<Rightarrow> identity \<Rightarrow> task_file \<Rightarrow> string \<times> string \<Rightarrow> tree \<Rightarrow> moment
     \<Rightarrow> change_error + change list" where
  "verify_implementation cf i f main_before ref_before m1 =
     (case unmoved_pair i f main_before ref_before m1 of Inl e \<Rightarrow> Inl e | Inr (rt, it) \<Rightarrow>
     (case semantic_changes rt it of Inl e \<Rightarrow> Inl e | Inr cs \<Rightarrow>
     (case authorized cf f cs of Inl e \<Rightarrow> Inl e | Inr _ \<Rightarrow> Inr cs)))"

definition run_verified_implementation ::
  "(string \<Rightarrow> string) \<Rightarrow> (string \<Rightarrow> string) \<Rightarrow> identity \<Rightarrow> moment \<Rightarrow> failure + call_outcome \<Rightarrow> moment
     \<Rightarrow> failure + verified_change_set" where
  "run_verified_implementation cf sha i m0 call m1 =
     (case open_call i m0 of Inl e \<Rightarrow> Inl (change_failure e) | Inr (f, rt, it) \<Rightarrow>
      if \<not> same_tree rt it then Inl (change_failure (UnsafeChange DIRTY_WORKTREE))
      else (case main_snapshot m0 of Inl e \<Rightarrow> Inl (change_failure e) | Inr main_before \<Rightarrow>
      (case verify_implementation cf i f main_before rt m1 of
         Inl e \<Rightarrow> Inl (change_failure e)
       | Inr actual \<Rightarrow> (case call of Inl fl \<Rightarrow> Inl fl
          | Inr oc \<Rightarrow> (case accept_call cf sha i oc actual of
               Inl e \<Rightarrow> Inl (change_failure e) | Inr v \<Rightarrow> Inr v)))))"

definition exact_path_set :: "(string \<Rightarrow> string) \<Rightarrow> string list \<Rightarrow> change_error + string list" where
  "exact_path_set cf ps = (if distinct (map (fold_path cf) ps) then Inr (map (fold_path cf) ps)
     else Inl EvidenceUnavailable)"

definition verify_repair ::
  "(string \<Rightarrow> string) \<Rightarrow> identity \<Rightarrow> task_file \<Rightarrow> string list \<Rightarrow> string \<times> string \<Rightarrow> tree \<Rightarrow> tree
     \<Rightarrow> moment \<Rightarrow> change_error + change list \<times> change list" where
  "verify_repair cf i f expected main_before ref_before impl_before m1 =
     (case unmoved_pair i f main_before ref_before m1 of Inl e \<Rightarrow> Inl e | Inr (rt, it) \<Rightarrow>
     (case semantic_changes rt it of Inl e \<Rightarrow> Inl e | Inr whole \<Rightarrow>
     (case authorized cf f whole of Inl e \<Rightarrow> Inl e | Inr _ \<Rightarrow>
     (case semantic_changes impl_before it of Inl e \<Rightarrow> Inl e | Inr delta \<Rightarrow>
      if \<exists>c\<in>set delta. fold_path cf (path c) \<notin> set expected
        then Inl (UnsafeChange PATH_NOT_ALLOWED)
      else Inr (delta, whole)))))"

definition run_verified_repair ::
  "(string \<Rightarrow> string) \<Rightarrow> (string \<Rightarrow> string) \<Rightarrow> identity \<Rightarrow> string \<Rightarrow> string list \<Rightarrow> moment
     \<Rightarrow> failure + call_outcome \<Rightarrow> moment \<Rightarrow> failure + verified_change_set" where
  "run_verified_repair cf sha i previous_fingerprint previous_files m0 call m1 =
     (if \<not> exact_identity i \<or> \<not> is_hex 64 previous_fingerprint
        then Inl (change_failure EvidenceUnavailable)
      else (case exact_path_set cf previous_files of Inl e \<Rightarrow> Inl (change_failure e) | Inr expected \<Rightarrow>
      (case open_call i m0 of Inl e \<Rightarrow> Inl (change_failure e) | Inr (f, rt, it) \<Rightarrow>
      (case semantic_changes rt it of Inl e \<Rightarrow> Inl (change_failure e) | Inr prior \<Rightarrow>
      (case authorized cf f prior of Inl e \<Rightarrow> Inl (change_failure e) | Inr _ \<Rightarrow>
      if fingerprint_of sha prior \<noteq> previous_fingerprint
        then Inl (change_failure (UnsafeChange PATH_NOT_ALLOWED))
      else if (\<lambda>c. fold_path cf (path c)) ` set prior \<noteq> set expected
        then Inl (change_failure (UnsafeChange PATH_NOT_ALLOWED))
      else (case main_snapshot m0 of Inl e \<Rightarrow> Inl (change_failure e) | Inr main_before \<Rightarrow>
      (case verify_repair cf i f expected main_before rt it m1 of
         Inl e \<Rightarrow> Inl (change_failure e)
       | Inr (delta, whole) \<Rightarrow> (case call of Inl fl \<Rightarrow> Inl fl
          | Inr oc \<Rightarrow> (case accept_repair cf sha i oc delta whole of
               Inl e \<Rightarrow> Inl (change_failure e) | Inr v \<Rightarrow> Inr v)))))))))"

record candidate =
  cd_run_id :: string
  cd_workspace_id :: string
  cd_baseline_sha :: string
  cd_changed_files :: "string list"
  cd_added :: nat
  cd_modified :: nat
  cd_deleted :: nat
  cd_fingerprint :: string
  cd_task_digest :: string
  cd_commands :: "(command_id \<times> string list) list"
  cd_changes :: "change list"

definition derive_candidate_changes ::
  "(string \<Rightarrow> string) \<Rightarrow> (string \<Rightarrow> string) \<Rightarrow> identity \<Rightarrow> moment \<Rightarrow> change_error + candidate" where
  "derive_candidate_changes cf sha i m = (case open_call i m of Inl e \<Rightarrow> Inl e | Inr (f, rt, it) \<Rightarrow>
     (case semantic_changes rt it of Inl e \<Rightarrow> Inl e | Inr actual \<Rightarrow>
     (case authorized cf f actual of Inl e \<Rightarrow> Inl e | Inr _ \<Rightarrow>
      Inr \<lparr>cd_run_id = i_run_id i, cd_workspace_id = i_workspace_id i,
        cd_baseline_sha = i_baseline_sha i, cd_changed_files = map path actual,
        cd_added = count_kind ADDED actual, cd_modified = count_kind MODIFIED actual,
        cd_deleted = count_kind DELETED actual, cd_fingerprint = fingerprint_of sha actual,
        cd_task_digest = tf_digest f, cd_commands = acceptance_commands (tf_task f),
        cd_changes = actual\<rparr>)))"

section \<open>The operator's checkout\<close>

text \<open>\<open>_project_main\<close> does not refuse a link; \<open>_main_policy\<close> picks the environments.\<close>

fun project_main_from :: "tree \<Rightarrow> entry list \<Rightarrow> change_error + tree" where
  "project_main_from acc [] = Inr (rev acc)"
| "project_main_from acc (e # es) =
     (if e_path e \<in> fst ` set acc then Inl EvidenceUnavailable
      else project_main_from ((e_path e, snap_of e) # acc) es)"

definition main_projection :: "moment \<Rightarrow> change_error + string \<times> tree" where
  "main_projection m = (case scan (m_main m) of Inl e \<Rightarrow> Inl e | Inr (rid, es, _) \<Rightarrow>
     (case project_main_from [] es of Inl e \<Rightarrow> Inl e | Inr t \<Rightarrow> Inr (rid, sort_key fst t)))"

definition main_difference :: "string \<times> tree \<Rightarrow> string \<times> tree \<Rightarrow> change_error + change list" where
  "main_difference p q = (if fst p \<noteq> fst q then Inl (UnsafeChange PATH_NOT_ALLOWED)
     else semantic_changes (snd p) (snd q))"

record dir_entry =
  d_name :: string
  d_is_dir :: bool
  d_reparse_tag :: int

definition main_policy :: "dir_entry list option \<Rightarrow> change_error + string list \<times> string list" where
  "main_policy listing = (case listing of None \<Rightarrow> Inl EvidenceUnavailable
     | Some es \<Rightarrow>
        (let envs = map d_name (filter (\<lambda>e. suffix ''_env'' (d_name e) \<and> d_is_dir e
                                    \<and> d_reparse_tag e = 0) es)
         in Inr (sort envs, sort (map (\<lambda>n. n @ ''/pyvenv.cfg'') envs))))"

section \<open>What the comparison reports\<close>

text \<open>A projected tree: one entry per path, compared by what the entry is.\<close>

definition snap_ok :: "snap \<Rightarrow> bool" where
  "snap_ok s = (case s_compare s of
       FileFields m _ h _ _ _ _ \<Rightarrow> s_kind s = EFile \<and> s_mode s = m \<and> s_sha256 s = h
     | DirFields m _ _ _ \<Rightarrow> s_kind s \<noteq> EFile \<and> s_mode s = m)"

definition tree_ok :: "tree \<Rightarrow> bool" where
  "tree_ok t = (distinct (map fst t) \<and> (\<forall>(p, s)\<in>set t. snap_ok s \<and> s_kind s \<noteq> ELink))"

lemma snap_ok_snap_of [simp]: "snap_ok (snap_of e)"
  by (simp add: snap_ok_def snap_of_def)

lemma s_kind_snap_of [simp]: "s_kind (snap_of e) = e_kind e"
  by (simp add: snap_of_def)

lemma project_from_ok:
  "project_from acc es = Inr t \<Longrightarrow> tree_ok acc \<Longrightarrow> tree_ok t"
  by (induction acc es rule: project_from.induct)
    (auto simp: tree_ok_def distinct_rev rev_map [symmetric] split: if_splits)

lemma project_ok: "project es = Inr t \<Longrightarrow> tree_ok t"
  using project_from_ok [of "[]" es t] by (simp add: project_def tree_ok_def)

lemma read_pair_ok: "read_pair m = Inr (rt, it) \<Longrightarrow> tree_ok rt \<and> tree_ok it"
  by (auto simp: read_pair_def dest!: project_ok split: sum.splits if_splits)

lemma tree_ok_lookup:
  "tree_ok t \<Longrightarrow> map_of t p = Some s \<Longrightarrow> snap_ok s \<and> s_kind s \<noteq> ELink"
  by (auto simp: tree_ok_def dest: map_of_SomeD)

lemma same_compare:
  "snap_ok s \<Longrightarrow> snap_ok r \<Longrightarrow> s_compare s = s_compare r \<Longrightarrow> s_kind s = EFile \<Longrightarrow>
     s_kind r = EFile \<and> s_mode r = s_mode s \<and> s_sha256 r = s_sha256 s"
  by (auto simp: snap_ok_def split: compare_key.splits)

text \<open>The files of a tree, each with its mode and content.\<close>

definition files_of :: "tree \<Rightarrow> string \<Rightarrow> (string \<times> string) option" where
  "files_of t p = (case map_of t p of None \<Rightarrow> None
     | Some s \<Rightarrow> if s_kind s = EFile then Some (s_mode s, s_sha256 s) else None)"

fun replay :: "change list \<Rightarrow> (string \<Rightarrow> (string \<times> string) option) \<Rightarrow> string \<Rightarrow> (string \<times> string) option" where
  "replay [] fs = fs"
| "replay (c # cs) fs = replay cs (fs(path c := (if kind c = DELETED then None
     else Some (mode c, sha256 c))))"

lemma path_verdict_of_compare: "compare_path t0 t1 p = Changed c \<Longrightarrow> path c = p"
  by (auto simp: compare_path_def split: option.splits if_splits)

lemma collect_paths:
  "collect vs = Some (cs, ds) \<Longrightarrow> set cs = {c. Changed c \<in> set vs} \<and> set ds = {d. Structural d \<in> set vs}
     \<and> Unsupported \<notin> set vs"
proof (induction vs arbitrary: cs ds)
  case (Cons v vs)
  then show ?case by (cases v) force+
qed simp

lemma collect_subseq:
  "collect (map (compare_path t0 t1) ps) = Some (cs, ds) \<Longrightarrow> subseq (map path cs) ps"
proof (induction ps arbitrary: cs ds)
  case (Cons p ps)
  show ?case
  proof (cases "compare_path t0 t1 p")
    case (Changed c)
    with Cons.prems obtain cs' where "collect (map (compare_path t0 t1) ps) = Some (cs', ds)"
      and "cs = c # cs'" by auto
    with Cons.IH Changed path_verdict_of_compare [OF Changed] show ?thesis by simp
  next
    case (Structural d)
    with Cons.prems obtain ds' where "collect (map (compare_path t0 t1) ps) = Some (cs, ds')" by auto
    with Cons.IH show ?thesis by (simp add: list_emb_Cons)
  qed (use Cons in \<open>simp_all add: list_emb_Cons\<close>)
qed simp

lemma semantic_changes_InrD:
  assumes "semantic_changes t0 t1 = Inr cs"
  shows "set cs = {c. \<exists>p. compare_path t0 t1 p = Changed c}" "distinct (map path cs)"
    "sorted (map path cs)" "compare_path t0 t1 p \<noteq> Unsupported"
proof -
  obtain ps where ps: "ps = sort (remdups (map fst t0 @ map fst t1))" by simp
  obtain xs ds where c: "collect (map (compare_path t0 t1) ps) = Some (xs, ds)"
    and cs: "cs = sort_key path xs"
    using assms by (auto simp: semantic_changes_def ps split: option.splits if_splits prod.splits)
  have dist: "distinct ps" and set_ps: "set ps = fst ` set t0 \<union> fst ` set t1"
    by (auto simp: ps)
  have out: "compare_path t0 t1 q = Unmoved" if "q \<notin> set ps" for q
    using that map_of_eq_None_iff [of t0 q] map_of_eq_None_iff [of t1 q]
    by (simp add: compare_path_def set_ps)
  from collect_paths [OF c] have "set xs = {c. \<exists>p\<in>set ps. compare_path t0 t1 p = Changed c}"
    and un: "\<forall>p\<in>set ps. compare_path t0 t1 p \<noteq> Unsupported" by force+
  with out show "set cs = {c. \<exists>p. compare_path t0 t1 p = Changed c}"
    unfolding cs by (force simp del: set_sort simp add: set_sort)
  from un out show "compare_path t0 t1 p \<noteq> Unsupported" by fastforce
  from collect_subseq [OF c] dist have "distinct (map path xs)" by (metis subseq_conv_nths distinct_nthsI)
  then have "distinct xs \<and> inj_on path (set xs)" by (simp add: distinct_map)
  then show "distinct (map path cs)" unfolding cs by (simp add: distinct_map)
  show "sorted (map path cs)" unfolding cs by simp
qed

lemma replay_other: "p \<notin> path ` set cs \<Longrightarrow> replay cs fs p = fs p"
  by (induction cs arbitrary: fs) auto

lemma replay_at:
  assumes "c \<in> set cs" "distinct (map path cs)"
  shows "replay cs fs (path c) = (if kind c = DELETED then None else Some (mode c, sha256 c))"
  using assms
proof (induction cs arbitrary: fs)
  case (Cons d cs)
  then show ?case by (cases "c = d") (auto simp: replay_other)
qed simp

text \<open>The change set carries every file that differs: replayed on one tree it gives the other.\<close>

lemma replay_semantic_changes:
  assumes cs: "semantic_changes t0 t1 = Inr cs" and ok: "tree_ok t0" "tree_ok t1"
  shows "replay cs (files_of t0) = files_of t1"
proof
  fix p
  note D = semantic_changes_InrD [OF cs]
  show "replay cs (files_of t0) p = files_of t1 p"
  proof (cases "compare_path t0 t1 p")
    case (Changed c)
    then have c: "c \<in> set cs" "path c = p" using D(1) path_verdict_of_compare by auto
    with replay_at [OF c(1) D(2), of "files_of t0"] Changed show ?thesis
      by (cases c) (auto simp: compare_path_def files_of_def split: option.splits if_splits)
  next
    case Unsupported
    with D(4) show ?thesis by simp
  next
    case Unmoved
    then have "p \<notin> path ` set cs" using D(1) path_verdict_of_compare by force
    with Unmoved tree_ok_lookup [OF ok(1), of p] tree_ok_lookup [OF ok(2), of p] show ?thesis
      by (auto simp: replay_other files_of_def compare_path_def dest: same_compare same_compare [OF _ _ sym]
          split: option.splits if_splits)
  next
    case (Structural d)
    then have "p \<notin> path ` set cs" using D(1) path_verdict_of_compare by force
    with Structural show ?thesis
      by (auto simp: replay_other files_of_def compare_path_def split: option.splits if_splits)
  qed
qed

lemma semantic_changes_paths:
  assumes "semantic_changes t0 t1 = Inr cs"
  shows "p \<in> path ` set cs \<longleftrightarrow> (\<exists>c. compare_path t0 t1 p = Changed c)"
  using semantic_changes_InrD(1) [OF assms] path_verdict_of_compare by force

section \<open>A repair stays inside the candidate it repairs\<close>

lemma compare_path_changed_iff:
  "(\<exists>c. compare_path t0 t1 p = Changed c) \<longleftrightarrow> (case map_of t0 p of
       None \<Rightarrow> (case map_of t1 p of None \<Rightarrow> False | Some r \<Rightarrow> s_kind r = EFile)
     | Some l \<Rightarrow> (case map_of t1 p of None \<Rightarrow> s_kind l = EFile
        | Some r \<Rightarrow> s_compare l \<noteq> s_compare r \<and> s_kind l = s_kind r \<and> s_kind r = EFile))"
  by (cases "map_of t0 p"; cases "map_of t1 p") (auto simp: compare_path_def)

lemma compare_path_unsupported_iff:
  "compare_path t0 t1 p = Unsupported \<longleftrightarrow> (case map_of t0 p of None \<Rightarrow> False
     | Some l \<Rightarrow> (case map_of t1 p of None \<Rightarrow> False
        | Some r \<Rightarrow> s_compare l \<noteq> s_compare r \<and> (s_kind l \<noteq> s_kind r \<or> s_kind r \<noteq> EFile)))"
  by (cases "map_of t0 p"; cases "map_of t1 p") (auto simp: compare_path_def)

lemma same_compare_kind:
  "snap_ok s \<Longrightarrow> snap_ok r \<Longrightarrow> s_compare s = s_compare r \<Longrightarrow> s_kind s = EFile \<longleftrightarrow> s_kind r = EFile"
  by (metis same_compare)

lemma same_compare_lookup:
  "tree_ok t \<Longrightarrow> tree_ok t' \<Longrightarrow> map_of t p = Some s \<longrightarrow> map_of t' p = Some r \<longrightarrow>
     s_compare s = s_compare r \<longrightarrow> (s_kind s = EFile) = (s_kind r = EFile)"
  using same_compare_kind tree_ok_lookup by blast

lemma repaired_path_was_prior:
  assumes prior: "semantic_changes rt it = Inr prior" and whole: "semantic_changes rt it' = Inr whole"
    and delta: "semantic_changes it it' = Inr delta"
    and ok: "tree_ok rt" "tree_ok it" "tree_ok it'"
    and p: "p \<in> path ` set whole"
  shows "p \<in> path ` set prior \<or> p \<in> path ` set delta"
proof -
  have "\<exists>c. compare_path rt it' p = Changed c" using p semantic_changes_paths [OF whole] by blast
  moreover have "compare_path rt it p \<noteq> Unsupported" "compare_path it it' p \<noteq> Unsupported"
    using semantic_changes_InrD(4) prior delta by blast+
  ultimately have "(\<exists>c. compare_path rt it p = Changed c) \<or> (\<exists>c. compare_path it it' p = Changed c)"
    using same_compare_lookup [OF ok(1,2), of p "the (map_of rt p)" "the (map_of it p)"]
      same_compare_lookup [OF ok(2,3), of p "the (map_of it p)" "the (map_of it' p)"]
    unfolding compare_path_changed_iff compare_path_unsupported_iff
    by (cases "map_of rt p"; cases "map_of it p"; cases "map_of it' p"; simp; argo)
  with semantic_changes_paths [OF prior] semantic_changes_paths [OF delta] show ?thesis by blast
qed

section \<open>What a verified call guarantees\<close>

lemma authorized_iff:
  "authorized cf f cs = Inr () \<longleftrightarrow> (\<forall>c\<in>set cs. authorize cf (allowed_paths (tf_task f))
     (forbidden_paths (tf_task f)) (tf_relative f) (path c) = Inr ())"
  by (simp add: authorized_def authorize_all_iff)

lemma open_call_InrD:
  assumes "open_call i m = Inr (f, rt, it)"
  shows "bind_task i m = Inr f" "read_pair m = Inr (rt, it)" "exact_identity i"
    "assert_state_binding i m = Inr ()"
  using assms by (auto simp: open_call_def split: if_splits sum.splits)

lemma bind_task_InrD:
  assumes "bind_task i m = Inr f"
  shows "m_task m = Some f" "TASK_SCHEMA (tf_task f)" "tf_digest f = i_manifest_digest i"
    "tf_relative f \<noteq> None" "t_baseline_sha (tf_task f) = i_baseline_sha i"
  using assms by (auto simp: bind_task_def split: option.splits if_splits)

lemma unmoved_pair_InrD:
  assumes "unmoved_pair i f main_before ref_before m = Inr (rt, it)"
  shows "read_pair m = Inr (rt, it)" "same_tree rt ref_before" "main_snapshot m = Inr main_before"
    "\<not> manifest_moved f m"
  using assms by (auto simp: unmoved_pair_def split: if_splits sum.splits)

lemma verify_implementation_InrD:
  assumes "verify_implementation cf i f main_before ref_before m1 = Inr cs"
  obtains rt it where "unmoved_pair i f main_before ref_before m1 = Inr (rt, it)"
    "semantic_changes rt it = Inr cs" "authorized cf f cs = Inr ()"
  using assms by (auto simp: verify_implementation_def split: sum.splits)

lemma run_verified_implementation_InrD:
  assumes "run_verified_implementation cf sha i m0 call m1 = Inr v"
  obtains f rt it main_before actual oc where "open_call i m0 = Inr (f, rt, it)" "same_tree rt it"
    "main_snapshot m0 = Inr main_before"
    "verify_implementation cf i f main_before rt m1 = Inr actual"
    "call = Inr oc" "declaration_ok cf (i_run_id i) oc actual" "v = verified_set sha i oc actual"
  using assms by (auto simp: run_verified_implementation_def accept_call_def
      split: sum.splits if_splits prod.splits)

lemma verify_repair_InrD:
  assumes "verify_repair cf i f expected main_before ref_before impl_before m1 = Inr (delta, whole)"
  obtains rt it where "unmoved_pair i f main_before ref_before m1 = Inr (rt, it)"
    "semantic_changes rt it = Inr whole" "authorized cf f whole = Inr ()"
    "semantic_changes impl_before it = Inr delta"
    "\<forall>c\<in>set delta. fold_path cf (path c) \<in> set expected"
  using assms by (auto simp: verify_repair_def split: sum.splits if_splits)

lemma run_verified_repair_InrD:
  assumes "run_verified_repair cf sha i fp files m0 call m1 = Inr v"
  obtains f rt it prior main_before delta whole oc where "open_call i m0 = Inr (f, rt, it)"
    "semantic_changes rt it = Inr prior" "authorized cf f prior = Inr ()"
    "fingerprint_of sha prior = fp"
    "(\<lambda>c. fold_path cf (path c)) ` set prior = fold_path cf ` set files"
    "main_snapshot m0 = Inr main_before"
    "verify_repair cf i f (map (fold_path cf) files) main_before rt it m1 = Inr (delta, whole)"
    "call = Inr oc" "declaration_ok cf (i_run_id i) oc delta" "v = verified_set sha i oc whole"
  using assms by (auto simp: run_verified_repair_def accept_repair_def exact_path_set_def
      split: sum.splits if_splits prod.splits)

lemma changed_files_verified_set [simp]: "changed_files (verified_set sha i oc cs) = map path cs"
  by (simp add: verified_set_def)

text \<open>The declaration names every path of the set, in the one spelling of the module.\<close>

definition declares :: "(string \<Rightarrow> string) \<Rightarrow> call_outcome \<Rightarrow> string list \<Rightarrow> bool" where
  "declares cf oc ps = (None \<notin> set (o_changed_files oc)
     \<and> (fold_path cf \<circ> the) ` set (o_changed_files oc) = fold_path cf ` set ps)"

lemma declaration_ok_declares: "declaration_ok cf run oc cs \<Longrightarrow> declares cf oc (map path cs)"
  by (auto simp: declaration_ok_def declares_def Let_def image_image)

text \<open>Two trees with the same entries are read alike.\<close>

lemma same_tree_lookup: "tree_ok s \<Longrightarrow> tree_ok t \<Longrightarrow> same_tree s t \<Longrightarrow> map_of s = map_of t"
  by (auto simp: same_tree_def tree_ok_def intro: map_of_inject_set [THEN iffD2])

lemma compare_path_cong:
  "map_of s = map_of s' \<Longrightarrow> map_of t = map_of t' \<Longrightarrow> compare_path s t = compare_path s' t'"
  by (rule ext) (simp add: compare_path_def)

lemma semantic_changes_same_tree:
  assumes "same_tree s s'" "tree_ok s" "tree_ok s'"
  shows "semantic_changes s t = semantic_changes s' t"
proof -
  have "map_of s = map_of s'" by (rule same_tree_lookup [OF assms(2,3,1)])
  then have "compare_path s t = compare_path s' t" by (rule compare_path_cong) simp
  moreover have "set s = set s'" using assms(1) by (simp add: same_tree_def)
  then have "sort (remdups (map fst s @ map fst t)) = sort (remdups (map fst s' @ map fst t))"
    by (simp only: sorted_list_of_set_sort_remdups [symmetric] set_append set_map)
  ultimately show ?thesis by (simp add: semantic_changes_def)
qed

section \<open>The digest separates change sets\<close>

text \<open>
  What the evidence guarantees of a change: no NUL in a path, neither NUL nor newline in a
  mode or a digest.
\<close>

definition change_ok :: "change \<Rightarrow> bool" where
  "change_ok c = (NUL \<notin> set (path c) \<and> NUL \<notin> set (mode c)
     \<and> CHR 0x0A \<notin> set (sha256 c))"

lemma append_sep_inject:
  "d \<notin> set x \<Longrightarrow> d \<notin> set y \<Longrightarrow> x @ d # r = y @ d # q \<longleftrightarrow> x = y \<and> r = q"
  by (induction x arbitrary: y) (case_tac y; auto)+

lemma NUL_kind_text [simp]: "NUL \<notin> set (kind_text k)"
  by (cases k) (auto simp: NUL_def)

lemma kind_text_inject [simp]: "kind_text k = kind_text k' \<longleftrightarrow> k = k'"
  by (cases k; cases k') auto

lemma change_line_inject:
  assumes "change_ok c" "change_ok d" "change_line c @ r = change_line d @ q"
  shows "c = d \<and> r = q"
  using assms by (cases c; cases d) (simp add: change_line_def change_ok_def append_sep_inject)

lemma change_line_not_Nil [simp]: "change_line c \<noteq> []"
  by (simp add: change_line_def)

lemma change_lines_inject:
  "\<forall>c\<in>set cs. change_ok c \<Longrightarrow> \<forall>c\<in>set ds. change_ok c \<Longrightarrow>
     concat (map change_line cs) = concat (map change_line ds) \<Longrightarrow> cs = ds"
proof (induction cs arbitrary: ds)
  case Nil
  then show ?case by (cases ds) simp_all
next
  case (Cons c cs)
  note outer = Cons
  show ?case
  proof (cases ds)
    case Nil
    with outer(4) have "change_line c @ concat (map change_line cs) = []"
      by (simp only: list.map concat.simps)
    then show ?thesis by (simp only: append_is_Nil_conv change_line_not_Nil) simp
  next
    case (Cons d ds')
    from outer(4) Cons have "change_line c @ concat (map change_line cs)
        = change_line d @ concat (map change_line ds')"
      by (simp only: list.map concat.simps)
    moreover from outer(2,3) Cons have "change_ok c" "change_ok d" by simp_all
    ultimately have "c = d \<and> concat (map change_line cs) = concat (map change_line ds')"
      by (intro change_line_inject)
    moreover have "concat (map change_line cs) = concat (map change_line ds') \<Longrightarrow> cs = ds'"
      using outer(1) [of ds'] outer(2,3) Cons by simp
    ultimately show ?thesis using Cons by simp
  qed
qed

end
