(* ===== verification/Acceptance.thy ===== *)
theory Acceptance
  imports Change_Scope Py_Text
begin

text \<open>
  The acceptance gate (\<open>tools/agent_loop/acceptance.py\<close>): the parser that turns the output of
  one failed \<open>pytest\<close> run into closed diagnostics, the comparison of a verified change set with
  the fresh derivation, the walk over the commands, and the lifecycle of the receipt; then the
  two checks of \<open>tools/agent_loop/application.py\<close> that believe a report only through that
  receipt. Parsed output is a text of code points; \<open>dec\<close> is the decoding of a stored path and
  \<open>digit\<close> the decimal value of a code point.
\<close>

section \<open>Diagnostics from a test run\<close>

record diagnostic =
  dg_command_id :: command_id
  test_file :: pystr
  test_name :: pystr
  case_count :: nat

definition is_line_break :: "nat \<Rightarrow> bool" where
  "is_line_break c = (10 \<le> c \<and> c \<le> 13 \<or> 28 \<le> c \<and> c \<le> 30 \<or> c = 133 \<or> c = 8232 \<or> c = 8233)"

text \<open>\<open>str.splitlines\<close>; a carriage return takes a newline after it along.\<close>

fun splitlines_from :: "pystr \<Rightarrow> pystr \<Rightarrow> pystr list" where
  "splitlines_from cur [] = (if cur = [] then [] else [rev cur])"
| "splitlines_from cur [c] = (if is_line_break c then [rev cur] else [rev (c # cur)])"
| "splitlines_from cur (c # d # cs) =
     (if c = 13 \<and> d = 10 then rev cur # splitlines_from [] cs
      else if is_line_break c then rev cur # splitlines_from [] (d # cs)
      else splitlines_from (c # cur) (d # cs))"

definition splitlines :: "pystr \<Rightarrow> pystr list" where
  "splitlines x = splitlines_from [] x"

definition SUMMARY_BANNER :: pystr where
  "SUMMARY_BANNER = u ''short test summary info''"

definition FAILED_PREFIX :: pystr where
  "FAILED_PREFIX = u ''FAILED ''"

text \<open>The lines after the last banner; \<open>None\<close> when there is none.\<close>

fun after_last_banner :: "pystr list \<Rightarrow> pystr list option" where
  "after_last_banner [] = None"
| "after_last_banner (l # ls) = (case after_last_banner ls of
       Some b \<Rightarrow> Some b
     | None \<Rightarrow> if sublist SUMMARY_BANNER l then Some ls else None)"

text \<open>\<open>rest.split(" - ", 1)[0]\<close>\<close>

fun before_dash :: "pystr \<Rightarrow> pystr" where
  "before_dash [] = []"
| "before_dash (c # cs) = (if prefix (u '' - '') (c # cs) then [] else c # before_dash cs)"

fun decimal :: "(nat \<Rightarrow> nat option) \<Rightarrow> nat \<Rightarrow> pystr \<Rightarrow> nat" where
  "decimal digit n [] = n"
| "decimal digit n (c # cs) = decimal digit (10 * n + (case digit c of None \<Rightarrow> 0 | Some v \<Rightarrow> v)) cs"

text \<open>A match of \<open>(\d+) failed(?:,|\s|$)\<close> at the start of the text.\<close>

definition count_here :: "(nat \<Rightarrow> nat option) \<Rightarrow> pystr \<Rightarrow> nat option" where
  "count_here digit x =
     (let ds = takeWhile (\<lambda>c. digit c \<noteq> None) x; rest = drop (length ds) x; tail = drop 7 rest
      in if ds \<noteq> [] \<and> prefix (u '' failed'') rest
            \<and> (tail = [] \<or> hd tail = 44 \<or> is_space (hd tail))
         then Some (decimal digit 0 ds) else None)"

text \<open>\<open>_COUNT_LINE.search\<close>: the first match at the start or after a white space.\<close>

fun count_line_from :: "(nat \<Rightarrow> nat option) \<Rightarrow> bool \<Rightarrow> pystr \<Rightarrow> nat option" where
  "count_line_from digit at_word [] = None"
| "count_line_from digit at_word (c # cs) =
     (case (if at_word then count_here digit (c # cs) else None) of
        Some n \<Rightarrow> Some n
      | None \<Rightarrow> count_line_from digit (is_space c) cs)"

definition count_line :: "(nat \<Rightarrow> nat option) \<Rightarrow> pystr \<Rightarrow> nat option" where
  "count_line digit x = count_line_from digit True x"

text \<open>One pass over the summary region: the total and the nodes, or a refusal.\<close>

fun read_body :: "(nat \<Rightarrow> nat option) \<Rightarrow> nat option \<Rightarrow> pystr list \<Rightarrow> pystr list
    \<Rightarrow> (nat option \<times> pystr list) option" where
  "read_body digit n nodes [] = Some (n, rev nodes)"
| "read_body digit n nodes (l # ls) =
     (if prefix FAILED_PREFIX l
        then read_body digit n
          (strip (before_dash (strip (drop (length FAILED_PREFIX) l))) # nodes) ls
      else (case count_line digit l of
          None \<Rightarrow> None
        | Some k \<Rightarrow> if n \<noteq> None then None else read_body digit (Some k) nodes ls))"

definition cut_parameters :: "pystr \<Rightarrow> pystr" where
  "cut_parameters node = (if node \<noteq> [] \<and> last node = 93 \<and> 91 \<in> set node
     then takeWhile (\<lambda>c. c \<noteq> 91) node else node)"

fun split_colons :: "pystr \<Rightarrow> pystr list" where
  "split_colons [] = [[]]"
| "split_colons [c] = [[c]]"
| "split_colons (c # d # cs) = (if c = 58 \<and> d = 58 then [] # split_colons cs
     else (c # hd (split_colons (d # cs))) # tl (split_colons (d # cs)))"

lemma split_colons_code [code]:
  "split_colons [] = [[]]"
  "split_colons [c] = [[c]]"
  "split_colons (c # d # cs) = (if c = 58 \<and> d = 58 then [] # split_colons cs
     else (let r = split_colons (d # cs) in (c # hd r) # tl r))"
  by (simp_all add: Let_def)

definition name_char :: "nat \<Rightarrow> bool" where
  "name_char c = (48 \<le> c \<and> c \<le> 57 \<or> 65 \<le> c \<and> c \<le> 90 \<or> 97 \<le> c \<and> c \<le> 122 \<or> c = 95)"

definition is_test_name :: "pystr \<Rightarrow> bool" where
  "is_test_name x = (let y = (if x \<noteq> [] \<and> last x = 10 then butlast x else x); n = length y - 5
     in prefix (u ''test_'') y \<and> 1 \<le> n \<and> n \<le> 127 \<and> list_all name_char (drop 5 y))"

definition split_node :: "pystr \<Rightarrow> (pystr \<times> pystr) option" where
  "split_node node = (case split_colons (cut_parameters node) of
       [file_, name] \<Rightarrow> if is_test_name name then Some (file_, name) else None
     | _ \<Rightarrow> None)"

fun split_nodes :: "pystr list \<Rightarrow> pystr list \<Rightarrow> (pystr \<times> pystr) list option" where
  "split_nodes selected [] = Some []"
| "split_nodes selected (n # ns) = (case split_node n of None \<Rightarrow> None
     | Some (f, name) \<Rightarrow> if f \<notin> set selected then None
         else map_option ((#) (f, name)) (split_nodes selected ns))"

text \<open>Keys in the order of their first appearance.\<close>

definition first_order :: "'a list \<Rightarrow> 'a list" where
  "first_order xs = rev (remdups (rev xs))"

text \<open>
  \<open>tree\<close> is what parsing a file of the mirror defines, \<open>None\<close> when it cannot be read or parsed;
  \<open>text\<close> is \<open>None\<close> when the output is not UTF-8.
\<close>

definition classify_pytest_failures ::
  "(nat \<Rightarrow> nat option) \<Rightarrow> (pystr \<Rightarrow> pystr list option) \<Rightarrow> command_id \<Rightarrow> pystr list \<Rightarrow> pystr option
     \<Rightarrow> diagnostic list" where
  "classify_pytest_failures digit tree cid selected text =
     (if cid \<noteq> pytest_selected then []
      else case text of None \<Rightarrow> [] | Some t \<Rightarrow>
      (case after_last_banner (splitlines t) of None \<Rightarrow> [] | Some ls \<Rightarrow>
      (case read_body digit None [] (filter (\<lambda>l. l \<noteq> []) (map strip ls)) of
         None \<Rightarrow> []
       | Some (None, _) \<Rightarrow> []
       | Some (Some n, nodes) \<Rightarrow>
          if nodes = [] then [] else if MAX_DIAGNOSTICS < n then []
          else (case split_nodes selected nodes of None \<Rightarrow> [] | Some keys \<Rightarrow>
            let order = first_order keys
            in if length keys \<noteq> n then []
               else if \<not> (1 \<le> length order \<and> length order \<le> MAX_DIAGNOSTICS) then []
               else if \<not> list_all (\<lambda>(f, name). case tree f of None \<Rightarrow> False
                         | Some names \<Rightarrow> name \<in> set names) order then []
               else map (\<lambda>k. \<lparr>dg_command_id = cid, test_file = fst k, test_name = snd k,
                      case_count = count_list keys k\<rparr>) order))))"

section \<open>Refusals and the candidate\<close>

definition acceptance_failure :: "string \<Rightarrow> stop_reason \<Rightarrow> failure" where
  "acceptance_failure c r = plain_failure ''acceptance'' c (Some r)"

definition AcceptanceRefused :: failure where
  "AcceptanceRefused = acceptance_failure ''AcceptanceRefused'' PREFLIGHT_FAILED"

definition MAX_TIMEOUT_SECONDS :: int where
  "MAX_TIMEOUT_SECONDS = 60 * 480"

definition limits_ok :: "int \<Rightarrow> int \<Rightarrow> bool" where
  "limits_ok timeout output = (0 < timeout \<and> timeout \<le> MAX_TIMEOUT_SECONDS
     \<and> 1024 \<le> output \<and> output \<le> 4194304)"

definition assert_candidate ::
  "identity \<Rightarrow> verified_change_set \<Rightarrow> candidate \<Rightarrow> failure option" where
  "assert_candidate i v c =
     (if v_run_id v \<noteq> i_run_id i \<or> v_workspace_id v \<noteq> i_workspace_id i
          \<or> v_baseline_sha v \<noteq> i_baseline_sha i then Some AcceptanceRefused
      else if v_status v \<noteq> St_IMPLEMENTED then Some AcceptanceRefused
      else if (changed_files v, added v, modified v, deleted v, fingerprint v)
           \<noteq> (cd_changed_files c, cd_added c, cd_modified c, cd_deleted c, cd_fingerprint c)
        then Some (acceptance_failure ''CandidateMismatch'' PATH_NOT_ALLOWED)
      else None)"

text \<open>The manifest read again: missing or unreadable, or moved.\<close>

definition assert_manifest :: "task_file option \<Rightarrow> string \<Rightarrow> failure option" where
  "assert_manifest t expected = (case t of None \<Rightarrow> Some AcceptanceRefused
     | Some f \<Rightarrow> if \<not> tf_readable f then Some AcceptanceRefused
         else if tf_digest f \<noteq> expected
           then Some (acceptance_failure ''AcceptanceRefused'' PATH_NOT_ALLOWED)
         else None)"

section \<open>The receipt\<close>

datatype receipt_status = RECEIPT_PENDING | RECEIPT_PASSED | RECEIPT_FAILED

record receipt =
  r_receipt_id :: string
  r_repo_id :: string
  r_run_id :: string
  r_workspace_id :: string
  r_baseline_sha :: string
  r_manifest_digest :: string
  r_candidate_fingerprint :: string
  r_command_plan_digest :: string
  r_status :: receipt_status
  r_command_count :: nat

fun command_text :: "command_id \<Rightarrow> string" where
  "command_text pytest_full = ''pytest_full''"
| "command_text pytest_selected = ''pytest_selected''"
| "command_text p0_gate = ''p0_gate''"
| "command_text leak_scan = ''leak_scan''"

definition plan_line :: "(string \<Rightarrow> string) \<Rightarrow> command_id \<times> string list \<Rightarrow> string" where
  "plan_line cf r = command_text (fst r) @ concat (map (\<lambda>p. NUL # fold_path cf p) (snd r)) @ [CHR 0x0A]"

definition command_plan_digest ::
  "(string \<Rightarrow> string) \<Rightarrow> (string \<Rightarrow> string) \<Rightarrow> (command_id \<times> string list) list \<Rightarrow> string" where
  "command_plan_digest cf sha refs = sha (concat (map (plan_line cf) refs))"

text \<open>
  \<open>_persist_receipt\<close>: written and read back (\<open>durable\<close>), or refused. A refusal may leave the old
  receipt or the new one on the disk: \<open>torn\<close> says which.
\<close>

record receipt_write =
  durable :: bool
  torn :: bool

definition persist_receipt ::
  "receipt_write \<Rightarrow> receipt \<Rightarrow> receipt option \<Rightarrow> failure option \<times> receipt option" where
  "persist_receipt w r old = (if durable w then (None, Some r)
     else (Some AcceptanceRefused, if torn w then Some r else old))"

section \<open>The walk over the commands\<close>

datatype ending = COMPLETED_RUN | OVERFLOWED | TIMED_OUT | READ_FAILED

text \<open>
  What happened around one process: whether the container was launched, a fault of the stream
  set-up, and what the cleanup and the readers proved.
\<close>

datatype setup_fault = StreamFault | OperatorInterrupt

record command_run =
  cr_manifest :: "task_file option"
  cr_launched :: bool
  cr_setup :: "setup_fault option"
  cr_reclaimed :: bool
  cr_drained :: bool
  cr_timed_out :: bool
  cr_overflowed :: bool
  cr_joined :: bool
  cr_read_completed :: bool
  cr_wait :: int
  cr_output :: "pystr option"
  cr_duration_ms :: int
  cr_out_bytes :: int
  cr_err_bytes :: int

definition ProcessTreeSurvived :: failure where
  "ProcessTreeSurvived = acceptance_failure ''ProcessTreeSurvived'' MODEL_PROCESS_FAILED"

definition run_command :: "command_run \<Rightarrow> failure + ending \<times> int option" where
  "run_command r =
     (if \<not> cr_launched r then Inl (acceptance_failure ''ContainmentFailed'' MODEL_PROCESS_FAILED)
      else case cr_setup r of
        Some fault \<Rightarrow> if \<not> cr_reclaimed r then Inl ProcessTreeSurvived
          else if fault = OperatorInterrupt
            then Inl (plain_failure ''builtins'' ''KeyboardInterrupt'' None)
          else Inl AcceptanceRefused
      | None \<Rightarrow> if \<not> cr_drained r then Inl ProcessTreeSurvived
          else if cr_timed_out r then Inr (TIMED_OUT, None)
          else if cr_overflowed r then Inr (OVERFLOWED, None)
          else if \<not> cr_joined r \<or> \<not> cr_read_completed r then Inr (READ_FAILED, None)
          else Inr (COMPLETED_RUN, Some (cr_wait r)))"

record command_result =
  cs_command_id :: command_id
  cs_passed :: bool
  cs_exit_code :: "int option"
  cs_duration_ms :: int
  cs_stdout_bytes :: int
  cs_stderr_bytes :: int
  cs_event :: event_code
  cs_diagnostics :: "diagnostic list"

fun ending_event :: "ending \<Rightarrow> event_code" where
  "ending_event COMPLETED_RUN = Ev_ACCEPTANCE_FINISHED"
| "ending_event OVERFLOWED = Ev_OUTPUT_TRUNCATED"
| "ending_event TIMED_OUT = Ev_INTERRUPTED"
| "ending_event READ_FAILED = Ev_INTERRUPTED"

definition command_result_of ::
  "(nat \<Rightarrow> nat option) \<Rightarrow> (string \<Rightarrow> pystr) \<Rightarrow> (pystr \<Rightarrow> pystr list option) \<Rightarrow> command_id \<times> string list
     \<Rightarrow> ending \<Rightarrow> int option \<Rightarrow> command_run \<Rightarrow> command_result" where
  "command_result_of digit dec tree c ending code r =
     (let ok = (ending = COMPLETED_RUN \<and> code = Some 0)
      in \<lparr>cs_command_id = fst c, cs_passed = ok, cs_exit_code = code,
        cs_duration_ms = cr_duration_ms r, cs_stdout_bytes = cr_out_bytes r,
        cs_stderr_bytes = cr_err_bytes r, cs_event = ending_event ending,
        cs_diagnostics = (if ok \<or> ending \<noteq> COMPLETED_RUN then []
          else classify_pytest_failures digit tree (fst c) (map dec (snd c)) (cr_output r))\<rparr>)"

text \<open>In the manifest's order, stopping at the first command that does not pass.\<close>

fun walk_commands ::
  "(nat \<Rightarrow> nat option) \<Rightarrow> (string \<Rightarrow> pystr) \<Rightarrow> (pystr \<Rightarrow> pystr list option) \<Rightarrow> string
     \<Rightarrow> (command_id \<times> string list) list \<Rightarrow> (nat \<Rightarrow> command_run) \<Rightarrow> nat
     \<Rightarrow> failure + command_result list" where
  "walk_commands digit dec tree dig [] runs n = Inr []"
| "walk_commands digit dec tree dig (c # cs) runs n =
     (case assert_manifest (cr_manifest (runs n)) dig of Some e \<Rightarrow> Inl e
      | None \<Rightarrow> (case run_command (runs n) of Inl e \<Rightarrow> Inl e
        | Inr (ending, code) \<Rightarrow>
            (let res = command_result_of digit dec tree c ending code (runs n)
             in if \<not> cs_passed res then Inr [res]
                else (case walk_commands digit dec tree dig cs runs (Suc n) of
                    Inl e \<Rightarrow> Inl e | Inr rs \<Rightarrow> Inr (res # rs)))))"

section \<open>One acceptance run\<close>

record report =
  rp_run_id :: string
  rp_workspace_id :: string
  rp_baseline_sha :: string
  rp_passed :: bool
  rp_results :: "command_result list"
  rp_total_duration_ms :: int
  rp_manifest_digest :: string
  rp_candidate_fingerprint :: string
  rp_command_plan_digest :: string
  rp_receipt_id :: string

definition report_diagnostics :: "report \<Rightarrow> diagnostic list" where
  "report_diagnostics r = concat (map cs_diagnostics (rp_results r))"

text \<open>
  What the outside contributes to one run: the disk of the derivation, the manifest right after
  it, the second workspace binding, the fresh receipt id, how the two receipt writes ended, the
  mirror's construction and removal (\<open>acceptance_workspace\<close>, the environment, the git
  preparation), and what happened around every command.
\<close>

record acceptance_world =
  aw_moment :: moment
  aw_manifest :: "task_file option"
  aw_workspace :: "failure option"
  aw_receipt_id :: string
  aw_first_write :: receipt_write
  aw_last_write :: receipt_write
  aw_mirror :: "failure option"
  aw_remove :: "failure option"
  aw_tree :: "pystr \<Rightarrow> pystr list option"
  aw_runs :: "nat \<Rightarrow> command_run"
  aw_duration_ms :: int

definition measure_commands ::
  "(nat \<Rightarrow> nat option) \<Rightarrow> (string \<Rightarrow> pystr) \<Rightarrow> acceptance_world \<Rightarrow> string
     \<Rightarrow> (command_id \<times> string list) list \<Rightarrow> failure + command_result list" where
  "measure_commands digit dec w dig commands = (case aw_mirror w of Some e \<Rightarrow> Inl e
     | None \<Rightarrow> (let res = walk_commands digit dec (aw_tree w) dig commands (aw_runs w) 0
         in (case aw_remove w of Some e \<Rightarrow> Inl e | None \<Rightarrow> res)))"

definition run_acceptance ::
  "(string \<Rightarrow> string) \<Rightarrow> (string \<Rightarrow> string) \<Rightarrow> (nat \<Rightarrow> nat option) \<Rightarrow> (string \<Rightarrow> pystr) \<Rightarrow> identity
     \<Rightarrow> verified_change_set \<Rightarrow> int \<Rightarrow> int \<Rightarrow> acceptance_world \<Rightarrow> receipt option
     \<Rightarrow> (failure + report) \<times> receipt option" where
  "run_acceptance cf sha digit dec i v timeout output w old =
     (if \<not> exact_identity i \<or> \<not> limits_ok timeout output then (Inl AcceptanceRefused, old)
      else case derive_candidate_changes cf sha i (aw_moment w) of
        Inl e \<Rightarrow> (Inl (acceptance_failure ''AcceptanceRefused'' (change_reason e)), old)
      | Inr c \<Rightarrow> (case assert_candidate i v c of Some e \<Rightarrow> (Inl e, old)
      | None \<Rightarrow> (case assert_manifest (aw_manifest w) (cd_task_digest c) of Some e \<Rightarrow> (Inl e, old)
      | None \<Rightarrow>
         if cd_task_digest c \<noteq> i_manifest_digest i then (Inl AcceptanceRefused, old)
         else if \<exists>r\<in>set (cd_commands c). resolve_registry_command (fst r) (snd r) = None
           then (Inl AcceptanceRefused, old)
         else (case aw_workspace w of Some e \<Rightarrow> (Inl e, old)
      | None \<Rightarrow>
         (let plan = command_plan_digest cf sha (cd_commands c);
              rec = \<lparr>r_receipt_id = aw_receipt_id w, r_repo_id = i_repo_id i, r_run_id = i_run_id i,
                r_workspace_id = i_workspace_id i, r_baseline_sha = i_baseline_sha i,
                r_manifest_digest = i_manifest_digest i, r_candidate_fingerprint = cd_fingerprint c,
                r_command_plan_digest = plan, r_status = RECEIPT_PENDING,
                r_command_count = length (cd_commands c)\<rparr>
          in case persist_receipt (aw_first_write w) rec old of
               (Some e, d) \<Rightarrow> (Inl e, d)
             | (None, d) \<Rightarrow> (case measure_commands digit dec w (i_manifest_digest i) (cd_commands c) of
                 Inl e \<Rightarrow> (Inl e, snd (persist_receipt (aw_last_write w)
                            (rec\<lparr>r_status := RECEIPT_FAILED\<rparr>) d))
               | Inr results \<Rightarrow>
                  (let ok = (list_all cs_passed results \<and> length results = length (cd_commands c))
                   in case persist_receipt (aw_last_write w)
                          (rec\<lparr>r_status := (if ok then RECEIPT_PASSED else RECEIPT_FAILED)\<rparr>) d of
                        (Some e, d') \<Rightarrow> (Inl e, d')
                      | (None, d') \<Rightarrow> (Inr \<lparr>rp_run_id = i_run_id i,
                          rp_workspace_id = i_workspace_id i, rp_baseline_sha = i_baseline_sha i,
                          rp_passed = ok, rp_results = results,
                          rp_total_duration_ms = aw_duration_ms w,
                          rp_manifest_digest = cd_task_digest c,
                          rp_candidate_fingerprint = cd_fingerprint c,
                          rp_command_plan_digest = plan, rp_receipt_id = aw_receipt_id w\<rparr>, d'))))))))"

section \<open>The two checks before an application\<close>

text \<open>\<open>True\<close> is a report or receipt that is believed; everything else is \<open>CandidateNotAccepted\<close>.\<close>

definition assert_report ::
  "(string \<Rightarrow> string) \<Rightarrow> (string \<Rightarrow> string) \<Rightarrow> identity \<Rightarrow> report \<Rightarrow> candidate \<Rightarrow> bool" where
  "assert_report cf sha i r c =
     (rp_passed r \<and> rp_run_id r = i_run_id i \<and> rp_workspace_id r = i_workspace_id i
      \<and> rp_baseline_sha r = i_baseline_sha i \<and> rp_manifest_digest r = i_manifest_digest i
      \<and> rp_manifest_digest r = cd_task_digest c
      \<and> rp_candidate_fingerprint r = cd_fingerprint c
      \<and> rp_command_plan_digest r = command_plan_digest cf sha (cd_commands c)
      \<and> length (rp_results r) = length (cd_commands c)
      \<and> list_all2 (\<lambda>res p. cs_command_id res = fst p \<and> cs_passed res) (rp_results r) (cd_commands c))"

definition assert_receipt ::
  "(string \<Rightarrow> string) \<Rightarrow> (string \<Rightarrow> string) \<Rightarrow> identity \<Rightarrow> report \<Rightarrow> candidate \<Rightarrow> receipt option \<Rightarrow> bool" where
  "assert_receipt cf sha i r c d = (case d of None \<Rightarrow> False
     | Some x \<Rightarrow> r_status x = RECEIPT_PASSED \<and> r_repo_id x = i_repo_id i
         \<and> r_run_id x = i_run_id i \<and> r_workspace_id x = i_workspace_id i
         \<and> r_baseline_sha x = i_baseline_sha i \<and> r_manifest_digest x = i_manifest_digest i
         \<and> r_candidate_fingerprint x = cd_fingerprint c
         \<and> r_command_plan_digest x = command_plan_digest cf sha (cd_commands c)
         \<and> r_command_count x = length (cd_commands c) \<and> rp_receipt_id r = r_receipt_id x)"

section \<open>What a parsed run may name\<close>

lemma split_nodes_SomeD:
  "split_nodes selected ns = Some ks \<Longrightarrow> length ks = length ns
     \<and> (\<forall>(f, name)\<in>set ks. f \<in> set selected \<and> is_test_name name)"
proof (induction ns arbitrary: ks)
  case (Cons n ns)
  then show ?case
    by (fastforce simp: split_node_def split: option.splits if_splits list.splits)
qed simp

lemma set_first_order [simp]: "set (first_order xs) = set xs"
  by (simp add: first_order_def)

lemma distinct_first_order [simp]: "distinct (first_order xs)"
  by (simp add: first_order_def)

lemma sum_count_first_order: "(\<Sum>k\<leftarrow>first_order xs. count_list xs k) = length xs"
  by (simp add: sum_list_distinct_conv_sum_set sum_count_set)

text \<open>The whole account of a non-empty answer.\<close>

lemma classify_account:
  assumes "classify_pytest_failures digit tree cid selected text = ds" "ds \<noteq> []"
  obtains t ls n nodes keys where "cid = pytest_selected" "text = Some t"
    "after_last_banner (splitlines t) = Some ls"
    "read_body digit None [] (filter (\<lambda>l. l \<noteq> []) (map strip ls)) = Some (Some n, nodes)"
    "split_nodes selected nodes = Some keys" "length keys = n" "n \<le> MAX_DIAGNOSTICS"
    "list_all (\<lambda>(f, name). case tree f of None \<Rightarrow> False | Some names \<Rightarrow> name \<in> set names) (first_order keys)"
    "ds = map (\<lambda>k. \<lparr>dg_command_id = cid, test_file = fst k, test_name = snd k,
       case_count = count_list keys k\<rparr>) (first_order keys)"
  using assms by (auto simp: classify_pytest_failures_def Let_def not_less
      split: if_splits option.splits prod.splits)

section \<open>What a passed receipt proves\<close>

lemma walk_commands_passed:
  "walk_commands digit dec tree dig cs runs n = Inr rs \<Longrightarrow> list_all cs_passed rs \<Longrightarrow>
     length rs = length cs \<Longrightarrow> k < length cs \<Longrightarrow>
     assert_manifest (cr_manifest (runs (n + k))) dig = None
     \<and> run_command (runs (n + k)) = Inr (COMPLETED_RUN, Some 0)"
proof (induction cs arbitrary: n rs k)
  case (Cons c cs)
  from Cons.prems(1) obtain ending code where 1: "assert_manifest (cr_manifest (runs n)) dig = None"
      "run_command (runs n) = Inr (ending, code)"
    by (auto split: option.splits sum.splits)
  let ?res = "command_result_of digit dec tree c ending code (runs n)"
  from Cons.prems 1 have "cs_passed ?res" by (auto simp: Let_def split: sum.splits if_splits)
  moreover from this Cons.prems 1 obtain rs' where
      "walk_commands digit dec tree dig cs runs (Suc n) = Inr rs'" "rs = ?res # rs'"
    by (auto simp: Let_def split: sum.splits if_splits)
  ultimately show ?case using Cons.IH [of "Suc n" rs' "k - 1"] Cons.prems 1
    by (cases k) (auto simp: command_result_of_def Let_def)
qed simp

lemma walk_commands_ids:
  "walk_commands digit dec tree dig cs runs n = Inr rs \<Longrightarrow>
     map cs_command_id rs = map fst (take (length rs) cs)"
proof (induction cs arbitrary: n rs)
  case (Cons c cs)
  then show ?case
    by (force simp: Let_def command_result_of_def split: option.splits sum.splits if_splits)
qed simp

lemma measure_commands_InrD:
  "measure_commands digit dec w dig cs = Inr rs \<Longrightarrow>
     walk_commands digit dec (aw_tree w) dig cs (aw_runs w) 0 = Inr rs"
  by (auto simp: measure_commands_def Let_def split: option.splits)

text \<open>The gates a run has passed when it writes its first receipt.\<close>

definition admitted :: 
  "(string \<Rightarrow> string) \<Rightarrow> (string \<Rightarrow> string) \<Rightarrow> identity \<Rightarrow> verified_change_set \<Rightarrow> acceptance_world
     \<Rightarrow> candidate \<Rightarrow> bool" where
  "admitted cf sha i v w c = (derive_candidate_changes cf sha i (aw_moment w) = Inr c
     \<and> assert_candidate i v c = None \<and> cd_task_digest c = i_manifest_digest i
     \<and> (\<forall>r\<in>set (cd_commands c). resolve_registry_command (fst r) (snd r) \<noteq> None))"

text \<open>Every command of the manifest completed with exit code zero under the manifest it names.\<close>

definition all_green :: "identity \<Rightarrow> acceptance_world \<Rightarrow> candidate \<Rightarrow> bool" where
  "all_green i w c = (\<forall>k<length (cd_commands c).
     assert_manifest (cr_manifest (aw_runs w k)) (i_manifest_digest i) = None
     \<and> run_command (aw_runs w k) = Inr (COMPLETED_RUN, Some 0))"

definition names_candidate ::
  "(string \<Rightarrow> string) \<Rightarrow> (string \<Rightarrow> string) \<Rightarrow> identity \<Rightarrow> candidate \<Rightarrow> receipt \<Rightarrow> bool" where
  "names_candidate cf sha i c x = (r_repo_id x = i_repo_id i \<and> r_run_id x = i_run_id i
     \<and> r_workspace_id x = i_workspace_id i \<and> r_baseline_sha x = i_baseline_sha i
     \<and> r_manifest_digest x = i_manifest_digest i \<and> r_candidate_fingerprint x = cd_fingerprint c
     \<and> r_command_plan_digest x = command_plan_digest cf sha (cd_commands c)
     \<and> r_command_count x = length (cd_commands c))"

lemma run_acceptance_receipt:
  assumes run: "run_acceptance cf sha digit dec i v timeout output w old = (res, d)"
    and new: "d \<noteq> old" and d: "d = Some x"
  shows "\<exists>c. admitted cf sha i v w c \<and> names_candidate cf sha i c x \<and> r_receipt_id x = aw_receipt_id w
     \<and> (r_status x = RECEIPT_PASSED \<longrightarrow> all_green i w c)"
proof -
  from run new obtain c where c: "derive_candidate_changes cf sha i (aw_moment w) = Inr c"
    by (auto simp: run_acceptance_def split: if_splits sum.splits)
  with run new have gates: "assert_candidate i v c = None" "cd_task_digest c = i_manifest_digest i"
      "\<forall>r\<in>set (cd_commands c). resolve_registry_command (fst r) (snd r) \<noteq> None"
    by (auto simp: run_acceptance_def split: if_splits option.splits)
  have "names_candidate cf sha i c x \<and> r_receipt_id x = aw_receipt_id w
     \<and> (r_status x = RECEIPT_PASSED \<longrightarrow> all_green i w c)"
    using run new d c gates
    by (auto simp: run_acceptance_def persist_receipt_def Let_def names_candidate_def all_green_def
        dest!: measure_commands_InrD dest: walk_commands_passed [where n = 0, simplified]
        split: if_splits option.splits sum.splits)
  with c gates show ?thesis unfolding admitted_def by blast
qed

lemma walk_commands_green:
  "\<forall>k<length cs. assert_manifest (cr_manifest (runs (n + k))) dig = None
      \<and> run_command (runs (n + k)) = Inr (COMPLETED_RUN, Some 0) \<Longrightarrow>
   \<exists>rs. walk_commands digit dec tree dig cs runs n = Inr rs \<and> list_all cs_passed rs
      \<and> length rs = length cs"
proof (induction cs arbitrary: n)
  case (Cons c cs)
  from Cons.prems have 1: "assert_manifest (cr_manifest (runs n)) dig = None"
      "run_command (runs n) = Inr (COMPLETED_RUN, Some 0)" by force+
  from Cons.prems have "\<forall>k<length cs. assert_manifest (cr_manifest (runs (Suc n + k))) dig = None
      \<and> run_command (runs (Suc n + k)) = Inr (COMPLETED_RUN, Some 0)" by fastforce
  from Cons.IH [OF this] 1 show ?case
    by (auto simp: Let_def command_result_of_def)
qed simp

lemma run_acceptance_report:
  assumes run: "run_acceptance cf sha digit dec i v timeout output w old = (Inr rp, d)"
  shows "\<exists>c. admitted cf sha i v w c \<and> (rp_passed rp \<longleftrightarrow> all_green i w c)
     \<and> assert_report cf sha i rp c = rp_passed rp \<and> assert_receipt cf sha i rp c d = rp_passed rp"
proof -
  from run obtain c where c: "derive_candidate_changes cf sha i (aw_moment w) = Inr c"
    by (auto simp: run_acceptance_def split: if_splits sum.splits)
  with run have gates: "assert_candidate i v c = None" "cd_task_digest c = i_manifest_digest i"
      "\<forall>r\<in>set (cd_commands c). resolve_registry_command (fst r) (snd r) \<noteq> None"
    by (auto simp: run_acceptance_def split: if_splits option.splits)
  from run c obtain rs where rs:
      "walk_commands digit dec (aw_tree w) (i_manifest_digest i) (cd_commands c) (aw_runs w) 0 = Inr rs"
      "rp_passed rp = (list_all cs_passed rs \<and> length rs = length (cd_commands c))" "rp_results rp = rs"
    by (auto simp: run_acceptance_def persist_receipt_def Let_def dest!: measure_commands_InrD
        split: if_splits option.splits sum.splits)
  have green: "rp_passed rp \<longleftrightarrow> all_green i w c"
  proof
    assume "rp_passed rp"
    with rs show "all_green i w c"
      using walk_commands_passed [OF rs(1)] by (simp add: all_green_def)
  next
    assume "all_green i w c"
    then have "\<exists>rs. walk_commands digit dec (aw_tree w) (i_manifest_digest i) (cd_commands c) (aw_runs w) 0
        = Inr rs \<and> list_all cs_passed rs \<and> length rs = length (cd_commands c)"
      by (intro walk_commands_green) (simp add: all_green_def)
    with rs show "rp_passed rp" by simp
  qed
  have plan: "list_all2 (\<lambda>res p. cs_command_id res = fst p \<and> cs_passed res) rs (cd_commands c)"
    if hp: "rp_passed rp"
  proof -
    from hp rs have all: "list_all cs_passed rs" and len: "length rs = length (cd_commands c)" by auto
    from walk_commands_ids [OF rs(1)] len have ids: "map cs_command_id rs = map fst (cd_commands c)" by simp
    have "cs_command_id (rs ! k) = fst (cd_commands c ! k)" if hk: "k < length rs" for k
      using arg_cong [OF ids, of "\<lambda>xs. xs ! k"] hk len by simp
    with all len show ?thesis by (simp add: list_all2_conv_all_nth list_all_length)
  qed
  from run c rs gates plan have "assert_report cf sha i rp c = rp_passed rp"
      "assert_receipt cf sha i rp c d = rp_passed rp"
    by (auto simp: run_acceptance_def persist_receipt_def Let_def assert_report_def assert_receipt_def
        split: if_splits option.splits sum.splits)
  with c gates green show ?thesis unfolding admitted_def by blast
qed

end
