(* ===== verification/Agent_Preflight.thy ===== *)
theory Agent_Preflight
  imports Change_Scope Py_Text
begin

text \<open>
  The gates that run before anything is built: the subscription check of
  \<open>tools/agent_loop/plan_auth.py\<close> and the repository, manifest and state-directory gates of
  \<open>tools/agent_loop/preflight.py\<close>. What git, the file system and the two command lines answer
  is the view a gate reads; a failed git command is \<open>None\<close>. Paths are compared as POSIX does.
\<close>

section \<open>Plan-only authentication\<close>

definition FORBIDDEN_ENV :: "string list" where
  "FORBIDDEN_ENV = [''ANTHROPIC_API_KEY'', ''ANTHROPIC_AUTH_TOKEN'', ''OPENAI_API_KEY'', ''CODEX_API_KEY'']"

definition ACCEPTED_PLANS :: "string list" where
  "ACCEPTED_PLANS = [''pro'', ''max'']"

definition CODEX_EXPECTED_LINE :: pystr where
  "CODEX_EXPECTED_LINE = u ''Logged in using ChatGPT''"

text \<open>A refusal says whether its probe left a process behind.\<close>

datatype plan_refusal = PlanAuthRefused | PlanAuthCleanupFailed

fun refusal_cleanup_complete :: "plan_refusal \<Rightarrow> bool" where
  "refusal_cleanup_complete PlanAuthRefused = True"
| "refusal_cleanup_complete PlanAuthCleanupFailed = False"

text \<open>The status document of the implementer's command line, \<open>None\<close> where a field is absent or
  has another JSON type.\<close>

record claude_status =
  logged_in :: "bool option"
  auth_method :: "string option"
  api_provider :: "string option"
  subscription_type :: "string option"

text \<open>What one contained status command did.\<close>

record probe =
  pb_contained :: bool
  pb_clean :: bool
  pb_timed_out :: bool
  pb_read :: bool
  pb_exit_code :: int

definition probe_exit :: "probe \<Rightarrow> plan_refusal + int" where
  "probe_exit p = (if \<not> pb_contained p then Inl PlanAuthRefused
     else if \<not> pb_clean p then Inl PlanAuthCleanupFailed
     else if pb_timed_out p then Inl PlanAuthRefused
     else if \<not> pb_read p then Inl PlanAuthRefused
     else Inr (pb_exit_code p))"

record plan_view =
  env_value :: "string \<Rightarrow> pystr option"
  claude_probe :: probe
  claude_json :: "claude_status option"
  codex_probe :: probe
  codex_lines :: "pystr list"

definition environment_has_key :: "plan_view \<Rightarrow> bool" where
  "environment_has_key v = list_ex (\<lambda>n. case env_value v n of None \<Rightarrow> False
     | Some x \<Rightarrow> strip x \<noteq> []) FORBIDDEN_ENV"

definition claude_plan :: "plan_view \<Rightarrow> plan_refusal + string" where
  "claude_plan v = (case probe_exit (claude_probe v) of Inl e \<Rightarrow> Inl e
     | Inr code \<Rightarrow>
        if code \<noteq> 0 then Inl PlanAuthRefused
        else (case claude_json v of None \<Rightarrow> Inl PlanAuthRefused
          | Some s \<Rightarrow>
             if logged_in s \<noteq> Some True then Inl PlanAuthRefused
             else if auth_method s \<noteq> Some ''claude.ai'' \<or> api_provider s \<noteq> Some ''firstParty''
               then Inl PlanAuthRefused
             else (case subscription_type s of None \<Rightarrow> Inl PlanAuthRefused
               | Some plan \<Rightarrow> if plan \<in> set ACCEPTED_PLANS then Inr plan else Inl PlanAuthRefused)))"

definition codex_login :: "plan_view \<Rightarrow> plan_refusal + unit" where
  "codex_login v = (case probe_exit (codex_probe v) of Inl e \<Rightarrow> Inl e
     | Inr code \<Rightarrow>
        if code \<noteq> 0 then Inl PlanAuthRefused
        else if filter (\<lambda>l. l \<noteq> []) (map strip (codex_lines v)) = [CODEX_EXPECTED_LINE]
          then Inr () else Inl PlanAuthRefused)"

definition assert_plan_only :: "plan_view \<Rightarrow> plan_refusal option" where
  "assert_plan_only v = (if environment_has_key v then Some PlanAuthRefused
     else case claude_plan v of Inl e \<Rightarrow> Some e
     | Inr _ \<Rightarrow> (case codex_login v of Inl e \<Rightarrow> Some e | Inr _ \<Rightarrow> None))"

section \<open>The gates of preflight\<close>

definition nonblank :: "string \<Rightarrow> bool" where
  "nonblank l = list_ex (\<lambda>c. \<not> is_space (of_char c)) l"

definition touches_control_plane :: "string list \<Rightarrow> bool" where
  "touches_control_plane entries = list_ex (\<lambda>e.
     let n = rstrip_slash (unify_separators e); blocked = CONTROL_PLANE_BLOCKED_PATHS @ CONTROL_PLANE_PATHS
     in n \<in> set blocked \<or> n @ ''/'' \<in> set blocked
        \<or> list_ex (\<lambda>p. n = rstrip_slash p \<or> prefix p n) CONTROL_PLANE_PATHS
        \<or> list_ex (fnmatchcase n) CONTROL_PLANE_GLOBS) entries"

text \<open>\<open>preflight._covered\<close>: whole segments, spellings as they are.\<close>

definition dirty_covered :: "string \<Rightarrow> string list \<Rightarrow> bool" where
  "dirty_covered p allowlist = list_ex (\<lambda>e. p = e \<or> prefix (e @ ''/'') p) allowlist"

record repo_view =
  rv_git_dir :: bool
  rv_head :: "string option"
  rv_control_status :: "string list option"
  rv_task :: "task_file option"
  rv_schema_names_allowed_paths :: bool
  rv_staged :: "string option"
  rv_status :: "string list option"
  rv_runnable :: "role \<Rightarrow> bool"
  rv_repo_id :: string
  rv_files :: state_files

datatype preflight_result = Preflight_Refused stop_reason | Preflight_Ok string task_file

definition control_plane_changes :: "repo_view \<Rightarrow> string list option" where
  "control_plane_changes v = map_option (\<lambda>ls. map (drop 3) (filter nonblank ls)) (rv_control_status v)"

definition unexpected_changes :: "task_doc \<Rightarrow> string list \<Rightarrow> string list" where
  "unexpected_changes t status_lines =
     (let allowlist = map (\<lambda>p. rstrip_slash (unify_separators p)) (dirty_tree_allowlist t)
      in filter (\<lambda>p. \<not> dirty_covered p allowlist)
           (map (\<lambda>l. unify_separators (drop 3 l)) (filter nonblank status_lines)))"

definition run_preflight :: "repo_view \<Rightarrow> preflight_result" where
  "run_preflight v =
     (if \<not> rv_git_dir v then Preflight_Refused PREFLIGHT_FAILED
      else case rv_head v of None \<Rightarrow> Preflight_Refused PREFLIGHT_FAILED
      | Some baseline \<Rightarrow> if \<not> nonblank baseline then Preflight_Refused PREFLIGHT_FAILED
      else (case control_plane_changes v of None \<Rightarrow> Preflight_Refused PREFLIGHT_FAILED
      | Some tampered \<Rightarrow> if tampered \<noteq> [] then Preflight_Refused CONTROL_PLANE_MODIFIED
      else (case rv_task v of None \<Rightarrow> Preflight_Refused PREFLIGHT_FAILED
      | Some f \<Rightarrow>
         if \<not> tf_readable f then Preflight_Refused PREFLIGHT_FAILED
         else if \<not> TASK_SCHEMA (tf_task f) then
           (if rv_schema_names_allowed_paths v then Preflight_Refused PATH_NOT_ALLOWED
            else Preflight_Refused PREFLIGHT_FAILED)
         else if touches_control_plane (allowed_paths (tf_task f))
              \<or> touches_control_plane (dirty_tree_allowlist (tf_task f))
           then Preflight_Refused PATH_NOT_ALLOWED
         else if t_baseline_sha (tf_task f) \<noteq> baseline then Preflight_Refused BASELINE_MISMATCH
         else (case rv_staged v of None \<Rightarrow> Preflight_Refused PREFLIGHT_FAILED
         | Some staged \<Rightarrow> if nonblank staged then Preflight_Refused STAGED_CHANGES
         else (case rv_status v of None \<Rightarrow> Preflight_Refused PREFLIGHT_FAILED
         | Some ls \<Rightarrow>
            if unexpected_changes (tf_task f) ls \<noteq> [] then Preflight_Refused DIRTY_WORKTREE
            else if \<not> rv_runnable v IMPLEMENTER \<or> \<not> rv_runnable v EVALUATOR
              then Preflight_Refused PREFLIGHT_FAILED
            else if 1 < max_implementation_rounds (tf_task f) \<or> 1 < max_repair_rounds (tf_task f)
              then Preflight_Refused PREFLIGHT_FAILED
            else (case assert_state_directory (rv_repo_id v) baseline (tf_digest f) False (rv_files v) of
                Inl e \<Rightarrow> Preflight_Refused PREFLIGHT_FAILED
              | Inr _ \<Rightarrow> Preflight_Ok baseline f))))))"

text \<open>Everything an admitted run may rely on.\<close>

lemma run_preflight_OkD:
  assumes "run_preflight v = Preflight_Ok baseline f"
  shows "rv_task v = Some f" "TASK_SCHEMA (tf_task f)" "t_baseline_sha (tf_task f) = baseline"
    "rv_head v = Some baseline" "control_plane_changes v = Some []"
    "\<exists>d. assert_state_directory (rv_repo_id v) baseline (tf_digest f) False (rv_files v) = Inr d"
    "\<not> touches_control_plane (allowed_paths (tf_task f))"
    "\<exists>ls. rv_status v = Some ls \<and> unexpected_changes (tf_task f) ls = []"
    "\<exists>x. rv_staged v = Some x \<and> \<not> nonblank x"
  using assms
  by (simp_all add: run_preflight_def split: if_splits option.splits sum.splits)

lemma half_state_refused:
  assumes "(state_json (rv_files v) = Missing) \<noteq> (binding_json (rv_files v) = Missing)"
  shows "\<exists>r. run_preflight v = Preflight_Refused r"
proof (cases "run_preflight v")
  case (Preflight_Ok b f)
  with run_preflight_OkD(6) assms show ?thesis
    by (fastforce simp: assert_state_directory_def Let_def)
qed simp

end
