(* ===== verification/Phases.thy ===== *)
theory Phases
  imports Prelude
begin

text \<open>
  Code that changes a state and may leave it by an exception: a computation returns a halt or a
  value together with the state it leaves. \<open>hoare\<close> is its triple, with one postcondition for
  values and one for halts; the rules of \<open>hoare_rules\<close> follow the code.
\<close>

named_theorems hoare_rules \<open>rules of the triples, one per construct\<close>

section \<open>Computations\<close>

type_synonym ('s, 'e, 'a) computation = "'s \<Rightarrow> ('e + 'a) \<times> 's"

definition result :: "'a \<Rightarrow> ('s, 'e, 'a) computation" where
  "result a s = (Inr a, s)"

definition halt_with :: "'e \<Rightarrow> ('s, 'e, 'a) computation" where
  "halt_with e s = (Inl e, s)"

definition seq :: "('s, 'e, 'a) computation \<Rightarrow> ('a \<Rightarrow> ('s, 'e, 'b) computation) \<Rightarrow> ('s, 'e, 'b) computation" where
  "seq m f s = (case m s of (Inl e, s') \<Rightarrow> (Inl e, s') | (Inr a, s') \<Rightarrow> f a s')"

definition reads :: "('s \<Rightarrow> 'a) \<Rightarrow> ('s, 'e, 'a) computation" where
  "reads f s = (Inr (f s), s)"

definition modifies :: "('s \<Rightarrow> 's) \<Rightarrow> ('s, 'e, unit) computation" where
  "modifies f s = (Inr (), f s)"

text \<open>An exception handler; it decides itself which halts it lets through.\<close>

definition attempt :: "('s, 'e, 'a) computation \<Rightarrow> ('e \<Rightarrow> ('s, 'e, 'a) computation) \<Rightarrow> ('s, 'e, 'a) computation" where
  "attempt m h s = (case m s of (Inl e, s') \<Rightarrow> h e s' | (Inr a, s') \<Rightarrow> (Inr a, s'))"

text \<open>A pure check and a pure refusal.\<close>

definition yield :: "'e + 'a \<Rightarrow> ('s, 'e, 'a) computation" where
  "yield x = (case x of Inl e \<Rightarrow> halt_with e | Inr a \<Rightarrow> result a)"

definition halt_when :: "bool \<Rightarrow> 'e \<Rightarrow> ('s, 'e, unit) computation" where
  "halt_when b e = (if b then halt_with e else result ())"

text \<open>A \<open>for\<close> loop over a sequence.\<close>

primrec each :: "('x \<Rightarrow> ('s, 'e, unit) computation) \<Rightarrow> 'x list \<Rightarrow> ('s, 'e, unit) computation" where
  "each f [] = result ()"
| "each f (x # xs) = seq (f x) (\<lambda>_. each f xs)"

section \<open>Triples\<close>

definition hoare :: "('s \<Rightarrow> bool) \<Rightarrow> ('s, 'e, 'a) computation \<Rightarrow> ('a \<Rightarrow> 's \<Rightarrow> bool) \<Rightarrow> ('e \<Rightarrow> 's \<Rightarrow> bool) \<Rightarrow> bool" where
  "hoare P m Q E = (\<forall>s. P s \<longrightarrow> (case m s of (Inr a, s') \<Rightarrow> Q a s' | (Inl e, s') \<Rightarrow> E e s'))"

lemma hoareI:
  assumes "\<And>s a s'. P s \<Longrightarrow> m s = (Inr a, s') \<Longrightarrow> Q a s'" "\<And>s e s'. P s \<Longrightarrow> m s = (Inl e, s') \<Longrightarrow> E e s'"
  shows "hoare P m Q E"
proof (unfold hoare_def, intro allI impI)
  fix s assume P: "P s"
  obtain x s' where m: "m s = (x, s')" by (cases "m s")
  show "case m s of (Inl e, s') \<Rightarrow> E e s' | (Inr a, s') \<Rightarrow> Q a s'"
    using assms P m by (cases x) auto
qed

lemma hoare_InrD: "hoare P m Q E \<Longrightarrow> m s = (Inr a, s') \<Longrightarrow> P s \<Longrightarrow> Q a s'"
  by (auto simp: hoare_def)

lemma hoare_InlD: "hoare P m Q E \<Longrightarrow> m s = (Inl e, s') \<Longrightarrow> P s \<Longrightarrow> E e s'"
  by (auto simp: hoare_def)

lemma hoare_weaken:
  assumes "hoare P' m Q' E'" "\<And>s. P s \<Longrightarrow> P' s" "\<And>a s. Q' a s \<Longrightarrow> Q a s" "\<And>e s. E' e s \<Longrightarrow> E e s"
  shows "hoare P m Q E"
  by (rule hoareI) (meson assms hoare_InrD hoare_InlD)+

lemma hoare_pre: "hoare P' m Q E \<Longrightarrow> (\<And>s. P s \<Longrightarrow> P' s) \<Longrightarrow> hoare P m Q E"
  by (rule hoare_weaken)

lemma hoare_result [hoare_rules]: "hoare (\<lambda>s. Q a s) (result a) Q E"
  by (simp add: hoare_def result_def)

lemma hoare_halt [hoare_rules]: "hoare (\<lambda>s. E e s) (halt_with e) Q E"
  by (simp add: hoare_def halt_with_def)

lemma hoare_reads [hoare_rules]: "hoare (\<lambda>s. Q (f s) s) (reads f) Q E"
  by (simp add: hoare_def reads_def)

lemma hoare_modifies [hoare_rules]: "hoare (\<lambda>s. Q () (f s)) (modifies f) Q E"
  by (simp add: hoare_def modifies_def)

lemma hoare_seq:
  assumes "hoare P m Q' E" "\<And>a. hoare (Q' a) (f a) Q E"
  shows "hoare P (seq m f) Q E"
proof (unfold hoare_def, intro allI impI)
  fix s assume P: "P s"
  obtain x s' where m: "m s = (x, s')" by (cases "m s")
  show "case seq m f s of (Inl e, s') \<Rightarrow> E e s' | (Inr a, s') \<Rightarrow> Q a s'"
  proof (cases x)
    case (Inl e)
    with m hoare_InlD [OF assms(1) _ P] show ?thesis by (simp add: seq_def)
  next
    case (Inr a)
    with m hoare_InrD [OF assms(1) _ P] assms(2) [of a] show ?thesis by (simp add: seq_def hoare_def)
  qed
qed

lemma hoare_then:
  assumes "hoare P m Q' E'" "\<And>e s. E' e s \<Longrightarrow> E e s" "\<And>a. hoare (Q' a) (f a) Q E"
  shows "hoare P (seq m f) Q E"
  by (rule hoare_seq [where Q' = Q'], rule hoare_weaken [OF assms(1)]) (use assms(2,3) in auto)

lemma hoare_any:
  assumes "\<And>x. R x \<Longrightarrow> hoare (P x) m Q E"
  shows "hoare (\<lambda>s. \<exists>x. R x \<and> P x s) m Q E"
  by (rule hoareI) (meson assms hoare_InrD, meson assms hoare_InlD)

lemma hoare_ex:
  assumes "\<And>x. hoare (P x) m Q E"
  shows "hoare (\<lambda>s. \<exists>x. P x s) m Q E"
  by (rule hoareI) (meson assms hoare_InrD, meson assms hoare_InlD)

lemma hoare_conj:
  assumes "R \<Longrightarrow> hoare P m Q E"
  shows "hoare (\<lambda>s. R \<and> P s) m Q E"
  by (rule hoareI) (meson assms hoare_InrD, meson assms hoare_InlD)

lemma hoare_attempt:
  assumes "hoare P m Q E'" "\<And>e. hoare (E' e) (h e) Q E"
  shows "hoare P (attempt m h) Q E"
proof (unfold hoare_def, intro allI impI)
  fix s assume P: "P s"
  obtain x s' where m: "m s = (x, s')" by (cases "m s")
  show "case attempt m h s of (Inl e, s') \<Rightarrow> E e s' | (Inr a, s') \<Rightarrow> Q a s'"
  proof (cases x)
    case (Inl e)
    with m hoare_InlD [OF assms(1) _ P] assms(2) [of e] show ?thesis by (simp add: attempt_def hoare_def)
  next
    case (Inr a)
    with m hoare_InrD [OF assms(1) _ P] show ?thesis by (simp add: attempt_def)
  qed
qed

lemma hoare_yield [hoare_rules]:
  "hoare (\<lambda>s. case x of Inl e \<Rightarrow> E e s | Inr a \<Rightarrow> Q a s) (yield x) Q E"
  by (cases x) (simp_all add: yield_def hoare_def result_def halt_with_def)

lemma hoare_halt_when [hoare_rules]:
  "hoare (\<lambda>s. if b then E e s else Q () s) (halt_when b e) Q E"
  by (simp add: halt_when_def hoare_def result_def halt_with_def)

lemma hoare_if [hoare_rules]:
  "hoare P m Q E \<Longrightarrow> hoare P' n Q E \<Longrightarrow> hoare (\<lambda>s. if b then P s else P' s) (if b then m else n) Q E"
  by simp

text \<open>A loop with one invariant per number of rounds done.\<close>

lemma hoare_each:
  assumes "\<And>n. n < length xs \<Longrightarrow> hoare (I n) (f (xs ! n)) (\<lambda>_. I (Suc n)) E"
  shows "hoare (I 0) (each f xs) (\<lambda>_. I (length xs)) E"
  using assms
proof (induction xs arbitrary: I)
  case Nil
  show ?case by (simp add: hoare_def result_def)
next
  case (Cons x xs)
  have "hoare (I 0) (f x) (\<lambda>_. I (Suc 0)) E" using Cons.prems [of 0] by simp
  moreover have "hoare (I (Suc 0)) (each f xs) (\<lambda>_. I (Suc (length xs))) E"
    using Cons.IH [of "\<lambda>n. I (Suc n)"] Cons.prems by fastforce
  ultimately show ?case by (simp add: hoare_seq)
qed

end
