(* ===== verification/Agent_Application.thy ===== *)
theory Agent_Application
  imports Acceptance Phases
begin

text \<open>
  Moving an accepted candidate into the operator's checkout
  (\<open>tools/agent_loop/application.py\<close> over \<open>application_transport_posix.py\<close>): the plan of
  moves, the holder with its write-ahead journal, the moves, the verification, the rollback and
  the recovery of a crashed application. A checkout is an association list from path components
  to objects. Every call of the operating system happens at a tick, and \<open>pw_fate\<close> says what it
  does there: it works, it fails, it works but its handle does not close, something unforeseen is
  raised (an interrupt), or the process dies and no handler runs; \<open>pw_write\<close> says the same of
  the writes of the journal. A directory handle stands for
  its path: nobody else renames directories while a call runs.
\<close>

section \<open>Objects and paths\<close>

record file_obj =
  fo_mode :: string
  fo_data :: string

datatype node = File file_obj | Dir | Special

type_synonym checkout = "(string list \<times> node) list"

definition put :: "'k \<Rightarrow> 'v \<Rightarrow> ('k \<times> 'v) list \<Rightarrow> ('k \<times> 'v) list" where
  "put k v xs = (k, v) # filter (\<lambda>p. fst p \<noteq> k) xs"

definition drop_key :: "'k \<Rightarrow> ('k \<times> 'v) list \<Rightarrow> ('k \<times> 'v) list" where
  "drop_key k xs = filter (\<lambda>p. fst p \<noteq> k) xs"

datatype app_error = ApplicationRefused stop_reason | CandidateNotAccepted | MainCheckoutMismatch
  | ApplicationContainment | ConcurrentMainChange | RollbackFailed | ApplicationCleanupFailed
  | ChangeFailure change_error | Unforeseen

datatype app_exit = Died | Raised app_error

text \<open>\<open>_split\<close>, with \<open>validate_child_name\<close>, whose refusal is of another type.\<close>

definition split_path :: "string \<Rightarrow> app_error + string list" where
  "split_path x = (let parts = filter (\<lambda>p. p \<noteq> [] \<and> p \<noteq> ''.'')
         (split_slash (map (\<lambda>c. if c = CHR 0x5C then CHR ''/'' else c) x))
     in if parts = [] \<or> ''..'' \<in> set parts then Inl ApplicationContainment
        else if list_ex (\<lambda>p. CHR 0x00 \<in> set p) parts then Inl Unforeseen
        else Inr parts)"

text \<open>Walking a chain of directories: all there, one missing, or one that is no directory.\<close>

datatype walked = Open | Absent | Blocked

fun walk_dirs :: "(string list \<Rightarrow> node option) \<Rightarrow> string list \<Rightarrow> string list \<Rightarrow> walked" where
  "walk_dirs c pre [] = Open"
| "walk_dirs c pre (n # ns) = (case c (pre @ [n]) of None \<Rightarrow> Absent
     | Some Dir \<Rightarrow> walk_dirs c (pre @ [n]) ns | Some _ \<Rightarrow> Blocked)"

definition max_content_file_bytes :: int where
  "max_content_file_bytes = 67108864"

text \<open>What a name holds for \<open>_file_evidence\<close>: nothing, an ordinary file, or a refusal.\<close>

definition ordinary :: "node option \<Rightarrow> app_error + file_obj option" where
  "ordinary x = (case x of None \<Rightarrow> Inr None
     | Some (File f) \<Rightarrow> if max_content_file_bytes < int (length (fo_data f)) then Inl ApplicationContainment
         else Inr (Some f)
     | Some _ \<Rightarrow> Inl ApplicationContainment)"

definition evidence_at :: "(string list \<Rightarrow> node option) \<Rightarrow> string list \<Rightarrow> app_error + file_obj option" where
  "evidence_at c parts = (case walk_dirs c [] (butlast parts) of Absent \<Rightarrow> Inr None
     | Blocked \<Rightarrow> Inl ApplicationContainment | Open \<Rightarrow> ordinary (c parts))"

section \<open>The journal\<close>

datatype side = REPO_SIDE | HOLD_SIDE

datatype journal_state = REGISTERED | PREPARED | APPLYING | APPLIED | ROLLING_BACK | ROLLED_BACK | J_FAILED

definition ALLOWED_JOURNAL_TRANSITIONS :: "journal_state \<Rightarrow> journal_state list" where
  "ALLOWED_JOURNAL_TRANSITIONS j = (case j of
       REGISTERED \<Rightarrow> [PREPARED, ROLLING_BACK, J_FAILED]
     | PREPARED \<Rightarrow> [APPLYING, ROLLING_BACK, J_FAILED]
     | APPLYING \<Rightarrow> [APPLIED, ROLLING_BACK, J_FAILED]
     | ROLLING_BACK \<Rightarrow> [ROLLED_BACK, J_FAILED]
     | APPLIED \<Rightarrow> [] | ROLLED_BACK \<Rightarrow> [] | J_FAILED \<Rightarrow> [])"

record move =
  mv_index :: nat
  mv_from_side :: side
  mv_from_name :: string
  mv_to_side :: side
  mv_to_name :: string
  mv_sha :: string
  mv_mode :: string

record journal =
  jl_application_id :: string
  jl_repo_id :: string
  jl_run_id :: string
  jl_workspace_id :: string
  jl_baseline_sha :: string
  jl_manifest_digest :: string
  jl_candidate_fingerprint :: string
  jl_state :: journal_state
  jl_created_at :: string
  jl_moves :: "move list"
  jl_directories :: "string list"
  jl_applied_index :: nat

definition is_digit :: "char \<Rightarrow> bool" where
  "is_digit c = (c \<in> set ''0123456789'')"

text \<open>\<open>YYYY-MM-DDTHH:MM:SSZ\<close>, \<open>d\<close> standing for a digit.\<close>

definition is_timestamp :: "string \<Rightarrow> bool" where
  "is_timestamp = dollar (\<lambda>x. list_all2 (\<lambda>p c. if p = CHR ''d'' then is_digit c else c = p)
     ''dddd-dd-ddTdd:dd:ddZ'' x)"

definition MOVE_SCHEMA :: "move \<Rightarrow> bool" where
  "MOVE_SCHEMA m = (mv_from_name m \<noteq> [] \<and> int (length (mv_from_name m)) \<le> 1024
     \<and> mv_to_name m \<noteq> [] \<and> int (length (mv_to_name m)) \<le> 1024
     \<and> is_hex 64 (mv_sha m) \<and> int (length (mv_mode m)) \<le> 16)"

definition JOURNAL_SCHEMA :: "journal \<Rightarrow> bool" where
  "JOURNAL_SCHEMA j = (is_hex 32 (jl_application_id j) \<and> is_hex 32 (jl_repo_id j)
     \<and> is_identifier (jl_run_id j) \<and> is_hex 32 (jl_workspace_id j) \<and> is_hex 40 (jl_baseline_sha j)
     \<and> is_hex 64 (jl_manifest_digest j) \<and> is_hex 64 (jl_candidate_fingerprint j)
     \<and> is_timestamp (jl_created_at j) \<and> int (length (jl_moves j)) \<le> 100000
     \<and> list_all MOVE_SCHEMA (jl_moves j) \<and> int (length (jl_directories j)) \<le> 100000
     \<and> list_all (\<lambda>d. d \<noteq> [] \<and> int (length d) \<le> 1024) (jl_directories j))"

text \<open>Slot names: \<open>f"s{slot:04d}"\<close> and the pattern they are matched against.\<close>

fun decimal :: "nat \<Rightarrow> string" where
  "decimal n = (if n < 10 then [char_of (48 + n)] else decimal (n div 10) @ [char_of (48 + n mod 10)])"

declare decimal.simps [simp del]

definition slot_name :: "char \<Rightarrow> nat \<Rightarrow> string" where
  "slot_name c n = c # replicate (4 - length (decimal n)) (CHR ''0'') @ decimal n"

definition is_slot :: "string \<Rightarrow> bool" where
  "is_slot = dollar (\<lambda>x. length x = 5 \<and> hd x \<in> set ''sb'' \<and> list_all is_digit (tl x))"

section \<open>The disk, and what the operating system does\<close>

text \<open>\<open>dk_payload\<close> is the journal document in memory; the rest is on disk.\<close>

record disk =
  dk_repo :: checkout
  dk_holder :: bool
  dk_journal :: "journal stored"
  dk_slots :: "(string \<times> file_obj) list option"
  dk_payload :: "journal option"
  dk_tick :: nat

datatype fate = Works | Fails | Unclosed | Breaks | Dies

record application_world =
  pw_fate :: "nat \<Rightarrow> fate"
  pw_write :: "nat \<Rightarrow> fate"
  pw_sha :: "string \<Rightarrow> string"
  pw_clean :: "string \<Rightarrow> string \<Rightarrow> string \<Rightarrow> stop_reason + bool"
  pw_reference :: checkout
  pw_implementer :: checkout
  pw_holder :: string
  pw_roots :: "string list"
  pw_gate :: moment
  pw_before :: moment
  pw_after :: moment
  pw_created_at :: string

type_synonym 'a work = "(disk, app_exit, 'a) computation"

definition refuse :: "app_error \<Rightarrow> 'a work" where
  "refuse e = halt_with (Raised e)"

definition checked :: "app_error + 'a \<Rightarrow> 'a work" where
  "checked x = yield (map_sum Raised id x)"

definition fate_of :: "(nat \<Rightarrow> fate) \<Rightarrow> fate work" where
  "fate_of f d = (Inr (f (dk_tick d)), d\<lparr>dk_tick := Suc (dk_tick d)\<rparr>)"

text \<open>One call that changes or reads the disk; its failure is the caller's error.\<close>

definition syscall :: "application_world \<Rightarrow> app_error \<Rightarrow> 'a work \<Rightarrow> 'a work" where
  "syscall w e m = seq (fate_of (pw_fate w)) (\<lambda>x. case x of Works \<Rightarrow> m | Unclosed \<Rightarrow> m | Fails \<Rightarrow> refuse e
     | Breaks \<Rightarrow> refuse Unforeseen | Dies \<Rightarrow> halt_with Died)"

text \<open>One call through a handle of its own, which has to be closed again.\<close>

definition handled :: "application_world \<Rightarrow> app_error \<Rightarrow> 'a work \<Rightarrow> 'a work" where
  "handled w e m = seq (fate_of (pw_fate w)) (\<lambda>x. case x of Works \<Rightarrow> m | Fails \<Rightarrow> refuse e
     | Unclosed \<Rightarrow> seq m (\<lambda>_. refuse ApplicationCleanupFailed)
     | Breaks \<Rightarrow> refuse Unforeseen | Dies \<Rightarrow> halt_with Died)"

text \<open>An \<open>except\<close> clause: it sees every exception, and nothing of a process that died.\<close>

definition on_error :: "'a work \<Rightarrow> (app_error \<Rightarrow> 'a work) \<Rightarrow> 'a work" where
  "on_error m h = attempt m (\<lambda>x. case x of Died \<Rightarrow> halt_with Died | Raised e \<Rightarrow> h e)"

section \<open>Journal writes\<close>

text \<open>
  \<open>write_json_atomically\<close> under \<open>_write_journal\<close>: the schema, then the new file in place of the
  old one; a directory that cannot be synced afterwards is an error too.
\<close>

definition write_journal :: "application_world \<Rightarrow> journal \<Rightarrow> unit work" where
  "write_journal w j = (if \<not> JOURNAL_SCHEMA j then refuse (ApplicationRefused PREFLIGHT_FAILED)
     else seq (fate_of (pw_write w)) (\<lambda>x. case x of
         Works \<Rightarrow> modifies (\<lambda>d. d\<lparr>dk_journal := Holds j\<rparr>)
       | Unclosed \<Rightarrow> seq (modifies (\<lambda>d. d\<lparr>dk_journal := Holds j\<rparr>)) (\<lambda>_. refuse (ApplicationRefused PREFLIGHT_FAILED))
       | Fails \<Rightarrow> refuse (ApplicationRefused PREFLIGHT_FAILED)
       | Breaks \<Rightarrow> refuse Unforeseen | Dies \<Rightarrow> halt_with Died))"

text \<open>
  \<open>_read_journal\<close>. The length of a journal file is not modelled: one beyond the ceiling of 4 MiB
  is refused by the transport, as a read at a tick where \<open>pw_fate\<close> fails.
\<close>

definition read_journal :: "application_world \<Rightarrow> journal work" where
  "read_journal w = handled w ApplicationContainment (seq (reads (\<lambda>d. (dk_holder d, dk_journal d))) (\<lambda>(h, x).
     if \<not> h then refuse ApplicationContainment
     else (case x of Holds j \<Rightarrow> if JOURNAL_SCHEMA j then result j else refuse (ApplicationRefused PREFLIGHT_FAILED)
        | _ \<Rightarrow> refuse (ApplicationRefused PREFLIGHT_FAILED))))"

definition keep_payload :: "journal \<Rightarrow> unit work" where
  "keep_payload j = modifies (\<lambda>d. d\<lparr>dk_payload := Some j\<rparr>)"

definition the_payload :: "journal work" where
  "the_payload = seq (reads dk_payload) (\<lambda>x. case x of None \<Rightarrow> refuse Unforeseen | Some j \<Rightarrow> result j)"

definition advance_journal :: "application_world \<Rightarrow> journal_state \<Rightarrow> unit work" where
  "advance_journal w target = seq the_payload (\<lambda>j.
     if target \<notin> set (ALLOWED_JOURNAL_TRANSITIONS (jl_state j)) then refuse (ApplicationRefused PREFLIGHT_FAILED)
     else seq (write_journal w (j\<lparr>jl_state := target\<rparr>)) (\<lambda>_. keep_payload (j\<lparr>jl_state := target\<rparr>)))"

section \<open>Evidence\<close>

definition repo_evidence :: "application_world \<Rightarrow> string \<Rightarrow> file_obj option work" where
  "repo_evidence w p = seq (checked (split_path p)) (\<lambda>parts. handled w ApplicationContainment
     (seq (reads (\<lambda>d. evidence_at (map_of (dk_repo d)) parts)) checked))"

definition tree_evidence :: "application_world \<Rightarrow> checkout \<Rightarrow> string \<Rightarrow> file_obj option work" where
  "tree_evidence w t p = seq (checked (split_path p)) (\<lambda>parts. handled w ApplicationContainment
     (checked (evidence_at (map_of t) parts)))"

definition slot_lookup :: "(string \<times> file_obj) list option \<Rightarrow> string \<Rightarrow> file_obj option" where
  "slot_lookup ss n = (case ss of None \<Rightarrow> None | Some xs \<Rightarrow> map_of xs n)"

definition slot_evidence :: "application_world \<Rightarrow> string \<Rightarrow> file_obj option work" where
  "slot_evidence w n = handled w ApplicationContainment
     (seq (reads (\<lambda>d. ordinary (map_option File (slot_lookup (dk_slots d) n)))) checked)"

definition evidence_of :: "application_world \<Rightarrow> side \<Rightarrow> string \<Rightarrow> file_obj option work" where
  "evidence_of w sd n = (case sd of HOLD_SIDE \<Rightarrow> if is_slot n then slot_evidence w n else refuse ApplicationContainment
     | REPO_SIDE \<Rightarrow> repo_evidence w n)"

section \<open>The plan\<close>

record plan =
  pl_moves :: "move list"
  pl_staged :: "(string \<times> change) list"
  pl_wanted :: "string list list"

definition clean_equivalent :: "application_world \<Rightarrow> string \<Rightarrow> file_obj \<Rightarrow> file_obj \<Rightarrow> bool work" where
  "clean_equivalent w p current baseline = (case pw_clean w p (fo_data current) (fo_data baseline) of
       Inl reason \<Rightarrow> refuse (ApplicationRefused reason) | Inr b \<Rightarrow> result b)"

definition take_out :: "application_world \<Rightarrow> nat \<Rightarrow> nat \<Rightarrow> change \<Rightarrow> file_obj \<Rightarrow> move" where
  "take_out w slot n c current = \<lparr>mv_index = n, mv_from_side = REPO_SIDE, mv_from_name = path c,
     mv_to_side = HOLD_SIDE, mv_to_name = slot_name (CHR ''b'') slot,
     mv_sha = pw_sha w (fo_data current), mv_mode = fo_mode current\<rparr>"

definition put_in :: "nat \<Rightarrow> nat \<Rightarrow> change \<Rightarrow> move" where
  "put_in slot n c = \<lparr>mv_index = n, mv_from_side = HOLD_SIDE, mv_from_name = slot_name (CHR ''s'') slot,
     mv_to_side = REPO_SIDE, mv_to_name = path c, mv_sha = sha256 c, mv_mode = mode c\<rparr>"

text \<open>One change: what its target must be right now, and its moves.\<close>

definition assert_baseline :: "application_world \<Rightarrow> change \<Rightarrow> file_obj option \<Rightarrow> file_obj option \<Rightarrow> file_obj work" where
  "assert_baseline w c current baseline = (case baseline of None \<Rightarrow> refuse MainCheckoutMismatch
     | Some b \<Rightarrow> (case current of None \<Rightarrow> refuse MainCheckoutMismatch
       | Some f \<Rightarrow> if fo_mode f \<noteq> fo_mode b then refuse MainCheckoutMismatch
           else if pw_sha w (fo_data f) \<noteq> pw_sha w (fo_data b)
             then seq (clean_equivalent w (path c) f b) (\<lambda>same.
                if same then result f else refuse MainCheckoutMismatch)
           else result f))"

definition plan_change :: "application_world \<Rightarrow> nat \<Rightarrow> change \<Rightarrow> plan \<Rightarrow> plan work" where
  "plan_change w slot c p = seq (checked (split_path (path c))) (\<lambda>parts.
     seq (repo_evidence w (path c)) (\<lambda>current. let n = length (pl_moves p) in
     if kind c = ADDED then
       (if current \<noteq> None then refuse MainCheckoutMismatch
        else result (p\<lparr>pl_moves := pl_moves p @ [put_in slot n c],
          pl_staged := pl_staged p @ [(slot_name (CHR ''s'') slot, c)],
          pl_wanted := pl_wanted p @ [butlast parts]\<rparr>))
     else seq (tree_evidence w (pw_reference w) (path c)) (\<lambda>baseline.
       seq (assert_baseline w c current baseline) (\<lambda>f.
         if kind c = MODIFIED
         then result (p\<lparr>pl_moves := pl_moves p @ [take_out w slot n c f, put_in slot (Suc n) c],
           pl_staged := pl_staged p @ [(slot_name (CHR ''s'') slot, c)]\<rparr>)
         else result (p\<lparr>pl_moves := pl_moves p @ [take_out w slot n c f]\<rparr>)))))"

primrec plan_from :: "application_world \<Rightarrow> nat \<Rightarrow> change list \<Rightarrow> plan \<Rightarrow> plan work" where
  "plan_from w slot [] p = result p"
| "plan_from w slot (c # cs) p = seq (plan_change w slot c p) (plan_from w (Suc slot) cs)"

definition plan_moves :: "application_world \<Rightarrow> change list \<Rightarrow> plan work" where
  "plan_moves w cs = plan_from w 0 cs \<lparr>pl_moves = [], pl_staged = [], pl_wanted = []\<rparr>"

section \<open>The parents of added files\<close>

text \<open>\<open>_Tree.directory\<close>: the chain is there, or \<open>create\<close> makes what is absent.\<close>

definition open_chain :: "application_world \<Rightarrow> string list \<Rightarrow> unit work" where
  "open_chain w parts = syscall w ApplicationContainment (seq (reads (\<lambda>d. walk_dirs (map_of (dk_repo d)) [] parts)) (\<lambda>x.
     if x = Open then result () else refuse ApplicationContainment))"

definition make_directory :: "application_world \<Rightarrow> string list \<Rightarrow> unit work" where
  "make_directory w parts = syscall w ApplicationContainment (seq (reads (\<lambda>d. map_of (dk_repo d) parts)) (\<lambda>x.
     case x of Some Dir \<Rightarrow> result () | Some _ \<Rightarrow> refuse ApplicationContainment
     | None \<Rightarrow> seq (modifies (\<lambda>d. d\<lparr>dk_repo := put parts Dir (dk_repo d)\<rparr>)) (\<lambda>_.
         syscall w ApplicationContainment (result ()))))"

definition make_chain :: "application_world \<Rightarrow> string list \<Rightarrow> unit work" where
  "make_chain w parts = each (\<lambda>n. make_directory w (take n parts)) [1..<Suc (length parts)]"

text \<open>\<open>_missing_directories\<close>: outermost first, each asked once.\<close>

record survey =
  sv_asked :: "string list list"
  sv_missing :: "string list list"

definition survey_one :: "application_world \<Rightarrow> string list \<Rightarrow> survey \<Rightarrow> survey work" where
  "survey_one w walked sv = (if walked \<in> set (sv_asked sv) then result sv
     else (let sv' = sv\<lparr>sv_asked := sv_asked sv @ [walked]\<rparr>;
               gone = sv'\<lparr>sv_missing := sv_missing sv @ [walked]\<rparr>
       in if butlast walked \<in> set (sv_missing sv) then result gone
          else seq (open_chain w (butlast walked)) (\<lambda>_. syscall w ApplicationContainment
             (seq (reads (\<lambda>d. map_of (dk_repo d) walked)) (\<lambda>x. case x of None \<Rightarrow> result gone
                | Some Dir \<Rightarrow> result sv' | Some _ \<Rightarrow> refuse ApplicationContainment)))))"

primrec survey_all :: "application_world \<Rightarrow> string list list \<Rightarrow> survey \<Rightarrow> survey work" where
  "survey_all w [] sv = result sv"
| "survey_all w (p # ps) sv = seq (survey_one w p sv) (survey_all w ps)"

definition missing_directories :: "application_world \<Rightarrow> string list list \<Rightarrow> string list list work" where
  "missing_directories w wanted = seq (survey_all w
       (concat (map (\<lambda>parts. map (\<lambda>n. take n parts) [1..<Suc (length parts)]) wanted))
       \<lparr>sv_asked = [], sv_missing = []\<rparr>) (\<lambda>sv. result (sv_missing sv))"

section \<open>Staging\<close>

text \<open>\<open>set_handle_mode\<close>: the permission bits of an octal text, zero meaning no change.\<close>

definition octal_value :: "string \<Rightarrow> nat" where
  "octal_value x = foldl (\<lambda>a c. a * 8 + (of_char c - 48)) 0 x"

fun octal :: "nat \<Rightarrow> string" where
  "octal n = (if n < 8 then [char_of (48 + n)] else octal (n div 8) @ [char_of (48 + n mod 8)])"

declare octal.simps [simp del]

definition set_mode :: "string \<Rightarrow> string \<Rightarrow> app_error + string" where
  "set_mode m old = (if take 2 m \<noteq> ''0o'' then Inr old
     else (let ds = drop 2 m in
       if ds = [] \<or> \<not> list_all (\<lambda>c. c \<in> set ''01234567'') ds then Inl (ApplicationRefused PREFLIGHT_FAILED)
       else (let bits = octal_value ds mod 4096 in Inr (if bits = 0 then old else ''0o'' @ octal bits))))"

definition new_mode :: string where
  "new_mode = ''0o644''"

definition put_slot :: "string \<Rightarrow> file_obj \<Rightarrow> unit work" where
  "put_slot n f = modifies (\<lambda>d. d\<lparr>dk_slots := map_option (put n f) (dk_slots d)\<rparr>)"

definition create_slot :: "application_world \<Rightarrow> string \<Rightarrow> unit work" where
  "create_slot w n = syscall w (ApplicationRefused PREFLIGHT_FAILED) (seq (reads (\<lambda>d. slot_lookup (dk_slots d) n)) (\<lambda>x.
     if x \<noteq> None then refuse (ApplicationRefused PREFLIGHT_FAILED)
     else put_slot n \<lparr>fo_mode = new_mode, fo_data = []\<rparr>))"

definition write_slot :: "application_world \<Rightarrow> string \<Rightarrow> string \<Rightarrow> string \<Rightarrow> unit work" where
  "write_slot w n m content = handled w (ApplicationRefused PREFLIGHT_FAILED)
     (seq (put_slot n \<lparr>fo_mode = new_mode, fo_data = content\<rparr>) (\<lambda>_.
      seq (checked (set_mode m new_mode)) (\<lambda>m'. put_slot n \<lparr>fo_mode = m', fo_data = content\<rparr>)))"

definition stage_one :: "application_world \<Rightarrow> string \<times> change \<Rightarrow> unit work" where
  "stage_one w x = (case x of (n, c) \<Rightarrow>
     seq (tree_evidence w (pw_implementer w) (path c)) (\<lambda>source. case source of
       None \<Rightarrow> refuse ApplicationContainment
     | Some f \<Rightarrow> if pw_sha w (fo_data f) \<noteq> sha256 c then refuse ApplicationContainment
         else seq (create_slot w n) (\<lambda>_. seq (write_slot w n (mode c) (fo_data f)) (\<lambda>_.
           seq (slot_evidence w n) (\<lambda>written. case written of
               None \<Rightarrow> refuse (ApplicationRefused PREFLIGHT_FAILED)
             | Some g \<Rightarrow> if pw_sha w (fo_data g) \<noteq> sha256 c then refuse (ApplicationRefused PREFLIGHT_FAILED)
                 else result ())))))"

section \<open>Executing and undoing a move\<close>

datatype place = In_Repo "string list" | In_Hold string

definition endpoint :: "application_world \<Rightarrow> side \<Rightarrow> string \<Rightarrow> place work" where
  "endpoint w sd n = (case sd of HOLD_SIDE \<Rightarrow> if is_slot n then result (In_Hold n) else refuse ApplicationContainment
     | REPO_SIDE \<Rightarrow> seq (checked (split_path n)) (\<lambda>parts. seq (open_chain w (butlast parts)) (\<lambda>_.
         result (In_Repo parts))))"

fun object_at :: "place \<Rightarrow> disk \<Rightarrow> node option" where
  "object_at (In_Repo parts) d = map_of (dk_repo d) parts"
| "object_at (In_Hold n) d = map_option File (slot_lookup (dk_slots d) n)"

fun link_at :: "place \<Rightarrow> file_obj \<Rightarrow> disk \<Rightarrow> disk" where
  "link_at (In_Repo parts) f d = d\<lparr>dk_repo := put parts (File f) (dk_repo d)\<rparr>"
| "link_at (In_Hold n) f d = d\<lparr>dk_slots := map_option (put n f) (dk_slots d)\<rparr>"

fun unlink_at :: "place \<Rightarrow> disk \<Rightarrow> disk" where
  "unlink_at (In_Repo parts) d = d\<lparr>dk_repo := drop_key parts (dk_repo d)\<rparr>"
| "unlink_at (In_Hold n) d = d\<lparr>dk_slots := map_option (drop_key n) (dk_slots d)\<rparr>"

text \<open>\<open>rename_child\<close> on POSIX: the target name is claimed, then the source name released.\<close>

definition rename_child :: "application_world \<Rightarrow> place \<Rightarrow> place \<Rightarrow> unit work" where
  "rename_child w a b = seq (syscall w ApplicationContainment (seq (reads (\<lambda>d. (object_at a d, object_at b d))) (\<lambda>(x, y).
       case x of Some (File f) \<Rightarrow> if y \<noteq> None then refuse ConcurrentMainChange else modifies (link_at b f)
       | _ \<Rightarrow> refuse ApplicationContainment))) (\<lambda>_.
     syscall w ApplicationContainment (modifies (unlink_at a)))"

definition execute_move :: "application_world \<Rightarrow> move \<Rightarrow> unit work" where
  "execute_move w m = seq (evidence_of w (mv_from_side m) (mv_from_name m)) (\<lambda>ev. case ev of
       None \<Rightarrow> refuse ConcurrentMainChange
     | Some f \<Rightarrow> if pw_sha w (fo_data f) \<noteq> mv_sha m then refuse ConcurrentMainChange
         else seq (endpoint w (mv_from_side m) (mv_from_name m)) (\<lambda>a.
           seq (endpoint w (mv_to_side m) (mv_to_name m)) (rename_child w a)))"

definition reverse_move :: "move \<Rightarrow> move" where
  "reverse_move m = m\<lparr>mv_from_side := mv_to_side m, mv_from_name := mv_to_name m,
     mv_to_side := mv_from_side m, mv_to_name := mv_from_name m\<rparr>"

definition holds_content :: "application_world \<Rightarrow> file_obj option \<Rightarrow> string \<Rightarrow> bool" where
  "holds_content w x sha = (case x of None \<Rightarrow> False | Some f \<Rightarrow> pw_sha w (fo_data f) = sha)"

definition undo :: "application_world \<Rightarrow> move \<Rightarrow> unit work" where
  "undo w m = seq (evidence_of w (mv_to_side m) (mv_to_name m)) (\<lambda>landed.
     if holds_content w landed (mv_sha m) then execute_move w (reverse_move m)
     else seq (evidence_of w (mv_from_side m) (mv_from_name m)) (\<lambda>still.
       if holds_content w still (mv_sha m) then result () else refuse RollbackFailed))"

section \<open>The rollback\<close>

definition has_child :: "checkout \<Rightarrow> string list \<Rightarrow> bool" where
  "has_child c parts = list_ex (\<lambda>(p, x). p \<noteq> [] \<and> butlast p = parts) c"

text \<open>\<open>remove_child_directory\<close>: empty only; a directory somebody filled is left.\<close>

definition remove_directory :: "application_world \<Rightarrow> string list \<Rightarrow> unit work" where
  "remove_directory w parts = seq (open_chain w (butlast parts)) (\<lambda>_. syscall w RollbackFailed
     (seq (reads dk_repo) (\<lambda>c. case map_of c parts of
         Some Dir \<Rightarrow> if has_child c parts then result () else modifies (\<lambda>d. d\<lparr>dk_repo := drop_key parts (dk_repo d)\<rparr>)
       | _ \<Rightarrow> refuse RollbackFailed)))"

definition undo_step :: "application_world \<Rightarrow> move \<Rightarrow> unit work" where
  "undo_step w m = seq (undo w m) (\<lambda>_. seq the_payload (\<lambda>j.
     seq (keep_payload (j\<lparr>jl_applied_index := mv_index m\<rparr>)) (\<lambda>_.
     write_journal w (j\<lparr>jl_applied_index := mv_index m\<rparr>))))"

definition undo_everything :: "application_world \<Rightarrow> move list \<Rightarrow> string list \<Rightarrow> unit work" where
  "undo_everything w ms dirs = seq (each (undo_step w) (rev ms)) (\<lambda>_.
     each (\<lambda>x. seq (checked (split_path x)) (remove_directory w)) (rev dirs))"

definition rollback_failed :: "application_world \<Rightarrow> unit work" where
  "rollback_failed w = seq the_payload (\<lambda>j. seq (write_journal w (j\<lparr>jl_state := J_FAILED\<rparr>)) (\<lambda>_. refuse RollbackFailed))"

definition rollback :: "application_world \<Rightarrow> move list \<Rightarrow> unit work" where
  "rollback w moves = seq (advance_journal w ROLLING_BACK) (\<lambda>_. seq the_payload (\<lambda>j.
     seq (on_error (undo_everything w (take (jl_applied_index j) moves) (jl_directories j)) (\<lambda>_. rollback_failed w)) (\<lambda>_.
     advance_journal w ROLLED_BACK)))"

section \<open>The holder\<close>

definition make_holder :: "application_world \<Rightarrow> unit work" where
  "make_holder w = syscall w (ApplicationRefused PREFLIGHT_FAILED) (seq (reads dk_holder) (\<lambda>h.
     if h then refuse (ApplicationRefused PREFLIGHT_FAILED) else modifies (\<lambda>d. d\<lparr>dk_holder := True\<rparr>)))"

text \<open>\<open>_remove_holder\<close> says whether it worked; a holder it could not remove is left as it is.\<close>

definition remove_holder :: "application_world \<Rightarrow> bool work" where
  "remove_holder w = seq (fate_of (pw_fate w)) (\<lambda>x. case x of
       Works \<Rightarrow> seq (modifies (\<lambda>d. d\<lparr>dk_holder := False, dk_journal := Missing, dk_slots := None\<rparr>)) (\<lambda>_. result True)
     | Fails \<Rightarrow> result False | Unclosed \<Rightarrow> result False
     | Breaks \<Rightarrow> refuse Unforeseen | Dies \<Rightarrow> halt_with Died)"

definition leave :: "application_world \<Rightarrow> app_error \<Rightarrow> 'a work" where
  "leave w e = seq (remove_holder w) (\<lambda>_. refuse e)"

section \<open>One application\<close>

record application_id =
  ai_application_id :: string
  ai_identity :: identity

definition first_journal :: "application_world \<Rightarrow> application_id \<Rightarrow> candidate \<Rightarrow> move list \<Rightarrow> string list list \<Rightarrow> journal" where
  "first_journal w a c ms dirs = \<lparr>jl_application_id = ai_application_id a,
     jl_repo_id = i_repo_id (ai_identity a), jl_run_id = i_run_id (ai_identity a),
     jl_workspace_id = i_workspace_id (ai_identity a), jl_baseline_sha = i_baseline_sha (ai_identity a),
     jl_manifest_digest = i_manifest_digest (ai_identity a), jl_candidate_fingerprint = cd_fingerprint c,
     jl_state = REGISTERED, jl_created_at = pw_created_at w, jl_moves = ms,
     jl_directories = map join_slash dirs, jl_applied_index = 0\<rparr>"

definition open_slots :: "application_world \<Rightarrow> unit work" where
  "open_slots w = syscall w Unforeseen (result ())"

definition register :: "application_world \<Rightarrow> journal \<Rightarrow> unit work" where
  "register w j = seq (write_journal w j) (\<lambda>_. seq (read_journal w) (\<lambda>j'.
     if j' \<noteq> j then refuse (ApplicationRefused PREFLIGHT_FAILED)
     else seq (syscall w Unforeseen (modifies (\<lambda>d. d\<lparr>dk_slots := Some []\<rparr>))) (\<lambda>_.
       syscall w ApplicationContainment (result ()))))"

definition begin_application :: "application_world \<Rightarrow> application_id \<Rightarrow> candidate \<Rightarrow> (plan \<times> string list list) work" where
  "begin_application w a c = seq (plan_moves w (cd_changes c)) (\<lambda>p.
     seq (missing_directories w (pl_wanted p)) (\<lambda>dirs. seq (make_holder w) (\<lambda>_.
     seq (keep_payload (first_journal w a c (pl_moves p) dirs)) (\<lambda>_.
     seq (on_error (register w (first_journal w a c (pl_moves p) dirs)) (leave w)) (\<lambda>_.
     seq (open_slots w) (\<lambda>_. result (p, dirs)))))))"

definition move_step :: "application_world \<Rightarrow> move \<Rightarrow> unit work" where
  "move_step w m = seq the_payload (\<lambda>j. seq (keep_payload (j\<lparr>jl_applied_index := Suc (mv_index m)\<rparr>)) (\<lambda>_.
     seq (write_journal w (j\<lparr>jl_applied_index := Suc (mv_index m)\<rparr>)) (\<lambda>_. execute_move w m)))"

definition move_all :: "application_world \<Rightarrow> plan \<Rightarrow> string list list \<Rightarrow> unit work" where
  "move_all w p dirs = seq (each (stage_one w) (pl_staged p)) (\<lambda>_. seq (advance_journal w PREPARED) (\<lambda>_.
     seq (each (make_chain w) dirs) (\<lambda>_. seq (advance_journal w APPLYING) (\<lambda>_.
     each (move_step w) (pl_moves p)))))"

text \<open>\<open>_verify\<close>: the difference of the checkout, the candidate and the manifest, read again.\<close>

definition change_key :: "change \<Rightarrow> string \<times> change_kind \<times> string" where
  "change_key c = (path c, kind c, sha256 c)"

definition verify_applied :: "(string \<Rightarrow> string) \<Rightarrow> (string \<Rightarrow> string) \<Rightarrow> identity \<Rightarrow> candidate \<Rightarrow> task_file
    \<Rightarrow> string \<times> tree \<Rightarrow> moment \<Rightarrow> app_error option" where
  "verify_applied cf sha i c f before m = (case main_projection m of Inl e \<Rightarrow> Some (ChangeFailure e)
     | Inr now \<Rightarrow> (case main_difference before now of Inl e \<Rightarrow> Some ConcurrentMainChange
       | Inr seen \<Rightarrow> if map change_key seen \<noteq> map change_key (cd_changes c) then Some ConcurrentMainChange
           else (case derive_candidate_changes cf sha i m of Inl e \<Rightarrow> Some ConcurrentMainChange
             | Inr again \<Rightarrow> if cd_fingerprint again \<noteq> cd_fingerprint c then Some ConcurrentMainChange
                 else if manifest_moved f m then Some ConcurrentMainChange else None)))"

definition verify_work :: "application_world \<Rightarrow> (string \<Rightarrow> string) \<Rightarrow> application_id \<Rightarrow> candidate \<Rightarrow> task_file
    \<Rightarrow> string \<times> tree \<Rightarrow> unit work" where
  "verify_work w cf a c f before = syscall w Unforeseen
     (case verify_applied cf (pw_sha w) (ai_identity a) c f before (pw_after w) of
        None \<Rightarrow> result () | Some e \<Rightarrow> refuse e)"

record application_report =
  ar_application_id :: string
  ar_candidate_fingerprint :: string
  ar_applied_files :: "string list"
  ar_added :: nat
  ar_modified :: nat
  ar_deleted :: nat
  ar_rollback_performed :: bool

definition report_of :: "application_id \<Rightarrow> candidate \<Rightarrow> application_report" where
  "report_of a c = \<lparr>ar_application_id = ai_application_id a, ar_candidate_fingerprint = cd_fingerprint c,
     ar_applied_files = map path (cd_changes c), ar_added = count_kind ADDED (cd_changes c),
     ar_modified = count_kind MODIFIED (cd_changes c), ar_deleted = count_kind DELETED (cd_changes c),
     ar_rollback_performed = False\<rparr>"

text \<open>\<open>_assert_holder_outside\<close>: neither inside an authorised root nor above one.\<close>

definition inside :: "string \<Rightarrow> string \<Rightarrow> bool" where
  "inside x r = (x = r \<or> prefix (r @ ''/'') x)"

definition assert_holder_outside :: "string \<Rightarrow> string list \<Rightarrow> bool" where
  "assert_holder_outside h roots = list_all (\<lambda>r. \<not> inside h r \<and> \<not> inside r h) roots"

definition apply_work :: "application_world \<Rightarrow> (string \<Rightarrow> string) \<Rightarrow> application_id \<Rightarrow> candidate \<Rightarrow> task_file
    \<Rightarrow> application_report work" where
  "apply_work w cf a c f = seq (halt_when (\<not> assert_holder_outside (pw_holder w) (pw_roots w))
       (Raised ApplicationContainment)) (\<lambda>_.
     seq (checked (map_sum ChangeFailure id (main_projection (pw_before w)))) (\<lambda>before.
     seq (begin_application w a c) (\<lambda>(p, dirs).
     seq (on_error (seq (move_all w p dirs) (\<lambda>_. seq (verify_work w cf a c f before) (\<lambda>_. advance_journal w APPLIED)))
        (\<lambda>e. seq (rollback w (pl_moves p)) (\<lambda>_. leave w e))) (\<lambda>_.
     seq (remove_holder w) (\<lambda>ok. if ok then result (report_of a c) else refuse ApplicationCleanupFailed)))))"

section \<open>The public seam\<close>

text \<open>The bindings, in order; the manifest, the state directory and the workspace.\<close>

definition bind_application_task :: "identity \<Rightarrow> moment \<Rightarrow> app_error + task_file" where
  "bind_application_task i m = (case m_task m of None \<Rightarrow> Inl (ApplicationRefused PREFLIGHT_FAILED)
     | Some f \<Rightarrow>
        if \<not> tf_regular f then Inl ApplicationContainment
        else if \<not> tf_readable f then Inl (ApplicationRefused PREFLIGHT_FAILED)
        else if tf_digest f \<noteq> i_manifest_digest i then Inl (ApplicationRefused PREFLIGHT_FAILED)
        else if \<not> TASK_SCHEMA (tf_task f) then Inl (ApplicationRefused PREFLIGHT_FAILED)
        else if tf_relative f = None then Inl ApplicationContainment
        else if t_baseline_sha (tf_task f) \<noteq> i_baseline_sha i then Inl (ApplicationRefused PREFLIGHT_FAILED)
        else Inr f)"

definition bind_application_state :: "identity \<Rightarrow> moment \<Rightarrow> app_error + unit" where
  "bind_application_state i m =
     (case assert_binding (i_repo_id i) (i_baseline_sha i) (i_manifest_digest i)
             (Some (i_workspace_id i)) (m_files m) of
        Inl e \<Rightarrow> Inl (ApplicationRefused PREFLIGHT_FAILED)
      | Inr b \<Rightarrow> if b_run_id b \<noteq> i_run_id i then Inl (ApplicationRefused PREFLIGHT_FAILED) else Inr ())"

definition bind_application_workspace :: "moment \<Rightarrow> app_error + unit" where
  "bind_application_workspace m = (case m_workspace m of Inl r \<Rightarrow> Inl (ApplicationRefused r) | Inr x \<Rightarrow> Inr ())"

text \<open>The second read of the manifest, which nothing guards against an unreadable file.\<close>

definition reread_task :: "task_file \<Rightarrow> moment \<Rightarrow> app_error + unit" where
  "reread_task f m = (case m_task m of None \<Rightarrow> Inl Unforeseen
     | Some g \<Rightarrow> if \<not> tf_readable g then Inl Unforeseen
         else if tf_digest g \<noteq> tf_digest f then Inl ConcurrentMainChange else Inr ())"

definition application_gates :: "(string \<Rightarrow> string) \<Rightarrow> (string \<Rightarrow> string) \<Rightarrow> identity \<Rightarrow> moment \<Rightarrow> moment
    \<Rightarrow> verified_change_set \<Rightarrow> report \<Rightarrow> receipt option \<Rightarrow> app_error + task_file \<times> candidate" where
  "application_gates cf sha i m m' v rp rec =
     (if \<not> exact_identity i then Inl (ApplicationRefused PREFLIGHT_FAILED)
      else (case bind_application_task i m of Inl e \<Rightarrow> Inl e | Inr f \<Rightarrow>
      (case bind_application_state i m of Inl e \<Rightarrow> Inl e | Inr _ \<Rightarrow>
      (case bind_application_workspace m of Inl e \<Rightarrow> Inl e | Inr _ \<Rightarrow>
      (case derive_candidate_changes cf sha i m of Inl e \<Rightarrow> Inl (ApplicationRefused (change_reason e))
       | Inr c \<Rightarrow>
          if assert_candidate i v c \<noteq> None then Inl CandidateNotAccepted
          else if \<not> assert_report cf sha i rp c then Inl CandidateNotAccepted
          else if \<not> assert_receipt cf sha i rp c rec then Inl CandidateNotAccepted
          else if cd_changes c = [] then Inl (ApplicationRefused PREFLIGHT_FAILED)
          else (case reread_task f m' of Inl e \<Rightarrow> Inl e | Inr _ \<Rightarrow> Inr (f, c)))))))"

definition apply_accepted_candidate :: "application_world \<Rightarrow> (string \<Rightarrow> string) \<Rightarrow> application_id
    \<Rightarrow> verified_change_set \<Rightarrow> report \<Rightarrow> receipt option \<Rightarrow> application_report work" where
  "apply_accepted_candidate w cf a v rp rec = seq (checked (application_gates cf (pw_sha w) (ai_identity a)
       (pw_gate w) (pw_before w) v rp rec)) (\<lambda>(f, c). apply_work w cf a c f)"

text \<open>What a caller sees of a refusal: the class and its closed reason.\<close>

fun application_failure :: "app_error \<Rightarrow> failure" where
  "application_failure (ApplicationRefused r) = plain_failure ''application'' ''ApplicationRefused'' (Some r)"
| "application_failure CandidateNotAccepted = plain_failure ''application'' ''CandidateNotAccepted'' (Some PATH_NOT_ALLOWED)"
| "application_failure MainCheckoutMismatch = plain_failure ''application'' ''MainCheckoutMismatch'' (Some PATH_NOT_ALLOWED)"
| "application_failure ApplicationContainment = plain_failure ''application'' ''ApplicationContainment'' (Some PATH_NOT_ALLOWED)"
| "application_failure ConcurrentMainChange = plain_failure ''application'' ''ConcurrentMainChange'' (Some DIRTY_WORKTREE)"
| "application_failure RollbackFailed = plain_failure ''application'' ''RollbackFailed'' (Some MODEL_PROCESS_FAILED)"
| "application_failure ApplicationCleanupFailed = plain_failure ''application'' ''ApplicationCleanupFailed'' (Some MODEL_PROCESS_FAILED)"
| "application_failure (ChangeFailure e) = change_failure e"
| "application_failure Unforeseen = plain_failure ''builtins'' ''Exception'' None"

section \<open>Crash recovery\<close>

record recovery_report =
  rc_application_id :: string
  rc_state :: journal_state
  rc_rolled_back :: bool

definition open_recovery :: "application_world \<Rightarrow> unit work" where
  "open_recovery w = syscall w ApplicationContainment (seq (reads dk_slots) (\<lambda>s.
     if s = None then refuse ApplicationContainment else result ()))"

definition recover_work :: "application_world \<Rightarrow> string \<Rightarrow> string \<Rightarrow> recovery_report work" where
  "recover_work w repo_id aid = seq (reads dk_holder) (\<lambda>h.
     if \<not> h then refuse (ApplicationRefused PREFLIGHT_FAILED)
     else seq (read_journal w) (\<lambda>j.
       if jl_application_id j \<noteq> aid \<or> jl_repo_id j \<noteq> repo_id then refuse ApplicationContainment
       else if jl_state j = APPLIED \<or> jl_state j = ROLLED_BACK
         then result \<lparr>rc_application_id = aid, rc_state = jl_state j, rc_rolled_back = False\<rparr>
       else seq (open_recovery w) (\<lambda>_.
         seq (keep_payload (if jl_state j = J_FAILED then j\<lparr>jl_state := APPLYING\<rparr> else j)) (\<lambda>_.
         seq (rollback w (jl_moves j)) (\<lambda>_. seq (remove_holder w) (\<lambda>ok.
         if ok then result \<lparr>rc_application_id = aid, rc_state = ROLLED_BACK, rc_rolled_back = True\<rparr>
         else refuse ApplicationCleanupFailed))))))"

text \<open>\<open>find_pending_applications\<close>, over the holders that are there in the order of their names.\<close>

definition pending_applications :: "string \<Rightarrow> (string \<times> journal option) list \<Rightarrow> string list" where
  "pending_applications repo_id holders = map fst (filter (\<lambda>(aid, x). is_hex 32 aid \<and> (case x of None \<Rightarrow> False
     | Some j \<Rightarrow> JOURNAL_SCHEMA j \<and> jl_repo_id j = repo_id \<and> jl_application_id j = aid
         \<and> jl_state j \<noteq> APPLIED \<and> jl_state j \<noteq> ROLLED_BACK)) holders)"

section \<open>What the gates prove\<close>

lemma application_gates_InrD:
  assumes "application_gates cf sha i m m' v rp rec = Inr (f, c)"
  shows "derive_candidate_changes cf sha i m = Inr c \<and> bind_task i m = Inr f
     \<and> authorized cf f (cd_changes c) = Inr () \<and> cd_changes c \<noteq> [] \<and> assert_candidate i v c = None
     \<and> assert_report cf sha i rp c \<and> assert_receipt cf sha i rp c rec"
proof -
  from assms have gates: "bind_application_task i m = Inr f" "derive_candidate_changes cf sha i m = Inr c"
    "cd_changes c \<noteq> []" "assert_candidate i v c = None" "assert_report cf sha i rp c" "assert_receipt cf sha i rp c rec"
    by (auto simp: application_gates_def split: sum.splits if_splits)
  from gates(2) obtain g rt it where g: "open_call i m = Inr (g, rt, it)" "authorized cf g (cd_changes c) = Inr ()"
    by (auto simp: derive_candidate_changes_def split: sum.splits)
  have "g = f"
    using gates(1) open_call_InrD(1) [OF g(1)]
    by (auto simp: bind_application_task_def bind_task_def split: option.splits if_splits)
  with gates g open_call_InrD(1) show ?thesis by blast
qed

lemma apply_accepted_InrD:
  assumes "apply_accepted_candidate w cf a v rp rec d = (Inr rep, d')"
  shows "\<exists>f c. application_gates cf (pw_sha w) (ai_identity a) (pw_gate w) (pw_before w) v rp rec = Inr (f, c)
     \<and> apply_work w cf a c f d = (Inr rep, d')"
proof (cases "application_gates cf (pw_sha w) (ai_identity a) (pw_gate w) (pw_before w) v rp rec")
  case (Inl e)
  with assms show ?thesis by (simp add: apply_accepted_candidate_def seq_def checked_def yield_def halt_with_def)
next
  case (Inr x)
  then show ?thesis using assms
    by (cases x) (auto simp: apply_accepted_candidate_def seq_def checked_def yield_def result_def)
qed

end
