(* ===== verification/Agent_Holders.thy ===== *)
theory Agent_Holders
  imports Agent_Application
begin

text \<open>
  What every run and every \<open>resume\<close> does first (\<open>_recover_applications\<close> of \<open>tools/agent_loop/runner.py\<close>
  over \<open>find_pending_applications\<close> of \<open>application.py\<close>): every crashed application of the repository is
  taken back before anything else looks at the checkout. A repository has one checkout and any number
  of holders, each with its journal and its slots; an operation on one application sees the checkout and
  its own holder. The lemmas say that such a pass reports the pending applications, that none of them
  has a holder afterwards, and that it changes nothing when none is pending.
\<close>

section \<open>A repository and its holders\<close>

record holder =
  ho_journal :: "journal stored"
  ho_slots :: "(string \<times> file_obj) list option"

record repo_disk =
  rd_repo :: checkout
  rd_holders :: "(string \<times> holder) list"
  rd_tick :: nat

type_synonym 'a recovery = "(repo_disk, app_exit, 'a) computation"

definition holder_disk :: "string \<Rightarrow> repo_disk \<Rightarrow> disk" where
  "holder_disk aid y = (case map_of (rd_holders y) aid of
       None \<Rightarrow> \<lparr>dk_repo = rd_repo y, dk_holder = False, dk_journal = Missing, dk_slots = None,
         dk_payload = None, dk_tick = rd_tick y\<rparr>
     | Some h \<Rightarrow> \<lparr>dk_repo = rd_repo y, dk_holder = True, dk_journal = ho_journal h, dk_slots = ho_slots h,
         dk_payload = None, dk_tick = rd_tick y\<rparr>)"

definition keep_holder :: "string \<Rightarrow> disk \<Rightarrow> repo_disk \<Rightarrow> repo_disk" where
  "keep_holder aid d y = \<lparr>rd_repo = dk_repo d,
     rd_holders = (if dk_holder d
       then map (\<lambda>(i, h). (i, if i = aid then \<lparr>ho_journal = dk_journal d, ho_slots = dk_slots d\<rparr> else h)) (rd_holders y)
       else drop_key aid (rd_holders y)),
     rd_tick = dk_tick d\<rparr>"

definition in_holder :: "string \<Rightarrow> 'a work \<Rightarrow> 'a recovery" where
  "in_holder aid m y = (case m (holder_disk aid y) of (x, d) \<Rightarrow> (x, keep_holder aid d y))"

section \<open>The applications that did not finish\<close>

text \<open>\<open>except ApplicationError\<close>: its subclasses, and nothing else.\<close>

fun application_error :: "app_exit \<Rightarrow> bool" where
  "application_error Died = False"
| "application_error (Raised (ChangeFailure e)) = False"
| "application_error (Raised Unforeseen) = False"
| "application_error (Raised e) = True"

definition unless_refused :: "'a recovery \<Rightarrow> 'a option recovery" where
  "unless_refused m = attempt (seq m (\<lambda>a. result (Some a)))
     (\<lambda>x. if application_error x then result None else halt_with x)"

primrec read_holders :: "application_world \<Rightarrow> string list \<Rightarrow> (string \<times> journal option) list recovery" where
  "read_holders w [] = result []"
| "read_holders w (aid # aids) = seq (if is_hex 32 aid then unless_refused (in_holder aid (read_journal w)) else result None)
     (\<lambda>j. seq (read_holders w aids) (\<lambda>xs. result ((aid, j) # xs)))"

text \<open>The names of the holders, in order; an application root that cannot be listed holds nothing.\<close>

definition scan_holders :: "application_world \<Rightarrow> string list recovery" where
  "scan_holders w = seq (reads (\<lambda>y. pw_fate w (rd_tick y))) (\<lambda>x. seq (modifies (\<lambda>y. y\<lparr>rd_tick := Suc (rd_tick y)\<rparr>)) (\<lambda>_.
     case x of Fails \<Rightarrow> result [] | Breaks \<Rightarrow> halt_with (Raised Unforeseen) | Dies \<Rightarrow> halt_with Died
     | _ \<Rightarrow> reads (\<lambda>y. sort (map fst (rd_holders y)))))"

definition find_pending_applications :: "application_world \<Rightarrow> string \<Rightarrow> string list recovery" where
  "find_pending_applications w repo_id = seq (scan_holders w) (\<lambda>aids. seq (read_holders w aids) (\<lambda>xs.
     result (pending_applications repo_id xs)))"

section \<open>Recovering them\<close>

primrec recover_each :: "application_world \<Rightarrow> string \<Rightarrow> string list \<Rightarrow> string list recovery" where
  "recover_each w repo_id [] = result []"
| "recover_each w repo_id (aid # aids) = seq (in_holder aid (recover_work w repo_id aid)) (\<lambda>rep.
     seq (recover_each w repo_id aids) (\<lambda>ids. result (rc_application_id rep # ids)))"

definition recover_applications :: "application_world \<Rightarrow> string \<Rightarrow> string list recovery" where
  "recover_applications w repo_id = seq (find_pending_applications w repo_id) (recover_each w repo_id)"

section \<open>What a pass leaves\<close>

lemma map_of_keep_holder:
  "map_of (rd_holders (keep_holder aid d y)) i = (if i = aid
     then (if dk_holder d then map_option (\<lambda>_. \<lparr>ho_journal = dk_journal d, ho_slots = dk_slots d\<rparr>) (map_of (rd_holders y) aid) else None)
     else map_of (rd_holders y) i)"
proof (cases "dk_holder d")
  case True
  have "map_of (map (\<lambda>(k, h). (k, if k = aid then v else h)) xs) i
     = (if i = aid then map_option (\<lambda>_. v) (map_of xs aid) else map_of xs i)" for v :: holder and xs
    by (induction xs) auto
  with True show ?thesis by (simp add: keep_holder_def)
next
  case False
  have "map_of (drop_key aid xs) i = (if i = aid then None else map_of xs i)" for xs :: "(string \<times> holder) list"
    by (induction xs) (auto simp: drop_key_def)
  with False show ?thesis by (simp add: keep_holder_def)
qed

lemma read_journal_keeps:
  "read_journal w d = (x, d') \<Longrightarrow> d' = d\<lparr>dk_tick := Suc (dk_tick d)\<rparr> \<and> (\<forall>j. x = Inr j \<longrightarrow> dk_holder d \<and> dk_journal d = Holds j)"
  by (auto simp: read_journal_def handled_def seq_def fate_of_def reads_def refuse_def halt_with_def result_def
      split: fate.splits if_splits stored.splits)

text \<open>Reading the journals changes no holder, and what is pending has a journal that is not closed.\<close>

definition unclosed :: "repo_disk \<Rightarrow> string \<Rightarrow> bool" where
  "unclosed y aid = (\<forall>h j. map_of (rd_holders y) aid = Some h \<longrightarrow> ho_journal h = Holds j \<longrightarrow> jl_state j \<noteq> APPLIED \<and> jl_state j \<noteq> ROLLED_BACK)"

lemma read_in_holder:
  assumes "in_holder aid (read_journal w) y = (x, y')"
  shows "(\<forall>i. map_of (rd_holders y') i = map_of (rd_holders y) i) \<and> rd_repo y' = rd_repo y
     \<and> (\<forall>j. x = Inr j \<longrightarrow> (\<exists>h. map_of (rd_holders y) aid = Some h \<and> ho_journal h = Holds j))"
proof -
  obtain d where r: "read_journal w (holder_disk aid y) = (x, d)" "y' = keep_holder aid d y"
    using assms by (auto simp: in_holder_def split: prod.splits)
  note k = read_journal_keeps [OF r(1)]
  show ?thesis
    by (cases "map_of (rd_holders y) aid") (use k in \<open>auto simp: r(2) map_of_keep_holder holder_disk_def\<close>, simp_all add: keep_holder_def)
qed

lemma unless_refused_read:
  assumes "unless_refused (in_holder aid (read_journal w)) y = (x, y')"
  shows "(\<forall>i. map_of (rd_holders y') i = map_of (rd_holders y) i) \<and> rd_repo y' = rd_repo y
     \<and> (\<forall>j. x = Inr (Some j) \<longrightarrow> (\<exists>h. map_of (rd_holders y) aid = Some h \<and> ho_journal h = Holds j))"
proof -
  obtain z y1 where r: "in_holder aid (read_journal w) y = (z, y1)" by fastforce
  then have "y' = y1 \<and> (\<forall>j. x = Inr (Some j) \<longrightarrow> z = Inr j)" using assms
    by (cases z) (auto simp: unless_refused_def attempt_def seq_def result_def halt_with_def split: if_splits)
  with read_in_holder [OF r] show ?thesis by auto
qed

lemma read_holders_keeps:
  assumes "read_holders w aids y = (x, y')"
  shows "(\<forall>i. map_of (rd_holders y') i = map_of (rd_holders y) i) \<and> rd_repo y' = rd_repo y
     \<and> (\<forall>xs. x = Inr xs \<longrightarrow> map fst xs = aids
         \<and> (\<forall>aid j. (aid, Some j) \<in> set xs \<longrightarrow> (\<exists>h. map_of (rd_holders y) aid = Some h \<and> ho_journal h = Holds j)))"
  using assms
proof (induction aids arbitrary: x y y')
  case Nil
  then show ?case by (auto simp: result_def)
next
  case (Cons aid aids)
  let ?m = "if is_hex 32 aid then unless_refused (in_holder aid (read_journal w)) else result None"
  obtain z y1 where one: "?m y = (z, y1)" by fastforce
  have kept: "(\<forall>i. map_of (rd_holders y1) i = map_of (rd_holders y) i) \<and> rd_repo y1 = rd_repo y
     \<and> (\<forall>j. z = Inr (Some j) \<longrightarrow> (\<exists>h. map_of (rd_holders y) aid = Some h \<and> ho_journal h = Holds j))"
    using one unless_refused_read [of aid w y z y1] by (auto simp: result_def split: if_splits)
  show ?case
  proof (cases z)
    case (Inl e)
    with Cons.prems one kept show ?thesis by (auto simp: seq_def split: if_splits)
  next
    case (Inr j)
    obtain u y2 where rest: "read_holders w aids y1 = (u, y2)" by fastforce
    from Cons.IH [OF rest] kept Cons.prems one rest Inr show ?thesis
      by (cases u) (auto simp: seq_def result_def simp del: if_split)
  qed
qed

lemma find_pending_keeps:
  assumes "find_pending_applications w repo_id y = (x, y')"
  shows "(\<forall>i. map_of (rd_holders y') i = map_of (rd_holders y) i) \<and> rd_repo y' = rd_repo y
     \<and> (\<forall>aids. x = Inr aids \<longrightarrow> (\<forall>aid\<in>set aids. unclosed y aid))"
proof -
  obtain z y1 where scan: "scan_holders w y = (z, y1)" by fastforce
  then have same: "rd_holders y1 = rd_holders y \<and> rd_repo y1 = rd_repo y"
    by (auto simp: scan_holders_def seq_def reads_def modifies_def result_def halt_with_def split: fate.splits)
  show ?thesis
  proof (cases z)
    case (Inl e)
    with assms scan same show ?thesis by (auto simp: find_pending_applications_def seq_def)
  next
    case (Inr names)
    obtain u y2 where read: "read_holders w names y1 = (u, y2)" by fastforce
    from read_holders_keeps [OF this] assms scan Inr same read show ?thesis
      by (cases u) (fastforce simp: find_pending_applications_def seq_def result_def pending_applications_def unclosed_def
          split: option.splits)+
  qed
qed

text \<open>A recovery that returns has removed the holder of an application that was not finished.\<close>

lemma hoare_if_any:
  assumes "hoare P m Q (\<lambda>_ _. True)"
  shows "hoare P (if b then refuse e else m) Q (\<lambda>_ _. True)"
  using assms by (simp add: hoare_def refuse_def halt_with_def)

lemma hoare_recover_removes:
  assumes "jl_state j \<noteq> APPLIED" "jl_state j \<noteq> ROLLED_BACK"
  shows "hoare (\<lambda>d. dk_journal d = Holds j) (recover_work w repo_id aid)
     (\<lambda>rep d. rc_application_id rep = aid \<and> \<not> dk_holder d) (\<lambda>_ _. True)"
proof -
  let ?Q = "\<lambda>rep d. rc_application_id rep = aid \<and> \<not> dk_holder d"
  have ends: "hoare (\<lambda>_. True) (seq (remove_holder w) (\<lambda>ok.
         if ok then result \<lparr>rc_application_id = aid, rc_state = ROLLED_BACK, rc_rolled_back = True\<rparr>
         else refuse ApplicationCleanupFailed)) ?Q (\<lambda>_ _. True)"
    by (auto simp: hoare_def seq_def remove_holder_def fate_of_def modifies_def result_def refuse_def halt_with_def
        split: fate.splits)
  have any: "hoare (\<lambda>_. True) m (\<lambda>_ _. True) (\<lambda>_ _. True)" for m :: "'a work"
    by (auto simp: hoare_def split: prod.splits sum.splits)
  have rest: "hoare (\<lambda>d. dk_journal d = Holds j \<and> i = j) (if jl_application_id i \<noteq> aid \<or> jl_repo_id i \<noteq> repo_id then refuse ApplicationContainment
       else if jl_state i = APPLIED \<or> jl_state i = ROLLED_BACK
         then result \<lparr>rc_application_id = aid, rc_state = jl_state i, rc_rolled_back = False\<rparr>
       else seq (open_recovery w) (\<lambda>_.
         seq (keep_payload (if jl_state i = J_FAILED then i\<lparr>jl_state := APPLYING\<rparr> else i)) (\<lambda>_.
         seq (rollback w (jl_moves i)) (\<lambda>_. seq (remove_holder w) (\<lambda>ok.
         if ok then result \<lparr>rc_application_id = aid, rc_state = ROLLED_BACK, rc_rolled_back = True\<rparr>
         else refuse ApplicationCleanupFailed))))) ?Q (\<lambda>_ _. True)" for i
  proof (cases "i = j")
    case True
    have "hoare (\<lambda>_. True) (seq (open_recovery w) (\<lambda>_.
         seq (keep_payload k) (\<lambda>_. seq (rollback w (jl_moves i)) (\<lambda>_. seq (remove_holder w) (\<lambda>ok.
         if ok then result \<lparr>rc_application_id = aid, rc_state = ROLLED_BACK, rc_rolled_back = True\<rparr>
         else refuse ApplicationCleanupFailed))))) ?Q (\<lambda>_ _. True)" for k
      by (rule hoare_seq [OF any], rule hoare_seq [OF any], rule hoare_seq [OF any], rule ends)
    then show ?thesis using assms True
      by (auto simp: hoare_def refuse_def halt_with_def split: prod.splits sum.splits)
  qed (simp add: hoare_def)
  have read: "hoare (\<lambda>d. dk_journal d = Holds j) (read_journal w) (\<lambda>i d. dk_journal d = Holds j \<and> i = j) (\<lambda>_ _. True)"
  proof (rule hoareI)
    fix d i d' assume "dk_journal d = Holds j" "read_journal w d = (Inr i, d')"
    with read_journal_keeps [OF this(2)] show "dk_journal d' = Holds j \<and> i = j" by auto
  qed simp
  have held: "hoare (\<lambda>d. dk_journal d = Holds j) (reads dk_holder) (\<lambda>_ d. dk_journal d = Holds j) (\<lambda>_ _. True)"
    by (simp add: hoare_def reads_def)
  show ?thesis unfolding recover_work_def
    by (rule hoare_seq [OF held], rule hoare_if_any) (rule hoare_seq [OF read rest])
qed

lemma recover_each_gone:
  assumes "recover_each w repo_id aids y = (Inr ids, y')" "\<forall>aid\<in>set aids. unclosed y aid"
  shows "ids = aids \<and> (\<forall>aid\<in>set aids. map_of (rd_holders y') aid = None)
     \<and> (\<forall>i. i \<notin> set aids \<longrightarrow> map_of (rd_holders y') i = map_of (rd_holders y) i)"
  using assms
proof (induction aids arbitrary: ids y)
  case Nil
  then show ?case by (simp add: result_def)
next
  case (Cons aid aids)
  from Cons.prems(1) obtain rep y1 xs where r: "in_holder aid (recover_work w repo_id aid) y = (Inr rep, y1)"
    "recover_each w repo_id aids y1 = (Inr xs, y')" "ids = rc_application_id rep # xs"
    by (auto simp: seq_def result_def split: prod.splits sum.splits)
  from r(1) obtain d where d: "recover_work w repo_id aid (holder_disk aid y) = (Inr rep, d)" "y1 = keep_holder aid d y"
    by (auto simp: in_holder_def split: prod.splits)
  obtain j where j: "dk_journal (holder_disk aid y) = Holds j" "dk_holder (holder_disk aid y)"
    using d(1) read_journal_keeps by (fastforce simp: recover_work_def seq_def reads_def refuse_def halt_with_def
        split: if_splits prod.splits sum.splits)
  then obtain h where h: "map_of (rd_holders y) aid = Some h" "ho_journal h = Holds j"
    by (auto simp: holder_disk_def split: option.splits)
  with Cons.prems(2) have "jl_state j \<noteq> APPLIED" "jl_state j \<noteq> ROLLED_BACK" by (auto simp: unclosed_def)
  from hoare_InrD [OF hoare_recover_removes [OF this] d(1) j(1)]
  have gone: "rc_application_id rep = aid" "map_of (rd_holders y1) aid = None"
    and kept: "\<And>i. i \<noteq> aid \<Longrightarrow> map_of (rd_holders y1) i = map_of (rd_holders y) i"
    by (auto simp: d(2) map_of_keep_holder)
  have "\<forall>i\<in>set aids. unclosed y1 i"
  proof
    fix i assume "i \<in> set aids"
    then show "unclosed y1 i" using Cons.prems(2) gone(2) kept by (cases "i = aid") (auto simp: unclosed_def)
  qed
  from Cons.IH [OF r(2) this] gone kept show ?case by (auto simp: r(3))
qed

lemma recovered_are_gone:
  assumes "recover_applications w repo_id y = (Inr ids, y')"
  shows "\<forall>aid\<in>set ids. map_of (rd_holders y') aid = None"
proof -
  obtain aids y1 where p: "find_pending_applications w repo_id y = (Inr aids, y1)" "recover_each w repo_id aids y1 = (Inr ids, y')"
    using assms by (auto simp: recover_applications_def seq_def split: prod.splits sum.splits)
  from find_pending_keeps [OF p(1)] have "\<forall>aid\<in>set aids. unclosed y1 aid" by (simp add: unclosed_def)
  from recover_each_gone [OF p(2) this] show ?thesis by simp
qed

lemma recover_no_holders:
  "rd_holders y = [] \<Longrightarrow> pw_fate w (rd_tick y) = Works \<Longrightarrow> recover_applications w repo_id y = (Inr [], y\<lparr>rd_tick := Suc (rd_tick y)\<rparr>)"
  by (simp add: recover_applications_def find_pending_applications_def scan_holders_def seq_def reads_def modifies_def
      result_def pending_applications_def)

end
