(* ===== verification/Agent_Runner.thy ===== *)
theory Agent_Runner
  imports Acceptance Agent_Preflight Agent_Holders
begin

text \<open>
  The bounded agent loop (\<open>tools/agent_loop/runner.py\<close>) with its journal and findings artefact
  (\<open>tools/agent_loop/runner_events.py\<close>). A phase is a function from the run to a result and the
  run it leaves: a halt (an orderly stop, an interruption, an exception that leaves the module)
  or a value. What the outside does is a \<open>world\<close>: a function of the tick, the number of outside
  interactions so far, so every order of answers is covered. The ledger \<open>rn_calls\<close> and the
  disks of the application, \<open>rn_checkout\<close>, are ghosts: each
  records the calls of the seams and is read by no operation.
\<close>

section \<open>Stops\<close>

record diagnostics =
  dx_failure_code :: "failure_code option"
  dx_role :: "role option"
  dx_exit_code :: "int option"
  dx_duration_ms :: "int option"
  dx_stdout_bytes :: "int option"
  dx_stderr_bytes :: "int option"
  dx_cleanup_complete :: "bool option"
  dx_schema_issue :: "schema_issue option"
  dx_schema_field :: "schema_field option"

definition no_diagnostics :: diagnostics where
  "no_diagnostics = \<lparr>dx_failure_code = None, dx_role = None, dx_exit_code = None,
     dx_duration_ms = None, dx_stdout_bytes = None, dx_stderr_bytes = None,
     dx_cleanup_complete = None, dx_schema_issue = None, dx_schema_field = None\<rparr>"

record stop =
  st_reason :: stop_reason
  st_state :: agent_state
  st_surviving :: nat
  st_pending :: "human_gate list"
  st_event :: "event_code option"
  st_diagnostics :: diagnostics

definition stop_with :: "stop_reason \<Rightarrow> agent_state \<Rightarrow> stop" where
  "stop_with r s = \<lparr>st_reason = r, st_state = s, st_surviving = 0, st_pending = [],
     st_event = None, st_diagnostics = no_diagnostics\<rparr>"

datatype halt = Stopped stop | Interrupted agent_state | Escaped

definition FAILED_REASONS :: "stop_reason list" where
  "FAILED_REASONS = [MODEL_PROCESS_FAILED, SCHEMA_VIOLATION, EVALUATOR_MODIFIED_WORKSPACE,
     PATH_NOT_ALLOWED, CONTROL_PLANE_MODIFIED, TIMEOUT]"

definition terminal_for :: "stop_reason \<Rightarrow> agent_state" where
  "terminal_for r = (if r \<in> set FAILED_REASONS then FAILED else BLOCKED)"

definition EVENT_FOR_REASON :: "(stop_reason \<times> event_code) list" where
  "EVENT_FOR_REASON = [(PREFLIGHT_FAILED, Ev_PREFLIGHT_FAILED), (SCHEMA_VIOLATION, Ev_SCHEMA_VIOLATION),
     (MODEL_PROCESS_FAILED, Ev_MODEL_CALL_FINISHED), (CONTROL_PLANE_MODIFIED, Ev_CONTROL_PLANE_MODIFIED),
     (EVALUATOR_MODIFIED_WORKSPACE, Ev_EVALUATOR_MODIFIED_WORKSPACE), (TIMEOUT, Ev_INTERRUPTED),
     (INTERRUPTED, Ev_INTERRUPTED), (BUDGET_EXHAUSTED, Ev_BUDGET_CHECK)]"

definition diagnose :: "failure \<Rightarrow> diagnostics" where
  "diagnose f = \<lparr>dx_failure_code = map_of FAILURE_CODES (f_module f, f_class f), dx_role = f_role f,
     dx_exit_code = f_exit_code f, dx_duration_ms = f_duration_ms f,
     dx_stdout_bytes = f_stdout_bytes f, dx_stderr_bytes = f_stderr_bytes f,
     dx_cleanup_complete = f_cleanup_complete f, dx_schema_issue = f_schema_issue f,
     dx_schema_field = f_schema_field f\<rparr>"

text \<open>A typed refusal becomes the run's stop; anything without a closed reason does not.\<close>

definition translate :: "failure \<Rightarrow> stop option" where
  "translate f = (case f_reason f of None \<Rightarrow> None
     | Some r \<Rightarrow> Some \<lparr>st_reason = r, st_state = terminal_for r,
         st_surviving = (if f_cleanup_complete f = Some False then 1 else 0), st_pending = [],
         st_event = (case f_event f of Some e \<Rightarrow> Some e | None \<Rightarrow> map_of EVENT_FOR_REASON r),
         st_diagnostics = diagnose f\<rparr>)"

section \<open>The journal and the findings artefact\<close>

record event_row =
  ev_code :: event_code
  ev_state :: "agent_state option"
  ev_diagnostics :: diagnostics
  ev_models :: "(role \<times> string) list option"
  ev_failure_kind :: "acceptance_failure_kind option"
  ev_failure_count :: "nat option"
  ev_repair_requested :: "bool option"

definition event_of :: "event_code \<Rightarrow> agent_state \<Rightarrow> event_row" where
  "event_of c s = \<lparr>ev_code = c, ev_state = Some s, ev_diagnostics = no_diagnostics, ev_models = None,
     ev_failure_kind = None, ev_failure_count = None, ev_repair_requested = None\<rparr>"

definition EVENT_SCHEMA :: "string \<Rightarrow> string \<Rightarrow> event_row \<Rightarrow> bool" where
  "EVENT_SCHEMA ts run e = (length ts \<le> 40 \<and> is_identifier run
     \<and> optional (\<lambda>i. 0 \<le> i) (dx_duration_ms (ev_diagnostics e))
     \<and> optional (\<lambda>i. 0 \<le> i) (dx_stdout_bytes (ev_diagnostics e))
     \<and> optional (\<lambda>i. 0 \<le> i) (dx_stderr_bytes (ev_diagnostics e))
     \<and> models_schema (ev_models e)
     \<and> optional (\<lambda>n. n \<le> MAX_DIAGNOSTICS) (ev_failure_count e))"

datatype severity = Critical | High | Medium | Low

record finding =
  fd_finding_id :: string
  fd_mechanism_id :: string
  fd_severity :: severity
  fd_file :: "string option"
  fd_line :: "int option"
  fd_claim :: string
  fd_required_action :: string
  fd_error_class :: "locked_finding_class option"
  fd_case_count :: "int option"

text \<open>What the run keeps of a finding: no field a model wrote prose into.\<close>

record finding_record =
  fr_finding_id :: string
  fr_mechanism_id :: string
  fr_severity :: severity
  fr_file :: "string option"
  fr_line :: "int option"
  fr_error_class :: "locked_finding_class option"
  fr_case_count :: "int option"

fun record_finding :: "audit_kind \<Rightarrow> finding \<Rightarrow> finding_record" where
  "record_finding CODE_AUDIT f = \<lparr>fr_finding_id = fd_finding_id f, fr_mechanism_id = fd_mechanism_id f,
     fr_severity = fd_severity f, fr_file = fd_file f, fr_line = fd_line f,
     fr_error_class = None, fr_case_count = None\<rparr>"
| "record_finding LOCKED_AUDIT f = \<lparr>fr_finding_id = fd_finding_id f, fr_mechanism_id = fd_mechanism_id f,
     fr_severity = fd_severity f, fr_file = None, fr_line = None,
     fr_error_class = fd_error_class f, fr_case_count = fd_case_count f\<rparr>"

record audit_round =
  au_round :: nat
  au_state :: agent_state
  au_kind :: audit_kind
  au_status :: status
  au_findings :: "finding_record list"
  au_summary :: "summary_code option"

definition finding_ok :: "finding_record \<Rightarrow> bool" where
  "finding_ok f = (is_identifier (fr_finding_id f) \<and> is_identifier (fr_mechanism_id f)
     \<and> optional relative_path (fr_file f) \<and> optional (\<lambda>i. 1 \<le> i) (fr_line f)
     \<and> optional (int_between 1 100000) (fr_case_count f))"

definition FINDINGS_SCHEMA :: "string \<Rightarrow> audit_round list \<Rightarrow> bool" where
  "FINDINGS_SCHEMA run rs = (is_identifier run \<and> length rs \<le> max_evaluator_rounds_default
     \<and> list_all (\<lambda>r. au_round r \<le> 2 \<and> au_state r \<in> set [AUDITING, FINAL_AUDITING]
          \<and> length (au_findings r) \<le> 50 \<and> list_all finding_ok (au_findings r)) rs)"

section \<open>The run and its world\<close>

datatype call = Implement rat int | Repair rat int | Accept int | Evaluate agent_state rat int | Apply

record run =
  rn_task :: task_doc
  rn_identity :: identity
  rn_workspace :: "string option"
  rn_deadline :: rat
  rn_state :: agent_state
  rn_visited :: "agent_state list"
  rn_rounds :: round_counts
  rn_mechanisms_seen :: "string list list"
  rn_seen :: "string list"
  rn_candidate_files :: "string list"
  rn_audit_rounds :: "audit_round list"
  rn_pending :: "human_gate list"
  rn_acceptance_passed :: bool
  rn_acceptance_diagnostics :: "diagnostic list"
  rn_applied_files :: "string list"
  rn_checkout :: "(disk \<times> disk) option"
  rn_files :: state_files
  rn_journal :: "event_row list"
  rn_findings :: "audit_round list"
  rn_receipt :: "receipt option"
  rn_tick :: nat
  rn_calls :: "call list"

record reply =
  rep_status :: status
  rep_findings :: "finding list"
  rep_stop_reason :: "stop_reason option"
  rep_summary_code :: "summary_code option"

record evaluation =
  el_reply :: reply
  el_exit_code :: int
  el_duration_ms :: int

text \<open>
  The outside, by tick: the operating system and the repository with its holders at the start, the
  subscription view,
  the repository view, the wall clock (seconds) and its text, whether a write reaches the disk,
  the disk around a model call and what the call did, one acceptance run, the evaluator, the
  policy of the main checkout, the move of the application, the workspace. The last two fields
  are the private hooks of the contract battery.
\<close>

record world =
  w_recover :: "application_world \<times> repo_disk"
  w_plan :: "nat \<Rightarrow> plan_view"
  w_repo :: "repo_view"
  w_run_id :: string
  w_clock :: "nat \<Rightarrow> rat"
  w_now :: "nat \<Rightarrow> string"
  w_disk :: "nat \<Rightarrow> bool"
  w_moment :: "nat \<Rightarrow> moment"
  w_implementer :: "nat \<Rightarrow> failure + call_outcome"
  w_acceptance :: "nat \<Rightarrow> acceptance_world"
  w_policy :: "nat \<Rightarrow> bool"
  w_evaluator :: "nat \<Rightarrow> failure + evaluation"
  w_apply :: "nat \<Rightarrow> application_world \<times> string \<times> disk"
  w_workspace :: "nat \<Rightarrow> string option"
  w_release :: "nat \<Rightarrow> bool"
  w_audit_kind :: audit_kind
  w_request_gate :: "human_gate option"
  w_interrupt_after :: "agent_state option"

text \<open>The functions of the platform: case rule, SHA-256, decimal digits, UTF-8 decoding.\<close>

record platform =
  pf_fold :: "string \<Rightarrow> string"
  pf_sha :: "string \<Rightarrow> string"
  pf_digit :: "nat \<Rightarrow> nat option"
  pf_decode :: "string \<Rightarrow> pystr"

section \<open>Phases\<close>

type_synonym 'a phase = "(run, halt, 'a) computation"

text \<open>One interaction with the outside.\<close>

definition outside :: "(nat \<Rightarrow> 'a) \<Rightarrow> 'a phase" where
  "outside f r = (Inr (f (rn_tick r)), r\<lparr>rn_tick := Suc (rn_tick r)\<rparr>)"

definition stop_when :: "bool \<Rightarrow> stop \<Rightarrow> unit phase" where
  "stop_when b s = (if b then halt_with (Stopped s) else result ())"

definition escape_unless :: "bool \<Rightarrow> unit phase" where
  "escape_unless b = (if b then result () else halt_with Escaped)"

definition guard :: "failure + 'a \<Rightarrow> 'a phase" where
  "guard x = (case x of Inr a \<Rightarrow> result a
     | Inl f \<Rightarrow> (case translate f of None \<Rightarrow> halt_with Escaped | Some s \<Rightarrow> halt_with (Stopped s)))"

definition log_call :: "call \<Rightarrow> unit phase" where
  "log_call c = modifies (\<lambda>r. r\<lparr>rn_calls := rn_calls r @ [c]\<rparr>)"

section \<open>Records of the run\<close>

definition append_event :: "world \<Rightarrow> event_row \<Rightarrow> unit phase" where
  "append_event w e = seq (outside (w_now w)) (\<lambda>ts. seq (reads rn_identity) (\<lambda>i.
     seq (escape_unless (EVENT_SCHEMA ts (i_run_id i) e)) (\<lambda>_. seq (outside (w_disk w)) (\<lambda>ok.
     seq (escape_unless ok) (\<lambda>_. modifies (\<lambda>r. r\<lparr>rn_journal := rn_journal r @ [e]\<rparr>))))))"

definition event :: "world \<Rightarrow> event_code \<Rightarrow> unit phase" where
  "event w c = seq (reads rn_state) (\<lambda>s. append_event w (event_of c s))"

text \<open>A checked operation on the state directory, then the write.\<close>

definition on_files :: "world \<Rightarrow> (state_files \<Rightarrow> state_error + state_files) \<Rightarrow> unit phase" where
  "on_files w f = seq (reads (\<lambda>r. f (rn_files r))) (\<lambda>x. case x of Inl e \<Rightarrow> halt_with Escaped
     | Inr fs \<Rightarrow> seq (outside (w_disk w)) (\<lambda>ok. seq (escape_unless ok) (\<lambda>_.
         modifies (\<lambda>r. r\<lparr>rn_files := fs\<rparr>))))"

text \<open>\<open>_advance\<close>: the legal step, then the backup, then the run's own record, then the event.\<close>

definition run_changes :: "run \<Rightarrow> string \<Rightarrow> stop_reason option \<Rightarrow> changes" where
  "run_changes r now reason = no_changes\<lparr>c_updated_at := Some now, c_rounds := Some (rn_rounds r),
     c_mechanisms_seen := Some (rn_mechanisms_seen r), c_stop_reason := reason\<rparr>"

definition advance_run :: "world \<Rightarrow> agent_state \<Rightarrow> stop_reason option \<Rightarrow> unit phase" where
  "advance_run w target reason = seq (outside (w_now w)) (\<lambda>now.
     seq (reads (\<lambda>r. advance target (run_changes r now reason) (rn_files r))) (\<lambda>x. case x of
       Inl e \<Rightarrow> halt_with Escaped
     | Inr (doc, fs) \<Rightarrow> seq (outside (w_disk w)) (\<lambda>ok. seq (escape_unless ok) (\<lambda>_.
         seq (modifies (\<lambda>r. r\<lparr>rn_files := fs\<rparr>)) (\<lambda>_.
         seq (on_files w (save_state_backup doc)) (\<lambda>_.
         seq (modifies (\<lambda>r. r\<lparr>rn_state := target, rn_visited := rn_visited r @ [target]\<rparr>)) (\<lambda>_.
         append_event w (event_of Ev_STATE_TRANSITION target))))))))"

definition checkpoint :: "world \<Rightarrow> agent_state \<Rightarrow> unit phase" where
  "checkpoint w phase = (if w_interrupt_after w = Some phase then halt_with (Interrupted phase)
     else result ())"

section \<open>Gates that cost nothing\<close>

definition gate_check :: "world \<Rightarrow> unit phase" where
  "gate_check w = (case w_request_gate w of None \<Rightarrow> result ()
     | Some g \<Rightarrow> seq (modifies (\<lambda>r. r\<lparr>rn_pending := [g]\<rparr>)) (\<lambda>_. seq (event w Ev_GATE_REQUIRED) (\<lambda>_.
         halt_with (Stopped ((stop_with USER_APPROVAL_REQUIRED BLOCKED)\<lparr>st_pending := [g]\<rparr>)))))"

text \<open>\<open>_remaining_budget\<close> of a document the checks let through: both figures are finite.\<close>

definition remaining_budget :: "state_files \<Rightarrow> rat option" where
  "remaining_budget fs = (case read_state fs of Inl e \<Rightarrow> None
     | Inr d \<Rightarrow> (case (max_usd (budget d), spent_usd (budget d)) of
         (Finite m, Finite q) \<Rightarrow> Some (m - q) | _ \<Rightarrow> None))"

definition assert_budget :: "world \<Rightarrow> rat phase" where
  "assert_budget w = seq (reads (\<lambda>r. remaining_budget (rn_files r))) (\<lambda>x. case x of
       None \<Rightarrow> halt_with Escaped
     | Some remaining \<Rightarrow> seq (event w Ev_BUDGET_CHECK) (\<lambda>_.
         seq (stop_when (remaining \<le> 0) (stop_with BUDGET_EXHAUSTED BLOCKED)) (\<lambda>_. result remaining)))"

definition remaining_seconds :: "world \<Rightarrow> rat phase" where
  "remaining_seconds w = seq (reads rn_deadline) (\<lambda>d. seq (outside (w_clock w)) (\<lambda>t. result (d - t)))"

definition assert_clock :: "world \<Rightarrow> unit phase" where
  "assert_clock w = seq (remaining_seconds w) (\<lambda>s.
     stop_when (s \<le> 0) (stop_with WALL_CLOCK_EXCEEDED BLOCKED))"

text \<open>\<open>int()\<close> cuts towards zero.\<close>

definition py_int :: "rat \<Rightarrow> int" where
  "py_int q = (if 0 \<le> q then \<lfloor>q\<rfloor> else \<lceil>q\<rceil>)"

definition MIN_MODEL_SECONDS :: int where
  "MIN_MODEL_SECONDS = 30"

definition MAX_MODEL_SECONDS :: int where
  "MAX_MODEL_SECONDS = 7200"

definition model_seconds :: "world \<Rightarrow> int phase" where
  "model_seconds w = seq (reads (\<lambda>r. case model_call_timeout_seconds (rn_task r) of
       None \<Rightarrow> model_call_timeout_default | Some l \<Rightarrow> l)) (\<lambda>limit.
     seq (remaining_seconds w) (\<lambda>s. let seconds = py_int (min (of_int limit) s)
       in seq (stop_when (seconds < MIN_MODEL_SECONDS) (stop_with WALL_CLOCK_EXCEEDED BLOCKED)) (\<lambda>_.
          result (min seconds MAX_MODEL_SECONDS))))"

definition acceptance_seconds :: "world \<Rightarrow> int phase" where
  "acceptance_seconds w = seq (remaining_seconds w) (\<lambda>s.
     seq (stop_when (py_int s \<le> 0) (stop_with WALL_CLOCK_EXCEEDED BLOCKED)) (\<lambda>_. result (py_int s)))"

definition model_of :: "role \<Rightarrow> task_doc \<Rightarrow> string option" where
  "model_of ro t = (case ro of IMPLEMENTER \<Rightarrow> implementer_model t | EVALUATOR \<Rightarrow> evaluator_model t)"

text \<open>Proven again before every model call.\<close>

definition reassert_plan :: "world \<Rightarrow> unit phase" where
  "reassert_plan w = seq (outside (\<lambda>n. assert_plan_only (w_plan w n))) (\<lambda>x. case x of
       None \<Rightarrow> result ()
     | Some e \<Rightarrow> halt_with (Stopped ((stop_with PREFLIGHT_FAILED BLOCKED)\<lparr>
         st_event := Some Ev_PREFLIGHT_FAILED,
         st_surviving := (if refusal_cleanup_complete e then 0 else 1)\<rparr>)))"

text \<open>What precedes every model call: the ledger, the clock, the subscription, the journal.\<close>

definition open_model_call :: "world \<Rightarrow> role \<Rightarrow> (rat \<times> int) phase" where
  "open_model_call w ro = seq (assert_budget w) (\<lambda>b. seq (model_seconds w) (\<lambda>s.
     seq (reassert_plan w) (\<lambda>_. seq (reads rn_task) (\<lambda>t. seq (reads rn_state) (\<lambda>st.
     seq (append_event w ((event_of Ev_MODEL_CALL_STARTED st)\<lparr>
            ev_models := map_option (\<lambda>m. [(ro, m)]) (model_of ro t)\<rparr>)) (\<lambda>_. result (b, s)))))))"

definition measured_event :: "event_code \<Rightarrow> agent_state \<Rightarrow> int option \<Rightarrow> int \<Rightarrow> event_row" where
  "measured_event c s exit_code duration = (event_of c s)\<lparr>ev_diagnostics :=
     no_diagnostics\<lparr>dx_exit_code := exit_code, dx_duration_ms := Some duration\<rparr>\<rparr>"

section \<open>The implementer\<close>

definition implement :: "platform \<Rightarrow> world \<Rightarrow> verified_change_set phase" where
  "implement pf w = seq (reads (\<lambda>r. min (int max_implementation_rounds_default)
         (max_implementation_rounds (rn_task r)) \<le> implementation (rn_rounds r))) (\<lambda>spent.
     seq (stop_when spent (stop_with REPAIR_ROUNDS_EXHAUSTED BLOCKED)) (\<lambda>_.
     seq (open_model_call w IMPLEMENTER) (\<lambda>(b, s). seq (log_call (Implement b s)) (\<lambda>_.
     seq (outside (w_moment w)) (\<lambda>m0. seq (outside (w_implementer w)) (\<lambda>call.
     seq (outside (w_moment w)) (\<lambda>m1. seq (reads rn_identity) (\<lambda>i.
     seq (guard (run_verified_implementation (pf_fold pf) (pf_sha pf) i m0 call m1)) (\<lambda>v.
     seq (modifies (\<lambda>r. r\<lparr>rn_rounds := (rn_rounds r)\<lparr>implementation := implementation (rn_rounds r) + 1\<rparr>\<rparr>)) (\<lambda>_.
     seq (reads rn_state) (\<lambda>st.
     seq (append_event w (measured_event Ev_MODEL_CALL_FINISHED st (Some (v_exit_code v)) (v_duration_ms v))) (\<lambda>_.
     seq (modifies (\<lambda>r. r\<lparr>rn_candidate_files := changed_files v\<rparr>)) (\<lambda>_. result v)))))))))))))"

definition repair_call :: "platform \<Rightarrow> world \<Rightarrow> verified_change_set \<Rightarrow> verified_change_set phase" where
  "repair_call pf w prev = seq (open_model_call w IMPLEMENTER) (\<lambda>(b, s). seq (log_call (Repair b s)) (\<lambda>_.
     seq (outside (w_moment w)) (\<lambda>m0. seq (outside (w_implementer w)) (\<lambda>call.
     seq (outside (w_moment w)) (\<lambda>m1. seq (reads rn_identity) (\<lambda>i.
     seq (guard (run_verified_repair (pf_fold pf) (pf_sha pf) i (fingerprint prev) (changed_files prev)
            m0 call m1)) (\<lambda>v.
     seq (modifies (\<lambda>r. r\<lparr>rn_rounds := (rn_rounds r)\<lparr>repair := repair (rn_rounds r) + 1\<rparr>\<rparr>)) (\<lambda>_.
     seq (reads rn_state) (\<lambda>st.
     seq (append_event w (measured_event Ev_MODEL_CALL_FINISHED st (Some (v_exit_code v)) (v_duration_ms v))) (\<lambda>_.
     seq (modifies (\<lambda>r. r\<lparr>rn_candidate_files := changed_files v\<rparr>)) (\<lambda>_. result v)))))))))))"

section \<open>Acceptance\<close>

definition max_repairs :: "run \<Rightarrow> int" where
  "max_repairs r = min (int max_repair_rounds_default) (max_repair_rounds (rn_task r))"

text \<open>The acceptance seam, with the receipt it leaves in the state directory.\<close>

definition run_gate :: "platform \<Rightarrow> world \<Rightarrow> verified_change_set \<Rightarrow> int \<Rightarrow> (failure + report) phase" where
  "run_gate pf w v s = seq (outside (w_acceptance w)) (\<lambda>aw. seq (reads (\<lambda>r.
       run_acceptance (pf_fold pf) (pf_sha pf) (pf_digit pf) (pf_decode pf) (rn_identity r) v s
         (max_output_bytes (rn_task r)) aw (rn_receipt r))) (\<lambda>(x, rec).
     seq (modifies (\<lambda>r. r\<lparr>rn_receipt := rec\<rparr>)) (\<lambda>_. result x)))"

definition accept :: "platform \<Rightarrow> world \<Rightarrow> verified_change_set \<Rightarrow> bool \<Rightarrow> report option phase" where
  "accept pf w v may_repair = seq (modifies (\<lambda>r. r\<lparr>rn_acceptance_passed := False\<rparr>)) (\<lambda>_.
     seq (acceptance_seconds w) (\<lambda>s. seq (event w Ev_ACCEPTANCE_STARTED) (\<lambda>_.
     seq (log_call (Accept s)) (\<lambda>_. seq (run_gate pf w v s) (\<lambda>x. seq (guard x) (\<lambda>rp.
     seq (reads rn_state) (\<lambda>st.
     if rp_passed rp then
       seq (append_event w (measured_event Ev_ACCEPTANCE_FINISHED st None (rp_total_duration_ms rp))) (\<lambda>_.
       seq (modifies (\<lambda>r. r\<lparr>rn_acceptance_passed := True\<rparr>)) (\<lambda>_. result (Some rp)))
     else seq (reads (\<lambda>r. repair (rn_rounds r) < max_repairs r)) (\<lambda>affordable.
       let ds = (if may_repair then report_diagnostics rp else []);
           repairing = (ds \<noteq> [] \<and> affordable)
       in seq (append_event w ((measured_event Ev_ACCEPTANCE_FINISHED st None (rp_total_duration_ms rp))\<lparr>
              ev_failure_kind := Some (if ds \<noteq> [] then REPAIRABLE_TESTS else NOT_REPAIRABLE),
              ev_failure_count := Some (length ds), ev_repair_requested := Some repairing\<rparr>)) (\<lambda>_.
          seq (stop_when (\<not> repairing) (stop_with ACCEPTANCE_FAILED BLOCKED)) (\<lambda>_.
          seq (modifies (\<lambda>r. r\<lparr>rn_acceptance_diagnostics := ds\<rparr>)) (\<lambda>_. result None)))))))))))"

section \<open>The audit\<close>

definition candidate_now :: "platform \<Rightarrow> world \<Rightarrow> (change_error + candidate) phase" where
  "candidate_now pf w = seq (outside (w_moment w)) (\<lambda>m. seq (reads rn_identity) (\<lambda>i.
     result (derive_candidate_changes (pf_fold pf) (pf_sha pf) i m)))"

text \<open>A refused second reading counts as a move.\<close>

definition workspace_moved :: "candidate \<Rightarrow> string \<times> tree \<Rightarrow> change_error + candidate \<Rightarrow>
    change_error + string \<times> tree \<Rightarrow> bool" where
  "workspace_moved c0 main0 c1 main1 = (case c1 of Inl e \<Rightarrow> True
     | Inr c \<Rightarrow> (case main1 of Inl e \<Rightarrow> True
       | Inr main \<Rightarrow> (case main_difference main0 main of Inl e \<Rightarrow> True
         | Inr cs \<Rightarrow> cd_fingerprint c \<noteq> cd_fingerprint c0 \<or> cs \<noteq> [])))"

definition assert_read_only :: "platform \<Rightarrow> world \<Rightarrow> candidate \<Rightarrow> string \<times> tree \<Rightarrow> unit phase" where
  "assert_read_only pf w c0 main0 = seq (candidate_now pf w) (\<lambda>c1.
     seq (outside (\<lambda>n. main_projection (w_moment w n))) (\<lambda>main1.
     if workspace_moved c0 main0 c1 main1
     then seq (event w Ev_EVALUATOR_MODIFIED_WORKSPACE) (\<lambda>_.
        halt_with (Stopped (stop_with EVALUATOR_MODIFIED_WORKSPACE FAILED)))
     else result ()))"

definition assert_in_scope :: "platform \<Rightarrow> finding list \<Rightarrow> unit phase" where
  "assert_in_scope pf fs = seq (reads rn_candidate_files) (\<lambda>files.
     stop_when (list_ex (\<lambda>f. case fd_file f of None \<Rightarrow> False
         | Some p \<Rightarrow> fold_path (pf_fold pf) p \<notin> fold_path (pf_fold pf) ` set files) fs)
       (stop_with OUT_OF_SCOPE_FINDING BLOCKED))"

definition record_findings :: "world \<Rightarrow> agent_state \<Rightarrow> reply \<Rightarrow> nat \<Rightarrow> unit phase" where
  "record_findings w phase rep n = seq (modifies (\<lambda>r. r\<lparr>rn_audit_rounds := rn_audit_rounds r @
       [\<lparr>au_round = n, au_state = phase, au_kind = w_audit_kind w, au_status = rep_status rep,
         au_findings = map (record_finding (w_audit_kind w)) (rep_findings rep),
         au_summary = rep_summary_code rep\<rparr>]\<rparr>)) (\<lambda>_.
     seq (reads (\<lambda>r. FINDINGS_SCHEMA (i_run_id (rn_identity r)) (rn_audit_rounds r))) (\<lambda>ok.
     seq (escape_unless ok) (\<lambda>_. seq (outside (w_disk w)) (\<lambda>ok. seq (escape_unless ok) (\<lambda>_.
     modifies (\<lambda>r. r\<lparr>rn_findings := rn_audit_rounds r\<rparr>))))))"

definition verdict :: "platform \<Rightarrow> world \<Rightarrow> agent_state \<Rightarrow> reply \<Rightarrow> nat \<Rightarrow> bool phase" where
  "verdict pf w phase rep n = seq (record_findings w phase rep n) (\<lambda>_.
     if rep_status rep = St_APPROVED then result True
     else if rep_status rep = St_BLOCKED \<or> rep_status rep = St_FAILED then
       (case rep_stop_reason rep of None \<Rightarrow> halt_with Escaped
        | Some reason \<Rightarrow> halt_with (Stopped (stop_with reason BLOCKED)))
     else seq (assert_in_scope pf (rep_findings rep)) (\<lambda>_.
       let mechanisms = map fd_mechanism_id (rep_findings rep)
       in seq (reads (\<lambda>r. list_ex (\<lambda>m. m \<in> set (rn_seen r)) mechanisms)) (\<lambda>repeated.
          seq (modifies (\<lambda>r. r\<lparr>rn_mechanisms_seen := rn_mechanisms_seen r @ [sort (remdups mechanisms)]\<rparr>)) (\<lambda>_.
          seq (stop_when repeated (stop_with REPEATED_MECHANISM_FAILURE BLOCKED)) (\<lambda>_.
          seq (modifies (\<lambda>r. r\<lparr>rn_seen := rn_seen r @ mechanisms\<rparr>)) (\<lambda>_.
          seq (reads (\<lambda>r. max_repairs r \<le> repair (rn_rounds r))) (\<lambda>spent.
          seq (stop_when spent (stop_with REPAIR_ROUNDS_EXHAUSTED BLOCKED)) (\<lambda>_. result False))))))))"

text \<open>The read-only proof runs on every exit of the call and outranks its failure.\<close>

definition audit :: "platform \<Rightarrow> world \<Rightarrow> agent_state \<Rightarrow> bool phase" where
  "audit pf w phase = seq (reads (\<lambda>r. evaluator (rn_rounds r))) (\<lambda>n.
     seq (stop_when (int max_evaluator_rounds_default \<le> n) (stop_with REPAIR_ROUNDS_EXHAUSTED BLOCKED)) (\<lambda>_.
     seq (open_model_call w EVALUATOR) (\<lambda>(b, s).
     seq (outside (w_policy w)) (\<lambda>ok. seq (escape_unless ok) (\<lambda>_.
     seq (outside (\<lambda>k. main_projection (w_moment w k))) (\<lambda>mp.
     seq (guard (map_sum change_failure id mp)) (\<lambda>main0.
     seq (candidate_now pf w) (\<lambda>c. seq (guard (map_sum change_failure id c)) (\<lambda>c0.
     seq (log_call (Evaluate phase b s)) (\<lambda>_. seq (outside (w_evaluator w)) (\<lambda>answer.
     seq (assert_read_only pf w c0 main0) (\<lambda>_. seq (guard answer) (\<lambda>el.
     seq (modifies (\<lambda>r. r\<lparr>rn_rounds := (rn_rounds r)\<lparr>evaluator := evaluator (rn_rounds r) + 1\<rparr>\<rparr>)) (\<lambda>_.
     seq (reads rn_state) (\<lambda>st.
     seq (append_event w (measured_event Ev_MODEL_CALL_FINISHED st (Some (el_exit_code el)) (el_duration_ms el))) (\<lambda>_.
     verdict pf w phase (el_reply el) (nat n)))))))))))))))))"

section \<open>The application\<close>

text \<open>
  The seam of \<open>application.py\<close> on the disk it finds; the disk it leaves is kept. A process that
  dies in there takes the run with it.
\<close>

definition run_application :: "platform \<Rightarrow> application_world \<times> string \<times> disk \<Rightarrow> verified_change_set \<Rightarrow> report
    \<Rightarrow> (app_exit + application_report) phase" where
  "run_application pf x v rp = (case x of (aw, aid, d) \<Rightarrow> seq (reads (\<lambda>r. apply_accepted_candidate
       (aw\<lparr>pw_sha := pf_sha pf\<rparr>) (pf_fold pf) \<lparr>ai_application_id = aid, ai_identity = rn_identity r\<rparr>
       v rp (rn_receipt r) d)) (\<lambda>(res, d'). seq (modifies (\<lambda>r. r\<lparr>rn_checkout := Some (d, d')\<rparr>)) (\<lambda>_. result res)))"

definition settle_application :: "app_exit + application_report \<Rightarrow> string list phase" where
  "settle_application x = (case x of Inr rep \<Rightarrow> result (ar_applied_files rep)
     | Inl Died \<Rightarrow> halt_with Escaped | Inl (Raised e) \<Rightarrow> guard (Inl (application_failure e)))"

definition release_workspace :: "world \<Rightarrow> unit phase" where
  "release_workspace w = seq (reads rn_workspace) (\<lambda>ws. if ws = None then result ()
     else seq (outside (w_release w)) (\<lambda>ok. escape_unless ok))"

definition approve :: "platform \<Rightarrow> world \<Rightarrow> verified_change_set \<Rightarrow> report \<Rightarrow> unit phase" where
  "approve pf w v rp = seq (log_call Apply) (\<lambda>_. seq (outside (w_apply w)) (\<lambda>x.
     seq (run_application pf x v rp) (\<lambda>y. seq (settle_application y) (\<lambda>files. seq (modifies (\<lambda>r. r\<lparr>rn_applied_files := files\<rparr>)) (\<lambda>_.
     seq (advance_run w APPROVED (Some COMPLETED)) (\<lambda>_. release_workspace w))))))"

section \<open>The only legal order\<close>

definition repair_road :: "platform \<Rightarrow> world \<Rightarrow> verified_change_set \<Rightarrow> unit phase" where
  "repair_road pf w v = seq (advance_run w REPAIRING None) (\<lambda>_.
     seq (repair_call pf w v) (\<lambda>v'. seq (checkpoint w REPAIRING) (\<lambda>_.
     seq (advance_run w ACCEPTANCE_2 None) (\<lambda>_.
     seq (accept pf w v' False) (\<lambda>rp. seq (checkpoint w ACCEPTANCE_2) (\<lambda>_.
     seq (advance_run w FINAL_AUDITING None) (\<lambda>_.
     seq (audit pf w FINAL_AUDITING) (\<lambda>_. seq (checkpoint w FINAL_AUDITING) (\<lambda>_.
     case rp of None \<Rightarrow> halt_with Escaped | Some p \<Rightarrow> approve pf w v' p)))))))))"

definition walk_phases :: "platform \<Rightarrow> world \<Rightarrow> unit phase" where
  "walk_phases pf w = seq (advance_run w IMPLEMENTING None) (\<lambda>_.
     seq (implement pf w) (\<lambda>v. seq (checkpoint w IMPLEMENTING) (\<lambda>_.
     seq (advance_run w ACCEPTANCE None) (\<lambda>_.
     seq (accept pf w v True) (\<lambda>rp. seq (checkpoint w ACCEPTANCE) (\<lambda>_.
     case rp of None \<Rightarrow> repair_road pf w v
     | Some p \<Rightarrow> seq (advance_run w AUDITING None) (\<lambda>_.
         seq (audit pf w AUDITING) (\<lambda>approved. seq (checkpoint w AUDITING) (\<lambda>_.
         if approved then approve pf w v p else repair_road pf w v)))))))))"

section \<open>One run\<close>

record run_result =
  rr_state :: agent_state
  rr_stop_reason :: stop_reason
  rr_visited :: "agent_state list"
  rr_rounds :: round_counts
  rr_surviving :: nat
  rr_pending :: "human_gate list"
  rr_acceptance_passed :: bool
  rr_applied_files :: "string list"
  rr_recovered :: "string list"

definition result_of :: "run \<Rightarrow> string list \<Rightarrow> agent_state \<Rightarrow> stop_reason \<Rightarrow> nat \<Rightarrow> human_gate list \<Rightarrow> run_result" where
  "result_of r recovered s reason children pend = \<lparr>rr_state = s, rr_stop_reason = reason,
     rr_visited = rn_visited r, rr_rounds = rn_rounds r, rr_surviving = children,
     rr_pending = (if pend = [] then rn_pending r else pend),
     rr_acceptance_passed = rn_acceptance_passed r, rr_applied_files = rn_applied_files r,
     rr_recovered = recovered\<rparr>"

definition open_workspace :: "world \<Rightarrow> unit phase" where
  "open_workspace w = seq (outside (w_workspace w)) (\<lambda>ws. case ws of None \<Rightarrow> halt_with Escaped
     | Some wid \<Rightarrow> seq (modifies (\<lambda>r. r\<lparr>rn_workspace := Some wid,
            rn_identity := (rn_identity r)\<lparr>i_workspace_id := wid\<rparr>\<rparr>)) (\<lambda>_.
         seq (reads rn_identity) (\<lambda>i. on_files w (write_binding
           \<lparr>b_protocol_version = PROTOCOL_VERSION, b_run_id = i_run_id i, b_repo_id = i_repo_id i,
             b_baseline_sha = i_baseline_sha i, b_manifest_digest = i_manifest_digest i,
             b_workspace_id = wid\<rparr>))))"

definition zero_rounds :: round_counts where
  "zero_rounds = \<lparr>implementation = 0, repair = 0, evaluator = 0\<rparr>"

definition requested_of :: "task_doc \<Rightarrow> (role \<times> string) list option" where
  "requested_of t = (let ms = (case implementer_model t of None \<Rightarrow> [] | Some m \<Rightarrow> [(IMPLEMENTER, m)])
       @ (case evaluator_model t of None \<Rightarrow> [] | Some m \<Rightarrow> [(EVALUATOR, m)])
     in if ms = [] then None else Some ms)"

definition first_document :: "run \<Rightarrow> string \<Rightarrow> state_doc" where
  "first_document r stamp = \<lparr>protocol_version = PROTOCOL_VERSION, run_id = i_run_id (rn_identity r),
     state = PREFLIGHT, started_at = stamp, updated_at = stamp, heartbeat_at = None,
     baseline_sha = Some (i_baseline_sha (rn_identity r)), requested_models = requested_of (rn_task r),
     rounds = rn_rounds r,
     budget = \<lparr>max_usd = max_budget_usd (rn_task r), spent_usd = Finite 0\<rparr>,
     mechanisms_seen = None, stop_reason = None\<rparr>"

definition open_state :: "world \<Rightarrow> unit phase" where
  "open_state w = seq (outside (w_now w)) (\<lambda>stamp. seq (reads (\<lambda>r. first_document r stamp)) (\<lambda>doc.
     seq (on_files w (write_state doc)) (\<lambda>_. seq (on_files w (save_state_backup doc)) (\<lambda>_.
     append_event w (event_of Ev_PREFLIGHT_OK PREFLIGHT)))))"

text \<open>The run right after preflight; the deadline is set once, before anything starts.\<close>

definition fresh_run :: "world \<Rightarrow> state_files \<Rightarrow> receipt option \<Rightarrow> string \<Rightarrow> task_file \<Rightarrow> run" where
  "fresh_run w fs rec baseline f = \<lparr>rn_task = tf_task f,
     rn_identity = \<lparr>i_repo_id = rv_repo_id (w_repo w), i_manifest_digest = tf_digest f,
       i_run_id = w_run_id w, i_workspace_id = [], i_baseline_sha = baseline\<rparr>,
     rn_workspace = None,
     rn_deadline = w_clock w 0 + of_int (max_wall_clock_minutes (tf_task f) * 60),
     rn_state = PREFLIGHT, rn_visited = [PREFLIGHT], rn_rounds = zero_rounds,
     rn_mechanisms_seen = [], rn_seen = [], rn_candidate_files = [], rn_audit_rounds = [],
     rn_pending = [], rn_acceptance_passed = False, rn_acceptance_diagnostics = [],
     rn_applied_files = [], rn_checkout = None, rn_files = fs, rn_journal = [], rn_findings = [], rn_receipt = rec,
     rn_tick = 1, rn_calls = []\<rparr>"

definition run_body :: "platform \<Rightarrow> world \<Rightarrow> unit phase" where
  "run_body pf w = seq (gate_check w) (\<lambda>_. seq (assert_budget w) (\<lambda>_. seq (assert_clock w) (\<lambda>_.
     seq (open_workspace w) (\<lambda>_. walk_phases pf w))))"

text \<open>What \<open>execute\<close> does with an orderly stop: the journal line, the terminal step.\<close>

definition settle_stop :: "world \<Rightarrow> stop \<Rightarrow> unit phase" where
  "settle_stop w s = seq (reads rn_state) (\<lambda>st.
     seq (case st_event s of None \<Rightarrow> result ()
        | Some e \<Rightarrow> append_event w ((event_of e st)\<lparr>ev_diagnostics := st_diagnostics s\<rparr>)) (\<lambda>_.
     if st \<notin> set TERMINAL_STATES then advance_run w (st_state s) (Some (st_reason s)) else result ()))"

datatype run_end = Refused run_result | Returned run_result run | Raised "run option"

definition finish_run :: "platform \<Rightarrow> world \<Rightarrow> string list \<Rightarrow> run \<Rightarrow> run_end" where
  "finish_run pf w recovered r = (case run_body pf w r of
       (Inr _, r') \<Rightarrow> Returned (result_of r' recovered APPROVED COMPLETED 0 []) r'
     | (Inl (Stopped s), r') \<Rightarrow> (case settle_stop w s r' of
           (Inr _, r'') \<Rightarrow> Returned (result_of r'' recovered (st_state s) (st_reason s)
              (st_surviving s) (st_pending s)) r''
         | (Inl _, r'') \<Rightarrow> Raised (Some r''))
     | (Inl (Interrupted _), r') \<Rightarrow> (case event w Ev_INTERRUPTED r' of
           (Inr _, r'') \<Rightarrow> Returned (result_of r'' recovered (rn_state r'') INTERRUPTED 0 []) r''
         | (Inl _, r'') \<Rightarrow> Raised (Some r''))
     | (Inl Escaped, r') \<Rightarrow> Raised (Some r'))"

definition refused_result :: "string list \<Rightarrow> stop_reason \<Rightarrow> run_result" where
  "refused_result recovered reason = \<lparr>rr_state = BLOCKED, rr_stop_reason = reason,
     rr_visited = [PREFLIGHT], rr_rounds = zero_rounds, rr_surviving = 0, rr_pending = [],
     rr_acceptance_passed = False, rr_applied_files = [], rr_recovered = recovered\<rparr>"

text \<open>Every crashed application is recovered first; a recovery that raises ends the call.\<close>

definition recovered_first :: "platform \<Rightarrow> world \<Rightarrow> string list option" where
  "recovered_first pf w = (case w_recover w of (aw, y) \<Rightarrow>
     (case recover_applications (aw\<lparr>pw_sha := pf_sha pf\<rparr>) (rv_repo_id (w_repo w)) y of
       (Inr ids, y') \<Rightarrow> Some ids | (Inl e, y') \<Rightarrow> None))"

definition execute :: "platform \<Rightarrow> world \<Rightarrow> receipt option \<Rightarrow> run_end" where
  "execute pf w rec = (case recovered_first pf w of None \<Rightarrow> Raised None
     | Some recovered \<Rightarrow> (case assert_plan_only (w_plan w 0) of
         Some e \<Rightarrow> Refused (refused_result recovered PREFLIGHT_FAILED)
       | None \<Rightarrow> (case run_preflight (w_repo w) of
           Preflight_Refused reason \<Rightarrow> Refused (refused_result recovered reason)
         | Preflight_Ok baseline f \<Rightarrow>
            (case open_state w (fresh_run w (rv_files (w_repo w)) rec baseline f) of
               (Inl _, r) \<Rightarrow> Raised (Some r)
             | (Inr _, r) \<Rightarrow> finish_run pf w recovered r))))"

section \<open>Reading a run back\<close>

record resumed =
  re_state :: agent_state
  re_stop_reason :: stop_reason
  re_run_id :: string
  re_workspace_id :: string
  re_baseline_sha :: string
  re_rounds :: round_counts
  re_recovered :: bool
  re_applications :: "string list"

datatype resume_fault = Unrecovered app_exit | Unreadable_Run state_error

definition read_or_restore :: "state_files \<Rightarrow> state_error + state_doc \<times> state_files \<times> bool" where
  "read_or_restore fs = (case read_state fs of
       Inr d \<Rightarrow> Inr (d, fs, False)
     | Inl CorruptState \<Rightarrow> (case restore_state_backup fs of Inl e \<Rightarrow> Inl e
         | Inr (d, fs') \<Rightarrow> Inr (d, fs', True))
     | Inl e \<Rightarrow> Inl e)"

text \<open>
  The crashed applications first: their recovery changes the checkout, and when it raises nothing is
  read. Then the document or its backup, and the binding. The state directory and the repository are
  returned as the call leaves them, however it ends.
\<close>

definition resume :: "application_world \<Rightarrow> string \<Rightarrow> state_files \<Rightarrow> repo_disk
    \<Rightarrow> (resume_fault + resumed) \<times> state_files \<times> repo_disk" where
  "resume w repo_id fs y = (case recover_applications w repo_id y of
       (Inl e, y') \<Rightarrow> (Inl (Unrecovered e), fs, y')
     | (Inr ids, y') \<Rightarrow> (case read_or_restore fs of Inl e \<Rightarrow> (Inl (Unreadable_Run e), fs, y')
       | Inr (d, fs', rec) \<Rightarrow> (case read_binding fs' of Inl e \<Rightarrow> (Inl (Unreadable_Run e), fs', y')
         | Inr b \<Rightarrow> if b_run_id b \<noteq> run_id d then (Inl (Unreadable_Run IncompatibleState), fs', y')
             else (Inr \<lparr>re_state = state d,
               re_stop_reason = (case stop_reason d of None \<Rightarrow> INTERRUPTED | Some r \<Rightarrow> r),
               re_run_id = run_id d, re_workspace_id = b_workspace_id b, re_baseline_sha = b_baseline_sha b,
               re_rounds = rounds d, re_recovered = rec, re_applications = ids\<rparr>, fs', y'))))"

end
