(* ===== verification/Agent_Logic.thy ===== *)
theory Agent_Logic
  imports Agent_Runner
begin

text \<open>
  Reasoning about phases: \<open>triple\<close> is a Hoare triple with a postcondition for values and one for
  halts, over everything of a run but its tick and its journal (\<open>core\<close>); a \<open>quiet\<close> phase
  changes nothing else. Then the rules of every step of the loop: which states it visits, which
  seams it calls, what its value proves.
\<close>

named_theorems quiet_rules \<open>phases that change the tick and the journal only\<close>

section \<open>Triples\<close>

definition core :: "run \<Rightarrow> run" where
  "core r = r\<lparr>rn_tick := 0, rn_journal := []\<rparr>"

text \<open>\<open>quiet H m\<close>: nothing of the core changes, and every halt satisfies \<open>H\<close>.\<close>

definition quiet :: "(halt \<Rightarrow> bool) \<Rightarrow> 'a phase \<Rightarrow> bool" where
  "quiet H m = (\<forall>r. core (snd (m r)) = core r \<and> (\<forall>h. fst (m r) = Inl h \<longrightarrow> H h))"

text \<open>A stop ends in one of the two states of a run that did not succeed.\<close>

definition plain_stop :: "stop \<Rightarrow> bool" where
  "plain_stop s = (st_state s = BLOCKED \<or> st_state s = FAILED)"

fun plain :: "halt \<Rightarrow> bool" where
  "plain (Stopped s) = plain_stop s"
| "plain (Interrupted s) = True"
| "plain Escaped = True"

lemma plain_rules [quiet_rules]:
  "plain_stop (stop_with x BLOCKED)" "plain_stop (stop_with x FAILED)"
  "plain_stop s \<Longrightarrow> plain_stop (s\<lparr>st_pending := gs\<rparr>)"
  "plain_stop s \<Longrightarrow> plain_stop (s\<lparr>st_event := e\<rparr>)"
  "plain_stop s \<Longrightarrow> plain_stop (s\<lparr>st_surviving := n\<rparr>)"
  "plain_stop s \<Longrightarrow> plain (Stopped s)" "plain (Interrupted t)" "plain Escaped"
  by (simp_all add: plain_stop_def stop_with_def)

lemma plain_translate [quiet_rules]: "translate f = Some s \<Longrightarrow> plain (Stopped s)"
  by (auto simp: translate_def plain_stop_def terminal_for_def split: option.splits)

definition triple :: "(run \<Rightarrow> bool) \<Rightarrow> 'a phase \<Rightarrow> ('a \<Rightarrow> run \<Rightarrow> bool) \<Rightarrow> (halt \<Rightarrow> run \<Rightarrow> bool) \<Rightarrow> bool" where
  "triple P m Q E = (\<forall>r. P (core r) \<longrightarrow> (case m r of (Inr a, r') \<Rightarrow> Q a (core r')
     | (Inl h, r') \<Rightarrow> E h (core r')))"

definition yields :: "'a phase \<Rightarrow> ('a \<Rightarrow> bool) \<Rightarrow> bool" where
  "yields m V = (\<forall>r a r'. m r = (Inr a, r') \<longrightarrow> V a)"

lemma core_simps [simp]:
  "rn_task (core r) = rn_task r" "rn_identity (core r) = rn_identity r"
  "rn_workspace (core r) = rn_workspace r" "rn_deadline (core r) = rn_deadline r"
  "rn_state (core r) = rn_state r" "rn_visited (core r) = rn_visited r"
  "rn_rounds (core r) = rn_rounds r" "rn_seen (core r) = rn_seen r"
  "rn_mechanisms_seen (core r) = rn_mechanisms_seen r"
  "rn_candidate_files (core r) = rn_candidate_files r"
  "rn_audit_rounds (core r) = rn_audit_rounds r"
  "rn_acceptance_passed (core r) = rn_acceptance_passed r"
  "rn_applied_files (core r) = rn_applied_files r" "rn_checkout (core r) = rn_checkout r" "rn_files (core r) = rn_files r"
  "rn_receipt (core r) = rn_receipt r" "rn_calls (core r) = rn_calls r" "core (core r) = core r"
  by (simp_all add: core_def)

lemma core_update [simp]:
  "core (r\<lparr>rn_identity := x_0\<rparr>) = (core r)\<lparr>rn_identity := x_0\<rparr>"
  "core (r\<lparr>rn_workspace := x_1\<rparr>) = (core r)\<lparr>rn_workspace := x_1\<rparr>"
  "core (r\<lparr>rn_state := x_2\<rparr>) = (core r)\<lparr>rn_state := x_2\<rparr>"
  "core (r\<lparr>rn_visited := x_3\<rparr>) = (core r)\<lparr>rn_visited := x_3\<rparr>"
  "core (r\<lparr>rn_rounds := x_4\<rparr>) = (core r)\<lparr>rn_rounds := x_4\<rparr>"
  "core (r\<lparr>rn_mechanisms_seen := x_5\<rparr>) = (core r)\<lparr>rn_mechanisms_seen := x_5\<rparr>"
  "core (r\<lparr>rn_seen := x_6\<rparr>) = (core r)\<lparr>rn_seen := x_6\<rparr>"
  "core (r\<lparr>rn_candidate_files := x_7\<rparr>) = (core r)\<lparr>rn_candidate_files := x_7\<rparr>"
  "core (r\<lparr>rn_audit_rounds := x_8\<rparr>) = (core r)\<lparr>rn_audit_rounds := x_8\<rparr>"
  "core (r\<lparr>rn_pending := x_9\<rparr>) = (core r)\<lparr>rn_pending := x_9\<rparr>"
  "core (r\<lparr>rn_acceptance_passed := x_10\<rparr>) = (core r)\<lparr>rn_acceptance_passed := x_10\<rparr>"
  "core (r\<lparr>rn_acceptance_diagnostics := x_11\<rparr>) = (core r)\<lparr>rn_acceptance_diagnostics := x_11\<rparr>"
  "core (r\<lparr>rn_applied_files := x_12\<rparr>) = (core r)\<lparr>rn_applied_files := x_12\<rparr>"
  "core (r\<lparr>rn_checkout := x_17\<rparr>) = (core r)\<lparr>rn_checkout := x_17\<rparr>"
  "core (r\<lparr>rn_files := x_13\<rparr>) = (core r)\<lparr>rn_files := x_13\<rparr>"
  "core (r\<lparr>rn_findings := x_14\<rparr>) = (core r)\<lparr>rn_findings := x_14\<rparr>"
  "core (r\<lparr>rn_receipt := x_15\<rparr>) = (core r)\<lparr>rn_receipt := x_15\<rparr>"
  "core (r\<lparr>rn_calls := x_16\<rparr>) = (core r)\<lparr>rn_calls := x_16\<rparr>"
  by (simp_all add: core_def)

lemma quiet_result [quiet_rules]: "quiet H (result a)"
  by (simp add: quiet_def result_def)

lemma quiet_halt [quiet_rules]: "H h \<Longrightarrow> quiet H (halt_with h)"
  by (simp add: quiet_def halt_with_def)

lemma quiet_reads [quiet_rules]: "quiet H (reads f)"
  by (simp add: quiet_def reads_def)

lemma quiet_outside [quiet_rules]: "quiet H (outside f)"
  by (simp add: quiet_def outside_def core_def)

lemma quiet_seq [quiet_rules]:
  assumes "quiet H m" "\<And>a. quiet H (f a)"
  shows "quiet H (seq m f)"
proof (unfold quiet_def, intro allI)
  fix r
  obtain x r' where m: "m r = (x, r')" by (cases "m r")
  show "core (snd (seq m f r)) = core r \<and> (\<forall>h. fst (seq m f r) = Inl h \<longrightarrow> H h)"
  proof (cases x)
    case (Inl h)
    then show ?thesis using m assms(1) [unfolded quiet_def, rule_format, of r] by (simp add: seq_def)
  next
    case (Inr a)
    then show ?thesis using m assms(1) [unfolded quiet_def, rule_format, of r]
        assms(2) [unfolded quiet_def, rule_format, of a r'] by (simp add: seq_def)
  qed
qed

lemma quiet_if [quiet_rules]: "quiet H m \<Longrightarrow> quiet H n \<Longrightarrow> quiet H (if b then m else n)"
  by simp

lemma quiet_option [quiet_rules]:
  "quiet H m \<Longrightarrow> (\<And>x. y = Some x \<Longrightarrow> quiet H (f x))
     \<Longrightarrow> quiet H (case y of None \<Rightarrow> m | Some x \<Rightarrow> f x)"
  by (cases y) simp_all

lemma quiet_sum [quiet_rules]:
  "(\<And>x. quiet H (f x)) \<Longrightarrow> (\<And>x. quiet H (g x))
     \<Longrightarrow> quiet H (case y of Inl x \<Rightarrow> f x | Inr x \<Rightarrow> g x)"
  by (cases y) simp_all

lemma quiet_prod [quiet_rules]: "(\<And>x y. quiet H (f x y)) \<Longrightarrow> quiet H (case p of (x, y) \<Rightarrow> f x y)"
  by (cases p) simp

lemma quiet_stop_when [quiet_rules]: "H (Stopped s) \<Longrightarrow> quiet H (stop_when b s)"
  unfolding stop_when_def by (intro quiet_rules)

lemma quiet_escape_unless [quiet_rules]: "H Escaped \<Longrightarrow> quiet H (escape_unless b)"
  unfolding escape_unless_def by (intro quiet_rules)

lemma quiet_guard [quiet_rules]: "quiet plain (guard x)"
  unfolding guard_def by (intro quiet_rules)

lemma quiet_append_event [quiet_rules]: "H Escaped \<Longrightarrow> quiet H (append_event w e)"
proof -
  assume "H Escaped"
  moreover have "quiet H (modifies (\<lambda>r. r\<lparr>rn_journal := rn_journal r @ [e]\<rparr>))"
    by (simp add: quiet_def modifies_def core_def)
  ultimately show ?thesis unfolding append_event_def by (intro quiet_rules)
qed

lemma quiet_event [quiet_rules]: "H Escaped \<Longrightarrow> quiet H (event w c)"
  unfolding event_def by (intro quiet_rules)

lemma quiet_assert_budget [quiet_rules]: "quiet plain (assert_budget w)"
  unfolding assert_budget_def by (intro quiet_rules)

lemma quiet_remaining_seconds [quiet_rules]: "quiet plain (remaining_seconds w)"
  unfolding remaining_seconds_def by (intro quiet_rules)

lemma quiet_assert_clock [quiet_rules]: "quiet plain (assert_clock w)"
  unfolding assert_clock_def by (intro quiet_rules)

lemma quiet_model_seconds [quiet_rules]: "quiet plain (model_seconds w)"
  unfolding model_seconds_def Let_def by (intro quiet_rules)

lemma quiet_acceptance_seconds [quiet_rules]: "quiet plain (acceptance_seconds w)"
  unfolding acceptance_seconds_def by (intro quiet_rules)

lemma quiet_reassert_plan [quiet_rules]: "quiet plain (reassert_plan w)"
  unfolding reassert_plan_def by (intro quiet_rules)

lemma quiet_open_model_call [quiet_rules]: "quiet plain (open_model_call w ro)"
  unfolding open_model_call_def by (intro quiet_rules)

lemma quiet_checkpoint [quiet_rules]: "quiet plain (checkpoint w s)"
  unfolding checkpoint_def by (intro quiet_rules)

lemma quiet_candidate_now [quiet_rules]: "quiet plain (candidate_now pf w)"
  unfolding candidate_now_def by (intro quiet_rules)

lemma quiet_assert_read_only [quiet_rules]: "quiet plain (assert_read_only pf w c0 main0)"
  unfolding assert_read_only_def by (intro quiet_rules)

lemma quiet_assert_in_scope [quiet_rules]: "quiet plain (assert_in_scope pf fs)"
  unfolding assert_in_scope_def by (intro quiet_rules)

lemma quiet_release [quiet_rules]: "H Escaped \<Longrightarrow> quiet H (release_workspace w)"
  unfolding release_workspace_def by (intro quiet_rules)

section \<open>Rules\<close>

lemma triple_quiet:
  assumes "quiet H m" "yields m V" "\<And>h r. H h \<Longrightarrow> P r \<Longrightarrow> E h r"
  shows "triple P m (\<lambda>a r. V a \<and> P r) E"
proof (unfold triple_def, intro allI impI)
  fix r
  assume P: "P (core r)"
  obtain x r' where m: "m r = (x, r')" by (cases "m r")
  have same: "core r' = core r" using assms(1) [unfolded quiet_def, rule_format, of r] m by simp
  have halt: "\<And>h. x = Inl h \<Longrightarrow> H h" using assms(1) [unfolded quiet_def, rule_format, of r] m by simp
  show "case m r of (Inr a, r') \<Rightarrow> V a \<and> P (core r') | (Inl h, r') \<Rightarrow> E h (core r')"
  proof (cases x)
    case (Inl h)
    then show ?thesis using m same assms(3) [OF halt P] by simp
  next
    case (Inr a)
    then show ?thesis using m same P assms(2) [unfolded yields_def, rule_format, of r a r'] by simp
  qed
qed

lemma yields_any: "yields m (\<lambda>_. True)"
  by (simp add: yields_def)

lemma triple_seq:
  assumes "triple P m R E" "\<And>a. triple (R a) (f a) Q E"
  shows "triple P (seq m f) Q E"
proof (unfold triple_def, intro allI impI)
  fix r
  assume P: "P (core r)"
  obtain x r' where m: "m r = (x, r')" by (cases "m r")
  note first = assms(1) [unfolded triple_def, rule_format, OF P]
  show "case seq m f r of (Inr a, r') \<Rightarrow> Q a (core r') | (Inl h, r') \<Rightarrow> E h (core r')"
  proof (cases x)
    case (Inl h)
    then show ?thesis using first m by (simp add: seq_def)
  next
    case (Inr a)
    then have "R a (core r')" using first m by simp
    from assms(2) [unfolded triple_def, rule_format, OF this] show ?thesis
      using m Inr by (simp add: seq_def)
  qed
qed

lemma triple_weaken:
  assumes "triple P m Q E" "\<And>r. P' r \<Longrightarrow> P r" "\<And>a r. Q a r \<Longrightarrow> Q' a r" "\<And>h r. E h r \<Longrightarrow> E' h r"
  shows "triple P' m Q' E'"
  using assms unfolding triple_def by (fastforce split: prod.splits sum.splits)

text \<open>A quiet last step.\<close>

lemma triple_tail:
  assumes "quiet H m" "\<And>h r. H h \<Longrightarrow> P r \<Longrightarrow> E h r" "\<And>a r. P r \<Longrightarrow> Q a r"
  shows "triple P m Q E"
  by (rule triple_weaken [OF triple_quiet [where P = P and E = E, OF assms(1) yields_any assms(2)]])
    (use assms(3) in auto)

text \<open>A quiet step in front of the rest.\<close>

lemma triple_skip:
  assumes "quiet H m" "\<And>h r. H h \<Longrightarrow> P r \<Longrightarrow> E h r" "\<And>a. triple P (f a) Q E"
  shows "triple P (seq m f) Q E"
  by (rule triple_seq [OF triple_quiet [OF assms(1) yields_any assms(2)]]) (simp_all add: assms(3))

lemma triple_learn:
  assumes "quiet H m" "yields m V" "\<And>h r. H h \<Longrightarrow> P r \<Longrightarrow> E h r" "\<And>a. V a \<Longrightarrow> triple P (f a) Q E"
  shows "triple P (seq m f) Q E"
proof (rule triple_seq [OF triple_quiet [OF assms(1,2,3)]])
  fix a
  show "triple (\<lambda>r. V a \<and> P r) (f a) Q E"
    using assms(4) by (cases "V a") (auto simp: triple_def)
qed

lemma triple_modify:
  assumes "\<And>r. core (f r) = f (core r)" "\<And>r. P r \<Longrightarrow> R (f r)" "triple R n Q E"
  shows "triple P (seq (modifies f) (\<lambda>_. n)) Q E"
  using assms unfolding triple_def seq_def modifies_def by auto

lemma triple_read:
  assumes "\<And>r. f (core r) = f r" "\<And>a. triple (\<lambda>r. P r \<and> f r = a) (g a) Q E"
  shows "triple P (seq (reads f) g) Q E"
  using assms unfolding triple_def seq_def reads_def by auto

lemma quiet_settle_application [quiet_rules]: "quiet plain (settle_application x)"
  unfolding settle_application_def
  by (cases x; (rename_tac y; case_tac y)?; simp add: quiet_result quiet_halt quiet_guard)

text \<open>The application leaves its disks behind and nothing else.\<close>

lemma triple_run_application:
  assumes "\<And>r c. P r \<Longrightarrow> P (r\<lparr>rn_checkout := c\<rparr>)"
  shows "triple P (run_application pf x v rp) (\<lambda>_. P) E"
  using assms
  by (auto simp: triple_def run_application_def seq_def reads_def modifies_def result_def split: prod.splits)

lemma triple_result: "(\<And>r. P r \<Longrightarrow> Q a r) \<Longrightarrow> triple P (result a) Q E"
  by (simp add: triple_def result_def)

lemma triple_halt: "(\<And>r. P r \<Longrightarrow> E h r) \<Longrightarrow> triple P (halt_with h) Q E"
  by (simp add: triple_def halt_with_def)

lemma triple_option:
  assumes "y = None \<Longrightarrow> triple P m Q E" "\<And>x. y = Some x \<Longrightarrow> triple P (f x) Q E"
  shows "triple P (case y of None \<Rightarrow> m | Some x \<Rightarrow> f x) Q E"
  using assms by (cases y) simp_all

lemma triple_case_prod:
  assumes "\<And>x y. triple P (f x y) Q E"
  shows "triple P (case p of (x, y) \<Rightarrow> f x y) Q E"
  using assms by (cases p) simp

lemma triple_if:
  assumes "b \<Longrightarrow> triple P m Q E" "\<not> b \<Longrightarrow> triple P n Q E"
  shows "triple P (if b then m else n) Q E"
  using assms by simp

end
