(* ===== verification/Agent_Walk.thy ===== *)
theory Agent_Walk
  imports Agent_Logic
begin

text \<open>
  What a run does, whatever the outside answers: which calls its phases make and in which order
  (\<open>scripted\<close>), that its own record agrees with the state document (\<open>recorded\<close>), and that an
  approval follows a green acceptance and an approving evaluator (\<open>cleared\<close>).
\<close>

section \<open>The script\<close>

datatype seam = Call_Implement | Call_Repair | Call_Accept | Call_Evaluate | Call_Apply

fun seam_of :: "call \<Rightarrow> seam" where
  "seam_of (Implement b s) = Call_Implement"
| "seam_of (Repair b s) = Call_Repair"
| "seam_of (Accept s) = Call_Accept"
| "seam_of (Evaluate p b s) = Call_Evaluate"
| "seam_of Apply = Call_Apply"

text \<open>The one call a phase makes.\<close>

fun work :: "agent_state \<Rightarrow> seam list" where
  "work IMPLEMENTING = [Call_Implement]"
| "work ACCEPTANCE = [Call_Accept]"
| "work ACCEPTANCE_2 = [Call_Accept]"
| "work AUDITING = [Call_Evaluate]"
| "work FINAL_AUDITING = [Call_Evaluate]"
| "work REPAIRING = [Call_Repair]"
| "work s = []"

definition works :: "agent_state list \<Rightarrow> seam list" where
  "works vs = concat (map work vs)"

definition live :: "agent_state list \<Rightarrow> agent_state list" where
  "live vs = filter (\<lambda>s. s \<notin> set TERMINAL_STATES) vs"

definition seams :: "run \<Rightarrow> seam list" where
  "seams r = map seam_of (rn_calls r)"

text \<open>
  All the phases but the last did their work; the last may have; the application comes after an
  audit's work only.
\<close>

definition scripted :: "run \<Rightarrow> bool" where
  "scripted r = (let vs = live (rn_visited r) in
     seams r = works (butlast vs) \<or> seams r = works vs
     \<or> seams r = works vs @ [Call_Apply] \<and> last vs \<in> {AUDITING, FINAL_AUDITING})"

text \<open>The states visited are a walk of the table; the state document and its backup agree.\<close>

definition recorded :: "run \<Rightarrow> bool" where
  "recorded r = (\<exists>vs d. rn_visited r = PREFLIGHT # vs \<and> walk PREFLIGHT vs
     \<and> last (rn_visited r) = rn_state r \<and> state_json (rn_files r) = Holds d
     \<and> backup_json (rn_files r) = Holds d \<and> sound_doc d \<and> state d = rn_state r \<and> run_id d = i_run_id (rn_identity r)
     \<and> baseline_sha d = Some (i_baseline_sha (rn_identity r)))"

definition ready :: "agent_state \<Rightarrow> run \<Rightarrow> bool" where
  "ready s r = (recorded r \<and> rn_state r = s \<and> s \<notin> set TERMINAL_STATES
     \<and> seams r = works (butlast (live (rn_visited r))))"

definition worked :: "agent_state \<Rightarrow> run \<Rightarrow> bool" where
  "worked s r = (recorded r \<and> rn_state r = s \<and> s \<notin> set TERMINAL_STATES
     \<and> seams r = works (live (rn_visited r)))"

definition applying :: "agent_state \<Rightarrow> run \<Rightarrow> bool" where
  "applying s r = (recorded r \<and> rn_state r = s \<and> s \<in> {AUDITING, FINAL_AUDITING}
     \<and> seams r = works (live (rn_visited r)) @ [Call_Apply])"

definition halted :: "halt \<Rightarrow> run \<Rightarrow> bool" where
  "halted h r = (plain h \<and> scripted r
     \<and> (h = Escaped \<or> recorded r \<and> rn_state r \<notin> set TERMINAL_STATES))"

lemma live_snoc [simp]:
  "live (vs @ [t]) = (if t \<in> set TERMINAL_STATES then live vs else live vs @ [t])"
  by (simp add: live_def)

lemma works_snoc [simp]: "works (vs @ [t]) = works vs @ work t"
  by (simp add: works_def)

lemma live_last: "recorded r \<Longrightarrow> rn_state r \<notin> set TERMINAL_STATES
    \<Longrightarrow> live (rn_visited r) = butlast (live (rn_visited r)) @ [rn_state r]"
  unfolding recorded_def by (metis append_butlast_last_id list.distinct(1) live_snoc butlast_snoc)

lemma live_last_eq: "recorded r \<Longrightarrow> rn_state r \<notin> set TERMINAL_STATES
    \<Longrightarrow> last (live (rn_visited r)) = rn_state r"
  using live_last [of r] by (metis last_snoc)

lemma halted_rules:
  "plain h \<Longrightarrow> ready s r \<Longrightarrow> halted h r"
  "plain h \<Longrightarrow> worked s r \<Longrightarrow> halted h r"
  "plain h \<Longrightarrow> applying s r \<Longrightarrow> halted h r"
  by (auto simp: halted_def ready_def worked_def applying_def scripted_def Let_def live_last_eq
      TERMINAL_STATES_def)

lemma same_fields:
  assumes "rn_visited r' = rn_visited r" "rn_state r' = rn_state r" "rn_files r' = rn_files r"
    "rn_identity r' = rn_identity r"
  shows "recorded r' = recorded r"
    "rn_calls r' = rn_calls r \<Longrightarrow> ready s r' = ready s r"
    "rn_calls r' = rn_calls r \<Longrightarrow> worked s r' = worked s r"
    "rn_calls r' = rn_calls r \<Longrightarrow> applying s r' = applying s r"
  using assms by (simp_all add: recorded_def ready_def worked_def applying_def seams_def)

lemma logged:
  "ready s r \<Longrightarrow> work s = [seam_of c] \<Longrightarrow> worked s (r\<lparr>rn_calls := rn_calls r @ [c]\<rparr>)"
  using live_last [of r] same_fields(1) [of "r\<lparr>rn_calls := rn_calls r @ [c]\<rparr>" r]
  by (simp add: ready_def worked_def seams_def) (metis works_snoc)

lemma logged_apply:
  "worked s r \<Longrightarrow> s \<in> {AUDITING, FINAL_AUDITING} \<Longrightarrow> applying s (r\<lparr>rn_calls := rn_calls r @ [Apply]\<rparr>)"
  using same_fields(1) [of "r\<lparr>rn_calls := rn_calls r @ [Apply]\<rparr>" r]
  by (auto simp: worked_def applying_def seams_def)


section \<open>One legal step\<close>

text \<open>What the state directory holds after a step; the run's own record follows it.\<close>

lemma recorded_step:
  assumes rec: "recorded r"
    and adv: "advance t (run_changes r now reason) (rn_files r) = Inr (d, fs)"
    and kept: "save_state_backup d fs = Inr fs'"
    and r': "rn_files r' = fs'" "rn_state r' = t" "rn_visited r' = rn_visited r @ [t]"
      "rn_identity r' = rn_identity r"
  shows "recorded r'"
proof -
  obtain cur where cur: "state_json (rn_files r) = Holds cur" "transition (state cur) t"
    "keeps_identity (run_changes r now reason) cur" "sound_doc d" "fs = (rn_files r)\<lparr>state_json := Holds d\<rparr>"
    and d: "d = (if t \<in> set TERMINAL_STATES then merged (run_changes r now reason) t cur
             else merged (run_changes r now reason) t cur\<lparr>stop_reason := None\<rparr>)"
    using advance_InrD [OF adv] by blast
  obtain vs where vs: "rn_visited r = PREFLIGHT # vs" "walk PREFLIGHT vs"
    "last (rn_visited r) = rn_state r" "state cur = rn_state r"
    "run_id cur = i_run_id (rn_identity r)" "baseline_sha cur = Some (i_baseline_sha (rn_identity r))"
    using rec cur(1) by (auto simp: recorded_def)
  have same: "state d = t" "run_id d = run_id cur" "baseline_sha d = baseline_sha cur"
    using d keeps_identity_merged [OF cur(3)] by (auto split: if_splits)
  have "state_json fs' = Holds d" "backup_json fs' = Holds d"
    using kept cur(5) by (auto simp: save_state_backup_iff)
  then show ?thesis
    using vs cur(2,4) same r' by (auto simp: recorded_def)
qed

lemma triple_on_files:
  assumes "\<And>r fs. P r \<Longrightarrow> f (rn_files r) = Inr fs \<Longrightarrow> Q () (r\<lparr>rn_files := fs\<rparr>)" "\<And>r. P r \<Longrightarrow> E Escaped r"
  shows "triple P (on_files w f) Q E"
  unfolding on_files_def
proof (rule triple_read, simp)
  fix x
  show "triple (\<lambda>r. P r \<and> f (rn_files r) = x) (case x of Inl e \<Rightarrow> halt_with Escaped
     | Inr fs \<Rightarrow> seq (outside (w_disk w)) (\<lambda>ok. seq (escape_unless ok) (\<lambda>_.
         modifies (\<lambda>r. r\<lparr>rn_files := fs\<rparr>)))) Q E"
  proof (cases x)
    case (Inl e)
    then show ?thesis by (auto intro!: triple_halt assms(2))
  next
    case (Inr fs)
    have "triple (\<lambda>r. P r \<and> f (rn_files r) = x) (modifies (\<lambda>r. r\<lparr>rn_files := fs\<rparr>)) Q E"
      unfolding triple_def modifies_def
    proof (intro allI impI, unfold prod.case sum.case)
      fix r
      assume "P (core r) \<and> f (rn_files (core r)) = x"
      with assms(1) [of "core r" fs] Inr show "Q () (core (r\<lparr>rn_files := fs\<rparr>))"
        by simp
    qed
    then show ?thesis unfolding Inr sum.case
      by (intro triple_skip [OF quiet_outside [of "\<lambda>h. h = Escaped"]]
          triple_skip [OF quiet_escape_unless [of "\<lambda>h. h = Escaped"]]) (auto intro: assms(2))
  qed
qed

lemma triple_advance:
  assumes step: "\<And>r now d fs fs' r'. P r \<Longrightarrow> advance t (run_changes r now reason) (rn_files r) = Inr (d, fs)
      \<Longrightarrow> save_state_backup d fs = Inr fs'
      \<Longrightarrow> r' = r\<lparr>rn_files := fs', rn_state := t, rn_visited := rn_visited r @ [t]\<rparr> \<Longrightarrow> Q () r'"
    and escape: "\<And>r fs. P r \<Longrightarrow> binding_json fs = binding_json (rn_files r)
      \<Longrightarrow> E Escaped (r\<lparr>rn_files := fs\<rparr>)" "\<And>r. Q () r \<Longrightarrow> E Escaped r"
  shows "triple P (advance_run w t reason) Q E"
proof -
  have same: "run_changes (core r) now reason = run_changes r now reason" for r now
    by (simp add: run_changes_def)
  have escape_now: "P r \<Longrightarrow> E Escaped r" for r
    using escape(1) [of r "rn_files r"] by simp
  let ?H = "\<lambda>h. h = Escaped"
  let ?adv = "\<lambda>now r. advance t (run_changes r now reason) (rn_files r)"
  let ?half = "\<lambda>d fs r'. \<exists>r now. P r \<and> ?adv now r = Inr (d, fs) \<and> r' = r\<lparr>rn_files := fs\<rparr>"
  let ?done = "\<lambda>d fs r'. \<exists>r now fs'. P r \<and> ?adv now r = Inr (d, fs) \<and> save_state_backup d fs = Inr fs'
      \<and> r' = r\<lparr>rn_files := fs'\<rparr>"
  have tail: "triple (?half d fs) (seq (on_files w (save_state_backup d)) (\<lambda>_.
         seq (modifies (\<lambda>r. r\<lparr>rn_state := t, rn_visited := rn_visited r @ [t]\<rparr>)) (\<lambda>_.
         append_event w (event_of Ev_STATE_TRANSITION t)))) Q E" for d fs
  proof (rule triple_seq [where R = "\<lambda>_. ?done d fs"])
    show "triple (?half d fs) (on_files w (save_state_backup d)) (\<lambda>_. ?done d fs) E"
    proof (rule triple_on_files)
      fix r fs'
      assume "?half d fs r" "save_state_backup d (rn_files r) = Inr fs'"
      then obtain q now where "P q" "?adv now q = Inr (d, fs)" "save_state_backup d fs = Inr fs'"
        "r\<lparr>rn_files := fs'\<rparr> = q\<lparr>rn_files := fs'\<rparr>" by auto
      then show "?done d fs (r\<lparr>rn_files := fs'\<rparr>)" by blast
    next
      fix r
      assume "?half d fs r"
      then obtain q now where q: "P q" "?adv now q = Inr (d, fs)" "r = q\<lparr>rn_files := fs\<rparr>" by blast
      have "binding_json fs = binding_json (rn_files q)" using advance_InrD [OF q(2)] by auto
      then show "E Escaped r" using escape(1) [OF q(1)] q(3) by simp
    qed
  next
    fix a :: unit
    show "triple (?done d fs) (seq (modifies (\<lambda>r. r\<lparr>rn_state := t, rn_visited := rn_visited r @ [t]\<rparr>)) (\<lambda>_.
         append_event w (event_of Ev_STATE_TRANSITION t))) Q E"
      by (rule triple_modify [where R = "Q ()"])
        (auto simp: core_def intro: step escape(2) triple_tail [OF quiet_append_event [of ?H]])
  qed
  show ?thesis
    unfolding advance_run_def
  proof (rule triple_skip [OF quiet_outside [of ?H]])
    fix now
    show "triple P (seq (reads (\<lambda>r. ?adv now r)) (\<lambda>x. case x of
       Inl e \<Rightarrow> halt_with Escaped
     | Inr (doc, fs) \<Rightarrow> seq (outside (w_disk w)) (\<lambda>ok. seq (escape_unless ok) (\<lambda>_.
         seq (modifies (\<lambda>r. r\<lparr>rn_files := fs\<rparr>)) (\<lambda>_.
         seq (on_files w (save_state_backup doc)) (\<lambda>_.
         seq (modifies (\<lambda>r. r\<lparr>rn_state := t, rn_visited := rn_visited r @ [t]\<rparr>)) (\<lambda>_.
         append_event w (event_of Ev_STATE_TRANSITION t)))))))) Q E"
    proof (rule triple_read, simp add: same)
      fix x
      show "triple (\<lambda>r. P r \<and> ?adv now r = x) (case x of Inl e \<Rightarrow> halt_with Escaped
     | Inr (doc, fs) \<Rightarrow> seq (outside (w_disk w)) (\<lambda>ok. seq (escape_unless ok) (\<lambda>_.
         seq (modifies (\<lambda>r. r\<lparr>rn_files := fs\<rparr>)) (\<lambda>_.
         seq (on_files w (save_state_backup doc)) (\<lambda>_.
         seq (modifies (\<lambda>r. r\<lparr>rn_state := t, rn_visited := rn_visited r @ [t]\<rparr>)) (\<lambda>_.
         append_event w (event_of Ev_STATE_TRANSITION t))))))) Q E"
      proof (cases x)
        case (Inl e)
        then show ?thesis by (auto intro!: triple_halt escape_now)
      next
        case (Inr p)
        obtain d fs where p: "p = (d, fs)" by (cases p)
        have "triple (\<lambda>r. P r \<and> ?adv now r = x) (seq (modifies (\<lambda>r. r\<lparr>rn_files := fs\<rparr>)) (\<lambda>_.
         seq (on_files w (save_state_backup d)) (\<lambda>_.
         seq (modifies (\<lambda>r. r\<lparr>rn_state := t, rn_visited := rn_visited r @ [t]\<rparr>)) (\<lambda>_.
         append_event w (event_of Ev_STATE_TRANSITION t))))) Q E"
          by (rule triple_modify [OF _ _ tail]) (use Inr p in \<open>auto simp: core_def\<close>)
        then show ?thesis unfolding Inr p sum.case prod.case
          by (intro triple_skip [OF quiet_outside [of ?H]]
              triple_skip [OF quiet_escape_unless [of ?H]]) (auto intro: escape_now)
      qed
    qed
  qed (auto intro: escape_now)
qed

text \<open>Into a working phase.\<close>

lemma triple_enter:
  assumes "t \<notin> set TERMINAL_STATES"
  shows "triple (worked s) (advance_run w t reason) (\<lambda>_. ready t) halted"
proof (rule triple_advance)
  fix r now d fs fs' r'
  assume w: "worked s r" and step: "advance t (run_changes r now reason) (rn_files r) = Inr (d, fs)"
    "save_state_backup d fs = Inr fs'"
    and r': "r' = r\<lparr>rn_files := fs', rn_state := t, rn_visited := rn_visited r @ [t]\<rparr>"
  have "recorded r'" by (rule recorded_step [OF _ step]) (use w r' in \<open>simp_all add: worked_def\<close>)
  then show "ready t r'" using w assms r' by (simp add: ready_def worked_def seams_def)
next
  fix r fs
  assume "worked s r"
  then show "halted Escaped (r\<lparr>rn_files := fs\<rparr>)"
    by (simp add: halted_def scripted_def worked_def seams_def Let_def)
next
  fix r
  assume "ready t r"
  then show "halted Escaped r" by (simp add: halted_rules)
qed


section \<open>The phases\<close>

lemma skip_ready:
  "quiet plain m \<Longrightarrow> (\<And>a. triple (ready s) (f a) Q halted) \<Longrightarrow> triple (ready s) (seq m f) Q halted"
  by (rule triple_skip [where H = plain]) (auto intro: halted_rules)

lemma skip_worked:
  "quiet plain m \<Longrightarrow> (\<And>a. triple (worked s) (f a) Q halted) \<Longrightarrow> triple (worked s) (seq m f) Q halted"
  by (rule triple_skip [where H = plain]) (auto intro: halted_rules)

lemma skip_applying:
  "quiet plain m \<Longrightarrow> (\<And>a. triple (applying s) (f a) Q halted) \<Longrightarrow> triple (applying s) (seq m f) Q halted"
  by (rule triple_skip [where H = plain]) (auto intro: halted_rules)

lemma log_ready:
  assumes "work s = [seam_of c]" "triple (worked s) n Q halted"
  shows "triple (ready s) (seq (log_call c) (\<lambda>_. n)) Q halted"
  unfolding log_call_def by (rule triple_modify) (use assms in \<open>auto intro: logged\<close>)

lemma log_apply:
  assumes "s \<in> {AUDITING, FINAL_AUDITING}" "triple (applying s) n Q halted"
  shows "triple (worked s) (seq (log_call Apply) (\<lambda>_. n)) Q halted"
  unfolding log_call_def by (rule triple_modify) (use assms in \<open>auto intro: logged_apply\<close>)

text \<open>An update of a field the script does not look at.\<close>

definition aside :: "(run \<Rightarrow> run) \<Rightarrow> bool" where
  "aside f = (\<forall>r. core (f r) = f (core r) \<and> rn_visited (f r) = rn_visited r \<and> rn_state (f r) = rn_state r
     \<and> rn_files (f r) = rn_files r \<and> rn_identity (f r) = rn_identity r \<and> rn_calls (f r) = rn_calls r)"

lemma aside_fields:
  assumes "aside f"
  shows "core (f r) = f (core r)" "ready s (f r) = ready s r" "worked s (f r) = worked s r"
    "applying s (f r) = applying s r"
  using assms same_fields [of "f r" r] by (auto simp: aside_def)

lemma modify_aside:
  assumes "aside f"
  shows "triple (ready s) n Q E \<Longrightarrow> triple (ready s) (seq (modifies f) (\<lambda>_. n)) Q E"
    "triple (worked s) n Q E \<Longrightarrow> triple (worked s) (seq (modifies f) (\<lambda>_. n)) Q E"
    "triple (applying s) n Q E \<Longrightarrow> triple (applying s) (seq (modifies f) (\<lambda>_. n)) Q E"
  by (rule triple_modify, auto simp: aside_fields [OF assms])+

lemma tail_aside: "aside f \<Longrightarrow> triple (worked s) (modifies f) (\<lambda>_. worked s) E"
  by (auto simp: triple_def modifies_def aside_fields)

lemma triple_implement: "triple (ready IMPLEMENTING) (implement pf w) (\<lambda>_. worked IMPLEMENTING) halted"
  unfolding implement_def
  by (rule log_ready modify_aside skip_ready skip_worked triple_case_prod triple_result quiet_rules | simp add: aside_def)+

lemma triple_repair: "triple (ready REPAIRING) (repair_call pf w v) (\<lambda>_. worked REPAIRING) halted"
  unfolding repair_call_def
  by (rule log_ready modify_aside skip_ready skip_worked triple_case_prod triple_result quiet_rules | simp add: aside_def)+

lemma triple_run_gate: "triple (worked s) (run_gate pf w v n) (\<lambda>_. worked s) halted"
  unfolding run_gate_def
  by (rule modify_aside skip_worked triple_case_prod triple_result quiet_rules | simp add: aside_def)+

lemma triple_accept:
  assumes "work s = [Call_Accept]"
  shows "triple (ready s) (accept pf w v again) (\<lambda>_. worked s) halted"
  unfolding accept_def Let_def
  by (rule log_ready modify_aside triple_seq [OF triple_run_gate] skip_ready skip_worked triple_case_prod triple_if triple_result quiet_rules
    | simp add: aside_def assms)+

lemma triple_record_findings: "triple (worked s) (record_findings w p rep n) (\<lambda>_. worked s) halted"
  unfolding record_findings_def
  by (rule modify_aside tail_aside skip_worked triple_result quiet_rules | simp add: aside_def)+

lemma halt_worked: "plain h \<Longrightarrow> triple (worked s) (halt_with h) Q halted"
  by (rule triple_halt) (rule halted_rules)

lemma triple_verdict: "triple (worked s) (verdict pf w p rep n) (\<lambda>_. worked s) halted"
  unfolding verdict_def Let_def
  by (rule triple_seq [OF triple_record_findings] modify_aside skip_worked halt_worked triple_if
      triple_option triple_result quiet_rules | simp add: aside_def)+

lemma triple_audit:
  assumes "work s = [Call_Evaluate]"
  shows "triple (ready s) (audit pf w s) (\<lambda>_. worked s) halted"
  unfolding audit_def
  by (rule log_ready modify_aside triple_verdict skip_ready skip_worked triple_case_prod triple_result
      quiet_rules | simp add: aside_def assms)+

definition approved_end :: "run \<Rightarrow> bool" where
  "approved_end r = (recorded r \<and> rn_state r = APPROVED
     \<and> seams r = works (live (rn_visited r)) @ [Call_Apply]
     \<and> last (live (rn_visited r)) \<in> {AUDITING, FINAL_AUDITING})"

lemma approved_halted: "approved_end r \<Longrightarrow> halted Escaped r"
  by (auto simp: approved_end_def halted_def scripted_def Let_def)

lemma triple_to_approved:
  "triple (applying s) (advance_run w APPROVED reason) (\<lambda>_. approved_end) halted"
proof (rule triple_advance)
  fix r now d fs fs' r'
  assume w: "applying s r" and step: "advance APPROVED (run_changes r now reason) (rn_files r) = Inr (d, fs)"
    "save_state_backup d fs = Inr fs'"
    and r': "r' = r\<lparr>rn_files := fs', rn_state := APPROVED, rn_visited := rn_visited r @ [APPROVED]\<rparr>"
  have "recorded r'" by (rule recorded_step [OF _ step]) (use w r' in \<open>simp_all add: applying_def\<close>)
  moreover have "last (live (rn_visited r)) = s"
    using w live_last_eq [of r] by (auto simp: applying_def TERMINAL_STATES_def)
  ultimately show "approved_end r'" using w r'
    by (simp add: approved_end_def applying_def seams_def TERMINAL_STATES_def)
next
  fix r fs
  assume w: "applying s r"
  then have "last (live (rn_visited r)) = s"
    using live_last_eq [of r] by (auto simp: applying_def TERMINAL_STATES_def)
  with w show "halted Escaped (r\<lparr>rn_files := fs\<rparr>)"
    by (simp add: halted_def scripted_def applying_def seams_def Let_def)
qed (rule approved_halted)

lemma triple_approve:
  assumes "s \<in> {AUDITING, FINAL_AUDITING}"
  shows "triple (worked s) (approve pf w v rp) (\<lambda>_. approved_end) halted"
proof -
  have release: "triple approved_end (release_workspace w) (\<lambda>_. approved_end) halted"
    by (rule triple_tail [OF quiet_release [of "\<lambda>h. h = Escaped"]]) (auto intro: approved_halted)
  have last: "triple (applying s) (seq (advance_run w APPROVED reason) (\<lambda>_. release_workspace w))
      (\<lambda>_. approved_end) halted" for reason
    by (rule triple_seq [OF triple_to_approved]) (rule release)
  have moving: "triple (applying s) (run_application pf x v rp) (\<lambda>_. applying s) halted" for x
    by (rule triple_run_application) (subst aside_fields(4), simp_all add: aside_def)
  show ?thesis unfolding approve_def
    by (rule log_apply [OF assms] triple_seq [OF moving] modify_aside last skip_applying quiet_rules | simp add: aside_def assms)+
qed

lemma skip_checkpoint:
  "triple (worked s) n Q halted \<Longrightarrow> triple (worked s) (seq (checkpoint w p) (\<lambda>_. n)) Q halted"
  by (rule skip_worked) (rule quiet_rules, assumption)

lemma enter: "t \<notin> set TERMINAL_STATES \<Longrightarrow> triple (ready t) n Q halted
    \<Longrightarrow> triple (worked s) (seq (advance_run w t reason) (\<lambda>_. n)) Q halted"
  by (rule triple_seq [OF triple_enter])

lemmas phase_rules = skip_checkpoint enter triple_seq [OF triple_implement]
  triple_seq [OF triple_repair] triple_seq [OF triple_accept] triple_seq [OF triple_audit]
  triple_approve triple_option triple_if halt_worked quiet_rules

lemma triple_repair_road: "triple (worked s) (repair_road pf w v) (\<lambda>_. approved_end) halted"
  unfolding repair_road_def by (rule phase_rules | simp add: TERMINAL_STATES_def)+

lemma triple_walk_phases: "triple (worked s) (walk_phases pf w) (\<lambda>_. approved_end) halted"
  unfolding walk_phases_def
  by (rule triple_repair_road phase_rules | simp add: TERMINAL_STATES_def)+

lemma triple_open_workspace:
  "triple (worked s) (open_workspace w) (\<lambda>_. worked s) halted"
proof -
  have stored: "triple (worked s) (on_files w (write_binding b)) (\<lambda>_. worked s) halted" for b
    by (rule triple_on_files)
      (auto simp: write_binding_iff worked_def recorded_def seams_def intro: halted_rules)
  have named: "triple (worked s) n Q halted \<Longrightarrow> triple (worked s) (seq (modifies (\<lambda>r. r\<lparr>rn_workspace := Some wid,
            rn_identity := (rn_identity r)\<lparr>i_workspace_id := wid\<rparr>\<rparr>)) (\<lambda>_. n)) Q halted"
    for n :: "unit phase" and Q wid
    by (rule triple_modify) (auto simp: worked_def recorded_def seams_def)
  show ?thesis unfolding open_workspace_def
    by (rule stored named skip_worked triple_option halt_worked quiet_rules)+
qed

lemma triple_run_body: "triple (worked s) (run_body pf w) (\<lambda>_. approved_end) halted"
proof -
  have gate: "triple (worked s) (gate_check w) (\<lambda>_. worked s) halted"
    unfolding gate_check_def
    by (rule triple_option modify_aside skip_worked halt_worked triple_result quiet_rules | simp add: aside_def)+
  show ?thesis unfolding run_body_def
    by (rule triple_seq [OF gate] triple_seq [OF triple_open_workspace] skip_worked triple_walk_phases quiet_rules)+
qed


section \<open>What an approval rests on\<close>

definition approving :: "run \<Rightarrow> bool" where
  "approving r = (rn_audit_rounds r \<noteq> [] \<and> au_status (last (rn_audit_rounds r)) = St_APPROVED)"

text \<open>Acceptance green (\<open>a\<close>), evaluator approving (\<open>b\<close>), the one repair spent (\<open>c\<close>).\<close>

definition facts :: "bool \<Rightarrow> bool \<Rightarrow> bool \<Rightarrow> run \<Rightarrow> bool" where
  "facts a b c r = ((a \<longrightarrow> rn_acceptance_passed r) \<and> (b \<longrightarrow> approving r) \<and> 0 \<le> repair (rn_rounds r)
     \<and> (c \<longrightarrow> 1 \<le> repair (rn_rounds r)))"

definition any :: "halt \<Rightarrow> run \<Rightarrow> bool" where
  "any h r = True"

lemma facts_cong:
  "rn_acceptance_passed r' = rn_acceptance_passed r \<Longrightarrow> rn_audit_rounds r' = rn_audit_rounds r
     \<Longrightarrow> repair (rn_rounds r') = repair (rn_rounds r) \<Longrightarrow> facts a b c r' = facts a b c r"
  by (simp add: facts_def approving_def)

lemma skip_any: "quiet plain m \<Longrightarrow> (\<And>a. triple P (f a) Q any) \<Longrightarrow> triple P (seq m f) Q any"
  by (rule triple_skip [where H = plain]) (simp_all add: any_def)

lemma tail_any: "quiet plain m \<Longrightarrow> (\<And>a r. P r \<Longrightarrow> Q a r) \<Longrightarrow> triple P m Q any"
  by (rule triple_tail [where H = plain]) (simp_all add: any_def)

lemma halt_any: "triple P (halt_with h) Q any"
  by (rule triple_halt) (simp add: any_def)

lemma modify_any:
  "(\<And>r. core (f r) = f (core r)) \<Longrightarrow> (\<And>r. P r \<Longrightarrow> P (f r)) \<Longrightarrow> triple P n Q any
     \<Longrightarrow> triple P (seq (modifies f) (\<lambda>_. n)) Q any"
  by (rule triple_modify)

lemma stop_any: "(\<not> b \<Longrightarrow> triple P (f ()) Q any) \<Longrightarrow> triple P (seq (stop_when b s) f) Q any"
  by (cases b) (auto simp: triple_def stop_when_def halt_with_def result_def seq_def any_def)

lemma guard_any:
  assumes "\<And>a. x = Inr a \<Longrightarrow> triple P (f a) Q any"
  shows "triple P (seq (guard x) f) Q any"
proof (rule triple_learn [OF quiet_guard])
  show "yields (guard x) (\<lambda>a. x = Inr a)"
    by (auto simp: yields_def guard_def halt_with_def result_def split: sum.splits option.splits)
qed (use assms in \<open>simp_all add: any_def\<close>)

lemma modify_last: "(\<And>r. core (f r) = f (core r)) \<Longrightarrow> (\<And>r. P r \<Longrightarrow> Q () (f r)) \<Longrightarrow> triple P (modifies f) Q any"
  by (auto simp: triple_def modifies_def)

lemma facts_advance: "triple (facts a b c) (advance_run w t reason) (\<lambda>_. facts a b c) any"
  by (rule triple_advance) (auto simp: any_def cong: facts_cong)

lemmas facts_rules = skip_any modify_any triple_case_prod triple_result halt_any quiet_rules

lemma facts_implement: "triple (facts a b c) (implement pf w) (\<lambda>_. facts a b c) any"
  unfolding implement_def log_call_def
  by (rule facts_rules | simp add: facts_def approving_def)+

lemma facts_repair: "triple (facts a b c) (repair_call pf w v) (\<lambda>_. facts a b True) any"
proof -
  have count: "triple (facts a b True) n Q any \<Longrightarrow>
      triple (facts a b c) (seq (modifies (\<lambda>r. r\<lparr>rn_rounds := (rn_rounds r)\<lparr>repair := repair (rn_rounds r) + 1\<rparr>\<rparr>)) (\<lambda>_. n)) Q any"
    for n :: "verified_change_set phase" and Q
    by (rule triple_modify) (auto simp: facts_def approving_def)
  show ?thesis unfolding repair_call_def log_call_def
    by (rule count facts_rules | simp add: facts_def approving_def)+
qed

lemma facts_run_gate: "triple (facts a b c) (run_gate pf w v n) (\<lambda>_. facts a b c) any"
  unfolding run_gate_def
  by (rule facts_rules | simp add: facts_def approving_def)+

lemma facts_accept: "triple (facts a b c) (accept pf w v again) (\<lambda>x. facts (x \<noteq> None) b c) any"
proof -
  have reset: "triple (facts False b c) n Q any \<Longrightarrow>
      triple (facts a b c) (seq (modifies (\<lambda>r. r\<lparr>rn_acceptance_passed := False\<rparr>)) (\<lambda>_. n)) Q any"
    for n :: "report option phase" and Q
    by (rule triple_modify) (auto simp: facts_def approving_def)
  have set: "triple (facts True b c) n Q any \<Longrightarrow>
      triple (facts False b c) (seq (modifies (\<lambda>r. r\<lparr>rn_acceptance_passed := True\<rparr>)) (\<lambda>_. n)) Q any"
    for n :: "report option phase" and Q
    by (rule triple_modify) (auto simp: facts_def approving_def)
  show ?thesis unfolding accept_def log_call_def Let_def
    by (rule reset set triple_seq [OF facts_run_gate] triple_if facts_rules | simp add: facts_def approving_def)+
qed

lemma facts_record_findings:
  "triple (facts a b c) (record_findings w p rep n) (\<lambda>_. facts a (rep_status rep = St_APPROVED) c) any"
proof -
  have round: "triple (facts a (rep_status rep = St_APPROVED) c) n' Q any \<Longrightarrow>
      triple (facts a b c) (seq (modifies (\<lambda>r. r\<lparr>rn_audit_rounds := rn_audit_rounds r @
       [\<lparr>au_round = n, au_state = p, au_kind = w_audit_kind w, au_status = rep_status rep,
         au_findings = fs, au_summary = s\<rparr>]\<rparr>)) (\<lambda>_. n')) Q any"
    for n' :: "unit phase" and Q fs s
    by (rule triple_modify) (auto simp: facts_def approving_def)
  show ?thesis unfolding record_findings_def
    by (rule round modify_last facts_rules | simp add: facts_def approving_def)+
qed

lemma max_repairs_le: "max_repairs r \<le> 1"
  by (simp add: max_repairs_def max_repair_rounds_default_def)

lemma facts_verdict:
  "triple (facts a b c) (verdict pf w p rep n) (\<lambda>x r. facts a x c r \<and> (c \<longrightarrow> x)) any"
proof -
  have spent: "triple (facts a b c) (seq (reads (\<lambda>r. max_repairs r \<le> repair (rn_rounds r))) (\<lambda>spent.
          seq (stop_when spent s) (\<lambda>_. result False))) (\<lambda>x r. facts a x c r \<and> (c \<longrightarrow> x)) any" for b s
  proof (rule triple_read)
    fix x
    show "triple (\<lambda>r. facts a b c r \<and> (max_repairs r \<le> repair (rn_rounds r)) = x)
       (seq (stop_when x s) (\<lambda>_. result False)) (\<lambda>x r. facts a x c r \<and> (c \<longrightarrow> x)) any"
    proof (intro stop_any triple_result)
      fix r
      assume "\<not> x" "facts a b c r \<and> (max_repairs r \<le> repair (rn_rounds r)) = x"
      with max_repairs_le [of r] show "facts a False c r \<and> (c \<longrightarrow> False)"
        by (auto simp: facts_def)
    qed
  qed (simp add: max_repairs_def)
  have fine: "triple (facts a (rep_status rep = St_APPROVED) c) (result True)
      (\<lambda>x r. facts a x c r \<and> (c \<longrightarrow> x)) any" if "rep_status rep = St_APPROVED"
    by (rule triple_result) (use that in simp)
  show ?thesis unfolding verdict_def Let_def
    by (rule triple_seq [OF facts_record_findings] fine spent triple_if triple_option facts_rules
      | simp add: facts_def approving_def)+
qed


lemma facts_audit:
  "triple (facts a b c) (audit pf w p) (\<lambda>x r. facts a x c r \<and> (c \<longrightarrow> x)) any"
  unfolding audit_def log_call_def
  by (rule facts_verdict facts_rules | simp add: facts_def approving_def)+

text \<open>The gates of an application that moved files, over the run it ended in.\<close>

definition applied_by :: "platform \<Rightarrow> application_report \<Rightarrow> run \<Rightarrow> bool" where
  "applied_by pf rep r = (\<exists>w a v rp d d'. rn_checkout r = Some (d, d') \<and> pw_sha w = pf_sha pf
     \<and> ai_identity a = rn_identity r
     \<and> apply_accepted_candidate w (pf_fold pf) a v rp (rn_receipt r) d = (Inr rep, d'))"

lemma applied_by_core [simp]: "applied_by pf rep (core r) = applied_by pf rep r"
  by (simp add: applied_by_def)

lemma applied_by_files [simp]: "applied_by pf rep (r\<lparr>rn_applied_files := fs\<rparr>) = applied_by pf rep r"
  by (simp add: applied_by_def)

lemma applied_byI:
  "rn_checkout r = Some (d, d') \<Longrightarrow> pw_sha w = pf_sha pf \<Longrightarrow> ai_identity a = rn_identity r
     \<Longrightarrow> apply_accepted_candidate w (pf_fold pf) a v rp (rn_receipt r) d = (Inr rep, d') \<Longrightarrow> applied_by pf rep r"
  unfolding applied_by_def by blast

definition moved :: "platform \<Rightarrow> run \<Rightarrow> bool" where
  "moved pf r = (\<exists>rep. applied_by pf rep r \<and> rn_applied_files r = ar_applied_files rep)"

definition cleared :: "platform \<Rightarrow> run \<Rightarrow> bool" where
  "cleared pf r = (rn_acceptance_passed r \<and> approving r \<and> moved pf r)"

lemma facts_application:
  "triple (facts True True c) (run_application pf x v rp)
     (\<lambda>y r. facts True True c r \<and> (\<forall>rep. y = Inr rep \<longrightarrow> applied_by pf rep r)) any"
proof (unfold triple_def, intro allI impI)
  fix r assume f: "facts True True c (core r)"
  obtain aw aid d where x: "x = (aw, aid, d)" by (cases x)
  obtain y d' where y: "apply_accepted_candidate (aw\<lparr>pw_sha := pf_sha pf\<rparr>) (pf_fold pf)
      \<lparr>ai_application_id = aid, ai_identity = rn_identity r\<rparr> v rp (rn_receipt r) d = (y, d')"
    by (cases "apply_accepted_candidate (aw\<lparr>pw_sha := pf_sha pf\<rparr>) (pf_fold pf)
      \<lparr>ai_application_id = aid, ai_identity = rn_identity r\<rparr> v rp (rn_receipt r) d")
  then have run: "run_application pf x v rp r = (Inr y, r\<lparr>rn_checkout := Some (d, d')\<rparr>)"
    by (simp add: run_application_def x seq_def reads_def modifies_def result_def)
  have "applied_by pf rep (r\<lparr>rn_checkout := Some (d, d')\<rparr>)" if "y = Inr rep" for rep
    by (rule applied_byI [of _ d d' "aw\<lparr>pw_sha := pf_sha pf\<rparr>" _ "\<lparr>ai_application_id = aid, ai_identity = rn_identity r\<rparr>"])
      (use y that in simp_all)
  with f show "case run_application pf x v rp r of (Inl h, r') \<Rightarrow> any h (core r')
      | (Inr y, r') \<Rightarrow> facts True True c (core r') \<and> (\<forall>rep. y = Inr rep \<longrightarrow> applied_by pf rep (core r'))"
    by (simp add: run facts_def approving_def del: core_update)
qed

lemma facts_settle:
  "triple (\<lambda>r. facts True True c r \<and> (\<forall>rep. y = Inr rep \<longrightarrow> applied_by pf rep r)) (settle_application y)
     (\<lambda>files r. facts True True c r \<and> (\<exists>rep. files = ar_applied_files rep \<and> applied_by pf rep r)) any"
  by (auto simp: settle_application_def triple_def any_def guard_def halt_with_def result_def
      split: sum.splits option.splits app_exit.splits)

lemma facts_approve: "triple (facts True True c) (approve pf w v rp) (\<lambda>_. cleared pf) any"
proof -
  have last: "triple (cleared pf) (seq (advance_run w APPROVED reason) (\<lambda>_. release_workspace w))
      (\<lambda>_. cleared pf) any" for reason
  proof (rule triple_seq)
    show "triple (cleared pf) (advance_run w APPROVED reason) (\<lambda>_. cleared pf) any"
      by (rule triple_advance) (simp_all add: any_def cleared_def approving_def moved_def applied_by_def)
  qed (rule tail_any; (rule quiet_rules)?; simp)
  have keep: "triple (\<lambda>r. facts True True c r \<and> (\<exists>rep. files = ar_applied_files rep \<and> applied_by pf rep r))
     (seq (modifies (\<lambda>r. r\<lparr>rn_applied_files := files\<rparr>)) (\<lambda>_.
     seq (advance_run w APPROVED reason) (\<lambda>_. release_workspace w))) (\<lambda>_. cleared pf) any" for files reason
    by (rule triple_modify [OF _ _ last])
      (auto simp: facts_def cleared_def approving_def moved_def)
  show ?thesis unfolding approve_def log_call_def
    by (rule triple_seq [OF facts_application] triple_seq [OF facts_settle] keep facts_rules
      | simp add: facts_def approving_def)+
qed

lemma facts_weaken: "facts a b c r \<Longrightarrow> (a' \<longrightarrow> a) \<Longrightarrow> (b' \<longrightarrow> b) \<Longrightarrow> (c' \<longrightarrow> c) \<Longrightarrow> facts a' b' c' r"
  by (auto simp: facts_def)

lemma facts_repair_road: "triple (facts a b c) (repair_road pf w v) (\<lambda>_. cleared pf) any"
proof -
  have ending: "triple (\<lambda>r. facts (rp \<noteq> None) x True r \<and> (True \<longrightarrow> x)) (seq (checkpoint w FINAL_AUDITING) (\<lambda>_.
     case rp of None \<Rightarrow> halt_with Escaped | Some p \<Rightarrow> approve pf w v' p)) (\<lambda>_. cleared pf) any" for x rp v'
  proof (rule skip_any, rule quiet_rules, rule triple_option, rule halt_any)
    fix p
    assume "rp = Some p"
    then show "triple (\<lambda>r. facts (rp \<noteq> None) x True r \<and> (True \<longrightarrow> x)) (approve pf w v' p) (\<lambda>_. cleared pf) any"
      by (intro triple_weaken [OF facts_approve]) (auto elim: facts_weaken)
  qed
  show ?thesis unfolding repair_road_def
    by (rule ending triple_seq [OF facts_advance] triple_seq [OF facts_repair] triple_seq [OF facts_accept]
        triple_seq [OF facts_audit] facts_rules)+
qed

lemma facts_walk_phases: "triple (facts a b c) (walk_phases pf w) (\<lambda>_. cleared pf) any"
proof -
  have audited: "triple (\<lambda>r. facts (Some p \<noteq> None) x c r \<and> (c \<longrightarrow> x)) (seq (checkpoint w AUDITING) (\<lambda>_.
     if x then approve pf w v p else repair_road pf w v)) (\<lambda>_. cleared pf) any" for x p v
  proof (rule skip_any, rule quiet_rules, rule triple_if)
    assume x
    then show "triple (\<lambda>r. facts (Some p \<noteq> None) x c r \<and> (c \<longrightarrow> x)) (approve pf w v p) (\<lambda>_. cleared pf) any"
      by (intro triple_weaken [OF facts_approve]) (auto elim: facts_weaken)
  next
    show "triple (\<lambda>r. facts (Some p \<noteq> None) x c r \<and> (c \<longrightarrow> x)) (repair_road pf w v) (\<lambda>_. cleared pf) any"
      by (rule triple_weaken [OF facts_repair_road]) auto
  qed
  have accepted: "triple (facts (rp \<noteq> None) b c) (seq (checkpoint w ACCEPTANCE) (\<lambda>_.
     case rp of None \<Rightarrow> repair_road pf w v
     | Some p \<Rightarrow> seq (advance_run w AUDITING None) (\<lambda>_.
         seq (audit pf w AUDITING) (\<lambda>approved. seq (checkpoint w AUDITING) (\<lambda>_.
         if approved then approve pf w v p else repair_road pf w v))))) (\<lambda>_. cleared pf) any" for rp v
  proof (rule skip_any, rule quiet_rules, rule triple_option, rule facts_repair_road)
    fix p
    assume "rp = Some p"
    then show "triple (facts (rp \<noteq> None) b c) (seq (advance_run w AUDITING None) (\<lambda>_.
         seq (audit pf w AUDITING) (\<lambda>approved. seq (checkpoint w AUDITING) (\<lambda>_.
         if approved then approve pf w v p else repair_road pf w v)))) (\<lambda>_. cleared pf) any"
      by (simp only:) (rule triple_seq [OF facts_advance] triple_seq [OF facts_audit] audited)+
  qed
  show ?thesis unfolding walk_phases_def
    by (rule accepted triple_seq [OF facts_advance] triple_seq [OF facts_implement]
        triple_seq [OF facts_accept] facts_rules)+
qed

lemma facts_run_body: "triple (facts a b c) (run_body pf w) (\<lambda>_. cleared pf) any"
proof -
  have gate: "triple (facts a b c) (gate_check w) (\<lambda>_. facts a b c) any"
    unfolding gate_check_def
    by (rule triple_option facts_rules | simp add: facts_def approving_def)+
  have stored: "triple (facts a b c) (on_files w f) (\<lambda>_. facts a b c) any" for f
    by (rule triple_on_files) (auto simp: any_def cong: facts_cong)
  have space: "triple (facts a b c) (open_workspace w) (\<lambda>_. facts a b c) any"
    unfolding open_workspace_def
    by (rule stored triple_option facts_rules | simp add: facts_def approving_def)+
  show ?thesis unfolding run_body_def
    by (rule triple_seq [OF gate] triple_seq [OF space] facts_walk_phases facts_rules)+
qed


section \<open>One whole run\<close>

lemma triple_InrD: "triple P m Q E \<Longrightarrow> m r = (Inr a, r') \<Longrightarrow> P (core r) \<Longrightarrow> Q a (core r')"
  by (auto simp: triple_def dest: spec [where x = r])

lemma triple_InlD: "triple P m Q E \<Longrightarrow> m r = (Inl h, r') \<Longrightarrow> P (core r) \<Longrightarrow> E h (core r')"
  by (auto simp: triple_def dest: spec [where x = r])

lemma on_core [simp]:
  "recorded (core r) = recorded r" "scripted (core r) = scripted r" "halted h (core r) = halted h r"
  "approved_end (core r) = approved_end r" "worked s (core r) = worked s r"
  "cleared pf (core r) = cleared pf r"
  by (simp_all add: recorded_def scripted_def halted_def approved_end_def worked_def seams_def
      cleared_def approving_def moved_def)

text \<open>The stop reason on disk.\<close>

definition reported :: "stop_reason \<Rightarrow> run \<Rightarrow> bool" where
  "reported x r = (\<exists>d. state_json (rn_files r) = Holds d \<and> stop_reason d = Some x)"

definition opened :: "run \<Rightarrow> bool" where
  "opened r = (rn_state r = PREFLIGHT \<and> rn_visited r = [PREFLIGHT] \<and> rn_calls r = []
     \<and> rn_audit_rounds r = [] \<and> repair (rn_rounds r) = 0)"

lemma opened_fresh: "opened (core (fresh_run w fs rec baseline f))"
  by (simp add: opened_def fresh_run_def zero_rounds_def)

lemma triple_open_state:
  "triple opened (open_state w) (\<lambda>_ r. worked PREFLIGHT r \<and> opened r) (\<lambda>h r. h = Escaped \<and> scripted r)"
proof -
  let ?E = "\<lambda>h r. h = Escaped \<and> scripted r"
  let ?H = "\<lambda>h. h = Escaped"
  have start: "opened r \<Longrightarrow> scripted r" for r
    by (simp add: opened_def scripted_def seams_def live_def works_def TERMINAL_STATES_def)
  let ?half = "\<lambda>d r. opened r \<and> state_json (rn_files r) = Holds d \<and> sound_doc d \<and> state d = PREFLIGHT
      \<and> run_id d = i_run_id (rn_identity r) \<and> baseline_sha d = Some (i_baseline_sha (rn_identity r))"
  have tail: "triple (?half d) (seq (on_files w (save_state_backup d)) (\<lambda>_.
     append_event w e)) (\<lambda>_ r. worked PREFLIGHT r \<and> opened r) ?E" for d e
  proof (rule triple_seq)
    show "triple (?half d) (on_files w (save_state_backup d)) (\<lambda>_ r. worked PREFLIGHT r \<and> opened r) ?E"
      by (rule triple_on_files)
        (auto simp: save_state_backup_iff worked_def recorded_def seams_def opened_def works_def live_def
          TERMINAL_STATES_def intro: start [unfolded opened_def])
  next
    show "triple (\<lambda>r. worked PREFLIGHT r \<and> opened r) (append_event w e)
        (\<lambda>_ r. worked PREFLIGHT r \<and> opened r) ?E"
      by (rule triple_tail [OF quiet_append_event [of ?H]]) (auto intro: start)
  qed
  have main: "triple opened (seq (reads (\<lambda>r. first_document r stamp)) (\<lambda>doc.
     seq (on_files w (write_state doc)) (\<lambda>_. seq (on_files w (save_state_backup doc)) (\<lambda>_.
     append_event w e)))) (\<lambda>_ r. worked PREFLIGHT r \<and> opened r) ?E" for stamp e
  proof (rule triple_read)
    fix doc
    show "triple (\<lambda>r. opened r \<and> first_document r stamp = doc) (seq (on_files w (write_state doc)) (\<lambda>_.
     seq (on_files w (save_state_backup doc)) (\<lambda>_. append_event w e)))
     (\<lambda>_ r. worked PREFLIGHT r \<and> opened r) ?E"
    proof (rule triple_seq [OF _ tail], rule triple_on_files)
      fix r fs
      assume o: "opened r \<and> first_document r stamp = doc" and wr: "write_state doc (rn_files r) = Inr fs"
      have doc: "state doc = PREFLIGHT" "run_id doc = i_run_id (rn_identity r)"
        "baseline_sha doc = Some (i_baseline_sha (rn_identity r))"
        using o by (auto simp: first_document_def)
      from o doc wr show "?half doc (r\<lparr>rn_files := fs\<rparr>)"
        by (auto simp: write_state_iff opened_def)
    qed (auto intro: start)
  qed (simp add: first_document_def)
  show ?thesis unfolding open_state_def
    by (rule triple_skip [OF quiet_outside [of ?H]]) (auto intro: start main)
qed

lemma triple_settle:
  assumes "plain_stop s"
  shows "triple (\<lambda>r. recorded r \<and> scripted r \<and> rn_state r \<notin> set TERMINAL_STATES) (settle_stop w s)
     (\<lambda>_ r. recorded r \<and> scripted r \<and> rn_state r = st_state s \<and> reported (st_reason s) r) (\<lambda>h r. scripted r)"
proof -
  let ?P = "\<lambda>r. recorded r \<and> scripted r \<and> rn_state r \<notin> set TERMINAL_STATES"
  let ?Q = "\<lambda>(_::unit) r. recorded r \<and> scripted r \<and> rn_state r = st_state s \<and> reported (st_reason s) r"
  have terminal: "st_state s \<in> set TERMINAL_STATES"
    using assms by (auto simp: plain_stop_def TERMINAL_STATES_def)
  have move: "triple ?P (advance_run w (st_state s) (Some (st_reason s))) ?Q (\<lambda>h r. scripted r)"
  proof (rule triple_advance)
    fix r now d fs fs' r'
    assume P: "?P r" and step: "advance (st_state s) (run_changes r now (Some (st_reason s))) (rn_files r) = Inr (d, fs)"
      "save_state_backup d fs = Inr fs'"
      and r': "r' = r\<lparr>rn_files := fs', rn_state := st_state s, rn_visited := rn_visited r @ [st_state s]\<rparr>"
    have "recorded r'" by (rule recorded_step [OF _ step]) (use P r' in simp_all)
    moreover have "scripted r'" using P r' terminal by (simp add: scripted_def seams_def)
    moreover have "stop_reason d = Some (st_reason s)" "state_json fs' = Holds d"
      using advance_InrD [OF step(1)] step(2) terminal
      by (auto simp: save_state_backup_iff merged_def run_changes_def no_changes_def)
    ultimately show "?Q () r'" using r' by (simp add: reported_def)
  qed (auto simp: scripted_def seams_def)
  show ?thesis unfolding settle_stop_def
  proof (rule triple_read, simp)
    fix st
    show "triple (\<lambda>r. ?P r \<and> rn_state r = st) (seq (case st_event s of None \<Rightarrow> result ()
        | Some e \<Rightarrow> append_event w ((event_of e st)\<lparr>ev_diagnostics := st_diagnostics s\<rparr>)) (\<lambda>_.
     if st \<notin> set TERMINAL_STATES then advance_run w (st_state s) (Some (st_reason s)) else result ()))
     ?Q (\<lambda>h r. scripted r)"
    proof (rule triple_skip [where H = plain])
      show "triple (\<lambda>r. ?P r \<and> rn_state r = st) (if st \<notin> set TERMINAL_STATES
         then advance_run w (st_state s) (Some (st_reason s)) else result ()) ?Q (\<lambda>h r. scripted r)"
        by (cases "st \<notin> set TERMINAL_STATES")
          (auto intro: triple_weaken [OF move] triple_result)
    qed (rule quiet_rules | simp)+
  qed
qed

text \<open>Every way a run ends, in one rule.\<close>

lemma finish_run_cases:
  assumes fin: "finish_run pf w recovered r = out" and start: "worked PREFLIGHT r" "opened r"
  obtains (approved) res r' where "out = Returned res r'" "approved_end r'" "cleared pf r'"
      "rr_state res = APPROVED" "rr_stop_reason res = COMPLETED" "rr_visited res = rn_visited r'"
      "rr_applied_files res = rn_applied_files r'"
  | (stopped) res r' s where "out = Returned res r'" "recorded r'" "scripted r'" "plain_stop s"
      "rr_state res = st_state s" "rr_stop_reason res = st_reason s" "rn_state r' = st_state s"
      "reported (st_reason s) r'" "rr_visited res = rn_visited r'"
  | (interrupted) res r' where "out = Returned res r'" "recorded r'" "scripted r'"
      "rr_state res = rn_state r'" "rr_stop_reason res = INTERRUPTED" "rn_state r' \<notin> set TERMINAL_STATES"
      "rr_visited res = rn_visited r'"
  | (raised) r' where "out = Raised (Some r')" "scripted r'"
proof -
  obtain x r1 where body: "run_body pf w r = (x, r1)" by (cases "run_body pf w r")
  have w: "worked PREFLIGHT (core r)" using start by simp
  have f: "facts False False False (core r)" using start(2) by (simp add: facts_def opened_def)
  show thesis
  proof (cases x)
    case (Inr a)
    with triple_InrD [OF triple_run_body body [unfolded Inr] w]
      triple_InrD [OF facts_run_body body [unfolded Inr] f] fin body
    show thesis by (intro approved [of "result_of r1 recovered APPROVED COMPLETED 0 []" r1])
        (auto simp: finish_run_def result_of_def)
  next
    case (Inl h)
    have h: "halted h r1" using triple_InlD [OF triple_run_body body [unfolded Inl] w] by simp
    show thesis
    proof (cases h)
      case (Stopped s)
      obtain y r2 where settle: "settle_stop w s r1 = (y, r2)" by (cases "settle_stop w s r1")
      have P: "recorded (core r1) \<and> scripted (core r1) \<and> rn_state (core r1) \<notin> set TERMINAL_STATES"
        and s: "plain_stop s" using h Stopped by (auto simp: halted_def)
      show thesis
      proof (cases y)
        case (Inl h')
        then show thesis
          using triple_InlD [OF triple_settle [OF s] settle [unfolded Inl] P] fin body settle Stopped \<open>x = Inl h\<close>
          by (intro raised [of r2]) (auto simp: finish_run_def)
      next
        case (Inr a)
        have "reported (st_reason s) (core r2) = reported (st_reason s) r2" by (simp add: reported_def)
        then show thesis
          using triple_InrD [OF triple_settle [OF s] settle [unfolded Inr] P] fin body settle Stopped s \<open>x = Inl h\<close> Inr
          by (intro stopped [of "result_of r2 recovered (st_state s) (st_reason s) (st_surviving s) (st_pending s)" r2 s])
            (auto simp: finish_run_def result_of_def)
      qed
    next
      case (Interrupted p)
      obtain y r2 where ev: "event w Ev_INTERRUPTED r1 = (y, r2)" by (cases "event w Ev_INTERRUPTED r1")
      have "core r2 = core r1"
        using quiet_event [of "\<lambda>_. True" w Ev_INTERRUPTED] ev by (auto simp: quiet_def dest: spec [where x = r1])
      then have same: "recorded r2 = recorded r1" "scripted r2 = scripted r1" "rn_state r2 = rn_state r1"
        by (metis on_core(1)) (metis \<open>core r2 = core r1\<close> on_core(2), metis \<open>core r2 = core r1\<close> core_simps(5))
      show thesis
      proof (cases y)
        case (Inl h')
        then show thesis using same h fin body ev Interrupted \<open>x = Inl h\<close>
          by (intro raised [of r2]) (auto simp: finish_run_def halted_def)
      next
        case (Inr a)
        then show thesis using same h fin body ev Interrupted \<open>x = Inl h\<close>
          by (intro interrupted [of "result_of r2 recovered (rn_state r2) INTERRUPTED 0 []" r2])
            (auto simp: finish_run_def result_of_def halted_def)
      qed
    next
      case Escaped
      then show thesis using h fin body Inl by (intro raised [of r1]) (auto simp: finish_run_def halted_def)
    qed
  qed
qed


lemma execute_cases:
  assumes "execute pf w rec = out"
  obtains (refused) res where "out = Refused res" "rr_state res = BLOCKED"
  | (unopened) "out = Raised None"
  | (half_opened) r where "out = Raised (Some r)" "scripted r"
  | (finished) recovered r where "out = finish_run pf w recovered r" "worked PREFLIGHT r" "opened r"
proof (cases "recovered_first pf w")
  case None
  then show thesis using assms unopened by (simp add: execute_def)
next
  case (Some recovered)
  note recover = Some
  show thesis
  proof (cases "assert_plan_only (w_plan w 0)")
    case (Some e)
    then show thesis using assms recover refused by (auto simp: execute_def refused_result_def)
  next
    case None
    note plan = None
    show thesis
    proof (cases "run_preflight (w_repo w)")
      case (Preflight_Refused reason)
      then show thesis using assms recover plan refused by (auto simp: execute_def refused_result_def)
    next
      case (Preflight_Ok baseline f)
      obtain q where q: "q = fresh_run w (rv_files (w_repo w)) rec baseline f" by simp
      obtain x r where o: "open_state w q = (x, r)" by (cases "open_state w q")
      have start: "opened (core q)" unfolding q by (rule opened_fresh)
      show thesis
      proof (cases x)
        case (Inl h)
        with triple_InlD [OF triple_open_state o [unfolded Inl] start] o assms recover plan Preflight_Ok q
        show thesis by (intro half_opened [of r]) (simp_all add: execute_def)
      next
        case (Inr a)
        with triple_InrD [OF triple_open_state o [unfolded Inr] start] o assms recover plan Preflight_Ok q
        show thesis by (intro finished [of recovered r]) (simp_all add: execute_def opened_def)
      qed
    qed
  qed
qed

text \<open>The three ways a run returns; and what is left of a run that raised.\<close>

lemma returned_cases:
  assumes run: "execute pf w rec = Returned res r"
  obtains (approved) "approved_end r" "recorded r" "cleared pf r" "rr_state res = APPROVED"
      "rn_state r = APPROVED" "rr_stop_reason res = COMPLETED" "rr_visited res = rn_visited r"
  | (stopped) s where "recorded r" "scripted r" "plain_stop s" "rr_state res = st_state s"
      "rr_stop_reason res = st_reason s" "rn_state r = st_state s" "reported (st_reason s) r"
      "rr_visited res = rn_visited r"
  | (interrupted) "recorded r" "scripted r" "rr_state res = rn_state r" "rr_stop_reason res = INTERRUPTED"
      "rn_state r \<notin> set TERMINAL_STATES" "rr_visited res = rn_visited r"
  using run
proof (cases rule: execute_cases)
  case (finished recovered q)
  from finished(1) [symmetric] finished(2,3) show thesis
  proof (cases rule: finish_run_cases)
    case (approved res' r')
    then show thesis by (intro that(1)) (auto simp: approved_end_def)
  next
    case (stopped res' r' s)
    then show thesis by (intro that(2) [of s]) auto
  next
    case (interrupted res' r')
    then show thesis by (intro that(3)) auto
  next
    case (raised r')
    then show thesis by simp
  qed
qed simp_all

lemma returned_scripted:
  assumes "execute pf w rec = Returned res r"
  shows "scripted r \<and> recorded r"
  using assms by (cases rule: returned_cases) (auto simp: approved_end_def scripted_def Let_def)

lemma raised_scripted:
  assumes "execute pf w rec = Raised (Some r)"
  shows "scripted r"
  using assms
proof (cases rule: execute_cases)
  case (finished recovered q)
  from finished(1) [symmetric] finished(2,3) show ?thesis by (cases rule: finish_run_cases) auto
qed auto

end
