(* ===== verification/Agent_Calls.thy ===== *)
theory Agent_Calls
  imports Agent_Walk
begin

text \<open>
  What a run hands to the calls it makes: every model call had money left and a window of the
  task's timeout range, every acceptance run a positive one. The invariants of a whole run are
  instances of one locale, whose only law is that a single step keeps them. Then what a second
  round and a returning read-only proof require, and how often each call is made.
\<close>

section \<open>The windows\<close>

fun in_window :: "call \<Rightarrow> bool" where
  "in_window (Implement b s) = (0 < b \<and> MIN_MODEL_SECONDS \<le> s \<and> s \<le> MAX_MODEL_SECONDS)"
| "in_window (Repair b s) = (0 < b \<and> MIN_MODEL_SECONDS \<le> s \<and> s \<le> MAX_MODEL_SECONDS)"
| "in_window (Evaluate p b s) = (0 < b \<and> MIN_MODEL_SECONDS \<le> s \<and> s \<le> MAX_MODEL_SECONDS)"
| "in_window (Accept s) = (0 < s)"
| "in_window Apply = True"

definition windows :: "run \<Rightarrow> bool" where
  "windows r = list_all in_window (rn_calls r)"

lemma yields_seq: "(\<And>a. yields (f a) V) \<Longrightarrow> yields (seq m f) V"
  by (auto simp: yields_def seq_def split: prod.splits sum.splits)

lemma yields_learn: "yields m U \<Longrightarrow> (\<And>a. U a \<Longrightarrow> yields (f a) V) \<Longrightarrow> yields (seq m f) V"
  by (fastforce simp: yields_def seq_def split: prod.splits sum.splits)

lemma yields_stop: "(\<not> b \<Longrightarrow> yields (f ()) V) \<Longrightarrow> yields (seq (stop_when b s) f) V"
  by (cases b) (auto simp: yields_def seq_def stop_when_def halt_with_def result_def)

lemma yields_result: "V a \<Longrightarrow> yields (result a) V"
  by (simp add: yields_def result_def)

lemma yields_halt: "yields (halt_with h) V"
  by (simp add: yields_def halt_with_def)

lemma yields_option:
  "yields m V \<Longrightarrow> (\<And>x. yields (f x) V) \<Longrightarrow> yields (case y of None \<Rightarrow> m | Some x \<Rightarrow> f x) V"
  by (cases y) simp_all

lemma yields_budget: "yields (assert_budget w) (\<lambda>b. 0 < b)"
  unfolding assert_budget_def
  by (rule yields_seq, rule yields_option, rule yields_halt, rule yields_seq, rule yields_stop,
      rule yields_result) linarith

lemma yields_model_seconds:
  "yields (model_seconds w) (\<lambda>s. MIN_MODEL_SECONDS \<le> s \<and> s \<le> MAX_MODEL_SECONDS)"
  unfolding model_seconds_def Let_def
  by (rule yields_seq, rule yields_seq, rule yields_stop, rule yields_result)
    (simp add: MIN_MODEL_SECONDS_def MAX_MODEL_SECONDS_def min_def)

lemma model_seconds_within:
  assumes "model_seconds w r = (Inr s, q)"
  shows "of_int s \<le> rn_deadline r - w_clock w (rn_tick r)"
proof -
  obtain limit where s: "s = min (py_int (min (of_int limit) (rn_deadline r - w_clock w (rn_tick r)))) MAX_MODEL_SECONDS"
    "0 \<le> min (of_int limit) (rn_deadline r - w_clock w (rn_tick r))"
    using assms
    by (force simp: model_seconds_def remaining_seconds_def seq_def reads_def outside_def result_def Let_def
        stop_when_def halt_with_def py_int_def MIN_MODEL_SECONDS_def split: if_splits)
  have "of_int s \<le> (of_int (py_int (min (of_int limit) (rn_deadline r - w_clock w (rn_tick r)))) :: rat)"
    unfolding s(1) by (simp only: of_int_le_iff min.cobounded1)
  also have "\<dots> \<le> min (of_int limit) (rn_deadline r - w_clock w (rn_tick r))"
    using s(2) by (simp only: py_int_def if_True of_int_floor_le)
  finally show ?thesis by simp
qed

lemma yields_open_model_call:
  "yields (open_model_call w ro) (\<lambda>(b, s). 0 < b \<and> MIN_MODEL_SECONDS \<le> s \<and> s \<le> MAX_MODEL_SECONDS)"
  unfolding open_model_call_def
  by (rule yields_learn [OF yields_budget], rule yields_learn [OF yields_model_seconds])
    (intro yields_seq yields_result; simp)

lemma yields_acceptance_seconds: "yields (acceptance_seconds w) (\<lambda>s. 0 < s)"
  unfolding acceptance_seconds_def by (rule yields_seq, rule yields_stop, rule yields_result) simp

section \<open>What every step keeps\<close>

text \<open>
  One step of a run, as far as an invariant of its calls and its directory can see: the task and
  the deadline stay, the ledger grows by a call in its window at most, the workspace is never given
  up, and the binding is written only when there is one.
\<close>

definition step_of :: "run \<Rightarrow> run \<Rightarrow> bool" where
  "step_of r r' = (rn_task r' = rn_task r \<and> rn_deadline r' = rn_deadline r
     \<and> (rn_calls r' = rn_calls r \<or> (\<exists>c. in_window c \<and> rn_calls r' = rn_calls r @ [c]))
     \<and> (rn_workspace r' = rn_workspace r \<or> rn_workspace r' \<noteq> None)
     \<and> (binding_json (rn_files r') = binding_json (rn_files r) \<or> rn_workspace r \<noteq> None \<and> rn_workspace r' \<noteq> None))"

locale run_invariant =
  fixes I :: "run \<Rightarrow> bool"
  assumes kept: "I r \<Longrightarrow> step_of r r' \<Longrightarrow> I r'"
begin

definition on_halt :: "halt \<Rightarrow> run \<Rightarrow> bool" where
  "on_halt h r = I r"

lemma skip: "quiet plain m \<Longrightarrow> (\<And>a. triple I (f a) Q on_halt) \<Longrightarrow> triple I (seq m f) Q on_halt"
  by (rule triple_skip [where H = plain]) (simp_all add: on_halt_def)

lemma log: "in_window c \<Longrightarrow> triple I n Q on_halt \<Longrightarrow> triple I (seq (log_call c) (\<lambda>_. n)) Q on_halt"
  unfolding log_call_def by (rule triple_modify) (auto simp: step_of_def intro: kept)

lemma change: "(\<And>r. core (f r) = f (core r)) \<Longrightarrow> (\<And>r. step_of r (f r)) \<Longrightarrow> triple I n Q on_halt
     \<Longrightarrow> triple I (seq (modifies f) (\<lambda>_. n)) Q on_halt"
  by (rule triple_modify) (auto intro: kept)

lemma last_change: "(\<And>r. core (f r) = f (core r)) \<Longrightarrow> (\<And>r. step_of r (f r))
     \<Longrightarrow> triple I (modifies f) (\<lambda>_. I) on_halt"
  by (auto simp: triple_def modifies_def intro: kept)

lemma halts: "triple I (halt_with h) Q on_halt"
  by (rule triple_halt) (simp add: on_halt_def)

lemma tail: "quiet plain m \<Longrightarrow> triple I m (\<lambda>_. I) on_halt"
  by (rule triple_tail [where H = plain]) (simp_all add: on_halt_def)

lemma model_call:
  assumes "\<And>b s. 0 < b \<Longrightarrow> MIN_MODEL_SECONDS \<le> s \<Longrightarrow> s \<le> MAX_MODEL_SECONDS
    \<Longrightarrow> triple I (f b s) Q on_halt"
  shows "triple I (seq (open_model_call w ro) (\<lambda>(b, s). f b s)) Q on_halt"
  by (rule triple_learn [OF quiet_open_model_call yields_open_model_call])
    (use assms in \<open>auto simp: on_halt_def\<close>)

lemma acceptance_call:
  assumes "\<And>s. 0 < s \<Longrightarrow> triple I (f s) Q on_halt"
  shows "triple I (seq (acceptance_seconds w) f) Q on_halt"
  by (rule triple_learn [OF quiet_acceptance_seconds yields_acceptance_seconds])
    (use assms in \<open>auto simp: on_halt_def\<close>)

lemma advances: "triple I (advance_run w t reason) (\<lambda>_. I) on_halt"
  by (rule triple_advance)
    (auto simp: on_halt_def step_of_def save_state_backup_iff intro: kept dest!: advance_InrD)

lemma files_written:
  assumes "\<And>fs fs'. f fs = Inr fs' \<Longrightarrow> binding_json fs' = binding_json fs"
  shows "triple I (on_files w f) (\<lambda>_. I) on_halt"
  by (rule triple_on_files) (auto simp: on_halt_def step_of_def assms intro: kept)

lemmas step_rules = log change model_call acceptance_call skip triple_seq [OF advances]
  triple_case_prod triple_option triple_if triple_result halts quiet_rules

lemma in_implement: "triple I (implement pf w) (\<lambda>_. I) on_halt"
  unfolding implement_def by (rule step_rules | simp add: step_of_def)+

lemma in_repair: "triple I (repair_call pf w v) (\<lambda>_. I) on_halt"
  unfolding repair_call_def by (rule step_rules | simp add: step_of_def)+

lemma in_gate: "triple I (run_gate pf w v n) (\<lambda>_. I) on_halt"
  unfolding run_gate_def by (rule step_rules | simp add: step_of_def)+

lemma in_accept: "triple I (accept pf w v again) (\<lambda>_. I) on_halt"
  unfolding accept_def Let_def by (rule triple_seq [OF in_gate] step_rules | simp add: step_of_def)+

lemma in_record: "triple I (record_findings w p rep n) (\<lambda>_. I) on_halt"
  unfolding record_findings_def by (rule last_change step_rules | simp add: step_of_def)+

lemma in_verdict: "triple I (verdict pf w p rep n) (\<lambda>_. I) on_halt"
  unfolding verdict_def Let_def by (rule triple_seq [OF in_record] step_rules | simp add: step_of_def)+

lemma in_audit: "triple I (audit pf w p) (\<lambda>_. I) on_halt"
  unfolding audit_def by (rule in_verdict step_rules | simp add: step_of_def)+

lemma in_application: "triple I (run_application pf x v rp) (\<lambda>_. I) on_halt"
  by (rule triple_run_application) (auto simp: step_of_def intro: kept)

lemma in_approve: "triple I (approve pf w v rp) (\<lambda>_. I) on_halt"
  unfolding approve_def by (rule tail [OF quiet_release] triple_seq [OF in_application] step_rules | simp add: step_of_def)+

lemmas phase_steps = triple_seq [OF in_implement] triple_seq [OF in_repair]
  triple_seq [OF in_accept] triple_seq [OF in_audit] in_approve

lemma in_repair_road: "triple I (repair_road pf w v) (\<lambda>_. I) on_halt"
  unfolding repair_road_def by (rule phase_steps step_rules)+

lemma in_workspace: "triple I (open_workspace w) (\<lambda>_. I) on_halt"
proof -
  let ?P = "\<lambda>r. I r \<and> rn_workspace r \<noteq> None"
  have stored: "triple ?P (on_files w f) (\<lambda>_. I) on_halt" for f
    by (rule triple_on_files) (auto simp: on_halt_def step_of_def intro: kept)
  have then_store: "triple ?P (seq (reads rn_identity) (\<lambda>i. on_files w (f i))) (\<lambda>_. I) on_halt" for f
    by (rule triple_seq [OF triple_tail [OF quiet_reads [of "\<lambda>_. False"]]], simp, assumption, rule stored)
  have named: "triple ?P n Q on_halt \<Longrightarrow> triple I (seq (modifies (\<lambda>r. r\<lparr>rn_workspace := Some wid,
            rn_identity := (rn_identity r)\<lparr>i_workspace_id := wid\<rparr>\<rparr>)) (\<lambda>_. n)) Q on_halt"
    for n :: "unit phase" and Q wid
    by (rule triple_modify) (auto simp: step_of_def intro: kept)
  show ?thesis unfolding open_workspace_def
    by (rule then_store named skip triple_option halts quiet_rules)+
qed

lemma in_body: "triple I (run_body pf w) (\<lambda>_. I) on_halt"
proof -
  have gate: "triple I (gate_check w) (\<lambda>_. I) on_halt"
    unfolding gate_check_def by (rule step_rules | simp add: step_of_def)+
  show ?thesis unfolding run_body_def walk_phases_def
    by (rule triple_seq [OF gate] triple_seq [OF in_workspace] in_repair_road phase_steps step_rules)+
qed

lemma in_open_state: "triple I (open_state w) (\<lambda>_. I) on_halt"
  unfolding open_state_def
  by (rule tail [OF quiet_append_event] triple_seq [OF files_written] step_rules
    | simp add: write_state_iff save_state_backup_iff | elim conjE)+

lemma in_settle: "triple I (settle_stop w s) (\<lambda>_. I) on_halt"
  unfolding settle_stop_def by (rule advances step_rules | simp add: step_of_def)+

text \<open>From the fresh run to the run a call of \<open>execute\<close> leaves behind.\<close>

lemma kept_by:
  assumes "triple I m (\<lambda>_. I) on_halt" "m r = (x, r')" "I (core r)"
  shows "I (core r')"
proof (cases x)
  case (Inl h)
  then show ?thesis using triple_InlD [OF assms(1), of r h r'] assms(2,3) by (simp add: on_halt_def)
next
  case (Inr a)
  then show ?thesis using triple_InrD [OF assms(1), of r a r'] assms(2,3) by simp
qed

lemma execute_keeps:
  assumes run: "execute pf w rec = out" and r: "out = Returned res r \<or> out = Raised (Some r)"
    and start: "\<And>baseline f. run_preflight (w_repo w) = Preflight_Ok baseline f
      \<Longrightarrow> I (core (fresh_run w (rv_files (w_repo w)) rec baseline f))"
  shows "I (core r)"
proof -
  from run r obtain recovered baseline f where pre: "recovered_first pf w = Some recovered"
    "assert_plan_only (w_plan w 0) = None" "run_preflight (w_repo w) = Preflight_Ok baseline f"
    by (auto simp: execute_def split: option.splits preflight_result.splits)
  obtain q where q: "q = fresh_run w (rv_files (w_repo w)) rec baseline f" by simp
  obtain x r1 where o: "open_state w q = (x, r1)" by (cases "open_state w q")
  have w1: "I (core r1)" by (rule kept_by [OF in_open_state o]) (simp add: q start [OF pre(3)])
  show ?thesis
  proof (cases x)
    case (Inl h)
    with run r pre o q w1 show ?thesis by (auto simp: execute_def)
  next
    case (Inr a)
    obtain y r2 where b: "run_body pf w r1 = (y, r2)" by (cases "run_body pf w r1")
    have w2: "I (core r2)" by (rule kept_by [OF in_body b w1])
    have w3: "I (core (snd (settle_stop w s r2)))" for s
      using kept_by [OF in_settle _ w2] by (cases "settle_stop w s r2") auto
    have w4: "I (core (snd (event w c r2)))" for c
      using kept_by [OF tail [OF quiet_event [of plain]] _ w2] by (cases "event w c r2") auto
    have "execute pf w rec = finish_run pf w recovered r1" using pre o q Inr by (simp add: execute_def)
    with run r b w2 show ?thesis
      using w3 w4 [of Ev_INTERRUPTED]
      by (auto simp: finish_run_def split: sum.splits halt.splits prod.splits) (metis snd_conv)+
  qed
qed

end

text \<open>
  Three invariants: the windows; a directory without a workspace holds no binding; the task and
  the one deadline.
\<close>

definition unbound :: "run \<Rightarrow> bool" where
  "unbound r = (rn_workspace r = None \<longrightarrow> binding_json (rn_files r) = Missing)"

interpretation in_windows: run_invariant windows
  by unfold_locales (auto simp: windows_def step_of_def)

interpretation no_binding: run_invariant unbound
  by unfold_locales (auto simp: unbound_def step_of_def)

interpretation one_deadline: run_invariant "\<lambda>r. rn_task r = t \<and> rn_deadline r = d" for t d
  by unfold_locales (auto simp: step_of_def)

lemma windows_core [simp]: "windows (core r) = windows r"
  by (simp add: windows_def)


section \<open>A second round\<close>

text \<open>Every cited file is one the candidate changed, in the one spelling of the module.\<close>

definition in_scope :: "platform \<Rightarrow> string list \<Rightarrow> finding list \<Rightarrow> bool" where
  "in_scope pf files fs = (\<forall>f\<in>set fs. \<forall>p. fd_file f = Some p \<longrightarrow>
     fold_path (pf_fold pf) p \<in> fold_path (pf_fold pf) ` set files)"

lemma triple_assert_in_scope:
  "triple (\<lambda>r. P r \<and> rn_candidate_files r = files) (assert_in_scope pf fs)
     (\<lambda>_ r. (P r \<and> rn_candidate_files r = files) \<and> in_scope pf files fs) any"
  unfolding assert_in_scope_def
proof (rule triple_read, simp)
  fix a
  let ?out = "list_ex (\<lambda>f. case fd_file f of None \<Rightarrow> False
       | Some p \<Rightarrow> fold_path (pf_fold pf) p \<notin> fold_path (pf_fold pf) ` set a) fs"
  show "triple (\<lambda>r. (P r \<and> rn_candidate_files r = files) \<and> rn_candidate_files r = a)
     (stop_when ?out (stop_with OUT_OF_SCOPE_FINDING BLOCKED))
     (\<lambda>_ r. (P r \<and> rn_candidate_files r = files) \<and> in_scope pf files fs) any"
    by (cases ?out)
      (auto simp: stop_when_def triple_def halt_with_def result_def any_def in_scope_def list_ex_iff
        split: option.splits)
qed

lemma triple_false: "(\<And>r. \<not> P r) \<Longrightarrow> triple P m Q E"
  by (simp add: triple_def)

definition round_state :: "string list \<Rightarrow> string list \<Rightarrow> int \<Rightarrow> int \<Rightarrow> run \<Rightarrow> bool" where
  "round_state seen files n k r = (rn_seen r = seen \<and> rn_candidate_files r = files
     \<and> repair (rn_rounds r) = n \<and> max_repairs r = k)"

lemma round_state_record:
  "triple (round_state seen files n k) (record_findings w p rep m) (\<lambda>_. round_state seen files n k) any"
  unfolding record_findings_def
  by (rule modify_last facts_rules | simp add: round_state_def max_repairs_def)+

lemma triple_verdict_False:
  "triple (round_state seen files n k) (verdict pf w p rep m) (\<lambda>x r. \<not> x \<longrightarrow>
     rep_status rep \<notin> {St_APPROVED, St_BLOCKED, St_FAILED} \<and> in_scope pf files (rep_findings rep)
     \<and> set (map fd_mechanism_id (rep_findings rep)) \<inter> set seen = {} \<and> n < k
     \<and> rn_seen r = seen @ map fd_mechanism_id (rep_findings rep)) any"
proof -
  let ?ms = "map fd_mechanism_id (rep_findings rep)"
  let ?P = "round_state seen files n k"
  let ?Q = "\<lambda>x r. \<not> x \<longrightarrow> rep_status rep \<notin> {St_APPROVED, St_BLOCKED, St_FAILED} \<and> in_scope pf files (rep_findings rep)
     \<and> set ?ms \<inter> set seen = {} \<and> n < k \<and> rn_seen r = seen @ ?ms"
  let ?stop = "seq (reads (\<lambda>r. max_repairs r \<le> repair (rn_rounds r))) (\<lambda>spent.
          seq (stop_when spent (stop_with REPAIR_ROUNDS_EXHAUSTED BLOCKED)) (\<lambda>_. result False))"
  have spent: "triple (\<lambda>r. round_state (seen @ ?ms) files n k r) ?stop ?Q any"
    if st: "rep_status rep \<notin> {St_APPROVED, St_BLOCKED, St_FAILED}" and sc: "in_scope pf files (rep_findings rep)"
      and new: "set ?ms \<inter> set seen = {}"
    by (rule triple_read, simp add: max_repairs_def, rule stop_any, rule triple_result)
      (use that in \<open>auto simp: round_state_def\<close>)
  have count: "triple (?P) (seq (modifies (\<lambda>r. r\<lparr>rn_seen := rn_seen r @ ?ms\<rparr>)) (\<lambda>_. ?stop)) ?Q any"
    if "rep_status rep \<notin> {St_APPROVED, St_BLOCKED, St_FAILED}" "in_scope pf files (rep_findings rep)"
      "set ?ms \<inter> set seen = {}"
    by (rule triple_modify [OF _ _ spent [OF that]]) (auto simp: round_state_def max_repairs_def)
  let ?rest = "seq (reads (\<lambda>r. list_ex (\<lambda>m. m \<in> set (rn_seen r)) ?ms)) (\<lambda>repeated.
          seq (modifies (\<lambda>r. r\<lparr>rn_mechanisms_seen := rn_mechanisms_seen r @ [sort (remdups ?ms)]\<rparr>)) (\<lambda>_.
          seq (stop_when repeated (stop_with REPEATED_MECHANISM_FAILURE BLOCKED)) (\<lambda>_.
          seq (modifies (\<lambda>r. r\<lparr>rn_seen := rn_seen r @ ?ms\<rparr>)) (\<lambda>_. ?stop))))"
  have rest: "triple ?P ?rest ?Q any"
    if st: "rep_status rep \<notin> {St_APPROVED, St_BLOCKED, St_FAILED}" and sc: "in_scope pf files (rep_findings rep)"
  proof (rule triple_read, simp)
    fix b
    show "triple (\<lambda>r. ?P r \<and> list_ex (\<lambda>m. m \<in> set (rn_seen r)) ?ms = b)
        (seq (modifies (\<lambda>r. r\<lparr>rn_mechanisms_seen := rn_mechanisms_seen r @ [sort (remdups ?ms)]\<rparr>)) (\<lambda>_.
          seq (stop_when b (stop_with REPEATED_MECHANISM_FAILURE BLOCKED)) (\<lambda>_.
          seq (modifies (\<lambda>r. r\<lparr>rn_seen := rn_seen r @ ?ms\<rparr>)) (\<lambda>_. ?stop)))) ?Q any"
    proof (rule triple_modify [where R = "\<lambda>r. ?P r \<and> list_ex (\<lambda>m. m \<in> set (rn_seen r)) ?ms = b"])
      show "triple (\<lambda>r. ?P r \<and> list_ex (\<lambda>m. m \<in> set (rn_seen r)) ?ms = b)
          (seq (stop_when b (stop_with REPEATED_MECHANISM_FAILURE BLOCKED)) (\<lambda>_.
          seq (modifies (\<lambda>r. r\<lparr>rn_seen := rn_seen r @ ?ms\<rparr>)) (\<lambda>_. ?stop))) ?Q any"
      proof (rule stop_any)
        assume b: "\<not> b"
        show "triple (\<lambda>r. ?P r \<and> list_ex (\<lambda>m. m \<in> set (rn_seen r)) ?ms = b)
            (seq (modifies (\<lambda>r. r\<lparr>rn_seen := rn_seen r @ ?ms\<rparr>)) (\<lambda>_. ?stop)) ?Q any"
        proof (cases "set ?ms \<inter> set seen = {}")
          case True
          then show ?thesis by (intro triple_weaken [OF count [OF st sc True]]) auto
        next
          case False
          with b show ?thesis by (intro triple_false) (auto simp: round_state_def list_ex_iff)
        qed
      qed
    qed (auto simp: round_state_def max_repairs_def)
  qed
  have scoped: "triple ?P (seq (assert_in_scope pf (rep_findings rep)) (\<lambda>_. ?rest)) ?Q any"
    if "rep_status rep \<notin> {St_APPROVED, St_BLOCKED, St_FAILED}"
  proof -
    have step: "triple ?P (assert_in_scope pf (rep_findings rep)) (\<lambda>_ r. ?P r \<and> in_scope pf files (rep_findings rep)) any"
      by (rule triple_weaken [OF triple_assert_in_scope [of ?P files]]) (auto simp: round_state_def)
    have "triple (\<lambda>r. ?P r \<and> in_scope pf files (rep_findings rep)) ?rest ?Q any"
    proof (cases "in_scope pf files (rep_findings rep)")
      case True
      then show ?thesis using rest [OF that] by simp
    next
      case False
      then show ?thesis by (intro triple_false) simp
    qed
    then show ?thesis by (rule triple_seq [OF step])
  qed
  show ?thesis unfolding verdict_def Let_def
    by (rule triple_seq [OF round_state_record], rule triple_if, rule triple_result, simp, rule triple_if,
        rule triple_option, rule halt_any, rule halt_any, rule scoped) auto
qed

section \<open>A read-only call\<close>

text \<open>The two readings after the call, and what they are compared with.\<close>

lemma assert_read_only_iff:
  assumes run: "assert_read_only pf w c0 main0 r = (x, r')"
  shows "x = Inr () \<longleftrightarrow> \<not> workspace_moved c0 main0
       (derive_candidate_changes (pf_fold pf) (pf_sha pf) (rn_identity r) (w_moment w (rn_tick r)))
       (main_projection (w_moment w (Suc (rn_tick r))))"
    "x = Inr () \<or> x = Inl Escaped \<or> x = Inl (Stopped (stop_with EVALUATOR_MODIFIED_WORKSPACE FAILED))"
proof -
  have "fst (event w c q) = Inr () \<or> fst (event w c q) = Inl Escaped" for c q
    using quiet_event [of "\<lambda>h. h = Escaped" w c] by (cases "fst (event w c q)") (auto simp: quiet_def)
  then have "\<exists>q'. event w c q = (Inr (), q') \<or> event w c q = (Inl Escaped, q')" for c q
    by (metis prod.collapse)
  then obtain q' where "event w Ev_EVALUATOR_MODIFIED_WORKSPACE (r\<lparr>rn_tick := Suc (Suc (rn_tick r))\<rparr>) = (Inr (), q')
      \<or> event w Ev_EVALUATOR_MODIFIED_WORKSPACE (r\<lparr>rn_tick := Suc (Suc (rn_tick r))\<rparr>) = (Inl Escaped, q')"
    by blast
  with run show "x = Inr () \<longleftrightarrow> \<not> workspace_moved c0 main0
       (derive_candidate_changes (pf_fold pf) (pf_sha pf) (rn_identity r) (w_moment w (rn_tick r)))
       (main_projection (w_moment w (Suc (rn_tick r))))"
    "x = Inr () \<or> x = Inl Escaped \<or> x = Inl (Stopped (stop_with EVALUATOR_MODIFIED_WORKSPACE FAILED))"
    by (auto simp: assert_read_only_def candidate_now_def seq_def outside_def reads_def result_def halt_with_def
        split: if_splits)
qed

section \<open>How often each call is made\<close>

lemma live_distinct: "recorded r \<Longrightarrow> distinct (live (rn_visited r))"
proof -
  have "walk s vs \<Longrightarrow> distinct (s # vs) \<and> (\<forall>t\<in>set vs. moves_left t < moves_left s)" for s vs
  proof (induction vs arbitrary: s)
    case (Cons t vs)
    then show ?case using transition_decreases [of s t] by fastforce
  qed simp
  then show "recorded r \<Longrightarrow> distinct (live (rn_visited r))"
    unfolding recorded_def live_def by (metis distinct_filter)
qed

lemma count_works: "count_list (works vs) x = length (filter (\<lambda>s. work s = [x]) vs)"
proof (induction vs)
  case (Cons s vs)
  then show ?case by (cases s) (auto simp: works_def)
qed (simp add: works_def)

lemma count_works_le:
  assumes "distinct vs" "{s. work s = [x]} \<subseteq> set ks"
  shows "count_list (works vs) x \<le> length ks"
proof -
  have "card (set (filter (\<lambda>s. work s = [x]) vs)) \<le> card (set ks)"
    by (rule card_mono) (use assms(2) in auto)
  then show ?thesis using assms(1) card_length [of ks]
    by (simp add: count_works distinct_card [symmetric])
qed

lemma work_of:
  "work s = [Call_Implement] \<longleftrightarrow> s = IMPLEMENTING" "work s = [Call_Repair] \<longleftrightarrow> s = REPAIRING"
  "work s = [Call_Accept] \<longleftrightarrow> s = ACCEPTANCE \<or> s = ACCEPTANCE_2"
  "work s = [Call_Evaluate] \<longleftrightarrow> s = AUDITING \<or> s = FINAL_AUDITING" "work s \<noteq> [Call_Apply]"
  by (cases s; simp)+

lemma counted:
  assumes "distinct vs" "ys = works (butlast vs) \<or> ys = works vs \<or> ys = works vs @ [Call_Apply]"
  shows "count_list ys Call_Implement \<le> 1" "count_list ys Call_Repair \<le> 1" "count_list ys Call_Accept \<le> 2"
    "count_list ys Call_Evaluate \<le> 2" "count_list ys Call_Apply \<le> 1"
proof -
  have d: "distinct (butlast vs)" using assms(1) by (rule distinct_butlast)
  have le: "count_list ys x \<le> length ks" if "{s. work s = [x]} \<subseteq> set ks" "x \<noteq> Call_Apply" for x ks
    using assms(2) count_works_le [OF assms(1) that(1)] count_works_le [OF d that(1)] that(2) by auto
  show "count_list ys Call_Implement \<le> 1" using le [of Call_Implement "[IMPLEMENTING]"] by (simp add: work_of)
  show "count_list ys Call_Repair \<le> 1" using le [of Call_Repair "[REPAIRING]"] by (simp add: work_of)
  show "count_list ys Call_Accept \<le> 2" using le [of Call_Accept "[ACCEPTANCE, ACCEPTANCE_2]"]
    by (simp add: work_of set_eq_subset Collect_disj_eq numeral_2_eq_2)
  show "count_list ys Call_Evaluate \<le> 2" using le [of Call_Evaluate "[AUDITING, FINAL_AUDITING]"]
    by (simp add: work_of set_eq_subset Collect_disj_eq numeral_2_eq_2)
  show "count_list ys Call_Apply \<le> 1"
    using assms(2) count_works_le [OF assms(1), of Call_Apply "[]"] count_works_le [OF d, of Call_Apply "[]"]
    by (auto simp: work_of)
qed


lemma scripted_counts:
  assumes "scripted r" "recorded r"
  shows "count_list (seams r) Call_Implement \<le> 1 \<and> count_list (seams r) Call_Repair \<le> 1
     \<and> count_list (seams r) Call_Accept \<le> 2 \<and> count_list (seams r) Call_Evaluate \<le> 2
     \<and> count_list (seams r) Call_Apply \<le> 1"
proof -
  have "seams r = works (butlast (live (rn_visited r))) \<or> seams r = works (live (rn_visited r))
      \<or> seams r = works (live (rn_visited r)) @ [Call_Apply]"
    using assms(1) by (auto simp: scripted_def Let_def)
  from counted [OF live_distinct [OF assms(2)] this] show ?thesis by blast
qed

end
