(* ===== verification/Agent_Samples.thy ===== *)
theory Agent_Samples
  imports Agent_Calls
begin

text \<open>
  A concrete run of the agent loop, on which the hypotheses of the properties are shown to hold:
  a task over one source file, a world in which the implementer adds that file and the evaluator
  approves it, and variants of that world. Digests are short stand-ins of the right shape.
\<close>

definition hex :: "nat \<Rightarrow> string" where
  "hex n = replicate n (CHR ''a'')"

definition sample_platform :: platform where
  "sample_platform = \<lparr>pf_fold = (\<lambda>x. x), pf_sha = (\<lambda>x. hex 64),
     pf_digit = (\<lambda>c. if 48 \<le> c \<and> c \<le> 57 then Some (c - 48) else None), pf_decode = map of_char\<rparr>"

definition sample_task :: task_doc where
  "sample_task = \<lparr>t_protocol_version = ''1.0'', objective = ''add the parser'', t_baseline_sha = hex 40,
     allowed_paths = [''src''], forbidden_paths = [], acceptance_commands = [(pytest_full, [])],
     acceptance_criteria = [''tests pass''], max_implementation_rounds = 1, max_repair_rounds = 1,
     max_wall_clock_minutes = 60, max_budget_usd = Finite 5, max_output_bytes = 4096,
     model_call_timeout_seconds = None, leak_command_id = leak_scan, leak_max_hard_findings = 0,
     dirty_tree_allowlist = [], implementer_model = None, evaluator_model = None\<rparr>"

definition sample_task_file :: task_file where
  "sample_task_file = \<lparr>tf_regular = True, tf_readable = True, tf_digest = hex 64,
     tf_relative = Some ''task.json'', tf_task = sample_task\<rparr>"

definition sample_file :: "string \<Rightarrow> string \<Rightarrow> entry" where
  "sample_file p h = \<lparr>e_path = p, e_kind = EFile, e_mode = ''100644'', e_size = 1, e_nlink = 1,
     e_attributes = 0, e_reparse_tag = 0, e_link_target_mac = [], e_sha256 = h\<rparr>"

definition sample_binding :: binding_doc where
  "sample_binding = \<lparr>b_protocol_version = ''1.0'', b_run_id = ''kosu-1'', b_repo_id = hex 32,
     b_baseline_sha = hex 40, b_manifest_digest = hex 64, b_workspace_id = hex 32\<rparr>"

definition no_files :: state_files where
  "no_files = \<lparr>state_json = Missing, binding_json = Missing, backup_json = Missing\<rparr>"

text \<open>The disk with these entries under the implementer's root.\<close>

definition sample_moment :: "entry list \<Rightarrow> moment" where
  "sample_moment es = \<lparr>m_task = Some sample_task_file, m_files = no_files\<lparr>binding_json := Holds sample_binding\<rparr>,
     m_workspace = Inr (), m_reference = Scanned ''ref'' [sample_file ''src/a.py'' (hex 64)] ''r0'',
     m_implementer = Scanned ''impl'' (sample_file ''src/a.py'' (hex 64) # es) ''i0'',
     m_main = Scanned ''main'' [] ''m0''\<rparr>"

definition sample_plan :: plan_view where
  "sample_plan = (let p = \<lparr>pb_contained = True, pb_clean = True, pb_timed_out = False, pb_read = True,
       pb_exit_code = 0\<rparr> in \<lparr>env_value = (\<lambda>_. None), claude_probe = p,
     claude_json = Some \<lparr>logged_in = Some True, auth_method = Some ''claude.ai'',
       api_provider = Some ''firstParty'', subscription_type = Some ''max''\<rparr>,
     codex_probe = p, codex_lines = [CODEX_EXPECTED_LINE]\<rparr>)"

definition sample_repo :: repo_view where
  "sample_repo = \<lparr>rv_git_dir = True, rv_head = Some (hex 40), rv_control_status = Some [],
     rv_task = Some sample_task_file, rv_schema_names_allowed_paths = False, rv_staged = Some [],
     rv_status = Some [], rv_runnable = (\<lambda>_. True), rv_repo_id = hex 32, rv_files = no_files\<rparr>"

definition sample_outcome :: call_outcome where
  "sample_outcome = \<lparr>o_run_id = Some ''kosu-1'', o_changed_files = [Some ''src/b.py''],
     o_status = St_IMPLEMENTED, o_exit_code = 0, o_duration_ms = 10, o_stdout_bytes = 5,
     o_stderr_bytes = 0, o_schema_sha256 = hex 64, o_event = Ev_MODEL_CALL_FINISHED\<rparr>"

definition sample_added :: "entry list" where
  "sample_added = [sample_file ''src/b.py'' (hex 64)]"

definition green_run :: command_run where
  "green_run = \<lparr>cr_manifest = Some sample_task_file, cr_launched = True, cr_setup = None,
     cr_reclaimed = True, cr_drained = True, cr_timed_out = False, cr_overflowed = False,
     cr_joined = True, cr_read_completed = True, cr_wait = 0, cr_output = Some [], cr_duration_ms = 7,
     cr_out_bytes = 0, cr_err_bytes = 0\<rparr>"

definition sample_gate :: acceptance_world where
  "sample_gate = \<lparr>aw_moment = sample_moment sample_added, aw_manifest = Some sample_task_file,
     aw_workspace = None, aw_receipt_id = ''receipt-1'',
     aw_first_write = \<lparr>durable = True, torn = False\<rparr>, aw_last_write = \<lparr>durable = True, torn = False\<rparr>,
     aw_mirror = None, aw_remove = None, aw_tree = (\<lambda>_. None), aw_runs = (\<lambda>_. green_run),
     aw_duration_ms = 9\<rparr>"

text \<open>The operator's checkout, and an operating system that does what it is asked.\<close>

definition sample_disk :: disk where
  "sample_disk = \<lparr>dk_repo = [([''src''], Dir), ([''src'', ''a.py''], File \<lparr>fo_mode = ''100644'', fo_data = ''a''\<rparr>)],
     dk_holder = False, dk_journal = Missing, dk_slots = None, dk_payload = None, dk_tick = 0\<rparr>"

definition sample_mover :: application_world where
  "sample_mover = \<lparr>pw_fate = (\<lambda>_. Works), pw_write = (\<lambda>_. Works), pw_sha = (\<lambda>x. hex 64),
     pw_clean = (\<lambda>_ _ _. Inr False), pw_reference = dk_repo sample_disk,
     pw_implementer = ([''src'', ''b.py''], File \<lparr>fo_mode = ''100644'', fo_data = ''b''\<rparr>) # dk_repo sample_disk,
     pw_holder = ''/w/.apply/h'', pw_roots = [''/w/repo''], pw_gate = sample_moment sample_added,
     pw_before = sample_moment sample_added,
     pw_after = (sample_moment sample_added)\<lparr>m_main := Scanned ''main'' sample_added ''m1''\<rparr>,
     pw_created_at = ''2024-01-01T00:00:00Z''\<rparr>"

text \<open>A repository without holders.\<close>

definition sample_yard :: repo_disk where
  "sample_yard = \<lparr>rd_repo = dk_repo sample_disk, rd_holders = [], rd_tick = 0\<rparr>"

text \<open>The tick of the model call splits the moments.\<close>

definition sample_world :: world where
  "sample_world = \<lparr>w_recover = (sample_mover, sample_yard), w_plan = (\<lambda>_. sample_plan), w_repo = sample_repo,
     w_run_id = ''kosu-1'', w_clock = of_nat, w_now = (\<lambda>_. ''now''), w_disk = (\<lambda>_. True),
     w_moment = (\<lambda>n. sample_moment (if n < 23 then [] else sample_added)),
     w_implementer = (\<lambda>_. Inr sample_outcome), w_acceptance = (\<lambda>_. sample_gate),
     w_policy = (\<lambda>_. True),
     w_evaluator = (\<lambda>_. Inr \<lparr>el_reply = \<lparr>rep_status = St_APPROVED, rep_findings = [],
        rep_stop_reason = None, rep_summary_code = None\<rparr>, el_exit_code = 0, el_duration_ms = 3\<rparr>),
     w_apply = (\<lambda>_. (sample_mover, hex 32, sample_disk)), w_workspace = (\<lambda>_. Some (hex 32)), w_release = (\<lambda>_. True),
     w_audit_kind = CODE_AUDIT, w_request_gate = None, w_interrupt_after = None\<rparr>"

fun end_result :: "run_end \<Rightarrow> run_result option" where
  "end_result (Refused res) = Some res"
| "end_result (Returned res r) = Some res"
| "end_result (Raised r) = None"

fun end_run :: "run_end \<Rightarrow> run option" where
  "end_run (Refused res) = None"
| "end_run (Returned res r) = Some r"
| "end_run (Raised r) = r"


section \<open>The run, step by step\<close>

text \<open>A world whose disk always writes, whose clock ticks in seconds, on a subscription session.\<close>

definition calm :: "world \<Rightarrow> bool" where
  "calm w = (w_now w = (\<lambda>_. ''now'') \<and> w_disk w = (\<lambda>_. True) \<and> w_clock w = of_nat
     \<and> w_plan w = (\<lambda>_. sample_plan) \<and> w_workspace w = (\<lambda>_. Some (hex 32)))"

lemma calm_sample: "calm sample_world"
  by (simp add: calm_def sample_world_def)

definition sample_doc :: "agent_state \<Rightarrow> round_counts \<Rightarrow> string list list option \<Rightarrow> stop_reason option \<Rightarrow> state_doc" where
  "sample_doc s ro ms x = \<lparr>protocol_version = ''1.0'', run_id = ''kosu-1'', state = s, started_at = ''now'',
     updated_at = ''now'', heartbeat_at = None, baseline_sha = Some (hex 40), requested_models = None,
     rounds = ro, budget = \<lparr>max_usd = Finite 5, spent_usd = Finite 0\<rparr>, mechanisms_seen = ms, stop_reason = x\<rparr>"

definition sample_identity :: "string \<Rightarrow> identity" where
  "sample_identity wid = \<lparr>i_repo_id = hex 32, i_manifest_digest = hex 64, i_run_id = ''kosu-1'',
     i_workspace_id = wid, i_baseline_sha = hex 40\<rparr>"

lemma is_hex_hex [simp]: "is_hex n (hex n)"
  by (simp add: is_hex_def dollar_def hex_def lower_hex_def list_all_iff)

lemma is_identifier_sample [simp]: "is_identifier ''kosu-1''"
  by code_simp

lemma sound_sample_doc:
  "counts_schema ro \<Longrightarrow> reason_schema s x \<Longrightarrow> ms \<in> {None, Some []} \<Longrightarrow> sound_doc (sample_doc s ro ms x)"
  by (auto simp: sound_doc_def sample_doc_def STATE_SCHEMA_def PROTOCOL_VERSION_def models_schema_def finite_doc_def)

lemma append_calm:
  "calm w \<Longrightarrow> i_run_id (rn_identity r) = ''kosu-1'' \<Longrightarrow> EVENT_SCHEMA ''now'' ''kosu-1'' e \<Longrightarrow>
   append_event w e r = (Inr (), r\<lparr>rn_tick := rn_tick r + 2, rn_journal := rn_journal r @ [e]\<rparr>)"
  by (simp add: calm_def append_event_def seq_def outside_def reads_def escape_unless_def result_def modifies_def)

lemma event_schema_of [simp]: "EVENT_SCHEMA ''now'' ''kosu-1'' (event_of c s)"
  by (simp add: EVENT_SCHEMA_def event_of_def no_diagnostics_def optional_def models_schema_def)

lemma event_schema_measured [simp]: "0 \<le> d \<Longrightarrow> EVENT_SCHEMA ''now'' ''kosu-1'' (measured_event c s x d)"
  by (simp add: EVENT_SCHEMA_def event_of_def measured_event_def no_diagnostics_def optional_def models_schema_def)

lemma event_of_no_models [simp]: "event_of c s\<lparr>ev_models := None\<rparr> = event_of c s"
  by (simp add: event_of_def)

lemma run_changes_tick [simp]: "run_changes (r\<lparr>rn_tick := n\<rparr>) now x = run_changes r now x"
  by (simp add: run_changes_def)

lemma advance_calm:
  assumes "calm w" "i_run_id (rn_identity r) = ''kosu-1''" "rn_mechanisms_seen r = []"
    "state_json (rn_files r) = Holds (sample_doc s ro ms None)" "transition s t"
    "counts_schema ro" "counts_schema (rn_rounds r)" "reason_schema s None" "reason_schema t x" "ms \<in> {None, Some []}"
  shows "advance_run w t x r = (Inr (), r\<lparr>rn_tick := rn_tick r + 5,
     rn_files := (rn_files r)\<lparr>state_json := Holds (sample_doc t (rn_rounds r) (Some []) x),
        backup_json := Holds (sample_doc t (rn_rounds r) (Some []) x)\<rparr>,
     rn_state := t, rn_visited := rn_visited r @ [t],
     rn_journal := rn_journal r @ [event_of Ev_STATE_TRANSITION t]\<rparr>)"
proof -
  have now: "w_now w = (\<lambda>_. ''now'')" "w_disk w = (\<lambda>_. True)" using assms(1) by (simp_all add: calm_def)
  have kept: "save_state_backup (sample_doc t (rn_rounds r) (Some []) x) fs
      = Inr (fs\<lparr>backup_json := Holds (sample_doc t (rn_rounds r) (Some []) x)\<rparr>)" for fs
    using sound_sample_doc [of "rn_rounds r" t x "Some []"] assms
    by (simp add: save_state_backup_iff sound_doc_def)
  have "advance t (run_changes r ''now'' x) (rn_files r) =
      Inr (sample_doc t (rn_rounds r) (Some []) x, (rn_files r)\<lparr>state_json := Holds (sample_doc t (rn_rounds r) (Some []) x)\<rparr>)"
  proof -
    have cur: "read_state (rn_files r) = Inr (sample_doc s ro ms None)"
      using assms sound_sample_doc by (simp add: read_state_iff)
    have "merged (run_changes r ''now'' x) t (sample_doc s ro ms None) = sample_doc t (rn_rounds r) (Some []) x"
      by (cases x) (simp_all add: merged_def run_changes_def no_changes_def sample_doc_def assms(3))
    moreover have "t \<notin> set TERMINAL_STATES \<Longrightarrow> x = None" using assms(9) by (cases t) (auto simp: TERMINAL_STATES_def)
    then have "t \<notin> set TERMINAL_STATES \<Longrightarrow> sample_doc t (rn_rounds r) (Some []) x\<lparr>stop_reason := None\<rparr>
        = sample_doc t (rn_rounds r) (Some []) x" by (simp add: sample_doc_def)
    moreover have "write_state (sample_doc t (rn_rounds r) (Some []) x) (rn_files r)
        = Inr ((rn_files r)\<lparr>state_json := Holds (sample_doc t (rn_rounds r) (Some []) x)\<rparr>)"
      using sound_sample_doc assms by (simp add: write_state_iff)
    moreover have "keeps_identity (run_changes r ''now'' x) (sample_doc s ro ms None)"
      by (simp add: keeps_identity_def run_changes_def no_changes_def)
    moreover have "state (sample_doc s ro ms None) = s" by (simp add: sample_doc_def)
    ultimately show ?thesis using cur assms(5)
      by (simp add: advance_def assert_transition_cases Let_def)
  qed
  then show ?thesis
    by (simp add: advance_run_def on_files_def seq_def outside_def reads_def escape_unless_def result_def
        modifies_def now kept append_calm [OF assms(1)] assms(2))
qed


lemmas run_steps = seq_def outside_def reads_def result_def modifies_def stop_when_def escape_unless_def
  guard_def log_call_def

text \<open>The run as preflight leaves it, and after its state document is written.\<close>

definition sample_start :: run where
  "sample_start = fresh_run sample_world no_files None (hex 40) sample_task_file"

lemma sample_start_fields [simp]:
  "rn_task sample_start = sample_task" "rn_identity sample_start = sample_identity []"
  "rn_workspace sample_start = None" "rn_deadline sample_start = 3600" "rn_state sample_start = PREFLIGHT"
  "rn_visited sample_start = [PREFLIGHT]" "rn_rounds sample_start = zero_rounds"
  "rn_mechanisms_seen sample_start = []" "rn_seen sample_start = []" "rn_candidate_files sample_start = []"
  "rn_audit_rounds sample_start = []" "rn_pending sample_start = []"
  "rn_acceptance_passed sample_start = False" "rn_acceptance_diagnostics sample_start = []"
  "rn_applied_files sample_start = []" "rn_files sample_start = no_files" "rn_journal sample_start = []"
  "rn_findings sample_start = []" "rn_receipt sample_start = None" "rn_tick sample_start = 1"
  "rn_calls sample_start = []"
  by (simp_all add: sample_start_def fresh_run_def sample_world_def sample_repo_def sample_task_file_def
      sample_task_def sample_identity_def)

definition sample_opened :: run where
  "sample_opened = sample_start\<lparr>rn_tick := 6,
     rn_files := no_files\<lparr>state_json := Holds (sample_doc PREFLIGHT zero_rounds None None),
       backup_json := Holds (sample_doc PREFLIGHT zero_rounds None None)\<rparr>,
     rn_journal := [event_of Ev_PREFLIGHT_OK PREFLIGHT]\<rparr>"

lemma zero_counts [simp]: "counts_schema zero_rounds"
  by (simp add: counts_schema_def zero_rounds_def max_implementation_rounds_default_def
      max_repair_rounds_default_def max_evaluator_rounds_default_def)

lemma sample_fields [simp]:
  "i_run_id (sample_identity wid) = ''kosu-1''" "i_baseline_sha (sample_identity wid) = hex 40"
  "i_repo_id (sample_identity wid) = hex 32" "i_manifest_digest (sample_identity wid) = hex 64"
  "i_workspace_id (sample_identity wid) = wid"
  "(sample_identity wid)\<lparr>i_workspace_id := x\<rparr> = sample_identity x"
  by (simp_all add: sample_identity_def)

lemma open_state_calm: "calm w \<Longrightarrow> open_state w sample_start = (Inr (), sample_opened)"
proof -
  assume w: "calm w"
  then have now: "w_now w = (\<lambda>_. ''now'')" "w_disk w = (\<lambda>_. True)" by (simp_all add: calm_def)
  have doc: "first_document sample_start ''now'' = sample_doc PREFLIGHT zero_rounds None None"
    by (simp add: first_document_def sample_doc_def requested_of_def PROTOCOL_VERSION_def sample_task_def)
  have tick: "first_document (r\<lparr>rn_tick := n\<rparr>) x = first_document r x" for r n x
    by (simp add: first_document_def)
  have sound: "sound_doc (sample_doc PREFLIGHT zero_rounds None None)" by (rule sound_sample_doc) simp_all
  have wr: "write_state (sample_doc PREFLIGHT zero_rounds None None) fs
      = Inr (fs\<lparr>state_json := Holds (sample_doc PREFLIGHT zero_rounds None None)\<rparr>)"
    "save_state_backup (sample_doc PREFLIGHT zero_rounds None None) fs
      = Inr (fs\<lparr>backup_json := Holds (sample_doc PREFLIGHT zero_rounds None None)\<rparr>)" for fs
    using sound by (simp_all add: write_state_iff save_state_backup_iff sound_doc_def)
  show ?thesis
    by (simp add: open_state_def on_files_def run_steps now doc tick wr append_calm [OF w] sample_opened_def)
qed


text \<open>The steps that cost nothing, and what precedes a model call.\<close>

lemma budget_calm:
  assumes "calm w" "i_run_id (rn_identity r) = ''kosu-1''" "state_json (rn_files r) = Holds (sample_doc s ro ms None)"
    "counts_schema ro" "reason_schema s None" "ms \<in> {None, Some []}"
  shows "assert_budget w r = (Inr 5, r\<lparr>rn_tick := rn_tick r + 2,
     rn_journal := rn_journal r @ [event_of Ev_BUDGET_CHECK (rn_state r)]\<rparr>)"
proof -
  have "read_state (rn_files r) = Inr (sample_doc s ro ms None)"
    using assms sound_sample_doc by (simp add: read_state_iff)
  then have "remaining_budget (rn_files r) = Some 5"
    by (simp add: remaining_budget_def sample_doc_def)
  then show ?thesis using assms by (simp add: assert_budget_def run_steps event_def append_calm)
qed

lemma clock_calm:
  assumes "calm w" "rn_deadline r = 3600" "rn_tick r < 100"
  shows "assert_clock w r = (Inr (), r\<lparr>rn_tick := Suc (rn_tick r)\<rparr>)"
proof -
  have "of_nat (rn_tick r) < (100 :: rat)" using assms(3) of_nat_less_iff [of "rn_tick r" 100] by simp
  then show ?thesis using assms(1,2)
    by (simp add: assert_clock_def remaining_seconds_def run_steps calm_def)
qed

lemma workspace_calm:
  assumes "calm w" "rn_identity r = sample_identity wid"
  shows "open_workspace w r = (Inr (), r\<lparr>rn_tick := rn_tick r + 2, rn_workspace := Some (hex 32),
     rn_identity := sample_identity (hex 32), rn_files := (rn_files r)\<lparr>binding_json := Holds sample_binding\<rparr>\<rparr>)"
proof -
  have b: "\<lparr>b_protocol_version = PROTOCOL_VERSION, b_run_id = ''kosu-1'', b_repo_id = hex 32,
     b_baseline_sha = hex 40, b_manifest_digest = hex 64, b_workspace_id = hex 32\<rparr> = sample_binding"
    by (simp add: sample_binding_def PROTOCOL_VERSION_def)
  have "BINDING_SCHEMA sample_binding"
    by (simp add: BINDING_SCHEMA_def sample_binding_def PROTOCOL_VERSION_def)
  then have "write_binding sample_binding fs = Inr (fs\<lparr>binding_json := Holds sample_binding\<rparr>)" for fs
    by (simp add: write_binding_iff)
  then show ?thesis using assms b
    by (simp add: open_workspace_def on_files_def run_steps calm_def)
qed

lemma plan_calm: "assert_plan_only sample_plan = None"
  by (simp add: assert_plan_only_def environment_has_key_def sample_plan_def FORBIDDEN_ENV_def claude_plan_def
      codex_login_def probe_exit_def ACCEPTED_PLANS_def CODEX_EXPECTED_LINE_def u_def strip_def lstrip_def
      rstrip_def is_space_def Let_def)

lemma seconds_calm:
  assumes "calm w" "rn_deadline r = 3600" "rn_tick r < 1000" "rn_task r = sample_task"
  shows "model_seconds w r = (Inr 1800, r\<lparr>rn_tick := Suc (rn_tick r)\<rparr>)"
proof -
  have "of_nat (rn_tick r) < (1000 :: rat)" using assms(3) of_nat_less_iff [of "rn_tick r" 1000] by simp
  then have window: "min 1800 (3600 - of_nat (rn_tick r)) = (1800 :: rat)" by simp
  have timeout: "model_call_timeout_seconds sample_task = None" by (simp add: sample_task_def)
  have clock: "w_clock w = of_nat" using assms(1) by (simp add: calm_def)
  show ?thesis
    by (simp add: model_seconds_def remaining_seconds_def run_steps clock timeout assms(2,4)
        model_call_timeout_default_def window MIN_MODEL_SECONDS_def MAX_MODEL_SECONDS_def py_int_def Let_def)
qed

lemma model_call_calm:
  assumes "calm w" "i_run_id (rn_identity r) = ''kosu-1''" "state_json (rn_files r) = Holds (sample_doc s ro ms None)"
    "counts_schema ro" "reason_schema s None" "ms \<in> {None, Some []}" "rn_deadline r = 3600" "rn_tick r < 100"
    "rn_task r = sample_task"
  shows "open_model_call w role r = (Inr (5, 1800), r\<lparr>rn_tick := rn_tick r + 6, rn_journal := rn_journal r @
     [event_of Ev_BUDGET_CHECK (rn_state r), event_of Ev_MODEL_CALL_STARTED (rn_state r)]\<rparr>)"
proof -
  have model: "model_of role sample_task = None" by (cases role) (simp_all add: model_of_def sample_task_def)
  have plan: "w_plan w = (\<lambda>_. sample_plan)" using assms(1) by (simp add: calm_def)
  show ?thesis using assms(2,7,8,9)
    by (simp add: open_model_call_def budget_calm [OF assms(1-6)] seconds_calm [OF assms(1)]
        run_steps reassert_plan_def plan plan_calm model append_calm [OF assms(1)])
qed


section \<open>The approved run\<close>

definition sample_change :: change where
  "sample_change = \<lparr>path = ''src/b.py'', kind = ADDED, mode = ''100644'', sha256 = hex 64\<rparr>"

definition sample_verified :: verified_change_set where
  "sample_verified = \<lparr>v_run_id = ''kosu-1'', v_workspace_id = hex 32, v_baseline_sha = hex 40,
     v_status = St_IMPLEMENTED, changed_files = [''src/b.py''], added = 1, modified = 0, deleted = 0,
     fingerprint = hex 64, v_exit_code = 0, v_duration_ms = 10, v_stdout_bytes = 5, v_stderr_bytes = 0,
     v_schema_sha256 = hex 64, v_event = Ev_MODEL_CALL_FINISHED\<rparr>"

definition sample_candidate :: candidate where
  "sample_candidate = \<lparr>cd_run_id = ''kosu-1'', cd_workspace_id = hex 32, cd_baseline_sha = hex 40,
     cd_changed_files = [''src/b.py''], cd_added = 1, cd_modified = 0, cd_deleted = 0,
     cd_fingerprint = hex 64, cd_task_digest = hex 64, cd_commands = [(pytest_full, [])],
     cd_changes = [sample_change]\<rparr>"



definition sample_receipt :: receipt where
  "sample_receipt = \<lparr>r_receipt_id = ''receipt-1'', r_repo_id = hex 32, r_run_id = ''kosu-1'',
     r_workspace_id = hex 32, r_baseline_sha = hex 40, r_manifest_digest = hex 64,
     r_candidate_fingerprint = hex 64, r_command_plan_digest = hex 64, r_status = RECEIPT_PASSED,
     r_command_count = 1\<rparr>"

definition sample_report :: report where
  "sample_report = \<lparr>rp_run_id = ''kosu-1'', rp_workspace_id = hex 32, rp_baseline_sha = hex 40,
     rp_passed = True, rp_results = [\<lparr>cs_command_id = pytest_full, cs_passed = True, cs_exit_code = Some 0,
       cs_duration_ms = 7, cs_stdout_bytes = 0, cs_stderr_bytes = 0, cs_event = Ev_ACCEPTANCE_FINISHED,
       cs_diagnostics = []\<rparr>], rp_total_duration_ms = 9, rp_manifest_digest = hex 64,
     rp_candidate_fingerprint = hex 64, rp_command_plan_digest = hex 64, rp_receipt_id = ''receipt-1''\<rparr>"

lemma sample_derive: "derive_candidate_changes (pf_fold sample_platform) (pf_sha sample_platform)
     (sample_identity (hex 32)) (sample_moment sample_added) = Inr sample_candidate"
  by code_simp

lemma sample_verify: "run_verified_implementation (pf_fold sample_platform) (pf_sha sample_platform)
     (sample_identity (hex 32)) (sample_moment []) (Inr sample_outcome) (sample_moment sample_added)
   = Inr sample_verified"
  by code_simp

lemma sample_accept: "run_acceptance (pf_fold sample_platform) (pf_sha sample_platform) (pf_digit sample_platform)
     (pf_decode sample_platform) (sample_identity (hex 32)) sample_verified 3568 4096 sample_gate None
   = (Inr sample_report, Some sample_receipt)"
  by code_simp

definition sample_applied :: application_report where
  "sample_applied = \<lparr>ar_application_id = hex 32, ar_candidate_fingerprint = hex 64,
     ar_applied_files = [''src/b.py''], ar_added = 1, ar_modified = 0, ar_deleted = 0,
     ar_rollback_performed = False\<rparr>"

definition sample_moved :: disk where
  "sample_moved = snd (apply_accepted_candidate sample_mover (pf_fold sample_platform)
     \<lparr>ai_application_id = hex 32, ai_identity = sample_identity (hex 32)\<rparr> sample_verified sample_report
     (Some sample_receipt) sample_disk)"

lemma sample_apply: "apply_accepted_candidate sample_mover (pf_fold sample_platform)
     \<lparr>ai_application_id = hex 32, ai_identity = sample_identity (hex 32)\<rparr> sample_verified sample_report
     (Some sample_receipt) sample_disk = (Inr sample_applied, sample_moved)"
  by code_simp

lemma sample_preflight: "run_preflight sample_repo = Preflight_Ok (hex 40) sample_task_file"
  by code_simp

lemma sample_main: "main_projection (sample_moment es) = Inr (''main'', [])"
  by (simp add: main_projection_def sample_moment_def scan_def)

lemma sample_same: "main_difference (''main'', []) (''main'', []) = Inr []"
  by code_simp

text \<open>The fields of the sample world the phases read.\<close>

lemma sample_world_fields [simp]:
  "w_moment sample_world n = sample_moment (if n < 23 then [] else sample_added)"
  "w_implementer sample_world n = Inr sample_outcome" "w_acceptance sample_world n = sample_gate"
  "w_policy sample_world n" "w_apply sample_world n = (sample_mover, hex 32, sample_disk)"
  "w_release sample_world n" "w_audit_kind sample_world = CODE_AUDIT"
  "w_request_gate sample_world = None" "w_interrupt_after sample_world = None"
  by (simp_all add: sample_world_def)

definition sample_reply :: reply where
  "sample_reply = \<lparr>rep_status = St_APPROVED, rep_findings = [], rep_stop_reason = None, rep_summary_code = None\<rparr>"

lemma sample_world_evaluator [simp]:
  "w_evaluator sample_world n = Inr \<lparr>el_reply = sample_reply, el_exit_code = 0, el_duration_ms = 3\<rparr>"
  by (simp add: sample_world_def sample_reply_def)

lemma sample_counts [simp]:
  "max_implementation_rounds sample_task = 1" "max_repair_rounds sample_task = 1"
  "max_output_bytes sample_task = 4096"
  by (simp_all add: sample_task_def)

lemma sample_verified_fields [simp]:
  "v_exit_code sample_verified = 0" "v_duration_ms sample_verified = 10"
  "changed_files sample_verified = [''src/b.py'']"
  by (simp_all add: sample_verified_def)

lemma sample_report_fields [simp]: "rp_passed sample_report" "rp_total_duration_ms sample_report = 9"
  by (simp_all add: sample_report_def)

definition one_round :: round_counts where
  "one_round = \<lparr>implementation = 1, repair = 0, evaluator = 0\<rparr>"

lemma one_round_fields [simp]:
  "zero_rounds\<lparr>implementation := 1\<rparr> = one_round" "implementation one_round = 1" "repair one_round = 0"
  "evaluator one_round = 0" "counts_schema one_round"
  by (simp_all add: one_round_def zero_rounds_def counts_schema_def max_implementation_rounds_default_def
      max_repair_rounds_default_def max_evaluator_rounds_default_def)

lemma zero_rounds_fields [simp]:
  "implementation zero_rounds = 0" "repair zero_rounds = 0" "evaluator zero_rounds = 0"
  by (simp_all add: zero_rounds_def)

lemma sample_implement:
  assumes "rn_task r = sample_task" "rn_identity r = sample_identity (hex 32)" "rn_deadline r = 3600"
    "rn_rounds r = zero_rounds" "rn_state r = IMPLEMENTING" "rn_tick r = 16"
    "state_json (rn_files r) = Holds (sample_doc IMPLEMENTING zero_rounds (Some []) None)"
  shows "implement sample_platform sample_world r = (Inr sample_verified, r\<lparr>rn_tick := 27,
     rn_calls := rn_calls r @ [Implement 5 1800], rn_candidate_files := [''src/b.py''],
     rn_rounds := one_round,
     rn_journal := rn_journal r @ [event_of Ev_BUDGET_CHECK IMPLEMENTING, event_of Ev_MODEL_CALL_STARTED IMPLEMENTING,
       measured_event Ev_MODEL_CALL_FINISHED IMPLEMENTING (Some 0) 10]\<rparr>)"
  using assms
  by (simp add: implement_def model_call_calm [OF calm_sample, where s = IMPLEMENTING and ro = zero_rounds and ms = "Some []"]
      run_steps sample_verify append_calm [OF calm_sample] max_implementation_rounds_default_def)



lemma sample_accepted:
  assumes "rn_task r = sample_task" "rn_identity r = sample_identity (hex 32)" "rn_deadline r = 3600"
    "rn_state r = ACCEPTANCE" "rn_tick r = 32" "rn_receipt r = None"
  shows "accept sample_platform sample_world sample_verified True r = (Inr (Some sample_report),
     r\<lparr>rn_tick := 38, rn_calls := rn_calls r @ [Accept 3568], rn_receipt := Some sample_receipt,
       rn_acceptance_passed := True,
       rn_journal := rn_journal r @ [event_of Ev_ACCEPTANCE_STARTED ACCEPTANCE,
         measured_event Ev_ACCEPTANCE_FINISHED ACCEPTANCE None 9]\<rparr>)"
proof -
  have clock: "w_clock sample_world = of_nat" by (simp add: sample_world_def)
  have "acceptance_seconds sample_world q = (Inr 3568, q\<lparr>rn_tick := 33\<rparr>)"
    if "rn_deadline q = 3600" "rn_tick q = 32" for q
    using that by (simp add: acceptance_seconds_def remaining_seconds_def run_steps clock py_int_def)
  with assms show ?thesis
    by (simp add: accept_def run_gate_def run_steps event_def append_calm [OF calm_sample] sample_accept)
qed

definition sample_audit_round :: audit_round where
  "sample_audit_round = \<lparr>au_round = 0, au_state = AUDITING, au_kind = CODE_AUDIT,
      au_status = St_APPROVED, au_findings = [], au_summary = None\<rparr>"

definition audited_round :: round_counts where
  "audited_round = \<lparr>implementation = 1, repair = 0, evaluator = 1\<rparr>"

lemma audited_round_counts [simp]: "one_round\<lparr>evaluator := 1\<rparr> = audited_round" "counts_schema audited_round"
  by (simp_all add: one_round_def audited_round_def counts_schema_def max_implementation_rounds_default_def
      max_repair_rounds_default_def max_evaluator_rounds_default_def)

lemma sample_audit:
  assumes "rn_task r = sample_task" "rn_identity r = sample_identity (hex 32)" "rn_deadline r = 3600"
    "rn_state r = AUDITING" "rn_tick r = 43" "rn_rounds r = one_round" "rn_audit_rounds r = []"
    "state_json (rn_files r) = Holds (sample_doc AUDITING one_round (Some []) None)"
  shows "audit sample_platform sample_world AUDITING r = (Inr True, r\<lparr>rn_tick := 58,
     rn_calls := rn_calls r @ [Evaluate AUDITING 5 1800], rn_rounds := audited_round,
     rn_audit_rounds := [sample_audit_round], rn_findings := [sample_audit_round],
     rn_journal := rn_journal r @ [event_of Ev_BUDGET_CHECK AUDITING, event_of Ev_MODEL_CALL_STARTED AUDITING,
       measured_event Ev_MODEL_CALL_FINISHED AUDITING (Some 0) 3]\<rparr>)"
proof -
  have read_only: "assert_read_only sample_platform sample_world sample_candidate (''main'', []) q
      = (Inr (), q\<lparr>rn_tick := rn_tick q + 2\<rparr>)" if "rn_identity q = sample_identity (hex 32)" "23 \<le> rn_tick q" for q
    using that by (simp add: assert_read_only_def candidate_now_def run_steps sample_derive sample_main
        workspace_moved_def sample_same)
  have reply: "rep_status sample_reply = St_APPROVED" "rep_findings sample_reply = []" "rep_summary_code sample_reply = None"
    by (simp_all add: sample_reply_def)
  have findings: "FINDINGS_SCHEMA ''kosu-1'' [sample_audit_round]"
    by (simp add: FINDINGS_SCHEMA_def max_evaluator_rounds_default_def sample_audit_round_def)
  have disk: "w_disk sample_world n" for n by (simp add: sample_world_def)
  show ?thesis using assms
    by (simp add: audit_def model_call_calm [OF calm_sample, where s = AUDITING and ro = one_round and ms = "Some []"]
      run_steps candidate_now_def sample_derive sample_main read_only append_calm [OF calm_sample]
      verdict_def record_findings_def reply sample_audit_round_def [symmetric] findings disk max_evaluator_rounds_default_def)
qed


definition sample_end :: run where
  "sample_end = sample_start\<lparr>rn_tick := 65, rn_workspace := Some (hex 32), rn_identity := sample_identity (hex 32),
     rn_files := \<lparr>state_json = Holds (sample_doc APPROVED audited_round (Some []) (Some COMPLETED)),
       binding_json = Holds sample_binding,
       backup_json = Holds (sample_doc APPROVED audited_round (Some []) (Some COMPLETED))\<rparr>,
     rn_state := APPROVED, rn_visited := [PREFLIGHT, IMPLEMENTING, ACCEPTANCE, AUDITING, APPROVED],
     rn_rounds := audited_round, rn_candidate_files := [''src/b.py''], rn_receipt := Some sample_receipt,
     rn_acceptance_passed := True, rn_audit_rounds := [sample_audit_round], rn_findings := [sample_audit_round],
     rn_applied_files := [''src/b.py''], rn_checkout := Some (sample_disk, sample_moved),
     rn_calls := [Implement 5 1800, Accept 3568, Evaluate AUDITING 5 1800, Apply],
     rn_journal := [event_of Ev_PREFLIGHT_OK PREFLIGHT, event_of Ev_BUDGET_CHECK PREFLIGHT,
       event_of Ev_STATE_TRANSITION IMPLEMENTING, event_of Ev_BUDGET_CHECK IMPLEMENTING,
       event_of Ev_MODEL_CALL_STARTED IMPLEMENTING, measured_event Ev_MODEL_CALL_FINISHED IMPLEMENTING (Some 0) 10,
       event_of Ev_STATE_TRANSITION ACCEPTANCE, event_of Ev_ACCEPTANCE_STARTED ACCEPTANCE,
       measured_event Ev_ACCEPTANCE_FINISHED ACCEPTANCE None 9, event_of Ev_STATE_TRANSITION AUDITING,
       event_of Ev_BUDGET_CHECK AUDITING, event_of Ev_MODEL_CALL_STARTED AUDITING,
       measured_event Ev_MODEL_CALL_FINISHED AUDITING (Some 0) 3, event_of Ev_STATE_TRANSITION APPROVED]\<rparr>"

lemma sample_transitions [simp]:
  "transition PREFLIGHT IMPLEMENTING" "transition IMPLEMENTING ACCEPTANCE" "transition ACCEPTANCE AUDITING"
  "transition AUDITING APPROVED"
  by (simp_all add: transition_def)

lemma sample_body: "run_body sample_platform sample_world sample_opened = (Inr (), sample_end)"
proof -
  have step: "advance_run sample_world t x r = (Inr (), r\<lparr>rn_tick := rn_tick r + 5,
     rn_files := (rn_files r)\<lparr>state_json := Holds (sample_doc t (rn_rounds r) (Some []) x),
        backup_json := Holds (sample_doc t (rn_rounds r) (Some []) x)\<rparr>,
     rn_state := t, rn_visited := rn_visited r @ [t],
     rn_journal := rn_journal r @ [event_of Ev_STATE_TRANSITION t]\<rparr>)"
    if "i_run_id (rn_identity r) = ''kosu-1''" "rn_mechanisms_seen r = []"
      "state_json (rn_files r) = Holds (sample_doc s ro ms None)" "transition s t"
      "counts_schema ro" "counts_schema (rn_rounds r)" "reason_schema s None" "reason_schema t x" "ms \<in> {None, Some []}"
    for r s t x ro ms
    using advance_calm [OF calm_sample] that by blast
  have release: "rn_workspace q = Some wid \<Longrightarrow> release_workspace sample_world q = (Inr (), q\<lparr>rn_tick := Suc (rn_tick q)\<rparr>)" for q wid
    by (simp add: release_workspace_def run_steps)
  have mover: "sample_mover\<lparr>pw_sha := pf_sha sample_platform\<rparr> = sample_mover"
    by (simp add: sample_mover_def sample_platform_def)
  have sample_application: "run_application sample_platform (sample_mover, hex 32, sample_disk) sample_verified sample_report r
     = (Inr (Inr sample_applied), r\<lparr>rn_checkout := Some (sample_disk, sample_moved)\<rparr>)"
    if "rn_identity r = sample_identity (hex 32)" "rn_receipt r = Some sample_receipt" for r
    using that by (simp add: run_application_def run_steps mover sample_apply)
  have sample_applied_files: "ar_applied_files sample_applied = [''src/b.py'']"
    by (simp add: sample_applied_def)
  show ?thesis
    by (simp add: run_body_def walk_phases_def gate_check_def checkpoint_def run_steps sample_opened_def
      budget_calm [OF calm_sample, where s = PREFLIGHT and ro = zero_rounds and ms = None] clock_calm [OF calm_sample]
      workspace_calm [OF calm_sample, where wid = "[]"]
      step [where s = PREFLIGHT and ro = zero_rounds and ms = None]
      step [where s = IMPLEMENTING and ro = zero_rounds and ms = "Some []"]
      step [where s = ACCEPTANCE and ro = one_round and ms = "Some []"]
      step [where s = AUDITING and ro = one_round and ms = "Some []"]
      sample_implement sample_accepted sample_audit approve_def sample_application settle_application_def sample_applied_files release sample_end_def)
qed

definition sample_result :: run_result where
  "sample_result = result_of sample_end [] APPROVED COMPLETED 0 []"

lemma sample_recovered: "recovered_first sample_platform sample_world = Some []"
  by (simp add: recovered_first_def sample_world_def recover_no_holders sample_yard_def sample_mover_def)

lemma sample_execute: "execute sample_platform sample_world None = Returned sample_result sample_end"
proof -
  have start: "recovered_first sample_platform sample_world = Some []" "w_plan sample_world 0 = sample_plan" "w_repo sample_world = sample_repo"
    "rv_files sample_repo = no_files"
    by (rule sample_recovered) (simp_all add: sample_world_def sample_repo_def)
  show ?thesis
    by (simp add: execute_def start plan_calm sample_preflight sample_start_def [symmetric]
        open_state_calm [OF calm_sample] finish_run_def sample_body sample_result_def)
qed


section \<open>A run that stops at a gate\<close>

definition gated_world :: world where
  "gated_world = sample_world\<lparr>w_request_gate := Some GIT_PUSH\<rparr>"

definition gated_end :: run where
  "gated_end = sample_opened\<lparr>rn_tick := 13, rn_state := BLOCKED, rn_visited := [PREFLIGHT, BLOCKED],
     rn_pending := [GIT_PUSH],
     rn_files := no_files\<lparr>state_json := Holds (sample_doc BLOCKED zero_rounds (Some []) (Some USER_APPROVAL_REQUIRED)),
       backup_json := Holds (sample_doc BLOCKED zero_rounds (Some []) (Some USER_APPROVAL_REQUIRED))\<rparr>,
     rn_journal := [event_of Ev_PREFLIGHT_OK PREFLIGHT, event_of Ev_GATE_REQUIRED PREFLIGHT,
       event_of Ev_STATE_TRANSITION BLOCKED]\<rparr>"

definition gated_result :: run_result where
  "gated_result = result_of gated_end [] BLOCKED USER_APPROVAL_REQUIRED 0 [GIT_PUSH]"

lemma gated_recovered: "recovered_first sample_platform gated_world = Some []"
  using sample_recovered by (simp add: recovered_first_def gated_world_def)

lemma gated_execute: "execute sample_platform gated_world None = Returned gated_result gated_end"
proof -
  have calm: "calm gated_world" using calm_sample by (simp add: calm_def gated_world_def)
  have start: "recovered_first sample_platform gated_world = Some []" "w_plan gated_world 0 = sample_plan" "w_repo gated_world = sample_repo"
    "rv_files sample_repo = no_files" "w_request_gate gated_world = Some GIT_PUSH"
    by (rule gated_recovered) (simp_all add: gated_world_def sample_world_def sample_repo_def)
  have fresh: "fresh_run gated_world no_files None (hex 40) sample_task_file = sample_start"
    by (simp add: sample_start_def fresh_run_def gated_world_def)
  let ?s = "(stop_with USER_APPROVAL_REQUIRED BLOCKED)\<lparr>st_pending := [GIT_PUSH]\<rparr>"
  let ?r = "sample_opened\<lparr>rn_tick := 8, rn_pending := [GIT_PUSH],
    rn_journal := [event_of Ev_PREFLIGHT_OK PREFLIGHT, event_of Ev_GATE_REQUIRED PREFLIGHT]\<rparr>"
  have gate: "run_body sample_platform gated_world sample_opened = (Inl (Stopped ?s), ?r)"
    by (simp add: run_body_def gate_check_def start run_steps event_def append_calm [OF calm] sample_opened_def
        halt_with_def)
  have stop: "settle_stop gated_world ?s ?r = (Inr (), gated_end)"
    by (simp add: settle_stop_def stop_with_def run_steps sample_opened_def gated_end_def TERMINAL_STATES_def
        advance_calm [OF calm, where s = PREFLIGHT and ro = zero_rounds and ms = None] transition_def)
  have fields: "st_state ?s = BLOCKED" "st_reason ?s = USER_APPROVAL_REQUIRED" "st_surviving ?s = 0"
    "st_pending ?s = [GIT_PUSH]"
    by (simp_all add: stop_with_def)
  show ?thesis
    by (simp add: execute_def start plan_calm sample_preflight fresh open_state_calm [OF calm] finish_run_def
        gate stop gated_result_def fields del: stop.simps)
qed


section \<open>A finding\<close>

definition sample_finding :: finding where
  "sample_finding = \<lparr>fd_finding_id = ''find-1'', fd_mechanism_id = ''mech-1'', fd_severity = High,
     fd_file = Some ''src/b.py'', fd_line = Some 3, fd_claim = ''c'', fd_required_action = ''a'',
     fd_error_class = None, fd_case_count = None\<rparr>"

definition sample_finding_reply :: reply where
  "sample_finding_reply = \<lparr>rep_status = St_CHANGES_REQUESTED, rep_findings = [sample_finding],
     rep_stop_reason = None, rep_summary_code = None\<rparr>"

definition sample_opened_changed :: run where
  "sample_opened_changed = sample_opened\<lparr>rn_candidate_files := [''src/b.py'']\<rparr>"

lemma sample_verdict: "fst (verdict sample_platform sample_world AUDITING sample_finding_reply 0 sample_opened_changed)
    = Inr False"
proof -
  have disk: "w_disk sample_world n" for n by (simp add: sample_world_def)
  have fields: "fd_mechanism_id sample_finding = ''mech-1''" "fd_file sample_finding = Some ''src/b.py''"
    by (simp_all add: sample_finding_def)
  have findings: "FINDINGS_SCHEMA ''kosu-1'' [\<lparr>au_round = 0, au_state = AUDITING, au_kind = CODE_AUDIT,
      au_status = St_CHANGES_REQUESTED, au_findings = [record_finding CODE_AUDIT sample_finding], au_summary = None\<rparr>]"
    by code_simp
  show ?thesis
    by (simp add: verdict_def record_findings_def run_steps findings disk sample_finding_reply_def fields
        assert_in_scope_def sample_opened_changed_def sample_opened_def sample_platform_def max_repairs_def
        max_repair_rounds_default_def Let_def del: record_finding.simps)
qed


section \<open>A repair, a violation, a failing test\<close>

definition sample_rewritten :: "entry list" where
  "sample_rewritten = [sample_file ''src/b.py'' (hex 63)]"

lemma sample_repair: "run_verified_repair (pf_fold sample_platform) (pf_sha sample_platform) (sample_identity (hex 32))
     (hex 64) [''src/b.py''] (sample_moment sample_added) (Inr sample_outcome) (sample_moment sample_rewritten)
   = Inr sample_verified"
  by code_simp

definition sample_outside :: "entry list" where
  "sample_outside = [sample_file ''docs/b.md'' (hex 64)]"

definition sample_tree :: "entry list \<Rightarrow> tree" where
  "sample_tree es = map (\<lambda>e. (e_path e, snap_of e)) (sample_file ''src/a.py'' (hex 64) # es)"

lemma sample_open: "open_call (sample_identity (hex 32)) (sample_moment []) = Inr (sample_task_file, sample_tree [], sample_tree [])"
  by code_simp

lemma sample_open_same: "same_tree (sample_tree []) (sample_tree [])"
  by (simp add: same_tree_def)

lemma sample_open_main: "main_snapshot (sample_moment []) = Inr (''main'', ''m0'')"
  by code_simp

lemma sample_violation: "verify_implementation (pf_fold sample_platform) (sample_identity (hex 32)) sample_task_file
    (''main'', ''m0'') (sample_tree []) (sample_moment sample_outside) = Inl (UnsafeChange PATH_NOT_ALLOWED)"
  by code_simp

definition sample_output :: pystr where
  "sample_output = u ''short test summary info'' @ [10] @ u ''FAILED t.py::test_b'' @ [10] @ u ''1 failed'' @ [10]"

fun sample_tests :: "pystr \<Rightarrow> pystr list option" where
  "sample_tests f = (if f = u ''t.py'' then Some [u ''test_b''] else None)"

definition sample_diagnostic :: diagnostic where
  "sample_diagnostic = \<lparr>dg_command_id = pytest_selected, test_file = u ''t.py'', test_name = u ''test_b'',
     case_count = 1\<rparr>"


lemma sample_classified:
  "classify_pytest_failures (pf_digit sample_platform) sample_tests pytest_selected [u ''t.py''] (Some sample_output)
     = [sample_diagnostic]"
  "[sample_diagnostic] \<noteq> []"
proof -
  have lines: "splitlines sample_output = [u ''short test summary info'', u ''FAILED t.py::test_b'', u ''1 failed'']"
    by (simp add: splitlines_def sample_output_def is_line_break_def u_def)
  have nodes: "read_body (pf_digit sample_platform) None [] [u ''FAILED t.py::test_b'', u ''1 failed'']
      = Some (Some 1, [u ''t.py::test_b''])"
    by (simp add: FAILED_PREFIX_def u_def strip_def lstrip_def rstrip_def is_space_def count_line_def
        count_here_def sample_platform_def Let_def)
  have keys: "split_nodes [u ''t.py''] [u ''t.py::test_b''] = Some [(u ''t.py'', u ''test_b'')]"
    by (simp add: split_node_def cut_parameters_def u_def is_test_name_def name_char_def Let_def)
  have banner: "after_last_banner [u ''short test summary info'', u ''FAILED t.py::test_b'', u ''1 failed'']
      = Some [u ''FAILED t.py::test_b'', u ''1 failed'']"
    by (simp add: SUMMARY_BANNER_def u_def sublist_code)
  have bare: "filter (\<lambda>l. l \<noteq> []) (map strip [u ''FAILED t.py::test_b'', u ''1 failed'']) = [u ''FAILED t.py::test_b'', u ''1 failed'']"
    by (simp add: u_def strip_def lstrip_def rstrip_def is_space_def)
  show "classify_pytest_failures (pf_digit sample_platform) sample_tests pytest_selected [u ''t.py''] (Some sample_output)
     = [sample_diagnostic]"
    by (simp add: classify_pytest_failures_def lines banner bare nodes keys first_order_def MAX_DIAGNOSTICS_def
        sample_diagnostic_def Let_def
        del: list.map filter.simps after_last_banner.simps read_body.simps split_nodes.simps) simp
qed simp

end
