(* ===== verification/Agent_Rollback.thy ===== *)
theory Agent_Rollback
  imports Agent_Application
begin

text \<open>
  Why an application is all or nothing: the moves as relations on what the checkout and the slots
  hold (\<open>carried\<close>, and \<open>doubled\<close> for a rename that stopped half way), the chain a run of moves
  leaves, and the triples of the code over them, the rollback's among them. Whatever the operating
  system does, the rollback gives back the checkout or says that it could not.
\<close>

section \<open>What the checkout and the slots hold\<close>

declare split_paired_Ex [simp del] split_paired_All [simp del]

type_synonym store = "(string list \<Rightarrow> node option) \<times> (string \<Rightarrow> file_obj option)"

definition store :: "disk \<Rightarrow> store" where
  "store d = (map_of (dk_repo d), slot_lookup (dk_slots d))"

lemma map_of_drop_key [simp]: "map_of (drop_key k xs) = (map_of xs)(k := None)"
  by (induction xs) (auto simp: drop_key_def fun_eq_iff)

lemma map_of_put [simp]: "map_of (put k v xs) = (map_of xs)(k \<mapsto> v)"
  using map_of_drop_key [of k xs] by (simp add: put_def drop_key_def)

fun stored :: "place \<Rightarrow> store \<Rightarrow> node option" where
  "stored (In_Repo p) \<sigma> = fst \<sigma> p"
| "stored (In_Hold n) \<sigma> = map_option File (snd \<sigma> n)"

fun linked :: "place \<Rightarrow> file_obj \<Rightarrow> store \<Rightarrow> store" where
  "linked (In_Repo p) f \<sigma> = ((fst \<sigma>)(p \<mapsto> File f), snd \<sigma>)"
| "linked (In_Hold n) f \<sigma> = (fst \<sigma>, (snd \<sigma>)(n \<mapsto> f))"

fun unlinked :: "place \<Rightarrow> store \<Rightarrow> store" where
  "unlinked (In_Repo p) \<sigma> = ((fst \<sigma>)(p := None), snd \<sigma>)"
| "unlinked (In_Hold n) \<sigma> = (fst \<sigma>, (snd \<sigma>)(n := None))"

lemma object_at_store: "object_at a d = stored a (store d)"
  by (cases a) (simp_all add: store_def)

lemma store_link: "dk_slots d \<noteq> None \<Longrightarrow> store (link_at a f d) = linked a f (store d)"
  by (cases a) (auto simp: store_def slot_lookup_def)

lemma store_unlink: "dk_slots d \<noteq> None \<Longrightarrow> store (unlink_at a d) = unlinked a (store d)"
  by (cases a) (auto simp: store_def slot_lookup_def)

lemma stored_linked: "stored q (linked b f \<sigma>) = (if q = b then Some (File f) else stored q \<sigma>)"
  by (cases q; cases b) auto

lemma stored_unlinked: "stored q (unlinked b \<sigma>) = (if q = b then None else stored q \<sigma>)"
  by (cases q; cases b) auto

lemma store_eqI: "(\<And>q. stored q \<sigma> = stored q \<tau>) \<Longrightarrow> \<sigma> = \<tau>"
proof (rule prod_eqI; rule ext)
  fix p assume "\<And>q. stored q \<sigma> = stored q \<tau>"
  from this [of "In_Repo p"] show "fst \<sigma> p = fst \<tau> p" by simp
next
  fix n assume "\<And>q. stored q \<sigma> = stored q \<tau>"
  from this [of "In_Hold n"] show "snd \<sigma> n = snd \<tau> n"
    by (cases "snd \<sigma> n"; cases "snd \<tau> n") auto
qed

section \<open>Moves as relations\<close>

definition place_of :: "side \<Rightarrow> string \<Rightarrow> place option" where
  "place_of sd n = (case sd of HOLD_SIDE \<Rightarrow> if is_slot n then Some (In_Hold n) else None
     | REPO_SIDE \<Rightarrow> (case split_path n of Inl e \<Rightarrow> None | Inr parts \<Rightarrow> Some (In_Repo parts)))"

abbreviation "source m \<equiv> place_of (mv_from_side m) (mv_from_name m)"
abbreviation "target m \<equiv> place_of (mv_to_side m) (mv_to_name m)"

fun open_to :: "place \<Rightarrow> store \<Rightarrow> bool" where
  "open_to (In_Repo p) \<sigma> = (walk_dirs (fst \<sigma>) [] (butlast p) = Open)"
| "open_to (In_Hold n) \<sigma> = True"

definition movable :: "application_world \<Rightarrow> move \<Rightarrow> store \<Rightarrow> place \<Rightarrow> place \<Rightarrow> file_obj \<Rightarrow> bool" where
  "movable w m \<sigma> a b f = (source m = Some a \<and> target m = Some b \<and> stored a \<sigma> = Some (File f)
     \<and> pw_sha w (fo_data f) = mv_sha m \<and> int (length (fo_data f)) \<le> max_content_file_bytes
     \<and> stored b \<sigma> = None \<and> open_to a \<sigma> \<and> open_to b \<sigma>)"

text \<open>The target name claimed: the object is at both ends.\<close>

definition doubled :: "application_world \<Rightarrow> move \<Rightarrow> store \<Rightarrow> store \<Rightarrow> bool" where
  "doubled w m \<sigma> \<sigma>' = (\<exists>a b f. movable w m \<sigma> a b f \<and> \<sigma>' = linked b f \<sigma>)"

definition carried :: "application_world \<Rightarrow> move \<Rightarrow> store \<Rightarrow> store \<Rightarrow> bool" where
  "carried w m \<sigma> \<sigma>' = (\<exists>a b f. movable w m \<sigma> a b f \<and> \<sigma>' = unlinked a (linked b f \<sigma>))"

text \<open>A move not made cannot be mistaken for a move made.\<close>

definition unlanded :: "move \<Rightarrow> store \<Rightarrow> bool" where
  "unlanded m \<sigma> = (\<forall>a b. source m = Some a \<longrightarrow> target m = Some b \<longrightarrow> stored b \<sigma> = None \<or> stored a \<sigma> \<noteq> None)"

primrec chain :: "application_world \<Rightarrow> move list \<Rightarrow> store \<Rightarrow> store \<Rightarrow> bool" where
  "chain w [] \<sigma> \<sigma>' = (\<sigma>' = \<sigma>)"
| "chain w (m # ms) \<sigma> \<sigma>' = (\<exists>\<tau>. carried w m \<sigma> \<tau> \<and> chain w ms \<tau> \<sigma>')"

lemma carriedI: "movable w m \<sigma> a b f \<Longrightarrow> carried w m \<sigma> (unlinked a (linked b f \<sigma>))"
  by (auto simp: carried_def)

lemma doubledI: "movable w m \<sigma> a b f \<Longrightarrow> doubled w m \<sigma> (linked b f \<sigma>)"
  by (auto simp: doubled_def)

lemma chain_snoc: "chain w (ms @ [m]) \<sigma> \<sigma>' \<longleftrightarrow> (\<exists>\<tau>. chain w ms \<sigma> \<tau> \<and> carried w m \<tau> \<sigma>')"
proof (induction ms arbitrary: \<sigma>)
  case Nil
  show ?case by (simp del: split_paired_Ex)
next
  case (Cons m' ms)
  then show ?case by (simp del: split_paired_Ex) blast
qed

lemma carried_back: "carried w m \<sigma> \<sigma>' \<Longrightarrow> carried w (reverse_move m) \<sigma>' \<tau> \<Longrightarrow> \<tau> = \<sigma>"
  by (rule store_eqI) (auto simp: carried_def movable_def reverse_move_def stored_linked stored_unlinked split: if_splits)

section \<open>The code at one state of the store\<close>

definition standing :: "store \<Rightarrow> journal \<Rightarrow> journal stored \<Rightarrow> disk \<Rightarrow> bool" where
  "standing \<sigma> j x d = (store d = \<sigma> \<and> dk_slots d \<noteq> None \<and> dk_payload d = Some j \<and> dk_journal d = x \<and> dk_holder d)"

lemma standing_tick [simp]: "standing \<sigma> j x (d\<lparr>dk_tick := n\<rparr>) = standing \<sigma> j x d"
  by (simp add: standing_def store_def)

definition timeless :: "(disk \<Rightarrow> bool) \<Rightarrow> bool" where
  "timeless P = (\<forall>d n. P (d\<lparr>dk_tick := n\<rparr>) = P d)"

lemma timeless_standing [simp]: "timeless (standing \<sigma> j x)"
  by (simp add: timeless_def)

lemma timeless_ex [simp]: "(\<And>a. timeless (P a)) \<Longrightarrow> timeless (\<lambda>d. \<exists>a. P a d)"
  by (simp add: timeless_def)

lemma timeless_conj [simp]: "timeless P \<Longrightarrow> timeless Q \<Longrightarrow> timeless (\<lambda>d. P d \<and> Q d)"
  by (simp add: timeless_def)

lemma timeless_const [simp]: "timeless (\<lambda>d. b)"
  by (simp add: timeless_def)

lemma hoare_syscall:
  assumes "hoare P m Q E" "timeless P"
    and "\<And>d. P d \<Longrightarrow> E (Raised e) d" "\<And>d. P d \<Longrightarrow> E (Raised Unforeseen) d" "\<And>d. P d \<Longrightarrow> E Died d"
  shows "hoare P (syscall w e m) Q E"
proof (unfold hoare_def, intro allI impI)
  fix d assume P: "P d"
  let ?d = "d\<lparr>dk_tick := Suc (dk_tick d)\<rparr>"
  have P': "P ?d" using P assms(2) by (simp add: timeless_def)
  show "case syscall w e m d of (Inl x, s') \<Rightarrow> E x s' | (Inr a, s') \<Rightarrow> Q a s'"
    using assms(1) [unfolded hoare_def, rule_format, OF P'] assms(3-5) [OF P']
    by (cases "pw_fate w (dk_tick d)")
      (simp_all add: syscall_def fate_of_def seq_def refuse_def halt_with_def)
qed

lemma hoare_handled:
  assumes "hoare P m Q E" "timeless P"
    and "\<And>d. P d \<Longrightarrow> E (Raised e) d" "\<And>d. P d \<Longrightarrow> E (Raised Unforeseen) d" "\<And>d. P d \<Longrightarrow> E Died d"
    and "\<And>a d. Q a d \<Longrightarrow> E (Raised ApplicationCleanupFailed) d"
  shows "hoare P (handled w e m) Q E"
proof (unfold hoare_def, intro allI impI)
  fix d assume P: "P d"
  let ?d = "d\<lparr>dk_tick := Suc (dk_tick d)\<rparr>"
  have P': "P ?d" using P assms(2) by (simp add: timeless_def)
  have clean: "hoare P (seq m (\<lambda>_. refuse ApplicationCleanupFailed)) Q E"
    by (rule hoare_seq [OF assms(1)]) (auto simp: refuse_def hoare_def halt_with_def assms(6))
  show "case handled w e m d of (Inl x, s') \<Rightarrow> E x s' | (Inr a, s') \<Rightarrow> Q a s'"
    using assms(1) [unfolded hoare_def, rule_format, OF P'] assms(3-5) [OF P']
      clean [unfolded hoare_def, rule_format, OF P']
    by (cases "pw_fate w (dk_tick d)")
      (simp_all add: handled_def fate_of_def seq_def refuse_def halt_with_def)
qed

section \<open>Evidence, ends and renames\<close>

definition seen :: "store \<Rightarrow> side \<Rightarrow> string \<Rightarrow> app_error + file_obj option" where
  "seen \<sigma> sd n = (case sd of HOLD_SIDE \<Rightarrow> if is_slot n then ordinary (map_option File (snd \<sigma> n)) else Inl ApplicationContainment
     | REPO_SIDE \<Rightarrow> (case split_path n of Inl e \<Rightarrow> Inl e | Inr parts \<Rightarrow> evidence_at (fst \<sigma>) parts))"

lemma ordinary_Some: "ordinary x = Inr (Some f) \<longleftrightarrow> x = Some (File f) \<and> int (length (fo_data f)) \<le> max_content_file_bytes"
  by (auto simp: ordinary_def split: option.splits node.splits)

lemma seen_Some:
  "seen \<sigma> sd n = Inr (Some f) \<longleftrightarrow> (\<exists>a. place_of sd n = Some a \<and> stored a \<sigma> = Some (File f)
     \<and> int (length (fo_data f)) \<le> max_content_file_bytes \<and> open_to a \<sigma>)"
  by (auto simp: seen_def place_of_def evidence_at_def ordinary_Some split: side.splits sum.splits walked.splits)

lemma seq_checked [simp]: "seq (checked (Inr a)) f = f a" "seq (checked (Inl e)) f = refuse e"
  by (simp_all add: fun_eq_iff seq_def checked_def yield_def result_def halt_with_def refuse_def)

lemma hoare_refuse: "(\<And>d. P d \<Longrightarrow> E (Raised e) d) \<Longrightarrow> hoare P (refuse e) Q E"
  by (simp add: hoare_def refuse_def halt_with_def)

lemma hoare_reading:
  assumes "\<And>d. P d \<Longrightarrow> g d = y"
  shows "hoare P (seq (reads g) checked) (\<lambda>a d. P d \<and> y = Inr a) (\<lambda>_. P)"
  using assms by (cases y) (auto simp: hoare_def seq_def reads_def checked_def yield_def result_def halt_with_def)

lemma hoare_evidence:
  "hoare (standing \<sigma> j x) (evidence_of w sd n) (\<lambda>ev d. standing \<sigma> j x d \<and> seen \<sigma> sd n = Inr ev) (\<lambda>_. standing \<sigma> j x)"
proof (cases sd)
  case REPO_SIDE
  show ?thesis
  proof (cases "split_path n")
    case (Inl e)
    then show ?thesis by (simp add: REPO_SIDE evidence_of_def repo_evidence_def hoare_refuse)
  next
    case (Inr parts)
    have "hoare (standing \<sigma> j x) (handled w ApplicationContainment (seq (reads (\<lambda>d. evidence_at (map_of (dk_repo d)) parts)) checked))
       (\<lambda>ev d. standing \<sigma> j x d \<and> evidence_at (fst \<sigma>) parts = Inr ev) (\<lambda>_. standing \<sigma> j x)"
      by (rule hoare_handled [OF hoare_reading]) (auto simp: standing_def store_def)
    then show ?thesis by (simp add: REPO_SIDE Inr evidence_of_def repo_evidence_def seen_def)
  qed
next
  case HOLD_SIDE
  have "hoare (standing \<sigma> j x) (slot_evidence w n)
       (\<lambda>ev d. standing \<sigma> j x d \<and> ordinary (map_option File (snd \<sigma> n)) = Inr ev) (\<lambda>_. standing \<sigma> j x)"
    unfolding slot_evidence_def by (rule hoare_handled [OF hoare_reading]) (auto simp: standing_def store_def)
  then show ?thesis by (simp add: HOLD_SIDE evidence_of_def seen_def hoare_refuse)
qed

lemma hoare_open_chain:
  "hoare (standing \<sigma> j x) (open_chain w p) (\<lambda>_ d. standing \<sigma> j x d \<and> walk_dirs (fst \<sigma>) [] p = Open) (\<lambda>_. standing \<sigma> j x)"
  unfolding open_chain_def
  by (rule hoare_syscall)
    (auto simp: hoare_def seq_def reads_def result_def refuse_def halt_with_def standing_def store_def)

lemma hoare_endpoint:
  "hoare (standing \<sigma> j x) (endpoint w sd n) (\<lambda>a d. standing \<sigma> j x d \<and> place_of sd n = Some a \<and> open_to a \<sigma>)
     (\<lambda>_. standing \<sigma> j x)"
proof (cases sd)
  case HOLD_SIDE
  then show ?thesis by (auto simp: endpoint_def place_of_def hoare_def result_def refuse_def halt_with_def)
next
  case REPO_SIDE
  show ?thesis
  proof (cases "split_path n")
    case (Inl e)
    then show ?thesis by (simp add: REPO_SIDE endpoint_def hoare_refuse)
  next
    case (Inr parts)
    have "hoare (standing \<sigma> j x) (seq (open_chain w (butlast parts)) (\<lambda>_. result (In_Repo parts)))
        (\<lambda>a d. standing \<sigma> j x d \<and> place_of sd n = Some a \<and> open_to a \<sigma>) (\<lambda>_. standing \<sigma> j x)"
      by (rule hoare_seq [OF hoare_open_chain]) (auto simp: hoare_def result_def place_of_def REPO_SIDE Inr)
    then show ?thesis by (simp add: REPO_SIDE Inr endpoint_def)
  qed
qed

lemma standing_link: "standing \<sigma> j x d \<Longrightarrow> standing (linked b f \<sigma>) j x (link_at b f d)"
  using store_link [of d b f] by (cases b) (auto simp: standing_def)

lemma standing_unlink: "standing \<sigma> j x d \<Longrightarrow> standing (unlinked a \<sigma>) j x (unlink_at a d)"
  using store_unlink [of d a] by (cases a) (auto simp: standing_def)

lemma hoare_rename:
  "hoare (standing \<sigma> j x) (rename_child w a b)
     (\<lambda>_ d. \<exists>f. stored a \<sigma> = Some (File f) \<and> stored b \<sigma> = None \<and> standing (unlinked a (linked b f \<sigma>)) j x d)
     (\<lambda>_ d. standing \<sigma> j x d \<or> (\<exists>f. stored a \<sigma> = Some (File f) \<and> stored b \<sigma> = None \<and> standing (linked b f \<sigma>) j x d))"
  unfolding rename_child_def
proof (rule hoare_seq)
  show "hoare (standing \<sigma> j x) (syscall w ApplicationContainment (seq (reads (\<lambda>d. (object_at a d, object_at b d))) (\<lambda>(x, y).
       case x of Some (File f) \<Rightarrow> if y \<noteq> None then refuse ConcurrentMainChange else modifies (link_at b f)
       | _ \<Rightarrow> refuse ApplicationContainment)))
     (\<lambda>_ d. \<exists>f. stored a \<sigma> = Some (File f) \<and> stored b \<sigma> = None \<and> standing (linked b f \<sigma>) j x d)
     (\<lambda>_ d. standing \<sigma> j x d \<or> (\<exists>f. stored a \<sigma> = Some (File f) \<and> stored b \<sigma> = None \<and> standing (linked b f \<sigma>) j x d))"
  proof (rule hoare_syscall)
    have eq: "object_at q d = stored q \<sigma>" if "standing \<sigma> j x d" for q d
      using that by (simp add: standing_def object_at_store)
    show "hoare (standing \<sigma> j x) (seq (reads (\<lambda>d. (object_at a d, object_at b d))) (\<lambda>(x, y).
       case x of Some (File f) \<Rightarrow> if y \<noteq> None then refuse ConcurrentMainChange else modifies (link_at b f)
       | _ \<Rightarrow> refuse ApplicationContainment))
      (\<lambda>_ d. \<exists>f. stored a \<sigma> = Some (File f) \<and> stored b \<sigma> = None \<and> standing (linked b f \<sigma>) j x d)
      (\<lambda>_ d. standing \<sigma> j x d \<or> (\<exists>f. stored a \<sigma> = Some (File f) \<and> stored b \<sigma> = None \<and> standing (linked b f \<sigma>) j x d))"
      by (auto simp: hoare_def seq_def reads_def eq refuse_def halt_with_def modifies_def standing_link
        split: option.splits node.splits)
  qed simp_all
next
  fix u'
  show "hoare (\<lambda>d. \<exists>f. stored a \<sigma> = Some (File f) \<and> stored b \<sigma> = None \<and> standing (linked b f \<sigma>) j x d)
     (syscall w ApplicationContainment (modifies (unlink_at a)))
     (\<lambda>_ d. \<exists>f. stored a \<sigma> = Some (File f) \<and> stored b \<sigma> = None \<and> standing (unlinked a (linked b f \<sigma>)) j x d)
     (\<lambda>_ d. standing \<sigma> j x d \<or> (\<exists>f. stored a \<sigma> = Some (File f) \<and> stored b \<sigma> = None \<and> standing (linked b f \<sigma>) j x d))"
    by (rule hoare_syscall) (auto simp: hoare_def modifies_def standing_unlink)
qed

section \<open>Executing and undoing\<close>

lemma hoare_execute:
  "hoare (standing \<sigma> j x) (execute_move w m)
     (\<lambda>_ d. \<exists>\<tau>. carried w m \<sigma> \<tau> \<and> standing \<tau> j x d)
     (\<lambda>_ d. standing \<sigma> j x d \<or> (\<exists>\<tau>. doubled w m \<sigma> \<tau> \<and> standing \<tau> j x d))"
  unfolding execute_move_def
proof (rule hoare_then [OF hoare_evidence])
  fix ev
  let ?Q = "\<lambda>_ d. \<exists>\<tau>. carried w m \<sigma> \<tau> \<and> standing \<tau> j x d"
  let ?E = "\<lambda>_ d. standing \<sigma> j x d \<or> (\<exists>\<tau>. doubled w m \<sigma> \<tau> \<and> standing \<tau> j x d)"
  show "hoare (\<lambda>d. standing \<sigma> j x d \<and> seen \<sigma> (mv_from_side m) (mv_from_name m) = Inr ev)
     (case ev of None \<Rightarrow> refuse ConcurrentMainChange
     | Some f \<Rightarrow> if pw_sha w (fo_data f) \<noteq> mv_sha m then refuse ConcurrentMainChange
         else seq (endpoint w (mv_from_side m) (mv_from_name m)) (\<lambda>a.
           seq (endpoint w (mv_to_side m) (mv_to_name m)) (rename_child w a))) ?Q ?E"
  proof (cases "\<exists>f a. ev = Some f \<and> pw_sha w (fo_data f) = mv_sha m \<and> source m = Some a \<and> stored a \<sigma> = Some (File f)
      \<and> int (length (fo_data f)) \<le> max_content_file_bytes \<and> open_to a \<sigma>")
    case False
    then show ?thesis
      by (cases ev) (auto simp: seen_Some hoare_def refuse_def halt_with_def)
  next
    case True
    then obtain f a where f: "ev = Some f" "pw_sha w (fo_data f) = mv_sha m" "source m = Some a" "stored a \<sigma> = Some (File f)"
      "int (length (fo_data f)) \<le> max_content_file_bytes" "open_to a \<sigma>" by blast
    have rename: "hoare (\<lambda>d. standing \<sigma> j x d \<and> target m = Some b \<and> open_to b \<sigma>) (rename_child w a b) ?Q ?E" for b
    proof (cases "target m = Some b \<and> open_to b \<sigma>")
      case True
      then have moves: "stored b \<sigma> = None \<Longrightarrow> movable w m \<sigma> a b f" using f by (simp add: movable_def)
      show ?thesis
        by (rule hoare_weaken [OF hoare_rename]) (use moves f(4) carriedI doubledI in \<open>fastforce+\<close>)
    qed (auto simp: hoare_def)
    have "hoare (standing \<sigma> j x) (seq (endpoint w (mv_from_side m) (mv_from_name m)) (\<lambda>a.
           seq (endpoint w (mv_to_side m) (mv_to_name m)) (rename_child w a))) ?Q ?E"
    proof (rule hoare_then [OF hoare_endpoint])
      fix a'
      show "hoare (\<lambda>d. standing \<sigma> j x d \<and> source m = Some a' \<and> open_to a' \<sigma>)
          (seq (endpoint w (mv_to_side m) (mv_to_name m)) (rename_child w a')) ?Q ?E"
      proof (cases "a' = a")
        case True
        show ?thesis unfolding True
          by (rule hoare_pre [OF hoare_then [OF hoare_endpoint _ rename]]) auto
      qed (simp add: hoare_def f(3))
    qed auto
    then show ?thesis by (simp add: f hoare_def)
  qed
qed auto

lemma walk_cong: "(\<And>p. c p = Some Dir \<Longrightarrow> c' p = Some Dir) \<Longrightarrow> walk_dirs c pre ps = Open \<Longrightarrow> walk_dirs c' pre ps = Open"
  by (induction c pre ps rule: walk_dirs.induct) (auto split: option.splits node.splits)

lemma open_to_linked: "stored b \<sigma> = None \<Longrightarrow> open_to q \<sigma> \<Longrightarrow> open_to q (linked b f \<sigma>)"
  by (cases q; cases b) (auto elim!: walk_cong [rotated])

lemma open_to_unlinked: "stored a \<sigma> = Some (File f) \<Longrightarrow> open_to q \<sigma> \<Longrightarrow> open_to q (unlinked a \<sigma>)"
  by (cases q; cases a) (auto elim!: walk_cong [rotated])

lemma movable_ends: "movable w m \<sigma> a b f \<Longrightarrow> a \<noteq> b"
  by (auto simp: movable_def)

text \<open>After a move its object is seen at the target.\<close>

lemma landed:
  assumes "carried w m \<sigma> \<tau> \<or> doubled w m \<sigma> \<tau>" and "seen \<tau> (mv_to_side m) (mv_to_name m) = Inr ev"
  shows "holds_content w ev (mv_sha m)"
proof -
  from assms(1) obtain a b f where m: "movable w m \<sigma> a b f" "\<tau> = unlinked a (linked b f \<sigma>) \<or> \<tau> = linked b f \<sigma>"
    by (auto simp: carried_def doubled_def)
  note ends = movable_ends [OF m(1)]
  have "stored b \<tau> = Some (File f)" using m(2) ends by (auto simp: stored_linked stored_unlinked)
  moreover have "open_to b (linked b f \<sigma>)" using m(1) by (simp add: open_to_linked movable_def)
  then have "open_to b \<tau>"
    using m open_to_unlinked [of a "linked b f \<sigma>" f b] ends by (auto simp: stored_linked movable_def)
  ultimately have "seen \<tau> (mv_to_side m) (mv_to_name m) = Inr (Some f)"
    using m(1) by (simp add: seen_Some movable_def)
  with assms(2) m(1) show ?thesis by (auto simp: holds_content_def movable_def)
qed

definition interrupted :: "application_world \<Rightarrow> move \<Rightarrow> store \<Rightarrow> store \<Rightarrow> bool" where
  "interrupted w m \<sigma> \<tau> = (\<tau> = \<sigma> \<and> unlanded m \<sigma> \<or> carried w m \<sigma> \<tau> \<or> doubled w m \<sigma> \<tau>)"

lemma interrupted_back:
  assumes "interrupted w m \<sigma> \<tau>" and "carried w (reverse_move m) \<tau> \<rho>"
  shows "\<rho> = \<sigma>"
proof -
  obtain a b f where r: "movable w (reverse_move m) \<tau> b a f" "\<rho> = unlinked b (linked a f \<tau>)"
    using assms(2) by (auto simp: carried_def)
  then have "source m = Some a" "target m = Some b" "stored a \<tau> = None" "stored b \<tau> = Some (File f)"
    by (auto simp: movable_def reverse_move_def)
  then have "carried w m \<sigma> \<tau>"
    using assms(1) by (auto simp: interrupted_def unlanded_def doubled_def movable_def stored_linked split: if_splits)
  then show ?thesis by (rule carried_back [OF _ assms(2)])
qed

lemma undo_restores:
  assumes i: "interrupted w m \<sigma> \<tau>"
  shows "hoare (standing \<tau> j x) (undo w m) (\<lambda>_. standing \<sigma> j x) (\<lambda>_ d. \<exists>\<rho>. standing \<rho> j x d)"
  unfolding undo_def
proof (rule hoare_then [OF hoare_evidence])
  fix ev
  let ?E = "\<lambda>_ d. \<exists>\<rho>. standing \<rho> j x d"
  have reversed: "hoare (standing \<tau> j x) (execute_move w (reverse_move m)) (\<lambda>_. standing \<sigma> j x) ?E"
    by (rule hoare_weaken [OF hoare_execute]) (use interrupted_back [OF i] in blast)+
  have still: "hoare (standing \<tau> j x) (seq (evidence_of w (mv_from_side m) (mv_from_name m)) (\<lambda>still.
       if holds_content w still (mv_sha m) then result () else refuse RollbackFailed)) (\<lambda>_. standing \<tau> j x) ?E"
    by (rule hoare_then [OF hoare_evidence]) (auto simp: hoare_def result_def refuse_def halt_with_def)
  show "hoare (\<lambda>d. standing \<tau> j x d \<and> seen \<tau> (mv_to_side m) (mv_to_name m) = Inr ev)
     (if holds_content w ev (mv_sha m) then execute_move w (reverse_move m)
     else seq (evidence_of w (mv_from_side m) (mv_from_name m)) (\<lambda>still.
       if holds_content w still (mv_sha m) then result () else refuse RollbackFailed)) (\<lambda>_. standing \<sigma> j x) ?E"
  proof (cases "holds_content w ev (mv_sha m)")
    case True
    then show ?thesis by (auto intro!: hoare_pre [OF reversed])
  next
    case False
    show ?thesis
    proof (cases "\<tau> = \<sigma>")
      case True
      then show ?thesis using False by (auto intro!: hoare_pre [OF still [unfolded True]])
    next
      case moved: False
      with i have "carried w m \<sigma> \<tau> \<or> doubled w m \<sigma> \<tau>" by (auto simp: interrupted_def)
      with landed [OF this] False show ?thesis by (auto simp: hoare_def)
    qed
  qed
qed auto

text \<open>
  Where a move list stood when the code was interrupted, \<open>n\<close> being the journalled number of moves:
  the last of them may have been made, half made or not begun.
\<close>

definition stood :: "application_world \<Rightarrow> move list \<Rightarrow> nat \<Rightarrow> store \<Rightarrow> store \<Rightarrow> bool" where
  "stood w ms n \<sigma> \<sigma>' = (n = 0 \<and> \<sigma>' = \<sigma> \<or> (\<exists>k \<tau>. n = Suc k \<and> k < length ms \<and> chain w (take k ms) \<sigma> \<tau>
     \<and> interrupted w (ms ! k) \<tau> \<sigma>'))"

lemma stood_chain: "n \<le> length ms \<Longrightarrow> chain w (take n ms) \<sigma> \<sigma>' \<Longrightarrow> stood w ms n \<sigma> \<sigma>'"
  by (cases n) (auto simp: stood_def take_Suc_conv_app_nth chain_snoc interrupted_def)

section \<open>The journal\<close>

text \<open>
  Writes of the journal that work unless the process dies in them. The lemmas assume nothing about
  the writes; they say for each exit what it leaves when one fails, and this predicate marks those
  exits that only a failing write can take.
\<close>

definition writable :: "application_world \<Rightarrow> bool" where
  "writable w = (\<forall>n. pw_write w n = Works \<or> pw_write w n = Dies)"

lemma JOURNAL_SCHEMA_update [simp]:
  "JOURNAL_SCHEMA (j\<lparr>jl_state := s\<rparr>) = JOURNAL_SCHEMA j"
  "JOURNAL_SCHEMA (j\<lparr>jl_applied_index := n\<rparr>) = JOURNAL_SCHEMA j"
  by (simp_all add: JOURNAL_SCHEMA_def)

lemma standing_journal [simp]: "standing \<sigma> j x (d\<lparr>dk_journal := y\<rparr>) \<longleftrightarrow> y = x \<and> standing \<sigma> j (dk_journal d) d"
  by (auto simp: standing_def store_def)

lemma standing_payload [simp]: "standing \<sigma> j x (d\<lparr>dk_payload := Some k\<rparr>) \<longleftrightarrow> k = j \<and> (\<exists>i. standing \<sigma> i x d) \<or> k = j \<and> dk_payload d = None
    \<and> store d = \<sigma> \<and> dk_slots d \<noteq> None \<and> dk_journal d = x \<and> dk_holder d"
  by (cases "dk_payload d") (auto simp: standing_def store_def)

text \<open>How a write that does not return leaves the disk: as it was, or, when it raised, as it would be.\<close>

definition unwritten :: "application_world \<Rightarrow> (disk \<Rightarrow> bool) \<Rightarrow> (disk \<Rightarrow> bool) \<Rightarrow> app_exit \<Rightarrow> disk \<Rightarrow> bool" where
  "unwritten w P Q e d = (e = Died \<and> P d \<or> e \<noteq> Died \<and> \<not> writable w \<and> (P d \<or> Q d))"

lemma hoare_write:
  assumes "JOURNAL_SCHEMA k"
  shows "hoare (standing \<sigma> j x) (write_journal w k) (\<lambda>_. standing \<sigma> j (Holds k)) (unwritten w (standing \<sigma> j x) (standing \<sigma> j (Holds k)))"
proof (unfold hoare_def, intro allI impI)
  fix d assume d: "standing \<sigma> j x d"
  have "pw_write w (dk_tick d) \<in> {Works, Dies} \<or> \<not> writable w" by (auto simp: writable_def)
  with d show "case write_journal w k d of
      (Inl e, d') \<Rightarrow> unwritten w (standing \<sigma> j x) (standing \<sigma> j (Holds k)) e d' | (Inr a, d') \<Rightarrow> standing \<sigma> j (Holds k) d'"
    by (cases "pw_write w (dk_tick d)")
      (auto simp: write_journal_def assms seq_def fate_of_def modifies_def refuse_def halt_with_def standing_def store_def unwritten_def)
qed

lemma hoare_the_payload:
  "hoare (standing \<sigma> j x) the_payload (\<lambda>k d. k = j \<and> standing \<sigma> j x d) E"
  by (auto simp: hoare_def the_payload_def seq_def reads_def result_def standing_def)

lemma hoare_keep_payload: "hoare (standing \<sigma> j x) (keep_payload k) (\<lambda>_. standing \<sigma> k x) E"
  by (auto simp: hoare_def keep_payload_def modifies_def standing_def store_def)

lemma hoare_learn:
  assumes "hoare P m (\<lambda>k d. k = j \<and> P' d) E" "hoare P' (f j) Q E"
  shows "hoare P (seq m f) Q E"
  by (rule hoare_seq [OF assms(1)]) (use assms(2) in \<open>auto simp: hoare_def\<close>)

lemma hoare_advance:
  assumes "JOURNAL_SCHEMA j" "t \<in> set (ALLOWED_JOURNAL_TRANSITIONS (jl_state j))"
  shows "hoare (standing \<sigma> j x) (advance_journal w t)
     (\<lambda>_. standing \<sigma> (j\<lparr>jl_state := t\<rparr>) (Holds (j\<lparr>jl_state := t\<rparr>)))
     (unwritten w (standing \<sigma> j x) (standing \<sigma> j (Holds (j\<lparr>jl_state := t\<rparr>))))"
  unfolding advance_journal_def
  by (rule hoare_learn [OF hoare_the_payload])
    (use assms in \<open>auto intro!: hoare_seq [OF hoare_write] hoare_keep_payload\<close>)

section \<open>The rollback\<close>

text \<open>The rollback's own journals, in memory and on disk: in the state of a rollback.\<close>

definition rolling :: "store \<Rightarrow> disk \<Rightarrow> bool" where
  "rolling \<sigma> d = (\<exists>j k. JOURNAL_SCHEMA j \<and> jl_state j = ROLLING_BACK \<and> jl_state k = ROLLING_BACK
     \<and> standing \<sigma> j (Holds k) d)"

lemma rollingI:
  "standing \<sigma> j (Holds k) d \<Longrightarrow> JOURNAL_SCHEMA j \<Longrightarrow> jl_state j = ROLLING_BACK \<Longrightarrow> jl_state k = ROLLING_BACK \<Longrightarrow> rolling \<sigma> d"
  by (auto simp: rolling_def)

lemma hoare_rolling:
  assumes "\<And>j k. JOURNAL_SCHEMA j \<Longrightarrow> jl_state j = ROLLING_BACK \<Longrightarrow> jl_state k = ROLLING_BACK
    \<Longrightarrow> hoare (standing \<sigma> j (Holds k)) m Q E"
  shows "hoare (rolling \<sigma>) m Q E"
  by (rule hoareI) (unfold rolling_def, meson assms hoare_InrD, meson assms hoare_InlD)

lemma undo_step_restores:
  assumes "interrupted w m \<sigma> \<tau>"
  shows "hoare (rolling \<tau>) (undo_step w m) (\<lambda>_. rolling \<sigma>) (\<lambda>_ d. \<exists>\<rho>. rolling \<rho> d)"
proof (rule hoare_rolling)
  fix j k :: journal
  assume j: "JOURNAL_SCHEMA j" "jl_state j = ROLLING_BACK" "jl_state k = ROLLING_BACK"
  let ?k = "j\<lparr>jl_applied_index := mv_index m\<rparr>"
  have written: "hoare (standing \<sigma> ?k (Holds k)) (write_journal w ?k) (\<lambda>_. rolling \<sigma>) (\<lambda>_ d. \<exists>\<rho>. rolling \<rho> d)"
    by (rule hoare_weaken [OF hoare_write])
      (use j in \<open>auto simp: unwritten_def intro!: exI intro: rollingI\<close>)
  show "hoare (standing \<tau> j (Holds k)) (undo_step w m) (\<lambda>_. rolling \<sigma>) (\<lambda>_ d. \<exists>\<rho>. rolling \<rho> d)"
    unfolding undo_step_def
  proof (rule hoare_then [OF undo_restores [OF assms]])
    show "hoare (standing \<sigma> j (Holds k)) (seq the_payload (\<lambda>j. seq (keep_payload (j\<lparr>jl_applied_index := mv_index m\<rparr>)) (\<lambda>_.
       write_journal w (j\<lparr>jl_applied_index := mv_index m\<rparr>)))) (\<lambda>_. rolling \<sigma>) (\<lambda>_ d. \<exists>\<rho>. rolling \<rho> d)"
      by (rule hoare_learn [OF hoare_the_payload], rule hoare_seq [OF hoare_keep_payload], rule written)
  qed (use j in \<open>auto intro: rollingI\<close>)
qed

lemma each_append: "each f (xs @ ys) = seq (each f xs) (\<lambda>_. each f ys)"
  by (induction xs) (auto simp: fun_eq_iff seq_def result_def split: prod.splits sum.splits)

lemma undo_chain:
  "hoare (\<lambda>d. \<exists>\<tau>. chain w ms \<sigma> \<tau> \<and> rolling \<tau> d) (each (undo_step w) (rev ms)) (\<lambda>_. rolling \<sigma>)
     (\<lambda>_ d. \<exists>\<rho>. rolling \<rho> d)"
proof (induction ms rule: rev_induct)
  case Nil
  show ?case by (auto simp: hoare_def result_def)
next
  case (snoc m ms)
  have step: "hoare (\<lambda>d. \<exists>\<tau>. chain w (ms @ [m]) \<sigma> \<tau> \<and> rolling \<tau> d) (undo_step w m)
      (\<lambda>_ d. \<exists>\<tau>. chain w ms \<sigma> \<tau> \<and> rolling \<tau> d) (\<lambda>_ d. \<exists>\<rho>. rolling \<rho> d)"
  proof (rule hoare_any)
    fix \<tau>
    assume "chain w (ms @ [m]) \<sigma> \<tau>"
    then obtain \<rho> where "chain w ms \<sigma> \<rho>" "interrupted w m \<rho> \<tau>" by (auto simp: chain_snoc interrupted_def)
    then show "hoare (rolling \<tau>) (undo_step w m) (\<lambda>_ d. \<exists>\<tau>. chain w ms \<sigma> \<tau> \<and> rolling \<tau> d) (\<lambda>_ d. \<exists>\<rho>. rolling \<rho> d)"
      by (intro hoare_weaken [OF undo_step_restores]) auto
  qed
  show ?case by simp (rule hoare_seq [OF step], rule snoc.IH)
qed

lemma undo_stood:
  assumes "stood w ms n \<sigma> \<tau>"
  shows "hoare (rolling \<tau>) (each (undo_step w) (rev (take n ms))) (\<lambda>_. rolling \<sigma>) (\<lambda>_ d. \<exists>\<rho>. rolling \<rho> d)"
proof (cases n)
  case 0
  then show ?thesis using assms by (auto simp: stood_def hoare_def result_def)
next
  case (Suc k)
  with assms obtain \<rho> where r: "k < length ms" "chain w (take k ms) \<sigma> \<rho>" "interrupted w (ms ! k) \<rho> \<tau>"
    by (auto simp: stood_def)
  show ?thesis using r(1)
    by (simp add: Suc take_Suc_conv_app_nth)
      (rule hoare_seq [OF undo_step_restores [OF r(3)]],
       rule hoare_pre [OF undo_chain], use r(2) in blast)
qed

text \<open>The directories the application made, over a checkout that has none of them.\<close>

definition with_dirs :: "string list set \<Rightarrow> (string list \<Rightarrow> node option) \<Rightarrow> string list \<Rightarrow> node option" where
  "with_dirs C R = (\<lambda>p. if p \<in> C then Some Dir else R p)"

definition rooted :: "(string list \<Rightarrow> node option) \<Rightarrow> bool" where
  "rooted R = (\<forall>p. p \<noteq> [] \<longrightarrow> R p \<noteq> None \<longrightarrow> butlast p = [] \<or> R (butlast p) = Some Dir)"

text \<open>Outermost first: no directory comes after one of its children.\<close>

fun outermost :: "string list list \<Rightarrow> bool" where
  "outermost [] = True"
| "outermost (p # ps) = (p \<noteq> [] \<and> (\<forall>q\<in>set ps. butlast p \<noteq> q) \<and> p \<notin> set ps \<and> outermost ps)"

lemma outermost_snoc:
  "outermost (ps @ [p]) \<longleftrightarrow> outermost ps \<and> p \<noteq> [] \<and> p \<notin> set ps \<and> (\<forall>q\<in>set ps. butlast q \<noteq> p)"
  by (induction ps) auto

lemma hoare_remove:
  "hoare (standing \<sigma> j x) (remove_directory w p)
     (\<lambda>_ d. fst \<sigma> p = Some Dir \<and> (standing ((fst \<sigma>)(p := None), snd \<sigma>) j x d
        \<or> standing \<sigma> j x d \<and> (\<exists>q. q \<noteq> [] \<and> butlast q = p \<and> fst \<sigma> q \<noteq> None)))
     (\<lambda>_. standing \<sigma> j x)"
  unfolding remove_directory_def
proof (rule hoare_then [OF hoare_open_chain])
  fix y
  have child: "\<exists>q. q \<noteq> [] \<and> butlast q = p \<and> fst \<sigma> q \<noteq> None"
    if d: "standing \<sigma> j x d" "has_child (dk_repo d) p" for d
  proof -
    from d(2) obtain q z where q: "(q, z) \<in> set (dk_repo d)" "q \<noteq> []" "butlast q = p"
      by (auto simp: has_child_def list_ex_iff)
    then have "map_of (dk_repo d) q \<noteq> None" by (metis map_of_eq_None_iff fst_conv image_eqI)
    with d(1) q show ?thesis by (auto simp: standing_def store_def)
  qed
  have body: "hoare (standing \<sigma> j x) (seq (reads dk_repo) (\<lambda>c. case map_of c p of
         Some Dir \<Rightarrow> if has_child c p then result () else modifies (\<lambda>d. d\<lparr>dk_repo := drop_key p (dk_repo d)\<rparr>)
       | _ \<Rightarrow> refuse RollbackFailed))
     (\<lambda>_ d. fst \<sigma> p = Some Dir \<and> (standing ((fst \<sigma>)(p := None), snd \<sigma>) j x d
        \<or> standing \<sigma> j x d \<and> (\<exists>q. q \<noteq> [] \<and> butlast q = p \<and> fst \<sigma> q \<noteq> None))) (\<lambda>_. standing \<sigma> j x)"
  proof (unfold hoare_def, intro allI impI)
    fix d assume d: "standing \<sigma> j x d"
    then have look: "map_of (dk_repo d) p = fst \<sigma> p" by (auto simp: standing_def store_def)
    have gone: "standing ((fst \<sigma>)(p := None), snd \<sigma>) j x (d\<lparr>dk_repo := drop_key p (dk_repo d)\<rparr>)"
      using d by (auto simp: standing_def store_def)
    show "case seq (reads dk_repo) (\<lambda>c. case map_of c p of
         Some Dir \<Rightarrow> if has_child c p then result () else modifies (\<lambda>d. d\<lparr>dk_repo := drop_key p (dk_repo d)\<rparr>)
       | _ \<Rightarrow> refuse RollbackFailed) d of (Inl e, d') \<Rightarrow> standing \<sigma> j x d'
      | (Inr a, d') \<Rightarrow> fst \<sigma> p = Some Dir \<and> (standing ((fst \<sigma>)(p := None), snd \<sigma>) j x d'
        \<or> standing \<sigma> j x d' \<and> (\<exists>q. q \<noteq> [] \<and> butlast q = p \<and> fst \<sigma> q \<noteq> None))"
      using d gone child [OF d]
      by (auto simp: seq_def reads_def look refuse_def halt_with_def result_def modifies_def
          split: option.splits node.splits)
  qed
  show "hoare (\<lambda>d. standing \<sigma> j x d \<and> walk_dirs (fst \<sigma>) [] (butlast p) = Open)
     (syscall w RollbackFailed (seq (reads dk_repo) (\<lambda>c. case map_of c p of
         Some Dir \<Rightarrow> if has_child c p then result () else modifies (\<lambda>d. d\<lparr>dk_repo := drop_key p (dk_repo d)\<rparr>)
       | _ \<Rightarrow> refuse RollbackFailed)))
     (\<lambda>_ d. fst \<sigma> p = Some Dir \<and> (standing ((fst \<sigma>)(p := None), snd \<sigma>) j x d
        \<or> standing \<sigma> j x d \<and> (\<exists>q. q \<noteq> [] \<and> butlast q = p \<and> fst \<sigma> q \<noteq> None))) (\<lambda>_. standing \<sigma> j x)"
    by (rule hoare_pre [OF hoare_syscall [OF body]]) auto
qed auto

text \<open>The made directories over \<open>R\<close>, the slots left open.\<close>

definition made :: "(string list \<Rightarrow> node option) \<Rightarrow> string list set \<Rightarrow> store \<Rightarrow> bool" where
  "made R ds \<sigma> = (\<exists>C\<subseteq>ds. fst \<sigma> = with_dirs C R)"

lemma remove_last:
  assumes "rooted R" "outermost (ps @ [p])" "\<forall>q\<in>set (ps @ [p]). R q = None" "made R (set (ps @ [p])) \<sigma>"
  shows "hoare (rolling \<sigma>) (remove_directory w p) (\<lambda>_ d. \<exists>\<tau>. made R (set ps) \<tau> \<and> rolling \<tau> d) (\<lambda>_ d. \<exists>\<rho>. rolling \<rho> d)"
proof (rule hoare_rolling)
  fix j k :: journal
  assume j: "JOURNAL_SCHEMA j" "jl_state j = ROLLING_BACK" "jl_state k = ROLLING_BACK"
  obtain C where C: "C \<subseteq> insert p (set ps)" "fst \<sigma> = with_dirs C R" using assms(4) by (auto simp: made_def)
  have "made R (set ps) ((fst \<sigma>)(p := None), snd \<sigma>)"
    unfolding made_def using C assms(2,3)
    by (intro exI [of _ "C - {p}"]) (auto simp: with_dirs_def fun_eq_iff outermost_snoc)
  moreover have "\<not> (\<exists>q. q \<noteq> [] \<and> butlast q = p \<and> fst \<sigma> q \<noteq> None)"
  proof
    assume "\<exists>q. q \<noteq> [] \<and> butlast q = p \<and> fst \<sigma> q \<noteq> None"
    then obtain q where q: "q \<noteq> []" "butlast q = p" "fst \<sigma> q \<noteq> None" by blast
    have p: "p \<noteq> []" "R p = None" using assms(2,3) by (auto simp: outermost_snoc)
    then have "R q = None" using assms(1) q(1,2) by (force simp: rooted_def)
    then have "q \<in> C" using q(3) C(2) by (auto simp: with_dirs_def split: if_splits)
    moreover have "q \<noteq> p" using q(1,2) by (metis length_butlast diff_less length_greater_0_conv less_irrefl zero_less_one)
    ultimately have "q \<in> set ps" using C(1) by blast
    then show False using assms(2) q(2) by (auto simp: outermost_snoc)
  qed
  ultimately show "hoare (standing \<sigma> j (Holds k)) (remove_directory w p) (\<lambda>_ d. \<exists>\<tau>. made R (set ps) \<tau> \<and> rolling \<tau> d)
      (\<lambda>_ d. \<exists>\<rho>. rolling \<rho> d)"
    by (intro hoare_weaken [OF hoare_remove]) (use j in \<open>auto intro: rollingI\<close>)
qed

lemma remove_all:
  assumes "rooted R" "outermost ps" "\<forall>q\<in>set ps. R q = None" "list_all2 (\<lambda>x p. split_path x = Inr p) xs ps"
  shows "hoare (\<lambda>d. \<exists>\<sigma>. made R (set ps) \<sigma> \<and> rolling \<sigma> d)
     (each (\<lambda>x. seq (checked (split_path x)) (remove_directory w)) (rev xs))
     (\<lambda>_ d. \<exists>\<sigma>. fst \<sigma> = R \<and> rolling \<sigma> d) (\<lambda>_ d. \<exists>\<rho>. rolling \<rho> d)"
  using assms
proof (induction ps arbitrary: xs rule: rev_induct)
  case Nil
  then show ?case by (auto simp: hoare_def result_def made_def with_dirs_def)
next
  case (snoc p ps)
  obtain ys y where xs: "xs = ys @ [y]" "list_all2 (\<lambda>x p. split_path x = Inr p) ys ps" "split_path y = Inr p"
    using snoc.prems(4) by (auto simp: list_all2_append2 list_all2_Cons2)
  have step: "hoare (\<lambda>d. \<exists>\<sigma>. made R (set (ps @ [p])) \<sigma> \<and> rolling \<sigma> d) (remove_directory w p)
     (\<lambda>_ d. \<exists>\<sigma>. made R (set ps) \<sigma> \<and> rolling \<sigma> d) (\<lambda>_ d. \<exists>\<rho>. rolling \<rho> d)"
    by (rule hoare_any) (rule remove_last [OF snoc.prems(1-3)])
  show ?case
    by (simp add: xs(1,3)) (rule hoare_seq [OF step [simplified]], rule snoc.IH [OF snoc.prems(1) _ _ xs(2)];
      use snoc.prems in \<open>simp add: outermost_snoc\<close>)
qed

text \<open>
  What the rollback starts from, and what a crash leaves to the next process: the checkout \<open>R\<close> with
  some of the directories made, the moves where the code was interrupted, and a journal in memory
  and on disk that both know where that was.
\<close>

definition open_journal :: "journal \<Rightarrow> bool" where
  "open_journal j = (JOURNAL_SCHEMA j \<and> jl_state j \<in> {REGISTERED, PREPARED, APPLYING})"

definition logged :: "application_world \<Rightarrow> move list \<Rightarrow> string list list \<Rightarrow> store \<Rightarrow> store \<Rightarrow> journal \<Rightarrow> bool" where
  "logged w ms ds \<sigma> \<tau> j = (open_journal j \<and> jl_moves j = ms \<and> jl_directories j = map join_slash ds
     \<and> stood w ms (jl_applied_index j) \<sigma> \<tau>)"

definition journalled :: "application_world \<Rightarrow> (string list \<Rightarrow> node option) \<Rightarrow> move list \<Rightarrow> string list list \<Rightarrow> disk \<Rightarrow> bool" where
  "journalled w R ms ds d = (\<exists>\<sigma> \<tau> j k. made R (set ds) \<sigma> \<and> logged w ms ds \<sigma> \<tau> j \<and> logged w ms ds \<sigma> \<tau> k
     \<and> standing \<tau> j (Holds k) d)"

lemma journalledI:
  "standing \<tau> j (Holds k) d \<Longrightarrow> made R (set ds) \<sigma> \<Longrightarrow> logged w ms ds \<sigma> \<tau> j \<Longrightarrow> logged w ms ds \<sigma> \<tau> k \<Longrightarrow> journalled w R ms ds d"
  by (auto simp: journalled_def)

definition restored :: "(string list \<Rightarrow> node option) \<Rightarrow> disk \<Rightarrow> bool" where
  "restored R d = (map_of (dk_repo d) = R)"

definition on_disk :: "journal_state \<Rightarrow> disk \<Rightarrow> bool" where
  "on_disk s d = (\<exists>j. dk_journal d = Holds j \<and> jl_state j = s)"

lemma hoare_on_error:
  assumes "hoare P m Q E'" "\<And>e. hoare (E' (Raised e)) (h e) Q E" "\<And>d. E' Died d \<Longrightarrow> E Died d"
  shows "hoare P (on_error m h) Q E"
  unfolding on_error_def
proof (rule hoare_attempt [OF assms(1)])
  fix x
  show "hoare (E' x) (case x of Died \<Rightarrow> halt_with Died | Raised e \<Rightarrow> h e) Q E"
    using assms(2,3) by (cases x) (auto simp: hoare_def halt_with_def)
qed

text \<open>How a rollback ends when it does not: given up, or its record says that it did not end.\<close>

definition gave_up :: "app_exit \<Rightarrow> disk \<Rightarrow> bool" where
  "gave_up e d = (e = Raised RollbackFailed \<and> on_disk J_FAILED d)"

definition stopped :: "application_world \<Rightarrow> app_exit \<Rightarrow> disk \<Rightarrow> bool" where
  "stopped w e d = (gave_up e d \<or> e = Died \<and> on_disk ROLLING_BACK d
     \<or> e \<noteq> Died \<and> \<not> writable w \<and> (on_disk ROLLING_BACK d \<or> on_disk J_FAILED d))"

lemma rolling_on_disk: "rolling \<sigma> d \<Longrightarrow> on_disk ROLLING_BACK d"
  by (auto simp: rolling_def on_disk_def standing_def)

lemma standing_on_disk: "standing \<sigma> j (Holds k) d \<Longrightarrow> on_disk (jl_state k) d"
  by (auto simp: on_disk_def standing_def)

lemma rollback_failed_gives_up:
  "hoare (\<lambda>d. \<exists>\<rho>. rolling \<rho> d) (rollback_failed w) Q (stopped w)"
proof -
  have "hoare (rolling \<rho>) (rollback_failed w) Q (stopped w)" for \<rho>
  proof (rule hoare_rolling)
    fix j k :: journal
    assume j: "JOURNAL_SCHEMA j" "jl_state k = ROLLING_BACK"
    have given: "stopped w (Raised RollbackFailed) d" if "standing \<rho> j (Holds (j\<lparr>jl_state := J_FAILED\<rparr>)) d" for d
      using standing_on_disk [OF that] by (simp add: stopped_def gave_up_def)
    have open_end: "stopped w e d"
      if "unwritten w (standing \<rho> j (Holds k)) (standing \<rho> j (Holds (j\<lparr>jl_state := J_FAILED\<rparr>))) e d" for e d
      using that j(2) by (auto simp: unwritten_def stopped_def dest: standing_on_disk)
    have "hoare (standing \<rho> j (Holds k)) (seq (write_journal w (j\<lparr>jl_state := J_FAILED\<rparr>)) (\<lambda>_. refuse RollbackFailed)) Q (stopped w)"
      by (rule hoare_then [OF hoare_write open_end hoare_refuse]) (use j given in auto)
    then show "hoare (standing \<rho> j (Holds k)) (rollback_failed w) Q (stopped w)"
      unfolding rollback_failed_def by (rule hoare_learn [OF hoare_the_payload])
  qed
  then show ?thesis by (rule hoare_ex)
qed

text \<open>The journal of a finished rollback is closed.\<close>

definition rolled_back :: "(string list \<Rightarrow> node option) \<Rightarrow> disk \<Rightarrow> bool" where
  "rolled_back R d = (restored R d \<and> on_disk ROLLED_BACK d)"

text \<open>The exits of a rollback that started on the disk states \<open>P\<close>.\<close>

definition broken_off :: "application_world \<Rightarrow> (string list \<Rightarrow> node option) \<Rightarrow> (disk \<Rightarrow> bool) \<Rightarrow> app_exit \<Rightarrow> disk \<Rightarrow> bool" where
  "broken_off w R P e d = (stopped w e d \<or> (e = Died \<or> \<not> writable w) \<and> P d \<or> e \<noteq> Died \<and> \<not> writable w \<and> rolled_back R d)"

lemma hoare_rolled_back:
  "hoare (\<lambda>d. \<exists>\<sigma>. fst \<sigma> = R \<and> rolling \<sigma> d) (advance_journal w ROLLED_BACK) (\<lambda>_. rolled_back R) (broken_off w R P)"
proof (rule hoare_any, rule hoare_rolling)
  fix \<sigma> :: store and i k :: journal
  assume h: "fst \<sigma> = R" "JOURNAL_SCHEMA i" "jl_state i = ROLLING_BACK" "jl_state k = ROLLING_BACK"
  let ?i = "i\<lparr>jl_state := ROLLED_BACK\<rparr>"
  have closed: "rolled_back R d" if "standing \<sigma> j (Holds ?i) d" for j d
    using that h(1) standing_on_disk [OF that] by (auto simp: rolled_back_def restored_def standing_def store_def)
  have open_end: "broken_off w R P e d" if "unwritten w (standing \<sigma> i (Holds k)) (standing \<sigma> i (Holds ?i)) e d" for e d
    using that h(4) by (auto simp: unwritten_def broken_off_def stopped_def dest: standing_on_disk closed)
  show "hoare (standing \<sigma> i (Holds k)) (advance_journal w ROLLED_BACK) (\<lambda>_. rolled_back R) (broken_off w R P)"
    by (rule hoare_weaken [OF hoare_advance [OF h(2)]])
      (use h(3) closed open_end in \<open>auto simp: ALLOWED_JOURNAL_TRANSITIONS_def\<close>)
qed

text \<open>Only the journal in memory decides what a rollback undoes, whatever the one on disk says.\<close>

lemma rollback_from:
  assumes R: "rooted R" and ds: "outermost ds" "\<forall>q\<in>set ds. R q = None"
    and names: "list_all2 (\<lambda>x p. split_path x = Inr p) (map join_slash ds) ds"
    and h: "made R (set ds) \<sigma>" "logged w ms ds \<sigma> \<tau> j"
  shows "hoare (standing \<tau> j (Holds i)) (rollback w ms) (\<lambda>_. rolled_back R) (broken_off w R (standing \<tau> j (Holds i)))"
proof -
  let ?P = "standing \<tau> j (Holds i)"
  let ?k = "j\<lparr>jl_state := ROLLING_BACK\<rparr>"
  have k: "JOURNAL_SCHEMA ?k" using h(2) by (simp add: logged_def open_journal_def)
  have s: "stood w ms (jl_applied_index ?k) \<sigma> \<tau>" using h(2) by (simp add: logged_def)
  have "hoare (rolling \<tau>) (undo_everything w (take (jl_applied_index ?k) ms) (jl_directories ?k))
      (\<lambda>_ d. \<exists>\<sigma>. fst \<sigma> = R \<and> rolling \<sigma> d) (\<lambda>_ d. \<exists>\<rho>. rolling \<rho> d)"
    unfolding undo_everything_def
    by (rule hoare_seq [OF undo_stood [OF s]], rule hoare_pre [OF remove_all [OF R ds]]) (use h names in \<open>auto simp: logged_def\<close>)
  then have "hoare (rolling \<tau>) (on_error (undo_everything w (take (jl_applied_index ?k) ms) (jl_directories ?k)) (\<lambda>_. rollback_failed w))
      (\<lambda>_ d. \<exists>\<sigma>. fst \<sigma> = R \<and> rolling \<sigma> d) (stopped w)"
    by (rule hoare_on_error [OF _ rollback_failed_gives_up]) (auto simp: stopped_def dest: rolling_on_disk)
  then have everything: "hoare (standing \<tau> ?k (Holds ?k))
      (on_error (undo_everything w (take (jl_applied_index ?k) ms) (jl_directories ?k)) (\<lambda>_. rollback_failed w))
      (\<lambda>_ d. \<exists>\<sigma>. fst \<sigma> = R \<and> rolling \<sigma> d) (broken_off w R ?P)"
    by (rule hoare_weaken) (use k in \<open>auto simp: broken_off_def intro: rollingI\<close>)
  have begins: "broken_off w R ?P e d" if "unwritten w ?P (standing \<tau> j (Holds ?k)) e d" for e d
    using that by (auto simp: unwritten_def broken_off_def stopped_def dest: standing_on_disk)
  show ?thesis unfolding rollback_def
  proof (rule hoare_then [OF hoare_advance begins])
    show "hoare (standing \<tau> ?k (Holds ?k)) (seq the_payload (\<lambda>j.
        seq (on_error (undo_everything w (take (jl_applied_index j) ms) (jl_directories j)) (\<lambda>_. rollback_failed w)) (\<lambda>_.
        advance_journal w ROLLED_BACK))) (\<lambda>_. rolled_back R) (broken_off w R ?P)"
      by (rule hoare_learn [OF hoare_the_payload], rule hoare_seq [OF everything], rule hoare_rolled_back)
  qed (use h in \<open>auto simp: logged_def open_journal_def ALLOWED_JOURNAL_TRANSITIONS_def\<close>)
qed

theorem rollback_restores:
  assumes R: "rooted R" and ds: "outermost ds" "\<forall>q\<in>set ds. R q = None"
    and names: "list_all2 (\<lambda>x p. split_path x = Inr p) (map join_slash ds) ds"
  shows "hoare (journalled w R ms ds) (rollback w ms) (\<lambda>_. rolled_back R) (broken_off w R (journalled w R ms ds))"
proof -
  have "hoare (standing \<tau> j (Holds i)) (rollback w ms) (\<lambda>_. rolled_back R) (broken_off w R (journalled w R ms ds))"
    if h: "made R (set ds) \<sigma>" "logged w ms ds \<sigma> \<tau> j" "logged w ms ds \<sigma> \<tau> i" for \<sigma> \<tau> j i
    by (rule hoare_weaken [OF rollback_from [OF R ds names h(1,2)]])
      (use journalledI [OF _ h] in \<open>auto simp: broken_off_def\<close>)
  then show ?thesis
    unfolding journalled_def [abs_def] by (intro hoare_ex hoare_conj)
qed

end
