(* ===== verification/Agent_Atomic.thy ===== *)
theory Agent_Atomic
  imports Agent_Rollback
begin

text \<open>
  One application from its plan to its end: what the plan and the survey of directories hand on,
  what staging leaves in the slots, where every exit of the moves stands. With the rollback this
  gives the whole: a checkout that is as it was, or that holds the candidate, or an error that
  says neither is known.
\<close>

section \<open>The plan as a function\<close>

fun moves_of :: "application_world \<Rightarrow> nat \<Rightarrow> nat \<Rightarrow> (change \<times> file_obj option) list \<Rightarrow> move list" where
  "moves_of w slot n [] = []"
| "moves_of w slot n ((c, current) # xs) =
     (if kind c = ADDED then put_in slot n c # moves_of w (Suc slot) (Suc n) xs
      else if kind c = MODIFIED
        then take_out w slot n c (the current) # put_in slot (Suc n) c # moves_of w (Suc slot) (Suc (Suc n)) xs
      else take_out w slot n c (the current) # moves_of w (Suc slot) (Suc n) xs)"

fun staged_of :: "nat \<Rightarrow> change list \<Rightarrow> (string \<times> change) list" where
  "staged_of slot [] = []"
| "staged_of slot (c # cs) = (if kind c = DELETED then staged_of (Suc slot) cs
     else (slot_name (CHR ''s'') slot, c) # staged_of (Suc slot) cs)"

text \<open>What the plan saw in the checkout \<open>R\<close>.\<close>

definition observed :: "(string list \<Rightarrow> node option) \<Rightarrow> change \<times> file_obj option \<Rightarrow> bool" where
  "observed R x = (\<exists>parts. split_path (path (fst x)) = Inr parts \<and> evidence_at R parts = Inr (snd x)
     \<and> (kind (fst x) = ADDED \<longleftrightarrow> snd x = None))"

text \<open>The disk before an application: the checkout \<open>R\<close>, no holder of this id.\<close>

definition fresh :: "(string list \<Rightarrow> node option) \<Rightarrow> disk \<Rightarrow> bool" where
  "fresh R d = (map_of (dk_repo d) = R \<and> \<not> dk_holder d \<and> dk_journal d = Missing \<and> dk_slots d = None)"

definition plan_result :: "application_world \<Rightarrow> (string list \<Rightarrow> node option) \<Rightarrow> nat \<Rightarrow> change list \<Rightarrow> plan \<Rightarrow> plan \<Rightarrow> bool" where
  "plan_result w R slot cs p p' = (\<exists>xs. map fst xs = cs \<and> list_all (observed R) xs
     \<and> pl_moves p' = pl_moves p @ moves_of w slot (length (pl_moves p)) xs
     \<and> pl_staged p' = pl_staged p @ staged_of slot cs
     \<and> (\<forall>q\<in>set (pl_wanted p'). q \<in> set (pl_wanted p) \<or> (\<exists>c\<in>set cs. \<exists>parts. split_path (path c) = Inr parts \<and> q = butlast parts)))"

lemma timeless_fresh [simp]: "timeless (fresh R)"
  by (simp add: timeless_def fresh_def)

lemma plan_evidence:
  assumes "split_path p = Inr parts"
  shows "hoare (fresh R) (repo_evidence w p) (\<lambda>ev d. fresh R d \<and> evidence_at R parts = Inr ev) (\<lambda>_. fresh R)"
  unfolding repo_evidence_def assms
  by simp (rule hoare_handled [OF hoare_reading]; auto simp: fresh_def)

lemma plan_tree: "hoare (fresh R) (tree_evidence w t p) (\<lambda>_. fresh R) (\<lambda>_. fresh R)"
proof (cases "split_path p")
  case (Inl e)
  then show ?thesis by (simp add: tree_evidence_def hoare_refuse)
next
  case (Inr parts)
  have "hoare (fresh R) (checked x) (\<lambda>_. fresh R) (\<lambda>_. fresh R)" for x :: "app_error + file_obj option"
    by (cases x) (auto simp: hoare_def checked_def yield_def result_def halt_with_def)
  then show ?thesis unfolding tree_evidence_def Inr by simp (rule hoare_handled; auto)
qed

lemma plan_baseline:
  "hoare (fresh R) (assert_baseline w c current baseline) (\<lambda>f d. fresh R d \<and> current = Some f) (\<lambda>_. fresh R)"
  by (auto simp: assert_baseline_def clean_equivalent_def hoare_def seq_def refuse_def halt_with_def result_def
      split: option.splits sum.splits)

lemma plan_change_result:
  "hoare (fresh R) (plan_change w slot c p) (\<lambda>p' d. fresh R d \<and> plan_result w R slot [c] p p') (\<lambda>_. fresh R)"
proof (cases "split_path (path c)")
  case (Inl e)
  then show ?thesis by (simp add: plan_change_def hoare_refuse)
next
  case (Inr parts)
  have one: "plan_result w R slot [c] p p'"
    if "evidence_at R parts = Inr current" "kind c = ADDED \<longleftrightarrow> current = None"
      "pl_moves p' = pl_moves p @ moves_of w slot (length (pl_moves p)) [(c, current)]"
      "pl_staged p' = pl_staged p @ staged_of slot [c]"
      "pl_wanted p' = pl_wanted p \<or> pl_wanted p' = pl_wanted p @ [butlast parts]" for current p'
    unfolding plan_result_def
    by (rule exI [of _ "[(c, current)]"]) (use that Inr in \<open>auto simp: observed_def\<close>)
  show ?thesis unfolding plan_change_def Let_def Inr seq_checked
  proof (rule hoare_then [OF plan_evidence [OF Inr]])
    fix current
    show "hoare (\<lambda>d. fresh R d \<and> evidence_at R parts = Inr current)
       (if kind c = ADDED then
         (if current \<noteq> None then refuse MainCheckoutMismatch
          else result (p\<lparr>pl_moves := pl_moves p @ [put_in slot (length (pl_moves p)) c],
            pl_staged := pl_staged p @ [(slot_name (CHR ''s'') slot, c)],
            pl_wanted := pl_wanted p @ [butlast parts]\<rparr>))
       else seq (tree_evidence w (pw_reference w) (path c)) (\<lambda>baseline.
         seq (assert_baseline w c current baseline) (\<lambda>f.
         if kind c = MODIFIED
         then result (p\<lparr>pl_moves := pl_moves p @ [take_out w slot (length (pl_moves p)) c f, put_in slot (Suc (length (pl_moves p))) c],
           pl_staged := pl_staged p @ [(slot_name (CHR ''s'') slot, c)]\<rparr>)
         else result (p\<lparr>pl_moves := pl_moves p @ [take_out w slot (length (pl_moves p)) c f]\<rparr>))))
       (\<lambda>p' d. fresh R d \<and> plan_result w R slot [c] p p') (\<lambda>_. fresh R)"
    proof (cases "evidence_at R parts = Inr current")
      case seen: True
      show ?thesis
      proof (cases "kind c = ADDED")
        case True
        then show ?thesis using seen
          by (auto simp: hoare_def refuse_def halt_with_def result_def intro!: one [of None])
      next
        case False
        have last: "hoare (\<lambda>d. fresh R d \<and> current = Some f)
           (if kind c = MODIFIED
             then result (p\<lparr>pl_moves := pl_moves p @ [take_out w slot (length (pl_moves p)) c f, put_in slot (Suc (length (pl_moves p))) c],
               pl_staged := pl_staged p @ [(slot_name (CHR ''s'') slot, c)]\<rparr>)
             else result (p\<lparr>pl_moves := pl_moves p @ [take_out w slot (length (pl_moves p)) c f]\<rparr>))
           (\<lambda>p' d. fresh R d \<and> plan_result w R slot [c] p p') (\<lambda>_. fresh R)" for f
          using False seen
          by (cases "kind c") (auto simp: hoare_def result_def intro!: one [of "Some f"])
        show ?thesis
          using False
          by simp (rule hoare_pre [OF hoare_seq [OF plan_tree hoare_seq [OF plan_baseline last]]]; simp)
      qed
    qed (simp add: hoare_def)
  qed simp
qed

lemma moves_of_append:
  "moves_of w slot n (xs @ ys) = moves_of w slot n xs @ moves_of w (slot + length xs) (n + length (moves_of w slot n xs)) ys"
  by (induction w slot n xs rule: moves_of.induct) auto

lemma staged_of_append: "staged_of slot (cs @ ds) = staged_of slot cs @ staged_of (slot + length cs) ds"
  by (induction slot cs rule: staged_of.induct) auto

lemma plan_result_trans:
  assumes "plan_result w R slot [c] p p'" "plan_result w R (Suc slot) cs p' p''"
  shows "plan_result w R slot (c # cs) p p''"
proof -
  from assms(1) obtain xs where xs: "map fst xs = [c]" "list_all (observed R) xs"
    "pl_moves p' = pl_moves p @ moves_of w slot (length (pl_moves p)) xs" "pl_staged p' = pl_staged p @ staged_of slot [c]"
    "\<forall>q\<in>set (pl_wanted p'). q \<in> set (pl_wanted p) \<or> (\<exists>c\<in>set [c]. \<exists>parts. split_path (path c) = Inr parts \<and> q = butlast parts)"
    unfolding plan_result_def by (elim exE conjE) (rule that)
  from assms(2) obtain ys where ys: "map fst ys = cs" "list_all (observed R) ys"
    "pl_moves p'' = pl_moves p' @ moves_of w (Suc slot) (length (pl_moves p')) ys" "pl_staged p'' = pl_staged p' @ staged_of (Suc slot) cs"
    "\<forall>q\<in>set (pl_wanted p''). q \<in> set (pl_wanted p') \<or> (\<exists>c\<in>set cs. \<exists>parts. split_path (path c) = Inr parts \<and> q = butlast parts)"
    unfolding plan_result_def by (elim exE conjE) (rule that)
  have "length xs = 1" using xs(1) by (metis length_map list.size(3,4) One_nat_def add_0)
  then show ?thesis unfolding plan_result_def
    by (intro exI [of _ "xs @ ys"] conjI)
      (use xs ys moves_of_append [of w slot "length (pl_moves p)" xs ys] staged_of_append [of slot "[c]" cs] in \<open>auto simp: list_all_iff\<close>)
qed

lemma plan_from_result:
  "hoare (fresh R) (plan_from w slot cs p) (\<lambda>p' d. fresh R d \<and> plan_result w R slot cs p p') (\<lambda>_. fresh R)"
proof (induction cs arbitrary: slot p)
  case Nil
  show ?case by (simp add: hoare_def result_def plan_result_def)
next
  case (Cons c cs)
  show ?case unfolding plan_from.simps
  proof (rule hoare_seq [OF plan_change_result])
    fix p'
    show "hoare (\<lambda>d. fresh R d \<and> plan_result w R slot [c] p p') (plan_from w (Suc slot) cs p')
      (\<lambda>p'' d. fresh R d \<and> plan_result w R slot (c # cs) p p'') (\<lambda>_. fresh R)"
    proof (cases "plan_result w R slot [c] p p'")
      case True
      then show ?thesis by (intro hoare_weaken [OF Cons.IH]) (auto intro: plan_result_trans)
    qed (simp add: hoare_def)
  qed
qed

section \<open>The missing directories\<close>

text \<open>Each directory is absent, and its parent is there or comes before it.\<close>

fun surveyed :: "(string list \<Rightarrow> node option) \<Rightarrow> string list list \<Rightarrow> bool" where
  "surveyed R [] = True"
| "surveyed R (p # ps) = (p \<noteq> [] \<and> p \<notin> set ps \<and> R p = None
     \<and> (butlast p \<in> set ps \<or> walk_dirs R [] (butlast p) = Open) \<and> surveyed R ps)"

lemma walk_dirs_append:
  "walk_dirs c pre (ps @ qs) = Open \<longleftrightarrow> walk_dirs c pre ps = Open \<and> walk_dirs c (pre @ ps) qs = Open"
  by (induction c pre ps rule: walk_dirs.induct) (auto split: option.splits node.splits)

lemma walk_dirs_last: "walk_dirs R [] p = Open \<Longrightarrow> p \<noteq> [] \<Longrightarrow> R p = Some Dir"
  using walk_dirs_append [of R "[]" "butlast p" "[last p]"] by (auto split: option.splits node.splits)

lemma surveyed_absent: "surveyed R ps \<Longrightarrow> q \<in> set ps \<Longrightarrow> R q = None \<and> q \<noteq> []"
  by (induction ps) auto

lemma surveyed_outermost: "surveyed R (rev ds) \<Longrightarrow> outermost ds"
proof (induction ds rule: rev_induct)
  case (snoc p ds)
  then have p: "surveyed R (rev ds)" "p \<noteq> []" "p \<notin> set ds" "R p = None" by auto
  moreover have "butlast q \<noteq> p" if q: "q \<in> set ds" for q
  proof
    assume b: "butlast q = p"
    have "\<exists>ps. surveyed R (q # ps) \<and> set ps \<subseteq> set ds"
    proof -
      obtain xs ys where "rev ds = xs @ q # ys" using q by (metis split_list set_rev)
      moreover have "surveyed R (xs @ q # ys) \<Longrightarrow> surveyed R (q # ys)" for xs ys by (induction xs) auto
      ultimately show ?thesis using p(1) by (metis set_rev Un_upper2 set_append set_subset_Cons subset_trans)
    qed
    then show False using p b walk_dirs_last [of R p] by auto
  qed
  ultimately show ?case using snoc.IH by (simp add: outermost_snoc)
qed simp

definition survey_ok :: "(string list \<Rightarrow> node option) \<Rightarrow> survey \<Rightarrow> bool" where
  "survey_ok R sv = (surveyed R (rev (sv_missing sv)) \<and> set (sv_missing sv) \<subseteq> set (sv_asked sv))"

lemma plan_chain:
  "hoare (fresh R) (open_chain w p) (\<lambda>_ d. fresh R d \<and> walk_dirs R [] p = Open) (\<lambda>_. fresh R)"
  unfolding open_chain_def
  by (rule hoare_syscall)
    (auto simp: hoare_def seq_def reads_def result_def refuse_def halt_with_def fresh_def)

lemma survey_one_ok:
  assumes R: "rooted R" and sv: "survey_ok R sv" and p: "p \<noteq> []"
  shows "hoare (fresh R) (survey_one w p sv)
     (\<lambda>sv' d. fresh R d \<and> survey_ok R sv' \<and> set (sv_missing sv') \<subseteq> insert p (set (sv_missing sv))) (\<lambda>_. fresh R)"
proof (cases "p \<in> set (sv_asked sv)")
  case True
  then show ?thesis using sv by (auto simp: survey_one_def hoare_def result_def)
next
  case False
  let ?asked = "sv\<lparr>sv_asked := sv_asked sv @ [p]\<rparr>"
  let ?gone = "?asked\<lparr>sv_missing := sv_missing sv @ [p]\<rparr>"
  let ?Q = "\<lambda>sv' d. fresh R d \<and> survey_ok R sv' \<and> set (sv_missing sv') \<subseteq> insert p (set (sv_missing sv))"
  have ok: "survey_ok R ?asked" "set (sv_missing ?asked) \<subseteq> insert p (set (sv_missing sv))"
    using sv by (auto simp: survey_ok_def)
  have gone: "survey_ok R ?gone" if "R p = None" "butlast p \<in> set (sv_missing sv) \<or> walk_dirs R [] (butlast p) = Open"
    using sv that p False by (auto simp: survey_ok_def)
  show ?thesis
  proof (cases "butlast p \<in> set (sv_missing sv)")
    case True
    then have parent: "R (butlast p) = None" "butlast p \<noteq> []"
      using sv surveyed_absent [of R "rev (sv_missing sv)" "butlast p"] by (auto simp: survey_ok_def)
    then have "R p = None" using R p by (auto simp: rooted_def)
    with gone True False show ?thesis
      by (auto simp: survey_one_def Let_def hoare_def result_def)
  next
    case present: False
    have "hoare (\<lambda>d. fresh R d \<and> walk_dirs R [] (butlast p) = Open)
       (syscall w ApplicationContainment (seq (reads (\<lambda>d. map_of (dk_repo d) p)) (\<lambda>x. case x of None \<Rightarrow> result ?gone
          | Some Dir \<Rightarrow> result ?asked | Some _ \<Rightarrow> refuse ApplicationContainment))) ?Q (\<lambda>_. fresh R)"
      by (rule hoare_syscall)
        (use ok gone in \<open>auto simp: hoare_def seq_def reads_def result_def refuse_def halt_with_def fresh_def
          timeless_def split: option.splits node.splits\<close>)
    then show ?thesis using False present
      unfolding survey_one_def Let_def by simp (rule hoare_seq [OF plan_chain])
  qed
qed

lemma survey_all_ok:
  assumes "rooted R"
  shows "survey_ok R sv \<Longrightarrow> \<forall>p\<in>set ps. p \<noteq> [] \<Longrightarrow> hoare (fresh R) (survey_all w ps sv)
     (\<lambda>sv' d. fresh R d \<and> survey_ok R sv' \<and> set (sv_missing sv') \<subseteq> set ps \<union> set (sv_missing sv)) (\<lambda>_. fresh R)"
proof (induction ps arbitrary: sv)
  case Nil
  then show ?case by (auto simp: hoare_def result_def)
next
  case (Cons p ps)
  show ?case unfolding survey_all.simps
  proof (rule hoare_seq [OF survey_one_ok [OF assms Cons.prems(1)]])
    fix sv'
    show "hoare (\<lambda>d. fresh R d \<and> survey_ok R sv' \<and> set (sv_missing sv') \<subseteq> insert p (set (sv_missing sv))) (survey_all w ps sv')
        (\<lambda>sv'' d. fresh R d \<and> survey_ok R sv'' \<and> set (sv_missing sv'') \<subseteq> set (p # ps) \<union> set (sv_missing sv)) (\<lambda>_. fresh R)"
    proof (cases "survey_ok R sv' \<and> set (sv_missing sv') \<subseteq> insert p (set (sv_missing sv))")
      case True
      then show ?thesis by (intro hoare_weaken [OF Cons.IH]) (use Cons.prems in auto)
    next
      case False
      then show ?thesis by (auto simp: hoare_def)
    qed
  qed (use Cons.prems in simp)
qed

text \<open>A canonical path as components, and back.\<close>

definition canonical :: "string list \<Rightarrow> bool" where
  "canonical p = (p \<noteq> [] \<and> (\<forall>x\<in>set p. x \<noteq> [] \<and> x \<noteq> ''.'' \<and> x \<noteq> ''..''
     \<and> CHR ''/'' \<notin> set x \<and> CHR 0x5C \<notin> set x \<and> CHR 0x00 \<notin> set x))"

lemma split_slash_no_slash: "x \<in> set (split_slash y) \<Longrightarrow> CHR ''/'' \<notin> set x"
proof (induction y arbitrary: x)
  case (Cons c cs)
  obtain z zs where "split_slash cs = z # zs" by (cases "split_slash cs") auto
  with Cons show ?case by (auto split: if_splits)
qed simp

lemma split_slash_chars: "x \<in> set (split_slash y) \<Longrightarrow> set x \<subseteq> set y"
proof (induction y arbitrary: x)
  case (Cons c cs)
  obtain z zs where "split_slash cs = z # zs" by (cases "split_slash cs") auto
  with Cons show ?case by (fastforce split: if_splits)
qed simp

lemma split_path_canonical:
  assumes "split_path x = Inr p"
  shows "canonical p"
proof -
  let ?y = "map (\<lambda>c. if c = CHR 0x5C then CHR ''/'' else c) x"
  have "CHR 0x5C \<notin> set ?y" by auto
  then have no_back: "CHR 0x5C \<notin> set z" if "z \<in> set (split_slash ?y)" for z
    using split_slash_chars [OF that] by blast
  have p: "p = filter (\<lambda>p. p \<noteq> [] \<and> p \<noteq> ''.'') (split_slash ?y)" and rest: "p \<noteq> []" "''..'' \<notin> set p"
    "\<forall>z\<in>set p. CHR 0x00 \<notin> set z"
    using assms by (auto simp: split_path_def Let_def list_ex_iff split: if_splits)
  have "z \<in> set (split_slash ?y) \<and> z \<noteq> [] \<and> z \<noteq> ''.''" if "z \<in> set p" for z
    using that unfolding p by simp
  with rest no_back split_slash_no_slash [of _ ?y] show ?thesis unfolding canonical_def by blast
qed

lemma split_slash_plain: "CHR ''/'' \<notin> set x \<Longrightarrow> split_slash x = [x]"
  by (induction x) auto

lemma split_join_slash: "p \<noteq> [] \<Longrightarrow> \<forall>x\<in>set p. CHR ''/'' \<notin> set x \<Longrightarrow> split_slash (join_slash p) = p"
proof (induction p rule: join_slash.induct)
  case (3 x y xs)
  then show ?case using split_slash_append [of x "join_slash (y # xs)"] by (simp add: split_slash_plain)
qed (simp_all add: split_slash_plain)

lemma split_join_path:
  assumes "canonical p"
  shows "split_path (join_slash p) = Inr p"
proof -
  have "CHR 0x5C \<notin> set (join_slash q)" if "\<forall>x\<in>set q. CHR 0x5C \<notin> set x" for q
    using that by (induction q rule: join_slash.induct) auto
  then have "map (\<lambda>c. if c = CHR 0x5C then CHR ''/'' else c) (join_slash p) = join_slash p"
    using assms by (intro map_idI) (auto simp: canonical_def)
  then show ?thesis
    using assms split_join_slash [of p] by (auto simp: split_path_def Let_def canonical_def list_ex_iff filter_id_conv)
qed

lemma canonical_take: "canonical p \<Longrightarrow> 0 < n \<Longrightarrow> canonical (take n p)"
  by (auto simp: canonical_def dest: in_set_takeD)

lemma canonical_butlast: "canonical p \<Longrightarrow> butlast p \<noteq> [] \<Longrightarrow> canonical (butlast p)"
  by (auto simp: canonical_def dest: in_set_butlastD)

definition directories_ok :: "(string list \<Rightarrow> node option) \<Rightarrow> string list list \<Rightarrow> bool" where
  "directories_ok R ds = (surveyed R (rev ds) \<and> (\<forall>q\<in>set ds. canonical q))"

lemma directories_journal: "directories_ok R ds \<Longrightarrow> list_all2 (\<lambda>x p. split_path x = Inr p) (map join_slash ds) ds"
  by (auto simp: list_all2_conv_all_nth directories_ok_def split_join_path)

lemma missing_directories_ok:
  assumes "rooted R" and wanted: "\<forall>q\<in>set wanted. q = [] \<or> canonical q"
  shows "hoare (fresh R) (missing_directories w wanted)
     (\<lambda>ds d. fresh R d \<and> directories_ok R ds \<and> (\<forall>q\<in>set ds. \<exists>parts\<in>set wanted. prefix q parts)) (\<lambda>_. fresh R)"
proof -
  let ?ps = "concat (map (\<lambda>parts. map (\<lambda>n. take n parts) [1..<Suc (length parts)]) wanted)"
  obtain K where K: "set ?ps = K" by blast
  have ps: "\<forall>p\<in>K. canonical p \<and> (\<exists>parts\<in>set wanted. prefix p parts)"
    using wanted unfolding K [symmetric] by (auto intro!: canonical_take take_is_prefix bexI)
  have start: "survey_ok R \<lparr>sv_asked = [], sv_missing = []\<rparr>" by (simp add: survey_ok_def)
  have "\<forall>p\<in>set ?ps. p \<noteq> []" unfolding K using ps by (auto simp: canonical_def)
  from survey_all_ok [OF assms(1) start this]
  have survey: "hoare (fresh R) (survey_all w ?ps \<lparr>sv_asked = [], sv_missing = []\<rparr>)
     (\<lambda>sv d. fresh R d \<and> survey_ok R sv \<and> set (sv_missing sv) \<subseteq> K) (\<lambda>_. fresh R)"
    unfolding K by simp
  show ?thesis unfolding missing_directories_def
    by (rule hoare_seq [OF survey]) (use ps in \<open>auto simp: hoare_def result_def directories_ok_def survey_ok_def\<close>)
qed

section \<open>Slots\<close>

lemma decimal_value: "foldl (\<lambda>a c. a * 10 + (of_char c - 48)) 0 (decimal n) = n"
proof (induction n rule: decimal.induct)
  case (1 n)
  show ?case
  proof (cases "n < 10")
    case True
    then show ?thesis by (subst decimal.simps) simp
  next
    case False
    then show ?thesis using 1 by (subst decimal.simps) simp
  qed
qed

lemma zeros_value: "foldl (\<lambda>a c. a * 10 + (of_char c - 48)) 0 (replicate k (CHR ''0'') @ x)
     = foldl (\<lambda>a c. a * 10 + (of_char c - (48::nat))) 0 x"
  by (induction k) simp_all

lemma slot_name_inject [simp]: "slot_name c n = slot_name c' n' \<longleftrightarrow> c = c' \<and> n = n'"
  unfolding slot_name_def by (metis decimal_value list.inject zeros_value)

definition hold_name :: "move \<Rightarrow> string" where
  "hold_name m = (if mv_from_side m = HOLD_SIDE then mv_from_name m else mv_to_name m)"

text \<open>One end of every move is a slot of its own: staged if it is the source, free if it is the target.\<close>

definition crossing :: "move \<Rightarrow> (string \<Rightarrow> file_obj option) \<Rightarrow> bool" where
  "crossing m S = (mv_from_side m = HOLD_SIDE \<and> mv_to_side m = REPO_SIDE \<and> S (mv_from_name m) \<noteq> None
     \<or> mv_from_side m = REPO_SIDE \<and> mv_to_side m = HOLD_SIDE \<and> S (mv_to_name m) = None)"

definition slotted :: "move list \<Rightarrow> (string \<Rightarrow> file_obj option) \<Rightarrow> bool" where
  "slotted ms S = (distinct (map hold_name ms) \<and> (\<forall>m\<in>set ms. crossing m S))"

lemma place_of_cases:
  "place_of HOLD_SIDE n = Some a \<longleftrightarrow> is_slot n \<and> a = In_Hold n"
  "place_of REPO_SIDE n = Some a \<longleftrightarrow> (\<exists>p. split_path n = Inr p \<and> a = In_Repo p)"
  by (auto simp: place_of_def split: sum.splits)

lemma carried_slots:
  assumes "carried w m \<sigma> \<tau>" "crossing m S" "n \<noteq> hold_name m"
  shows "snd \<tau> n = snd \<sigma> n"
  using assms by (auto simp: carried_def movable_def crossing_def hold_name_def place_of_cases)

lemma chain_slots:
  "chain w ms \<sigma> \<tau> \<Longrightarrow> \<forall>m\<in>set ms. crossing m S \<Longrightarrow> n \<notin> hold_name ` set ms \<Longrightarrow> snd \<tau> n = snd \<sigma> n"
proof (induction ms arbitrary: \<sigma>)
  case (Cons m ms)
  from Cons.prems(1) obtain \<rho> where r: "carried w m \<sigma> \<rho>" "chain w ms \<rho> \<tau>" by auto
  have "snd \<rho> n = snd \<sigma> n" by (rule carried_slots [OF r(1)]) (use Cons.prems in auto)
  then show ?case using Cons.IH [OF r(2)] Cons.prems by auto
qed simp

lemma crossing_cong: "crossing m S \<Longrightarrow> S (hold_name m) = T (hold_name m) \<Longrightarrow> crossing m T"
  unfolding crossing_def hold_name_def by (metis side.distinct(1))

lemma crossing_unlanded: "crossing m (snd \<sigma>) \<Longrightarrow> unlanded m \<sigma>"
  by (auto simp: crossing_def unlanded_def place_of_cases)

lemma chain_crossing:
  assumes "slotted ms (snd \<sigma>)" "k < length ms" "chain w (take k ms) \<sigma> \<tau>"
  shows "crossing (ms ! k) (snd \<tau>)"
proof -
  have "hold_name (ms ! k) \<notin> hold_name ` set (take k ms)"
  proof
    assume "hold_name (ms ! k) \<in> hold_name ` set (take k ms)"
    then obtain i where i: "i < k" "hold_name (ms ! i) = hold_name (ms ! k)"
      using assms(2) by (auto simp: in_set_conv_nth)
    have "distinct (map hold_name ms)" using assms(1) by (simp add: slotted_def)
    from nth_eq_iff_index_eq [OF this, of i k] i assms(2) show False by simp
  qed
  moreover have cross: "\<forall>m\<in>set (take k ms). crossing m (snd \<sigma>)" "crossing (ms ! k) (snd \<sigma>)"
    using assms(1,2) by (auto simp: slotted_def dest: in_set_takeD)
  ultimately have "snd \<tau> (hold_name (ms ! k)) = snd \<sigma> (hold_name (ms ! k))" by (intro chain_slots [OF assms(3)])
  with cross(2) show ?thesis by (auto intro: crossing_cong)
qed

lemma hold_names_moves:
  "m \<in> set (moves_of w slot n xs) \<Longrightarrow> \<exists>c i. hold_name m = slot_name c i \<and> slot \<le> i \<and> i < slot + length xs"
  by (induction w slot n xs rule: moves_of.induct)
    (fastforce simp: put_in_def take_out_def hold_name_def split: if_splits)+

lemma moves_distinct: "distinct (map hold_name (moves_of w slot n xs))"
proof (induction w slot n xs rule: moves_of.induct)
  case (2 w slot n c current xs)
  have fresh: "slot_name d slot \<notin> hold_name ` set (moves_of w (Suc slot) k xs)" for d k
  proof
    assume "slot_name d slot \<in> hold_name ` set (moves_of w (Suc slot) k xs)"
    then obtain m where "m \<in> set (moves_of w (Suc slot) k xs)" "hold_name m = slot_name d slot" by auto
    with hold_names_moves [of m w "Suc slot" k xs] show False by auto
  qed
  show ?case using 2 fresh by (simp add: put_in_def take_out_def hold_name_def)
qed simp

lemma moves_index: "k < length (moves_of w slot n xs) \<Longrightarrow> mv_index (moves_of w slot n xs ! k) = n + k"
proof (induction w slot n xs arbitrary: k rule: moves_of.induct)
  case (2 w slot n c current xs)
  show ?case
  proof (cases k)
    case 0
    then show ?thesis by (simp add: put_in_def take_out_def)
  next
    case (Suc i)
    then show ?thesis using 2 by (cases i) (auto simp: put_in_def take_out_def split: if_splits)
  qed
qed simp

lemma staged_names: "x \<in> fst ` set (staged_of slot cs) \<Longrightarrow> \<exists>i. x = slot_name (CHR ''s'') i \<and> slot \<le> i"
  by (induction slot cs rule: staged_of.induct) (force split: if_splits)+

lemma moves_crossing:
  assumes "\<forall>x\<in>fst ` set (staged_of slot (map fst xs)). S x \<noteq> None" "\<forall>i. S (slot_name (CHR ''b'') i) = None"
  shows "\<forall>m\<in>set (moves_of w slot n xs). crossing m S"
  using assms
proof (induction w slot n xs rule: moves_of.induct)
  case (2 w slot n c current xs)
  then show ?case by (cases "kind c") (auto simp: crossing_def put_in_def take_out_def)
qed simp

lemma moves_slotted:
  assumes "dom S = fst ` set (staged_of slot (map fst xs))"
  shows "slotted (moves_of w slot n xs) S"
proof -
  have "S (slot_name (CHR ''b'') i) = None" for i
  proof (rule ccontr)
    assume "S (slot_name (CHR ''b'') i) \<noteq> None"
    then have "slot_name (CHR ''b'') i \<in> fst ` set (staged_of slot (map fst xs))" using assms by blast
    from staged_names [OF this] show False by simp
  qed
  moreover have "\<forall>x\<in>fst ` set (staged_of slot (map fst xs)). S x \<noteq> None" using assms by (metis domIff)
  ultimately show ?thesis using moves_crossing moves_distinct by (auto simp: slotted_def)
qed

end
