(* ===== verification/Agent_Delivery.thy ===== *)
theory Agent_Delivery
  imports Agent_Atomic
begin

text \<open>
  The phases of one application as triples: staging, the directories, the moves, and the whole of
  \<open>apply_work\<close>. At every exit between the first journal and the removal of the holder, both the
  journal in memory and the journal on disk say where the moves stood (\<open>journalled\<close>), which is what
  the rollback and a later recovery need.
\<close>

section \<open>What the journals say\<close>

text \<open>Before the first move: nothing is owed but the directories.\<close>

definition unmoved :: "move list \<Rightarrow> string list list \<Rightarrow> journal \<Rightarrow> bool" where
  "unmoved ms ds j = (open_journal j \<and> jl_moves j = ms \<and> jl_directories j = map join_slash ds \<and> jl_applied_index j = 0)"

lemma unmoved_logged: "unmoved ms ds j \<Longrightarrow> logged w ms ds \<sigma> \<sigma> j"
  by (simp add: unmoved_def logged_def stood_def)

lemma unmoved_journalled:
  "standing \<sigma> j (Holds k) d \<Longrightarrow> made R (set ds) \<sigma> \<Longrightarrow> unmoved ms ds j \<Longrightarrow> unmoved ms ds k \<Longrightarrow> journalled w R ms ds d"
  by (auto intro: journalledI unmoved_logged)

section \<open>Staging\<close>

definition staged_as :: "application_world \<Rightarrow> change \<Rightarrow> file_obj \<Rightarrow> bool" where
  "staged_as w c f = (pw_sha w (fo_data f) = sha256 c \<and> set_mode (mode c) new_mode = Inr (fo_mode f))"

definition staged_in :: "application_world \<Rightarrow> (string \<times> change) list \<Rightarrow> (string \<Rightarrow> file_obj option) \<Rightarrow> bool" where
  "staged_in w xs S = (dom S = fst ` set xs \<and> (\<forall>x\<in>set xs. \<exists>f. S (fst x) = Some f \<and> staged_as w (snd x) f))"

lemma hoare_checked: "hoare P (checked x) (\<lambda>a d. P d \<and> x = Inr a) (\<lambda>_. P)"
  by (cases x) (auto simp: hoare_def checked_def yield_def result_def halt_with_def)

lemma hoare_tree: "timeless P \<Longrightarrow> hoare P (tree_evidence w t p) (\<lambda>_. P) (\<lambda>_. P)"
  unfolding tree_evidence_def
  by (rule hoare_then [OF hoare_checked]; (rule hoare_handled)?)
    (auto simp: hoare_def checked_def yield_def result_def halt_with_def split: sum.splits)

lemma slots_put: "dk_slots d \<noteq> None \<Longrightarrow> slot_lookup (map_option (put n f) (dk_slots d)) = (slot_lookup (dk_slots d))(n \<mapsto> f)"
  by (auto simp: slot_lookup_def)

lemma hoare_put_slot:
  "hoare (standing (R, S) j x) (put_slot n f) (\<lambda>_. standing (R, S(n \<mapsto> f)) j x) E"
  by (auto simp: hoare_def put_slot_def modifies_def standing_def store_def slots_put)

lemma hoare_create_slot:
  "hoare (standing (R, S) j x) (create_slot w n)
     (\<lambda>_ d. S n = None \<and> standing (R, S(n \<mapsto> \<lparr>fo_mode = new_mode, fo_data = []\<rparr>)) j x d) (\<lambda>_. standing (R, S) j x)"
  unfolding create_slot_def
  by (rule hoare_syscall)
    (auto simp: hoare_def seq_def reads_def refuse_def halt_with_def put_slot_def modifies_def standing_def store_def slots_put)

lemma hoare_write_slot:
  "hoare (standing (R, S) j x) (write_slot w n m content)
     (\<lambda>_ d. \<exists>m'. set_mode m new_mode = Inr m' \<and> standing (R, S(n \<mapsto> \<lparr>fo_mode = m', fo_data = content\<rparr>)) j x d)
     (\<lambda>_ d. \<exists>f. standing (R, S(n \<mapsto> f)) j x d \<or> standing (R, S) j x d)"
  unfolding write_slot_def
proof (rule hoare_handled)
  show "hoare (standing (R, S) j x)
     (seq (put_slot n \<lparr>fo_mode = new_mode, fo_data = content\<rparr>) (\<lambda>_.
      seq (checked (set_mode m new_mode)) (\<lambda>m'. put_slot n \<lparr>fo_mode = m', fo_data = content\<rparr>)))
     (\<lambda>_ d. \<exists>m'. set_mode m new_mode = Inr m' \<and> standing (R, S(n \<mapsto> \<lparr>fo_mode = m', fo_data = content\<rparr>)) j x d)
     (\<lambda>_ d. \<exists>f. standing (R, S(n \<mapsto> f)) j x d \<or> standing (R, S) j x d)"
    by (rule hoare_seq [OF hoare_put_slot], cases "set_mode m new_mode")
      (auto simp: hoare_def refuse_def halt_with_def put_slot_def modifies_def standing_def store_def slots_put)
qed auto

lemma hoare_slot_evidence:
  "hoare (standing (R, S) j x) (slot_evidence w n) (\<lambda>ev d. standing (R, S) j x d \<and> ordinary (map_option File (S n)) = Inr ev)
     (\<lambda>_. standing (R, S) j x)"
  unfolding slot_evidence_def
  by (rule hoare_handled [OF hoare_reading]) (auto simp: standing_def store_def)

lemma hoare_stage_one:
  "hoare (standing (R, S) j x) (stage_one w (n, c))
     (\<lambda>_ d. \<exists>f. S n = None \<and> staged_as w c f \<and> standing (R, S(n \<mapsto> f)) j x d)
     (\<lambda>_ d. \<exists>S'. standing (R, S') j x d)"
proof -
  let ?Q = "\<lambda>_ d. \<exists>f. S n = None \<and> staged_as w c f \<and> standing (R, S(n \<mapsto> f)) j x d"
  let ?E = "\<lambda>_ d. \<exists>S'. standing (R, S') j x d"
  let ?read = "seq (slot_evidence w n) (\<lambda>written. case written of
               None \<Rightarrow> refuse (ApplicationRefused PREFLIGHT_FAILED)
             | Some g \<Rightarrow> if pw_sha w (fo_data g) \<noteq> sha256 c then refuse (ApplicationRefused PREFLIGHT_FAILED)
                 else result ())"
  have again: "hoare (\<lambda>d. \<exists>m'. set_mode (mode c) new_mode = Inr m'
        \<and> standing (R, S(n \<mapsto> \<lparr>fo_mode = m', fo_data = content\<rparr>)) j x d) ?read ?Q ?E"
    if free: "S n = None" for content
  proof (rule hoare_any)
    fix m'
    assume m': "set_mode (mode c) new_mode = Inr m'"
    let ?f = "\<lparr>fo_mode = m', fo_data = content\<rparr>"
    have kept: "?Q () d" if "standing (R, S(n \<mapsto> ?f)) j x d" "pw_sha w content = sha256 c" for d
      by (rule exI [of _ ?f]) (use that free m' in \<open>simp add: staged_as_def\<close>)
    have left: "?E e d" if "standing (R, S(n \<mapsto> ?f)) j x d" for e :: app_exit and d
      using that by blast
    show "hoare (standing (R, S(n \<mapsto> ?f)) j x) ?read ?Q ?E"
    proof (rule hoare_then [OF hoare_slot_evidence])
      fix ev
      show "hoare (\<lambda>d. standing (R, S(n \<mapsto> ?f)) j x d \<and> ordinary (map_option File ((S(n \<mapsto> ?f)) n)) = Inr ev)
          (case ev of None \<Rightarrow> refuse (ApplicationRefused PREFLIGHT_FAILED)
             | Some g \<Rightarrow> if pw_sha w (fo_data g) \<noteq> sha256 c then refuse (ApplicationRefused PREFLIGHT_FAILED)
                 else result ()) ?Q ?E"
      proof (cases "ev = Some ?f")
        case True
        show ?thesis
          by (rule hoareI)
            (use kept left in \<open>auto simp: True result_def refuse_def halt_with_def split: if_splits\<close>)
      qed (auto simp: hoare_def ordinary_def)
    qed (rule left)
  qed
  have created: "hoare (\<lambda>d. S n = None \<and> standing (R, S(n \<mapsto> \<lparr>fo_mode = new_mode, fo_data = []\<rparr>)) j x d)
      (seq (write_slot w n (mode c) content) (\<lambda>_. ?read)) ?Q ?E" for content
  proof (rule hoare_conj)
    assume free: "S n = None"
    show "hoare (standing (R, S(n \<mapsto> \<lparr>fo_mode = new_mode, fo_data = []\<rparr>)) j x)
      (seq (write_slot w n (mode c) content) (\<lambda>_. ?read)) ?Q ?E"
      by (rule hoare_then [OF hoare_write_slot]) (use again [OF free] in auto)
  qed
  show ?thesis unfolding stage_one_def prod.case
  proof (rule hoare_then [OF hoare_tree])
    fix ev
    show "hoare (standing (R, S) j x) (case ev of None \<Rightarrow> refuse ApplicationContainment
       | Some f \<Rightarrow> if pw_sha w (fo_data f) \<noteq> sha256 c then refuse ApplicationContainment
         else seq (create_slot w n) (\<lambda>_. seq (write_slot w n (mode c) (fo_data f)) (\<lambda>_. ?read))) ?Q ?E"
    proof (cases ev)
      case None
      then show ?thesis by (auto intro!: hoare_refuse)
    next
      case (Some f)
      have "hoare (standing (R, S) j x) (seq (create_slot w n) (\<lambda>_. seq (write_slot w n (mode c) (fo_data f)) (\<lambda>_. ?read))) ?Q ?E"
        by (rule hoare_then [OF hoare_create_slot _ created]) blast
      then show ?thesis by (auto simp: Some intro!: hoare_refuse)
    qed
  qed auto
qed

lemma staged_in_snoc:
  "staged_in w xs S \<Longrightarrow> S n = None \<Longrightarrow> staged_as w c f \<Longrightarrow> staged_in w (xs @ [(n, c)]) (S(n \<mapsto> f))"
  by (auto simp: staged_in_def)

lemma hoare_stage:
  "hoare (standing (R, Map.empty) j x) (each (stage_one w) xs)
     (\<lambda>_ d. \<exists>S. staged_in w xs S \<and> standing (R, S) j x d) (\<lambda>_ d. \<exists>S. standing (R, S) j x d)"
proof -
  let ?I = "\<lambda>n d. \<exists>S. staged_in w (take n xs) S \<and> standing (R, S) j x d"
  have "hoare (?I n) (stage_one w (xs ! n)) (\<lambda>_. ?I (Suc n)) (\<lambda>_ d. \<exists>S. standing (R, S) j x d)" if n: "n < length xs" for n
  proof (rule hoare_any)
    fix S
    assume S: "staged_in w (take n xs) S"
    obtain nm c where nc: "xs ! n = (nm, c)" by (cases "xs ! n")
    show "hoare (standing (R, S) j x) (stage_one w (xs ! n)) (\<lambda>_. ?I (Suc n)) (\<lambda>_ d. \<exists>S. standing (R, S) j x d)"
      unfolding nc
      by (rule hoare_weaken [OF hoare_stage_one])
        (use n nc staged_in_snoc [OF S] in \<open>auto simp: take_Suc_conv_app_nth\<close>)
  qed
  from hoare_each [of xs ?I, OF this] show ?thesis
    by (rule hoare_weaken) (auto simp: staged_in_def)
qed

section \<open>The directories\<close>

lemma surveyed_prefix:
  assumes "directories_ok R ds" "p \<in> set ds" "0 < n" "n \<le> length p"
  shows "take n p \<in> set ds \<or> R (take n p) = Some Dir"
  using assms(2,4)
proof (induction "length p" arbitrary: p rule: less_induct)
  case less
  show ?case
  proof (cases "n = length p")
    case False
    have split: "\<exists>ps. surveyed R (p # ps) \<and> set ps \<subseteq> set ds"
    proof -
      obtain xs ys where "rev ds = xs @ p # ys" using less.prems(1) by (metis split_list set_rev)
      moreover have "surveyed R (xs @ p # ys) \<Longrightarrow> surveyed R (p # ys)" for xs ys by (induction xs) auto
      ultimately show ?thesis using assms(1) unfolding directories_ok_def
        by (metis set_rev Un_upper2 set_append set_subset_Cons subset_trans)
    qed
    have take: "take n p = take n (butlast p)" using False less.prems(2) by (simp add: take_butlast)
    from split consider "butlast p \<in> set ds" | "walk_dirs R [] (butlast p) = Open" "p \<noteq> []" by auto
    then show ?thesis
    proof cases
      case 1
      have "length (butlast p) < length p" using less.prems(2) assms(3) by simp
      from less.hyps [OF this 1] show ?thesis unfolding take using False less.prems(2) by simp
    next
      case 2
      have "walk_dirs R [] (take n (butlast p)) = Open"
        using 2(1) walk_dirs_append [of R "[]" "take n (butlast p)" "drop n (butlast p)"] by simp
      moreover have "0 < length (butlast p)" using assms(3) False less.prems(2) by simp
      moreover have "take n (butlast p) \<noteq> []" using calculation(2) assms(3) by (metis length_greater_0_conv take_eq_Nil less_not_refl)
      ultimately show ?thesis unfolding take using walk_dirs_last [of R "take n (butlast p)"] by simp
    qed
  qed (use less.prems in simp)
qed

lemma hoare_make_directory:
  assumes ds: "\<forall>q\<in>set ds. R q = None" and C: "C \<subseteq> set ds" and p: "p \<in> set ds \<or> R p = Some Dir"
  shows "hoare (standing (with_dirs C R, S) j x) (make_directory w p)
     (\<lambda>_ d. \<exists>C'. C \<subseteq> C' \<and> C' \<subseteq> set ds \<and> (p \<in> set ds \<longrightarrow> p \<in> C') \<and> standing (with_dirs C' R, S) j x d)
     (\<lambda>_ d. \<exists>C'\<subseteq>set ds. standing (with_dirs C' R, S) j x d)"
proof -
  let ?Q = "\<lambda>_ d. \<exists>C'. C \<subseteq> C' \<and> C' \<subseteq> set ds \<and> (p \<in> set ds \<longrightarrow> p \<in> C') \<and> standing (with_dirs C' R, S) j x d"
  let ?E = "\<lambda>_ d. \<exists>C'\<subseteq>set ds. standing (with_dirs C' R, S) j x d"
  have look: "map_of (dk_repo d) p = with_dirs C R p" if "standing (with_dirs C R, S) j x d" for d
    using that by (auto simp: standing_def store_def)
  have new: "standing (with_dirs (insert p C) R, S) j x (d\<lparr>dk_repo := put p Dir (dk_repo d)\<rparr>)"
    if "standing (with_dirs C R, S) j x d" for d
    using that by (auto simp: standing_def store_def with_dirs_def fun_eq_iff)
  let ?body = "seq (reads (\<lambda>d. map_of (dk_repo d) p)) (\<lambda>y. case y of Some Dir \<Rightarrow> result ()
     | Some _ \<Rightarrow> refuse ApplicationContainment
     | None \<Rightarrow> seq (modifies (\<lambda>d. d\<lparr>dk_repo := put p Dir (dk_repo d)\<rparr>)) (\<lambda>_.
         syscall w ApplicationContainment (result ())))"
  have body: "hoare (standing (with_dirs C R, S) j x) ?body ?Q ?E"
  proof (cases "with_dirs C R p = Some Dir")
    case True
    have "?body d = (Inr (), d)" if "standing (with_dirs C R, S) j x d" for d
      using look [OF that] True by (simp add: seq_def reads_def result_def)
    moreover have "p \<in> set ds \<longrightarrow> p \<in> C" using True ds by (auto simp: with_dirs_def split: if_splits)
    ultimately show ?thesis using C by (auto simp: hoare_def intro: exI [of _ C])
  next
    case False
    then have missing: "with_dirs C R p = None" "p \<in> set ds" using ds p by (auto simp: with_dirs_def split: if_splits)
    have made: "hoare (standing (with_dirs (insert p C) R, S) j x) (syscall w ApplicationContainment (result ())) ?Q ?E"
      by (rule hoare_syscall) (use C missing(2) in \<open>auto simp: hoare_def result_def intro!: exI [of _ "insert p C"]\<close>)
    have "?body d = syscall w ApplicationContainment (result ()) (d\<lparr>dk_repo := put p Dir (dk_repo d)\<rparr>)"
      if "standing (with_dirs C R, S) j x d" for d
      using look [OF that] missing(1) by (simp add: seq_def reads_def modifies_def)
    then show ?thesis using made new unfolding hoare_def by simp
  qed
  show ?thesis unfolding make_directory_def
    by (rule hoare_syscall [OF body]) (use C in auto)
qed

lemma hoare_make_chain:
  assumes ok: "directories_ok R ds" and p: "p \<in> set ds" and C: "C \<subseteq> set ds"
  shows "hoare (standing (with_dirs C R, S) j x) (make_chain w p)
     (\<lambda>_ d. \<exists>C'. insert p C \<subseteq> C' \<and> C' \<subseteq> set ds \<and> standing (with_dirs C' R, S) j x d)
     (\<lambda>_ d. \<exists>C'\<subseteq>set ds. standing (with_dirs C' R, S) j x d)"
proof -
  let ?I = "\<lambda>n d. \<exists>C'. (if n = length p then insert p C else C) \<subseteq> C' \<and> C' \<subseteq> set ds \<and> standing (with_dirs C' R, S) j x d"
  let ?E = "\<lambda>_ d. \<exists>C'\<subseteq>set ds. standing (with_dirs C' R, S) j x d"
  let ?ns = "[1..<Suc (length p)]"
  have absent: "\<forall>q\<in>set ds. R q = None" and p0: "p \<noteq> []"
    using ok p surveyed_absent [of R "rev ds"] by (auto simp: directories_ok_def canonical_def)
  have "hoare (?I n) (make_directory w (take (?ns ! n) p)) (\<lambda>_. ?I (Suc n)) ?E" if n: "n < length ?ns" for n
  proof -
    have q: "take (Suc n) p \<in> set ds \<or> R (take (Suc n) p) = Some Dir"
      by (rule surveyed_prefix [OF ok p]) (use n in \<open>simp_all del: upt_Suc\<close>)
    have ns: "?ns ! n = Suc n" using n by (simp del: upt_Suc)
    have "hoare (standing (with_dirs C' R, S) j x) (make_directory w (take (Suc n) p)) (\<lambda>_. ?I (Suc n)) ?E"
      if C': "C \<subseteq> C'" "C' \<subseteq> set ds" for C'
    proof (rule hoare_weaken [OF hoare_make_directory [OF absent C'(2) q]])
      fix d
      assume "\<exists>D. C' \<subseteq> D \<and> D \<subseteq> set ds \<and> (take (Suc n) p \<in> set ds \<longrightarrow> take (Suc n) p \<in> D) \<and> standing (with_dirs D R, S) j x d"
      then obtain D where D: "C' \<subseteq> D" "D \<subseteq> set ds" "take (Suc n) p \<in> set ds \<longrightarrow> take (Suc n) p \<in> D"
        "standing (with_dirs D R, S) j x d" by blast
      have "(if Suc n = length p then insert p C else C) \<subseteq> D" using C' D(1,3) p by (cases "Suc n = length p") auto
      with D(2,4) show "?I (Suc n) d" by blast
    qed blast+
    then have "hoare (\<lambda>d. \<exists>C'. (C \<subseteq> C' \<and> C' \<subseteq> set ds) \<and> standing (with_dirs C' R, S) j x d)
        (make_directory w (take (Suc n) p)) (\<lambda>_. ?I (Suc n)) ?E" by (intro hoare_any) auto
    then show ?thesis unfolding ns by (rule hoare_pre) (auto split: if_splits)
  qed
  from hoare_each [of ?ns ?I, OF this] show ?thesis unfolding make_chain_def
  proof (rule hoare_weaken)
    fix d assume "standing (with_dirs C R, S) j x d"
    then show "?I 0 d" using p0 C by (intro exI [of _ C]) simp
  next
    fix d assume "?I (length ?ns) d"
    then show "\<exists>C'. insert p C \<subseteq> C' \<and> C' \<subseteq> set ds \<and> standing (with_dirs C' R, S) j x d"
      by (simp del: upt_Suc insert_subset)
  qed blast
qed

lemma hoare_directories:
  assumes ok: "directories_ok R ds"
  shows "hoare (standing (R, S) j x) (each (make_chain w) ds)
     (\<lambda>_. standing (with_dirs (set ds) R, S) j x) (\<lambda>_ d. \<exists>C'\<subseteq>set ds. standing (with_dirs C' R, S) j x d)"
proof -
  let ?I = "\<lambda>n d. \<exists>C'. set (take n ds) \<subseteq> C' \<and> C' \<subseteq> set ds \<and> standing (with_dirs C' R, S) j x d"
  have "hoare (?I n) (make_chain w (ds ! n)) (\<lambda>_. ?I (Suc n)) (\<lambda>_ d. \<exists>C'\<subseteq>set ds. standing (with_dirs C' R, S) j x d)"
    if n: "n < length ds" for n
  proof -
    have "hoare (standing (with_dirs C' R, S) j x) (make_chain w (ds ! n)) (\<lambda>_. ?I (Suc n))
        (\<lambda>_ d. \<exists>C'\<subseteq>set ds. standing (with_dirs C' R, S) j x d)" if C': "set (take n ds) \<subseteq> C'" "C' \<subseteq> set ds" for C'
      by (rule hoare_weaken [OF hoare_make_chain [OF ok nth_mem [OF n] C'(2)]])
        (use n C' in \<open>auto simp: take_Suc_conv_app_nth\<close>)
    then have "hoare (\<lambda>d. \<exists>C'. (set (take n ds) \<subseteq> C' \<and> C' \<subseteq> set ds) \<and> standing (with_dirs C' R, S) j x d)
        (make_chain w (ds ! n)) (\<lambda>_. ?I (Suc n)) (\<lambda>_ d. \<exists>C'\<subseteq>set ds. standing (with_dirs C' R, S) j x d)"
      by (intro hoare_any) auto
    then show ?thesis by (rule hoare_pre) auto
  qed
  from hoare_each [of ds ?I, OF this] have all: "hoare (?I 0) (each (make_chain w) ds) (\<lambda>_. ?I (length ds))
      (\<lambda>_ d. \<exists>C'\<subseteq>set ds. standing (with_dirs C' R, S) j x d)" .
  have none: "with_dirs {} R = R" by (simp add: with_dirs_def)
  show ?thesis
  proof (rule hoare_weaken [OF all])
    fix d assume "standing (R, S) j x d"
    then show "?I 0 d" using none by (intro exI [of _ "{}"]) simp
  next
    fix d assume "?I (length ds) d"
    then have "\<exists>C'. C' = set ds \<and> standing (with_dirs C' R, S) j x d" by force
    then show "standing (with_dirs (set ds) R, S) j x d" by blast
  qed blast
qed

section \<open>The moves\<close>

definition reached :: "application_world \<Rightarrow> (string list \<Rightarrow> node option) \<Rightarrow> move list \<Rightarrow> (string \<times> change) list
    \<Rightarrow> string list list \<Rightarrow> nat \<Rightarrow> disk \<Rightarrow> bool" where
  "reached w R ms xs ds n d = (\<exists>S \<tau> j. staged_in w xs S \<and> chain w (take n ms) (with_dirs (set ds) R, S) \<tau>
     \<and> open_journal j \<and> jl_state j = APPLYING \<and> jl_moves j = ms \<and> jl_directories j = map join_slash ds
     \<and> jl_applied_index j = n \<and> standing \<tau> j (Holds j) d)"

lemma made_with_dirs: "C \<subseteq> set ds \<Longrightarrow> made R (set ds) (with_dirs C R, S)"
  by (auto simp: made_def)

lemma made_none: "made R ds (R, S)"
  unfolding made_def by (rule exI [of _ "{}"]) (simp add: with_dirs_def)

lemma reached_journalled:
  assumes "n \<le> length ms" "reached w R ms xs ds n d"
  shows "journalled w R ms ds d"
proof -
  from assms(2) obtain S \<tau> j where r: "chain w (take n ms) (with_dirs (set ds) R, S) \<tau>" "open_journal j"
    "jl_moves j = ms" "jl_directories j = map join_slash ds" "jl_applied_index j = n" "standing \<tau> j (Holds j) d"
    unfolding reached_def by blast
  have "logged w ms ds (with_dirs (set ds) R, S) \<tau> j"
    using stood_chain [OF assms(1) r(1)] r by (simp add: logged_def)
  with r(6) show ?thesis by (intro journalledI [OF _ made_with_dirs]) auto
qed

text \<open>The intent is on disk before the act: at every exit of a move the journals cover it.\<close>

lemma hoare_move_step:
  assumes n: "n < length ms" "mv_index (ms ! n) = n" and slots: "\<And>S. staged_in w xs S \<Longrightarrow> slotted ms S"
  shows "hoare (reached w R ms xs ds n) (move_step w (ms ! n)) (\<lambda>_. reached w R ms xs ds (Suc n)) (\<lambda>_. journalled w R ms ds)"
proof -
  let ?m = "ms ! n"
  have step: "hoare (standing \<tau> j (Holds j)) (move_step w ?m) (\<lambda>_. reached w R ms xs ds (Suc n)) (\<lambda>_. journalled w R ms ds)"
    if S: "staged_in w xs S" and c: "chain w (take n ms) (with_dirs (set ds) R, S) \<tau>" and j: "open_journal j" "jl_state j = APPLYING"
      "jl_moves j = ms" "jl_directories j = map join_slash ds" "jl_applied_index j = n" for S \<tau> j
  proof -
    let ?\<sigma> = "(with_dirs (set ds) R, S)"
    let ?k = "j\<lparr>jl_applied_index := Suc n\<rparr>"
    have k: "open_journal ?k" "jl_state ?k = APPLYING" "jl_moves ?k = ms" "jl_directories ?k = map join_slash ds"
      "jl_applied_index ?k = Suc n" using j by (simp_all add: open_journal_def)
    have "unlanded ?m \<tau>" using chain_crossing [OF _ n(1) c] slots [OF S] by (simp add: crossing_unlanded)
    then have stood: "stood w ms (Suc n) ?\<sigma> \<rho>" if "\<rho> = \<tau> \<or> carried w ?m \<tau> \<rho> \<or> doubled w ?m \<tau> \<rho>" for \<rho>
      using that n(1) c by (auto simp: stood_def interrupted_def)
    have new: "logged w ms ds ?\<sigma> \<rho> ?k" if "\<rho> = \<tau> \<or> carried w ?m \<tau> \<rho> \<or> doubled w ?m \<tau> \<rho>" for \<rho>
      using stood [OF that] k by (simp add: logged_def)
    have old: "logged w ms ds ?\<sigma> \<tau> j"
      using stood_chain [OF _ c] n(1) j by (simp add: logged_def)
    have made: "made R (set ds) ?\<sigma>" by (rule made_with_dirs) simp
    have act: "hoare (standing \<tau> ?k (Holds ?k)) (execute_move w ?m) (\<lambda>_. reached w R ms xs ds (Suc n)) (\<lambda>_. journalled w R ms ds)"
    proof (rule hoare_weaken [OF hoare_execute])
      fix d assume "\<exists>\<rho>. carried w ?m \<tau> \<rho> \<and> standing \<rho> ?k (Holds ?k) d"
      then obtain \<rho> where r: "carried w ?m \<tau> \<rho>" "standing \<rho> ?k (Holds ?k) d" by blast
      have "chain w (take (Suc n) ms) ?\<sigma> \<rho>" using c r(1) n(1) by (auto simp: take_Suc_conv_app_nth chain_snoc)
      with S k r(2) show "reached w R ms xs ds (Suc n) d" unfolding reached_def by blast
    next
      fix d assume "standing \<tau> ?k (Holds ?k) d \<or> (\<exists>\<rho>. doubled w ?m \<tau> \<rho> \<and> standing \<rho> ?k (Holds ?k) d)"
      then show "journalled w R ms ds d" using new made by (blast intro: journalledI)
    qed
    have writing: "hoare (standing \<tau> ?k (Holds j)) (seq (write_journal w ?k) (\<lambda>_. execute_move w ?m))
       (\<lambda>_. reached w R ms xs ds (Suc n)) (\<lambda>_. journalled w R ms ds)"
      by (rule hoare_then [OF hoare_write _ act])
        (use j(1) journalledI [OF _ made new old] journalledI [OF _ made new [OF disjI1 [OF refl]] new [OF disjI1 [OF refl]]] in \<open>auto simp: open_journal_def unwritten_def\<close>)
    show ?thesis unfolding move_step_def n(2)
      by (rule hoare_learn [OF hoare_the_payload], rule hoare_seq [OF hoare_keep_payload], rule writing)
  qed
  show ?thesis
  proof (rule hoareI)
    fix d a d' assume "reached w R ms xs ds n d" "move_step w ?m d = (Inr a, d')"
    then show "reached w R ms xs ds (Suc n) d'" unfolding reached_def [of _ _ _ _ _ n] using hoare_InrD [OF step] by blast
  next
    fix d a d' assume "reached w R ms xs ds n d" "move_step w ?m d = (Inl a, d')"
    then show "journalled w R ms ds d'" unfolding reached_def [of _ _ _ _ _ n] using hoare_InlD [OF step] by blast
  qed
qed

lemma hoare_moves:
  assumes "\<And>n. n < length ms \<Longrightarrow> mv_index (ms ! n) = n" "\<And>S. staged_in w xs S \<Longrightarrow> slotted ms S"
  shows "hoare (reached w R ms xs ds 0) (each (move_step w) ms) (\<lambda>_. reached w R ms xs ds (length ms)) (\<lambda>_. journalled w R ms ds)"
  by (rule hoare_each) (rule hoare_move_step [OF _ assms])

text \<open>What \<open>begin_application\<close> leaves: the checkout untouched, the first journal twice.\<close>

definition begun :: "(string list \<Rightarrow> node option) \<Rightarrow> move list \<Rightarrow> string list list \<Rightarrow> disk \<Rightarrow> bool" where
  "begun R ms ds d = (\<exists>j. unmoved ms ds j \<and> jl_state j = REGISTERED \<and> standing (R, Map.empty) j (Holds j) d)"

lemma hoare_move_all:
  assumes ok: "directories_ok R ds" and index: "\<And>n. n < length (pl_moves p) \<Longrightarrow> mv_index (pl_moves p ! n) = n"
    and slots: "\<And>S. staged_in w (pl_staged p) S \<Longrightarrow> slotted (pl_moves p) S"
  shows "hoare (begun R (pl_moves p) ds) (move_all w p ds)
     (\<lambda>_. reached w R (pl_moves p) (pl_staged p) ds (length (pl_moves p))) (\<lambda>_. journalled w R (pl_moves p) ds)"
proof -
  let ?E = "\<lambda>_. journalled w R (pl_moves p) ds"
  let ?Q = "\<lambda>_. reached w R (pl_moves p) (pl_staged p) ds (length (pl_moves p))"
  have "hoare (standing (R, Map.empty) j (Holds j)) (move_all w p ds) ?Q ?E"
    if j: "unmoved (pl_moves p) ds j" "jl_state j = REGISTERED" for j
  proof -
    let ?p = "j\<lparr>jl_state := PREPARED\<rparr>" and ?a = "j\<lparr>jl_state := PREPARED, jl_state := APPLYING\<rparr>"
    have un: "unmoved (pl_moves p) ds ?p" "unmoved (pl_moves p) ds ?a" using j by (auto simp: unmoved_def open_journal_def)
    have schema: "JOURNAL_SCHEMA j" using j(1) by (simp add: unmoved_def open_journal_def)
    have moves: "hoare (standing (with_dirs (set ds) R, S) ?a (Holds ?a)) (each (move_step w) (pl_moves p)) ?Q ?E"
      if S: "staged_in w (pl_staged p) S" for S
    proof (rule hoare_pre [OF hoare_moves [OF index slots]])
      fix d assume "standing (with_dirs (set ds) R, S) ?a (Holds ?a) d"
      with S un(2) show "reached w R (pl_moves p) (pl_staged p) ds 0 d"
        unfolding reached_def unmoved_def by (intro exI [of _ S] exI [of _ "(with_dirs (set ds) R, S)"] exI [of _ ?a]) simp
    qed
    have to_applying: "hoare (standing (with_dirs (set ds) R, S) ?p (Holds ?p))
        (seq (advance_journal w APPLYING) (\<lambda>_. each (move_step w) (pl_moves p))) ?Q ?E"
      if S: "staged_in w (pl_staged p) S" for S
      by (rule hoare_then [OF hoare_advance _ moves [OF S]])
        (use schema unmoved_journalled [OF _ made_with_dirs un(1,1)] unmoved_journalled [OF _ made_with_dirs un(1,2)]
          in \<open>auto simp: ALLOWED_JOURNAL_TRANSITIONS_def unwritten_def\<close>)
    have dirs: "hoare (standing (R, S) ?p (Holds ?p))
        (seq (each (make_chain w) ds) (\<lambda>_. seq (advance_journal w APPLYING) (\<lambda>_. each (move_step w) (pl_moves p)))) ?Q ?E"
      if S: "staged_in w (pl_staged p) S" for S
      by (rule hoare_then [OF hoare_directories [OF ok] _ to_applying [OF S]])
        (use unmoved_journalled [OF _ made_with_dirs un(1,1)] in blast)
    have to_prepared: "hoare (\<lambda>d. \<exists>S. staged_in w (pl_staged p) S \<and> standing (R, S) j (Holds j) d)
        (seq (advance_journal w PREPARED) (\<lambda>_. seq (each (make_chain w) ds) (\<lambda>_. seq (advance_journal w APPLYING) (\<lambda>_.
           each (move_step w) (pl_moves p))))) ?Q ?E"
      by (rule hoare_any, rule hoare_then [OF hoare_advance [OF schema] _ dirs])
        (use j(2) unmoved_journalled [OF _ made_none j(1,1)] unmoved_journalled [OF _ made_none j(1) un(1)]
          in \<open>auto simp: ALLOWED_JOURNAL_TRANSITIONS_def unwritten_def\<close>)
    show ?thesis unfolding move_all_def
      by (rule hoare_then [OF hoare_stage _ to_prepared]) (use unmoved_journalled [OF _ made_none j(1,1)] in blast)
  qed
  then have "hoare (\<lambda>d. \<exists>j. (unmoved (pl_moves p) ds j \<and> jl_state j = REGISTERED) \<and> standing (R, Map.empty) j (Holds j) d)
      (move_all w p ds) ?Q ?E" by (intro hoare_any) auto
  then show ?thesis by (rule hoare_pre) (auto simp: begun_def)
qed

section \<open>The beginning\<close>

text \<open>A crash here leaves something to recover: a holder with its slots and an open journal.\<close>

definition in_flight :: "disk \<Rightarrow> bool" where
  "in_flight d = (dk_holder d \<and> dk_slots d \<noteq> None \<and> (on_disk REGISTERED d \<or> on_disk PREPARED d \<or> on_disk APPLYING d))"

definition idle :: "(string list \<Rightarrow> node option) \<Rightarrow> disk \<Rightarrow> bool" where
  "idle R d = (restored R d \<and> \<not> in_flight d)"

definition early :: "(string list \<Rightarrow> node option) \<Rightarrow> disk \<Rightarrow> bool" where
  "early R d = (idle R d \<or> (\<exists>ms ds. directories_ok R ds \<and> begun R ms ds d))"

lemma idle_early: "idle R d \<Longrightarrow> early R d"
  by (simp add: early_def)

lemma early_restored: "early R d \<Longrightarrow> restored R d"
  by (auto simp: early_def idle_def begun_def restored_def standing_def store_def)

lemma fresh_idle: "fresh R d \<Longrightarrow> idle R d"
  by (simp add: fresh_def idle_def restored_def in_flight_def)

lemma timeless_begun [simp]: "timeless (begun R ms ds)"
  unfolding begun_def [abs_def] by simp

text \<open>Holder made, journal in memory, no slots, checkout untouched.\<close>

definition opened_with :: "(string list \<Rightarrow> node option) \<Rightarrow> journal \<Rightarrow> disk \<Rightarrow> bool" where
  "opened_with R j d = (restored R d \<and> dk_holder d \<and> dk_payload d = Some j \<and> dk_slots d = None)"

lemma opened_idle: "opened_with R j d \<Longrightarrow> idle R d"
  by (simp add: opened_with_def idle_def in_flight_def)

lemma hoare_first_write:
  "hoare (opened_with R j) (write_journal w k) (\<lambda>_ d. JOURNAL_SCHEMA k \<and> opened_with R j d \<and> dk_journal d = Holds k)
     (\<lambda>_. idle R)"
proof (unfold hoare_def, intro allI impI)
  fix d assume "opened_with R j d"
  then show "case write_journal w k d of (Inl e, d') \<Rightarrow> idle R d'
      | (Inr a, d') \<Rightarrow> JOURNAL_SCHEMA k \<and> opened_with R j d' \<and> dk_journal d' = Holds k"
    by (cases "JOURNAL_SCHEMA k"; cases "pw_write w (dk_tick d)")
      (simp_all add: write_journal_def seq_def fate_of_def refuse_def halt_with_def modifies_def opened_with_def
        restored_def idle_def in_flight_def)
qed

lemma hoare_first_read:
  "hoare (\<lambda>d. opened_with R j d \<and> dk_journal d = x) (read_journal w)
     (\<lambda>_ d. opened_with R j d \<and> dk_journal d = x) (\<lambda>_. idle R)"
  unfolding read_journal_def
  by (rule hoare_handled)
    (auto simp: hoare_def seq_def reads_def refuse_def halt_with_def result_def opened_with_def restored_def
      timeless_def idle_def in_flight_def split: stored.splits)

lemma hoare_register:
  assumes j: "JOURNAL_SCHEMA j \<Longrightarrow> unmoved ms ds j" "jl_state j = REGISTERED" and ds: "directories_ok R ds"
  shows "hoare (opened_with R j) (register w j) (\<lambda>_. begun R ms ds) (\<lambda>_. early R)"
  unfolding register_def
proof (rule hoare_then [OF hoare_first_write])
  let ?P = "\<lambda>d. opened_with R j d \<and> dk_journal d = Holds j"
  have kept: "early R d" if "begun R ms ds d" for d using ds that by (auto simp: early_def)
  have slots: "hoare ?P (syscall w Unforeseen (modifies (\<lambda>d. d\<lparr>dk_slots := Some []\<rparr>))) (\<lambda>_. begun R ms ds) (\<lambda>_. early R)"
    if "unmoved ms ds j"
    by (rule hoare_syscall)
      (use that j(2) in \<open>auto simp: hoare_def modifies_def opened_with_def restored_def begun_def standing_def store_def slot_lookup_def
        timeless_def idle_def in_flight_def intro!: idle_early\<close>)
  have keep: "hoare (begun R ms ds) (syscall w ApplicationContainment (result ())) (\<lambda>_. begun R ms ds) (\<lambda>_. early R)"
    by (rule hoare_syscall) (auto simp: hoare_def result_def kept)
  show "hoare (\<lambda>d. JOURNAL_SCHEMA j \<and> ?P d) (seq (read_journal w) (\<lambda>j'. if j' \<noteq> j then refuse (ApplicationRefused PREFLIGHT_FAILED)
     else seq (syscall w Unforeseen (modifies (\<lambda>d. d\<lparr>dk_slots := Some []\<rparr>))) (\<lambda>_.
       syscall w ApplicationContainment (result ())))) (\<lambda>_. begun R ms ds) (\<lambda>_. early R)"
  proof (rule hoare_conj)
    assume "JOURNAL_SCHEMA j"
    then have un: "unmoved ms ds j" by (rule j(1))
    have "hoare ?P (if j' \<noteq> j then refuse (ApplicationRefused PREFLIGHT_FAILED)
       else seq (syscall w Unforeseen (modifies (\<lambda>d. d\<lparr>dk_slots := Some []\<rparr>))) (\<lambda>_.
         syscall w ApplicationContainment (result ()))) (\<lambda>_. begun R ms ds) (\<lambda>_. early R)" for j'
      using hoare_seq [OF slots [OF un] keep] by (auto intro!: hoare_refuse idle_early opened_idle)
    then show "hoare ?P (seq (read_journal w) (\<lambda>j'. if j' \<noteq> j then refuse (ApplicationRefused PREFLIGHT_FAILED)
     else seq (syscall w Unforeseen (modifies (\<lambda>d. d\<lparr>dk_slots := Some []\<rparr>))) (\<lambda>_.
       syscall w ApplicationContainment (result ())))) (\<lambda>_. begun R ms ds) (\<lambda>_. early R)"
      by (intro hoare_then [OF hoare_first_read]) (auto intro: idle_early)
  qed
qed (rule idle_early)

text \<open>Removing the holder: the checkout stays, and nothing becomes in flight by it.\<close>

lemma hoare_remove_holder:
  assumes "timeless P" "\<And>d. P d \<Longrightarrow> P (d\<lparr>dk_holder := False, dk_journal := Missing, dk_slots := None\<rparr>)"
  shows "hoare P (remove_holder w) (\<lambda>_. P) (\<lambda>e d. P d \<and> (e = Died \<or> e = Raised Unforeseen))"
proof (unfold hoare_def, intro allI impI)
  fix d assume P: "P d"
  then have "P (d\<lparr>dk_tick := Suc (dk_tick d)\<rparr>)" using assms(1) by (simp add: timeless_def)
  with assms(2) [OF this] show "case remove_holder w d of (Inl e, d') \<Rightarrow> P d' \<and> (e = Died \<or> e = Raised Unforeseen) | (Inr a, d') \<Rightarrow> P d'"
    by (cases "pw_fate w (dk_tick d)")
      (simp_all add: remove_holder_def seq_def fate_of_def refuse_def halt_with_def modifies_def result_def)
qed

lemma hoare_leave:
  assumes "timeless P" "\<And>d. P d \<Longrightarrow> P (d\<lparr>dk_holder := False, dk_journal := Missing, dk_slots := None\<rparr>)"
  shows "hoare P (leave w e) Q (\<lambda>_. P)"
  unfolding leave_def by (rule hoare_then [OF hoare_remove_holder [OF assms]]) (auto intro: hoare_refuse)

lemma timeless_idle [simp]: "timeless (idle R)"
  by (simp add: timeless_def idle_def restored_def in_flight_def on_disk_def)

lemma timeless_early [simp]: "timeless (early R)"
  unfolding early_def [abs_def] by (simp add: timeless_def) (use timeless_idle timeless_begun in \<open>simp add: timeless_def\<close>)

lemma idle_removed: "restored R d \<Longrightarrow> idle R (d\<lparr>dk_holder := False, dk_journal := Missing, dk_slots := None\<rparr>)"
  by (simp add: idle_def in_flight_def restored_def)

text \<open>What the plan and the survey handed on.\<close>

definition prepared :: "application_world \<Rightarrow> (string list \<Rightarrow> node option) \<Rightarrow> change list \<Rightarrow> plan \<Rightarrow> string list list \<Rightarrow> bool" where
  "prepared w R cs p ds = (plan_result w R 0 cs \<lparr>pl_moves = [], pl_staged = [], pl_wanted = []\<rparr> p \<and> directories_ok R ds
     \<and> (\<forall>q\<in>set ds. \<exists>parts\<in>set (pl_wanted p). prefix q parts))"

lemma hoare_holder_made:
  assumes ok: "prepared w R (cd_changes c) p ds"
  shows "hoare (fresh R) (seq (make_holder w) (\<lambda>_. seq (keep_payload (first_journal w a c (pl_moves p) ds)) (\<lambda>_.
       seq (on_error (register w (first_journal w a c (pl_moves p) ds)) (leave w)) (\<lambda>_.
       seq (open_slots w) (\<lambda>_. result (p, ds))))))
     (\<lambda>r d. prepared w R (cd_changes c) (fst r) (snd r) \<and> begun R (pl_moves (fst r)) (snd r) d) (\<lambda>_. early R)"
proof -
  let ?j = "first_journal w a c (pl_moves p) ds"
  have ds: "directories_ok R ds" using ok by (simp add: prepared_def)
  have j: "JOURNAL_SCHEMA ?j \<Longrightarrow> unmoved (pl_moves p) ds ?j" "jl_state ?j = REGISTERED"
    by (simp_all add: unmoved_def open_journal_def first_journal_def)
  have holder: "hoare (fresh R) (make_holder w) (\<lambda>_ d. restored R d \<and> dk_holder d \<and> dk_slots d = None) (\<lambda>_. early R)"
    unfolding make_holder_def
    by (rule hoare_syscall)
      (auto simp: hoare_def seq_def reads_def refuse_def halt_with_def modifies_def restored_def fresh_def
        intro!: idle_early fresh_idle)
  have keep: "hoare (\<lambda>d. restored R d \<and> dk_holder d \<and> dk_slots d = None) (keep_payload ?j) (\<lambda>_. opened_with R ?j) (\<lambda>_. early R)"
    by (auto simp: hoare_def keep_payload_def modifies_def opened_with_def restored_def)
  have reg: "hoare (opened_with R ?j) (on_error (register w ?j) (leave w)) (\<lambda>_. begun R (pl_moves p) ds) (\<lambda>_. early R)"
    by (rule hoare_on_error [OF hoare_register [OF j ds] hoare_leave])
      (auto intro: idle_early idle_removed early_restored)
  have slots: "hoare (begun R (pl_moves p) ds) (open_slots w) (\<lambda>_. begun R (pl_moves p) ds) (\<lambda>_. early R)"
    unfolding open_slots_def
    by (rule hoare_syscall) (use ds in \<open>auto simp: hoare_def result_def early_def\<close>)
  show ?thesis
    by (rule hoare_seq [OF holder], rule hoare_seq [OF keep], rule hoare_seq [OF reg], rule hoare_seq [OF slots])
      (use ok in \<open>auto simp: hoare_def result_def\<close>)
qed

lemma hoare_begin:
  assumes R: "rooted R"
  shows "hoare (fresh R) (begin_application w a c)
     (\<lambda>r d. prepared w R (cd_changes c) (fst r) (snd r) \<and> begun R (pl_moves (fst r)) (snd r) d) (\<lambda>_. early R)"
  unfolding begin_application_def plan_moves_def
proof (rule hoare_then [OF plan_from_result])
  fix p
  let ?plan = "plan_result w R 0 (cd_changes c) \<lparr>pl_moves = [], pl_staged = [], pl_wanted = []\<rparr> p"
  let ?Q = "\<lambda>r d. prepared w R (cd_changes c) (fst r) (snd r) \<and> begun R (pl_moves (fst r)) (snd r) d"
  let ?rest = "\<lambda>ds. seq (make_holder w) (\<lambda>_. seq (keep_payload (first_journal w a c (pl_moves p) ds)) (\<lambda>_.
     seq (on_error (register w (first_journal w a c (pl_moves p) ds)) (leave w)) (\<lambda>_.
     seq (open_slots w) (\<lambda>_. result (p, ds)))))"
  show "hoare (\<lambda>d. fresh R d \<and> ?plan) (seq (missing_directories w (pl_wanted p)) ?rest) ?Q (\<lambda>_. early R)"
  proof (cases ?plan)
    case False
    then show ?thesis by (simp add: hoare_def)
  next
    case True
    then have wanted: "\<forall>q\<in>set (pl_wanted p). q = [] \<or> canonical q"
      using split_path_canonical canonical_butlast unfolding plan_result_def by fastforce
    have rest: "hoare (\<lambda>d. fresh R d \<and> directories_ok R ds \<and> (\<forall>q\<in>set ds. \<exists>parts\<in>set (pl_wanted p). prefix q parts)) (?rest ds) ?Q (\<lambda>_. early R)" for ds
    proof (cases "prepared w R (cd_changes c) p ds")
      case ok: True
      show ?thesis by (rule hoare_pre [OF hoare_holder_made [OF ok]]) simp
    next
      case False
      then show ?thesis using True by (auto simp: hoare_def prepared_def)
    qed
    show ?thesis
      by (rule hoare_pre [OF hoare_then [OF missing_directories_ok [OF R wanted] _ rest]]) (auto intro: idle_early fresh_idle)
  qed
qed (auto intro: idle_early fresh_idle)

section \<open>What a candidate does to a checkout\<close>

text \<open>
  Every changed path holds the candidate's content and mode, or nothing where it is deleted; new
  directories are parents of changed paths; everything else is as it was.
\<close>

definition changed_paths :: "change list \<Rightarrow> string list set" where
  "changed_paths cs = {q. \<exists>c\<in>set cs. split_path (path c) = Inr q}"

definition lands :: "application_world \<Rightarrow> change list \<Rightarrow> (string list \<Rightarrow> node option) \<Rightarrow> (string list \<Rightarrow> node option) \<Rightarrow> bool" where
  "lands w cs R R' = ((\<forall>c\<in>set cs. \<exists>parts. split_path (path c) = Inr parts
       \<and> (if kind c = DELETED then R' parts = None else \<exists>f. R' parts = Some (File f) \<and> staged_as w c f))
     \<and> (\<forall>q. q \<notin> changed_paths cs \<longrightarrow> R' q = R q
          \<or> R q = None \<and> R' q = Some Dir \<and> (\<exists>p\<in>changed_paths cs. strict_prefix q p)))"

lemma carried_put_in:
  assumes "carried w (put_in slot n c) (P, S) \<tau>"
  obtains parts f where "split_path (path c) = Inr parts" "S (slot_name (CHR ''s'') slot) = Some f"
    "\<tau> = (P(parts \<mapsto> File f), S(slot_name (CHR ''s'') slot := None))"
  using assms by (auto simp: carried_def movable_def put_in_def place_of_cases)

lemma carried_take_out:
  assumes "carried w (take_out w slot n c g) (P, S) \<tau>"
  obtains parts f where "split_path (path c) = Inr parts"
    "\<tau> = (P(parts := None), S(slot_name (CHR ''b'') slot \<mapsto> f))"
  using assms by (auto simp: carried_def movable_def take_out_def place_of_cases)

lemma chain_append: "chain w (ms @ ns) \<sigma> \<tau> \<longleftrightarrow> (\<exists>\<rho>. chain w ms \<sigma> \<rho> \<and> chain w ns \<rho> \<tau>)"
  by (induction ms arbitrary: \<sigma>) auto

text \<open>One change, then the rest.\<close>

lemma change_lands:
  assumes "chain w (moves_of w slot n ((c, current) # xs)) (P, S) \<tau>"
    and "kind c \<noteq> DELETED \<Longrightarrow> \<exists>f. S (slot_name (CHR ''s'') slot) = Some f \<and> staged_as w c f"
  obtains parts P' S' k where "split_path (path c) = Inr parts" "chain w (moves_of w (Suc slot) k xs) (P', S') \<tau>"
    "if kind c = DELETED then P' = P(parts := None) else \<exists>f. staged_as w c f \<and> P' = P(parts \<mapsto> File f)"
    "\<And>i. Suc slot \<le> i \<Longrightarrow> S' (slot_name (CHR ''s'') i) = S (slot_name (CHR ''s'') i)"
proof (cases "kind c")
  case ADDED
  with assms obtain \<rho> f where r: "carried w (put_in slot n c) (P, S) \<rho>" "chain w (moves_of w (Suc slot) (Suc n) xs) \<rho> \<tau>"
    "S (slot_name (CHR ''s'') slot) = Some f" "staged_as w c f" by auto
  obtain parts where p: "split_path (path c) = Inr parts" "\<rho> = (P(parts \<mapsto> File f), S(slot_name (CHR ''s'') slot := None))"
    using carried_put_in [OF r(1)] r(3) by auto
  show ?thesis by (rule that [OF p(1) r(2) [unfolded p(2)]]) (use r(4) ADDED in auto)
next
  case MODIFIED
  with assms obtain \<rho> \<rho>' f where r: "carried w (take_out w slot n c (the current)) (P, S) \<rho>"
    "carried w (put_in slot (Suc n) c) \<rho> \<rho>'" "chain w (moves_of w (Suc slot) (Suc (Suc n)) xs) \<rho>' \<tau>"
    "S (slot_name (CHR ''s'') slot) = Some f" "staged_as w c f" by auto
  obtain parts g where p: "split_path (path c) = Inr parts" "\<rho> = (P(parts := None), S(slot_name (CHR ''b'') slot \<mapsto> g))"
    using carried_take_out [OF r(1)] by auto
  have q: "\<rho>' = (P(parts \<mapsto> File f), S(slot_name (CHR ''b'') slot \<mapsto> g, slot_name (CHR ''s'') slot := None))"
    using carried_put_in [OF r(2) [unfolded p(2)]] p(1) r(4) by auto
  show ?thesis by (rule that [OF p(1) r(3) [unfolded q]]) (use r(5) MODIFIED in auto)
next
  case DELETED
  with assms obtain \<rho> where r: "carried w (take_out w slot n c (the current)) (P, S) \<rho>"
    "chain w (moves_of w (Suc slot) (Suc n) xs) \<rho> \<tau>" by auto
  obtain parts g where p: "split_path (path c) = Inr parts" "\<rho> = (P(parts := None), S(slot_name (CHR ''b'') slot \<mapsto> g))"
    using carried_take_out [OF r(1)] by auto
  show ?thesis by (rule that [OF p(1) r(2) [unfolded p(2)]]) (use DELETED in auto)
qed

lemma chain_lands:
  assumes "chain w (moves_of w slot n xs) (P, S) \<tau>" "distinct (map (\<lambda>x. split_path (path (fst x))) xs)"
    and "\<forall>y\<in>set (staged_of slot (map fst xs)). \<exists>f. S (fst y) = Some f \<and> staged_as w (snd y) f"
  shows "(\<forall>c\<in>fst ` set xs. \<exists>parts. split_path (path c) = Inr parts
       \<and> (if kind c = DELETED then fst \<tau> parts = None else \<exists>f. fst \<tau> parts = Some (File f) \<and> staged_as w c f))
     \<and> (\<forall>q. q \<notin> changed_paths (map fst xs) \<longrightarrow> fst \<tau> q = P q)"
  using assms
proof (induction xs arbitrary: slot n P S)
  case Nil
  then show ?case by simp
next
  case (Cons x xs)
  obtain c current where x: "x = (c, current)" by (cases x)
  have here: "kind c \<noteq> DELETED \<Longrightarrow> \<exists>f. S (slot_name (CHR ''s'') slot) = Some f \<and> staged_as w c f"
    using Cons.prems(3) by (auto simp: x)
  obtain parts P' S' k where p: "split_path (path c) = Inr parts" "chain w (moves_of w (Suc slot) k xs) (P', S') \<tau>"
    "if kind c = DELETED then P' = P(parts := None) else \<exists>f. staged_as w c f \<and> P' = P(parts \<mapsto> File f)"
    "\<And>i. Suc slot \<le> i \<Longrightarrow> S' (slot_name (CHR ''s'') i) = S (slot_name (CHR ''s'') i)"
    using change_lands [OF Cons.prems(1) [unfolded x] here] by metis
  have staged: "\<exists>f. S' (fst y) = Some f \<and> staged_as w (snd y) f" if y: "y \<in> set (staged_of (Suc slot) (map fst xs))" for y
  proof -
    obtain i where "fst y = slot_name (CHR ''s'') i" "Suc slot \<le> i" using staged_names [of "fst y"] y by blast
    then have "S' (fst y) = S (fst y)" using p(4) by simp
    moreover have "y \<in> set (staged_of slot (map fst (x # xs)))" using y by (simp add: x)
    ultimately show ?thesis using Cons.prems(3) by metis
  qed
  note rest = Cons.IH [OF p(2) _ ballI [OF staged]]
  have fresh: "parts \<notin> changed_paths (map fst xs)"
    using Cons.prems(2) p(1) by (force simp: x changed_paths_def)
  have kept: "fst \<tau> q = P' q" if "q \<notin> changed_paths (map fst xs)" for q
    using rest Cons.prems(2) that by auto
  have own: "if kind c = DELETED then fst \<tau> parts = None else \<exists>f. fst \<tau> parts = Some (File f) \<and> staged_as w c f"
    using kept [OF fresh] p(3) by (auto split: if_splits)
  have other: "fst \<tau> q = P q" if "q \<notin> changed_paths (map fst (x # xs))" for q
  proof -
    have q: "q \<noteq> parts" "q \<notin> changed_paths (map fst xs)" using that p(1) by (auto simp: changed_paths_def x)
    from kept [OF q(2)] p(3) q(1) show ?thesis by (auto split: if_splits)
  qed
  show ?case using own other rest Cons.prems(2) p(1) by (auto simp: x)
qed

section \<open>One application\<close>

text \<open>\<open>fold\<close> aside, the components a candidate names are distinct files.\<close>

definition distinct_files :: "change list \<Rightarrow> bool" where
  "distinct_files cs = distinct (map (\<lambda>c. split_path (path c)) cs)"

lemma delivered_lands:
  assumes plan: "plan_result w R 0 cs \<lparr>pl_moves = [], pl_staged = [], pl_wanted = []\<rparr> p"
    and dirs: "\<forall>q\<in>set ds. \<exists>parts\<in>set (pl_wanted p). prefix q parts" "directories_ok R ds"
    and S: "staged_in w (pl_staged p) S" "chain w (pl_moves p) (with_dirs (set ds) R, S) \<tau>" and cs: "distinct_files cs"
  shows "lands w cs R (fst \<tau>)"
proof -
  from plan obtain xs where xs: "map fst xs = cs" "pl_moves p = moves_of w 0 0 xs" "pl_staged p = staged_of 0 cs"
    "\<forall>q\<in>set (pl_wanted p). \<exists>c\<in>set cs. \<exists>parts. split_path (path c) = Inr parts \<and> q = butlast parts"
    unfolding plan_result_def by auto
  have "distinct (map (\<lambda>x. split_path (path (fst x))) xs)" using cs xs(1) by (auto simp: distinct_files_def comp_def)
  moreover have "\<forall>y\<in>set (staged_of 0 (map fst xs)). \<exists>f. S (fst y) = Some f \<and> staged_as w (snd y) f"
    using S(1) xs(1,3) by (simp add: staged_in_def)
  moreover have "fst ` set xs = set cs" using xs(1) by (metis set_map)
  ultimately have eff: "\<forall>c\<in>set cs. \<exists>parts. split_path (path c) = Inr parts
       \<and> (if kind c = DELETED then fst \<tau> parts = None else \<exists>f. fst \<tau> parts = Some (File f) \<and> staged_as w c f)"
    "\<And>q. q \<notin> changed_paths cs \<Longrightarrow> fst \<tau> q = with_dirs (set ds) R q"
    using chain_lands [OF S(2) [unfolded xs(2)]] xs(1) by metis+
  have "R q = None \<and> (\<exists>p\<in>changed_paths cs. strict_prefix q p)" if q: "q \<in> set ds" for q
  proof -
    from q dirs(1) obtain z where z: "z \<in> set (pl_wanted p)" "prefix q z" by blast
    with xs(4) obtain c parts where c: "c \<in> set cs" "split_path (path c) = Inr parts" "prefix q (butlast parts)" by metis
    have "parts \<noteq> []" using split_path_canonical [OF c(2)] by (simp add: canonical_def)
    then have "strict_prefix (butlast parts) parts" by (metis append_butlast_last_id strict_prefixI')
    with c(3) have "strict_prefix q parts" by (rule prefix_order.le_less_trans)
    with c q dirs(2) surveyed_absent [of R "rev ds" q] show ?thesis by (auto simp: changed_paths_def directories_ok_def)
  qed
  with eff show ?thesis by (auto simp: lands_def with_dirs_def)
qed

definition delivered :: "application_world \<Rightarrow> change list \<Rightarrow> (string list \<Rightarrow> node option) \<Rightarrow> disk \<Rightarrow> bool" where
  "delivered w cs R d = (lands w cs R (map_of (dk_repo d)) \<and> \<not> in_flight d)"

lemma timeless_delivered [simp]: "timeless (delivered w cs R)"
  by (simp add: timeless_def delivered_def in_flight_def on_disk_def)

text \<open>
  How an application that raised leaves the checkout, and how one that died does. When a write of the
  journal failed, the application may raise over a checkout that is under way, with the record of it on
  disk, or over an applied candidate whose journal says so.
\<close>

definition on_record :: "application_world \<Rightarrow> change list \<Rightarrow> (string list \<Rightarrow> node option) \<Rightarrow> disk \<Rightarrow> bool" where
  "on_record w cs R d = (on_disk ROLLING_BACK d \<or> on_disk J_FAILED d \<or> delivered w cs R d \<and> on_disk APPLIED d
     \<or> (\<exists>ms ds. directories_ok R ds \<and> journalled w R ms ds d))"

definition undone :: "application_world \<Rightarrow> change list \<Rightarrow> (string list \<Rightarrow> node option) \<Rightarrow> app_error \<Rightarrow> disk \<Rightarrow> bool" where
  "undone w cs R e d = (restored R d \<or> gave_up (Raised e) d
     \<or> delivered w cs R d \<and> (e = ApplicationCleanupFailed \<or> e = Unforeseen)
     \<or> \<not> writable w \<and> on_record w cs R d)"

definition crashed :: "application_world \<Rightarrow> change list \<Rightarrow> (string list \<Rightarrow> node option) \<Rightarrow> disk \<Rightarrow> bool" where
  "crashed w cs R d = (idle R d \<or> delivered w cs R d \<or> on_disk ROLLING_BACK d
     \<or> (\<exists>ms ds. directories_ok R ds \<and> journalled w R ms ds d))"

definition halted_by :: "application_world \<Rightarrow> change list \<Rightarrow> (string list \<Rightarrow> node option) \<Rightarrow> app_exit \<Rightarrow> disk \<Rightarrow> bool" where
  "halted_by w cs R x d = (case x of Died \<Rightarrow> crashed w cs R d | Raised e \<Rightarrow> undone w cs R e d)"

lemma begun_journalled: "begun R ms ds d \<Longrightarrow> journalled w R ms ds d"
  by (auto simp: begun_def intro: unmoved_journalled made_none)

lemma early_halted: "early R d \<Longrightarrow> halted_by w cs R x d"
proof (cases x)
  case Died
  assume "early R d"
  with Died show ?thesis by (auto simp: halted_by_def early_def crashed_def intro: begun_journalled)
next
  case (Raised e)
  assume "early R d"
  with Raised show ?thesis by (simp add: halted_by_def undone_def early_restored)
qed

lemma idle_halted: "idle R d \<Longrightarrow> halted_by w cs R x d"
  by (intro early_halted idle_early)

lemma plan_index:
  assumes "plan_result w R 0 cs \<lparr>pl_moves = [], pl_staged = [], pl_wanted = []\<rparr> p" "n < length (pl_moves p)"
  shows "mv_index (pl_moves p ! n) = n"
  using assms moves_index [of n w 0 0] by (auto simp: plan_result_def)

lemma plan_slotted:
  assumes "plan_result w R 0 cs \<lparr>pl_moves = [], pl_staged = [], pl_wanted = []\<rparr> p" "staged_in w (pl_staged p) S"
  shows "slotted (pl_moves p) S"
  using assms by (auto simp: plan_result_def staged_in_def intro!: moves_slotted)

lemma directories_absent:
  "directories_ok R ds \<Longrightarrow> outermost ds" "directories_ok R ds \<Longrightarrow> \<forall>q\<in>set ds. R q = None"
  using surveyed_outermost surveyed_absent [of R "rev ds"] by (auto simp: directories_ok_def)

lemma rolled_back_idle: "rolled_back R d \<Longrightarrow> idle R d"
  by (auto simp: rolled_back_def idle_def in_flight_def on_disk_def)

lemma hoare_rollback:
  assumes "hoare P (rollback w ms) (\<lambda>_. rolled_back R) (broken_off w R P)"
    and "\<And>d. P d \<Longrightarrow> crashed w cs R d \<and> on_record w cs R d"
  shows "hoare P (seq (rollback w ms) (\<lambda>_. leave w e)) Q (halted_by w cs R)"
proof (rule hoare_then [OF assms(1)])
  show "hoare (rolled_back R) (leave w e) Q (halted_by w cs R)"
    by (rule hoare_weaken [OF hoare_leave [of "idle R"]])
      (auto intro: idle_halted rolled_back_idle idle_removed idle_early early_restored)
next
  fix x d assume "broken_off w R P x d"
  then show "halted_by w cs R x d"
    using assms(2) [of d]
    by (cases x) (auto simp: broken_off_def halted_by_def stopped_def crashed_def undone_def gave_up_def on_record_def rolled_back_def)
qed

text \<open>The candidate is applied and the journal on disk says so, though the process has heard that the
  write of it failed.\<close>

definition sealed_late :: "application_world \<Rightarrow> change list \<Rightarrow> (string list \<Rightarrow> node option) \<Rightarrow> move list \<Rightarrow> string list list
    \<Rightarrow> disk \<Rightarrow> bool" where
  "sealed_late w cs R ms ds d = (\<exists>\<sigma> \<tau> j i. (made R (set ds) \<sigma> \<and> logged w ms ds \<sigma> \<tau> j \<and> jl_state i = APPLIED
     \<and> lands w cs R (fst \<tau>)) \<and> standing \<tau> j (Holds i) d)"

lemma sealed_late_delivered: "sealed_late w cs R ms ds d \<Longrightarrow> delivered w cs R d \<and> on_disk APPLIED d"
  by (auto simp: sealed_late_def delivered_def in_flight_def on_disk_def standing_def store_def)

lemma rollback_sealed:
  assumes "rooted R" "directories_ok R ds"
  shows "hoare (sealed_late w cs R ms ds) (rollback w ms) (\<lambda>_. rolled_back R) (broken_off w R (sealed_late w cs R ms ds))"
proof -
  have "hoare (standing \<tau> j (Holds i)) (rollback w ms) (\<lambda>_. rolled_back R) (broken_off w R (sealed_late w cs R ms ds))"
    if h: "made R (set ds) \<sigma>" "logged w ms ds \<sigma> \<tau> j" "jl_state i = APPLIED" "lands w cs R (fst \<tau>)" for \<sigma> \<tau> j i
  proof (rule hoare_weaken [OF rollback_from [OF assms(1) directories_absent [OF assms(2)] directories_journal [OF assms(2)] h(1,2)]])
    have P: "sealed_late w cs R ms ds d" if "standing \<tau> j (Holds i) d" for d
      unfolding sealed_late_def using h that by blast
    fix e d assume "broken_off w R (standing \<tau> j (Holds i)) e d"
    then show "broken_off w R (sealed_late w cs R ms ds) e d" using P by (auto simp: broken_off_def)
  qed
  then show ?thesis unfolding sealed_late_def [of _ _ _ _ _, abs_def] by (intro hoare_ex hoare_conj) blast
qed

lemma hoare_either: "hoare P m Q E \<Longrightarrow> hoare P' m Q E \<Longrightarrow> hoare (\<lambda>d. P d \<or> P' d) m Q E"
  by (auto simp: hoare_def)

lemma hoare_transaction:
  assumes R: "rooted R" and ok: "prepared w R (cd_changes c) p ds" and cs: "distinct_files (cd_changes c)"
  shows "hoare (begun R (pl_moves p) ds)
     (on_error (seq (move_all w p ds) (\<lambda>_. seq (verify_work w cf a c f before) (\<lambda>_. advance_journal w APPLIED)))
        (\<lambda>e. seq (rollback w (pl_moves p)) (\<lambda>_. leave w e)))
     (\<lambda>_. delivered w (cd_changes c) R) (halted_by w (cd_changes c) R)"
proof (rule hoare_on_error)
  let ?ms = "pl_moves p" and ?cs = "cd_changes c"
  let ?arrived = "reached w R ?ms (pl_staged p) ds (length ?ms)"
  have plan: "plan_result w R 0 ?cs \<lparr>pl_moves = [], pl_staged = [], pl_wanted = []\<rparr> p"
    and ds: "directories_ok R ds" "\<forall>q\<in>set ds. \<exists>parts\<in>set (pl_wanted p). prefix q parts"
    using ok by (simp_all add: prepared_def)
  have timeless: "timeless ?arrived" unfolding reached_def [abs_def] by simp
  have cover: "journalled w R ?ms ds d" if "?arrived d" for d using that by (rule reached_journalled [OF order_refl])
  have verify: "hoare ?arrived (verify_work w cf a c f before) (\<lambda>_. ?arrived) (\<lambda>_. journalled w R ?ms ds)"
    unfolding verify_work_def
    by (rule hoare_syscall [OF _ timeless]; (rule cover)?)
      (auto simp: hoare_def result_def refuse_def halt_with_def cover split: option.splits)
  let ?J = "journalled w R ?ms ds" and ?L = "sealed_late w ?cs R ?ms ds"
  let ?E = "\<lambda>x d. ?J d \<or> x \<noteq> Died \<and> ?L d"
  have advance: "hoare (standing \<tau> j (Holds j)) (advance_journal w APPLIED)
       (\<lambda>_. standing \<tau> (j\<lparr>jl_state := APPLIED\<rparr>) (Holds (j\<lparr>jl_state := APPLIED\<rparr>)))
       (unwritten w (standing \<tau> j (Holds j)) (standing \<tau> j (Holds (j\<lparr>jl_state := APPLIED\<rparr>))))"
    if "open_journal j" "jl_state j = APPLYING" for \<tau> j
    by (rule hoare_advance) (use that in \<open>auto simp: open_journal_def ALLOWED_JOURNAL_TRANSITIONS_def\<close>)
  have finish: "hoare ?arrived (advance_journal w APPLIED) (\<lambda>_. delivered w ?cs R) ?E"
  proof (rule hoareI)
    fix d a d' assume d: "?arrived d" "advance_journal w APPLIED d = (Inr a, d')"
    from d(1) obtain S \<tau> j where r: "staged_in w (pl_staged p) S" "chain w ?ms (with_dirs (set ds) R, S) \<tau>"
      "open_journal j" "jl_state j = APPLYING" "standing \<tau> j (Holds j) d" unfolding reached_def by auto
    from hoare_InrD [OF advance [OF r(3,4)] d(2) r(5)] have "map_of (dk_repo d') = fst \<tau>" "\<not> in_flight d'"
      by (auto simp: standing_def store_def in_flight_def on_disk_def)
    with delivered_lands [OF plan ds(2,1) r(1,2) cs] show "delivered w ?cs R d'" by (simp add: delivered_def)
  next
    fix d e d' assume d: "?arrived d" "advance_journal w APPLIED d = (Inl e, d')"
    from d(1) obtain S \<tau> j where r: "staged_in w (pl_staged p) S" "chain w (take (length ?ms) ?ms) (with_dirs (set ds) R, S) \<tau>"
      "open_journal j" "jl_state j = APPLYING" "jl_moves j = ?ms" "jl_directories j = map join_slash ds"
      "jl_applied_index j = length ?ms" "standing \<tau> j (Holds j) d" unfolding reached_def by auto
    let ?i = "j\<lparr>jl_state := APPLIED\<rparr>"
    from hoare_InlD [OF advance [OF r(3,4)] d(2) r(8)]
    consider "standing \<tau> j (Holds j) d'" | "e \<noteq> Died" "standing \<tau> j (Holds ?i) d'" by (auto simp: unwritten_def)
    then show "?E e d'"
    proof cases
      case 1
      with r have "?arrived d'" unfolding reached_def by blast
      then show ?thesis by (simp add: cover)
    next
      case 2
      have "logged w ?ms ds (with_dirs (set ds) R, S) \<tau> j"
        using stood_chain [OF order_refl r(2)] r(3,5-7) by (simp add: logged_def)
      moreover have "lands w ?cs R (fst \<tau>)" by (rule delivered_lands [OF plan ds(2,1) r(1) _ cs]) (use r(2) in simp)
      ultimately have "?L d'" unfolding sealed_late_def using 2(2) made_with_dirs [OF order_refl]
        by (intro exI [of _ "(with_dirs (set ds) R, S)"] exI [of _ \<tau>] exI [of _ j] exI [of _ ?i]) simp
      with 2(1) show ?thesis by simp
    qed
  qed
  have verified: "hoare ?arrived (seq (verify_work w cf a c f before) (\<lambda>_. advance_journal w APPLIED)) (\<lambda>_. delivered w ?cs R) ?E"
    by (rule hoare_then [OF verify _ finish]) simp
  show "hoare (begun R ?ms ds) (seq (move_all w p ds) (\<lambda>_. seq (verify_work w cf a c f before) (\<lambda>_. advance_journal w APPLIED)))
     (\<lambda>_. delivered w ?cs R) ?E"
  proof (rule hoare_then [OF _ _ verified])
    show "hoare (begun R ?ms ds) (move_all w p ds) (\<lambda>_. ?arrived) (\<lambda>_. ?J)"
      by (rule hoare_move_all [OF ds(1)]) (auto intro: plan_index [OF plan] plan_slotted [OF plan])
  qed simp
  have from_journal: "hoare ?J (seq (rollback w ?ms) (\<lambda>_. leave w e)) (\<lambda>_. delivered w ?cs R) (halted_by w ?cs R)" for e
    by (rule hoare_rollback [OF rollback_restores [OF R directories_absent [OF ds(1)] directories_journal [OF ds(1)]]])
      (use ds(1) in \<open>auto simp: crashed_def on_record_def\<close>)
  have from_sealed: "hoare ?L (seq (rollback w ?ms) (\<lambda>_. leave w e)) (\<lambda>_. delivered w ?cs R) (halted_by w ?cs R)" for e
    by (rule hoare_rollback [OF rollback_sealed [OF R ds(1)]])
      (auto simp: crashed_def on_record_def dest: sealed_late_delivered)
  show "hoare (\<lambda>d. ?J d \<or> Raised e \<noteq> Died \<and> ?L d) (seq (rollback w ?ms) (\<lambda>_. leave w e)) (\<lambda>_. delivered w ?cs R) (halted_by w ?cs R)" for e
    by simp (rule hoare_either [OF from_journal from_sealed])
  show "halted_by w ?cs R Died d" if "?J d \<or> Died \<noteq> Died \<and> ?L d" for d
    using that ds(1) by (auto simp: halted_by_def crashed_def)
qed

theorem hoare_apply_work:
  assumes R: "rooted R" and cs: "distinct_files (cd_changes c)"
  shows "hoare (fresh R) (apply_work w cf a c f) (\<lambda>_. delivered w (cd_changes c) R) (halted_by w (cd_changes c) R)"
proof -
  let ?cs = "cd_changes c"
  have removed: "hoare (delivered w ?cs R) (remove_holder w) (\<lambda>_. delivered w ?cs R)
     (\<lambda>e d. delivered w ?cs R d \<and> (e = Died \<or> e = Raised Unforeseen))"
    by (rule hoare_remove_holder) (auto simp: delivered_def in_flight_def)
  have ending: "hoare (delivered w ?cs R) (seq (remove_holder w) (\<lambda>ok. if ok then result (report_of a c) else refuse ApplicationCleanupFailed))
     (\<lambda>_. delivered w ?cs R) (halted_by w ?cs R)"
    by (rule hoare_then [OF removed])
      (auto simp: hoare_def result_def refuse_def halt_with_def halted_by_def undone_def crashed_def)
  have work: "hoare (\<lambda>d. prepared w R ?cs (fst r) (snd r) \<and> begun R (pl_moves (fst r)) (snd r) d)
     (case r of (p, dirs) \<Rightarrow> seq (on_error (seq (move_all w p dirs) (\<lambda>_. seq (verify_work w cf a c f before) (\<lambda>_. advance_journal w APPLIED)))
        (\<lambda>e. seq (rollback w (pl_moves p)) (\<lambda>_. leave w e))) (\<lambda>_.
      seq (remove_holder w) (\<lambda>ok. if ok then result (report_of a c) else refuse ApplicationCleanupFailed)))
     (\<lambda>_. delivered w ?cs R) (halted_by w ?cs R)" for r before
    unfolding prod.case_eq_if
    by (intro hoare_conj, rule hoare_seq [OF hoare_transaction [OF R _ cs] ending])
  have start: "hoare (fresh R) (seq (begin_application w a c) (\<lambda>(p, dirs).
     seq (on_error (seq (move_all w p dirs) (\<lambda>_. seq (verify_work w cf a c f before) (\<lambda>_. advance_journal w APPLIED)))
        (\<lambda>e. seq (rollback w (pl_moves p)) (\<lambda>_. leave w e))) (\<lambda>_.
     seq (remove_holder w) (\<lambda>ok. if ok then result (report_of a c) else refuse ApplicationCleanupFailed))))
     (\<lambda>_. delivered w ?cs R) (halted_by w ?cs R)" for before
    by (rule hoare_then [OF hoare_begin [OF R] _ work]) (rule early_halted)
  have read: "hoare (fresh R) (checked x) (\<lambda>_. fresh R) (\<lambda>_. fresh R)" for x :: "app_error + string \<times> tree"
    by (rule hoare_weaken [OF hoare_checked]) auto
  have outside: "hoare (fresh R) (halt_when b e) (\<lambda>_. fresh R) (\<lambda>_. fresh R)" for b e
    by (simp add: hoare_def halt_when_def halt_with_def result_def)
  show ?thesis unfolding apply_work_def
    by (rule hoare_then [OF outside idle_halted [OF fresh_idle]], assumption,
        rule hoare_then [OF read idle_halted [OF fresh_idle]], assumption, rule start)
qed

end
