(* ===== verification/Agent_Recovery.thy ===== *)
theory Agent_Recovery
  imports Agent_Delivery
begin

text \<open>
  Crash recovery: what the next process does with an application that died. Safety first (whatever
  the operating system does, the checkout is taken back or a record says it was not), then the
  journals it refuses, then its progress: with an operating system that works, an application that
  stopped between two renames is always taken back.
\<close>

section \<open>Recovery\<close>

text \<open>
  The next process, under the same hash: what a crash left in flight is taken back, or the record
  says that it could not be. A journal that says a rollback was under way is refused.
\<close>

definition left_by :: "application_world \<Rightarrow> (string list \<Rightarrow> node option) \<Rightarrow> move list \<Rightarrow> string list list \<Rightarrow> journal \<Rightarrow> store \<Rightarrow> disk \<Rightarrow> bool" where
  "left_by w R ms ds k \<tau> d = ((\<exists>\<sigma>. made R (set ds) \<sigma> \<and> logged w ms ds \<sigma> \<tau> k)
     \<and> store d = \<tau> \<and> dk_slots d \<noteq> None \<and> dk_journal d = Holds k \<and> dk_holder d)"

definition recoverable :: "application_world \<Rightarrow> (string list \<Rightarrow> node option) \<Rightarrow> disk \<Rightarrow> bool" where
  "recoverable w R d = (\<exists>ms ds. directories_ok R ds \<and> (\<exists>k \<tau>. left_by w R ms ds k \<tau> d))"

lemma journalled_left: "journalled w R ms ds d \<Longrightarrow> \<exists>k \<tau>. left_by w R ms ds k \<tau> d"
  by (auto simp: journalled_def left_by_def standing_def)

lemma journalled_recoverable: "directories_ok R ds \<Longrightarrow> journalled w R ms ds d \<Longrightarrow> recoverable w R d"
  using journalled_left [of w R ms ds d] by (auto simp: recoverable_def)

lemma left_tick [simp]: "left_by w R ms ds k \<tau> (d\<lparr>dk_tick := n\<rparr>) = left_by w R ms ds k \<tau> d"
  by (simp add: left_by_def store_def)

lemma timeless_left [simp]: "timeless (left_by w R ms ds k \<tau>)"
  by (simp add: timeless_def)

lemma left_recoverable: "directories_ok R ds \<Longrightarrow> left_by w R ms ds k \<tau> d \<Longrightarrow> recoverable w R d"
  by (auto simp: recoverable_def)

text \<open>How a recovery ends when it does not succeed.\<close>

definition unfinished :: "application_world \<Rightarrow> (string list \<Rightarrow> node option) \<Rightarrow> app_exit \<Rightarrow> disk \<Rightarrow> bool" where
  "unfinished w R x d = (restored R d \<or> recoverable w R d \<or> stopped w x d)"

lemma hoare_read_left:
  "hoare (left_by w R ms ds k \<tau>) (read_journal w') (\<lambda>j d. left_by w R ms ds k \<tau> d \<and> j = k) (\<lambda>_. left_by w R ms ds k \<tau>)"
  unfolding read_journal_def
  by (rule hoare_handled)
    (auto simp: hoare_def seq_def reads_def refuse_def halt_with_def result_def left_by_def)

lemma hoare_recover_left:
  assumes R: "rooted R" and ds: "directories_ok R ds"
  shows "hoare (left_by w R ms ds k \<tau>) (recover_work w repo_id aid) (\<lambda>r d. idle R d \<and> rc_rolled_back r) (unfinished w R)"
proof -
  let ?L = "left_by w R ms ds k \<tau>"
  let ?Q = "\<lambda>r d. idle R d \<and> rc_rolled_back r"
  have L: "unfinished w R x d" if "?L d" for x d using left_recoverable [OF ds that] by (simp add: unfinished_def)
  have k: "jl_state k \<noteq> APPLIED" "jl_state k \<noteq> ROLLED_BACK" "jl_state k \<noteq> J_FAILED" "jl_moves k = ms" if "?L d" for d
    using that by (auto simp: left_by_def logged_def open_journal_def)
  have ending: "hoare (idle R) (seq (remove_holder w) (\<lambda>ok.
         if ok then result \<lparr>rc_application_id = aid, rc_state = ROLLED_BACK, rc_rolled_back = True\<rparr>
         else refuse ApplicationCleanupFailed)) ?Q (unfinished w R)"
    by (rule hoare_then [OF hoare_remove_holder])
      (auto simp: hoare_def result_def refuse_def halt_with_def unfinished_def
        intro: idle_removed idle_early early_restored)
  have undo: "hoare (journalled w R ms ds) (seq (rollback w ms) (\<lambda>_. seq (remove_holder w) (\<lambda>ok.
         if ok then result \<lparr>rc_application_id = aid, rc_state = ROLLED_BACK, rc_rolled_back = True\<rparr>
         else refuse ApplicationCleanupFailed))) ?Q (unfinished w R)"
    by (rule hoare_then [OF rollback_restores [OF R directories_absent [OF ds] directories_journal [OF ds]] _ hoare_pre [OF ending]])
      (auto simp: unfinished_def broken_off_def rolled_back_def intro: rolled_back_idle journalled_recoverable [OF ds])
  have payload: "hoare ?L (keep_payload k) (\<lambda>_. journalled w R ms ds) (unfinished w R)"
    by (auto simp: hoare_def keep_payload_def modifies_def left_by_def standing_def store_def intro!: journalledI)
  have slots: "hoare ?L (open_recovery w) (\<lambda>_. ?L) (unfinished w R)"
    unfolding open_recovery_def
    by (rule hoare_syscall; (rule L)?)
      (auto simp: hoare_def seq_def reads_def result_def refuse_def halt_with_def left_by_def)
  have rest: "hoare ?L (seq (open_recovery w) (\<lambda>_.
         seq (keep_payload (if jl_state k = J_FAILED then k\<lparr>jl_state := APPLYING\<rparr> else k)) (\<lambda>_.
         seq (rollback w (jl_moves k)) (\<lambda>_. seq (remove_holder w) (\<lambda>ok.
         if ok then result \<lparr>rc_application_id = aid, rc_state = ROLLED_BACK, rc_rolled_back = True\<rparr>
         else refuse ApplicationCleanupFailed))))) ?Q (unfinished w R)"
  proof (cases "\<exists>d. ?L d")
    case True
    then have "jl_state k \<noteq> J_FAILED" "jl_moves k = ms" using k by blast+
    then show ?thesis using hoare_seq [OF slots hoare_seq [OF payload undo]] by simp
  qed (simp add: hoare_def)
  show ?thesis unfolding recover_work_def
  proof (rule hoare_seq [where Q' = "\<lambda>h d. ?L d \<and> h"])
    show "hoare ?L (reads dk_holder) (\<lambda>h d. ?L d \<and> h) (unfinished w R)"
      by (auto simp: hoare_def reads_def left_by_def)
    show "hoare (\<lambda>d. ?L d \<and> h) (if \<not> h then refuse (ApplicationRefused PREFLIGHT_FAILED)
     else seq (read_journal w) (\<lambda>j.
       if jl_application_id j \<noteq> aid \<or> jl_repo_id j \<noteq> repo_id then refuse ApplicationContainment
       else if jl_state j = APPLIED \<or> jl_state j = ROLLED_BACK
         then result \<lparr>rc_application_id = aid, rc_state = jl_state j, rc_rolled_back = False\<rparr>
       else seq (open_recovery w) (\<lambda>_.
         seq (keep_payload (if jl_state j = J_FAILED then j\<lparr>jl_state := APPLYING\<rparr> else j)) (\<lambda>_.
         seq (rollback w (jl_moves j)) (\<lambda>_. seq (remove_holder w) (\<lambda>ok.
         if ok then result \<lparr>rc_application_id = aid, rc_state = ROLLED_BACK, rc_rolled_back = True\<rparr>
         else refuse ApplicationCleanupFailed)))))) ?Q (unfinished w R)" for h
    proof (cases h)
      case True
      have "hoare (\<lambda>d. ?L d \<and> j = k) (if jl_application_id j \<noteq> aid \<or> jl_repo_id j \<noteq> repo_id then refuse ApplicationContainment
         else if jl_state j = APPLIED \<or> jl_state j = ROLLED_BACK
           then result \<lparr>rc_application_id = aid, rc_state = jl_state j, rc_rolled_back = False\<rparr>
         else seq (open_recovery w) (\<lambda>_.
           seq (keep_payload (if jl_state j = J_FAILED then j\<lparr>jl_state := APPLYING\<rparr> else j)) (\<lambda>_.
           seq (rollback w (jl_moves j)) (\<lambda>_. seq (remove_holder w) (\<lambda>ok.
           if ok then result \<lparr>rc_application_id = aid, rc_state = ROLLED_BACK, rc_rolled_back = True\<rparr>
           else refuse ApplicationCleanupFailed))))) ?Q (unfinished w R)" for j
      proof (cases "j = k \<and> (\<exists>d. ?L d)")
        case True
        then have closed: "\<not> (jl_state k = APPLIED \<or> jl_state k = ROLLED_BACK)" using k by blast
        have mismatch: "hoare ?L (refuse ApplicationContainment) ?Q (unfinished w R)" by (rule hoare_refuse) (rule L)
        show ?thesis using True closed rest mismatch by auto
      qed (auto simp: hoare_def)
      then show ?thesis using True by simp (rule hoare_then [OF hoare_read_left L])
    qed (simp add: hoare_def)
  qed
qed

lemma hoare_recoverable:
  assumes "rooted R"
  shows "hoare (recoverable w R) (recover_work w repo_id aid) (\<lambda>r d. idle R d \<and> rc_rolled_back r) (unfinished w R)"
  unfolding recoverable_def [abs_def]
  by (intro hoare_any hoare_ex hoare_recover_left [OF assms])

text \<open>Only the hash of a world matters to what it left behind.\<close>

lemma carried_sha: "pw_sha w = pw_sha w' \<Longrightarrow> carried w = carried w'" "pw_sha w = pw_sha w' \<Longrightarrow> doubled w = doubled w'"
  by (simp_all add: carried_def doubled_def movable_def fun_eq_iff)

lemma chain_sha: "pw_sha w = pw_sha w' \<Longrightarrow> chain w ms \<sigma> \<tau> = chain w' ms \<sigma> \<tau>"
  by (induction ms arbitrary: \<sigma>) (simp_all add: carried_sha [of w w'])

lemma recoverable_sha: "pw_sha w = pw_sha w' \<Longrightarrow> recoverable w R d = recoverable w' R d"
  by (simp add: recoverable_def left_by_def logged_def stood_def interrupted_def carried_sha [of w w'] chain_sha [of w w'])

text \<open>A new process: the journal in memory is gone.\<close>

definition restart :: "disk \<Rightarrow> disk" where
  "restart d = d\<lparr>dk_payload := None\<rparr>"

lemma recoverable_restart [simp]: "recoverable w R (restart d) = recoverable w R d"
  by (simp add: recoverable_def left_by_def restart_def store_def)

lemma crashed_recoverable:
  assumes "crashed w cs R d" "in_flight d"
  shows "recoverable w R d"
proof -
  have "\<not> on_disk ROLLING_BACK d" using assms(2) by (auto simp: in_flight_def on_disk_def)
  with assms show ?thesis by (auto simp: crashed_def idle_def delivered_def intro: journalled_recoverable)
qed

lemma crashed_cases:
  "crashed w cs R d \<Longrightarrow> map_of (dk_repo d) = R \<or> lands w cs R (map_of (dk_repo d)) \<or> recoverable w R d \<or> on_disk ROLLING_BACK d"
  by (auto simp: crashed_def idle_def restored_def delivered_def intro: journalled_recoverable)

lemma undone_cases:
  "undone w cs R e d \<Longrightarrow> map_of (dk_repo d) = R \<or> e = RollbackFailed \<and> on_disk J_FAILED d
     \<or> (e = ApplicationCleanupFailed \<or> e = Unforeseen) \<and> lands w cs R (map_of (dk_repo d))
     \<or> \<not> writable w \<and> (recoverable w R d \<or> on_disk ROLLING_BACK d \<or> on_disk J_FAILED d
        \<or> on_disk APPLIED d \<and> lands w cs R (map_of (dk_repo d)))"
  by (auto simp: undone_def on_record_def restored_def gave_up_def delivered_def intro: journalled_recoverable)

section \<open>A rollback that was interrupted\<close>

text \<open>No way back: the transition table has none out of a rollback into a rollback.\<close>

lemma rolling_back_refused:
  assumes "on_disk ROLLING_BACK d" "recover_work w repo_id aid d = (x, d')"
  shows "(\<exists>e. x = Inl e) \<and> dk_repo d' = dk_repo d \<and> dk_slots d' = dk_slots d \<and> dk_journal d' = dk_journal d"
proof -
  obtain k where k: "dk_journal d = Holds k" "jl_state k = ROLLING_BACK" using assms(1) by (auto simp: on_disk_def)
  let ?P = "\<lambda>d'. dk_repo d' = dk_repo d \<and> dk_slots d' = dk_slots d \<and> dk_journal d' = Holds k"
  have P: "timeless ?P" by (simp add: timeless_def)
  have read: "hoare ?P (read_journal w) (\<lambda>j d'. ?P d' \<and> j = k) (\<lambda>_. ?P)"
    unfolding read_journal_def
    by (rule hoare_handled [OF _ P]) (auto simp: hoare_def seq_def reads_def refuse_def halt_with_def result_def)
  have slots: "hoare ?P (open_recovery w) (\<lambda>_. ?P) (\<lambda>_. ?P)"
    unfolding open_recovery_def
    by (rule hoare_syscall [OF _ P]) (auto simp: hoare_def seq_def reads_def result_def refuse_def halt_with_def)
  have keep: "hoare ?P (keep_payload k) (\<lambda>_ d'. ?P d' \<and> dk_payload d' = Some k) (\<lambda>_. ?P)"
    by (auto simp: hoare_def keep_payload_def modifies_def)
  have stuck: "hoare (\<lambda>d'. ?P d' \<and> dk_payload d' = Some k) (rollback w ms) (\<lambda>_ _. False) (\<lambda>_. ?P)" for ms
    by (auto simp: hoare_def rollback_def advance_journal_def the_payload_def seq_def reads_def result_def refuse_def
        halt_with_def k(2) ALLOWED_JOURNAL_TRANSITIONS_def)
  have rest: "hoare (\<lambda>d'. ?P d' \<and> j = k) (if jl_application_id j \<noteq> aid \<or> jl_repo_id j \<noteq> repo_id then refuse ApplicationContainment
       else if jl_state j = APPLIED \<or> jl_state j = ROLLED_BACK
         then result \<lparr>rc_application_id = aid, rc_state = jl_state j, rc_rolled_back = False\<rparr>
       else seq (open_recovery w) (\<lambda>_.
         seq (keep_payload (if jl_state j = J_FAILED then j\<lparr>jl_state := APPLYING\<rparr> else j)) (\<lambda>_.
         seq (rollback w (jl_moves j)) (\<lambda>_. seq (remove_holder w) (\<lambda>ok.
         if ok then result \<lparr>rc_application_id = aid, rc_state = ROLLED_BACK, rc_rolled_back = True\<rparr>
         else refuse ApplicationCleanupFailed))))) (\<lambda>_ _. False) (\<lambda>_. ?P)" for j
  proof (cases "j = k")
    case True
    have "hoare ?P (seq (open_recovery w) (\<lambda>_. seq (keep_payload k) (\<lambda>_.
         seq (rollback w (jl_moves k)) (\<lambda>_. seq (remove_holder w) (\<lambda>ok.
         if ok then result \<lparr>rc_application_id = aid, rc_state = ROLLED_BACK, rc_rolled_back = True\<rparr>
         else refuse ApplicationCleanupFailed))))) (\<lambda>_ _. False) (\<lambda>_. ?P)"
      by (rule hoare_seq [OF slots], rule hoare_seq [OF keep], rule hoare_seq [OF stuck]) (simp add: hoare_def)
    then show ?thesis using True k(2) by (auto intro: hoare_refuse)
  qed (simp add: hoare_def)
  have "hoare ?P (recover_work w repo_id aid) (\<lambda>_ _. False) (\<lambda>_. ?P)"
    unfolding recover_work_def
  proof (rule hoare_seq [where Q' = "\<lambda>_. ?P"])
    show "hoare ?P (reads dk_holder) (\<lambda>_. ?P) (\<lambda>_. ?P)" by (auto simp: hoare_def reads_def)
  qed (split if_split, intro conjI impI, rule hoare_refuse, assumption, rule hoare_seq [OF read rest])
  with assms(2) k(1) show ?thesis unfolding hoare_def by (cases x) fastforce+
qed

section \<open>Progress\<close>

text \<open>An operating system that works.\<close>

definition faultless :: "application_world \<Rightarrow> bool" where
  "faultless w = ((\<forall>n. pw_fate w n = Works) \<and> (\<forall>n. pw_write w n = Works))"

abbreviation sure :: "(disk \<Rightarrow> bool) \<Rightarrow> 'a work \<Rightarrow> ('a \<Rightarrow> disk \<Rightarrow> bool) \<Rightarrow> bool" where
  "sure P m Q \<equiv> hoare P m Q (\<lambda>_ _. False)"

lemma sure_then: "sure P m Q' \<Longrightarrow> (\<And>a. sure (Q' a) (f a) Q) \<Longrightarrow> sure P (seq m f) Q"
  by (rule hoare_seq)

lemma sure_syscall: "faultless w \<Longrightarrow> timeless P \<Longrightarrow> sure P m Q \<Longrightarrow> sure P (syscall w e m) Q"
  by (auto simp: faultless_def timeless_def hoare_def syscall_def seq_def fate_of_def)

lemma sure_handled: "faultless w \<Longrightarrow> timeless P \<Longrightarrow> sure P m Q \<Longrightarrow> sure P (handled w e m) Q"
  by (auto simp: faultless_def timeless_def hoare_def handled_def seq_def fate_of_def)

lemma sure_known: "(\<And>d. P d \<Longrightarrow> Q a d) \<Longrightarrow> sure P (result a) Q"
  by (simp add: hoare_def result_def)

lemma sure_reading: "(\<And>d. P d \<Longrightarrow> g d = Inr y) \<Longrightarrow> sure P (seq (reads g) checked) (\<lambda>a d. P d \<and> a = y)"
  by (auto simp: hoare_def seq_def reads_def checked_def yield_def result_def)

lemma sure_evidence:
  assumes "faultless w" "seen \<sigma> sd n = Inr ev"
  shows "sure (standing \<sigma> j x) (evidence_of w sd n) (\<lambda>e d. standing \<sigma> j x d \<and> e = ev)"
proof (cases sd)
  case REPO_SIDE
  obtain parts where p: "split_path n = Inr parts" "evidence_at (fst \<sigma>) parts = Inr ev"
    using assms(2) REPO_SIDE by (auto simp: seen_def split: sum.splits)
  show ?thesis
    by (simp add: REPO_SIDE evidence_of_def repo_evidence_def p(1))
      (rule sure_handled [OF assms(1) _ sure_reading]; use p(2) in \<open>auto simp: standing_def store_def\<close>)
next
  case HOLD_SIDE
  have s: "is_slot n" "ordinary (map_option File (snd \<sigma> n)) = Inr ev"
    using assms(2) HOLD_SIDE by (auto simp: seen_def split: if_splits)
  show ?thesis
    by (simp add: HOLD_SIDE evidence_of_def slot_evidence_def s(1))
      (rule sure_handled [OF assms(1) _ sure_reading]; use s(2) in \<open>auto simp: standing_def store_def\<close>)
qed

lemma sure_endpoint:
  assumes "faultless w" "place_of sd n = Some a" "open_to a \<sigma>"
  shows "sure (standing \<sigma> j x) (endpoint w sd n) (\<lambda>b d. standing \<sigma> j x d \<and> b = a)"
proof (cases sd)
  case HOLD_SIDE
  with assms(2) show ?thesis by (auto simp: place_of_cases endpoint_def intro: sure_known)
next
  case REPO_SIDE
  with assms(2) obtain parts where p: "split_path n = Inr parts" "a = In_Repo parts" by (auto simp: place_of_cases)
  have "sure (standing \<sigma> j x) (open_chain w (butlast parts)) (\<lambda>_. standing \<sigma> j x)"
    unfolding open_chain_def
    by (rule sure_syscall [OF assms(1)])
      (use assms(3) p(2) in \<open>auto simp: hoare_def seq_def reads_def result_def standing_def store_def\<close>)
  then show ?thesis
    by (simp add: REPO_SIDE endpoint_def p) (rule sure_then, assumption, rule sure_known, simp)
qed

lemma sure_rename:
  assumes "faultless w" "stored a \<sigma> = Some (File f)" "stored b \<sigma> = None"
  shows "sure (standing \<sigma> j x) (rename_child w a b) (\<lambda>_. standing (unlinked a (linked b f \<sigma>)) j x)"
  unfolding rename_child_def
proof (rule sure_then [OF sure_syscall [OF assms(1)]])
  have "object_at q d = stored q \<sigma>" if "standing \<sigma> j x d" for q d
    using that by (simp add: standing_def object_at_store)
  then show "sure (standing \<sigma> j x) (seq (reads (\<lambda>d. (object_at a d, object_at b d))) (\<lambda>(x, y).
       case x of Some (File f) \<Rightarrow> if y \<noteq> None then refuse ConcurrentMainChange else modifies (link_at b f)
       | _ \<Rightarrow> refuse ApplicationContainment)) (\<lambda>_. standing (linked b f \<sigma>) j x)"
    using assms(2,3) by (auto simp: hoare_def seq_def reads_def modifies_def standing_link)
  show "sure (standing (linked b f \<sigma>) j x) (syscall w ApplicationContainment (modifies (unlink_at a)))
     (\<lambda>_. standing (unlinked a (linked b f \<sigma>)) j x)"
    by (rule sure_syscall [OF assms(1)]) (auto simp: hoare_def modifies_def standing_unlink)
qed simp

lemma movable_seen: "movable w m \<sigma> a b f \<Longrightarrow> seen \<sigma> (mv_from_side m) (mv_from_name m) = Inr (Some f)"
  by (auto simp: movable_def seen_Some)

lemma movable_free: "movable w m \<sigma> a b f \<Longrightarrow> seen \<sigma> (mv_to_side m) (mv_to_name m) = Inr None"
  by (cases "mv_to_side m") (auto simp: movable_def seen_def place_of_cases evidence_at_def ordinary_def)

lemma sure_execute:
  assumes "faultless w" "movable w m \<sigma> a b f"
  shows "sure (standing \<sigma> j x) (execute_move w m) (\<lambda>_. standing (unlinked a (linked b f \<sigma>)) j x)"
  unfolding execute_move_def
proof (rule sure_then [OF sure_evidence [OF assms(1) movable_seen [OF assms(2)]]])
  have m: "source m = Some a" "target m = Some b" "open_to a \<sigma>" "open_to b \<sigma>" "stored a \<sigma> = Some (File f)" "stored b \<sigma> = None"
    "pw_sha w (fo_data f) = mv_sha m" using assms(2) by (simp_all add: movable_def)
  have rename: "sure (\<lambda>d. standing \<sigma> j x d \<and> b' = b) (rename_child w a b') (\<lambda>_. standing (unlinked a (linked b f \<sigma>)) j x)" for b'
    using sure_rename [OF assms(1) m(5,6)] by (auto simp: hoare_def)
  have ends: "sure (\<lambda>d. standing \<sigma> j x d \<and> a' = a) (seq (endpoint w (mv_to_side m) (mv_to_name m)) (rename_child w a'))
      (\<lambda>_. standing (unlinked a (linked b f \<sigma>)) j x)" for a'
  proof (cases "a' = a")
    case True
    show ?thesis unfolding True
      by (rule hoare_pre [OF sure_then [OF sure_endpoint [OF assms(1) m(2,4)] rename]]) simp
  qed (simp add: hoare_def)
  show "sure (\<lambda>d. standing \<sigma> j x d \<and> ev = Some f) (case ev of None \<Rightarrow> refuse ConcurrentMainChange
     | Some f \<Rightarrow> if pw_sha w (fo_data f) \<noteq> mv_sha m then refuse ConcurrentMainChange
         else seq (endpoint w (mv_from_side m) (mv_from_name m)) (\<lambda>a.
           seq (endpoint w (mv_to_side m) (mv_to_name m)) (rename_child w a)))
     (\<lambda>_. standing (unlinked a (linked b f \<sigma>)) j x)" for ev
  proof (cases "ev = Some f")
    case True
    then show ?thesis using m(7) by simp (rule hoare_pre [OF sure_then [OF sure_endpoint [OF assms(1) m(1,3)] ends]], simp)
  qed (simp add: hoare_def)
qed

text \<open>A move made, or one that can still be made.\<close>

definition at_rest :: "application_world \<Rightarrow> move \<Rightarrow> store \<Rightarrow> store \<Rightarrow> bool" where
  "at_rest w m \<sigma> \<tau> = (carried w m \<sigma> \<tau> \<or> \<tau> = \<sigma> \<and> (\<exists>a b f. movable w m \<sigma> a b f))"

lemma carried_movable_back:
  assumes "movable w m \<sigma> a b f" "\<tau> = unlinked a (linked b f \<sigma>)"
  shows "movable w (reverse_move m) \<tau> b a f" "unlinked b (linked a f \<tau>) = \<sigma>"
proof -
  have ends: "a \<noteq> b" by (rule movable_ends [OF assms(1)])
  have "open_to q \<tau>" if "open_to q \<sigma>" for q
    unfolding assms(2) using that assms(1) ends open_to_unlinked [of a "linked b f \<sigma>" f q] open_to_linked [of b \<sigma> q f]
    by (simp add: movable_def stored_linked)
  then show "movable w (reverse_move m) \<tau> b a f"
    using assms ends by (simp add: movable_def reverse_move_def stored_linked stored_unlinked)
  show "unlinked b (linked a f \<tau>) = \<sigma>"
    by (rule store_eqI) (use assms ends in \<open>auto simp: movable_def stored_linked stored_unlinked\<close>)
qed

lemma sure_undo:
  assumes "faultless w" "at_rest w m \<sigma> \<tau>"
  shows "sure (standing \<tau> j x) (undo w m) (\<lambda>_. standing \<sigma> j x)"
proof -
  consider a b f where "movable w m \<sigma> a b f" "\<tau> = unlinked a (linked b f \<sigma>)" | a b f where "movable w m \<sigma> a b f" "\<tau> = \<sigma>"
    using assms(2) by (auto simp: at_rest_def carried_def)
  then show ?thesis
  proof cases
    case (1 a b f)
    note reversed = carried_movable_back [OF 1]
    have seen: "seen \<tau> (mv_to_side m) (mv_to_name m) = Inr (Some f)" "holds_content w (Some f) (mv_sha m)"
      using movable_seen [OF reversed(1)] reversed(1) by (simp_all add: reverse_move_def holds_content_def movable_def)
    have go: "sure (standing \<tau> j x) (execute_move w (reverse_move m)) (\<lambda>_. standing \<sigma> j x)"
      using sure_execute [OF assms(1) reversed(1), of j x] by (simp add: reversed(2))
    show ?thesis unfolding undo_def
      by (rule sure_then [OF sure_evidence [OF assms(1) seen(1)]]) (use go seen(2) in \<open>auto simp: hoare_def\<close>)
  next
    case (2 a b f)
    have still: "holds_content w (Some f) (mv_sha m)" using 2(1) by (simp add: holds_content_def movable_def)
    have stay: "sure (standing \<sigma> j x) (seq (evidence_of w (mv_from_side m) (mv_from_name m)) (\<lambda>still.
         if holds_content w still (mv_sha m) then result () else refuse RollbackFailed)) (\<lambda>_. standing \<sigma> j x)"
      by (rule sure_then [OF sure_evidence [OF assms(1) movable_seen [OF 2(1)]]])
        (use still in \<open>auto simp: hoare_def result_def\<close>)
    show ?thesis unfolding undo_def 2(2)
      by (rule sure_then [OF sure_evidence [OF assms(1) movable_free [OF 2(1)]]])
        (use stay in \<open>auto simp: hoare_def holds_content_def\<close>)
  qed
qed

lemma sure_write:
  assumes "faultless w" "JOURNAL_SCHEMA k"
  shows "sure (standing \<sigma> j x) (write_journal w k) (\<lambda>_. standing \<sigma> j (Holds k))"
  using assms by (auto simp: hoare_def faultless_def write_journal_def seq_def fate_of_def modifies_def standing_def store_def)

lemma sure_advance:
  assumes "faultless w" "JOURNAL_SCHEMA j" "t \<in> set (ALLOWED_JOURNAL_TRANSITIONS (jl_state j))"
  shows "sure (standing \<sigma> j x) (advance_journal w t) (\<lambda>_. standing \<sigma> (j\<lparr>jl_state := t\<rparr>) (Holds (j\<lparr>jl_state := t\<rparr>)))"
  unfolding advance_journal_def
  by (rule hoare_learn [OF hoare_the_payload])
    (use assms in \<open>auto intro!: sure_then [OF sure_write] hoare_keep_payload\<close>)

lemma sure_undo_step:
  assumes "faultless w" "at_rest w m \<sigma> \<tau>"
  shows "sure (rolling \<tau>) (undo_step w m) (\<lambda>_. rolling \<sigma>)"
proof (rule hoare_rolling)
  fix j k :: journal
  assume j: "JOURNAL_SCHEMA j" "jl_state j = ROLLING_BACK" "jl_state k = ROLLING_BACK"
  let ?k = "j\<lparr>jl_applied_index := mv_index m\<rparr>"
  have written: "sure (standing \<sigma> ?k (Holds k)) (write_journal w ?k) (\<lambda>_. rolling \<sigma>)"
    by (rule hoare_weaken [OF sure_write [OF assms(1)]]) (use j in \<open>auto intro: rollingI\<close>)
  show "sure (standing \<tau> j (Holds k)) (undo_step w m) (\<lambda>_. rolling \<sigma>)"
    unfolding undo_step_def
    by (rule sure_then [OF sure_undo [OF assms]], rule hoare_learn [OF hoare_the_payload],
        rule sure_then [OF hoare_keep_payload], rule written)
qed

lemma sure_undo_chain:
  assumes "faultless w"
  shows "sure (\<lambda>d. \<exists>\<tau>. chain w ms \<sigma> \<tau> \<and> rolling \<tau> d) (each (undo_step w) (rev ms)) (\<lambda>_. rolling \<sigma>)"
proof (induction ms rule: rev_induct)
  case Nil
  show ?case by (auto simp: hoare_def result_def)
next
  case (snoc m ms)
  have step: "sure (\<lambda>d. \<exists>\<tau>. chain w (ms @ [m]) \<sigma> \<tau> \<and> rolling \<tau> d) (undo_step w m)
      (\<lambda>_ d. \<exists>\<tau>. chain w ms \<sigma> \<tau> \<and> rolling \<tau> d)"
  proof (rule hoare_any)
    fix \<tau>
    assume "chain w (ms @ [m]) \<sigma> \<tau>"
    then obtain \<rho> where "chain w ms \<sigma> \<rho>" "at_rest w m \<rho> \<tau>" by (auto simp: chain_snoc at_rest_def)
    then show "sure (rolling \<tau>) (undo_step w m) (\<lambda>_ d. \<exists>\<tau>. chain w ms \<sigma> \<tau> \<and> rolling \<tau> d)"
      by (intro hoare_weaken [OF sure_undo_step [OF assms]]) auto
  qed
  show ?case by simp (rule hoare_seq [OF step], rule snoc.IH)
qed

definition rested :: "application_world \<Rightarrow> move list \<Rightarrow> nat \<Rightarrow> store \<Rightarrow> store \<Rightarrow> bool" where
  "rested w ms n \<sigma> \<sigma>' = (n = 0 \<and> \<sigma>' = \<sigma> \<or> (\<exists>k \<tau>. n = Suc k \<and> k < length ms \<and> chain w (take k ms) \<sigma> \<tau>
     \<and> at_rest w (ms ! k) \<tau> \<sigma>'))"

lemma sure_undo_rested:
  assumes "faultless w" "rested w ms n \<sigma> \<tau>"
  shows "sure (rolling \<tau>) (each (undo_step w) (rev (take n ms))) (\<lambda>_. rolling \<sigma>)"
proof (cases n)
  case 0
  then show ?thesis using assms(2) by (auto simp: rested_def hoare_def result_def)
next
  case (Suc k)
  with assms(2) obtain \<rho> where r: "k < length ms" "chain w (take k ms) \<sigma> \<rho>" "at_rest w (ms ! k) \<rho> \<tau>"
    by (auto simp: rested_def)
  show ?thesis using r(1)
    by (simp add: Suc take_Suc_conv_app_nth)
      (rule hoare_seq [OF sure_undo_step [OF assms(1) r(3)]],
       rule hoare_pre [OF sure_undo_chain [OF assms(1)]], use r(2) in blast)
qed

lemma walk_dirs_prefixes:
  "walk_dirs c pre p = Open \<longleftrightarrow> (\<forall>n. 0 < n \<longrightarrow> n \<le> length p \<longrightarrow> c (pre @ take n p) = Some Dir)"
proof (induction p arbitrary: pre)
  case (Cons x p)
  have "(\<forall>n. 0 < n \<longrightarrow> n \<le> length (x # p) \<longrightarrow> c (pre @ take n (x # p)) = Some Dir)
      \<longleftrightarrow> c (pre @ [x]) = Some Dir \<and> (\<forall>n. 0 < n \<longrightarrow> n \<le> length p \<longrightarrow> c ((pre @ [x]) @ take n p) = Some Dir)" (is "?l = ?r")
  proof
    assume l: ?l
    show ?r using l [rule_format, of 1] l [rule_format, of "Suc _"] by auto
  next
    assume r: ?r
    show ?l
    proof (intro allI impI)
      fix n assume "0 < n" "n \<le> length (x # p)"
      then show "c (pre @ take n (x # p)) = Some Dir" using r by (cases n; cases "n - 1") auto
    qed
  qed
  then show ?case using Cons.IH [of "pre @ [x]"] by (auto split: option.splits node.splits)
qed simp

lemma sure_remove:
  assumes w: "faultless w" and R: "rooted R" and ok: "directories_ok R (ps @ [p])"
  shows "sure (standing (with_dirs (set (ps @ [p])) R, S) j x) (remove_directory w p) (\<lambda>_. standing (with_dirs (set ps) R, S) j x)"
proof -
  let ?\<sigma> = "(with_dirs (set (ps @ [p])) R, S)"
  have out: "outermost (ps @ [p])" "\<forall>q\<in>set (ps @ [p]). R q = None" by (rule directories_absent [OF ok])+
  have "walk_dirs (fst ?\<sigma>) [] (butlast p) = Open"
    unfolding walk_dirs_prefixes
  proof (intro allI impI)
    fix n assume n: "0 < n" "n \<le> length (butlast p)"
    then have "take n (butlast p) = take n p" by (simp add: take_butlast)
    moreover have "take n p \<in> set (ps @ [p]) \<or> R (take n p) = Some Dir"
      by (rule surveyed_prefix [OF ok]) (use n in auto)
    ultimately show "fst ?\<sigma> ([] @ take n (butlast p)) = Some Dir" by (auto simp: with_dirs_def)
  qed
  then have chain: "sure (standing ?\<sigma> j x) (open_chain w (butlast p)) (\<lambda>_. standing ?\<sigma> j x)"
    unfolding open_chain_def
    by (intro sure_syscall [OF w]) (auto simp: hoare_def seq_def reads_def result_def standing_def store_def)
  have drop: "sure (standing ?\<sigma> j x) (remove_directory w p) (\<lambda>_ _. True)"
    unfolding remove_directory_def
    by (rule sure_then [OF chain], rule sure_syscall [OF w])
      (auto simp: hoare_def seq_def reads_def result_def modifies_def standing_def store_def with_dirs_def)
  have "\<not> (\<exists>q. q \<noteq> [] \<and> butlast q = p \<and> fst ?\<sigma> q \<noteq> None)"
  proof
    assume "\<exists>q. q \<noteq> [] \<and> butlast q = p \<and> fst ?\<sigma> q \<noteq> None"
    then obtain q where q: "q \<noteq> []" "butlast q = p" "fst ?\<sigma> q \<noteq> None" by blast
    have p: "p \<noteq> []" "R p = None" using out by (auto simp: outermost_snoc)
    then have "R q = None" using R q(1,2) by (force simp: rooted_def)
    then have "q \<in> set (ps @ [p])" using q(3) by (simp add: with_dirs_def split: if_splits)
    moreover have "q \<noteq> p" using q(1,2) by (metis length_butlast diff_less length_greater_0_conv less_irrefl zero_less_one)
    ultimately show False using out(1) q(2) by (auto simp: outermost_snoc)
  qed
  moreover have "(fst ?\<sigma>)(p := None) = with_dirs (set ps) R"
    using out by (auto simp: with_dirs_def fun_eq_iff outermost_snoc)
  ultimately show ?thesis
    using hoare_remove [of ?\<sigma> j x w p] drop unfolding hoare_def by (fastforce split: sum.splits prod.splits)
qed

lemma directories_ok_snoc: "directories_ok R (ps @ [p]) \<Longrightarrow> directories_ok R ps"
  by (simp add: directories_ok_def)

lemma sure_remove_all:
  assumes "faultless w" "rooted R" "directories_ok R ps"
  shows "sure (standing (with_dirs (set ps) R, S) j x)
     (each (\<lambda>y. seq (checked (split_path y)) (remove_directory w)) (rev (map join_slash ps)))
     (\<lambda>_. standing (R, S) j x)"
  using assms(3)
proof (induction ps rule: rev_induct)
  case Nil
  have "with_dirs {} R = R" by (simp add: with_dirs_def)
  then show ?case by (simp add: hoare_def result_def)
next
  case (snoc p ps)
  have "split_path (join_slash p) = Inr p" using snoc.prems by (simp add: directories_ok_def split_join_path)
  then show ?case using snoc.IH [OF directories_ok_snoc [OF snoc.prems]]
    by simp (rule sure_then [OF sure_remove [OF assms(1,2) snoc.prems, simplified]])
qed

text \<open>
  What a stopped application left on disk when no rename was half way: every directory made, every
  recorded move made or still possible, the journal open.
\<close>

definition clean_stop :: "application_world \<Rightarrow> (string list \<Rightarrow> node option) \<Rightarrow> journal \<Rightarrow> disk \<Rightarrow> bool" where
  "clean_stop w R j d = (\<exists>ds S \<tau>. directories_ok R ds \<and> jl_directories j = map join_slash ds \<and> open_journal j
     \<and> rested w (jl_moves j) (jl_applied_index j) (with_dirs (set ds) R, S) \<tau>
     \<and> store d = \<tau> \<and> dk_slots d \<noteq> None \<and> dk_journal d = Holds j \<and> dk_holder d)"

lemma sure_rollback:
  assumes w: "faultless w" and R: "rooted R" and ok: "directories_ok R ds" and j: "open_journal j" "jl_directories j = map join_slash ds"
    and r: "rested w ms (jl_applied_index j) (with_dirs (set ds) R, S) \<tau>"
  shows "sure (standing \<tau> j x) (rollback w ms) (\<lambda>_. restored R)"
proof -
  let ?k = "j\<lparr>jl_state := ROLLING_BACK\<rparr>"
  have k: "JOURNAL_SCHEMA j" "jl_state j \<in> {REGISTERED, PREPARED, APPLYING}" using j(1) by (simp_all add: open_journal_def)
  have dirs: "sure (rolling (with_dirs (set ds) R, S)) (each (\<lambda>y. seq (checked (split_path y)) (remove_directory w)) (rev (map join_slash ds)))
      (\<lambda>_. rolling (R, S))"
    by (rule hoare_rolling, rule hoare_weaken [OF sure_remove_all [OF w R ok]]) (auto intro: rollingI)
  have everything: "sure (rolling \<tau>) (undo_everything w (take (jl_applied_index j) ms) (map join_slash ds)) (\<lambda>_. rolling (R, S))"
    unfolding undo_everything_def by (rule sure_then [OF sure_undo_rested [OF w r] dirs])
  have guarded: "sure (rolling \<tau>) (on_error (undo_everything w (take (jl_applied_index j) ms) (map join_slash ds)) (\<lambda>_. rollback_failed w))
      (\<lambda>_. rolling (R, S))"
    by (rule hoare_on_error [OF everything]) (auto simp: hoare_def)
  have finish: "sure (rolling (R, S)) (advance_journal w ROLLED_BACK) (\<lambda>_. restored R)"
    by (rule hoare_rolling, rule hoare_weaken [OF sure_advance [OF w]])
      (auto simp: ALLOWED_JOURNAL_TRANSITIONS_def restored_def standing_def store_def)
  have tail: "sure (standing \<tau> ?k (Holds ?k)) (seq the_payload (\<lambda>j.
       seq (on_error (undo_everything w (take (jl_applied_index j) ms) (jl_directories j)) (\<lambda>_. rollback_failed w)) (\<lambda>_.
       advance_journal w ROLLED_BACK))) (\<lambda>_. restored R)"
    by (rule hoare_learn [OF hoare_the_payload])
      (simp add: j(2), rule hoare_pre [OF sure_then [OF guarded finish]], use k in \<open>auto intro: rollingI\<close>)
  show ?thesis unfolding rollback_def
    by (rule sure_then [OF sure_advance [OF w] tail]) (use k in \<open>auto simp: ALLOWED_JOURNAL_TRANSITIONS_def\<close>)
qed

lemma sure_recover:
  assumes w: "faultless w" and R: "rooted R" and ids: "jl_application_id j = aid" "jl_repo_id j = repo_id"
  shows "sure (clean_stop w R j) (recover_work w repo_id aid) (\<lambda>r d. restored R d \<and> \<not> dk_holder d \<and> rc_rolled_back r)"
proof -
  let ?L = "\<lambda>\<tau> d. store d = \<tau> \<and> dk_slots d \<noteq> None \<and> dk_journal d = Holds j \<and> dk_holder d"
  let ?Q = "\<lambda>r d. restored R d \<and> \<not> dk_holder d \<and> rc_rolled_back r"
  have one: "sure (?L \<tau>) (recover_work w repo_id aid) ?Q"
    if d: "directories_ok R ds" "jl_directories j = map join_slash ds" "open_journal j"
      "rested w (jl_moves j) (jl_applied_index j) (with_dirs (set ds) R, S) \<tau>" for ds S \<tau>
  proof -
    have state: "JOURNAL_SCHEMA j" "jl_state j \<noteq> APPLIED" "jl_state j \<noteq> ROLLED_BACK" "jl_state j \<noteq> J_FAILED"
      using d(3) by (auto simp: open_journal_def)
    have L: "timeless (?L \<tau>)" by (simp add: timeless_def store_def)
    have read: "sure (?L \<tau>) (read_journal w) (\<lambda>k d. ?L \<tau> d \<and> k = j)"
      unfolding read_journal_def
      by (rule sure_handled [OF w L]) (auto simp: hoare_def seq_def reads_def result_def state(1))
    have slots: "sure (?L \<tau>) (open_recovery w) (\<lambda>_. ?L \<tau>)"
      unfolding open_recovery_def
      by (rule sure_syscall [OF w L]) (auto simp: hoare_def seq_def reads_def result_def)
    have payload: "sure (?L \<tau>) (keep_payload j) (\<lambda>_. standing \<tau> j (Holds j))"
      by (auto simp: hoare_def keep_payload_def modifies_def standing_def store_def)
    have removed: "sure (restored R) (seq (remove_holder w) (\<lambda>ok.
         if ok then result \<lparr>rc_application_id = aid, rc_state = ROLLED_BACK, rc_rolled_back = True\<rparr>
         else refuse ApplicationCleanupFailed)) ?Q"
      using w by (auto simp: hoare_def remove_holder_def seq_def fate_of_def modifies_def result_def restored_def faultless_def)
    have rest: "sure (\<lambda>d. ?L \<tau> d \<and> k = j) (if jl_application_id k \<noteq> aid \<or> jl_repo_id k \<noteq> repo_id then refuse ApplicationContainment
       else if jl_state k = APPLIED \<or> jl_state k = ROLLED_BACK
         then result \<lparr>rc_application_id = aid, rc_state = jl_state k, rc_rolled_back = False\<rparr>
       else seq (open_recovery w) (\<lambda>_.
         seq (keep_payload (if jl_state k = J_FAILED then k\<lparr>jl_state := APPLYING\<rparr> else k)) (\<lambda>_.
         seq (rollback w (jl_moves k)) (\<lambda>_. seq (remove_holder w) (\<lambda>ok.
         if ok then result \<lparr>rc_application_id = aid, rc_state = ROLLED_BACK, rc_rolled_back = True\<rparr>
         else refuse ApplicationCleanupFailed))))) ?Q" for k
    proof (cases "k = j")
      case True
      have "sure (?L \<tau>) (seq (open_recovery w) (\<lambda>_. seq (keep_payload j) (\<lambda>_.
         seq (rollback w (jl_moves j)) (\<lambda>_. seq (remove_holder w) (\<lambda>ok.
         if ok then result \<lparr>rc_application_id = aid, rc_state = ROLLED_BACK, rc_rolled_back = True\<rparr>
         else refuse ApplicationCleanupFailed))))) ?Q"
        by (rule sure_then [OF slots], rule sure_then [OF payload],
            rule sure_then [OF sure_rollback [OF w R d(1,3,2,4)] removed])
      then show ?thesis using True ids state by simp
    qed (simp add: hoare_def)
    show ?thesis unfolding recover_work_def
    proof (rule sure_then [where Q' = "\<lambda>h d. ?L \<tau> d \<and> h"])
      show "sure (?L \<tau>) (reads dk_holder) (\<lambda>h d. ?L \<tau> d \<and> h)" by (auto simp: hoare_def reads_def)
    qed (split if_split, intro conjI impI, simp add: hoare_def, rule hoare_pre [OF sure_then [OF read rest]], simp)
  qed
  show ?thesis
  proof (rule hoareI)
    fix d a d' assume "clean_stop w R j d" "recover_work w repo_id aid d = (Inr a, d')"
    then show "?Q a d'" unfolding clean_stop_def using hoare_InrD [OF one] by blast
  next
    fix d e d' assume "clean_stop w R j d" "recover_work w repo_id aid d = (Inl e, d')"
    then show False unfolding clean_stop_def using hoare_InlD [OF one] by blast
  qed
qed

section \<open>A rollback before its directories\<close>

text \<open>
  The journal names directories that are made only after staging. A rollback in between looks for
  the last of them, does not find it, and gives up over a checkout nothing has touched.
\<close>

lemma remove_absent:
  assumes "faultless w" "R p = None"
  shows "hoare (standing (R, S) j x) (remove_directory w p) (\<lambda>_ _. False) (\<lambda>_. standing (R, S) j x)"
  unfolding remove_directory_def
proof (rule hoare_then [OF hoare_open_chain])
  have "hoare (standing (R, S) j x) (seq (reads dk_repo) (\<lambda>c. case map_of c p of
         Some Dir \<Rightarrow> if has_child c p then result () else modifies (\<lambda>d. d\<lparr>dk_repo := drop_key p (dk_repo d)\<rparr>)
       | _ \<Rightarrow> refuse RollbackFailed)) (\<lambda>_ _. False) (\<lambda>_. standing (R, S) j x)"
    using assms(2) by (auto simp: hoare_def seq_def reads_def refuse_def halt_with_def standing_def store_def)
  then show "hoare (\<lambda>d. standing (R, S) j x d \<and> walk_dirs (fst (R, S)) [] (butlast p) = Open)
     (syscall w RollbackFailed (seq (reads dk_repo) (\<lambda>c. case map_of c p of
         Some Dir \<Rightarrow> if has_child c p then result () else modifies (\<lambda>d. d\<lparr>dk_repo := drop_key p (dk_repo d)\<rparr>)
       | _ \<Rightarrow> refuse RollbackFailed))) (\<lambda>_ _. False) (\<lambda>_. standing (R, S) j x)"
    by (rule hoare_pre [OF hoare_syscall]) auto
qed simp

lemma early_rollback:
  assumes w: "faultless w" and ds: "directories_ok R (ds @ [p])" and j: "unmoved ms (ds @ [p]) j"
  shows "hoare (standing (R, S) j x) (rollback w ms) (\<lambda>_ _. False)
     (\<lambda>e d. e = Raised RollbackFailed \<and> restored R d \<and> on_disk J_FAILED d)"
proof -
  let ?k = "j\<lparr>jl_state := ROLLING_BACK\<rparr>"
  let ?E = "\<lambda>e d. e = Raised RollbackFailed \<and> restored R d \<and> on_disk J_FAILED d"
  have k: "JOURNAL_SCHEMA j" "jl_state j \<in> {REGISTERED, PREPARED, APPLYING}" "jl_applied_index j = 0"
    "jl_directories j = map join_slash ds @ [join_slash p]" using j by (simp_all add: unmoved_def open_journal_def)
  have p: "split_path (join_slash p) = Inr p" "R p = None"
    using ds directories_absent(2) [OF ds] by (simp_all add: directories_ok_def split_join_path)
  have loop: "hoare (standing (R, S) ?k (Holds ?k)) (undo_everything w [] (map join_slash ds @ [join_slash p]))
      (\<lambda>_ _. False) (\<lambda>e d. standing (R, S) ?k (Holds ?k) d \<and> e \<noteq> Died)"
  proof -
    note absent = remove_absent [of w R p, OF w p(2)]
    have removed: "hoare (standing (R, S) ?k (Holds ?k)) (remove_directory w p) (\<lambda>_ _. False)
        (\<lambda>e d. standing (R, S) ?k (Holds ?k) d \<and> e \<noteq> Died)"
    proof (rule hoareI)
      fix d a d' assume "standing (R, S) ?k (Holds ?k) d" "remove_directory w p d = (Inr a, d')"
      then show False using hoare_InrD [OF absent] by blast
    next
      fix d e d' assume d: "standing (R, S) ?k (Holds ?k) d" "remove_directory w p d = (Inl e, d')"
      have "e \<noteq> Died"
        using d(2) w by (auto simp: remove_directory_def open_chain_def syscall_def seq_def fate_of_def reads_def faultless_def
            refuse_def halt_with_def result_def modifies_def split: if_splits option.splits node.splits)
      then show "standing (R, S) ?k (Holds ?k) d' \<and> e \<noteq> Died"
        using hoare_InlD [OF absent d(2) d(1)] by simp
    qed
    have "hoare (standing (R, S) ?k (Holds ?k))
        (each (\<lambda>y. seq (checked (split_path y)) (remove_directory w)) (rev (map join_slash ds @ [join_slash p])))
        (\<lambda>_ _. False) (\<lambda>e d. standing (R, S) ?k (Holds ?k) d \<and> e \<noteq> Died)"
      by (simp add: p(1)) (rule hoare_seq [OF removed], simp add: hoare_def)
    then show ?thesis unfolding undo_everything_def by (simp add: seq_def result_def [abs_def] hoare_def)
  qed
  have fail: "hoare (standing (R, S) ?k (Holds ?k)) (rollback_failed w) (\<lambda>_ _. False) ?E"
    unfolding rollback_failed_def
    by (rule hoare_learn [OF hoare_the_payload], rule hoare_then [OF sure_write [OF w]])
      (use k(1) in \<open>auto simp: hoare_def refuse_def halt_with_def restored_def on_disk_def standing_def store_def\<close>)
  have guarded: "hoare (standing (R, S) ?k (Holds ?k)) (on_error (undo_everything w [] (map join_slash ds @ [join_slash p])) (\<lambda>_. rollback_failed w))
      (\<lambda>_ _. False) ?E"
    by (rule hoare_on_error [OF loop]) (use fail in \<open>auto simp: hoare_def\<close>)
  have tail: "hoare (standing (R, S) ?k (Holds ?k)) (seq the_payload (\<lambda>j.
       seq (on_error (undo_everything w (take (jl_applied_index j) ms) (jl_directories j)) (\<lambda>_. rollback_failed w)) (\<lambda>_.
       advance_journal w ROLLED_BACK))) (\<lambda>_ _. False) ?E"
    by (rule hoare_learn [OF hoare_the_payload])
      (simp add: k(3,4), rule hoare_seq [OF guarded], simp add: hoare_def)
  show ?thesis unfolding rollback_def
    by (rule hoare_then [OF sure_advance [OF w] _ tail]) (use k in \<open>auto simp: ALLOWED_JOURNAL_TRANSITIONS_def\<close>)
qed

end
