(* ===== verification/Agent_Types.thy ===== *)
theory Agent_Types
  imports Agent_Rollback
begin

text \<open>
  The type of the disk, kept by every operation of an application and of a recovery whatever the
  operating system does: the checkout is a tree (every object lies in a directory), no name occurs
  twice, and a journal on disk satisfies its schema.
\<close>

definition well_typed :: "disk \<Rightarrow> bool" where
  "well_typed d = (distinct (map fst (dk_repo d)) \<and> rooted (map_of (dk_repo d))
     \<and> (\<forall>xs. dk_slots d = Some xs \<longrightarrow> distinct (map fst xs))
     \<and> (\<forall>j. dk_journal d = Holds j \<longrightarrow> JOURNAL_SCHEMA j))"

named_theorems keeps \<open>operations keep the type of the disk\<close>

abbreviation keeping :: "'a work \<Rightarrow> bool" where
  "keeping m \<equiv> hoare well_typed m (\<lambda>_. well_typed) (\<lambda>_. well_typed)"

lemma keepingD: "keeping m \<Longrightarrow> well_typed d \<Longrightarrow> well_typed (snd (m d))"
  by (cases "m d"; cases "fst (m d)") (fastforce simp: hoare_def)+

lemma timeless_typed [simp]: "timeless well_typed"
  by (simp add: timeless_def well_typed_def)

section \<open>Constructs\<close>

lemma keeping_result [keeps]: "keeping (result a)"
  by (simp add: hoare_def result_def)

lemma keeping_refuse [keeps]: "keeping (refuse e)"
  by (simp add: hoare_refuse)

lemma keeping_halt [keeps]: "keeping (halt_with e)"
  by (simp add: hoare_def halt_with_def)

lemma keeping_reads [keeps]: "keeping (reads f)"
  by (simp add: hoare_def reads_def)

lemma keeping_checked [keeps]: "keeping (checked x)"
  by (cases x) (auto simp: hoare_def checked_def yield_def result_def halt_with_def)

lemma keeping_halt_when [keeps]: "keeping (halt_when b e)"
  by (simp add: hoare_def halt_when_def result_def halt_with_def)

lemma keeping_seq [keeps]: "keeping m \<Longrightarrow> (\<And>a. keeping (f a)) \<Longrightarrow> keeping (seq m f)"
  by (rule hoare_seq)

lemma keeping_each: "(\<And>x. keeping (f x)) \<Longrightarrow> keeping (each f xs)"
  by (induction xs) (auto intro: keeps)

lemma keeping_fate [keeps]: "keeping (fate_of g)"
  by (auto simp: hoare_def fate_of_def well_typed_def)

lemma keeping_syscall [keeps]: "keeping m \<Longrightarrow> keeping (syscall w e m)"
  by (rule hoare_syscall) auto

lemma keeping_handled [keeps]: "keeping m \<Longrightarrow> keeping (handled w e m)"
  by (rule hoare_handled) auto

lemma keeping_on_error [keeps]: "keeping m \<Longrightarrow> (\<And>e. keeping (h e)) \<Longrightarrow> keeping (on_error m h)"
  by (rule hoare_on_error)

section \<open>Operations without a tree in them\<close>

lemma keeping_write [keeps]: "keeping (write_journal w j)"
proof (unfold hoare_def, intro allI impI)
  fix d assume "well_typed d"
  then show "case write_journal w j d of (Inl e, d') \<Rightarrow> well_typed d' | (Inr a, d') \<Rightarrow> well_typed d'"
    by (cases "JOURNAL_SCHEMA j"; cases "pw_write w (dk_tick d)")
      (simp_all add: write_journal_def seq_def fate_of_def refuse_def halt_with_def modifies_def well_typed_def)
qed

lemma keeping_payload [keeps]: "keeping (keep_payload j)" "keeping the_payload"
  by (auto simp: keep_payload_def the_payload_def hoare_def modifies_def well_typed_def seq_def reads_def refuse_def
      halt_with_def result_def split: option.splits)

lemma keeping_advance [keeps]: "keeping (advance_journal w s)"
  unfolding advance_journal_def by (auto intro!: keeps)

lemma keeping_read [keeps]: "keeping (read_journal w)"
  unfolding read_journal_def by (intro keeps) (auto intro!: keeps split: stored.splits)

lemma distinct_put: "distinct (map fst xs) \<Longrightarrow> distinct (map fst (put k v xs))"
  by (auto simp: put_def distinct_map intro: inj_on_subset)

lemma distinct_drop: "distinct (map fst xs) \<Longrightarrow> distinct (map fst (drop_key k xs))"
  by (auto simp: drop_key_def distinct_map intro: inj_on_subset)

lemma keeping_put_slot [keeps]: "keeping (put_slot n f)"
  by (auto simp: put_slot_def hoare_def modifies_def well_typed_def distinct_put)

lemma keeping_evidence [keeps]:
  "keeping (repo_evidence w p)" "keeping (tree_evidence w t p)" "keeping (slot_evidence w n)"
  unfolding repo_evidence_def tree_evidence_def slot_evidence_def by (intro keeps)+

lemma keeping_evidence_of [keeps]: "keeping (evidence_of w sd n)"
  unfolding evidence_of_def by (cases sd) (auto intro: keeps)

lemma keeping_open_chain [keeps]: "keeping (open_chain w p)"
  unfolding open_chain_def by (auto intro!: keeps)

lemma keeping_plan_change [keeps]: "keeping (plan_change w slot c p)"
  unfolding plan_change_def assert_baseline_def clean_equivalent_def Let_def
  by (intro keeps) (auto intro!: keeps split: option.splits sum.splits)

lemma keeping_plan [keeps]: "keeping (plan_from w slot cs p)"
  by (induction cs arbitrary: slot p) (auto intro: keeps)

lemma keeping_survey_one [keeps]: "keeping (survey_one w p sv)"
  unfolding survey_one_def Let_def by (auto intro!: keeps split: option.splits node.splits)

lemma keeping_survey [keeps]: "keeping (survey_all w ps sv)"
  by (induction ps arbitrary: sv) (auto intro: keeps)

lemma keeping_stage [keeps]: "keeping (stage_one w x)"
  unfolding stage_one_def create_slot_def write_slot_def
  by (auto intro!: keeps split: option.splits prod.splits)

lemma keeping_holder [keeps]: "keeping (make_holder w)" "keeping (remove_holder w)" "keeping (leave w e)"
proof -
  have made: "keeping (modifies (\<lambda>d. d\<lparr>dk_holder := True\<rparr>))"
    "keeping (modifies (\<lambda>d. d\<lparr>dk_holder := False, dk_journal := Missing, dk_slots := None\<rparr>))"
    by (auto simp: hoare_def modifies_def well_typed_def)
  show "keeping (make_holder w)" unfolding make_holder_def by (auto intro!: keeps made)
  show gone: "keeping (remove_holder w)" unfolding remove_holder_def by (auto intro!: keeps made split: fate.splits)
  show "keeping (leave w e)" unfolding leave_def by (intro keeps gone)
qed

section \<open>The tree\<close>

lemma walk_open_last: "walk_dirs c [] p = Open \<Longrightarrow> p = [] \<or> c p = Some Dir"
proof -
  have "walk_dirs c pre p = Open \<Longrightarrow> p = [] \<or> c (pre @ p) = Some Dir" for pre
  proof (induction c pre p rule: walk_dirs.induct)
    case (2 c pre n ns)
    then show ?case by (cases ns) (auto split: option.splits node.splits)
  qed simp
  from this [of "[]"] show "walk_dirs c [] p = Open \<Longrightarrow> p = [] \<or> c p = Some Dir" by simp
qed

lemma butlast_less: "q \<noteq> [] \<Longrightarrow> butlast q \<noteq> q"
  by (metis length_butlast diff_less length_greater_0_conv less_irrefl zero_less_one)

lemma rooted_add:
  assumes "rooted c" "c p = None" "butlast p = [] \<or> c (butlast p) = Some Dir"
  shows "rooted (c(p \<mapsto> x))"
  using assms unfolding rooted_def by (metis butlast_less fun_upd_apply option.distinct(1))

lemma rooted_remove:
  assumes "rooted c" "\<And>q. q \<noteq> [] \<Longrightarrow> butlast q = p \<Longrightarrow> p = [] \<or> c q = None"
  shows "rooted (c(p := None))"
  using assms unfolding rooted_def by (metis fun_upd_apply)

lemma rooted_remove_file: "rooted c \<Longrightarrow> c p \<noteq> Some Dir \<Longrightarrow> rooted (c(p := None))"
  by (rule rooted_remove) (auto simp: rooted_def)

fun anchored :: "place \<Rightarrow> disk \<Rightarrow> bool" where
  "anchored (In_Repo p) d = (walk_dirs (map_of (dk_repo d)) [] (butlast p) = Open)"
| "anchored (In_Hold n) d = True"

lemma timeless_anchored [simp]: "timeless (anchored a)"
  by (cases a) (simp_all add: timeless_def)

lemma typed_link:
  assumes "well_typed d" "anchored b d" "object_at b d = None"
  shows "well_typed (link_at b f d)"
proof (cases b)
  case (In_Repo p)
  with assms walk_open_last [of "map_of (dk_repo d)" "butlast p"] show ?thesis
    by (auto simp: well_typed_def distinct_put intro: rooted_add)
next
  case (In_Hold n)
  with assms show ?thesis by (auto simp: well_typed_def distinct_put)
qed

lemma typed_unlink: "well_typed d \<Longrightarrow> object_at a d \<noteq> Some Dir \<Longrightarrow> well_typed (unlink_at a d)"
  by (cases a) (auto simp: well_typed_def distinct_drop rooted_remove_file)

lemma not_dir_linked: "object_at a d = Some (File g) \<Longrightarrow> object_at b d = None \<Longrightarrow> object_at a (link_at b f d) \<noteq> Some Dir"
  by (cases a; cases b) auto

lemma hoare_open_anchor:
  "hoare well_typed (open_chain w p) (\<lambda>_ d. well_typed d \<and> walk_dirs (map_of (dk_repo d)) [] p = Open) (\<lambda>_. well_typed)"
  unfolding open_chain_def
  by (rule hoare_syscall) (auto simp: hoare_def seq_def reads_def result_def refuse_def halt_with_def)

lemma hoare_anchor:
  "hoare well_typed (endpoint w sd n) (\<lambda>a d. well_typed d \<and> anchored a d) (\<lambda>_. well_typed)"
proof (cases sd)
  case HOLD_SIDE
  then show ?thesis by (auto simp: endpoint_def hoare_def result_def refuse_def halt_with_def)
next
  case REPO_SIDE
  show ?thesis
  proof (cases "split_path n")
    case (Inl e)
    then show ?thesis by (simp add: REPO_SIDE endpoint_def hoare_refuse)
  next
    case (Inr parts)
    show ?thesis
      by (simp add: REPO_SIDE Inr endpoint_def) (rule hoare_seq [OF hoare_open_anchor], simp add: hoare_def result_def)
  qed
qed

lemma hoare_typed_rename:
  "hoare (\<lambda>d. well_typed d \<and> anchored b d) (rename_child w a b) (\<lambda>_. well_typed) (\<lambda>_. well_typed)"
  unfolding rename_child_def
proof (rule hoare_seq)
  show "hoare (\<lambda>d. well_typed d \<and> anchored b d)
     (syscall w ApplicationContainment (seq (reads (\<lambda>d. (object_at a d, object_at b d))) (\<lambda>(x, y).
       case x of Some (File f) \<Rightarrow> if y \<noteq> None then refuse ConcurrentMainChange else modifies (link_at b f)
       | _ \<Rightarrow> refuse ApplicationContainment))) (\<lambda>_ d. well_typed d \<and> object_at a d \<noteq> Some Dir) (\<lambda>_. well_typed)"
    by (rule hoare_syscall)
      (auto simp: hoare_def seq_def reads_def refuse_def halt_with_def modifies_def typed_link not_dir_linked
        split: option.splits node.splits)
  have obj: "timeless (\<lambda>d. object_at a d \<noteq> Some Dir)" by (cases a) (simp_all add: timeless_def)
  show "hoare (\<lambda>d. well_typed d \<and> object_at a d \<noteq> Some Dir) (syscall w ApplicationContainment (modifies (unlink_at a)))
      (\<lambda>_. well_typed) (\<lambda>_. well_typed)"
    by (rule hoare_syscall) (use obj in \<open>auto simp: hoare_def modifies_def typed_unlink\<close>)
qed

lemma keeping_execute [keeps]: "keeping (execute_move w m)"
  unfolding execute_move_def
proof (rule keeping_seq [OF keeping_evidence_of])
  fix ev
  have ends: "hoare well_typed (seq (endpoint w (mv_from_side m) (mv_from_name m)) (\<lambda>a.
           seq (endpoint w (mv_to_side m) (mv_to_name m)) (rename_child w a))) (\<lambda>_. well_typed) (\<lambda>_. well_typed)"
  proof (rule hoare_seq)
    show "keeping (endpoint w (mv_from_side m) (mv_from_name m))"
      by (rule hoare_weaken [OF hoare_anchor]) auto
    show "keeping (seq (endpoint w (mv_to_side m) (mv_to_name m)) (rename_child w a))" for a
      by (rule hoare_seq [OF hoare_anchor hoare_typed_rename])
  qed
  then show "keeping (case ev of None \<Rightarrow> refuse ConcurrentMainChange
     | Some f \<Rightarrow> if pw_sha w (fo_data f) \<noteq> mv_sha m then refuse ConcurrentMainChange
         else seq (endpoint w (mv_from_side m) (mv_from_name m)) (\<lambda>a.
           seq (endpoint w (mv_to_side m) (mv_to_name m)) (rename_child w a)))"
    by (cases ev) (auto intro: keeps)
qed

lemma keeping_undo [keeps]: "keeping (undo_step w m)"
  unfolding undo_step_def undo_def by (auto intro!: keeps)

lemma keeping_remove [keeps]: "keeping (remove_directory w p)"
proof -
  have "well_typed (d\<lparr>dk_repo := drop_key p (dk_repo d)\<rparr>)" if d: "well_typed d" "\<not> has_child (dk_repo d) p" for d
  proof -
    have "map_of (dk_repo d) q = None" if q: "q \<noteq> []" "butlast q = p" for q
    proof (rule ccontr)
      assume "map_of (dk_repo d) q \<noteq> None"
      then obtain y where "(q, y) \<in> set (dk_repo d)" using map_of_SomeD by force
      with q d(2) show False by (auto simp: has_child_def list_ex_iff)
    qed
    with d(1) show ?thesis by (auto simp: well_typed_def distinct_drop intro!: rooted_remove)
  qed
  then have "keeping (seq (reads dk_repo) (\<lambda>c. case map_of c p of
         Some Dir \<Rightarrow> if has_child c p then result () else modifies (\<lambda>d. d\<lparr>dk_repo := drop_key p (dk_repo d)\<rparr>)
       | _ \<Rightarrow> refuse RollbackFailed))"
    by (auto simp: hoare_def seq_def reads_def result_def refuse_def halt_with_def modifies_def split: option.splits node.splits)
  then show ?thesis unfolding remove_directory_def by (intro keeping_seq [OF keeping_open_chain] keeping_syscall)
qed

lemma keeping_rollback [keeps]: "keeping (rollback w ms)"
  unfolding rollback_def undo_everything_def rollback_failed_def
  by (intro keeps keeping_each)

text \<open>A chain of directories is made from its outermost.\<close>

lemma hoare_typed_directory:
  assumes "p \<noteq> []"
  shows "hoare (\<lambda>d. well_typed d \<and> (butlast p = [] \<or> map_of (dk_repo d) (butlast p) = Some Dir)) (make_directory w p)
     (\<lambda>_ d. well_typed d \<and> map_of (dk_repo d) p = Some Dir) (\<lambda>_. well_typed)"
  unfolding make_directory_def
proof (rule hoare_syscall)
  have child: "hoare (\<lambda>d. well_typed d \<and> map_of (dk_repo d) p = Some Dir) (syscall w ApplicationContainment (result ()))
     (\<lambda>_ d. well_typed d \<and> map_of (dk_repo d) p = Some Dir) (\<lambda>_. well_typed)"
    by (rule hoare_syscall) (auto simp: hoare_def result_def timeless_def well_typed_def)
  have new: "well_typed (d\<lparr>dk_repo := put p Dir (dk_repo d)\<rparr>)"
    if "well_typed d" "butlast p = [] \<or> map_of (dk_repo d) (butlast p) = Some Dir" "map_of (dk_repo d) p = None" for d
    using that by (auto simp: well_typed_def distinct_put intro: rooted_add)
  have step: "case syscall w ApplicationContainment (result ()) d of (Inl e, d') \<Rightarrow> well_typed d'
      | (Inr a, d') \<Rightarrow> well_typed d' \<and> map_of (dk_repo d') p = Some Dir"
    if "well_typed d" "map_of (dk_repo d) p = Some Dir" for d
    using child that unfolding hoare_def by auto
  show "hoare (\<lambda>d. well_typed d \<and> (butlast p = [] \<or> map_of (dk_repo d) (butlast p) = Some Dir))
     (seq (reads (\<lambda>d. map_of (dk_repo d) p)) (\<lambda>x. case x of Some Dir \<Rightarrow> result () | Some _ \<Rightarrow> refuse ApplicationContainment
      | None \<Rightarrow> seq (modifies (\<lambda>d. d\<lparr>dk_repo := put p Dir (dk_repo d)\<rparr>)) (\<lambda>_. syscall w ApplicationContainment (result ()))))
     (\<lambda>_ d. well_typed d \<and> map_of (dk_repo d) p = Some Dir) (\<lambda>_. well_typed)"
  proof (unfold hoare_def, intro allI impI)
    fix d assume d: "well_typed d \<and> (butlast p = [] \<or> map_of (dk_repo d) (butlast p) = Some Dir)"
    show "case seq (reads (\<lambda>d. map_of (dk_repo d) p)) (\<lambda>x. case x of Some Dir \<Rightarrow> result () | Some _ \<Rightarrow> refuse ApplicationContainment
      | None \<Rightarrow> seq (modifies (\<lambda>d. d\<lparr>dk_repo := put p Dir (dk_repo d)\<rparr>)) (\<lambda>_. syscall w ApplicationContainment (result ()))) d
      of (Inl e, d') \<Rightarrow> well_typed d' | (Inr a, d') \<Rightarrow> well_typed d' \<and> map_of (dk_repo d') p = Some Dir"
    proof (cases "map_of (dk_repo d) p")
      case None
      have "map_of (dk_repo (d\<lparr>dk_repo := put p Dir (dk_repo d)\<rparr>)) p = Some Dir" by simp
      from step [OF new this] d None show ?thesis by (simp add: seq_def reads_def modifies_def)
    next
      case (Some x)
      with d show ?thesis by (cases x) (simp_all add: seq_def reads_def result_def refuse_def halt_with_def)
    qed
  qed
qed (auto simp: timeless_def well_typed_def)

lemma keeping_make_chain [keeps]: "keeping (make_chain w p)"
proof -
  let ?ns = "[1..<Suc (length p)]"
  let ?I = "\<lambda>n d. well_typed d \<and> (n = 0 \<or> map_of (dk_repo d) (take n p) = Some Dir)"
  have "hoare (?I n) (make_directory w (take (?ns ! n) p)) (\<lambda>_. ?I (Suc n)) (\<lambda>_. well_typed)" if n: "n < length ?ns" for n
  proof -
    have at: "?ns ! n = Suc n" "n < length p" using n by (simp_all del: upt_Suc)
    have "take (Suc n) p \<noteq> []" "butlast (take (Suc n) p) = take n p" using at(2) by (auto simp: take_Suc_conv_app_nth)
    then show ?thesis unfolding at
      by (intro hoare_weaken [OF hoare_typed_directory]) auto
  qed
  from hoare_each [of ?ns ?I, OF this] show ?thesis
    unfolding make_chain_def by (rule hoare_weaken) auto
qed

section \<open>The whole\<close>

lemma keeping_begin [keeps]: "keeping (begin_application w a c)"
proof -
  have "keeping (modifies (\<lambda>d. d\<lparr>dk_slots := Some []\<rparr>))" by (auto simp: hoare_def modifies_def well_typed_def)
  then have "keeping (register w j)" for j unfolding register_def by (auto intro!: keeps)
  then show ?thesis
    unfolding begin_application_def plan_moves_def missing_directories_def open_slots_def by (intro keeps)
qed

lemma keeping_apply_work [keeps]: "keeping (apply_work w cf a c f)"
proof -
  have "keeping (move_all w p ds)" for p ds
    unfolding move_all_def move_step_def by (intro keeps keeping_each)
  moreover have "keeping (verify_work w cf a c f before)" for before
    unfolding verify_work_def by (intro keeps) (auto intro: keeps split: option.splits)
  ultimately show ?thesis
    unfolding apply_work_def prod.case_eq_if by (intro keeps) (auto intro: keeps)
qed

lemma keeping_apply: "keeping (apply_accepted_candidate w cf a v rp rec)"
  unfolding apply_accepted_candidate_def prod.case_eq_if by (intro keeps)

lemma keeping_recover: "keeping (recover_work w repo_id aid)"
  unfolding recover_work_def open_recovery_def by (auto intro!: keeps)

end
