(* ===== verification/Application_Properties.thy ===== *)
theory Application_Properties
  imports Agent_Recovery Agent_Types
begin

text \<open>
  The properties of applying an accepted candidate, each with a concrete application on which its
  hypotheses hold: three changes, one new directory, an operating system whose calls can be made to
  fail or to kill the process at a tick.
\<close>

section \<open>A concrete application\<close>

definition yard_hash :: "string \<Rightarrow> string" where
  "yard_hash x = replicate 64 (if x = ''new'' then CHR ''b'' else CHR ''a'')"

definition yard_file :: "string \<Rightarrow> node" where
  "yard_file x = File \<lparr>fo_mode = ''0o644'', fo_data = x\<rparr>"

definition yard_changes :: "change list" where
  "yard_changes = [\<lparr>path = ''src/a.py'', kind = MODIFIED, mode = ''0o644'', sha256 = yard_hash ''new''\<rparr>,
     \<lparr>path = ''lib/b.py'', kind = ADDED, mode = ''0o644'', sha256 = yard_hash ''new''\<rparr>,
     \<lparr>path = ''src/c.py'', kind = DELETED, mode = ''0o644'', sha256 = []\<rparr>]"

definition yard_candidate :: candidate where
  "yard_candidate = \<lparr>cd_run_id = ''kosu-1'', cd_workspace_id = replicate 32 (CHR ''a''),
     cd_baseline_sha = replicate 40 (CHR ''a''), cd_changed_files = map path yard_changes, cd_added = 1,
     cd_modified = 1, cd_deleted = 1, cd_fingerprint = yard_hash [], cd_task_digest = yard_hash [],
     cd_commands = [], cd_changes = yard_changes\<rparr>"

definition yard_disk :: disk where
  "yard_disk = \<lparr>dk_repo = [([''src''], Dir), ([''src'', ''a.py''], yard_file ''old''), ([''src'', ''c.py''], yard_file ''old'')],
     dk_holder = False, dk_journal = Missing, dk_slots = None, dk_payload = None, dk_tick = 0\<rparr>"

definition yard_moment :: moment where
  "yard_moment = \<lparr>m_task = None, m_files = \<lparr>state_json = Missing, binding_json = Missing, backup_json = Missing\<rparr>,
     m_workspace = Inr (), m_reference = ScanFault, m_implementer = ScanFault, m_main = Scanned ''main'' [] ''m0''\<rparr>"

definition yard_world :: "(nat \<Rightarrow> fate) \<Rightarrow> application_world" where
  "yard_world f = \<lparr>pw_fate = f, pw_write = (\<lambda>_. Works), pw_sha = yard_hash, pw_clean = (\<lambda>_ _ _. Inr False),
     pw_reference = dk_repo yard_disk,
     pw_implementer = [([''src''], Dir), ([''src'', ''a.py''], yard_file ''new''), ([''lib''], Dir), ([''lib'', ''b.py''], yard_file ''new'')],
     pw_holder = ''/w/.apply/h'', pw_roots = [''/w/repo''], pw_gate = yard_moment, pw_before = yard_moment,
     pw_after = yard_moment, pw_created_at = ''2024-01-01T00:00:00Z''\<rparr>"

definition yard_id :: application_id where
  "yard_id = \<lparr>ai_application_id = replicate 32 (CHR ''a''), ai_identity = \<lparr>i_repo_id = replicate 32 (CHR ''a''),
     i_manifest_digest = yard_hash [], i_run_id = ''kosu-1'', i_workspace_id = replicate 32 (CHR ''a''),
     i_baseline_sha = replicate 40 (CHR ''a'')\<rparr>\<rparr>"

definition yard_task :: task_file where
  "yard_task = \<lparr>tf_regular = True, tf_readable = True, tf_digest = yard_hash [], tf_relative = None,
     tf_task = \<lparr>t_protocol_version = ''1.0'', objective = ''x'', t_baseline_sha = replicate 40 (CHR ''a''),
     allowed_paths = [''src''], forbidden_paths = [], acceptance_commands = [],
     acceptance_criteria = [], max_implementation_rounds = 1, max_repair_rounds = 1,
     max_wall_clock_minutes = 60, max_budget_usd = Finite 5, max_output_bytes = 4096,
     model_call_timeout_seconds = None, leak_command_id = leak_scan, leak_max_hard_findings = 0,
     dirty_tree_allowlist = [], implementer_model = None, evaluator_model = None\<rparr>\<rparr>"

definition yard_run :: "(nat \<Rightarrow> fate) \<Rightarrow> (app_exit + application_report) \<times> disk" where
  "yard_run f = apply_work (yard_world f) id yard_id yard_candidate yard_task yard_disk"

definition kill_at :: "nat \<Rightarrow> nat \<Rightarrow> fate" where
  "kill_at n k = (if k = n then Dies else Works)"

lemma yard_writable [simp]: "writable (yard_world f)"
  by (simp add: writable_def yard_world_def)

lemma yard_sha [simp]: "pw_sha (yard_world f) = yard_hash"
  by (simp add: yard_world_def)

lemma yard_rooted: "rooted (map_of (dk_repo yard_disk))"
  by (auto simp: rooted_def yard_disk_def split: if_splits)

lemma yard_files: "distinct_files (cd_changes yard_candidate)"
  by code_simp

lemma yard_fresh: "fresh (map_of (dk_repo yard_disk)) yard_disk"
  by (simp add: fresh_def yard_disk_def)

text \<open>The process dies between two moves, the third of four not begun.\<close>

lemma yard_crash: "fst (yard_run (kill_at 37)) = Inl Died \<and> dk_holder (snd (yard_run (kill_at 37)))
   \<and> dk_slots (snd (yard_run (kill_at 37))) \<noteq> None
   \<and> (case dk_journal (snd (yard_run (kill_at 37))) of Holds j \<Rightarrow> jl_state j = APPLYING \<and> jl_applied_index j = 3 | _ \<Rightarrow> False)"
  by code_simp

lemma yard_in_flight: "in_flight (snd (yard_run (kill_at 37)))"
  using yard_crash by (auto simp: in_flight_def on_disk_def split: stored.splits)

text \<open>It dies in the rollback that a failed verification started.\<close>

lemma yard_rolling: "case dk_journal (snd (yard_run (kill_at 50))) of Holds j \<Rightarrow> jl_state j = ROLLING_BACK | _ \<Rightarrow> False"
  by code_simp

section \<open>Properties\<close>



text \<open>C4: A crash does not cost the checkout. When an application died with its holder, its slots and
  an open journal on disk, a recovery by a later process that returns has taken the checkout back
  exactly as it was. One that raises or dies, whatever calls of the operating system fail in it, leaves
  the checkout as it was before the application, or what the next recovery can take back, or a record
  on disk: RollbackFailed over a journal that says the rollback failed, or, when the process died or a
  write of the journal raised, a journal that says the rollback did not end.\<close>

theorem crash_is_taken_back:
  assumes "rooted (map_of (dk_repo d))" "fresh (map_of (dk_repo d)) d" "distinct_files (cd_changes c)"
    and "apply_work w cf a c f d = (Inl Died, d')" "in_flight d'"
    and "pw_sha w' = pw_sha w" "recover_work w' repo_id aid (restart d') = (x, d'')"
  shows "case x of Inr rep \<Rightarrow> map_of (dk_repo d'') = map_of (dk_repo d) \<and> rc_rolled_back rep
    | Inl e \<Rightarrow> map_of (dk_repo d'') = map_of (dk_repo d) \<or> recoverable w' (map_of (dk_repo d)) d''
        \<or> (e = Raised RollbackFailed \<and> on_disk J_FAILED d'') \<or> (e = Died \<and> on_disk ROLLING_BACK d'')
        \<or> e \<noteq> Died \<and> \<not> writable w' \<and> (on_disk ROLLING_BACK d'' \<or> on_disk J_FAILED d'')"
proof -
  have "halted_by w (cd_changes c) (map_of (dk_repo d)) Died d'"
    by (rule hoare_InlD [OF hoare_apply_work [OF assms(1,3)] assms(4,2)])
  then have "recoverable w (map_of (dk_repo d)) d'" using assms(5) by (simp add: halted_by_def crashed_recoverable)
  then have left: "recoverable w' (map_of (dk_repo d)) (restart d')" using assms(6) by (simp add: recoverable_sha [of w w'])
  note work = hoare_recoverable [OF assms(1)]
  show ?thesis
  proof (cases x)
    case (Inr rep)
    with hoare_InrD [OF work _ left] assms(7) show ?thesis by (auto simp: idle_def restored_def)
  next
    case (Inl e)
    with hoare_InlD [OF work _ left] assms(7) have "unfinished w' (map_of (dk_repo d)) e d''" by simp
    then show ?thesis by (auto simp: Inl unfinished_def restored_def stopped_def gave_up_def)
  qed
qed

lemma crash_is_taken_back_witness:
  "map_of (dk_repo (snd (recover_work (yard_world (\<lambda>_. Works)) (replicate 32 (CHR ''a'')) (replicate 32 (CHR ''a''))
     (restart (snd (yard_run (kill_at 37))))))) = map_of (dk_repo yard_disk)"
proof -
  let ?d = "snd (yard_run (kill_at 37))"
  let ?r = "recover_work (yard_world (\<lambda>_. Works)) (replicate 32 (CHR ''a'')) (replicate 32 (CHR ''a'')) (restart ?d)"
  have run: "apply_work (yard_world (kill_at 37)) id yard_id yard_candidate yard_task yard_disk = (Inl Died, ?d)"
    using yard_crash by (metis prod.collapse yard_run_def)
  have ok: "isl (fst ?r) = False" by code_simp
  have rec: "?r = (fst ?r, snd ?r)" by simp
  show ?thesis
    using crash_is_taken_back [OF yard_rooted yard_fresh yard_files run yard_in_flight _ rec] ok
    by (cases "fst ?r") simp_all
qed

text \<open>C8: Recovery makes progress. An application that stopped with every directory made and every
  recorded move made or still possible is taken back by the next recovery that names it, when the
  operating system works: it returns, the checkout is as it was and the holder is gone.\<close>

theorem recovery_makes_progress:
  assumes "faultless w" "rooted R" "clean_stop w R j d"
  shows "\<exists>rep d'. recover_work w (jl_repo_id j) (jl_application_id j) d = (Inr rep, d')
    \<and> rc_rolled_back rep \<and> map_of (dk_repo d') = R \<and> \<not> dk_holder d'"
proof -
  note work = sure_recover [OF assms(1,2) refl refl, of j]
  obtain x d' where r: "recover_work w (jl_repo_id j) (jl_application_id j) d = (x, d')" by fastforce
  show ?thesis
  proof (cases x)
    case (Inr rep)
    with hoare_InrD [OF work _ assms(3)] r show ?thesis by (auto simp: restored_def)
  next
    case (Inl e)
    with hoare_InlD [OF work _ assms(3)] r show ?thesis by blast
  qed
qed

text \<open>The disk after the first move, the second about to be recorded.\<close>

definition yard_journal :: journal where
  "yard_journal = (first_journal (yard_world (\<lambda>_. Works)) yard_id yard_candidate
     [take_out (yard_world (\<lambda>_. Works)) 0 0 (hd yard_changes) \<lparr>fo_mode = ''0o644'', fo_data = ''old''\<rparr>] [[''lib'']])
     \<lparr>jl_state := APPLYING, jl_applied_index := 1\<rparr>"

definition yard_stopped :: disk where
  "yard_stopped = \<lparr>dk_repo = [([''lib''], Dir), ([''src''], Dir), ([''src'', ''c.py''], yard_file ''old'')],
     dk_holder = True, dk_journal = Holds yard_journal,
     dk_slots = Some [(''b0000'', \<lparr>fo_mode = ''0o644'', fo_data = ''old''\<rparr>)], dk_payload = None, dk_tick = 0\<rparr>"

lemma yard_clean: "clean_stop (yard_world (\<lambda>_. Works)) (map_of (dk_repo yard_disk)) yard_journal yard_stopped"
proof -
  let ?w = "yard_world (\<lambda>_. Works)" and ?R = "map_of (dk_repo yard_disk)" and ?f = "\<lparr>fo_mode = ''0o644'', fo_data = ''old''\<rparr>"
  let ?\<sigma> = "(with_dirs (set [[''lib'']]) ?R, Map.empty) :: store"
  let ?m = "take_out ?w 0 0 (hd yard_changes) ?f"
  have ends: "source ?m = Some (In_Repo [''src'', ''a.py''])" "target ?m = Some (In_Hold ''b0000'')" by code_simp+
  have move: "movable ?w ?m ?\<sigma> (In_Repo [''src'', ''a.py'']) (In_Hold ''b0000'') ?f"
    unfolding movable_def ends
    by (simp add: take_out_def with_dirs_def yard_disk_def yard_file_def max_content_file_bytes_def)
  have after_move: "store yard_stopped = unlinked (In_Repo [''src'', ''a.py'']) (linked (In_Hold ''b0000'') ?f ?\<sigma>)"
    by (auto simp: store_def yard_stopped_def slot_lookup_def with_dirs_def yard_disk_def fun_eq_iff)
  have moves: "jl_moves yard_journal = [?m]" "jl_directories yard_journal = map join_slash [[''lib'']]" "jl_applied_index yard_journal = 1"
    by (simp_all add: yard_journal_def first_journal_def)
  have "carried ?w ?m ?\<sigma> (store yard_stopped)" unfolding after_move by (rule carriedI [OF move])
  then have rested: "rested ?w (jl_moves yard_journal) (jl_applied_index yard_journal) ?\<sigma> (store yard_stopped)"
    by (simp add: rested_def moves at_rest_def)
  have "JOURNAL_SCHEMA yard_journal" "jl_state yard_journal = APPLYING" by code_simp+
  then have journal: "open_journal yard_journal" by (simp add: open_journal_def)
  have dirs: "directories_ok ?R [[''lib'']]"
    by (auto simp: directories_ok_def canonical_def yard_disk_def)
  show ?thesis unfolding clean_stop_def
    by (intro exI [of _ "[[''lib'']]"] exI [of _ Map.empty] exI [of _ "store yard_stopped"] conjI dirs moves(2) journal rested)
      (simp_all add: yard_stopped_def)
qed

lemma recovery_makes_progress_witness:
  "\<exists>rep d'. recover_work (yard_world (\<lambda>_. Works)) (jl_repo_id yard_journal) (jl_application_id yard_journal) yard_stopped
     = (Inr rep, d') \<and> rc_rolled_back rep \<and> map_of (dk_repo d') = map_of (dk_repo yard_disk) \<and> \<not> dk_holder d'"
  by (rule recovery_makes_progress [OF _ yard_rooted yard_clean]) (simp add: faultless_def yard_world_def)

text \<open>An interrupted rollback is never finished. A journal on disk in the state of a rollback is
  refused by every recovery, which leaves the checkout, the slots and the journal as they are: the
  transition table has no step from a rollback into a rollback.\<close>

theorem interrupted_rollback_is_refused:
  assumes "dk_journal d = Holds j" "jl_state j = ROLLING_BACK" "recover_work w repo_id aid d = (x, d')"
  shows "(\<exists>e. x = Inl e) \<and> dk_repo d' = dk_repo d \<and> dk_slots d' = dk_slots d \<and> dk_journal d' = dk_journal d"
  using rolling_back_refused [OF _ assms(3)] assms(1,2) by (simp add: on_disk_def)

lemma interrupted_rollback_is_refused_witness:
  "\<exists>e. fst (recover_work (yard_world (\<lambda>_. Works)) (replicate 32 (CHR ''a'')) (replicate 32 (CHR ''a''))
     (snd (yard_run (kill_at 50)))) = Inl e"
proof -
  obtain j where "dk_journal (snd (yard_run (kill_at 50))) = Holds j" "jl_state j = ROLLING_BACK"
    using yard_rolling by (auto split: stored.splits)
  from interrupted_rollback_is_refused [OF this prod.collapse [symmetric]] show ?thesis by blast
qed

text \<open>A rollback before its directories gives up. Between the journal that names new directories
  and their creation, a rollback on a working operating system ends with RollbackFailed and a failed
  journal, although nothing in the checkout was touched.\<close>

theorem early_rollback_gives_up:
  assumes "faultless w" "directories_ok R (ds @ [p])" "unmoved ms (ds @ [p]) j" "standing (R, S) j k d"
  shows "\<exists>d'. rollback w ms d = (Inl (Raised RollbackFailed), d') \<and> map_of (dk_repo d') = R \<and> on_disk J_FAILED d'"
proof -
  note work = early_rollback [OF assms(1-3), of S k]
  obtain x d' where r: "rollback w ms d = (x, d')" by fastforce
  show ?thesis
  proof (cases x)
    case (Inr rep)
    with hoare_InrD [OF work _ assms(4)] r show ?thesis by blast
  next
    case (Inl e)
    with hoare_InlD [OF work _ assms(4)] r show ?thesis by (auto simp: restored_def)
  qed
qed

definition yard_staging :: disk where
  "yard_staging = yard_disk\<lparr>dk_holder := True, dk_slots := Some [], dk_payload := Some (yard_journal\<lparr>jl_state := REGISTERED, jl_applied_index := 0\<rparr>)\<rparr>"

lemma early_rollback_gives_up_witness:
  "\<exists>d'. rollback (yard_world (\<lambda>_. Works)) (jl_moves yard_journal) yard_staging = (Inl (Raised RollbackFailed), d')
     \<and> map_of (dk_repo d') = map_of (dk_repo yard_disk) \<and> on_disk J_FAILED d'"
proof (rule early_rollback_gives_up)
  let ?j = "yard_journal\<lparr>jl_state := REGISTERED, jl_applied_index := 0\<rparr>"
  show "faultless (yard_world (\<lambda>_. Works))" by (simp add: faultless_def yard_world_def)
  show "directories_ok (map_of (dk_repo yard_disk)) ([] @ [[''lib'']])"
    by (auto simp: directories_ok_def canonical_def yard_disk_def)
  have "JOURNAL_SCHEMA yard_journal" by code_simp
  then have "JOURNAL_SCHEMA ?j" by simp
  moreover have "jl_directories yard_journal = map join_slash [[''lib'']]"
    by (simp add: yard_journal_def first_journal_def)
  ultimately show "unmoved (jl_moves yard_journal) ([] @ [[''lib'']]) ?j"
    by (simp add: unmoved_def open_journal_def)
  show "standing (map_of (dk_repo yard_disk), Map.empty) ?j Missing yard_staging"
    by (auto simp: standing_def store_def yard_staging_def yard_disk_def slot_lookup_def)
qed

text \<open>C9: The disk keeps its type. An application and a recovery, however they end, keep the checkout
  a tree of distinct names in which every object lies in a directory, the slots distinct, and every
  journal on disk valid under its schema.\<close>

theorem disk_stays_well_typed:
  assumes "well_typed d"
  shows "well_typed (snd (apply_accepted_candidate w cf a v rp rec d)) \<and> well_typed (snd (recover_work w' repo_id aid d))"
  by (simp add: keepingD [OF keeping_apply assms] keepingD [OF keeping_recover assms])

lemma disk_stays_well_typed_witness:
  "well_typed (snd (recover_work (yard_world (\<lambda>_. Works)) [] [] yard_disk))"
  using disk_stays_well_typed [of yard_disk] yard_rooted by (simp add: well_typed_def yard_disk_def)

end
