(* ===== verification/Agent_Properties.thy ===== *)
theory Agent_Properties
  imports Agent_Samples Application_Properties
begin

text \<open>
  What is proved of the agent loop, each property with a witness at a concrete input: the run as
  a whole first, then the gates it rests on.
\<close>

section \<open>The run\<close>

text \<open>C5: an approved run passed every gate. Its last acceptance was green and its last evaluator
  reply an approval; the application asked every binding again, derived the candidate afresh from
  the disk, found only changes the manifest authorises (at least one), the set the last verified
  call returned, named by a passed report and by the passed receipt on disk, and then moved it;
  the files the run reports are those of that application.
\<close>

theorem approved_run_passed_every_gate:
  assumes run: "execute pf w rec = Returned res r" and approved: "rr_state res = APPROVED"
  shows "rn_acceptance_passed r \<and> approving r \<and> rr_stop_reason res = COMPLETED \<and> (\<exists>aw a v rp c f d d' rep.
       derive_candidate_changes (pf_fold pf) (pf_sha pf) (rn_identity r) (pw_gate aw) = Inr c
     \<and> bind_task (rn_identity r) (pw_gate aw) = Inr f \<and> authorized (pf_fold pf) f (cd_changes c) = Inr ()
     \<and> cd_changes c \<noteq> [] \<and> assert_candidate (rn_identity r) v c = None
     \<and> assert_report (pf_fold pf) (pf_sha pf) (rn_identity r) rp c
     \<and> assert_receipt (pf_fold pf) (pf_sha pf) (rn_identity r) rp c (rn_receipt r)
     \<and> rn_checkout r = Some (d, d') \<and> apply_work aw (pf_fold pf) a c f d = (Inr rep, d')
     \<and> rn_applied_files r = ar_applied_files rep)"
proof -
  have ends: "cleared pf r \<and> rr_stop_reason res = COMPLETED"
    using run approved by (cases rule: returned_cases) (auto simp: plain_stop_def TERMINAL_STATES_def)
  then obtain rep aw a v rp d d' where at: "rn_checkout r = Some (d, d')" "pw_sha aw = pf_sha pf"
    "ai_identity a = rn_identity r" "rn_applied_files r = ar_applied_files rep" and
    moved: "apply_accepted_candidate aw (pf_fold pf) a v rp (rn_receipt r) d = (Inr rep, d')"
    by (auto simp: cleared_def moved_def applied_by_def)
  obtain f c where fc: "application_gates (pf_fold pf) (pw_sha aw) (ai_identity a) (pw_gate aw) (pw_before aw) v rp (rn_receipt r) = Inr (f, c)"
    "apply_work aw (pf_fold pf) a c f d = (Inr rep, d')"
    using apply_accepted_InrD [OF moved] by blast
  show ?thesis
    using application_gates_InrD [OF fc(1)] fc(2) at ends unfolding cleared_def by metis
qed

text \<open>A run that is approved.\<close>

theorem approved_run_passed_every_gate_witness:
  "\<exists>res r. execute sample_platform sample_world None = Returned res r \<and> rr_state res = APPROVED
     \<and> rn_acceptance_passed r \<and> approving r"
  using approved_run_passed_every_gate [OF sample_execute] sample_execute
  by (auto simp: sample_result_def result_of_def)

text \<open>C6: the run's calls follow its script. However it ends, every phase passed made its one call
  and no other, in the order of the phases; the application is called only after an audit's call.
  So a run that returns made at most one implementation, one repair, two acceptance runs, two
  evaluations and one application.
\<close>

theorem run_calls_follow_the_script:
  assumes run: "execute pf w rec = out" and r: "out = Returned res r \<or> out = Raised (Some r)"
  shows "scripted r \<and> (out = Returned res r \<longrightarrow> count_list (seams r) Call_Implement \<le> 1
     \<and> count_list (seams r) Call_Repair \<le> 1 \<and> count_list (seams r) Call_Accept \<le> 2
     \<and> count_list (seams r) Call_Evaluate \<le> 2 \<and> count_list (seams r) Call_Apply \<le> 1)"
proof -
  have "scripted r \<and> (out = Returned res r \<longrightarrow> recorded r)"
    using run r returned_scripted raised_scripted by blast
  then show ?thesis
    using scripted_counts [of r] by blast
qed

text \<open>The approved run called each seam once.\<close>

theorem run_calls_follow_the_script_witness:
  "\<exists>res r. execute sample_platform sample_world None = Returned res r \<and> scripted r
     \<and> seams r = [Call_Implement, Call_Accept, Call_Evaluate, Call_Apply]"
  using run_calls_follow_the_script [OF sample_execute] sample_execute
  by (auto simp: seams_def sample_end_def)

text \<open>C7: what a returned run reports is what its state directory holds. The states visited are a
  walk of the transition table from preflight, at most eight of them; the document on disk is
  sound, in the state reported, with the reason reported exactly when that state is terminal.
\<close>

theorem returned_run_is_recorded:
  assumes run: "execute pf w rec = Returned res r"
  shows "\<exists>vs d. rr_visited res = PREFLIGHT # vs \<and> walk PREFLIGHT vs \<and> length (rr_visited res) \<le> 8
     \<and> last (rr_visited res) = rr_state res \<and> read_state (rn_files r) = Inr d \<and> state d = rr_state res
     \<and> stop_reason d = (if rr_state res \<in> set TERMINAL_STATES then Some (rr_stop_reason res) else None)"
proof -
  have ends: "recorded r \<and> rr_state res = rn_state r \<and> rr_visited res = rn_visited r
      \<and> (rr_state res = APPROVED \<and> rr_stop_reason res = COMPLETED
         \<or> reported (rr_stop_reason res) r \<or> rr_state res \<notin> set TERMINAL_STATES)"
    using run by (cases rule: returned_cases) auto
  then obtain vs d where d: "rn_visited r = PREFLIGHT # vs" "walk PREFLIGHT vs"
    "last (rn_visited r) = rn_state r" "state_json (rn_files r) = Holds d" "sound_doc d" "state d = rn_state r"
    by (auto simp: recorded_def)
  have "stop_reason d = (if rr_state res \<in> set TERMINAL_STATES then Some (rr_stop_reason res) else None)"
    using ends d sound_doc_approved [OF d(5)] sound_doc_reason [OF d(5)]
    by (auto simp: reported_def TERMINAL_STATES_def)
  with ends d walk_length [OF d(2)] show ?thesis by (auto simp: read_state_iff)
qed

text \<open>The approved run ends with its document in the approved state.\<close>

theorem returned_run_is_recorded_witness:
  "\<exists>res r d. execute sample_platform sample_world None = Returned res r
     \<and> read_state (rn_files r) = Inr d \<and> state d = APPROVED \<and> stop_reason d = Some COMPLETED"
  using returned_run_is_recorded [OF sample_execute] sample_execute
  by (auto simp: sample_result_def result_of_def TERMINAL_STATES_def)

text \<open>C28: no paid call without money and time. However the run ends, every call to the implementer
  and to the evaluator was preceded by a reading of the ledger that left a positive balance, and had a
  window of 30 to 7200 seconds; every acceptance run had a positive window.
\<close>

theorem calls_are_funded_and_bounded:
  assumes "execute pf w rec = out" and "out = Returned res r \<or> out = Raised (Some r)"
  shows "list_all in_window (rn_calls r)"
  using in_windows.execute_keeps [OF assms] by (simp add: windows_def fresh_run_def)

text \<open>The windows of the approved run.\<close>

theorem calls_are_funded_and_bounded_witness:
  "\<exists>res r. execute sample_platform sample_world None = Returned res r \<and> list_all in_window (rn_calls r)
     \<and> rn_calls r = [Implement 5 1800, Accept 3568, Evaluate AUDITING 5 1800, Apply]"
  using calls_are_funded_and_bounded [OF sample_execute] sample_execute by (auto simp: sample_end_def)

text \<open>one clock for the whole run. The deadline is the one preflight set and no phase moves it,
  and a model call's window never reaches past it.
\<close>

theorem one_deadline_for_the_run:
  assumes run: "execute pf w rec = out" and r: "out = Returned res r \<or> out = Raised (Some r)"
    and t: "rv_task (w_repo w) = Some f"
  shows "rn_deadline r = w_clock w 0 + of_int (max_wall_clock_minutes (tf_task f) * 60)
     \<and> (\<forall>s q. model_seconds w r = (Inr s, q) \<longrightarrow> of_int s \<le> rn_deadline r - w_clock w (rn_tick r))"
proof -
  have "rn_deadline (core r) = w_clock w 0 + of_int (max_wall_clock_minutes (tf_task f) * 60)"
    using one_deadline.execute_keeps [OF run r] run_preflight_OkD(1) t
    by (fastforce simp: fresh_run_def)
  moreover have "of_int s \<le> rn_deadline r - w_clock w (rn_tick r)" if "model_seconds w r = (Inr s, q)" for s q
    using that model_seconds_within [of w r s q] by simp
  ultimately show ?thesis by simp
qed

text \<open>The approved run, an hour on the clock.\<close>

theorem one_deadline_for_the_run_witness:
  "\<exists>res r. execute sample_platform sample_world None = Returned res r \<and> rn_deadline r = 3600"
  using one_deadline_for_the_run [OF sample_execute, of sample_result sample_end sample_task_file] sample_execute
  by (auto simp: sample_world_def sample_repo_def sample_task_file_def sample_task_def)





section \<open>The audit\<close>

text \<open>a second round is owed to a new mechanism only. When a verdict asks for a repair, the reply
  was neither an approval nor a stop, every cited file is one the candidate changed, no mechanism
  it names was seen before, and a repair was still affordable; its mechanisms are remembered.
\<close>

theorem second_round_needs_a_new_mechanism:
  assumes run: "verdict pf w p rep n r = (Inr False, r')"
  shows "rep_status rep \<notin> {St_APPROVED, St_BLOCKED, St_FAILED}
     \<and> in_scope pf (rn_candidate_files r) (rep_findings rep)
     \<and> set (map fd_mechanism_id (rep_findings rep)) \<inter> set (rn_seen r) = {}
     \<and> repair (rn_rounds r) < max_repairs r
     \<and> rn_seen r' = rn_seen r @ map fd_mechanism_id (rep_findings rep)"
  using triple_InrD [OF triple_verdict_False run, of "rn_seen r" "rn_candidate_files r" "repair (rn_rounds r)" "max_repairs r"]
  by (simp add: round_state_def max_repairs_def)

text \<open>A finding on a changed file, in the first audit.\<close>

theorem second_round_needs_a_new_mechanism_witness:
  "\<exists>r'. verdict sample_platform sample_world AUDITING sample_finding_reply 0 sample_opened_changed = (Inr False, r')
     \<and> rn_seen r' = [''mech-1'']"
proof -
  obtain x r' where v: "verdict sample_platform sample_world AUDITING sample_finding_reply 0 sample_opened_changed = (x, r')"
    by (cases "verdict sample_platform sample_world AUDITING sample_finding_reply 0 sample_opened_changed")
  with sample_verdict have x: "x = Inr False" by auto
  from second_round_needs_a_new_mechanism [OF v [unfolded x]] show ?thesis
    using v x by (auto simp: sample_opened_changed_def sample_opened_def sample_finding_reply_def sample_finding_def)
qed

text \<open>the read-only proof. It lets the run go on exactly when the candidate derived again after
  the call has the fingerprint it had before and the operator's checkout shows no difference;
  a reading that is refused counts as a move, and a move is a failed run with its own reason.
\<close>

theorem evaluator_is_read_only:
  assumes "assert_read_only pf w c0 main0 r = (x, r')"
  shows "(x = Inr () \<longleftrightarrow> (\<exists>c1 main1.
       derive_candidate_changes (pf_fold pf) (pf_sha pf) (rn_identity r) (w_moment w (rn_tick r)) = Inr c1
     \<and> main_projection (w_moment w (Suc (rn_tick r))) = Inr main1
     \<and> cd_fingerprint c1 = cd_fingerprint c0 \<and> main_difference main0 main1 = Inr []))
   \<and> (x \<noteq> Inr () \<longrightarrow> x = Inl Escaped \<or> x = Inl (Stopped (stop_with EVALUATOR_MODIFIED_WORKSPACE FAILED)))"
  using assert_read_only_iff [OF assms] by (auto simp: workspace_moved_def split: sum.splits)

text \<open>An evaluator that writes nothing.\<close>

theorem evaluator_is_read_only_witness:
  "\<exists>x r'. assert_read_only sample_platform sample_world sample_candidate (''main'', []) (sample_end\<lparr>rn_tick := 50\<rparr>) = (x, r')
     \<and> x = Inr ()"
proof -
  obtain x r' where a: "assert_read_only sample_platform sample_world sample_candidate (''main'', []) (sample_end\<lparr>rn_tick := 50\<rparr>) = (x, r')"
    by (cases "assert_read_only sample_platform sample_world sample_candidate (''main'', []) (sample_end\<lparr>rn_tick := 50\<rparr>)")
  from evaluator_is_read_only [OF a] have "x = Inr ()"
    by (simp add: sample_end_def sample_derive sample_main sample_same)
  with a show ?thesis by blast
qed

text \<open>the evaluator's own stop lands in the blocked state. Whatever closed reason a blocked or
  failed reply names, the verdict stops the run with that reason in the blocked state, also where
  the table of the runner puts the reason in the failed one.
\<close>

theorem evaluator_reason_always_blocks:
  assumes "rep_status rep = St_BLOCKED \<or> rep_status rep = St_FAILED" and "rep_stop_reason rep = Some reason"
    and "verdict pf w p rep n r = (x, r')"
  shows "(x = Inl Escaped \<or> x = Inl (Stopped (stop_with reason BLOCKED)))
     \<and> (terminal_for reason = BLOCKED \<longleftrightarrow> reason \<notin> set FAILED_REASONS)"
  using assms
  by (auto simp: verdict_def record_findings_def seq_def modifies_def reads_def outside_def escape_unless_def
      result_def halt_with_def terminal_for_def split: if_splits)

text \<open>A reply that names a reason of the failed table.\<close>

theorem evaluator_reason_always_blocks_witness:
  "\<exists>x r'. verdict sample_platform sample_world AUDITING
       (sample_reply\<lparr>rep_status := St_FAILED, rep_stop_reason := Some TIMEOUT\<rparr>) 0 sample_opened = (x, r')
     \<and> (x = Inl Escaped \<or> x = Inl (Stopped (stop_with TIMEOUT BLOCKED))) \<and> terminal_for TIMEOUT = FAILED"
proof -
  let ?rep = "sample_reply\<lparr>rep_status := St_FAILED, rep_stop_reason := Some TIMEOUT\<rparr>"
  obtain x r' where v: "verdict sample_platform sample_world AUDITING ?rep 0 sample_opened = (x, r')"
    by (cases "verdict sample_platform sample_world AUDITING ?rep 0 sample_opened")
  from evaluator_reason_always_blocks [OF _ _ v, of TIMEOUT] v show ?thesis
    by (auto simp: terminal_for_def FAILED_REASONS_def)
qed

section \<open>The directory a run leaves\<close>

text \<open>a run that stops before its workspace strands its directory. It leaves a state document
  and no binding, and from then on every preflight that reads this directory is refused, whatever
  the repository and the manifest say.
\<close>

theorem early_stop_strands_the_directory:
  assumes run: "execute pf w rec = Returned res r" and early: "rn_workspace r = None"
    and start: "binding_json (rv_files (w_repo w)) = Missing" and v: "rv_files v = rn_files r"
  shows "state_json (rn_files r) \<noteq> Missing \<and> binding_json (rn_files r) = Missing
     \<and> (\<exists>x. run_preflight v = Preflight_Refused x)"
proof -
  have "unbound (core r)"
    by (rule no_binding.execute_keeps [OF run]) (simp_all add: unbound_def fresh_run_def start)
  then have b: "binding_json (rn_files r) = Missing" using early by (simp add: unbound_def)
  moreover have s: "state_json (rn_files r) \<noteq> Missing"
    using returned_scripted [OF run] by (auto simp: recorded_def)
  ultimately show ?thesis using half_state_refused [of v] v by auto
qed

text \<open>The run that asked for a gate.\<close>

theorem early_stop_strands_the_directory_witness:
  "\<exists>res r x. execute sample_platform gated_world None = Returned res r \<and> rr_state res = BLOCKED
     \<and> run_preflight (sample_repo\<lparr>rv_files := rn_files r\<rparr>) = Preflight_Refused x"
  using early_stop_strands_the_directory [OF gated_execute, of "sample_repo\<lparr>rv_files := rn_files gated_end\<rparr>"] gated_execute
  by (auto simp: gated_end_def sample_opened_def gated_world_def sample_world_def sample_repo_def no_files_def
      gated_result_def result_of_def)

text \<open>what preflight admits. The manifest is valid and names the current head as its baseline,
  grants nothing of the control plane, nothing is staged, every change in the tree is one the
  manifest declares, the control plane itself is unchanged, and the state directory is empty or
  that of a finished run of the same repository, baseline and manifest.
\<close>

theorem preflight_admits_only_a_clean_start:
  assumes ok: "run_preflight v = Preflight_Ok baseline f"
  shows "rv_task v = Some f \<and> TASK_SCHEMA (tf_task f) \<and> rv_head v = Some baseline
     \<and> t_baseline_sha (tf_task f) = baseline \<and> control_plane_changes v = Some []
     \<and> \<not> touches_control_plane (allowed_paths (tf_task f))
     \<and> (\<exists>x. rv_staged v = Some x \<and> \<not> nonblank x)
     \<and> (\<exists>ls. rv_status v = Some ls \<and> unexpected_changes (tf_task f) ls = [])
     \<and> (state_json (rv_files v) = Missing \<and> binding_json (rv_files v) = Missing
        \<or> (\<exists>d b. read_state (rv_files v) = Inr d \<and> read_binding (rv_files v) = Inr b
             \<and> state d \<in> set TERMINAL_STATES \<and> run_id d = b_run_id b \<and> b_repo_id b = rv_repo_id v
             \<and> b_baseline_sha b = baseline \<and> b_manifest_digest b = tf_digest f))"
proof -
  note facts = run_preflight_OkD [OF ok]
  obtain d where "assert_state_directory (rv_repo_id v) baseline (tf_digest f) False (rv_files v) = Inr d"
    using facts(6) by blast
  then have "state_json (rv_files v) = Missing \<and> binding_json (rv_files v) = Missing
        \<or> (\<exists>d b. read_state (rv_files v) = Inr d \<and> read_binding (rv_files v) = Inr b
             \<and> state d \<in> set TERMINAL_STATES \<and> run_id d = b_run_id b \<and> b_repo_id b = rv_repo_id v
             \<and> b_baseline_sha b = baseline \<and> b_manifest_digest b = tf_digest f)"
    by (auto simp: assert_state_directory_def assert_binding_def Let_def split: if_splits sum.splits)
  with facts show ?thesis by blast
qed

text \<open>The sample repository.\<close>

theorem preflight_admits_only_a_clean_start_witness:
  "rv_task sample_repo = Some sample_task_file \<and> TASK_SCHEMA sample_task"
  using preflight_admits_only_a_clean_start [OF sample_preflight] by (simp add: sample_task_file_def)


section \<open>Change sets\<close>

text \<open>C30: a verified change set is what the disk shows, authorised and declared. The reference tree,
  the operator's checkout and the manifest did not move during the call; every path of the set is
  allowed, not forbidden, not the manifest and not the control plane; and the reply declared
  exactly these paths.
\<close>

theorem verified_change_set_is_authorised:
  assumes run: "run_verified_implementation cf sha i m0 call m1 = Inr v"
  shows "\<exists>f rt it cs oc. bind_task i m0 = Inr f \<and> read_pair m1 = Inr (rt, it)
     \<and> semantic_changes rt it = Inr cs \<and> v = verified_set sha i oc cs \<and> call = Inr oc
     \<and> (\<forall>p\<in>set (changed_files v). \<not> is_control_plane cf p \<and> covered cf p (allowed_paths (tf_task f))
          \<and> \<not> covered cf p (forbidden_paths (tf_task f)) \<and> Some (fold_path cf p) \<noteq> map_option (fold_path cf) (tf_relative f))
     \<and> declares cf oc (changed_files v) \<and> main_snapshot m1 = main_snapshot m0
     \<and> (\<exists>g. m_task m1 = Some g \<and> tf_digest g = tf_digest f)"
proof -
  obtain f rt0 it0 main_before cs oc where run': "open_call i m0 = Inr (f, rt0, it0)"
    "main_snapshot m0 = Inr main_before" "verify_implementation cf i f main_before rt0 m1 = Inr cs"
    "call = Inr oc" "declaration_ok cf (i_run_id i) oc cs" "v = verified_set sha i oc cs"
    by (rule run_verified_implementation_InrD [OF run]) blast
  obtain rt it where pair: "unmoved_pair i f main_before rt0 m1 = Inr (rt, it)"
    "semantic_changes rt it = Inr cs" "authorized cf f cs = Inr ()"
    by (rule verify_implementation_InrD [OF run'(3)])
  note fixed = unmoved_pair_InrD [OF pair(1)]
  have "\<forall>p\<in>set (changed_files v). \<not> is_control_plane cf p \<and> covered cf p (allowed_paths (tf_task f))
          \<and> \<not> covered cf p (forbidden_paths (tf_task f)) \<and> Some (fold_path cf p) \<noteq> map_option (fold_path cf) (tf_relative f)"
    using pair(3) run'(6) by (cases "tf_relative f") (auto simp: authorized_iff authorize_ok_iff)
  moreover have "\<exists>g. m_task m1 = Some g \<and> tf_digest g = tf_digest f"
    using fixed(4) by (auto simp: manifest_moved_def split: option.splits)
  ultimately show ?thesis
    using run' pair fixed open_call_InrD(1) [OF run'(1)] declaration_ok_declares [OF run'(5)] by fastforce
qed

text \<open>The sample call.\<close>

theorem verified_change_set_is_authorised_witness:
  "\<exists>v. run_verified_implementation (pf_fold sample_platform) (pf_sha sample_platform) (sample_identity (hex 32))
       (sample_moment []) (Inr sample_outcome) (sample_moment sample_added) = Inr v
     \<and> declares (pf_fold sample_platform) sample_outcome (changed_files v)"
  using verified_change_set_is_authorised [OF sample_verify] sample_verify by auto

text \<open>C31: the change set is the whole change. Replayed on the implementer's tree as it was before
  the call, it gives every file of the tree after the call, with its mode and its content, and
  the fingerprint handed on is the digest of these changes.
\<close>

theorem change_set_replays:
  assumes run: "run_verified_implementation cf sha i m0 call m1 = Inr v"
  shows "\<exists>rt0 it0 rt1 it1 cs. read_pair m0 = Inr (rt0, it0) \<and> read_pair m1 = Inr (rt1, it1)
     \<and> changed_files v = map path cs \<and> fingerprint v = fingerprint_of sha cs
     \<and> replay cs (files_of it0) = files_of it1"
proof -
  obtain f rt0 it0 main_before cs oc where run': "open_call i m0 = Inr (f, rt0, it0)" "same_tree rt0 it0"
    "verify_implementation cf i f main_before rt0 m1 = Inr cs" "v = verified_set sha i oc cs"
    by (rule run_verified_implementation_InrD [OF run]) blast
  obtain rt it where pair: "unmoved_pair i f main_before rt0 m1 = Inr (rt, it)" "semantic_changes rt it = Inr cs"
    by (rule verify_implementation_InrD [OF run'(3)])
  have p0: "read_pair m0 = Inr (rt0, it0)" by (rule open_call_InrD(2) [OF run'(1)])
  have p1: "read_pair m1 = Inr (rt, it)" "same_tree rt rt0" using unmoved_pair_InrD [OF pair(1)] by auto
  note ok = read_pair_ok [OF p0] read_pair_ok [OF p1(1)]
  have "map_of it0 = map_of rt" using same_tree_lookup ok run'(2) p1(2) by metis
  then have "files_of it0 = files_of rt" by (simp add: files_of_def fun_eq_iff)
  with replay_semantic_changes [OF pair(2)] ok p0 p1(1) run'(4) show ?thesis
    by (auto simp: verified_set_def)
qed

text \<open>The sample call adds one file.\<close>

theorem change_set_replays_witness:
  "\<exists>rt0 it0 rt1 it1 cs. read_pair (sample_moment []) = Inr (rt0, it0)
     \<and> read_pair (sample_moment sample_added) = Inr (rt1, it1) \<and> map path cs = [''src/b.py'']
     \<and> replay cs (files_of it0) = files_of it1"
  using change_set_replays [OF sample_verify] by (metis sample_verified_fields(3))

text \<open>a repair never widens the candidate. Every path of the set after a repair is, in the one
  spelling, a path of the candidate it repaired, and what it repaired was exactly that candidate.
\<close>

theorem repair_never_widens:
  assumes run: "run_verified_repair cf sha i fp files m0 call m1 = Inr v"
  shows "fold_path cf ` set (changed_files v) \<subseteq> fold_path cf ` set files
     \<and> (\<exists>rt it prior. read_pair m0 = Inr (rt, it) \<and> semantic_changes rt it = Inr prior
          \<and> fingerprint_of sha prior = fp \<and> (\<lambda>c. fold_path cf (path c)) ` set prior = fold_path cf ` set files)"
proof -
  obtain f rt it prior main_before delta whole oc where run': "open_call i m0 = Inr (f, rt, it)"
    "semantic_changes rt it = Inr prior" "fingerprint_of sha prior = fp"
    "(\<lambda>c. fold_path cf (path c)) ` set prior = fold_path cf ` set files"
    "verify_repair cf i f (map (fold_path cf) files) main_before rt it m1 = Inr (delta, whole)"
    "v = verified_set sha i oc whole"
    by (rule run_verified_repair_InrD [OF run]) blast
  obtain rt' it' where pair: "unmoved_pair i f main_before rt m1 = Inr (rt', it')"
    "semantic_changes rt' it' = Inr whole" "semantic_changes it it' = Inr delta"
    "\<forall>c\<in>set delta. fold_path cf (path c) \<in> set (map (fold_path cf) files)"
    by (rule verify_repair_InrD [OF run'(5)])
  have p0: "read_pair m0 = Inr (rt, it)" by (rule open_call_InrD(2) [OF run'(1)])
  have p1: "read_pair m1 = Inr (rt', it')" "same_tree rt' rt" using unmoved_pair_InrD [OF pair(1)] by auto
  note ok = read_pair_ok [OF p0] read_pair_ok [OF p1(1)]
  have whole: "semantic_changes rt it' = Inr whole"
    using semantic_changes_same_tree [of rt' rt it'] p1(2) ok pair(2) by simp
  have "fold_path cf p \<in> fold_path cf ` set files" if p: "p \<in> path ` set whole" for p
  proof -
    have "p \<in> path ` set prior \<or> p \<in> path ` set delta"
      using repaired_path_was_prior [OF run'(2) whole pair(3)] ok p by blast
    then show ?thesis
    proof
      assume "p \<in> path ` set prior"
      then have "fold_path cf p \<in> (\<lambda>c. fold_path cf (path c)) ` set prior" by blast
      then show ?thesis by (simp only: run'(4))
    next
      assume "p \<in> path ` set delta"
      then show ?thesis using pair(4) by auto
    qed
  qed
  then show ?thesis using run' p0 by auto
qed

text \<open>A repair of the sample candidate that rewrites its one file.\<close>

theorem repair_never_widens_witness:
  "\<exists>v. run_verified_repair (pf_fold sample_platform) (pf_sha sample_platform) (sample_identity (hex 32))
       (hex 64) [''src/b.py''] (sample_moment sample_added) (Inr sample_outcome) (sample_moment sample_rewritten) = Inr v
     \<and> fold_path (pf_fold sample_platform) ` set (changed_files v) \<subseteq> fold_path (pf_fold sample_platform) ` {''src/b.py''}"
  using repair_never_widens [OF sample_repair] sample_repair by auto

text \<open>the fingerprint separates change sets. Where the digest has no collision on the two texts,
  two sets of changes whose fields hold no separator have one fingerprint only if they are the
  same list.
\<close>

theorem fingerprint_separates_change_sets:
  assumes "\<forall>c\<in>set cs \<union> set ds. change_ok c"
    and "sha (concat (map change_line cs)) = sha (concat (map change_line ds))
      \<Longrightarrow> concat (map change_line cs) = concat (map change_line ds)"
  shows "fingerprint_of sha cs = fingerprint_of sha ds \<longleftrightarrow> cs = ds"
  using assms change_lines_inject [of cs ds] by (auto simp: fingerprint_of_def)

text \<open>Two sets that differ in a digest only, under a digest that is the identity.\<close>

theorem fingerprint_separates_change_sets_witness:
  "fingerprint_of (\<lambda>x. x) [sample_change] \<noteq> fingerprint_of (\<lambda>x. x) [sample_change\<lparr>sha256 := hex 63\<rparr>]"
proof -
  have "\<forall>c\<in>set [sample_change] \<union> set [sample_change\<lparr>sha256 := hex 63\<rparr>]. change_ok c"
    by (simp add: change_ok_def sample_change_def NUL_def hex_def)
  from fingerprint_separates_change_sets [OF this, of "\<lambda>x. x"] show ?thesis
    by (simp add: sample_change_def hex_def numeral_eq_Suc)
qed

text \<open>a violation outranks the failure of the call. When the disk after the call violates a
  gate, the result is that violation, whatever the call itself answered or raised.
\<close>

theorem violation_outranks_the_call:
  assumes "open_call i m0 = Inr (f, rt, it)" and "same_tree rt it" and "main_snapshot m0 = Inr main_before"
    and "verify_implementation cf i f main_before rt m1 = Inl e"
  shows "run_verified_implementation cf sha i m0 call m1 = Inl (change_failure e)"
  using assms by (simp add: run_verified_implementation_def)

text \<open>A call that fails after it wrote outside the allowed paths.\<close>

theorem violation_outranks_the_call_witness:
  "run_verified_implementation (pf_fold sample_platform) (pf_sha sample_platform) (sample_identity (hex 32))
     (sample_moment []) (Inl (plain_failure ''execution'' ''ModelProcessFailed'' (Some MODEL_PROCESS_FAILED)))
     (sample_moment sample_outside) = Inl (change_failure (UnsafeChange PATH_NOT_ALLOWED))"
  by (rule violation_outranks_the_call [OF sample_open sample_open_same sample_open_main sample_violation])

section \<open>Acceptance\<close>

text \<open>C32: a passed receipt proves its commands. A receipt a run leaves new on the disk names the
  identity and the candidate derived in that run, and it says passed only if every command of the
  manifest completed with exit code zero, each under the manifest the receipt names.
\<close>

theorem passed_receipt_proves_its_commands:
  assumes "run_acceptance cf sha digit dec i v timeout output w old = (res, Some x)" and "old \<noteq> Some x"
  shows "\<exists>c. admitted cf sha i v w c \<and> names_candidate cf sha i c x \<and> r_receipt_id x = aw_receipt_id w
     \<and> (r_status x = RECEIPT_PASSED \<longrightarrow> all_green i w c)"
  using run_acceptance_receipt [OF assms(1)] assms(2) by auto

text \<open>The receipt of the sample run.\<close>

theorem passed_receipt_proves_its_commands_witness:
  "\<exists>c. names_candidate (pf_fold sample_platform) (pf_sha sample_platform) (sample_identity (hex 32)) c sample_receipt
     \<and> all_green (sample_identity (hex 32)) sample_gate c"
  using passed_receipt_proves_its_commands [OF sample_accept] by (auto simp: sample_receipt_def)

text \<open>the application believes exactly the green runs. For the report and the receipt an
  acceptance run hands over, both checks of the application succeed on the derived candidate if
  and only if every command was green.
\<close>

theorem application_believes_green_runs_only:
  assumes "run_acceptance cf sha digit dec i v timeout output w old = (Inr rp, d)"
  shows "\<exists>c. admitted cf sha i v w c
     \<and> (assert_report cf sha i rp c \<and> assert_receipt cf sha i rp c d \<longleftrightarrow> all_green i w c)"
  using run_acceptance_report [OF assms] by blast

text \<open>The sample run.\<close>

theorem application_believes_green_runs_only_witness:
  "\<exists>c. admitted (pf_fold sample_platform) (pf_sha sample_platform) (sample_identity (hex 32)) sample_verified sample_gate c
     \<and> (assert_report (pf_fold sample_platform) (pf_sha sample_platform) (sample_identity (hex 32)) sample_report c
        \<and> assert_receipt (pf_fold sample_platform) (pf_sha sample_platform) (sample_identity (hex 32)) sample_report c (Some sample_receipt)
        \<longleftrightarrow> all_green (sample_identity (hex 32)) sample_gate c)"
  using application_believes_green_runs_only [OF sample_accept] .

text \<open>what a failing test run may say. A diagnostic list that is not empty names only tests of the
  selected files that the candidate's own source defines, each once, with counts that are positive
  and sum to at most twenty.
\<close>

theorem diagnostics_name_known_tests:
  assumes "classify_pytest_failures digit tree cid selected text = ds" and "ds \<noteq> []"
  shows "sum_list (map case_count ds) \<le> MAX_DIAGNOSTICS \<and> distinct (map (\<lambda>d. (test_file d, test_name d)) ds)
     \<and> (\<forall>d\<in>set ds. dg_command_id d = pytest_selected \<and> test_file d \<in> set selected \<and> is_test_name (test_name d)
          \<and> 1 \<le> case_count d \<and> (\<exists>names. tree (test_file d) = Some names \<and> test_name d \<in> set names))"
proof -
  obtain t ls n nodes keys where facts: "cid = pytest_selected" "split_nodes selected nodes = Some keys"
    "length keys = n" "n \<le> MAX_DIAGNOSTICS"
    "list_all (\<lambda>(f, name). case tree f of None \<Rightarrow> False | Some names \<Rightarrow> name \<in> set names) (first_order keys)"
    "ds = map (\<lambda>k. \<lparr>dg_command_id = cid, test_file = fst k, test_name = snd k,
       case_count = count_list keys k\<rparr>) (first_order keys)"
    by (rule classify_account [OF assms]) blast
  have "sum_list (map case_count ds) = n"
    using sum_count_first_order [of keys] facts(3) by (simp add: facts(6) comp_def)
  moreover have "distinct (map (\<lambda>d. (test_file d, test_name d)) ds)"
    by (simp add: facts(6) comp_def)
  moreover have "dg_command_id d = pytest_selected \<and> test_file d \<in> set selected \<and> is_test_name (test_name d)
      \<and> 1 \<le> case_count d \<and> (\<exists>names. tree (test_file d) = Some names \<and> test_name d \<in> set names)"
    if "d \<in> set ds" for d
  proof -
    from that facts(6) obtain k where k: "k \<in> set keys" "test_file d = fst k" "test_name d = snd k"
      "dg_command_id d = cid" "case_count d = count_list keys k" by auto
    have "count_list keys k \<noteq> 0" using k(1) by (simp add: count_list_0_iff)
    moreover have "case tree (fst k) of None \<Rightarrow> False | Some names \<Rightarrow> snd k \<in> set names"
      using facts(5) k(1) by (auto simp: list_all_iff)
    ultimately show ?thesis
      using k facts(1) split_nodes_SomeD [OF facts(2)] by (auto split: option.splits)
  qed
  ultimately show ?thesis using facts(4) by blast
qed

text \<open>One failing test of one selected file.\<close>

theorem diagnostics_name_known_tests_witness:
  "\<exists>ds. classify_pytest_failures (pf_digit sample_platform) sample_tests pytest_selected [u ''t.py''] (Some sample_output) = ds
     \<and> ds \<noteq> [] \<and> sum_list (map case_count ds) \<le> 20"
  using diagnostics_name_known_tests [OF sample_classified] sample_classified by (auto simp: MAX_DIAGNOSTICS_def)

section \<open>The state document\<close>

text \<open>C33: one legal step. An advance goes from a state that is not terminal along an edge of the
  table, keeps the identity of the run and the budget relation, writes a document that reads back,
  touches neither the binding nor the backup, and brings the run closer to its end; from a terminal
  state every advance is refused.
\<close>

theorem advance_is_one_legal_step:
  assumes "read_state fs = Inr cur"
  shows "(state cur \<in> set TERMINAL_STATES \<longrightarrow> advance t c fs = Inl IllegalTransition)
     \<and> (\<forall>d fs'. advance t c fs = Inr (d, fs') \<longrightarrow>
          transition (state cur) t \<and> state d = t \<and> moves_left t < moves_left (state cur)
        \<and> run_id d = run_id cur \<and> baseline_sha d = baseline_sha cur \<and> started_at d = started_at cur
        \<and> requested_models d = requested_models cur \<and> read_state fs' = Inr d
        \<and> \<not> amount_less (max_usd (budget d)) (spent_usd (budget d))
        \<and> binding_json fs' = binding_json fs \<and> backup_json fs' = backup_json fs)"
proof -
  have "transition (state cur) t \<and> state d = t \<and> moves_left t < moves_left (state cur)
        \<and> run_id d = run_id cur \<and> baseline_sha d = baseline_sha cur \<and> started_at d = started_at cur
        \<and> requested_models d = requested_models cur \<and> read_state fs' = Inr d
        \<and> \<not> amount_less (max_usd (budget d)) (spent_usd (budget d))
        \<and> binding_json fs' = binding_json fs \<and> backup_json fs' = backup_json fs"
    if adv: "advance t c fs = Inr (d, fs')" for d fs'
  proof -
    obtain cur' where a: "state_json fs = Holds cur'" "transition (state cur') t" "keeps_identity c cur'"
      "d = (if t \<in> set TERMINAL_STATES then merged c t cur' else merged c t cur'\<lparr>stop_reason := None\<rparr>)"
      "sound_doc d" "fs' = fs\<lparr>state_json := Holds d\<rparr>"
      using advance_InrD [OF adv] by blast
    moreover have "cur' = cur" using assms a(1) by (simp add: read_state_iff)
    ultimately show ?thesis
      using keeps_identity_merged [OF a(3)] transition_decreases [OF a(2)]
      by (auto simp: read_state_iff sound_doc_def split: if_splits)
  qed
  moreover have "advance t c fs = Inl IllegalTransition" if "state cur \<in> set TERMINAL_STATES"
    using assms that terminal_no_transition by (simp add: advance_def assert_transition_cases)
  ultimately show ?thesis by blast
qed

text \<open>The document of the approved run takes no further step.\<close>

theorem advance_is_one_legal_step_witness:
  "advance IMPLEMENTING no_changes (rn_files sample_end) = Inl IllegalTransition"
proof -
  have "read_state (rn_files sample_end) = Inr (sample_doc APPROVED audited_round (Some []) (Some COMPLETED))"
    using sound_sample_doc [of audited_round APPROVED "Some COMPLETED" "Some []"]
    by (simp add: read_state_iff sample_end_def)
  from advance_is_one_legal_step [OF this] show ?thesis by (simp add: sample_doc_def TERMINAL_STATES_def)
qed

end
