(* ===== verification/Spec2Isabelle.thy ===== *)
theory Spec2Isabelle
  imports Ingest_Properties Retention_Properties Collections_Properties Organisation_Properties Eval_Properties Agent_Properties Application_Properties
begin

text \<open>
  Verification development for a retrieval-augmented-generation pipeline in Python: its ingest
  database (\<open>src/pipeline/index\<close>) and its bounded agent loop (\<open>src/tools/agent_loop\<close>).

  \<^bold>\<open>The ingest database.\<close> \<open>Ingest_State\<close> holds the tables as lists of records with the triggers
  of \<open>schema.sql\<close>; one theory per group of operations of \<open>db.py\<close> follows: \<open>Candidate_Gate\<close> (offers
  and publication), \<open>Attempt_Lease\<close> (begin, authority, heartbeat, verdict), \<open>Generations\<close> (chunks,
  copies, promotion), \<open>Lifecycle\<close> (versions, activation, archive), \<open>Job_Queue\<close>. Every operation is a
  function from a state to a result or an error and a state; a transaction that raises returns the
  state it began with. \<open>Ingest_Machine\<close> makes one step relation of all of them, \<open>Ingest_Invariant\<close>
  proves the invariant of its reachable states (an \<open>invariant_machine\<close>), \<open>History\<close> what never
  changes again (\<open>stable_fact\<close>), \<open>Ingest_Archive\<close> that archive and ingest exclude each other,
  \<open>Ingest_Properties\<close> states the properties and \<open>Ingest_Samples\<close> the histories their witnesses use.
  The events of this machine are the operations of the pipeline; the purge of a document is an event
  of the governed machine below, and \<open>upsert_document\<close> and \<open>clear_chunks_for_document\<close>, which are
  modelled but called by nothing in the program, are events of none.

  \<^bold>\<open>Retention, purge and collections.\<close> \<open>Retention\<close> models the archive schedule, the legal holds
  and the purge tables of \<open>db.py\<close> with the loop of \<open>purge_worker.py\<close> over the ingest tables;
  \<open>Ingest_Frame\<close> shows that no ingest operation purges a document or writes outside of its lease,
  and \<open>Retention_Machine\<close> makes one step relation of both (interpretations \<open>governance\<close> and
  \<open>ledgers\<close>); \<open>Retention_Trail\<close> shows what no transaction removes, the purge included (\<open>trails\<close>). \<open>Collections\<close> models collections, tags, memberships and the scope of a retrieval
  over the same documents, with the invariant \<open>catalogue_ok\<close>. \<open>Retention_Properties\<close> and
  \<open>Collections_Properties\<close> state the properties, \<open>Retention_Samples\<close> the histories of the witnesses.

  \<^bold>\<open>The organisation.\<close> \<open>Topology\<close> models the validator of \<open>pipeline/api/org_policy.py\<close> and
  characterises the charts it accepts, \<open>Organisation\<close> the \<open>org_\<close> tables with their triggers and
  the operations of \<open>db.py\<close> on them, \<open>Organisation_Machine\<close> their step relation with its invariant
  (interpretations \<open>organisations\<close> and \<open>org_ledgers\<close>), the closure as the ancestor relation and
  monitoring as an order. The closure is computed with the number of positions as fuel, which is
  proved enough. \<open>Organisation_Properties\<close> states the properties. The policy epoch and the
  architects of \<open>Retention\<close> are those of this organisation, moved there by its events
  \<open>Amend\<close> and \<open>Appoint\<close>.

  \<^bold>\<open>Evaluation datasets.\<close> \<open>Json_Text\<close> models what the program uses of \<open>json\<close> and UTF-8 and
  proves that what is printed reads back, \<open>Eval_Contract\<close> the validators, canonical bytes and reader
  of \<open>pipeline/evaluation/datasets.py\<close>, \<open>Eval_Datasets\<close> the \<open>eval_\<close> tables with their policies and
  the operations of \<open>db.py\<close> over the organisation, \<open>Eval_Machine\<close> their step relation together with
  the organisation's (interpretations \<open>evaluations\<close> and \<open>seals\<close>), \<open>Eval_Accepted\<close> when a replacement
  and a publication succeed. \<open>Eval_Properties\<close> states the properties. The fuel of the reader is the
  length of the text, which is enough for every printed value.

  \<^bold>\<open>The agent loop.\<close> \<open>Agent_Contract\<close> has the closed vocabularies and the transition table,
  \<open>Agent_State\<close> the state directory, \<open>Agent_Task\<close> the manifest and the command registry,
  \<open>Change_Scope\<close> the derivation and authorisation of change sets, \<open>Acceptance\<close> the test run and its
  receipt, \<open>Agent_Preflight\<close> the gates before a run, \<open>Agent_Application\<close> the transactional move of an
  accepted candidate into the operator's checkout, \<open>Agent_Holders\<close> the recovery of every crashed
  application of a repository, with which each run and each resumption begins, \<open>Agent_Runner\<close> one
  run and its resumption. Code
  that changes a state and may raise is a computation of \<open>Phases\<close>, whose Hoare rules the proofs
  follow. \<open>Agent_Logic\<close>, \<open>Agent_Walk\<close> and \<open>Agent_Calls\<close> prove what every run keeps, from triples per
  phase; \<open>Agent_Rollback\<close>, \<open>Agent_Atomic\<close>, \<open>Agent_Delivery\<close> and \<open>Agent_Recovery\<close> prove that an
  application is all or nothing and that a crash is taken back, over moves as relations between
  stores. They assume nothing about the operating system: every call and every write of the journal
  may fail, fail to close, be interrupted or kill the process, and \<open>writable\<close> only marks the exits
  that a raising write of the journal can take. \<open>faultless\<close> (everything works) is the hypothesis of
  the progress of a recovery alone; \<open>Agent_Types\<close> proves that the disk stays a tree. \<open>Agent_Properties\<close> and
  \<open>Application_Properties\<close> state the properties.

  \<^bold>\<open>Outside of the model.\<close> Hash functions, case folding, decoding, the operating system and the
  language models are parameters: a \<open>world\<close> record says what every call of them answers, or the tick
  at which it fails or kills the process. The length of a journal file is not modelled: one beyond the
  ceiling of \<open>application.py\<close> is a read that fails. Loops are recursions over lists; fuel is used where it is named above.

  \<^bold>\<open>Not modelled.\<close> The web API, retrieval, extraction, language normalisation, answer validation,
  the control-plane database, evidence, reviews and the search SQL of \<open>db.py\<close>, the
  cleaning of files on disk, finalization, the transports of each operating
  system, model servers and scripts: they are listed with their reasons in the manifest.
\<close>

end
